(* ===== verification/Hoc_Prelude.thy ===== *)
theory Hoc_Prelude
  imports
    Complex_Main
    "HOL-Library.Char_ord"
    "HOL-Library.List_Lexorder"
    "HOL-Library.Product_Lexorder"
    "HOL-Library.AList"
    "HOL-Library.Sublist"
begin

text \<open>
  Shared vocabulary of the development.

  \<^item> Effects: a Python call that may raise and may change state is a function
    \<open>'w \<Rightarrow> ('e + 'a) \<times> 'w\<close>. An exception keeps the state reached so far, as it does in
    Python. \<open>retE\<close>, \<open>raiseE\<close>, \<open>bindE\<close>, \<open>catchE\<close>, \<open>attemptE\<close> and \<open>mapE\<close> build such
    calls; \<open>wp\<close> is the weakest precondition of a call for a normal and an exceptional
    postcondition, and the collection \<open>wp_rules\<close> computes it over the structure of a call.
  \<^item> Frames: \<open>keeps f m\<close> says that the call \<open>m\<close> never changes the view \<open>f\<close> of the
    state; the collection \<open>keeps_rules\<close> proves it over the structure of a call.
  \<^item> Python strings and dicts: prefix tests, \<open>partition\<close>, decimal numbers, and the
    insertion-ordered dict as an association list (\<open>AList.update\<close> keeps the position of an
    existing key and appends a new one, as a Python dict does).
\<close>

section \<open>Collections of facts\<close>

named_theorems wp_rules "weakest preconditions of calls"
named_theorems keeps_rules "calls that leave a view of the state unchanged"
named_theorems hoc_defs "definitions of the pure helpers of a component"

section \<open>Calls that raise and change state\<close>

type_synonym ('w, 'e, 'a) eff = "'w \<Rightarrow> ('e + 'a) \<times> 'w"

definition retE :: "'a \<Rightarrow> ('w, 'e, 'a) eff" where
  "retE x = (\<lambda>w. (Inr x, w))"

definition raiseE :: "'e \<Rightarrow> ('w, 'e, 'a) eff" where
  "raiseE e = (\<lambda>w. (Inl e, w))"

definition bindE :: "('w, 'e, 'a) eff \<Rightarrow> ('a \<Rightarrow> ('w, 'e, 'b) eff) \<Rightarrow> ('w, 'e, 'b) eff" where
  "bindE m f = (\<lambda>w. case m w of (Inl e, w') \<Rightarrow> (Inl e, w') | (Inr x, w') \<Rightarrow> f x w')"

definition catchE :: "('w, 'e, 'a) eff \<Rightarrow> ('e \<Rightarrow> ('w, 'f, 'a) eff) \<Rightarrow> ('w, 'f, 'a) eff" where
  "catchE m h = (\<lambda>w. case m w of (Inl e, w') \<Rightarrow> h e w' | (Inr x, w') \<Rightarrow> (Inr x, w'))"

definition liftE :: "'e + 'a \<Rightarrow> ('w, 'e, 'a) eff" where
  "liftE r = (\<lambda>w. (r, w))"

definition getsE :: "('w \<Rightarrow> 'a) \<Rightarrow> ('w, 'e, 'a) eff" where
  "getsE f = (\<lambda>w. (Inr (f w), w))"

definition modifyE :: "('w \<Rightarrow> 'w) \<Rightarrow> ('w, 'e, unit) eff" where
  "modifyE f = (\<lambda>w. (Inr (), f w))"

definition stateE :: "('w \<Rightarrow> 'a \<times> 'w) \<Rightarrow> ('w, 'e, 'a) eff" where
  "stateE f = (\<lambda>w. case f w of (x, w') \<Rightarrow> (Inr x, w'))"

text \<open>\<open>try: x = call() except Exception as exc\<close>: the outcome of a call as a value.\<close>

definition attemptE :: "('w, 'e, 'a) eff \<Rightarrow> ('w, 'f, 'e + 'a) eff" where
  "attemptE m = (\<lambda>w. case m w of (r, w') \<Rightarrow> (Inr r, w'))"

text \<open>A loop over a list: the calls run in order and the first exception stops the loop.\<close>

primrec mapE :: "('a \<Rightarrow> ('w, 'e, 'b) eff) \<Rightarrow> 'a list \<Rightarrow> ('w, 'e, 'b list) eff" where
  "mapE f [] = retE []"
| "mapE f (x # xs) = bindE (f x) (\<lambda>y. bindE (mapE f xs) (\<lambda>ys. retE (y # ys)))"

definition forE :: "'a list \<Rightarrow> ('a \<Rightarrow> ('w, 'e, unit) eff) \<Rightarrow> ('w, 'e, unit) eff" where
  "forE xs f = bindE (mapE f xs) (\<lambda>_. retE ())"

lemmas eff_defs = retE_def raiseE_def bindE_def catchE_def liftE_def getsE_def modifyE_def stateE_def

lemma bindE_assoc: "bindE (bindE m f) g = bindE m (\<lambda>x. bindE (f x) g)"
  by (rule ext) (simp add: bindE_def split: prod.splits sum.splits)

lemma bindE_Inr: "bindE m f w = (Inr y, w') \<longleftrightarrow> (\<exists>x w1. m w = (Inr x, w1) \<and> f x w1 = (Inr y, w'))"
  by (auto simp: bindE_def split: prod.splits sum.splits)

lemma bindE_retE [simp]: "bindE (retE x) f = f x"
  by (rule ext) (simp add: bindE_def retE_def)

lemma bindE_raiseE [simp]: "bindE (raiseE e) f = raiseE e"
  by (rule ext) (simp add: bindE_def raiseE_def)

lemma bindE_retE_right [simp]: "bindE m retE = m"
  by (rule ext) (simp add: bindE_def retE_def split: prod.splits sum.splits)

lemma catchE_retE [simp]: "catchE (retE x) h = retE x"
  by (rule ext) (simp add: catchE_def retE_def)

lemma catchE_raiseE [simp]: "catchE (raiseE e) h = h e"
  by (rule ext) (simp add: catchE_def raiseE_def)

subsection \<open>Weakest preconditions\<close>

definition wp :: "('w, 'e, 'a) eff \<Rightarrow> ('a \<Rightarrow> 'w \<Rightarrow> bool) \<Rightarrow> ('e \<Rightarrow> 'w \<Rightarrow> bool) \<Rightarrow> 'w \<Rightarrow> bool" where
  "wp m Q R w = (case m w of (Inl e, w') \<Rightarrow> R e w' | (Inr x, w') \<Rightarrow> Q x w')"

lemma wpD:
  "wp m Q R w \<Longrightarrow> m w = (Inr x, w') \<Longrightarrow> Q x w'"
  "wp m Q R w \<Longrightarrow> m w = (Inl e, w') \<Longrightarrow> R e w'"
  by (simp_all add: wp_def)

lemma wpI:
  "(\<And>x w'. m w = (Inr x, w') \<Longrightarrow> Q x w') \<Longrightarrow> (\<And>e w'. m w = (Inl e, w') \<Longrightarrow> R e w') \<Longrightarrow> wp m Q R w"
  by (auto simp: wp_def split: prod.splits sum.splits)

lemma wp_mono:
  "wp m Q R w \<Longrightarrow> (\<And>x w'. Q x w' \<Longrightarrow> Q' x w') \<Longrightarrow> (\<And>e w'. R e w' \<Longrightarrow> R' e w') \<Longrightarrow> wp m Q' R' w"
  by (auto simp: wp_def split: prod.splits sum.splits)

lemma wp_conj:
  "wp m Q R w \<Longrightarrow> wp m Q' R' w \<Longrightarrow> wp m (\<lambda>x w'. Q x w' \<and> Q' x w') (\<lambda>e w'. R e w' \<and> R' e w') w"
  by (auto simp: wp_def split: prod.splits sum.splits)

lemma wp_true [simp]: "wp m (\<lambda>_ _. True) (\<lambda>_ _. True) w"
  by (auto simp: wp_def split: prod.splits sum.splits)

lemma wp_retE [wp_rules]: "wp (retE x) Q R = Q x"
  by (rule ext) (simp add: wp_def retE_def)

lemma wp_raiseE [wp_rules]: "wp (raiseE e) Q R = R e"
  by (rule ext) (simp add: wp_def raiseE_def)

lemma wp_bindE [wp_rules]: "wp (bindE m f) Q R = wp m (\<lambda>x. wp (f x) Q R) R"
  by (rule ext) (simp add: wp_def bindE_def split: prod.splits sum.splits)

lemma wp_catchE [wp_rules]: "wp (catchE m h) Q R = wp m Q (\<lambda>e. wp (h e) Q R)"
  by (rule ext) (simp add: wp_def catchE_def split: prod.splits sum.splits)

lemma wp_liftE [wp_rules]: "wp (liftE r) Q R = (case r of Inl e \<Rightarrow> R e | Inr x \<Rightarrow> Q x)"
  by (rule ext) (simp add: wp_def liftE_def split: sum.splits)

lemma wp_getsE [wp_rules]: "wp (getsE f) Q R = (\<lambda>w. Q (f w) w)"
  by (rule ext) (simp add: wp_def getsE_def)

lemma wp_modifyE [wp_rules]: "wp (modifyE f) Q R = (\<lambda>w. Q () (f w))"
  by (rule ext) (simp add: wp_def modifyE_def)

lemma wp_stateE [wp_rules]: "wp (stateE f) Q R = (\<lambda>w. case f w of (x, w') \<Rightarrow> Q x w')"
  by (rule ext) (simp add: wp_def stateE_def split: prod.splits)

lemma wp_attemptE [wp_rules]:
  "wp (attemptE m) Q R = wp m (\<lambda>x. Q (Inr x)) (\<lambda>e. Q (Inl e))"
  by (rule ext) (simp add: wp_def attemptE_def split: prod.splits sum.splits)

lemma wp_if [wp_rules]: "wp (if b then m else n) Q R = (if b then wp m Q R else wp n Q R)"
  by simp

lemma wp_case_option [wp_rules]:
  "wp (case z of None \<Rightarrow> m | Some x \<Rightarrow> f x) Q R
    = (case z of None \<Rightarrow> wp m Q R | Some x \<Rightarrow> wp (f x) Q R)"
  by (cases z) simp_all

lemma wp_case_sum [wp_rules]:
  "wp (case z of Inl e \<Rightarrow> g e | Inr x \<Rightarrow> f x) Q R
    = (case z of Inl e \<Rightarrow> wp (g e) Q R | Inr x \<Rightarrow> wp (f x) Q R)"
  by (cases z) simp_all

lemma wp_case_prod [wp_rules]:
  "wp (case z of (x, y) \<Rightarrow> f x y) Q R = (case z of (x, y) \<Rightarrow> wp (f x y) Q R)"
  by (cases z) simp_all

text \<open>
  The invariant rule of a loop: what holds before the loop and is kept by every iteration,
  normal or raising, holds after it.
\<close>

lemma wp_mapE:
  assumes step: "\<And>x w. x \<in> set xs \<Longrightarrow> I w \<Longrightarrow> wp (f x) (\<lambda>_. I) R w"
    and start: "I w"
  shows "wp (mapE f xs) (\<lambda>_. I) R w"
  using step start
proof (induction xs arbitrary: w)
  case Nil
  then show ?case by (simp add: wp_rules)
next
  case (Cons x xs)
  have "wp (f x) (\<lambda>_. I) R w" using Cons.prems by simp
  moreover have "wp (mapE f xs) (\<lambda>_. I) R w'" if "I w'" for w'
    using Cons.IH [of w'] Cons.prems that by simp
  ultimately have "wp (f x) (\<lambda>_ w'. wp (mapE f xs) (\<lambda>_. I) R w') R w"
    by (rule wp_mono)
  then show ?case by (simp add: wp_rules)
qed

lemma wp_mapE_all2:
  assumes "\<And>x w. x \<in> set xs \<Longrightarrow> wp (f x) (\<lambda>y _. P x y) (\<lambda>e _. R e) w"
  shows "wp (mapE f xs) (\<lambda>ys _. list_all2 P xs ys) (\<lambda>e _. R e) w"
  using assms
proof (induction xs arbitrary: w)
  case Nil
  show ?case by (simp add: wp_rules)
next
  case step: (Cons a as)
  have hd: "wp (f a) (\<lambda>y _. P a y) (\<lambda>e _. R e) v" for v using step.prems by simp
  have tl: "wp (mapE f as) (\<lambda>ys _. list_all2 P as ys) (\<lambda>e _. R e) v" for v
    using step.IH step.prems by simp
  show ?case
    by (simp add: wp_rules) (rule wp_mono [OF hd], rule wp_mono [OF tl], simp_all)
qed

subsection \<open>Frames\<close>

definition keeps :: "('w \<Rightarrow> 'v) \<Rightarrow> ('w, 'e, 'a) eff \<Rightarrow> bool" where
  "keeps f m \<longleftrightarrow> (\<forall>w. f (snd (m w)) = f w)"

lemma keepsD: "keeps f m \<Longrightarrow> m w = (r, w') \<Longrightarrow> f w' = f w"
  by (metis keeps_def snd_conv)

lemma keepsI: "(\<And>w r w'. m w = (r, w') \<Longrightarrow> f w' = f w) \<Longrightarrow> keeps f m"
  by (simp add: keeps_def prod_eq_iff)

lemma keeps_wp: "keeps f m \<Longrightarrow> f w = v \<Longrightarrow> wp m (\<lambda>_ w'. f w' = v) (\<lambda>_ w'. f w' = v) w"
  by (auto intro!: wpI dest: keepsD)

lemma keeps_retE [keeps_rules]: "keeps f (retE x)"
  by (simp add: keeps_def retE_def)

lemma keeps_raiseE [keeps_rules]: "keeps f (raiseE e)"
  by (simp add: keeps_def raiseE_def)

lemma keeps_liftE [keeps_rules]: "keeps f (liftE r)"
  by (simp add: keeps_def liftE_def)

lemma keeps_getsE [keeps_rules]: "keeps f (getsE g)"
  by (simp add: keeps_def getsE_def)

lemma keeps_attemptE [keeps_rules]: "keeps f m \<Longrightarrow> keeps f (attemptE m)"
  by (simp add: keeps_def attemptE_def split: prod.splits) (metis snd_conv)

lemma keeps_bindE [keeps_rules]:
  "keeps f m \<Longrightarrow> (\<And>x. keeps f (g x)) \<Longrightarrow> keeps f (bindE m g)"
  by (simp add: keeps_def bindE_def split: prod.splits sum.splits) (metis snd_conv)

lemma keeps_catchE [keeps_rules]:
  "keeps f m \<Longrightarrow> (\<And>e. keeps f (h e)) \<Longrightarrow> keeps f (catchE m h)"
  by (simp add: keeps_def catchE_def split: prod.splits sum.splits) (metis snd_conv)

lemma keeps_if [keeps_rules]: "keeps f m \<Longrightarrow> keeps f n \<Longrightarrow> keeps f (if b then m else n)"
  by simp

lemma keeps_case_option [keeps_rules]:
  "keeps f m \<Longrightarrow> (\<And>x. keeps f (g x)) \<Longrightarrow> keeps f (case z of None \<Rightarrow> m | Some x \<Rightarrow> g x)"
  by (cases z) simp_all

lemma keeps_case_sum [keeps_rules]:
  "(\<And>x. keeps f (g x)) \<Longrightarrow> (\<And>x. keeps f (h x)) \<Longrightarrow> keeps f (case z of Inl x \<Rightarrow> g x | Inr x \<Rightarrow> h x)"
  by (cases z) simp_all

lemma keeps_case_prod [keeps_rules]:
  "(\<And>x y. keeps f (g x y)) \<Longrightarrow> keeps f (case z of (x, y) \<Rightarrow> g x y)"
  by (cases z) simp_all

lemma keeps_mapE [keeps_rules]: "(\<And>x. keeps f (g x)) \<Longrightarrow> keeps f (mapE g xs)"
  by (induction xs) (simp_all add: keeps_rules)

lemma keeps_forE [keeps_rules]: "(\<And>x. keeps f (g x)) \<Longrightarrow> keeps f (forE xs g)"
  by (simp add: forE_def keeps_rules)

section \<open>Python strings\<close>

text \<open>\<open>s.startswith(p)\<close> and \<open>s.endswith(p)\<close>.\<close>

definition startswith :: "string \<Rightarrow> string \<Rightarrow> bool" where
  "startswith s p = (take (length p) s = p)"

definition endswith :: "string \<Rightarrow> string \<Rightarrow> bool" where
  "endswith s p = (drop (length s - length p) s = p)"

lemma startswith_prefix: "startswith s p \<longleftrightarrow> prefix p s"
  by (metis append_eq_conv_conj prefix_def startswith_def)

lemma startswith_refl [simp]: "startswith s s"
  by (simp add: startswith_def)

lemma startswith_append [simp]: "startswith (p @ s) p"
  by (simp add: startswith_def)

lemma startswith_trans: "startswith s p \<Longrightarrow> startswith p q \<Longrightarrow> startswith s q"
  by (auto simp: startswith_prefix)

text \<open>\<open>s.partition(c)\<close> for a one-character separator: what stands before the first \<open>c\<close>, whether
  there is one, and what stands after it.\<close>

fun partition_char :: "char \<Rightarrow> string \<Rightarrow> string \<times> bool \<times> string" where
  "partition_char c [] = ([], False, [])"
| "partition_char c (x # xs) =
     (if x = c then ([], True, xs)
      else (case partition_char c xs of (a, b, d) \<Rightarrow> (x # a, b, d)))"

text \<open>\<open>s.strip()\<close> and a character of \<open>s.lower()\<close>, on the characters up to 255.\<close>

definition strip :: "string \<Rightarrow> string" where
  "strip s = (let blank = (\<lambda>c. c \<in> set [CHR '' '', CHR 0x09, CHR 0x0A, CHR 0x0B, CHR 0x0C, CHR 0x0D,
       CHR 0x1C, CHR 0x1D, CHR 0x1E, CHR 0x1F, CHR 0x85, CHR 0xA0]) in
     rev (dropWhile blank (rev (dropWhile blank s))))"

definition lower_char :: "char \<Rightarrow> char" where
  "lower_char c = (let n = of_char c :: nat in
     if (65 \<le> n \<and> n \<le> 90) \<or> (192 \<le> n \<and> n \<le> 222 \<and> n \<noteq> 215) then char_of (n + 32) else c)"

text \<open>Decimal digits of a number, as \<open>str(n)\<close> prints an \<open>int\<close>.\<close>

definition digit_char :: "nat \<Rightarrow> char" where
  "digit_char d = char_of (48 + d)"

fun show_nat :: "nat \<Rightarrow> string" where
  "show_nat n = (if n < 10 then [digit_char n] else show_nat (n div 10) @ [digit_char (n mod 10)])"

declare show_nat.simps [simp del]

definition show_int :: "int \<Rightarrow> string" where
  "show_int i = (if i < 0 then ''-'' @ show_nat (nat (- i)) else show_nat (nat i))"

section \<open>Python containers\<close>

text \<open>\<open>dict.fromkeys(items)\<close> as an order-preserving deduplication: the first occurrence stays.\<close>

fun dedupe :: "'a list \<Rightarrow> 'a list" where
  "dedupe [] = []"
| "dedupe (x # xs) = x # filter (\<lambda>y. y \<noteq> x) (dedupe xs)"

lemma set_dedupe [simp]: "set (dedupe xs) = set xs"
  by (induction xs) auto

lemma distinct_dedupe [simp]: "distinct (dedupe xs)"
  by (induction xs) (auto intro: distinct_filter)

text \<open>Slices \<open>items[start : start + size]\<close> for \<open>start\<close> in \<open>range(0, len(items), size)\<close>.\<close>

function chunks :: "nat \<Rightarrow> 'a list \<Rightarrow> 'a list list" where
  "chunks n xs = (if n = 0 \<or> xs = [] then [] else take n xs # chunks n (drop n xs))"
  by pat_completeness auto
termination
  by (relation "measure (\<lambda>(n, xs). length xs)") auto

declare chunks.simps [simp del]

lemma chunks_Nil [simp]: "chunks n [] = []"
  by (simp add: chunks.simps)

lemma concat_chunks: "0 < n \<Longrightarrow> concat (chunks n xs) = xs"
proof (induction n xs rule: chunks.induct)
  case (1 n xs)
  then show ?case
    by (cases "xs = []") (simp_all add: chunks.simps [of n xs])
qed

lemma chunks_bounds: "c \<in> set (chunks n xs) \<Longrightarrow> c \<noteq> [] \<and> length c \<le> n"
proof (induction n xs rule: chunks.induct)
  case (1 n xs)
  then show ?case
    by (cases "n = 0 \<or> xs = []") (auto simp: chunks.simps [of n xs])
qed

text \<open>Looking a key up after writing it, on insertion-ordered dicts.\<close>

lemma map_of_update: "map_of (AList.update k v al) = (map_of al)(k \<mapsto> v)"
  by (rule update_conv')

lemma map_of_snoc_new: "map_of al k = None \<Longrightarrow> map_of (al @ [(k, v)]) = (map_of al)(k \<mapsto> v)"
  by (auto simp: fun_eq_iff map_add_def split: option.splits)

lemma distinct_snoc_new:
  "map_of al k = None \<Longrightarrow> distinct (map fst al) \<Longrightarrow> distinct (map fst (al @ [(k, v)]))"
  by (auto simp: map_of_eq_None_iff)

end
