(* ===== verification/Hoc_Errors.thy ===== *)
theory Hoc_Errors
  imports Hoc_Prelude
begin

text \<open>
  The exceptions of the program (\<open>core/errors.py\<close> and the subclasses other modules declare).

  A raised exception is a value of \<open>exn\<close>: an instance of one of the program's own classes with
  the machine-readable \<open>reason\<close> it carries, or \<open>Other\<close> for every exception that is not a
  \<open>HocError\<close> (a driver error, a \<open>ValueError\<close>, a \<open>TypeError\<close>). Messages are for people and are
  left out. \<open>is_a\<close> is the subclass relation an \<open>except\<close> clause tests.
\<close>

datatype err_class =
    HocError | Unavailable | ConfigurationError | InvariantViolation | ScopeEscalation
  | InvalidResource | EngineUnavailable | ConnectorStale | TokenInvalid | TokenRevoked
  | IdentityError | AuditUnavailable | MemoryDenied | MandateDenied | ActionDenied
  | ApprovalError | ApprovalStoreUnavailable | MandateStoreUnavailable
  | RevocationStoreUnavailable | LedgerUnavailable | ConnectorStateUnavailable
  | MemoryContentUnavailable | NextcloudUnavailable | PipesHubUnavailable
  | PipesHubIndexUnavailable | ApprovalChannelError | ApprovalPending | CallerMismatch
  | SchemaOutOfDate | PluginError

datatype exn = Hoc err_class string | Other string

text \<open>The class named between the parentheses of a class statement.\<close>

fun err_base :: "err_class \<Rightarrow> err_class option" where
  "err_base HocError = None"
| "err_base ScopeEscalation = Some InvariantViolation"
| "err_base InvalidResource = Some InvariantViolation"
| "err_base EngineUnavailable = Some Unavailable"
| "err_base TokenRevoked = Some TokenInvalid"
| "err_base AuditUnavailable = Some Unavailable"
| "err_base ApprovalStoreUnavailable = Some Unavailable"
| "err_base MandateStoreUnavailable = Some Unavailable"
| "err_base RevocationStoreUnavailable = Some Unavailable"
| "err_base LedgerUnavailable = Some Unavailable"
| "err_base ConnectorStateUnavailable = Some Unavailable"
| "err_base MemoryContentUnavailable = Some Unavailable"
| "err_base NextcloudUnavailable = Some Unavailable"
| "err_base PipesHubUnavailable = Some Unavailable"
| "err_base PipesHubIndexUnavailable = Some Unavailable"
| "err_base SchemaOutOfDate = Some Unavailable"
| "err_base PluginError = Some ConfigurationError"
| "err_base _ = Some HocError"

text \<open>\<open>issubclass(c, d)\<close>: the hierarchy is three levels deep.\<close>

definition is_a :: "err_class \<Rightarrow> err_class \<Rightarrow> bool" where
  "is_a c d = (c = d \<or> (case err_base c of None \<Rightarrow> False
     | Some b \<Rightarrow> b = d \<or> (case err_base b of None \<Rightarrow> False
         | Some b' \<Rightarrow> b' = d \<or> (case err_base b' of None \<Rightarrow> False | Some b'' \<Rightarrow> b'' = d))))"

text \<open>The class attribute \<open>reason\<close>.\<close>

fun default_reason :: "err_class \<Rightarrow> string" where
  "default_reason HocError = ''error''"
| "default_reason Unavailable = ''unavailable''"
| "default_reason ConfigurationError = ''configuration_error''"
| "default_reason InvariantViolation = ''invariant_violation''"
| "default_reason ScopeEscalation = ''scope_escalation''"
| "default_reason InvalidResource = ''invalid_resource''"
| "default_reason EngineUnavailable = ''engine_unavailable''"
| "default_reason ConnectorStale = ''connector_stale''"
| "default_reason TokenInvalid = ''token_invalid''"
| "default_reason TokenRevoked = ''token_revoked''"
| "default_reason IdentityError = ''identity_error''"
| "default_reason AuditUnavailable = ''audit_unavailable''"
| "default_reason MemoryDenied = ''memory_denied''"
| "default_reason MandateDenied = ''mandate_denied''"
| "default_reason ActionDenied = ''action_denied''"
| "default_reason ApprovalError = ''approval_error''"
| "default_reason ApprovalStoreUnavailable = ''approval_store_unavailable''"
| "default_reason MandateStoreUnavailable = ''mandate_store_unavailable''"
| "default_reason RevocationStoreUnavailable = ''revocation_store_unavailable''"
| "default_reason LedgerUnavailable = ''ledger_unavailable''"
| "default_reason ConnectorStateUnavailable = ''connector_state_unavailable''"
| "default_reason MemoryContentUnavailable = ''backend_unavailable''"
| "default_reason NextcloudUnavailable = ''connector_unavailable''"
| "default_reason PipesHubUnavailable = ''connector_unavailable''"
| "default_reason PipesHubIndexUnavailable = ''index_unavailable''"
| "default_reason ApprovalChannelError = ''approval_channel_failed''"
| "default_reason ApprovalPending = ''approval_required''"
| "default_reason CallerMismatch = ''caller_mismatch''"
| "default_reason SchemaOutOfDate = ''schema_out_of_date''"
| "default_reason PluginError = ''plugin_error''"

text \<open>\<open>raise C(message)\<close> and \<open>raise C(message, reason=r)\<close>.\<close>

definition hoc :: "err_class \<Rightarrow> exn" where
  "hoc c = Hoc c (default_reason c)"

text \<open>\<open>except C as exc\<close> on the program's own classes.\<close>

fun catches :: "err_class \<Rightarrow> exn \<Rightarrow> bool" where
  "catches d (Hoc c r) = is_a c d"
| "catches d (Other m) = False"

text \<open>\<open>except HocError as exc: exc.reason\<close>, then \<open>except Exception\<close> with a fixed reason.\<close>

fun failure_reason :: "string \<Rightarrow> exn \<Rightarrow> string" where
  "failure_reason dflt (Hoc c r) = r"
| "failure_reason dflt (Other m) = dflt"

lemma is_a_refl [simp]: "is_a c c"
  by (simp add: is_a_def)

lemma is_a_HocError [simp]: "is_a c HocError"
  by (cases c) (simp_all add: is_a_def)

lemma is_a_trans: "is_a c d \<Longrightarrow> is_a d e \<Longrightarrow> is_a c e"
  by (cases c; cases d) (auto simp: is_a_def)

lemma catches_HocError: "catches HocError e \<longleftrightarrow> (\<exists>c r. e = Hoc c r)"
  by (cases e) auto

end
