(* ===== verification/Core_Refs.thy ===== *)
theory Core_Refs
  imports Hoc_Errors
begin

text \<open>
  Object references \<open>type:id\<close> (\<open>core/refs.py\<close>).

  The two regular expressions are modelled as they match. Both end in \<open>$\<close>, which in Python
  matches at the end of the text and also before a single newline that ends it, so the text is
  tried as a whole and without a final newline.
\<close>

section \<open>The two regular expressions\<close>

definition lower_alpha :: string where
  "lower_alpha = ''abcdefghijklmnopqrstuvwxyz''"

definition upper_alpha :: string where
  "upper_alpha = ''ABCDEFGHIJKLMNOPQRSTUVWXYZ''"

definition digits :: string where
  "digits = ''0123456789''"

text \<open>\<open>[a-z][a-z0-9_-]*\<close>\<close>

definition type_char :: "char \<Rightarrow> bool" where
  "type_char c = (c \<in> set (lower_alpha @ digits @ ''_-''))"

definition is_type :: "string \<Rightarrow> bool" where
  "is_type t = (case t of [] \<Rightarrow> False | c # cs \<Rightarrow> c \<in> set lower_alpha \<and> list_all type_char cs)"

text \<open>\<open>_ID_CHARS\<close>\<close>

definition id_char :: "char \<Rightarrow> bool" where
  "id_char c = (c \<in> set (upper_alpha @ lower_alpha @ digits @ ''._~/@+=-''))"

definition newline :: char where
  "newline = CHR 0x0A"

text \<open>The texts a pattern ending in \<open>$\<close> may span.\<close>

definition dollar_views :: "string \<Rightarrow> string list" where
  "dollar_views s = s # (if s \<noteq> [] \<and> last s = newline then [butlast s] else [])"

definition match_ref :: "(string \<Rightarrow> bool) \<Rightarrow> string \<Rightarrow> (string \<times> string) option" where
  "match_ref id_ok s =
     (case filter (\<lambda>(t, found, i). found \<and> is_type t \<and> id_ok i)
             (map (partition_char (CHR '':'')) (dollar_views s)) of
        [] \<Rightarrow> None
      | (t, found, i) # _ \<Rightarrow> Some (t, i))"

definition pattern_id :: "string \<Rightarrow> bool" where
  "pattern_id i = (list_all id_char i \<or> (i \<noteq> [] \<and> last i = CHR ''*'' \<and> list_all id_char (butlast i)))"

definition plain_id :: "string \<Rightarrow> bool" where
  "plain_id i = (i \<noteq> [] \<and> list_all id_char i)"

section \<open>The operations\<close>

definition valid_pattern :: "string \<Rightarrow> bool" where
  "valid_pattern s = (case match_ref pattern_id s of None \<Rightarrow> False | Some (t, i) \<Rightarrow> i \<noteq> [])"

definition validate_resource_pattern :: "string \<Rightarrow> exn + string" where
  "validate_resource_pattern s = (if valid_pattern s then Inr s else Inl (hoc InvalidResource))"

definition valid_ref :: "string \<Rightarrow> string \<Rightarrow> bool" where
  "valid_ref s expected = (case match_ref plain_id s of None \<Rightarrow> False | Some (t, i) \<Rightarrow> t = expected)"

definition validate_ref :: "string \<Rightarrow> string \<Rightarrow> exn + string" where
  "validate_ref s expected = (if valid_ref s expected then Inr s else Inl (hoc InvariantViolation))"

definition ref_type :: "string \<Rightarrow> string" where
  "ref_type s = fst (partition_char (CHR '':'') s)"

lemmas ref_defs = lower_alpha_def upper_alpha_def digits_def type_char_def is_type_def id_char_def
  newline_def dollar_views_def match_ref_def pattern_id_def plain_id_def valid_pattern_def
  valid_ref_def

section \<open>Lemmas\<close>

lemma partition_char_eq:
  "partition_char c s = (takeWhile (\<lambda>x. x \<noteq> c) s, c \<in> set s, drop 1 (dropWhile (\<lambda>x. x \<noteq> c) s))"
  by (induction c s rule: partition_char.induct) auto

lemma partition_char_hit: "c \<notin> set a \<Longrightarrow> partition_char c (a @ c # b) = (a, True, b)"
  by (simp add: partition_char_eq takeWhile_append dropWhile_append)

lemma partition_char_found: "partition_char c s = (a, True, b) \<Longrightarrow> s = a @ c # b"
  by (induction c s arbitrary: a rule: partition_char.induct) (auto split: prod.splits if_splits)

lemma is_type_chars: "is_type t \<Longrightarrow> c \<in> set t \<Longrightarrow> type_char c"
  by (cases t) (auto simp: is_type_def type_char_def list_all_iff)

lemma type_char_excludes: "\<not> type_char (CHR '':'')" "\<not> type_char (CHR ''*'')" "\<not> type_char newline"
  by (simp_all add: type_char_def lower_alpha_def digits_def newline_def)

lemma id_char_excludes: "\<not> id_char (CHR '':'')" "\<not> id_char (CHR ''*'')" "\<not> id_char newline"
  by (simp_all add: id_char_def lower_alpha_def upper_alpha_def digits_def newline_def)

lemma is_type_no_colon: "is_type t \<Longrightarrow> CHR '':'' \<notin> set t"
  using is_type_chars type_char_excludes(1) by blast

lemma is_type_no_star: "is_type t \<Longrightarrow> CHR ''*'' \<notin> set t"
  using is_type_chars type_char_excludes(2) by blast

text \<open>
  What each regular expression accepts, in closed form: a type, a colon and an id, and possibly
  one newline after them.
\<close>

lemma match_ref_Some:
  assumes "\<And>i. id_ok i \<Longrightarrow> newline \<notin> set i"
  shows "match_ref id_ok s = Some (t, i) \<longleftrightarrow>
    is_type t \<and> id_ok i \<and> (s = t @ CHR '':'' # i \<or> s = t @ CHR '':'' # i @ [newline])"
    (is "?L = ?R")
proof
  assume ?L
  then obtain zs where zs: "filter (\<lambda>(t, found, i). found \<and> is_type t \<and> id_ok i)
      (map (partition_char (CHR '':'')) (dollar_views s)) = (t, True, i) # zs"
    unfolding match_ref_def
    by (auto split: list.splits prod.splits) (metis (lifting) case_prodD filter_eq_ConsD)
  then have "(t, True, i) \<in> set (filter (\<lambda>(t, found, i). found \<and> is_type t \<and> id_ok i)
      (map (partition_char (CHR '':'')) (dollar_views s)))" by simp
  then obtain v where v: "v \<in> set (dollar_views s)"
      "partition_char (CHR '':'') v = (t, True, i)" "is_type t" "id_ok i"
    by auto
  have "v = t @ CHR '':'' # i" using v(2) by (rule partition_char_found)
  moreover have "s = v \<or> s = v @ [newline]"
    using v(1) by (auto simp: dollar_views_def split: if_splits) (metis append_butlast_last_id)
  ultimately show ?R using v by auto
next
  assume R: ?R
  let ?p = "\<lambda>(t, found, i). found \<and> is_type t \<and> id_ok i"
  have col: "CHR '':'' \<notin> set t" using R is_type_no_colon by blast
  have part: "partition_char (CHR '':'') (t @ CHR '':'' # j) = (t, True, j)" for j
    using col by (rule partition_char_hit)
  have nl: "newline \<notin> set i" using R assms by blast
  from R consider "s = t @ CHR '':'' # i" | "s = t @ CHR '':'' # i @ [newline]" by blast
  then show ?L
  proof cases
    case 1
    then show ?thesis using R part by (simp add: match_ref_def dollar_views_def)
  next
    case 2
    have "\<not> id_ok (i @ [newline])" using assms by force
    moreover have "dollar_views s = [s, t @ CHR '':'' # i]"
      using 2 by (simp add: dollar_views_def butlast_append)
    ultimately show ?thesis using R part 2 by (simp add: match_ref_def)
  qed
qed

lemma pattern_id_cases:
  "pattern_id i \<Longrightarrow> list_all id_char i \<or> (\<exists>p. i = p @ ''*'' \<and> list_all id_char p)"
  unfolding pattern_id_def using append_butlast_last_id by metis

lemma list_all_id_char_no_newline: "list_all id_char p \<Longrightarrow> newline \<notin> set p"
  using id_char_excludes(3) by (auto simp: list_all_iff)

lemma pattern_id_no_newline: "pattern_id i \<Longrightarrow> newline \<notin> set i"
  using list_all_id_char_no_newline by (fastforce dest!: pattern_id_cases simp: newline_def)

lemma plain_id_no_newline: "plain_id i \<Longrightarrow> newline \<notin> set i"
  by (auto simp: plain_id_def list_all_iff id_char_excludes)

lemma valid_pattern_iff:
  "valid_pattern s \<longleftrightarrow> (\<exists>t i. is_type t \<and> pattern_id i \<and> i \<noteq> [] \<and>
     (s = t @ CHR '':'' # i \<or> s = t @ CHR '':'' # i @ [newline]))"
proof -
  have "valid_pattern s \<longleftrightarrow> (\<exists>t i. match_ref pattern_id s = Some (t, i) \<and> i \<noteq> [])"
    by (auto simp: valid_pattern_def split: option.splits)
  then show ?thesis by (simp add: match_ref_Some [OF pattern_id_no_newline] conj_ac)
qed

lemma valid_ref_iff:
  "valid_ref s t \<longleftrightarrow> (\<exists>i. is_type t \<and> plain_id i \<and>
     (s = t @ CHR '':'' # i \<or> s = t @ CHR '':'' # i @ [newline]))"
proof -
  have "valid_ref s t \<longleftrightarrow> (\<exists>i. match_ref plain_id s = Some (t, i))"
    by (auto simp: valid_ref_def split: option.splits)
  then show ?thesis by (simp add: match_ref_Some [OF plain_id_no_newline] conj_ac)
qed

lemma valid_ref_pattern: "valid_ref s t \<Longrightarrow> valid_pattern s"
  by (auto simp: valid_ref_iff valid_pattern_iff plain_id_def pattern_id_def)

lemma valid_ref_type: "valid_ref s t \<Longrightarrow> ref_type s = t"
  by (auto simp: valid_ref_iff ref_type_def partition_char_hit is_type_no_colon)

end
