(* ===== verification/Core_Scope.thy ===== *)
theory Core_Scope
  imports Core_Refs
begin

text \<open>
  Capabilities and scopes (\<open>core/scope.py\<close>).

  A \<open>Capability\<close> is frozen and validated by its constructor: \<open>mk_capability\<close> is that
  constructor and \<open>wf_capability\<close> what it guarantees. A \<open>Scope\<close> is a frozen set of capabilities.
  The comparison \<open>covers\<close> is syntactic; the main lemma \<open>cap_covers_iff_matches\<close> says that on
  validated capabilities it is exactly inclusion of the references two capabilities match.
\<close>

section \<open>Kinds and capabilities\<close>

datatype kind = READ | ACT | REMEMBER

fun kind_value :: "kind \<Rightarrow> string" where
  "kind_value READ = ''read''"
| "kind_value ACT = ''act''"
| "kind_value REMEMBER = ''remember''"

text \<open>\<open>Kind(text)\<close>: a \<open>ValueError\<close> on an unknown text.\<close>

definition kind_of :: "string \<Rightarrow> kind option" where
  "kind_of s = (if s = ''read'' then Some READ else if s = ''act'' then Some ACT
     else if s = ''remember'' then Some REMEMBER else None)"

datatype capability = Capability (cap_kind: kind) (cap_resource: string)

definition mk_capability :: "kind \<Rightarrow> string \<Rightarrow> exn + capability" where
  "mk_capability k r = (case validate_resource_pattern r of
     Inl e \<Rightarrow> Inl e | Inr v \<Rightarrow> Inr (Capability k v))"

definition is_pattern :: "capability \<Rightarrow> bool" where
  "is_pattern c = endswith (cap_resource c) ''*''"

definition cap_covers :: "capability \<Rightarrow> capability \<Rightarrow> bool" where
  "cap_covers c d =
     (if cap_kind c \<noteq> cap_kind d then False
      else if \<not> is_pattern c then cap_resource c = cap_resource d
      else startswith (cap_resource d) (butlast (cap_resource c)))"

text \<open>
  \<open>order=True\<close>: capabilities compare as the pairs of their fields, kinds (a \<open>StrEnum\<close>) as their
  texts.
\<close>

definition cap_key :: "capability \<Rightarrow> string \<times> string" where
  "cap_key c = (kind_value (cap_kind c), cap_resource c)"

lemma kind_value_inject [simp]: "kind_value k = kind_value l \<longleftrightarrow> k = l"
  by (cases k; cases l) simp_all

lemma kind_of_kind_value [simp]: "kind_of (kind_value k) = Some k"
  by (cases k) (simp_all add: kind_of_def)

lemma cap_key_inject: "cap_key c = cap_key d \<longleftrightarrow> c = d"
  by (cases c; cases d) (simp add: cap_key_def)

instantiation capability :: linorder
begin

definition less_eq_capability :: "capability \<Rightarrow> capability \<Rightarrow> bool" where
  "less_eq_capability c d = (cap_key c \<le> cap_key d)"

definition less_capability :: "capability \<Rightarrow> capability \<Rightarrow> bool" where
  "less_capability c d = (cap_key c < cap_key d)"

instance
  by standard
    (auto simp: less_eq_capability_def less_capability_def cap_key_inject [symmetric]
      intro: order_trans)

end

section \<open>Scopes\<close>

type_synonym scope = "capability set"

definition scope_of :: "capability list \<Rightarrow> scope" where
  "scope_of cs = set cs"

definition empty_scope :: scope where
  "empty_scope = {}"

definition scope_covers :: "scope \<Rightarrow> capability \<Rightarrow> bool" where
  "scope_covers s c = (\<exists>own\<in>s. cap_covers own c)"

definition is_subset_of :: "scope \<Rightarrow> scope \<Rightarrow> bool" where
  "is_subset_of s t = (\<forall>c\<in>s. scope_covers t c)"

text \<open>\<open>sorted(scope)\<close>\<close>

definition sorted_scope :: "scope \<Rightarrow> capability list" where
  "sorted_scope s = sorted_list_of_set s"

section \<open>What a capability stands for\<close>

text \<open>A concrete reference: what \<open>_PLAIN_RE\<close> accepts, of any type.\<close>

definition concrete_ref :: "string \<Rightarrow> bool" where
  "concrete_ref r = (match_ref plain_id r \<noteq> None)"

definition cap_matches :: "capability \<Rightarrow> string \<Rightarrow> bool" where
  "cap_matches c r = (if is_pattern c then startswith r (butlast (cap_resource c))
     else r = cap_resource c)"

definition wf_capability :: "capability \<Rightarrow> bool" where
  "wf_capability c = valid_pattern (cap_resource c)"

definition wf_scope :: "scope \<Rightarrow> bool" where
  "wf_scope s = (finite s \<and> (\<forall>c\<in>s. wf_capability c))"

definition granted :: "scope \<Rightarrow> kind \<Rightarrow> string set" where
  "granted s k = {r. concrete_ref r \<and> (\<exists>c\<in>s. cap_kind c = k \<and> cap_matches c r)}"

lemma endswith_star: "endswith s ''*'' \<longleftrightarrow> (\<exists>p. s = p @ ''*'')"
  by (cases s rule: rev_cases) (auto simp: endswith_def)

lemma is_patternE:
  assumes "is_pattern c"
  obtains p where "cap_resource c = p @ ''*''" "butlast (cap_resource c) = p"
  using assms by (auto simp: is_pattern_def endswith_star)

lemma mk_capability_ok: "mk_capability k r = Inr c \<longleftrightarrow> c = Capability k r \<and> valid_pattern r"
  by (auto simp: mk_capability_def validate_resource_pattern_def)

lemma mk_capability_wf: "mk_capability k r = Inr c \<Longrightarrow> wf_capability c"
  by (auto simp: mk_capability_ok wf_capability_def)

lemma mk_capability_valid [simp]: "valid_pattern r \<Longrightarrow> mk_capability k r = Inr (Capability k r)"
  by (simp add: mk_capability_ok)

text \<open>A validated capability is either a concrete reference or a prefix with no star in it.\<close>

lemma wf_pattern_shape:
  assumes "wf_capability c" "is_pattern c"
  obtains t i where "is_type t" "list_all id_char i" "cap_resource c = t @ CHR '':'' # i @ ''*''"
proof -
  obtain p where p: "cap_resource c = p @ ''*''" using assms(2) by (rule is_patternE)
  obtain t i where ti: "is_type t" "pattern_id i" "i \<noteq> []"
      "cap_resource c = t @ CHR '':'' # i \<or> cap_resource c = t @ CHR '':'' # i @ [newline]"
    using assms(1) by (auto simp: wf_capability_def valid_pattern_iff)
  have "cap_resource c = t @ CHR '':'' # i"
    using ti(4) p by (auto simp: newline_def dest: arg_cong [where f = last])
  moreover have "last i = CHR ''*''" using calculation p ti(3)
    by (metis last_ConsR last_appendR last_snoc list.distinct(1))
  moreover obtain q where "i = q @ ''*''" "list_all id_char q"
    using ti(2,3) calculation(2) id_char_excludes(2) pattern_id_cases [of i]
    by (auto simp: list_all_iff) (metis last_in_set)
  ultimately show thesis using that ti(1) by simp
qed

lemma wf_concrete_shape:
  assumes "wf_capability c" "\<not> is_pattern c" "newline \<notin> set (cap_resource c)"
  shows "concrete_ref (cap_resource c)"
proof -
  obtain t i where ti: "is_type t" "pattern_id i" "i \<noteq> []" "cap_resource c = t @ CHR '':'' # i"
    using assms(1,3) by (auto simp: wf_capability_def valid_pattern_iff)
  have "\<nexists>p. i = p @ ''*''" using ti(4) assms(2) by (auto simp: is_pattern_def endswith_star)
  then have "plain_id i" using ti(2,3) pattern_id_cases by (auto simp: plain_id_def)
  then have "match_ref plain_id (cap_resource c) = Some (t, i)"
    using ti by (simp add: match_ref_Some [OF plain_id_no_newline])
  then show ?thesis by (simp add: concrete_ref_def)
qed

lemma wf_pattern_prefix:
  assumes "wf_capability c" "is_pattern c"
  shows "CHR ''*'' \<notin> set (butlast (cap_resource c))"
    and "x \<in> {CHR ''a'', CHR ''b''} \<Longrightarrow> concrete_ref (butlast (cap_resource c) @ [x])"
proof -
  obtain t i where ti: "is_type t" "list_all id_char i" "cap_resource c = (t @ CHR '':'' # i) @ ''*''"
    using assms by (auto elim!: wf_pattern_shape)
  then have p: "butlast (cap_resource c) = t @ CHR '':'' # i" by (metis butlast_snoc)
  show "CHR ''*'' \<notin> set (butlast (cap_resource c))"
    using p ti(1,2) is_type_no_star id_char_excludes(2) by (auto simp: list_all_iff)
  assume x: "x \<in> {CHR ''a'', CHR ''b''}"
  then have "plain_id (i @ [x])" using ti(2)
    by (auto simp: plain_id_def id_char_def lower_alpha_def)
  then have "match_ref plain_id (t @ CHR '':'' # i @ [x]) = Some (t, i @ [x])"
    using ti(1) by (simp add: match_ref_Some [OF plain_id_no_newline])
  then show "concrete_ref (butlast (cap_resource c) @ [x])" by (simp add: concrete_ref_def p)
qed

lemma prefix_snoc_absent: "prefix q (p @ [x]) \<Longrightarrow> x \<notin> set q \<Longrightarrow> prefix q p"
  by (auto simp: prefix_snoc)

lemma prefix_two_snocs: "prefix q (p @ [x]) \<Longrightarrow> prefix q (p @ [y]) \<Longrightarrow> x \<noteq> y \<Longrightarrow> prefix q p"
  by (auto simp: prefix_snoc)

lemma cap_covers_matches:
  assumes c: "wf_capability c" and cov: "cap_covers c d" and m: "cap_matches d r"
  shows "cap_matches c r"
proof (cases "is_pattern c")
  case False
  then have "cap_resource c = cap_resource d" using cov by (simp add: cap_covers_def split: if_splits)
  then show ?thesis using m by (simp add: cap_matches_def is_pattern_def)
next
  case True
  let ?q = "butlast (cap_resource c)"
  have q: "prefix ?q (cap_resource d)"
    using True cov by (simp add: cap_covers_def startswith_prefix split: if_splits)
  show ?thesis
  proof (cases "is_pattern d")
    case pat: True
    obtain p where p: "cap_resource d = p @ ''*''" "butlast (cap_resource d) = p"
      using pat by (rule is_patternE)
    have "prefix ?q p" using q p wf_pattern_prefix(1) [OF c True] prefix_snoc_absent by metis
    then show ?thesis using m pat True p
      by (auto simp: cap_matches_def startswith_prefix intro: prefix_order.trans)
  next
    case False
    then show ?thesis using q m True by (simp add: cap_matches_def startswith_prefix)
  qed
qed

lemma cap_matches_covers:
  assumes wf: "wf_capability c" "wf_capability d" and nl: "newline \<notin> set (cap_resource d)"
    and k: "cap_kind c = cap_kind d"
    and m: "\<And>r. concrete_ref r \<Longrightarrow> cap_matches d r \<Longrightarrow> cap_matches c r"
  shows "cap_covers c d"
proof (cases "is_pattern d")
  case False
  then have "cap_matches c (cap_resource d)"
    using m wf_concrete_shape [OF wf(2)] nl by (simp add: cap_matches_def)
  then show ?thesis using k by (auto simp: cap_matches_def cap_covers_def split: if_splits)
next
  case True
  obtain p where p: "cap_resource d = p @ ''*''" "butlast (cap_resource d) = p"
    using True by (rule is_patternE)
  have ab: "cap_matches c (p @ [x])" if "x \<in> {CHR ''a'', CHR ''b''}" for x
    using m wf_pattern_prefix(2) [OF wf(2) True that] True p by (simp add: cap_matches_def)
  have pat: "is_pattern c"
  proof (rule ccontr)
    assume "\<not> is_pattern c"
    then have "p @ ''a'' = p @ ''b''" using ab [of "CHR ''a''"] ab [of "CHR ''b''"]
      by (simp add: cap_matches_def)
    then show False by simp
  qed
  have "prefix (butlast (cap_resource c)) p"
    using ab [of "CHR ''a''"] ab [of "CHR ''b''"] pat prefix_two_snocs
    by (fastforce simp: cap_matches_def startswith_prefix)
  then show ?thesis using pat k p
    by (auto simp: cap_covers_def startswith_prefix)
qed

lemma cap_covers_refl [simp]: "cap_covers c c"
proof (cases "is_pattern c")
  case True
  then obtain p where "cap_resource c = p @ ''*''" "butlast (cap_resource c) = p"
    by (rule is_patternE)
  then show ?thesis by (simp add: cap_covers_def)
qed (simp add: cap_covers_def)

lemma cap_covers_kind: "cap_covers c d \<Longrightarrow> cap_kind c = cap_kind d"
  by (simp add: cap_covers_def split: if_splits)

text \<open>A request for one resource is covered when the capability matches that resource.\<close>

lemma cap_covers_request: "cap_covers c (Capability k r) \<longleftrightarrow> cap_kind c = k \<and> cap_matches c r"
  by (auto simp: cap_covers_def cap_matches_def)

lemma cap_covers_trans:
  assumes "wf_capability c" "cap_covers c d" "cap_covers d e"
  shows "cap_covers c e"
proof -
  have "cap_covers d (Capability (cap_kind e) (cap_resource e))" using assms(3) by simp
  then have "cap_matches d (cap_resource e)" unfolding cap_covers_request by simp
  then have "cap_matches c (cap_resource e)" using assms(1,2) by (rule cap_covers_matches [rotated 2])
  moreover have "cap_kind c = cap_kind e"
    using assms(2,3) by (simp add: cap_covers_kind)
  ultimately have "cap_covers c (Capability (cap_kind e) (cap_resource e))"
    unfolding cap_covers_request by simp
  then show ?thesis by simp
qed

lemma scope_covers_mono:
  assumes "wf_scope t" "is_subset_of s t" "scope_covers s c"
  shows "scope_covers t c"
  using assms cap_covers_trans unfolding scope_covers_def is_subset_of_def wf_scope_def by metis

lemma is_subset_of_refl [simp]: "is_subset_of s s"
  by (auto simp: is_subset_of_def scope_covers_def intro!: bexI)

lemma is_subset_of_trans:
  "wf_scope u \<Longrightarrow> is_subset_of s t \<Longrightarrow> is_subset_of t u \<Longrightarrow> is_subset_of s u"
  using scope_covers_mono unfolding is_subset_of_def by blast

lemma is_subset_of_empty [simp]: "is_subset_of empty_scope s" "is_subset_of s {} \<longleftrightarrow> s = {}"
  by (auto simp: is_subset_of_def empty_scope_def scope_covers_def)

lemma scope_covers_set [simp]: "scope_covers (set cs) c = list_ex (\<lambda>own. cap_covers own c) cs"
  by (auto simp: scope_covers_def list_ex_iff)

lemma is_subset_of_set [simp]: "is_subset_of (set cs) t = list_all (scope_covers t) cs"
  by (auto simp: is_subset_of_def list_all_iff)

lemma granted_mono: "wf_scope t \<Longrightarrow> is_subset_of s t \<Longrightarrow> granted s k \<subseteq> granted t k"
  unfolding granted_def is_subset_of_def scope_covers_def wf_scope_def
  using cap_covers_matches cap_covers_kind by blast

section \<open>Properties\<close>

text \<open>
  C4: on validated capabilities the syntactic test \<open>covers\<close> decides inclusion: a capability
  covers another of the same kind exactly when it matches every concrete reference the other
  matches. The second capability must not carry the trailing newline the regular expressions
  let through.
\<close>

theorem cap_covers_iff_matches:
  assumes "wf_capability c" "wf_capability d" "newline \<notin> set (cap_resource d)"
  shows "cap_covers c d \<longleftrightarrow> cap_kind c = cap_kind d \<and>
    (\<forall>r. concrete_ref r \<and> cap_matches d r \<longrightarrow> cap_matches c r)"
  using assms cap_covers_matches cap_matches_covers cap_covers_kind by blast

theorem cap_covers_iff_matches_witness:
  "cap_covers (Capability READ ''document:a*'') (Capability READ ''document:ab'') \<longleftrightarrow>
    (\<forall>r. concrete_ref r \<and> cap_matches (Capability READ ''document:ab'') r \<longrightarrow>
      cap_matches (Capability READ ''document:a*'') r)"
proof -
  have "wf_capability (Capability READ ''document:a*'')" "wf_capability (Capability READ ''document:ab'')"
      "newline \<notin> set (cap_resource (Capability READ ''document:ab''))"
    by code_simp+
  from cap_covers_iff_matches [OF this] show ?thesis by simp
qed

text \<open>
  The regular expressions accept a trailing newline. A reference followed by one newline
  passes \<open>validate_ref\<close> and \<open>validate_resource_pattern\<close> although a newline is outside the set of
  characters the comment on them promises.
\<close>

theorem trailing_newline_accepted:
  assumes "is_type t" "plain_id i"
  shows "validate_ref (t @ CHR '':'' # i @ [newline]) t = Inr (t @ CHR '':'' # i @ [newline])
    \<and> validate_resource_pattern (t @ CHR '':'' # i @ [newline]) = Inr (t @ CHR '':'' # i @ [newline])
    \<and> \<not> id_char newline"
proof -
  have "valid_ref (t @ CHR '':'' # i @ [newline]) t" using assms by (auto simp: valid_ref_iff)
  then show ?thesis using valid_ref_pattern
    by (simp add: validate_ref_def validate_resource_pattern_def id_char_excludes(3))
qed

theorem trailing_newline_accepted_witness:
  "validate_ref (''user:alice'' @ [newline]) ''user'' = Inr (''user:alice'' @ [newline])"
proof -
  have "is_type ''user''" "plain_id ''alice''" by code_simp+
  from trailing_newline_accepted [OF this] show ?thesis by simp
qed

end
