(* ===== verification/Core_Chain.thy ===== *)
theory Core_Chain
  imports Core_Scope
begin

text \<open>
  The principal chain (\<open>core/chain.py\<close>): who is acted for, who acts, and what was delegated on
  the way.

  \<open>Delegation\<close> and \<open>PrincipalChain\<close> are frozen and validated by their constructors, here
  \<open>mk_delegation\<close> and \<open>mk_chain\<close> with the checks of \<open>__post_init__\<close> in their order. \<open>wf_chain\<close>
  is the invariant of every chain a constructor returns; \<open>chain_reach\<close> are the chains obtained
  from a root by \<open>delegate\<close>.
\<close>

section \<open>Data and constructors\<close>

definition MAX_DELEGATION_DEPTH :: nat where
  "MAX_DELEGATION_DEPTH = 8"

record delegation_link =
  from_actor :: string
  to_actor :: string
  link_scope :: scope

record principal_chain =
  ch_subject :: string
  ch_actor :: string
  ch_delegation :: "delegation_link list"
  ch_scope :: scope
  ch_root_scope :: "scope option"

definition mk_delegation :: "string \<Rightarrow> string \<Rightarrow> scope \<Rightarrow> exn + delegation_link" where
  "mk_delegation a b s =
     (case validate_ref a ''agent'' of Inl e \<Rightarrow> Inl e | Inr _ \<Rightarrow>
      case validate_ref b ''agent'' of Inl e \<Rightarrow> Inl e | Inr _ \<Rightarrow>
      if a = b then Inl (hoc InvariantViolation)
      else Inr \<lparr>from_actor = a, to_actor = b, link_scope = s\<rparr>)"

text \<open>The loop over the links after the first: contiguous and narrowing.\<close>

fun check_links :: "delegation_link \<Rightarrow> delegation_link list \<Rightarrow> exn option" where
  "check_links prev [] = None"
| "check_links prev (l # ls) =
     (if from_actor l \<noteq> to_actor prev then Some (hoc InvariantViolation)
      else if \<not> is_subset_of (link_scope l) (link_scope prev) then Some (hoc ScopeEscalation)
      else check_links l ls)"

definition chain_post_init :: "principal_chain \<Rightarrow> exn option" where
  "chain_post_init c =
     (case validate_ref (ch_subject c) ''user'' of Inl e \<Rightarrow> Some e | Inr _ \<Rightarrow>
      case validate_ref (ch_actor c) ''agent'' of Inl e \<Rightarrow> Some e | Inr _ \<Rightarrow>
      if length (ch_delegation c) > MAX_DELEGATION_DEPTH then Some (hoc InvariantViolation)
      else case ch_delegation c of
        [] \<Rightarrow> None
      | first # rest \<Rightarrow>
          if to_actor (last (ch_delegation c)) \<noteq> ch_actor c then Some (hoc InvariantViolation)
          else if link_scope (last (ch_delegation c)) \<noteq> ch_scope c
               then Some (hoc InvariantViolation)
          else check_links first rest)"

definition mk_chain ::
    "string \<Rightarrow> string \<Rightarrow> delegation_link list \<Rightarrow> scope \<Rightarrow> scope option \<Rightarrow> exn + principal_chain" where
  "mk_chain subj act dlg s rs =
     (let c = \<lparr>ch_subject = subj, ch_actor = act, ch_delegation = dlg, ch_scope = s, ch_root_scope = rs\<rparr>
      in case chain_post_init c of Some e \<Rightarrow> Inl e | None \<Rightarrow> Inr c)"

definition root_chain :: "string \<Rightarrow> string \<Rightarrow> scope \<Rightarrow> exn + principal_chain" where
  "root_chain subj act s = mk_chain subj act [] s None"

definition root_actor :: "principal_chain \<Rightarrow> string" where
  "root_actor c = (case ch_delegation c of [] \<Rightarrow> ch_actor c | d # _ \<Rightarrow> from_actor d)"

definition root_scope :: "principal_chain \<Rightarrow> scope" where
  "root_scope c = (case ch_root_scope c of Some s \<Rightarrow> s | None \<Rightarrow> ch_scope c)"

definition chain_depth :: "principal_chain \<Rightarrow> nat" where
  "chain_depth c = length (ch_delegation c)"

definition delegate :: "principal_chain \<Rightarrow> string \<Rightarrow> scope \<Rightarrow> exn + principal_chain" where
  "delegate c b s =
     (if \<not> is_subset_of s (ch_scope c) then Inl (hoc ScopeEscalation)
      else case mk_delegation (ch_actor c) b s of
        Inl e \<Rightarrow> Inl e
      | Inr link \<Rightarrow> mk_chain (ch_subject c) b (ch_delegation c @ [link]) s (Some (root_scope c)))"

section \<open>The invariant\<close>

text \<open>Consecutive links join and narrow: what \<open>check_links\<close> accepts.\<close>

fun links_ok :: "delegation_link list \<Rightarrow> bool" where
  "links_ok (a # b # ls) =
     (from_actor b = to_actor a \<and> is_subset_of (link_scope b) (link_scope a) \<and> links_ok (b # ls))"
| "links_ok _ = True"

definition wf_chain :: "principal_chain \<Rightarrow> bool" where
  "wf_chain c = (valid_ref (ch_subject c) ''user'' \<and> valid_ref (ch_actor c) ''agent''
     \<and> length (ch_delegation c) \<le> MAX_DELEGATION_DEPTH \<and> links_ok (ch_delegation c)
     \<and> (ch_delegation c \<noteq> [] \<longrightarrow> to_actor (last (ch_delegation c)) = ch_actor c
          \<and> link_scope (last (ch_delegation c)) = ch_scope c))"

lemma validate_ref_simps [simp]:
  "valid_ref s t \<Longrightarrow> validate_ref s t = Inr s"
  "\<not> valid_ref s t \<Longrightarrow> validate_ref s t = Inl (hoc InvariantViolation)"
  by (simp_all add: validate_ref_def)

lemma check_links_None: "check_links p ls = None \<longleftrightarrow> links_ok (p # ls)"
  by (induction p ls rule: check_links.induct) auto

lemma chain_post_init_None: "chain_post_init c = None \<longleftrightarrow> wf_chain c"
  by (cases "valid_ref (ch_subject c) ''user''"; cases "valid_ref (ch_actor c) ''agent''";
      cases "ch_delegation c")
     (auto simp: chain_post_init_def wf_chain_def check_links_None)

lemma mk_chain_ok:
  "mk_chain subj act dlg s rs = Inr c \<longleftrightarrow> wf_chain c \<and>
    c = \<lparr>ch_subject = subj, ch_actor = act, ch_delegation = dlg, ch_scope = s, ch_root_scope = rs\<rparr>"
  by (auto simp: mk_chain_def Let_def chain_post_init_None [symmetric] split: option.splits)

lemma mk_delegation_ok:
  "mk_delegation a b s = Inr l \<longleftrightarrow> valid_ref a ''agent'' \<and> valid_ref b ''agent'' \<and> a \<noteq> b
    \<and> l = \<lparr>from_actor = a, to_actor = b, link_scope = s\<rparr>"
  by (cases "valid_ref a ''agent''"; cases "valid_ref b ''agent''") (auto simp: mk_delegation_def)

lemma delegate_ok:
  "delegate c b s = Inr d \<longleftrightarrow>
    is_subset_of s (ch_scope c) \<and> valid_ref (ch_actor c) ''agent'' \<and> valid_ref b ''agent''
    \<and> ch_actor c \<noteq> b \<and> wf_chain d
    \<and> d = \<lparr>ch_subject = ch_subject c, ch_actor = b,
           ch_delegation = ch_delegation c @ [\<lparr>from_actor = ch_actor c, to_actor = b, link_scope = s\<rparr>],
           ch_scope = s, ch_root_scope = Some (root_scope c)\<rparr>"
proof (cases "is_subset_of s (ch_scope c)")
  case True
  show ?thesis
  proof (cases "mk_delegation (ch_actor c) b s")
    case (Inl e)
    then have "\<not> (valid_ref (ch_actor c) ''agent'' \<and> valid_ref b ''agent'' \<and> ch_actor c \<noteq> b)"
      using mk_delegation_ok [of "ch_actor c" b s] by fastforce
    then show ?thesis using True Inl by (auto simp: delegate_def)
  next
    case (Inr l)
    then have "valid_ref (ch_actor c) ''agent''" "valid_ref b ''agent''" "ch_actor c \<noteq> b"
        "l = \<lparr>from_actor = ch_actor c, to_actor = b, link_scope = s\<rparr>"
      by (simp_all add: mk_delegation_ok)
    then show ?thesis using True Inr
      by (auto simp: delegate_def mk_chain_ok conj_commute cong: conj_cong)
  qed
qed (simp add: delegate_def)

lemma links_ok_snoc:
  "links_ok (ls @ [x]) \<longleftrightarrow> links_ok ls \<and> (ls \<noteq> [] \<longrightarrow>
    from_actor x = to_actor (last ls) \<and> is_subset_of (link_scope x) (link_scope (last ls)))"
  by (induction ls rule: links_ok.induct) auto

text \<open>
  On a well-formed chain \<open>delegate\<close> succeeds exactly under its own conditions: the constructor's
  re-validation never adds a refusal beyond the depth bound.
\<close>

lemma delegate_succeeds:
  assumes "wf_chain c" "is_subset_of s (ch_scope c)" "valid_ref b ''agent''" "ch_actor c \<noteq> b"
    "chain_depth c < MAX_DELEGATION_DEPTH"
  shows "\<exists>d. delegate c b s = Inr d"
  using assms unfolding delegate_ok wf_chain_def chain_depth_def
  by (auto simp: links_ok_snoc)

inductive chain_reach :: "principal_chain \<Rightarrow> principal_chain \<Rightarrow> bool" where
  reach_refl: "chain_reach c c"
| reach_step: "chain_reach c d \<Longrightarrow> delegate d b s = Inr e \<Longrightarrow> chain_reach c e"

lemma delegate_wf: "delegate c b s = Inr d \<Longrightarrow> wf_chain d"
  unfolding delegate_ok by blast

lemma root_chain_ok:
  "root_chain u a s = Inr c \<longleftrightarrow> valid_ref u ''user'' \<and> valid_ref a ''agent''
    \<and> c = \<lparr>ch_subject = u, ch_actor = a, ch_delegation = [], ch_scope = s, ch_root_scope = None\<rparr>"
  by (auto simp: root_chain_def mk_chain_ok wf_chain_def)

text \<open>Every scope along the links contains every later one.\<close>

lemma links_ok_scopes:
  assumes "links_ok ls" "\<forall>l\<in>set ls. wf_scope (link_scope l)" "i \<le> j" "j < length ls"
  shows "is_subset_of (link_scope (ls ! j)) (link_scope (ls ! i))"
  using assms(3,4)
proof (induction j rule: dec_induct)
  case base
  then show ?case by simp
next
  case (step j)
  have adj: "is_subset_of (link_scope (ls ! Suc k)) (link_scope (ls ! k))"
    if "Suc k < length ls" for k
    using assms(1) that
  proof (induction ls arbitrary: k rule: links_ok.induct)
    case (1 a b ls)
    then show ?case by (cases k) auto
  qed auto
  have "wf_scope (link_scope (ls ! i))" using assms(2,4) step by (simp add: nth_mem)
  moreover have "is_subset_of (link_scope (ls ! j)) (link_scope (ls ! i))" using step by simp
  ultimately show ?case using adj [of j] step(4) is_subset_of_trans by blast
qed

lemma chain_reach_props:
  assumes "chain_reach c d" "wf_chain c" "wf_scope (ch_scope c)"
  shows "wf_chain d \<and> ch_subject d = ch_subject c \<and> root_actor d = root_actor c
    \<and> root_scope d = root_scope c \<and> is_subset_of (ch_scope d) (ch_scope c)
    \<and> prefix (ch_delegation c) (ch_delegation d)"
  using assms
proof (induction rule: chain_reach.induct)
  case (reach_refl c)
  then show ?case by simp
next
  case (reach_step c d b s e)
  have e: "wf_chain e" "ch_subject e = ch_subject d" "ch_scope e = s" "root_scope e = root_scope d"
      "is_subset_of s (ch_scope d)" "prefix (ch_delegation d) (ch_delegation e)"
    using reach_step.hyps(2) by (auto simp: delegate_ok root_scope_def split: option.splits)
  have "root_actor e = root_actor d"
    using reach_step.hyps(2) by (auto simp: delegate_ok root_actor_def split: list.splits)
  moreover have "is_subset_of s (ch_scope c)"
    using reach_step e(5) is_subset_of_trans by blast
  ultimately show ?case using reach_step e by (auto intro: prefix_order.trans)
qed

section \<open>Properties\<close>

text \<open>
  C3: delegation can only narrow (I1), never changes the person acted for (I2) and never loses
  its origin. Whatever sequence of delegations is made from a validated chain, the last scope is
  contained in the first one, for every kind the references it grants are among those granted
  at the start, and subject, root actor and root scope are unchanged.
\<close>

theorem delegation_only_narrows:
  assumes "wf_chain c" "wf_scope (ch_scope c)" "chain_reach c d"
  shows "is_subset_of (ch_scope d) (ch_scope c) \<and> granted (ch_scope d) k \<subseteq> granted (ch_scope c) k
    \<and> ch_subject d = ch_subject c \<and> root_actor d = root_actor c \<and> root_scope d = root_scope c"
  using chain_reach_props [OF assms(3,1,2)] granted_mono assms(2) by blast

text \<open>
  The checks of \<open>PrincipalChain(...)\<close> on neighbouring links bound the whole chain: on a chain
  the constructor returned, the scope of any link and the chain's own scope are contained in the
  scope of every earlier link, there are at most eight links, the subject is a user and the actor
  is the target of the last link.
\<close>

theorem chain_constructor_invariant:
  assumes "mk_chain subj act dlg s rs = Inr c" "\<forall>l\<in>set dlg. wf_scope (link_scope l)"
    "i \<le> j" "j < length dlg"
  shows "is_subset_of (link_scope (dlg ! j)) (link_scope (dlg ! i))
    \<and> is_subset_of (ch_scope c) (link_scope (dlg ! i))
    \<and> length dlg \<le> 8 \<and> valid_ref (ch_subject c) ''user'' \<and> to_actor (last dlg) = ch_actor c"
proof -
  have wf: "wf_chain c" "ch_delegation c = dlg" using assms(1) by (auto simp: mk_chain_ok)
  then have ok: "links_ok dlg" "length dlg \<le> 8" "ch_scope c = link_scope (last dlg)"
      "to_actor (last dlg) = ch_actor c" "valid_ref (ch_subject c) ''user''"
    using assms(4) by (auto simp: wf_chain_def MAX_DELEGATION_DEPTH_def)
  have "last dlg = dlg ! (length dlg - 1)" using assms(4) by (intro last_conv_nth) auto
  then have last: "is_subset_of (ch_scope c) (link_scope (dlg ! i))"
    using links_ok_scopes [OF ok(1) assms(2), of i "length dlg - 1"] ok(3) assms(3,4) by simp
  show ?thesis using ok(2,4,5) last links_ok_scopes [OF ok(1) assms(2,3,4)] by simp
qed

definition sample_chain :: principal_chain where
  "sample_chain = \<lparr>ch_subject = ''user:alice'', ch_actor = ''agent:a'', ch_delegation = [],
     ch_scope = set [Capability READ ''document:*'', Capability ACT ''tool:mail''], ch_root_scope = None\<rparr>"

definition sample_delegated :: principal_chain where
  "sample_delegated = \<lparr>ch_subject = ''user:alice'', ch_actor = ''agent:b'',
     ch_delegation = [\<lparr>from_actor = ''agent:a'', to_actor = ''agent:b'',
       link_scope = set [Capability READ ''document:hr/*'']\<rparr>],
     ch_scope = set [Capability READ ''document:hr/*''], ch_root_scope = Some (ch_scope sample_chain)\<rparr>"

lemma sample_chain_wf: "wf_chain sample_chain" "wf_scope (ch_scope sample_chain)"
proof -
  show "wf_chain sample_chain" by code_simp
  have "\<forall>c\<in>ch_scope sample_chain. wf_capability c" by code_simp
  then show "wf_scope (ch_scope sample_chain)" by (simp add: wf_scope_def sample_chain_def)
qed

lemma sample_delegated_reach: "chain_reach sample_chain sample_delegated"
proof -
  have "wf_chain sample_delegated" "is_subset_of (set [Capability READ ''document:hr/*'']) (ch_scope sample_chain)"
      "valid_ref ''agent:a'' ''agent''" "valid_ref ''agent:b'' ''agent''"
    by code_simp+
  then have "delegate sample_chain ''agent:b'' (set [Capability READ ''document:hr/*'']) = Inr sample_delegated"
    unfolding delegate_ok by (simp add: sample_chain_def sample_delegated_def root_scope_def)
  then show ?thesis using chain_reach.intros by blast
qed

theorem delegation_only_narrows_witness:
  "granted (ch_scope sample_delegated) READ \<subseteq> granted (ch_scope sample_chain) READ
    \<and> ch_subject sample_delegated = ch_subject sample_chain"
  using delegation_only_narrows [OF sample_chain_wf sample_delegated_reach, of READ] by blast

theorem chain_constructor_invariant_witness:
  "is_subset_of (ch_scope sample_delegated) (link_scope (ch_delegation sample_delegated ! 0))
    \<and> to_actor (last (ch_delegation sample_delegated)) = ch_actor sample_delegated"
proof -
  have "wf_chain sample_delegated" by code_simp
  then have mk: "mk_chain ''user:alice'' ''agent:b'' (ch_delegation sample_delegated) (ch_scope sample_delegated)
      (Some (ch_scope sample_chain)) = Inr sample_delegated"
    by (simp add: mk_chain_ok sample_delegated_def)
  have "\<forall>c\<in>set [Capability READ ''document:hr/*'']. wf_capability c" by code_simp
  then have "\<forall>l\<in>set (ch_delegation sample_delegated). wf_scope (link_scope l)"
    by (simp add: sample_delegated_def wf_scope_def)
  from chain_constructor_invariant [OF mk this, of 0 0] show ?thesis by (simp add: sample_delegated_def)
qed

end
