(* ===== verification/Py_Json.thy ===== *)
theory Py_Json
  imports Hoc_Errors
begin

text \<open>
  The parts of Python's \<open>json\<close> module the program uses: \<open>json.dumps\<close> with \<open>ensure_ascii\<close> and
  given separators, with or without \<open>sort_keys\<close>, and \<open>json.loads\<close>.

  Characters are the code points below 256. A float is carried as its literal (\<open>repr\<close> prints the
  shortest literal that reads back as the same float); \<open>JInt\<close> is Python's unbounded int. The
  parser takes fuel, one unit per nested or following value; \<open>loads\<close> gives it the length of the
  text, and \<open>loads_json_text\<close> shows that this is enough: whatever was printed reads back.
\<close>

section \<open>Values and the printer\<close>

datatype json = JNull | JBool bool | JInt int | JFloat string | JStr string
  | JArr "json list" | JObj "(string \<times> json) list"

definition dquote :: char where "dquote = CHR 0x22"

definition bslash :: char where "bslash = CHR 0x5C"

definition hex_digits :: string where
  "hex_digits = ''0123456789abcdef''"

definition hex_char :: "nat \<Rightarrow> char" where
  "hex_char d = hex_digits ! d"

definition escapes :: "(char \<times> char) list" where
  "escapes = [(dquote, dquote), (bslash, bslash), (CHR 0x0A, CHR ''n''), (CHR 0x0D, CHR ''r''),
     (CHR 0x09, CHR ''t''), (CHR 0x0C, CHR ''f''), (CHR 0x08, CHR ''b'')]"

definition quote_char :: "char \<Rightarrow> string" where
  "quote_char c = (case map_of escapes c of
     Some e \<Rightarrow> [bslash, e]
   | None \<Rightarrow> if 32 \<le> (of_char c :: nat) \<and> (of_char c :: nat) \<le> 126 then [c]
       else bslash # ''u00'' @ [hex_char (of_char c div 16), hex_char (of_char c mod 16)])"

definition json_quote :: "string \<Rightarrow> string" where
  "json_quote s = dquote # concat (map quote_char s) @ [dquote]"

fun joined :: "string \<Rightarrow> string list \<Rightarrow> string" where
  "joined sep [] = []"
| "joined sep [x] = x"
| "joined sep (x # y # ys) = x @ sep @ joined sep (y # ys)"

primrec json_text :: "string \<Rightarrow> string \<Rightarrow> json \<Rightarrow> string" where
  "json_text isep ksep JNull = ''null''"
| "json_text isep ksep (JBool b) = (if b then ''true'' else ''false'')"
| "json_text isep ksep (JInt i) = show_int i"
| "json_text isep ksep (JFloat t) = t"
| "json_text isep ksep (JStr s) = json_quote s"
| "json_text isep ksep (JArr vs) = ''['' @ joined isep (map (json_text isep ksep) vs) @ '']''"
| "json_text isep ksep (JObj kvs) = ''{'' @ joined isep (map (\<lambda>(k, t). json_quote k @ ksep @ t)
     (map (map_prod id (json_text isep ksep)) kvs)) @ ''}''"

primrec sort_keys :: "json \<Rightarrow> json" where
  "sort_keys JNull = JNull"
| "sort_keys (JBool b) = JBool b"
| "sort_keys (JInt i) = JInt i"
| "sort_keys (JFloat t) = JFloat t"
| "sort_keys (JStr s) = JStr s"
| "sort_keys (JArr vs) = JArr (map sort_keys vs)"
| "sort_keys (JObj kvs) = JObj (sort_key fst (map (map_prod id sort_keys) kvs))"

text \<open>\<open>json.dumps(v)\<close>, and with \<open>sort_keys=True, separators=(",", ":")\<close>.\<close>

definition dumps :: "json \<Rightarrow> string" where
  "dumps v = json_text '', '' '': '' v"

definition dumps_canonical :: "json \<Rightarrow> string" where
  "dumps_canonical v = json_text '','' '':'' (sort_keys v)"

text \<open>A JSON value that is false in a condition, as in \<open>v or {}\<close>.\<close>

definition float_text_zero :: "string \<Rightarrow> bool" where
  "float_text_zero t = list_all (\<lambda>c. c \<in> set ''-0.'') (takeWhile (\<lambda>c. c \<noteq> CHR ''e'' \<and> c \<noteq> CHR ''E'') t)"

definition json_falsy :: "json \<Rightarrow> bool" where
  "json_falsy v = (case v of JNull \<Rightarrow> True | JBool b \<Rightarrow> \<not> b | JInt i \<Rightarrow> i = 0 | JFloat t \<Rightarrow> float_text_zero t
     | JStr s \<Rightarrow> s = [] | JArr vs \<Rightarrow> vs = [] | JObj kvs \<Rightarrow> kvs = [])"

section \<open>The parser\<close>

definition is_digit :: "char \<Rightarrow> bool" where
  "is_digit c = (48 \<le> (of_char c :: nat) \<and> (of_char c :: nat) \<le> 57)"

definition digit_val :: "char \<Rightarrow> nat" where
  "digit_val c = of_char c - 48"

definition nat_of_digits :: "string \<Rightarrow> nat" where
  "nat_of_digits ds = foldl (\<lambda>n c. 10 * n + digit_val c) 0 ds"

definition is_ws :: "char \<Rightarrow> bool" where
  "is_ws c = (c = CHR '' '' \<or> c = CHR 0x09 \<or> c = CHR 0x0A \<or> c = CHR 0x0D)"

definition skip_ws :: "string \<Rightarrow> string" where
  "skip_ws s = dropWhile is_ws s"

definition unescapes :: "(char \<times> char) list" where
  "unescapes = [(dquote, dquote), (bslash, bslash), (CHR ''/'', CHR ''/''), (CHR ''b'', CHR 0x08),
     (CHR ''f'', CHR 0x0C), (CHR ''n'', CHR 0x0A), (CHR ''r'', CHR 0x0D), (CHR ''t'', CHR 0x09)]"

definition hex_val :: "char \<Rightarrow> nat option" where
  "hex_val c = (let n = (of_char c :: nat) in
     if 48 \<le> n \<and> n \<le> 57 then Some (n - 48)
     else if 97 \<le> n \<and> n \<le> 102 then Some (n - 87)
     else if 65 \<le> n \<and> n \<le> 70 then Some (n - 55) else None)"

definition hex4 :: "char \<Rightarrow> char \<Rightarrow> char \<Rightarrow> char \<Rightarrow> char option" where
  "hex4 a b c d = (case (hex_val a, hex_val b, hex_val c, hex_val d) of
     (Some w, Some x, Some y, Some z) \<Rightarrow>
       (let n = ((w * 16 + x) * 16 + y) * 16 + z in if n < 256 then Some (char_of n) else None)
   | _ \<Rightarrow> None)"

fun scan_string :: "string \<Rightarrow> (string \<times> string) option" where
  "scan_string [] = None"
| "scan_string (c # cs) =
     (if c = dquote then Some ([], cs)
      else if c = bslash then
        (case cs of
           [] \<Rightarrow> None
         | e # es \<Rightarrow>
             if e = CHR ''u'' then
               (case es of
                  a # b # h # l # rs \<Rightarrow>
                    (case hex4 a b h l of
                       None \<Rightarrow> None
                     | Some x \<Rightarrow> map_option (\<lambda>(t, r). (x # t, r)) (scan_string rs))
                | _ \<Rightarrow> None)
             else (case map_of unescapes e of
                     None \<Rightarrow> None
                   | Some x \<Rightarrow> map_option (\<lambda>(t, r). (x # t, r)) (scan_string es)))
      else if (of_char c :: nat) < 32 then None
      else map_option (\<lambda>(t, r). (c # t, r)) (scan_string cs))"

text \<open>\<open>(-?(?:0|[1-9]\d*))(\.\d+)?([eE][-+]?\d+)?\<close>\<close>

definition scan_int :: "string \<Rightarrow> (string \<times> string) option" where
  "scan_int s = (case s of
     [] \<Rightarrow> None
   | c # cs \<Rightarrow> if c = CHR ''0'' then Some (''0'', cs)
       else if is_digit c then Some (takeWhile is_digit s, dropWhile is_digit s) else None)"

definition scan_frac :: "string \<Rightarrow> string \<times> string" where
  "scan_frac s = (case s of
     c # cs \<Rightarrow> if c = CHR ''.'' \<and> takeWhile is_digit cs \<noteq> []
       then (CHR ''.'' # takeWhile is_digit cs, dropWhile is_digit cs) else ([], s)
   | [] \<Rightarrow> ([], s))"

definition scan_sign :: "string \<Rightarrow> string \<times> string" where
  "scan_sign s = (case s of c # cs \<Rightarrow> if c = CHR ''-'' \<or> c = CHR ''+'' then ([c], cs) else ([], s)
     | [] \<Rightarrow> ([], s))"

definition scan_exp :: "string \<Rightarrow> string \<times> string" where
  "scan_exp s = (case s of
     c # cs \<Rightarrow> if c = CHR ''e'' \<or> c = CHR ''E'' then
         (case scan_sign cs of (sg, ds) \<Rightarrow>
            if takeWhile is_digit ds \<noteq> []
            then (c # sg @ takeWhile is_digit ds, dropWhile is_digit ds) else ([], s))
       else ([], s)
   | [] \<Rightarrow> ([], s))"

definition split_minus :: "string \<Rightarrow> string \<times> string" where
  "split_minus s = (case s of c # cs \<Rightarrow> if c = CHR ''-'' then (''-'', cs) else ([], s) | [] \<Rightarrow> ([], s))"

definition number_of :: "string \<Rightarrow> string \<Rightarrow> string \<Rightarrow> string \<Rightarrow> json" where
  "number_of sg ip fp ep =
     (if fp = [] \<and> ep = []
      then JInt (if sg = [] then int (nat_of_digits ip) else - int (nat_of_digits ip))
      else JFloat (sg @ ip @ fp @ ep))"

definition scan_number :: "string \<Rightarrow> (json \<times> string) option" where
  "scan_number s =
     (case split_minus s of (sg, s1) \<Rightarrow>
        (case scan_int s1 of
           None \<Rightarrow> None
         | Some (ip, s2) \<Rightarrow>
             (case scan_frac s2 of (fp, s3) \<Rightarrow>
              case scan_exp s3 of (ep, s4) \<Rightarrow> Some (number_of sg ip fp ep, s4))))"

text \<open>The constants, by the text that starts them.\<close>

definition constants :: "(string \<times> json) list" where
  "constants = [(''null'', JNull), (''true'', JBool True), (''false'', JBool False),
     (''NaN'', JFloat ''NaN''), (''Infinity'', JFloat ''Infinity''), (''-Infinity'', JFloat ''-Infinity'')]"

definition scan_constant :: "string \<Rightarrow> (json \<times> string) option" where
  "scan_constant s = (case filter (\<lambda>(t, v). startswith s t) constants of
     [] \<Rightarrow> None | (t, v) # _ \<Rightarrow> Some (v, drop (length t) s))"

text \<open>\<open>dict(pairs)\<close>: a repeated key keeps its place and takes the last value.\<close>

definition dict_of :: "(string \<times> json) list \<Rightarrow> (string \<times> json) list" where
  "dict_of kvs = foldl (\<lambda>d (k, v). AList.update k v d) [] kvs"

fun parse_value :: "nat \<Rightarrow> string \<Rightarrow> (json \<times> string) option"
  and parse_elems :: "nat \<Rightarrow> string \<Rightarrow> (json list \<times> string) option"
  and parse_members :: "nat \<Rightarrow> string \<Rightarrow> ((string \<times> json) list \<times> string) option" where
  "parse_value 0 s = None"
| "parse_value (Suc n) s = (case s of
     [] \<Rightarrow> None
   | c # cs \<Rightarrow>
       if c = dquote then map_option (\<lambda>(t, r). (JStr t, r)) (scan_string cs)
       else if c = CHR ''{'' then
         (case skip_ws cs of
            [] \<Rightarrow> None
          | d # ds \<Rightarrow> if d = CHR ''}'' then Some (JObj [], ds)
              else map_option (\<lambda>(kvs, r). (JObj (dict_of kvs), r)) (parse_members n (d # ds)))
       else if c = CHR ''['' then
         (case skip_ws cs of
            [] \<Rightarrow> None
          | d # ds \<Rightarrow> if d = CHR '']'' then Some (JArr [], ds)
              else map_option (\<lambda>(vs, r). (JArr vs, r)) (parse_elems n (d # ds)))
       else (case scan_constant s of Some r \<Rightarrow> Some r | None \<Rightarrow> scan_number s))"
| "parse_elems 0 s = None"
| "parse_elems (Suc n) s = (case parse_value n s of
     None \<Rightarrow> None
   | Some (v, r) \<Rightarrow> (case skip_ws r of
       [] \<Rightarrow> None
     | c # cs \<Rightarrow> if c = CHR '']'' then Some ([v], cs)
         else if c = CHR '','' then map_option (\<lambda>(vs, q). (v # vs, q)) (parse_elems n (skip_ws cs))
         else None))"
| "parse_members 0 s = None"
| "parse_members (Suc n) s = (case s of
     [] \<Rightarrow> None
   | q # qs \<Rightarrow> if q \<noteq> dquote then None else
       (case scan_string qs of
          None \<Rightarrow> None
        | Some (k, r) \<Rightarrow> (case skip_ws r of
            [] \<Rightarrow> None
          | c # cs \<Rightarrow> if c \<noteq> CHR '':'' then None else
              (case parse_value n (skip_ws cs) of
                 None \<Rightarrow> None
               | Some (v, r') \<Rightarrow> (case skip_ws r' of
                   [] \<Rightarrow> None
                 | d # ds \<Rightarrow> if d = CHR ''}'' then Some ([(k, v)], ds)
                     else if d = CHR '','' then
                       map_option (\<lambda>(kvs, q). ((k, v) # kvs, q)) (parse_members n (skip_ws ds))
                     else None)))))"

definition loads :: "string \<Rightarrow> json option" where
  "loads s = (case parse_value (Suc (length s)) (skip_ws s) of
     Some (v, r) \<Rightarrow> if skip_ws r = [] then Some v else None
   | None \<Rightarrow> None)"

section \<open>What was printed reads back\<close>

subsection \<open>Strings\<close>

lemma quote_char_cases:
  obtains e where "quote_char c = [bslash, e]" "e \<noteq> CHR ''u''" "map_of unescapes e = Some c"
  | "quote_char c = [c]" "c \<noteq> dquote" "c \<noteq> bslash" "32 \<le> (of_char c :: nat)"
  | h l where "quote_char c = [bslash, CHR ''u'', CHR ''0'', CHR ''0'', h, l]"
      "hex4 (CHR ''0'') (CHR ''0'') h l = Some c"
proof (cases "map_of escapes c")
  case (Some e)
  then show thesis
    using that(1) [of e]
    by (auto simp: escapes_def unescapes_def quote_char_def dquote_def bslash_def split: if_splits)
next
  case None
  let ?n = "of_char c :: nat"
  show thesis
  proof (cases "32 \<le> ?n \<and> ?n \<le> 126")
    case True
    then show thesis using None that(2)
      by (auto simp: quote_char_def escapes_def split: if_splits)
  next
    case False
    have hex: "hex_val (hex_char d) = Some d" if "d < 16" for d
    proof -
      have "d \<in> {0,1,2,3,4,5,6,7,8,9,10,11,12,13,14,15}" using that by simp presburger
      then show ?thesis by (auto simp: hex_char_def hex_digits_def hex_val_def Let_def)
    qed
    have lt: "?n < 256" by simp
    have "hex_val (hex_char (?n div 16)) = Some (?n div 16)" using lt by (intro hex) linarith
    moreover have "hex_val (hex_char (?n mod 16)) = Some (?n mod 16)" by (intro hex) simp
    moreover have "hex_val (CHR ''0'') = Some 0" by (simp add: hex_val_def)
    moreover have "?n div 16 * 16 + ?n mod 16 = ?n" by simp
    ultimately have "hex4 (CHR ''0'') (CHR ''0'') (hex_char (?n div 16)) (hex_char (?n mod 16)) = Some c"
      using lt by (simp add: hex4_def Let_def)
    then show thesis using that(3) None False by (simp add: quote_char_def)
  qed
qed

lemma scan_string_quote_char:
  "scan_string (quote_char c @ s) = map_option (\<lambda>(t, r). (c # t, r)) (scan_string s)"
  by (cases c rule: quote_char_cases) (simp_all add: dquote_def bslash_def)

lemma scan_string_quoted: "scan_string (concat (map quote_char s) @ dquote # rest) = Some (s, rest)"
  by (induction s) (simp_all add: scan_string_quote_char)

subsection \<open>Numbers\<close>

text \<open>Where a number may stop: the next character does not continue it.\<close>

definition num_end :: "string \<Rightarrow> bool" where
  "num_end s = (case s of [] \<Rightarrow> True
     | c # _ \<Rightarrow> \<not> is_digit c \<and> c \<notin> set ''.eE+-'')"

lemma is_digit_digit_char: "d < 10 \<Longrightarrow> is_digit (digit_char d)"
  by (simp add: is_digit_def digit_char_def)

lemma digit_val_digit_char: "d < 10 \<Longrightarrow> digit_val (digit_char d) = d"
  by (simp add: digit_val_def digit_char_def)

lemma digit_char_0: "digit_char 0 = CHR ''0''"
  by code_simp

lemma show_nat_digits: "list_all is_digit (show_nat n)"
  by (induction n rule: show_nat.induct)
     (subst show_nat.simps, auto simp: is_digit_digit_char)

lemma show_nat_not_Nil [simp]: "show_nat n \<noteq> []"
  by (subst show_nat.simps) simp

lemma nat_of_digits_show_nat: "nat_of_digits (show_nat n) = n"
proof (induction n rule: show_nat.induct)
  case (1 n)
  show ?case
  proof (cases "n < 10")
    case True
    then show ?thesis
      by (subst show_nat.simps) (simp add: nat_of_digits_def digit_val_digit_char)
  next
    case False
    then have "nat_of_digits (show_nat (n div 10)) = n div 10" using 1 by simp
    then have "nat_of_digits (show_nat (n div 10) @ [digit_char (n mod 10)]) = n"
      by (simp add: nat_of_digits_def digit_val_digit_char)
    then show ?thesis using False by (subst show_nat.simps) simp
  qed
qed

lemma show_nat_hd: "0 < n \<Longrightarrow> hd (show_nat n) \<noteq> CHR ''0''"
proof (induction n rule: show_nat.induct)
  case (1 n)
  show ?case
  proof (cases "n < 10")
    case True
    have "digit_char n \<noteq> digit_char 0"
      using True 1(2) digit_val_digit_char [of n] digit_val_digit_char [of 0] by auto
    then show ?thesis using True by (subst show_nat.simps) (simp add: digit_char_0)
  next
    case False
    then show ?thesis using 1(1) by (subst show_nat.simps) simp
  qed
qed

lemma takeWhile_dropWhile_end:
  assumes "list_all is_digit ds" "num_end rest"
  shows "takeWhile is_digit (ds @ rest) = ds" "dropWhile is_digit (ds @ rest) = rest"
  using assms by (induction ds) (auto simp: num_end_def split: list.splits)

lemma scan_int_show_nat:
  assumes "num_end rest"
  shows "scan_int (show_nat n @ rest) = Some (show_nat n, rest)"
proof (cases "n = 0")
  case True
  then show ?thesis by (simp add: scan_int_def show_nat.simps digit_char_0)
next
  case False
  obtain c cs where c: "show_nat n = c # cs" using show_nat_not_Nil [of n] by (cases "show_nat n") auto
  have "c \<noteq> CHR ''0''" "is_digit c" using False show_nat_hd [of n] show_nat_digits [of n] c by auto
  then show ?thesis using takeWhile_dropWhile_end [OF show_nat_digits [of n] assms] c
    by (simp add: scan_int_def)
qed

lemma scan_frac_end: "num_end s \<Longrightarrow> scan_frac s = ([], s)"
  by (auto simp: scan_frac_def num_end_def split: list.splits)

lemma scan_exp_end: "num_end s \<Longrightarrow> scan_exp s = ([], s)"
  by (auto simp: scan_exp_def num_end_def split: list.splits)

lemma show_nat_no_minus: "show_nat n = c # cs \<Longrightarrow> c \<noteq> CHR ''-''"
  using show_nat_digits [of n] by (auto simp: is_digit_def)

lemma scan_number_show_int:
  assumes "num_end rest"
  shows "scan_number (show_int i @ rest) = Some (JInt i, rest)"
proof (cases "i < 0")
  case True
  then show ?thesis
    by (simp add: scan_number_def split_minus_def number_of_def show_int_def scan_int_show_nat
        scan_frac_end scan_exp_end assms nat_of_digits_show_nat)
next
  case False
  obtain c cs where c: "show_nat (nat i) = c # cs" by (meson neq_Nil_conv show_nat_not_Nil)
  have "scan_int (c # cs @ rest) = Some (c # cs, rest)"
    using scan_int_show_nat [OF assms, of "nat i"] c by simp
  moreover have "nat_of_digits (c # cs) = nat i" using nat_of_digits_show_nat [of "nat i"] c by simp
  ultimately show ?thesis using False show_nat_no_minus [OF c] c
    by (simp add: scan_number_def split_minus_def number_of_def show_int_def scan_frac_end
        scan_exp_end assms)
qed

text \<open>Scanning a number stops at the same place whatever follows it.\<close>

lemma digits_append:
  assumes "num_end rest"
  shows "takeWhile is_digit (s @ rest) = takeWhile is_digit s"
    "dropWhile is_digit (s @ rest) = dropWhile is_digit s @ rest"
  using assms by (induction s) (auto simp: num_end_def split: list.splits)

lemma scan_int_append:
  "num_end rest \<Longrightarrow> scan_int s = Some (a, r) \<Longrightarrow> scan_int (s @ rest) = Some (a, r @ rest)"
  by (cases s) (auto simp: scan_int_def digits_append split: if_splits)

lemma scan_frac_append: "num_end rest \<Longrightarrow> scan_frac (s @ rest) = map_prod id (\<lambda>r. r @ rest) (scan_frac s)"
  by (cases s) (auto simp: scan_frac_def digits_append num_end_def split: list.splits)

lemma scan_sign_append: "num_end rest \<Longrightarrow> scan_sign (s @ rest) = map_prod id (\<lambda>r. r @ rest) (scan_sign s)"
  by (cases s) (auto simp: scan_sign_def num_end_def split: list.splits)

lemma scan_exp_append: "num_end rest \<Longrightarrow> scan_exp (s @ rest) = map_prod id (\<lambda>r. r @ rest) (scan_exp s)"
proof (cases s)
  case Nil
  assume "num_end rest"
  then show ?thesis using Nil by (simp add: scan_exp_end) (simp add: scan_exp_def)
next
  case (Cons c cs)
  assume "num_end rest"
  then show ?thesis using Cons
    by (cases "scan_sign cs") (simp add: scan_exp_def scan_sign_append digits_append)
qed

lemma scan_number_append:
  assumes "num_end rest" "scan_number t = Some (v, r)"
  shows "scan_number (t @ rest) = Some (v, r @ rest)"
proof -
  obtain sg s1 where sg: "split_minus t = (sg, s1)" by fastforce
  then obtain ip s2 where ip: "scan_int s1 = Some (ip, s2)"
    using assms(2) by (auto simp: scan_number_def split: option.splits)
  have "t \<noteq> []" using sg ip by (auto simp: split_minus_def scan_int_def)
  then have "split_minus (t @ rest) = (sg, s1 @ rest)"
    using sg by (cases t) (auto simp: split_minus_def split: if_splits)
  then show ?thesis
    using assms(2) sg ip scan_int_append [OF assms(1) ip]
    by (cases "scan_frac s2"; cases "scan_exp (snd (scan_frac s2))")
       (simp add: scan_number_def scan_frac_append [OF assms(1)] scan_exp_append [OF assms(1)])
qed

definition wf_float :: "string \<Rightarrow> bool" where
  "wf_float t = (scan_number t = Some (JFloat t, []))"

text \<open>A number starts with a digit, or with a minus sign and a digit.\<close>

lemma scan_number_start:
  assumes "scan_number t = Some (v, r)"
  shows "\<exists>c cs. t = c # cs \<and> (is_digit c \<or> (c = CHR ''-'' \<and> (\<exists>d ds. cs = d # ds \<and> is_digit d)))"
proof -
  have dig: "\<exists>c cs. s = c # cs \<and> is_digit c" if "scan_int s = Some (a, q)" for s a q
    using that by (auto simp: scan_int_def is_digit_def split: list.splits if_splits)
  show ?thesis using assms
    by (auto simp: scan_number_def split_minus_def dest!: dig
        split: list.splits if_splits option.splits)
qed

lemma not_digit: "\<not> is_digit (CHR ''n'')" "\<not> is_digit (CHR ''t'')" "\<not> is_digit (CHR ''f'')"
    "\<not> is_digit (CHR ''N'')" "\<not> is_digit (CHR ''I'')" "\<not> is_digit (CHR ''-'')"
    "\<not> is_digit dquote" "\<not> is_digit (CHR ''{'')" "\<not> is_digit (CHR ''['')"
    "\<not> is_digit (CHR '','')" "\<not> is_digit (CHR '']'')" "\<not> is_digit (CHR ''}'')"
  by (simp_all add: is_digit_def dquote_def)

lemma scan_constant_number: "scan_number t = Some (v, r) \<Longrightarrow> scan_constant t = None"
  using scan_number_start [of t v r]
  by (auto simp: scan_constant_def constants_def startswith_def not_digit)

lemma parse_value_number:
  assumes "num_end rest" "scan_number t = Some (v, [])"
  shows "parse_value (Suc n) (t @ rest) = Some (v, rest)"
proof -
  have num: "scan_number (t @ rest) = Some (v, rest)" using scan_number_append [OF assms] by simp
  obtain c cs where t: "t = c # cs" "is_digit c \<or> c = CHR ''-''"
    using scan_number_start [OF assms(2)] by auto
  then have "c \<noteq> dquote" "c \<noteq> CHR ''{''" "c \<noteq> CHR ''[''" by (auto simp: is_digit_def dquote_def)
  then show ?thesis using num scan_constant_number [OF num] t(1) by simp
qed

subsection \<open>Values\<close>

primrec wf_json :: "json \<Rightarrow> bool" where
  "wf_json JNull = True"
| "wf_json (JBool b) = True"
| "wf_json (JInt i) = True"
| "wf_json (JFloat t) = wf_float t"
| "wf_json (JStr s) = True"
| "wf_json (JArr vs) = list_all id (map wf_json vs)"
| "wf_json (JObj kvs) = (distinct (map fst kvs) \<and> list_all snd (map (map_prod id wf_json) kvs))"

text \<open>A printed value is not empty and starts with no blank and no closing bracket.\<close>

definition value_start :: "string \<Rightarrow> bool" where
  "value_start s = (case s of [] \<Rightarrow> False | c # _ \<Rightarrow> \<not> is_ws c \<and> c \<noteq> CHR '']'' \<and> c \<noteq> CHR ''}'')"

lemma value_start_number: "scan_number t = Some (v, r) \<Longrightarrow> value_start t"
  using scan_number_start [of t v r] by (auto simp: value_start_def is_ws_def is_digit_def)

lemma scan_number_int: "scan_number (show_int i) = Some (JInt i, [])"
  using scan_number_show_int [of "[]" i] by (simp add: num_end_def)

lemma value_start_json_text: "wf_json v \<Longrightarrow> value_start (json_text a b v)"
proof (cases v)
  case (JInt i)
  then show ?thesis using value_start_number [OF scan_number_int] by simp
next
  case (JFloat t)
  assume "wf_json v"
  then show ?thesis using JFloat value_start_number by (auto simp: wf_float_def)
qed (simp_all add: value_start_def is_ws_def json_quote_def dquote_def)

lemma value_start_append: "value_start s \<Longrightarrow> value_start (s @ r)"
  by (cases s) (simp_all add: value_start_def)

lemma skip_ws_start: "list_all is_ws w \<Longrightarrow> value_start s \<Longrightarrow> skip_ws (w @ s) = s"
  by (induction w) (auto simp: skip_ws_def value_start_def split: list.splits)

lemma dict_of_distinct: "distinct (map fst kvs) \<Longrightarrow> dict_of kvs = kvs"
proof (induction kvs rule: rev_induct)
  case (snoc x xs)
  have "AList.update k v xs = xs @ [(k, v)]" if "k \<notin> fst ` set xs" for k v
    using that by (induction xs) auto
  then show ?case using snoc by (cases x) (auto simp: dict_of_def)
qed (simp add: dict_of_def)

definition reads_back :: "string \<Rightarrow> json \<Rightarrow> bool" where
  "reads_back t v = (value_start t \<and>
     (\<forall>n rest. length t \<le> n \<longrightarrow> num_end rest \<longrightarrow> parse_value n (t @ rest) = Some (v, rest)))"

lemma Suc_le_Suc_ex: "Suc k \<le> n \<Longrightarrow> \<exists>m. n = Suc m \<and> k \<le> m"
  by (cases n) auto

lemma skip_ws_solid [simp]:
  "skip_ws (CHR '','' # s) = CHR '','' # s" "skip_ws (CHR '']'' # s) = CHR '']'' # s"
  "skip_ws (CHR ''}'' # s) = CHR ''}'' # s" "skip_ws (CHR '':'' # s) = CHR '':'' # s"
  "skip_ws (dquote # s) = dquote # s"
  by (simp_all add: skip_ws_def is_ws_def dquote_def)

lemma num_end_solid [simp]:
  "num_end []" "num_end (CHR '','' # s)" "num_end (CHR '']'' # s)" "num_end (CHR ''}'' # s)"
  by (simp_all add: num_end_def is_digit_def)

lemma joined_Cons: "joined sep (x # xs) = x @ (if xs = [] then [] else sep @ joined sep xs)"
  by (cases xs) simp_all

lemma value_start_joined: "value_start t \<Longrightarrow> value_start (joined sep (t # ts) @ r)"
  by (simp add: joined_Cons value_start_append)

lemma parse_elems_joined:
  assumes w: "list_all is_ws w"
    and vs: "list_all2 reads_back ts vs" "ts \<noteq> []"
    and n: "Suc (length (joined (CHR '','' # w) ts)) \<le> n"
  shows "parse_elems n (joined (CHR '','' # w) ts @ CHR '']'' # rest) = Some (vs, rest)"
  using vs n
proof (induction ts arbitrary: vs n)
  case (Cons t ts)
  obtain v us where vs: "vs = v # us" "reads_back t v" "list_all2 reads_back ts us"
    using Cons.prems(1) by (auto simp: list_all2_Cons1)
  obtain m where m: "n = Suc m" "length t \<le> m" using Cons.prems(3) by (cases n) (auto simp: joined_Cons)
  have val: "parse_value m (t @ r) = Some (v, r)" if "num_end r" for r
    using vs(2) m(2) that by (simp add: reads_back_def)
  show ?case
  proof (cases "ts = []")
    case True
    then show ?thesis using m vs val by simp
  next
    case False
    have "parse_elems m (joined (CHR '','' # w) ts @ CHR '']'' # rest) = Some (us, rest)"
      using Cons.IH [OF vs(3) False, of m] Cons.prems(3) m(1) False by (simp add: joined_Cons)
    moreover obtain t' ts' where "ts = t' # ts'" "value_start t'"
      using False vs(3) by (cases ts) (auto simp: list_all2_Cons1 reads_back_def)
    ultimately show ?thesis using m vs val False w
      by (simp add: joined_Cons skip_ws_start value_start_append)
  qed
qed simp

definition member_text :: "string \<Rightarrow> string \<times> string \<Rightarrow> string" where
  "member_text ksep kt = json_quote (fst kt) @ ksep @ snd kt"

lemma value_start_member: "value_start (member_text ksep kt)"
  by (simp add: member_text_def value_start_def json_quote_def is_ws_def dquote_def)

lemma member_text_length: "length (snd kt) \<le> length (member_text ksep kt)"
  by (simp add: member_text_def)

lemma parse_members_joined:
  assumes w: "list_all is_ws w" "list_all is_ws w'"
    and kvs: "list_all2 (\<lambda>kt kv. fst kt = fst kv \<and> reads_back (snd kt) (snd kv)) kts kvs" "kts \<noteq> []"
    and n: "Suc (length (joined (CHR '','' # w) (map (member_text (CHR '':'' # w')) kts))) \<le> n"
  shows "parse_members n (joined (CHR '','' # w) (map (member_text (CHR '':'' # w')) kts)
    @ CHR ''}'' # rest) = Some (kvs, rest)"
  using kvs n
proof (induction kts arbitrary: kvs n)
  case (Cons kt kts)
  obtain k v us where vs: "kvs = (k, v) # us" "fst kt = k" "reads_back (snd kt) v"
      "list_all2 (\<lambda>kt kv. fst kt = fst kv \<and> reads_back (snd kt) (snd kv)) kts us"
    using Cons.prems(1) by (auto simp: list_all2_Cons1)
  obtain m where m: "n = Suc m" "length (snd kt) \<le> m" "length kts \<noteq> 0 \<longrightarrow>
      Suc (length (joined (CHR '','' # w) (map (member_text (CHR '':'' # w')) kts))) \<le> m"
    using Cons.prems(3) member_text_length [of kt "CHR '':'' # w'"]
    by (cases n; cases "kts = []") (auto simp: joined_Cons)
  have val: "parse_value m (snd kt @ r) = Some (v, r)" if "num_end r" for r
    using vs(3) m(2) that by (simp add: reads_back_def)
  have ws: "skip_ws (w' @ snd kt @ r) = snd kt @ r" for r
    using w(2) vs(3) by (simp add: reads_back_def skip_ws_start value_start_append)
  have key: "scan_string (concat (map quote_char k) @ dquote # r) = Some (k, r)" for r
    by (rule scan_string_quoted)
  show ?case
  proof (cases "kts = []")
    case True
    then show ?thesis using m vs val ws key by (simp add: member_text_def json_quote_def)
  next
    case False
    have "parse_members m (joined (CHR '','' # w) (map (member_text (CHR '':'' # w')) kts)
        @ CHR ''}'' # rest) = Some (us, rest)"
      using Cons.IH [OF vs(4) False, of m] m(3) False by simp
    moreover obtain t ts where ts: "kts = t # ts" using False by (cases kts) auto
    moreover have "skip_ws (w @ joined (CHR '','' # w) (map (member_text (CHR '':'' # w')) kts) @ r)
        = joined (CHR '','' # w) (map (member_text (CHR '':'' # w')) kts) @ r" for r
      using w(1) ts by (simp add: skip_ws_start value_start_joined value_start_member)
    moreover have "joined (CHR '','' # w) (map (member_text (CHR '':'' # w')) (kt # kts))
        = dquote # concat (map quote_char k) @ dquote # CHR '':'' # w' @ snd kt @ CHR '','' # w
          @ joined (CHR '','' # w) (map (member_text (CHR '':'' # w')) kts)"
      using False vs(2) by (simp add: joined_Cons member_text_def json_quote_def)
    ultimately show ?thesis using m(1) vs(1) val ws key by simp
  qed
qed simp

lemma json_text_JObj:
  "json_text a b (JObj kvs) = CHR ''{'' # joined a (map (member_text b) (map (map_prod id (json_text a b)) kvs)) @ ''}''"
  by (simp add: member_text_def case_prod_unfold comp_def)

lemma list_all2_refl_on: "(\<And>x. x \<in> set xs \<Longrightarrow> P x x) \<Longrightarrow> list_all2 P xs xs"
  by (simp add: list_all2_same)

lemma reads_back_Cons:
  assumes "value_start (c # t)"
    and "\<And>m rest. length t \<le> m \<Longrightarrow> num_end rest \<Longrightarrow> parse_value (Suc m) (c # t @ rest) = Some (v, rest)"
  shows "reads_back (c # t) v"
  using assms by (auto simp: reads_back_def simp del: parse_value.simps dest!: Suc_le_Suc_ex)

lemma reads_back_number:
  assumes "scan_number t = Some (v, [])"
  shows "reads_back t v"
  unfolding reads_back_def
proof (intro conjI allI impI)
  show "value_start t" using assms by (rule value_start_number)
  fix n rest
  assume n: "length t \<le> n" and r: "num_end rest"
  have "t \<noteq> []" using scan_number_start [OF assms] by auto
  then obtain m where "n = Suc m" using n by (cases n) auto
  then show "parse_value n (t @ rest) = Some (v, rest)" using parse_value_number [OF r assms] by simp
qed

lemma reads_back_json_text:
  assumes w: "list_all is_ws w" "list_all is_ws w'"
  shows "wf_json v \<Longrightarrow> reads_back (json_text (CHR '','' # w) (CHR '':'' # w') v) v"
proof (induction v)
  case (JInt i)
  then show ?case using reads_back_number [OF scan_number_int] by simp
next
  case (JFloat t)
  then show ?case using reads_back_number by (simp add: wf_float_def)
next
  case (JStr s)
  show ?case
    by (auto simp: reads_back_def value_start_def json_quote_def is_ws_def scan_string_quoted
        dest!: Suc_le_Suc_ex) (simp add: dquote_def)+
next
  case (JArr vs)
  let ?ts = "map (json_text (CHR '','' # w) (CHR '':'' # w')) vs"
  have rb: "list_all2 reads_back ?ts vs"
    using JArr by (auto simp: list_all2_conv_all_nth list_all_iff)
  show ?case
  proof (cases "vs = []")
    case True
    then show ?thesis
      by (auto simp: reads_back_def value_start_def is_ws_def dquote_def dest!: Suc_le_Suc_ex)
  next
    case False
    then obtain t ts where ts: "?ts = t # ts" "value_start t"
      using rb by (cases vs) (auto simp: reads_back_def)
    have "value_start (joined (CHR '','' # w) ?ts)"
      using value_start_joined [OF ts(2), of "CHR '','' # w" ts "[]"] ts(1) by simp
    then obtain c cs where c: "joined (CHR '','' # w) ?ts = c # cs" "\<not> is_ws c" "c \<noteq> CHR '']''"
      by (cases "joined (CHR '','' # w) ?ts") (auto simp: value_start_def)
    have "parse_elems m (c # cs @ CHR '']'' # rest) = Some (vs, rest)" if "Suc (length (c # cs)) \<le> m" for m rest
      using parse_elems_joined [OF w(1) rb, of m rest] that c(1) False by simp
    then have "parse_value (Suc m) (CHR ''['' # (c # cs @ '']'') @ rest) = Some (JArr vs, rest)"
      if "length (c # cs @ '']'') \<le> m" for m rest
      using c(2,3) that by (simp add: dquote_def skip_ws_def)
    then have "reads_back (CHR ''['' # c # cs @ '']'') (JArr vs)"
      by (intro reads_back_Cons) (simp_all add: value_start_def is_ws_def del: parse_value.simps)
    then show ?thesis using c(1) by simp
  qed
next
  case (JObj kvs)
  let ?kts = "map (map_prod id (json_text (CHR '','' # w) (CHR '':'' # w'))) kvs"
  let ?j = "joined (CHR '','' # w) (map (member_text (CHR '':'' # w')) ?kts)"
  have rb: "list_all2 (\<lambda>kt kv. fst kt = fst kv \<and> reads_back (snd kt) (snd kv)) ?kts kvs"
    unfolding list_all2_map1
  proof (rule list_all2_refl_on)
    fix kv assume kv: "kv \<in> set kvs"
    then have "wf_json (snd kv)" using JObj.prems by (auto simp: list_all_iff)
    then show "fst (map_prod id (json_text (CHR '','' # w) (CHR '':'' # w')) kv) = fst kv \<and>
        reads_back (snd (map_prod id (json_text (CHR '','' # w) (CHR '':'' # w')) kv)) (snd kv)"
      using JObj.IH [of kv "snd kv"] kv by (cases kv) simp
  qed
  show ?case
  proof (cases "kvs = []")
    case True
    then show ?thesis
      by (auto simp: reads_back_def value_start_def is_ws_def dquote_def dest!: Suc_le_Suc_ex)
  next
    case False
    then obtain kt kts where ts: "map (member_text (CHR '':'' # w')) ?kts = member_text (CHR '':'' # w') kt # kts"
      by (cases kvs) auto
    have "value_start ?j"
      using value_start_joined [OF value_start_member, of "CHR '','' # w" "CHR '':'' # w'" kt kts "[]"] ts
      by simp
    then obtain c cs where c: "?j = c # cs" "\<not> is_ws c" "c \<noteq> CHR ''}''"
      by (cases ?j) (auto simp: value_start_def)
    have "parse_members m (c # cs @ CHR ''}'' # rest) = Some (kvs, rest)" if "Suc (length (c # cs)) \<le> m" for m rest
      using parse_members_joined [OF w rb, of m rest] that c(1) False by simp
    moreover have "dict_of kvs = kvs" using JObj.prems by (simp add: dict_of_distinct)
    ultimately have "parse_value (Suc m) (CHR ''{'' # (c # cs @ ''}'') @ rest) = Some (JObj kvs, rest)"
      if "length (c # cs @ ''}'') \<le> m" for m rest
      using c(2,3) that by (simp add: dquote_def skip_ws_def)
    then have "reads_back (CHR ''{'' # c # cs @ ''}'') (JObj kvs)"
      by (intro reads_back_Cons) (simp_all add: value_start_def is_ws_def del: parse_value.simps)
    then show ?thesis using c(1) unfolding json_text_JObj by simp
  qed
qed (auto simp: reads_back_def value_start_def is_ws_def dquote_def scan_constant_def constants_def
      startswith_def dest!: Suc_le_Suc_ex)

lemma loads_json_text:
  assumes "list_all is_ws w" "list_all is_ws w'" "wf_json v"
  shows "loads (json_text (CHR '','' # w) (CHR '':'' # w') v) = Some v"
proof -
  let ?t = "json_text (CHR '','' # w) (CHR '':'' # w') v"
  have rb: "reads_back ?t v" using assms by (rule reads_back_json_text)
  then have "parse_value (Suc (length ?t)) (?t @ []) = Some (v, [])"
    unfolding reads_back_def using num_end_solid(1) by (meson le_SucI le_refl)
  moreover have "skip_ws ([] @ ?t) = ?t" using rb by (intro skip_ws_start) (auto simp: reads_back_def)
  ultimately show ?thesis by (simp add: loads_def) (simp add: skip_ws_def)
qed

lemma loads_dumps: "wf_json v \<Longrightarrow> loads (dumps v) = Some v"
  unfolding dumps_def by (rule loads_json_text) (simp_all add: is_ws_def)

lemma wf_sort_keys: "wf_json v \<Longrightarrow> wf_json (sort_keys v)"
proof (induction v)
  case (JObj kvs)
  have "distinct (map fst (sort_key fst (map (map_prod id sort_keys) kvs)))"
    using JObj.prems by (simp add: distinct_map inj_on_def) fastforce
  then show ?case using JObj by (fastforce simp: list_all_iff)
qed (auto simp: list_all_iff)

lemma loads_canonical: "wf_json v \<Longrightarrow> loads (dumps_canonical v) = Some (sort_keys v)"
  unfolding dumps_canonical_def by (rule loads_json_text) (simp_all add: wf_sort_keys)

end
