(* ===== verification/Py_Hash.thy ===== *)
theory Py_Hash
  imports Py_Json "HOL-Library.Word"
begin

text \<open>
  \<open>hashlib.sha256(text.encode()).hexdigest()\<close> and \<open>datetime.isoformat()\<close>, as the program uses them.

  SHA-256 (FIPS 180-4) works on 32-bit words. Text is encoded as UTF-8. A \<open>datetime\<close> is an aware UTC
  instant, a number of microseconds since 1970-01-01; every clock of the program is UTC.
\<close>

unbundle bit_operations_syntax

section \<open>SHA-256\<close>

text \<open>
  The constants are the first 32 bits of the fractional parts of the cube roots (round constants)
  and of the square roots (initial state) of the first primes. \<open>int_root k n\<close> is the integer part of
  the \<open>k\<close>-th root of \<open>n\<close>, built bit by bit.
\<close>

definition int_root :: "nat \<Rightarrow> nat \<Rightarrow> nat" where
  "int_root k n = foldl (\<lambda>r i. if (r + 2 ^ i) ^ k \<le> n then r + 2 ^ i else r) 0 (rev [0..<40])"

definition small_primes :: "nat list" where
  "small_primes = filter (\<lambda>n. list_all (\<lambda>d. n mod d \<noteq> 0) [2..<n]) [2..<312]"

definition root_fraction :: "nat \<Rightarrow> nat \<Rightarrow> 32 word" where
  "root_fraction k p = word_of_nat (int_root k (p * 2 ^ (32 * k)))"

definition sha_k :: "32 word list" where
  "sha_k = map (root_fraction 3) (take 64 small_primes)"

definition sha_h0 :: "32 word list" where
  "sha_h0 = map (root_fraction 2) (take 8 small_primes)"

definition utf8 :: "string \<Rightarrow> nat list" where
  "utf8 s = concat (map (\<lambda>c. let n = (of_char c :: nat) in
     if n < 128 then [n] else [192 + n div 64, 128 + n mod 64]) s)"

definition be_bytes :: "nat \<Rightarrow> nat \<Rightarrow> nat list" where
  "be_bytes k n = map (\<lambda>i. (n div 256 ^ (k - 1 - i)) mod 256) [0..<k]"

definition sha_pad :: "nat list \<Rightarrow> nat list" where
  "sha_pad bs = bs @ [128] @ replicate ((55 + 64 - length bs mod 64) mod 64) 0 @ be_bytes 8 (8 * length bs)"

definition be_word :: "nat list \<Rightarrow> 32 word" where
  "be_word bs = word_of_nat (foldl (\<lambda>n b. 256 * n + b) 0 bs)"

definition small_sigma :: "nat \<Rightarrow> nat \<Rightarrow> nat \<Rightarrow> 32 word \<Rightarrow> 32 word" where
  "small_sigma a b c x = (word_rotr a x XOR word_rotr b x) XOR drop_bit c x"

definition big_sigma :: "nat \<Rightarrow> nat \<Rightarrow> nat \<Rightarrow> 32 word \<Rightarrow> 32 word" where
  "big_sigma a b c x = (word_rotr a x XOR word_rotr b x) XOR word_rotr c x"

primrec sha_extend :: "nat \<Rightarrow> 32 word list \<Rightarrow> 32 word list" where
  "sha_extend 0 w = w"
| "sha_extend (Suc n) w =
     (let i = length w in
      sha_extend n (w @ [w ! (i - 16) + small_sigma 7 18 3 (w ! (i - 15)) + w ! (i - 7)
        + small_sigma 17 19 10 (w ! (i - 2))]))"

fun sha_round :: "32 word list \<Rightarrow> 32 word \<times> 32 word \<Rightarrow> 32 word list" where
  "sha_round [a, b, c, d, e, f, g, h] (k, w) =
     (let t1 = h + big_sigma 6 11 25 e + ((e AND f) XOR (NOT e AND g)) + k + w;
          t2 = big_sigma 2 13 22 a + (((a AND b) XOR (a AND c)) XOR (b AND c))
      in [t1 + t2, a, b, c, d + t1, e, f, g])"
| "sha_round st _ = st"

definition sha_block :: "32 word list \<Rightarrow> nat list \<Rightarrow> 32 word list" where
  "sha_block st bs = (let w = sha_extend 48 (map be_word (chunks 4 bs))
     in map (\<lambda>(x, y). x + y) (zip st (foldl sha_round st (zip sha_k w))))"

definition hex_byte :: "nat \<Rightarrow> string" where
  "hex_byte n = [hex_char (n div 16 mod 16), hex_char (n mod 16)]"

definition sha256_bytes :: "nat list \<Rightarrow> string" where
  "sha256_bytes bs = concat (map (\<lambda>x. concat (map hex_byte (be_bytes 4 (unat x))))
     (foldl sha_block sha_h0 (chunks 64 (sha_pad bs))))"

definition sha256_hex :: "string \<Rightarrow> string" where
  "sha256_hex s = sha256_bytes (utf8 s)"

section \<open>Time\<close>

type_synonym datetime = int
type_synonym timedelta = int

definition seconds :: "int \<Rightarrow> timedelta" where
  "seconds n = n * 1000000"

text \<open>The civil date of a day number, proleptic Gregorian.\<close>

definition civil :: "int \<Rightarrow> int \<times> int \<times> int" where
  "civil day = (let z = day + 719468; era = z div 146097; doe = z mod 146097;
     yoe = (doe - doe div 1460 + doe div 36524 - doe div 146096) div 365;
     doy = doe - (365 * yoe + yoe div 4 - yoe div 100);
     mp = (5 * doy + 2) div 153;
     d = doy - (153 * mp + 2) div 5 + 1;
     m = (if mp < 10 then mp + 3 else mp - 9)
   in (yoe + era * 400 + (if m \<le> 2 then 1 else 0), m, d))"

definition padded :: "nat \<Rightarrow> int \<Rightarrow> string" where
  "padded k n = (let t = show_int n in replicate (k - length t) (CHR ''0'') @ t)"

definition isoformat :: "datetime \<Rightarrow> string" where
  "isoformat t = (let us = t mod 1000000; s = t div 1000000; day = s div 86400; r = s mod 86400
   in (case civil day of (y, m, d) \<Rightarrow> padded 4 y @ ''-'' @ padded 2 m @ ''-'' @ padded 2 d)
      @ ''T'' @ padded 2 (r div 3600) @ '':'' @ padded 2 (r div 60 mod 60) @ '':'' @ padded 2 (r mod 60)
      @ (if us = 0 then [] else ''.'' @ padded 6 us) @ ''+00:00'')"

end
