(* ===== verification/Rt_World.thy ===== *)
theory Rt_World
  imports Py_Hash
begin

text \<open>
  The state every component runs on.

  \<open>world\<close> holds what the process reads from its environment and what the environment keeps:
  the clock (\<open>core/clock.py\<close>), \<open>uuid.uuid4().hex\<close>, the performance counter, the fate of the
  next database statements, and \<open>w_ext\<close>, the state of the services the program talks to (the
  OpenFGA server, an index, a memory backend). Readings are streams, so that a theorem that holds
  for all of them holds for every run. Each component extends the record with the tables it owns;
  its operations work on every extension.

  A float is its value together with the literal \<open>repr\<close> prints for it.
\<close>

datatype pyfloat = PyFloat (fl_val: rat) (fl_repr: string)

definition float_zero :: pyfloat where
  "float_zero = PyFloat 0 ''0.0''"

text \<open>
  The fate of a database statement, run in autocommit mode: it is applied and answered, the
  connection fails before it is applied, or it fails after it was applied and the answer is lost.
\<close>

datatype db_fate = DbOk | DbLost | DbAnswerLost

record 'x world =
  w_clock :: "nat \<Rightarrow> datetime"
  w_clock_at :: nat
  w_uuid :: "nat \<Rightarrow> string"
  w_uuid_at :: nat
  w_perf :: "nat \<Rightarrow> nat \<Rightarrow> pyfloat"
  w_perf_at :: nat
  w_db :: "nat \<Rightarrow> db_fate"
  w_db_at :: nat
  w_ext :: 'x

definition now :: "(('x, 'm) world_scheme, 'e, datetime) eff" where
  "now = stateE (\<lambda>w. (w_clock w (w_clock_at w), w\<lparr>w_clock_at := Suc (w_clock_at w)\<rparr>))"

definition uuid4_hex :: "(('x, 'm) world_scheme, 'e, string) eff" where
  "uuid4_hex = stateE (\<lambda>w. (w_uuid w (w_uuid_at w), w\<lparr>w_uuid_at := Suc (w_uuid_at w)\<rparr>))"

text \<open>\<open>time.perf_counter()\<close> returns the number of the reading; the milliseconds between two
  readings are \<open>w_perf\<close> of their numbers.\<close>

definition perf_counter :: "(('x, 'm) world_scheme, 'e, nat) eff" where
  "perf_counter = stateE (\<lambda>w. (w_perf_at w, w\<lparr>w_perf_at := Suc (w_perf_at w)\<rparr>))"

definition elapsed_ms :: "nat \<Rightarrow> (('x, 'm) world_scheme, 'e, pyfloat) eff" where
  "elapsed_ms started = bindE perf_counter (\<lambda>i. getsE (\<lambda>w. w_perf w started i))"

section \<open>Database statements\<close>

text \<open>
  One statement of a \<open>PostgresStore\<close> (\<open>db/store.py\<close>), or one transaction: \<open>stmt\<close> computes the
  answer and the new tables, or \<open>None\<close> when a constraint refuses it. A psycopg error of any kind
  is raised as the store's own class.
\<close>

definition db_stmt ::
    "err_class \<Rightarrow> (('x, 'm) world_scheme \<Rightarrow> ('a \<times> ('x, 'm) world_scheme) option)
     \<Rightarrow> (('x, 'm) world_scheme, exn, 'a) eff" where
  "db_stmt unavailable stmt = (\<lambda>w.
     let fate = w_db w (w_db_at w); w1 = w\<lparr>w_db_at := Suc (w_db_at w)\<rparr> in
     (case fate of
        DbLost \<Rightarrow> (Inl (hoc unavailable), w1)
      | DbOk \<Rightarrow> (case stmt w1 of None \<Rightarrow> (Inl (hoc unavailable), w1) | Some (x, w2) \<Rightarrow> (Inr x, w2))
      | DbAnswerLost \<Rightarrow> (case stmt w1 of None \<Rightarrow> (Inl (hoc unavailable), w1)
                          | Some (x, w2) \<Rightarrow> (Inl (hoc unavailable), w2))))"

definition db_query :: "err_class \<Rightarrow> (('x, 'm) world_scheme \<Rightarrow> 'a) \<Rightarrow> (('x, 'm) world_scheme, exn, 'a) eff" where
  "db_query unavailable q = db_stmt unavailable (\<lambda>w. Some (q w, w))"

text \<open>The views the environment's streams are read through; nothing else changes when they are read.\<close>

lemma wp_now [wp_rules]:
  "wp now Q R = (\<lambda>w. Q (w_clock w (w_clock_at w)) (w\<lparr>w_clock_at := Suc (w_clock_at w)\<rparr>))"
  by (simp add: now_def wp_stateE)

lemma wp_uuid4_hex [wp_rules]:
  "wp uuid4_hex Q R = (\<lambda>w. Q (w_uuid w (w_uuid_at w)) (w\<lparr>w_uuid_at := Suc (w_uuid_at w)\<rparr>))"
  by (simp add: uuid4_hex_def wp_stateE)

lemma wp_perf_counter [wp_rules]:
  "wp perf_counter Q R = (\<lambda>w. Q (w_perf_at w) (w\<lparr>w_perf_at := Suc (w_perf_at w)\<rparr>))"
  by (simp add: perf_counter_def wp_stateE)

lemma wp_elapsed_ms [wp_rules]:
  "wp (elapsed_ms i) Q R = (\<lambda>w. Q (w_perf w i (w_perf_at w)) (w\<lparr>w_perf_at := Suc (w_perf_at w)\<rparr>))"
  by (simp add: elapsed_ms_def wp_bindE wp_perf_counter wp_getsE)

lemma wp_db_stmtI:
  assumes "\<And>w1 x w2. w1 = w\<lparr>w_db_at := Suc (w_db_at w)\<rparr> \<Longrightarrow> stmt w1 = Some (x, w2) \<Longrightarrow>
      Q x w2 \<and> R (hoc u) w2"
    and "R (hoc u) (w\<lparr>w_db_at := Suc (w_db_at w)\<rparr>)"
  shows "wp (db_stmt u stmt) Q R w"
  using assms by (auto simp: wp_def db_stmt_def Let_def split: db_fate.splits option.splits)

lemma db_stmt_Inr:
  "db_stmt u stmt w = (Inr x, w') \<longleftrightarrow>
    w_db w (w_db_at w) = DbOk \<and> stmt (w\<lparr>w_db_at := Suc (w_db_at w)\<rparr>) = Some (x, w')"
  by (auto simp: db_stmt_def Let_def split: db_fate.splits option.splits)

lemma db_query_Inr:
  "db_query u q w = (Inr x, w') \<longleftrightarrow>
    w_db w (w_db_at w) = DbOk \<and> x = q (w\<lparr>w_db_at := Suc (w_db_at w)\<rparr>) \<and> w' = w\<lparr>w_db_at := Suc (w_db_at w)\<rparr>"
  by (auto simp: db_query_def db_stmt_Inr)

lemma db_query_Inl: "db_query u q w = (Inl e, w') \<Longrightarrow> e = hoc u"
  by (auto simp: db_query_def db_stmt_def Let_def split: db_fate.splits)

lemma keeps_stateE [keeps_rules]: "(\<And>w. f (snd (g w)) = f w) \<Longrightarrow> keeps f (stateE g)"
  by (simp add: keeps_def stateE_def split: prod.splits) (metis snd_conv)

lemma keeps_modifyE [keeps_rules]: "(\<And>w. f (g w) = f w) \<Longrightarrow> keeps f (modifyE g)"
  by (simp add: keeps_def modifyE_def)

lemma keeps_db_stmt [keeps_rules]:
  assumes "\<And>w. f (w\<lparr>w_db_at := Suc (w_db_at w)\<rparr>) = f w"
    and "\<And>w x w'. stmt w = Some (x, w') \<Longrightarrow> f w' = f w"
  shows "keeps f (db_stmt u stmt)"
  using assms by (intro keepsI)
    (auto simp: db_stmt_def Let_def split: db_fate.splits option.splits)

lemma keeps_db_query [keeps_rules]:
  "(\<And>w. f (w\<lparr>w_db_at := Suc (w_db_at w)\<rparr>) = f w) \<Longrightarrow> keeps f (db_query u q)"
  unfolding db_query_def by (rule keeps_db_stmt) auto

lemma keeps_now [keeps_rules]:
  "(\<And>w. f (w\<lparr>w_clock_at := Suc (w_clock_at w)\<rparr>) = f w) \<Longrightarrow> keeps f now"
  by (simp add: now_def keeps_rules)

lemma keeps_uuid4_hex [keeps_rules]:
  "(\<And>w. f (w\<lparr>w_uuid_at := Suc (w_uuid_at w)\<rparr>) = f w) \<Longrightarrow> keeps f uuid4_hex"
  by (simp add: uuid4_hex_def keeps_rules)

lemma keeps_perf_counter [keeps_rules]:
  "(\<And>w. f (w\<lparr>w_perf_at := Suc (w_perf_at w)\<rparr>) = f w) \<Longrightarrow> keeps f perf_counter"
  by (simp add: perf_counter_def keeps_rules)

lemma keeps_elapsed_ms [keeps_rules]:
  "(\<And>w. f (w\<lparr>w_perf_at := Suc (w_perf_at w)\<rparr>) = f w) \<Longrightarrow> keeps f (elapsed_ms i)"
  by (simp add: elapsed_ms_def keeps_rules)

section \<open>Atomic calls\<close>

text \<open>
  \<open>atomic view good spec m\<close>: on good states the call \<open>m\<close> acts on the view as one step of the relation
  \<open>spec\<close>. When it raises, the step was not taken, or it was taken and its answer was lost. The
  contracts of the stores are stated with it.
\<close>

definition atomic ::
    "('w \<Rightarrow> 's) \<Rightarrow> ('w \<Rightarrow> bool) \<Rightarrow> ('s \<Rightarrow> 'a \<Rightarrow> 's \<Rightarrow> bool) \<Rightarrow> ('w, 'e, 'a) eff \<Rightarrow> bool" where
  "atomic view good spec m \<longleftrightarrow> (\<forall>w. good w \<longrightarrow> wp m (\<lambda>x w'. good w' \<and> spec (view w) x (view w'))
     (\<lambda>e w'. good w' \<and> (view w' = view w \<or> (\<exists>x. spec (view w) x (view w')))) w)"

lemma atomicI:
  assumes "\<And>w x w'. good w \<Longrightarrow> m w = (Inr x, w') \<Longrightarrow> good w' \<and> spec (view w) x (view w')"
    and "\<And>w e w'. good w \<Longrightarrow> m w = (Inl e, w') \<Longrightarrow>
      good w' \<and> (view w' = view w \<or> (\<exists>x. spec (view w) x (view w')))"
  shows "atomic view good spec m"
  unfolding atomic_def by (intro allI impI wpI) (rule assms; assumption)+

lemma atomicD:
  assumes "atomic view good spec m" "good w"
  shows "m w = (Inr x, w') \<Longrightarrow> good w' \<and> spec (view w) x (view w')"
    and "m w = (Inl e, w') \<Longrightarrow> good w' \<and> (view w' = view w \<or> (\<exists>x. spec (view w) x (view w')))"
proof -
  have wp: "wp m (\<lambda>x w'. good w' \<and> spec (view w) x (view w'))
      (\<lambda>e w'. good w' \<and> (view w' = view w \<or> (\<exists>x. spec (view w) x (view w')))) w"
    using assms unfolding atomic_def by (elim allE impE)
  show "m w = (Inr x, w') \<Longrightarrow> good w' \<and> spec (view w) x (view w')" by (rule wpD(1) [OF wp])
  show "m w = (Inl e, w') \<Longrightarrow> good w' \<and> (view w' = view w \<or> (\<exists>x. spec (view w) x (view w')))"
    by (rule wpD(2) [OF wp])
qed

lemma atomic_getsE:
  "(\<And>w. good w \<Longrightarrow> spec (view w) (f w) (view w)) \<Longrightarrow> atomic view good spec (getsE f)"
  by (auto simp: atomic_def wp_getsE)

lemma atomic_modifyE:
  "(\<And>w. good w \<Longrightarrow> good (f w) \<and> spec (view w) () (view (f w))) \<Longrightarrow> atomic view good spec (modifyE f)"
  by (auto simp: atomic_def wp_modifyE)

lemma atomic_db_stmt:
  assumes frame: "\<And>w n. view (w\<lparr>w_db_at := n\<rparr>) = view w" "\<And>w n. good (w\<lparr>w_db_at := n\<rparr>) = good w"
    and step: "\<And>w x w'. good w \<Longrightarrow> stmt w = Some (x, w') \<Longrightarrow> good w' \<and> spec (view w) x (view w')"
  shows "atomic view good spec (db_stmt u stmt)"
proof (rule atomicI)
  fix w x w' assume w: "good w" and run: "db_stmt u stmt w = (Inr x, w')"
  then have "stmt (w\<lparr>w_db_at := Suc (w_db_at w)\<rparr>) = Some (x, w')" by (simp add: db_stmt_Inr)
  from step [OF _ this] show "good w' \<and> spec (view w) x (view w')" using w by (simp add: frame)
next
  fix w e w' assume w: "good w" and run: "db_stmt u stmt w = (Inl e, w')"
  let ?w = "w\<lparr>w_db_at := Suc (w_db_at w)\<rparr>"
  have "w' = ?w \<or> (\<exists>x. stmt ?w = Some (x, w'))"
    using run by (auto simp: db_stmt_def Let_def split: db_fate.splits option.splits)
  then show "good w' \<and> (view w' = view w \<or> (\<exists>x. spec (view w) x (view w')))"
    using step [of ?w _ w'] w by (auto simp: frame)
qed

lemma atomic_db_query:
  assumes "\<And>w n. view (w\<lparr>w_db_at := n\<rparr>) = view w" "\<And>w n. good (w\<lparr>w_db_at := n\<rparr>) = good w"
    and "\<And>w. good w \<Longrightarrow> spec (view w) (q w) (view w)"
  shows "atomic view good spec (db_query u q)"
  unfolding db_query_def by (rule atomic_db_stmt) (use assms in auto)

text \<open>What is computed from the answer without touching the state keeps the call atomic.\<close>

lemma atomic_bind_pure:
  assumes "atomic view good spec m"
    and "\<And>s x s' w. spec s x s' \<Longrightarrow> wp (f x) (\<lambda>y w'. w' = w \<and> spec' s y s') (\<lambda>e w'. w' = w \<and> (s' = s \<or> (\<exists>y. spec' s y s'))) w"
    and "\<And>s x s'. spec s x s' \<Longrightarrow> s' = s \<or> (\<exists>y. spec' s y s')"
  shows "atomic view good spec' (bindE m f)"
proof (rule atomicI)
  fix w y w' assume w: "good w" and run: "bindE m f w = (Inr y, w')"
  then obtain x w1 where r: "m w = (Inr x, w1)" "f x w1 = (Inr y, w')" by (auto simp: bindE_Inr)
  from atomicD(1) [OF assms(1) w r(1)] have s: "good w1" "spec (view w) x (view w1)" by auto
  from assms(2) [OF s(2), of w1] r(2) show "good w' \<and> spec' (view w) y (view w')" using s(1) by (simp add: wp_def)
next
  fix w e w' assume w: "good w" and run: "bindE m f w = (Inl e, w')"
  then consider (first) "m w = (Inl e, w')" | (second) x w1 where "m w = (Inr x, w1)" "f x w1 = (Inl e, w')"
    by (auto simp: bindE_def split: prod.splits sum.splits)
  then show "good w' \<and> (view w' = view w \<or> (\<exists>x. spec' (view w) x (view w')))"
  proof cases
    case first
    then show ?thesis using atomicD(2) [OF assms(1) w first] assms(3) by blast
  next
    case (second x w1)
    from atomicD(1) [OF assms(1) w second(1)] have s: "good w1" "spec (view w) x (view w1)" by auto
    from assms(2) [OF s(2), of w1] second(2) show ?thesis using s(1) by (simp add: wp_def)
  qed
qed

end
