(* ===== verification/Core_Events.thy ===== *)
theory Core_Events
  imports Core_Chain Rt_World
begin

text \<open>
  Actions, outcomes and decisions (\<open>core/decision.py\<close>), policies' vocabulary (\<open>core/policy.py\<close>),
  audit events and their hashes (\<open>core/events.py\<close>), and the interfaces the decision path is built
  on (\<open>core/engine.py\<close>, \<open>core/events.py\<close>, \<open>core/metrics.py\<close>) as records of calls.
\<close>

section \<open>Decisions\<close>

datatype outcome = ALLOW | DENY | REQUIRE_APPROVAL

fun outcome_value :: "outcome \<Rightarrow> string" where
  "outcome_value ALLOW = ''ALLOW''"
| "outcome_value DENY = ''DENY''"
| "outcome_value REQUIRE_APPROVAL = ''REQUIRE_APPROVAL''"

record action =
  act_kind :: kind
  act_relation :: string

definition action_read :: action where
  "action_read = \<lparr>act_kind = READ, act_relation = ''viewer''\<rparr>"

definition action_edit :: action where
  "action_edit = \<lparr>act_kind = ACT, act_relation = ''editor''\<rparr>"

definition action_invoke :: action where
  "action_invoke = \<lparr>act_kind = ACT, act_relation = ''can_invoke''\<rparr>"

definition action_remember :: action where
  "action_remember = \<lparr>act_kind = REMEMBER, act_relation = ''viewer''\<rparr>"

definition action_read_memory :: action where
  "action_read_memory = \<lparr>act_kind = READ, act_relation = ''viewer''\<rparr>"

record decision =
  d_outcome :: outcome
  d_reason :: string
  d_chain :: principal_chain
  d_resource :: string
  d_action :: action
  d_timestamp :: datetime
  d_engine_latency_ms :: pyfloat
  d_decision_id :: string
  d_resources :: "string list"

definition allowed :: "decision \<Rightarrow> bool" where
  "allowed d = (d_outcome d = ALLOW)"

section \<open>Verdicts\<close>

record verdict =
  v_outcome :: outcome
  v_reason :: string

definition verdict_ALLOW :: verdict where
  "verdict_ALLOW = \<lparr>v_outcome = ALLOW, v_reason = ''policy_allowed''\<rparr>"

fun severity :: "outcome \<Rightarrow> nat" where
  "severity ALLOW = 0"
| "severity REQUIRE_APPROVAL = 1"
| "severity DENY = 2"

definition most_restrictive :: "verdict \<Rightarrow> verdict \<Rightarrow> verdict" where
  "most_restrictive a b = (if severity (v_outcome b) > severity (v_outcome a) then b else a)"

record decision_context =
  approval_id :: "string option"

definition no_context :: decision_context where
  "no_context = \<lparr>approval_id = None\<rparr>"

text \<open>Tool arguments are JSON objects.\<close>

type_synonym tool_args = "(string \<times> json) list"

type_synonym policy =
  "principal_chain \<Rightarrow> action \<Rightarrow> string \<Rightarrow> tool_args \<Rightarrow> decision_context \<Rightarrow> exn + verdict"

section \<open>Audit events\<close>

datatype event_kind = EvDecision | EvTokenIssued | EvTokenDelegated | EvTokenRevoked
  | EvMemoryWritten | EvMemoryRead | EvApprovalRequested | EvApprovalResolved
  | EvApprovalConsumed | EvApprovalNotifyFailed | EvMandateCreated | EvMandateRevoked
  | EvMandateExpired | EvReadFiltered | EvToolsListed | EvConnectorSynced

definition event_kinds :: "(event_kind \<times> string) list" where
  "event_kinds = [(EvDecision, ''decision''), (EvTokenIssued, ''token_issued''),
     (EvTokenDelegated, ''token_delegated''), (EvTokenRevoked, ''token_revoked''),
     (EvMemoryWritten, ''memory_written''), (EvMemoryRead, ''memory_read''),
     (EvApprovalRequested, ''approval_requested''), (EvApprovalResolved, ''approval_resolved''),
     (EvApprovalConsumed, ''approval_consumed''),
     (EvApprovalNotifyFailed, ''approval_notify_failed''), (EvMandateCreated, ''mandate_created''),
     (EvMandateRevoked, ''mandate_revoked''), (EvMandateExpired, ''mandate_expired''),
     (EvReadFiltered, ''read_filtered''), (EvToolsListed, ''tools_listed''),
     (EvConnectorSynced, ''connector_synced'')]"

definition event_kind_value :: "event_kind \<Rightarrow> string" where
  "event_kind_value k = the (map_of event_kinds k)"

definition event_kind_of :: "string \<Rightarrow> event_kind option" where
  "event_kind_of s = map_of (map (\<lambda>(k, t). (t, k)) event_kinds) s"

record audit_event =
  ev_kind :: event_kind
  ev_timestamp :: datetime
  ev_subject :: string
  ev_actor :: string
  ev_delegation_depth :: nat
  ev_action :: string
  ev_resource :: string
  ev_outcome :: string
  ev_reason :: string
  ev_engine_latency_ms :: pyfloat
  ev_token_fingerprint :: "string option"
  ev_args_hash :: "string option"
  ev_decision_id :: "string option"
  ev_event_id :: string

definition opt_str :: "string option \<Rightarrow> json" where
  "opt_str x = (case x of None \<Rightarrow> JNull | Some s \<Rightarrow> JStr s)"

text \<open>\<open>asdict(self)\<close>, with the timestamp as \<open>_json_default\<close> prints it.\<close>

definition event_dict :: "audit_event \<Rightarrow> json" where
  "event_dict e = JObj [
     (''kind'', JStr (event_kind_value (ev_kind e))),
     (''timestamp'', JStr (isoformat (ev_timestamp e))),
     (''subject'', JStr (ev_subject e)),
     (''actor'', JStr (ev_actor e)),
     (''delegation_depth'', JInt (int (ev_delegation_depth e))),
     (''action'', JStr (ev_action e)),
     (''resource'', JStr (ev_resource e)),
     (''outcome'', JStr (ev_outcome e)),
     (''reason'', JStr (ev_reason e)),
     (''engine_latency_ms'', JFloat (fl_repr (ev_engine_latency_ms e))),
     (''token_fingerprint'', opt_str (ev_token_fingerprint e)),
     (''args_hash'', opt_str (ev_args_hash e)),
     (''decision_id'', opt_str (ev_decision_id e)),
     (''event_id'', JStr (ev_event_id e))]"

definition canonical_json :: "audit_event \<Rightarrow> string" where
  "canonical_json e = dumps_canonical (event_dict e)"

definition GENESIS_HASH :: string where
  "GENESIS_HASH = replicate 64 (CHR ''0'')"

definition compute_hash :: "string \<Rightarrow> audit_event \<Rightarrow> string" where
  "compute_hash prev_hash e = sha256_hex (prev_hash @ canonical_json e)"

record stored_event =
  st_event :: audit_event
  st_prev_hash :: string
  st_hash :: string

definition chain_event :: "audit_event \<Rightarrow> string \<Rightarrow> stored_event" where
  "chain_event e prev = \<lparr>st_event = e, st_prev_hash = prev, st_hash = compute_hash prev e\<rparr>"

definition hash_args :: "tool_args option \<Rightarrow> string option" where
  "hash_args args = (case args of None \<Rightarrow> None | Some a \<Rightarrow> Some (sha256_hex (dumps_canonical (JObj a))))"

definition fingerprint :: "string \<Rightarrow> string" where
  "fingerprint secret = sha256_hex secret"

text \<open>\<open>f"{action.kind}:{action.relation}"\<close>\<close>

definition action_name :: "action \<Rightarrow> string" where
  "action_name a = kind_value (act_kind a) @ '':'' @ act_relation a"

definition decision_event :: "decision \<Rightarrow> string option \<Rightarrow> string \<Rightarrow> audit_event" where
  "decision_event d ah eid =
     \<lparr>ev_kind = EvDecision, ev_timestamp = d_timestamp d, ev_subject = ch_subject (d_chain d),
      ev_actor = ch_actor (d_chain d), ev_delegation_depth = chain_depth (d_chain d),
      ev_action = action_name (d_action d), ev_resource = d_resource d,
      ev_outcome = outcome_value (d_outcome d), ev_reason = d_reason d,
      ev_engine_latency_ms = d_engine_latency_ms d, ev_token_fingerprint = None, ev_args_hash = ah,
      ev_decision_id = Some (d_decision_id d), ev_event_id = eid\<rparr>"

definition event_from_decision ::
    "decision \<Rightarrow> string option \<Rightarrow> (('x, 'm) world_scheme, exn, audit_event) eff" where
  "event_from_decision d ah = bindE uuid4_hex (\<lambda>eid. retE (decision_event d ah eid))"

section \<open>Interfaces\<close>

record 'w authz_engine =
  eng_check :: "string \<Rightarrow> string \<Rightarrow> string \<Rightarrow> ('w, exn, bool) eff"
  eng_batch_check :: "string \<Rightarrow> (string \<times> string) list \<Rightarrow> ('w, exn, bool list) eff"
  eng_list_objects :: "string \<Rightarrow> string \<Rightarrow> string \<Rightarrow> ('w, exn, string list) eff"

text \<open>(user, relation, object) in OpenFGA order.\<close>

type_synonym tuple = "string \<times> string \<times> string"

record 'w tuple_store =
  ts_write_tuples :: "tuple list \<Rightarrow> ('w, exn, unit) eff"
  ts_delete_tuples :: "tuple list \<Rightarrow> ('w, exn, unit) eff"
  ts_read_tuples :: "string \<Rightarrow> string \<Rightarrow> ('w, exn, tuple list) eff"

type_synonym 'w audit_sink = "audit_event \<Rightarrow> ('w, exn, unit) eff"

record 'w metrics_sink =
  ms_record :: "decision \<Rightarrow> pyfloat \<Rightarrow> pyfloat option \<Rightarrow> ('w, exn, unit) eff"
  ms_notify_failed :: "string \<Rightarrow> ('w, exn, unit) eff"

section \<open>Lemmas\<close>

lemma outcome_value_inject [simp]: "outcome_value a = outcome_value b \<longleftrightarrow> a = b"
  by (cases a; cases b) simp_all

lemma event_kind_round_trip [simp]: "event_kind_of (event_kind_value k) = Some k"
  by (cases k) (simp_all add: event_kind_of_def event_kind_value_def event_kinds_def)

lemma severity_inject: "severity a = severity b \<longleftrightarrow> a = b"
  by (cases a; cases b) simp_all

lemma most_restrictive_severity:
  "severity (v_outcome (most_restrictive a b)) = max (severity (v_outcome a)) (severity (v_outcome b))"
  by (simp add: most_restrictive_def)

text \<open>An event whose latency is a float literal prints as JSON that reads back.\<close>

definition wf_event :: "audit_event \<Rightarrow> bool" where
  "wf_event e = wf_float (fl_repr (ev_engine_latency_ms e))"

lemma wf_event_dict: "wf_event e \<Longrightarrow> wf_json (event_dict e)"
  by (simp add: wf_event_def event_dict_def opt_str_def split: option.splits)

lemma loads_canonical_json: "wf_event e \<Longrightarrow> loads (canonical_json e) = Some (sort_keys (event_dict e))"
  unfolding canonical_json_def by (intro loads_canonical wf_event_dict)

end
