(* ===== verification/Audit_Journal.thy ===== *)
theory Audit_Journal
  imports Core_Events
begin

text \<open>
  The audit journal (\<open>audit/chain.py\<close>, \<open>audit/postgres.py\<close>, \<open>audit/memory.py\<close>,
  \<open>audit/composite.py\<close>).

  \<open>w_journal\<close> is the table \<open>audit_events\<close> in \<open>seq\<close> order, with its reporting columns;
  \<open>w_mem_events\<close> is the list an \<open>InMemoryAuditSink\<close> keeps. \<open>pg_record\<close> is one transaction: under the
  advisory lock it reads the last hash and inserts, so the model runs it as one statement. What a
  verification reads back from a payload goes through Python's \<open>int\<close>, \<open>float\<close>, \<open>str\<close> and
  \<open>datetime.fromisoformat\<close>: they are the parameter \<open>pyconv\<close>, and \<open>conv_laws\<close> states the documented
  behaviour the journal relies on, that each reads back what the program printed.

  The locale \<open>audit_log\<close> is the contract of an \<open>AuditSink\<close>; both sinks interpret it.
\<close>

section \<open>Rows\<close>

datatype sqlval = SqlText string | SqlInt int | SqlFloat pyfloat | SqlTime datetime | SqlNull

definition sql_opt :: "string option \<Rightarrow> sqlval" where
  "sql_opt x = (case x of None \<Rightarrow> SqlNull | Some s \<Rightarrow> SqlText s)"

record journal_row =
  j_seq :: nat
  j_columns :: "(string \<times> sqlval) list"
  j_payload :: string
  j_prev_hash :: string
  j_hash :: string

record 'x audit_world = "'x world" +
  w_journal :: "journal_row list"
  w_seq :: nat
  w_mem_events :: "stored_event list"

section \<open>The Postgres sink\<close>

definition event_columns :: "audit_event \<Rightarrow> (string \<times> sqlval) list" where
  "event_columns e = [
     (''event_id'', SqlText (ev_event_id e)),
     (''kind'', SqlText (event_kind_value (ev_kind e))),
     (''ts'', SqlTime (ev_timestamp e)),
     (''subject'', SqlText (ev_subject e)),
     (''actor'', SqlText (ev_actor e)),
     (''delegation_depth'', SqlInt (int (ev_delegation_depth e))),
     (''action'', SqlText (ev_action e)),
     (''resource'', SqlText (ev_resource e)),
     (''outcome'', SqlText (ev_outcome e)),
     (''reason'', SqlText (ev_reason e)),
     (''engine_latency_ms'', SqlFloat (ev_engine_latency_ms e)),
     (''token_fingerprint'', sql_opt (ev_token_fingerprint e)),
     (''args_hash'', sql_opt (ev_args_hash e)),
     (''decision_id'', sql_opt (ev_decision_id e))]"

definition last_hash :: "journal_row list \<Rightarrow> string" where
  "last_hash rows = (if rows = [] then GENESIS_HASH else j_hash (last rows))"

definition event_row :: "nat \<Rightarrow> string \<Rightarrow> audit_event \<Rightarrow> journal_row" where
  "event_row seq prev e = \<lparr>j_seq = seq, j_columns = event_columns e, j_payload = canonical_json e,
     j_prev_hash = prev, j_hash = compute_hash prev e\<rparr>"

text \<open>\<open>event_id TEXT NOT NULL UNIQUE\<close>: a repeated id refuses the insert.\<close>

definition pg_record :: "audit_event \<Rightarrow> (('x, 'm) audit_world_scheme, exn, unit) eff" where
  "pg_record e = db_stmt AuditUnavailable (\<lambda>w.
     if list_ex (\<lambda>r. map_of (j_columns r) ''event_id'' = Some (SqlText (ev_event_id e))) (w_journal w)
     then None
     else Some ((), w\<lparr>w_journal := w_journal w @ [event_row (Suc (w_seq w)) (last_hash (w_journal w)) e],
                      w_seq := Suc (w_seq w)\<rparr>))"

section \<open>Verification\<close>

record pyconv =
  conv_int :: "json \<Rightarrow> int option"
  conv_float :: "json \<Rightarrow> string option"
  conv_time :: "json \<Rightarrow> string option"
  conv_str :: "json \<Rightarrow> string"

text \<open>
  \<open>event_from_payload\<close>, as the dict the event prints as: \<open>kind\<close> must be a known kind, the timestamp
  is read and printed again, the depth goes through \<open>int\<close> and the latency through \<open>float\<close>; the
  other fields are taken as they are. A missing key or a value that cannot be read raises.
\<close>

definition dict_get :: "(string \<times> json) list \<Rightarrow> string \<Rightarrow> json" where
  "dict_get d k = (case map_of d k of Some v \<Rightarrow> v | None \<Rightarrow> JNull)"

definition required_keys :: "string list" where
  "required_keys = [''kind'', ''timestamp'', ''subject'', ''actor'', ''delegation_depth'', ''action'',
     ''resource'', ''outcome'', ''reason'', ''engine_latency_ms'', ''event_id'']"

definition kind_text :: "json \<Rightarrow> string option" where
  "kind_text v = (case v of JStr s \<Rightarrow> map_option event_kind_value (event_kind_of s) | _ \<Rightarrow> None)"

definition event_from_data :: "pyconv \<Rightarrow> (string \<times> json) list \<Rightarrow> exn + json" where
  "event_from_data pc d =
     (if \<not> list_all (\<lambda>k. map_of d k \<noteq> None) required_keys then Inl (Other ''KeyError'')
      else case (kind_text (dict_get d ''kind''), conv_time pc (dict_get d ''timestamp''),
                 conv_int pc (dict_get d ''delegation_depth''),
                 conv_float pc (dict_get d ''engine_latency_ms'')) of
        (Some k, Some t, Some n, Some f) \<Rightarrow> Inr (JObj [
          (''kind'', JStr k), (''timestamp'', JStr t),
          (''subject'', dict_get d ''subject''), (''actor'', dict_get d ''actor''),
          (''delegation_depth'', JInt n), (''action'', dict_get d ''action''),
          (''resource'', dict_get d ''resource''), (''outcome'', dict_get d ''outcome''),
          (''reason'', dict_get d ''reason''), (''engine_latency_ms'', JFloat f),
          (''token_fingerprint'', dict_get d ''token_fingerprint''),
          (''args_hash'', dict_get d ''args_hash''), (''decision_id'', dict_get d ''decision_id''),
          (''event_id'', dict_get d ''event_id'')])
      | _ \<Rightarrow> Inl (Other ''ValueError''))"

definition payload_data :: "string \<Rightarrow> exn + (string \<times> json) list" where
  "payload_data p = (case loads p of
     None \<Rightarrow> Inl (Other ''JSONDecodeError'')
   | Some (JObj d) \<Rightarrow> Inr d
   | Some _ \<Rightarrow> Inl (Other ''TypeError''))"

definition event_from_payload :: "pyconv \<Rightarrow> string \<Rightarrow> exn + json" where
  "event_from_payload pc p = (case payload_data p of Inl e \<Rightarrow> Inl e | Inr d \<Rightarrow> event_from_data pc d)"

text \<open>\<open>compute_hash\<close> on an event read back.\<close>

definition hash_of_dict :: "string \<Rightarrow> json \<Rightarrow> string" where
  "hash_of_dict prev v = sha256_hex (prev @ dumps_canonical v)"

text \<open>The reporting columns of a row are text; \<open>str(payload.get(name))\<close> goes through \<open>conv_str\<close>.\<close>

definition columns_differ :: "pyconv \<Rightarrow> (string \<times> string) list \<Rightarrow> (string \<times> json) list \<Rightarrow> bool" where
  "columns_differ pc cols d = list_ex (\<lambda>(name, v). conv_str pc (dict_get d name) \<noteq> v) cols"

record chain_row =
  cr_seq :: nat
  cr_payload :: string
  cr_prev_hash :: string
  cr_hash :: string
  cr_columns :: "(string \<times> string) list option"

record chain_report =
  rep_ok :: bool
  rep_checked :: nat
  rep_first_seq :: "nat option"
  rep_last_seq :: "nat option"
  rep_anchor :: string
  rep_head :: "string option"
  rep_break_at :: "nat option"
  rep_detail :: string

definition break_report ::
    "nat \<Rightarrow> nat \<Rightarrow> nat \<Rightarrow> string \<Rightarrow> string option \<Rightarrow> string \<Rightarrow> chain_report" where
  "break_report checked first seq anchor head detail =
     \<lparr>rep_ok = False, rep_checked = checked, rep_first_seq = Some first, rep_last_seq = Some seq,
      rep_anchor = anchor, rep_head = head, rep_break_at = Some seq, rep_detail = detail\<rparr>"

text \<open>The loop of \<open>verify_rows\<close>, with its local variables as arguments.\<close>

fun verify_loop :: "pyconv \<Rightarrow> string \<Rightarrow> string \<Rightarrow> nat \<Rightarrow> nat option \<Rightarrow> nat option \<Rightarrow> chain_row list
    \<Rightarrow> exn + chain_report" where
  "verify_loop pc anchor prev checked first lst [] = Inr
     \<lparr>rep_ok = True, rep_checked = checked, rep_first_seq = first, rep_last_seq = lst,
      rep_anchor = anchor, rep_head = (if checked = 0 then None else Some prev),
      rep_break_at = None, rep_detail = ''''\<rparr>"
| "verify_loop pc anchor prev checked first lst (r # rs) =
     (let fst_seq = (case first of None \<Rightarrow> cr_seq r | Some s \<Rightarrow> s) in
      if first = None \<and> cr_prev_hash r \<noteq> anchor
      then Inr (break_report 0 (cr_seq r) (cr_seq r) anchor None ''anchor mismatch'')
      else if cr_prev_hash r \<noteq> prev
      then Inr (break_report checked fst_seq (cr_seq r) anchor (Some prev) ''prev_hash mismatch'')
      else (case event_from_payload pc (cr_payload r) of
        Inl e \<Rightarrow> Inl e
      | Inr ev \<Rightarrow>
          if hash_of_dict (cr_prev_hash r) ev \<noteq> cr_hash r
          then Inr (break_report checked fst_seq (cr_seq r) anchor (Some prev) ''hash mismatch'')
          else (case (cr_columns r, payload_data (cr_payload r)) of
            (Some cols, Inr d) \<Rightarrow>
              if columns_differ pc cols d
              then Inr (break_report checked fst_seq (cr_seq r) anchor (Some prev) ''column mismatch'')
              else verify_loop pc anchor (cr_hash r) (Suc checked) (Some fst_seq) (Some (cr_seq r)) rs
          | _ \<Rightarrow> verify_loop pc anchor (cr_hash r) (Suc checked) (Some fst_seq) (Some (cr_seq r)) rs)))"

definition verify_rows :: "pyconv \<Rightarrow> chain_row list \<Rightarrow> string \<Rightarrow> exn + chain_report" where
  "verify_rows pc rows anchor = verify_loop pc anchor anchor 0 None None rows"

definition checked_columns :: "string list" where
  "checked_columns = [''kind'', ''subject'', ''actor'', ''action'', ''resource'', ''outcome'', ''reason'']"

text \<open>The seven columns are \<open>TEXT NOT NULL\<close>.\<close>

definition column_text :: "(string \<times> sqlval) list \<Rightarrow> string \<Rightarrow> string" where
  "column_text cols name = (case map_of cols name of Some (SqlText s) \<Rightarrow> s | _ \<Rightarrow> ''None'')"

definition chain_row_of :: "journal_row \<Rightarrow> chain_row" where
  "chain_row_of r = \<lparr>cr_seq = j_seq r, cr_payload = j_payload r, cr_prev_hash = j_prev_hash r,
     cr_hash = j_hash r,
     cr_columns = Some (map (\<lambda>n. (n, column_text (j_columns r) n)) checked_columns)\<rparr>"

definition verify_chain_report ::
    "pyconv \<Rightarrow> string \<Rightarrow> (('x, 'm) audit_world_scheme, exn, chain_report) eff" where
  "verify_chain_report pc anchor =
     bindE (db_query AuditUnavailable (\<lambda>w. map chain_row_of (w_journal w)))
       (\<lambda>rows. liftE (verify_rows pc rows anchor))"

definition verify_chain :: "pyconv \<Rightarrow> (('x, 'm) audit_world_scheme, exn, bool) eff" where
  "verify_chain pc = bindE (verify_chain_report pc GENESIS_HASH) (\<lambda>rep. retE (rep_ok rep))"

section \<open>Reading the journal\<close>

definition export_page :: "nat \<Rightarrow> nat option \<Rightarrow> nat \<Rightarrow> journal_row list \<Rightarrow> journal_row list" where
  "export_page after until batch rows =
     take batch (filter (\<lambda>r. after < j_seq r \<and> (case until of None \<Rightarrow> True | Some u \<Rightarrow> j_seq r \<le> u)) rows)"

definition export_dict :: "journal_row \<Rightarrow> exn + json" where
  "export_dict r = (case loads (j_payload r) of
     None \<Rightarrow> Inl (Other ''JSONDecodeError'')
   | Some v \<Rightarrow> Inr (JObj [(''seq'', JInt (int (j_seq r))), (''prev_hash'', JStr (j_prev_hash r)),
       (''hash'', JStr (j_hash r)), (''event'', v)]))"

text \<open>
  The generator of \<open>export\<close>, run to its end. The loop asks for one page after the other until a
  page is short; the fuel bounds the pages, and \<open>None\<close> is a run that would need more.
\<close>

fun export_loop ::
    "nat \<Rightarrow> nat \<Rightarrow> nat option \<Rightarrow> nat \<Rightarrow> (('x, 'm) audit_world_scheme, exn, json list option) eff" where
  "export_loop 0 after until batch = retE None"
| "export_loop (Suc n) after until batch =
     bindE (db_query AuditUnavailable (\<lambda>w. export_page after until batch (w_journal w))) (\<lambda>page.
     bindE (mapE (\<lambda>r. liftE (export_dict r)) page) (\<lambda>dicts.
     if length page < batch then retE (Some dicts)
     else bindE (export_loop n (if page = [] then after else j_seq (last page)) until batch)
       (\<lambda>rest. retE (map_option (\<lambda>ds. dicts @ ds) rest))))"

definition journal_count :: "(('x, 'm) audit_world_scheme, exn, nat) eff" where
  "journal_count = db_query AuditUnavailable (\<lambda>w. length (w_journal w))"

section \<open>The in-memory sink and the composite\<close>

definition mem_record :: "audit_event \<Rightarrow> (('x, 'm) audit_world_scheme, exn, unit) eff" where
  "mem_record e = modifyE (\<lambda>w. w\<lparr>w_mem_events := w_mem_events w @
     [chain_event e (if w_mem_events w = [] then GENESIS_HASH else st_hash (last (w_mem_events w)))]\<rparr>)"

definition mem_events :: "('x, 'm) audit_world_scheme \<Rightarrow> audit_event list" where
  "mem_events w = map st_event (w_mem_events w)"

fun mem_verify_from :: "string \<Rightarrow> stored_event list \<Rightarrow> bool" where
  "mem_verify_from prev [] = True"
| "mem_verify_from prev (s # ss) =
     (if st_prev_hash s \<noteq> prev \<or> st_hash s \<noteq> compute_hash prev (st_event s) then False
      else mem_verify_from (st_hash s) ss)"

definition mem_verify_chain :: "('x, 'm) audit_world_scheme \<Rightarrow> bool" where
  "mem_verify_chain w = mem_verify_from GENESIS_HASH (w_mem_events w)"

definition composite_record :: "'w audit_sink list \<Rightarrow> 'w audit_sink" where
  "composite_record sinks = (\<lambda>e. forE sinks (\<lambda>s. s e))"

section \<open>Lemmas\<close>

subsection \<open>Hashes have a fixed length\<close>

lemma sha_round_length: "length (sha_round st kw) = length st"
  by (induction st kw rule: sha_round.induct) (simp_all add: Let_def)

lemma foldl_sha_round_length: "length (foldl sha_round st kws) = length st"
  by (induction kws arbitrary: st) (simp_all add: sha_round_length)

lemma foldl_sha_block_length: "length (foldl sha_block st bs) = length st"
  by (induction bs arbitrary: st) (simp_all add: sha_block_def Let_def foldl_sha_round_length)

lemma length_concat_const: "(\<And>x. length (f x) = k) \<Longrightarrow> length (concat (map f xs)) = k * length xs"
  by (induction xs) simp_all

lemma length_hex_word: "length (concat (map hex_byte (be_bytes 4 n))) = 8"
  using length_concat_const [of hex_byte 2 "be_bytes 4 n"] by (simp add: hex_byte_def be_bytes_def)

lemma subset_filter_upt:
  "list_all P xs \<Longrightarrow> list_all (\<lambda>n. a \<le> n \<and> n < b) xs \<Longrightarrow> set xs \<subseteq> set (filter P [a..<b])"
  by (auto simp: list_all_iff)

lemma length_sha_h0: "length sha_h0 = 8"
proof -
  have "list_all (\<lambda>n. list_all (\<lambda>d. n mod d \<noteq> 0) [2..<n]) [2, 3, 5, 7, 11, 13, 17, 19 :: nat]"
    by code_simp
  then have "set [2, 3, 5, 7, 11, 13, 17, 19] \<subseteq> set small_primes"
    unfolding small_primes_def by (rule subset_filter_upt) simp
  then have "card (set [2, 3, 5, 7, 11, 13, 17, 19 :: nat]) \<le> card (set small_primes)"
    by (rule card_mono [OF finite_set])
  also have "\<dots> \<le> length small_primes" by (rule card_length)
  finally have "8 \<le> length small_primes" by simp
  then show ?thesis by (simp add: sha_h0_def)
qed

lemma length_sha256_hex [simp]: "length (sha256_hex s) = 64"
  using length_concat_const [of "\<lambda>x. concat (map hex_byte (be_bytes 4 (unat x)))" 8
      "foldl sha_block sha_h0 (chunks 64 (sha_pad (utf8 s)))"]
  by (simp add: sha256_hex_def sha256_bytes_def length_hex_word foldl_sha_block_length length_sha_h0)

subsection \<open>Reading an event back\<close>

definition conv_laws :: "pyconv \<Rightarrow> bool" where
  "conv_laws pc \<longleftrightarrow> (\<forall>i. conv_int pc (JInt i) = Some i) \<and> (\<forall>s. conv_str pc (JStr s) = s)
     \<and> (\<forall>t. conv_time pc (JStr (isoformat t)) = Some (isoformat t))"

text \<open>The latency of an event is a float that \<open>float\<close> reads back from its own literal.\<close>

definition good_event :: "pyconv \<Rightarrow> audit_event \<Rightarrow> bool" where
  "good_event pc e = (wf_event e \<and>
     conv_float pc (JFloat (fl_repr (ev_engine_latency_ms e))) = Some (fl_repr (ev_engine_latency_ms e)))"

lemma map_of_sort_key:
  assumes "distinct (map fst kvs)"
  shows "map_of (sort_key fst kvs) = map_of kvs"
proof -
  have "distinct (map fst (sort_key fst kvs))" using assms by (simp add: distinct_map)
  then show ?thesis using assms by (simp add: map_of_inject_set)
qed

lemma sort_keys_opt_str [simp]: "sort_keys (opt_str x) = opt_str x"
  by (simp add: opt_str_def split: option.splits)

lemma payload_data_canonical:
  assumes "wf_event e"
  obtains d where "payload_data (canonical_json e) = Inr d"
    "\<And>kvs. event_dict e = JObj kvs \<Longrightarrow> map_of d = map_of kvs"
proof -
  obtain kvs where kvs: "event_dict e = JObj kvs" by (simp add: event_dict_def)
  have plain: "map (map_prod id sort_keys) kvs = kvs"
    using kvs by (auto simp: event_dict_def)
  have "distinct (map fst kvs)" using wf_event_dict [OF assms] kvs by simp
  then show thesis using that [of "sort_key fst kvs"] loads_canonical_json [OF assms] kvs plain
    by (simp add: payload_data_def map_of_sort_key)
qed

lemma kind_text_value [simp]: "kind_text (JStr (event_kind_value k)) = Some (event_kind_value k)"
  by (simp add: kind_text_def)

lemma event_from_payload_canonical:
  assumes "conv_laws pc" "good_event pc e"
  shows "event_from_payload pc (canonical_json e) = Inr (event_dict e)"
proof -
  have wf: "wf_event e" using assms(2) by (simp add: good_event_def)
  obtain d where d: "payload_data (canonical_json e) = Inr d"
      "\<And>kvs. event_dict e = JObj kvs \<Longrightarrow> map_of d = map_of kvs"
    using wf by (rule payload_data_canonical) blast
  show ?thesis using assms d(1) d(2) [OF event_dict_def]
    by (simp add: event_from_payload_def event_from_data_def dict_get_def required_keys_def
        conv_laws_def good_event_def) (simp add: event_dict_def)
qed

lemma hash_of_dict_event: "hash_of_dict prev (event_dict e) = compute_hash prev e"
  by (simp add: hash_of_dict_def compute_hash_def canonical_json_def)

lemma columns_agree:
  assumes "conv_laws pc" "wf_event e" "payload_data (canonical_json e) = Inr d"
  shows "\<not> columns_differ pc (map (\<lambda>n. (n, column_text (event_columns e) n)) checked_columns) d"
proof -
  obtain d' where "payload_data (canonical_json e) = Inr d'"
      "\<And>kvs. event_dict e = JObj kvs \<Longrightarrow> map_of d' = map_of kvs"
    using assms(2) by (rule payload_data_canonical) blast
  then have "map_of d = map_of (case event_dict e of JObj kvs \<Rightarrow> kvs)"
    using assms(3) by (simp add: event_dict_def)
  then show ?thesis using assms(1)
    by (simp add: columns_differ_def checked_columns_def dict_get_def column_text_def event_columns_def
        event_dict_def conv_laws_def)
qed

subsection \<open>What \<open>record\<close> builds\<close>

fun rows_from :: "string \<Rightarrow> (nat \<times> audit_event) list \<Rightarrow> journal_row list" where
  "rows_from prev [] = []"
| "rows_from prev ((n, e) # es) = event_row n prev e # rows_from (compute_hash prev e) es"

lemma rows_from_Nil [simp]: "rows_from prev es = [] \<longleftrightarrow> es = []"
  by (cases es) auto

lemma rows_from_snoc:
  "rows_from prev (es @ [(n, e)]) =
    rows_from prev es @ [event_row n (if es = [] then prev else j_hash (last (rows_from prev es))) e]"
proof (induction prev es rule: rows_from.induct)
  case (2 prev m f es)
  then show ?case by (cases es) (simp_all add: event_row_def)
qed simp

lemma map_payload_rows_from: "map j_payload (rows_from prev es) = map (canonical_json \<circ> snd) es"
  by (induction prev es rule: rows_from.induct) (simp_all add: event_row_def)

definition journal_inv :: "pyconv \<Rightarrow> ('x, 'm) audit_world_scheme \<Rightarrow> bool" where
  "journal_inv pc w \<longleftrightarrow> (\<exists>es. w_journal w = rows_from GENESIS_HASH es \<and>
     list_all (\<lambda>(n, e). good_event pc e) es)"

lemma pg_record_cases:
  assumes "pg_record e w = (r, w')"
  obtains "w_journal w' = w_journal w" "r = Inl (hoc AuditUnavailable)"
  | "w_journal w' = w_journal w @ [event_row (Suc (w_seq w)) (last_hash (w_journal w)) e]"
    "r = Inr () \<or> r = Inl (hoc AuditUnavailable)"
  using assms
  by (auto simp: pg_record_def db_stmt_def Let_def split: db_fate.splits if_splits)

lemma journal_inv_record:
  assumes "journal_inv pc w" "good_event pc e" "pg_record e w = (r, w')"
  shows "journal_inv pc w'"
  using assms(3)
proof (cases rule: pg_record_cases)
  case 1
  then show ?thesis using assms(1) by (simp add: journal_inv_def)
next
  case 2
  obtain es where es: "w_journal w = rows_from GENESIS_HASH es" "list_all (\<lambda>(n, e). good_event pc e) es"
    using assms(1) by (auto simp: journal_inv_def)
  have "w_journal w' = rows_from GENESIS_HASH (es @ [(Suc (w_seq w), e)])"
    using 2(1) es(1) by (simp add: rows_from_snoc last_hash_def)
  moreover have "list_all (\<lambda>(n, e). good_event pc e) (es @ [(Suc (w_seq w), e)])"
    using es(2) assms(2) by simp
  ultimately show ?thesis unfolding journal_inv_def by blast
qed

lemma verify_loop_rows_from:
  assumes "conv_laws pc" "list_all (\<lambda>(n, e). good_event pc e) es" "first = None \<longrightarrow> prev = anchor"
  shows "\<exists>rep. verify_loop pc anchor prev k first lst (map chain_row_of (rows_from prev es)) = Inr rep
    \<and> rep_ok rep \<and> rep_checked rep = k + length es
    \<and> rep_head rep = (if k + length es = 0 then None else
         Some (if es = [] then prev else j_hash (last (rows_from prev es))))"
  using assms(2,3)
proof (induction es arbitrary: prev k first lst)
  case (Cons ne es)
  obtain n e where ne: "ne = (n, e)" by (cases ne)
  have good: "good_event pc e" "wf_event e" using Cons.prems(1) ne by (auto simp: good_event_def)
  obtain d where d: "payload_data (canonical_json e) = Inr d"
    using payload_data_canonical [OF good(2)] by blast
  let ?h = "compute_hash prev e"
  let ?s = "case first of None \<Rightarrow> n | Some s \<Rightarrow> s"
  obtain rep where rep: "verify_loop pc anchor ?h (Suc k) (Some ?s) (Some n) (map chain_row_of (rows_from ?h es)) = Inr rep"
      "rep_ok rep" "rep_checked rep = Suc k + length es"
      "rep_head rep = (if Suc k + length es = 0 then None else
         Some (if es = [] then ?h else j_hash (last (rows_from ?h es))))"
    using Cons.IH [of "Some ?s" ?h "Suc k" "Some n"] Cons.prems(1) by auto
  have "verify_loop pc anchor prev k first lst (map chain_row_of (rows_from prev (ne # es))) = Inr rep"
    using rep(1) Cons.prems(2) ne d columns_agree [OF assms(1) good(2) d]
      event_from_payload_canonical [OF assms(1) good(1)]
    by (cases first) (simp_all add: chain_row_of_def event_row_def hash_of_dict_event Let_def)
  then show ?case using rep ne by (simp add: event_row_def)
qed simp

subsection \<open>What a verification establishes\<close>

text \<open>Every row links to the one before it and its hash covers the event read from its payload.\<close>

fun rows_verified :: "pyconv \<Rightarrow> string \<Rightarrow> chain_row list \<Rightarrow> json list \<Rightarrow> bool" where
  "rows_verified pc prev [] [] = True"
| "rows_verified pc prev (r # rs) (v # vs) =
     (cr_prev_hash r = prev \<and> event_from_payload pc (cr_payload r) = Inr v
      \<and> cr_hash r = hash_of_dict prev v \<and> rows_verified pc (cr_hash r) rs vs)"
| "rows_verified pc prev _ _ = False"

fun fold_hashes :: "string \<Rightarrow> json list \<Rightarrow> string" where
  "fold_hashes prev [] = prev"
| "fold_hashes prev (v # vs) = fold_hashes (hash_of_dict prev v) vs"

lemma verify_loop_ok:
  assumes "verify_loop pc anchor prev k first lst rows = Inr rep" "rep_ok rep"
  shows "\<exists>vs. rows_verified pc prev rows vs \<and> rep_checked rep = k + length vs
    \<and> (rep_head rep = (if k + length vs = 0 then None else Some (fold_hashes prev vs)))"
  using assms
proof (induction pc anchor prev k first lst rows rule: verify_loop.induct)
  case (1 pc anchor prev checked first lst)
  then show ?case by (intro exI [of _ "[]"]) auto
next
  case (2 pc anchor prev k first lst r rs)
  let ?s = "case first of None \<Rightarrow> cr_seq r | Some s \<Rightarrow> s"
  obtain v where v: "cr_prev_hash r = prev" "event_from_payload pc (cr_payload r) = Inr v"
      "hash_of_dict prev v = cr_hash r"
      "verify_loop pc anchor (cr_hash r) (Suc k) (Some ?s) (Some (cr_seq r)) rs = Inr rep"
    using "2.prems"
    by (auto simp: Let_def break_report_def split: if_splits sum.splits option.splits prod.splits)
  have "\<exists>vs. rows_verified pc (cr_hash r) rs vs \<and> rep_checked rep = Suc k + length vs
      \<and> rep_head rep = (if Suc k + length vs = 0 then None else Some (fold_hashes (cr_hash r) vs))"
    using "2.IH" "2.prems" v
    by (cases "cr_columns r"; cases "payload_data (cr_payload r)")
       (auto simp: Let_def break_report_def split: if_splits)
  then obtain vs where "rows_verified pc (cr_hash r) rs vs" "rep_checked rep = Suc k + length vs"
      "rep_head rep = Some (fold_hashes (cr_hash r) vs)" by auto
  then show ?case using v by (intro exI [of _ "v # vs"]) auto
qed

text \<open>The texts hashed along a chain, and a collision between two of them.\<close>

fun hashed_texts :: "string \<Rightarrow> json list \<Rightarrow> string list" where
  "hashed_texts prev [] = []"
| "hashed_texts prev (v # vs) = (prev @ dumps_canonical v) # hashed_texts (hash_of_dict prev v) vs"

definition collision_between :: "string list \<Rightarrow> string list \<Rightarrow> bool" where
  "collision_between xs ys = (\<exists>x\<in>set xs. \<exists>y\<in>set ys. x \<noteq> y \<and> sha256_hex x = sha256_hex y)"

lemma hashed_texts_snoc:
  "hashed_texts prev (vs @ [v]) = hashed_texts prev vs @ [fold_hashes prev vs @ dumps_canonical v]"
  by (induction prev vs rule: fold_hashes.induct) simp_all

lemma length_fold_hashes: "length prev = 64 \<Longrightarrow> length (fold_hashes prev vs) = 64"
  by (induction prev vs rule: fold_hashes.induct) (simp_all add: hash_of_dict_def)

lemma fold_hashes_snoc: "fold_hashes prev (vs @ [v]) = hash_of_dict (fold_hashes prev vs) v"
  by (induction prev vs rule: fold_hashes.induct) simp_all

lemma fold_hashes_inject:
  assumes "length vs = length us" "length prev = 64"
    "\<not> collision_between (hashed_texts prev vs) (hashed_texts prev us)"
    "fold_hashes prev vs = fold_hashes prev us"
  shows "map dumps_canonical vs = map dumps_canonical us"
  using assms(1,3,4)
proof (induction vs us rule: rev_induct2)
  case (4 v vs u us)
  have "fold_hashes prev vs @ dumps_canonical v = fold_hashes prev us @ dumps_canonical u"
    using 4(3,4) unfolding fold_hashes_snoc hash_of_dict_def hashed_texts_snoc collision_between_def
    by auto
  moreover have "length (fold_hashes prev vs) = length (fold_hashes prev us)"
    using length_fold_hashes assms(2) by simp
  moreover have "\<not> collision_between (hashed_texts prev vs) (hashed_texts prev us)"
    using 4(3) unfolding hashed_texts_snoc collision_between_def by auto
  ultimately show ?case using 4 by simp
qed auto

subsection \<open>Export covers its range\<close>

definition in_range :: "nat \<Rightarrow> nat option \<Rightarrow> journal_row \<Rightarrow> bool" where
  "in_range after until r = (after < j_seq r \<and> (case until of None \<Rightarrow> True | Some u \<Rightarrow> j_seq r \<le> u))"

lemma export_page_eq: "export_page after until batch rows = take batch (filter (in_range after until) rows)"
  by (simp add: export_page_def in_range_def [abs_def])

lemma filter_in_range_next:
  assumes "sorted_wrt (<) (map j_seq rows)" "take b (filter (in_range a u) rows) \<noteq> []"
  shows "filter (in_range (j_seq (last (take b (filter (in_range a u) rows)))) u) rows
    = drop b (filter (in_range a u) rows)"
proof -
  let ?R = "filter (in_range a u) rows"
  let ?l = "last (take b ?R)"
  have l: "?l \<in> set ?R" using assms(2) by (meson in_set_takeD last_in_set)
  have srt: "sorted_wrt (\<lambda>x y. j_seq x < j_seq y) ?R"
    using assms(1) by (simp add: sorted_wrt_map sorted_wrt_filter)
  have "filter (in_range (j_seq ?l) u) rows = filter (\<lambda>r. j_seq ?l < j_seq r) ?R"
    using l by (auto simp: in_range_def intro!: filter_cong)
  also have "\<dots> = filter (\<lambda>r. j_seq ?l < j_seq r) (take b ?R) @ filter (\<lambda>r. j_seq ?l < j_seq r) (drop b ?R)"
    by (metis append_take_drop_id filter_append)
  also have "filter (\<lambda>r. j_seq ?l < j_seq r) (take b ?R) = []"
  proof -
    obtain xs x where x: "take b ?R = xs @ [x]" using assms(2) by (meson rev_exhaust)
    have "sorted_wrt (\<lambda>x y. j_seq x < j_seq y) (xs @ [x])" using srt x by (metis sorted_wrt_take)
    then show ?thesis using x by (auto simp: sorted_wrt_append filter_empty_conv)
  qed
  also have "filter (\<lambda>r. j_seq ?l < j_seq r) (drop b ?R) = drop b ?R"
  proof -
    have "sorted_wrt (\<lambda>x y. j_seq x < j_seq y) (take b ?R @ drop b ?R)" using srt by simp
    then have "\<forall>x\<in>set (take b ?R). \<forall>y\<in>set (drop b ?R). j_seq x < j_seq y"
      unfolding sorted_wrt_append by blast
    then show ?thesis using last_in_set [OF assms(2)] by (auto simp: filter_id_conv)
  qed
  finally show ?thesis by simp
qed

lemma mapE_liftE_ok: "map f xs = map Inr ys \<Longrightarrow> mapE (\<lambda>x. liftE (f x)) xs w = (Inr ys, w)"
  by (induction xs arbitrary: ys) (auto simp: eff_defs map_eq_Cons_conv Cons_eq_map_conv)

lemma wp_db_query_any:
  assumes "Q (q (w\<lparr>w_db_at := Suc (w_db_at w)\<rparr>)) (w\<lparr>w_db_at := Suc (w_db_at w)\<rparr>)"
    and "w_db w (w_db_at w) \<noteq> DbOk \<Longrightarrow> R (hoc u) (w\<lparr>w_db_at := Suc (w_db_at w)\<rparr>)"
  shows "wp (db_query u q) Q R w"
  using assms by (auto simp: wp_def db_query_def db_stmt_def Let_def split: db_fate.splits)

lemma wp_export_loop:
  fixes w :: "('x, 'm) audit_world_scheme"
  assumes "sorted_wrt (<) (map j_seq (w_journal w))" "0 < batch"
    "map export_dict (filter (in_range a u) (w_journal w)) = map Inr ds"
    "length (filter (in_range a u) (w_journal w)) < n"
  shows "wp (export_loop n a u batch) (\<lambda>r _. r = Some ds) (\<lambda>e _. e = hoc AuditUnavailable \<and> (\<exists>i. w_db w i \<noteq> DbOk)) w"
  using assms
proof (induction n arbitrary: a ds w)
  case (Suc n)
  let ?R = "filter (in_range a u) (w_journal w)"
  let ?w = "w\<lparr>w_db_at := Suc (w_db_at w)\<rparr>"
  let ?E = "\<lambda>e _. e = hoc AuditUnavailable \<and> (\<exists>i. w_db w i \<noteq> DbOk)"
  have dicts: "mapE (\<lambda>r. liftE (export_dict r)) (take batch ?R) v = (Inr (take batch ds), v)" for v :: "('x, 'm) audit_world_scheme"
    using Suc.prems(3) by (intro mapE_liftE_ok) (metis take_map)
  have len: "length ds = length ?R" using Suc.prems(3) by (metis length_map)
  have rest: "wp (export_loop n (if take batch ?R = [] then a else j_seq (last (take batch ?R))) u batch)
      (\<lambda>r _. r = Some (drop batch ds)) ?E ?w" if short: "\<not> length ?R < batch"
  proof -
    have ne: "take batch ?R \<noteq> []" using short Suc.prems(2) by auto
    have next_rows: "filter (in_range (j_seq (last (take batch ?R))) u) (w_journal ?w) = drop batch ?R"
      using filter_in_range_next [OF Suc.prems(1) ne] by simp
    have "wp (export_loop n (j_seq (last (take batch ?R))) u batch) (\<lambda>r _. r = Some (drop batch ds))
        (\<lambda>e _. e = hoc AuditUnavailable \<and> (\<exists>i. w_db ?w i \<noteq> DbOk)) ?w"
    proof (rule Suc.IH)
      show "map export_dict (filter (in_range (j_seq (last (take batch ?R))) u) (w_journal ?w)) = map Inr (drop batch ds)"
        unfolding next_rows using Suc.prems(3) by (metis drop_map)
      show "length (filter (in_range (j_seq (last (take batch ?R))) u) (w_journal ?w)) < n"
        unfolding next_rows using Suc.prems(2,4) short by simp
    qed (use Suc.prems in simp_all)
    then show ?thesis using ne by simp
  qed
  have page: "wp (mapE (\<lambda>r. liftE (export_dict r)) (take batch ?R)) (\<lambda>x. wp (if length (take batch ?R) < batch then retE (Some x)
      else bindE (export_loop n (if take batch ?R = [] then a else j_seq (last (take batch ?R))) u batch)
        (\<lambda>rest. retE (map_option (\<lambda>ds. x @ ds) rest))) (\<lambda>r _. r = Some ds) ?E) ?E ?w"
  proof (cases "length ?R < batch")
    case True
    then show ?thesis using len dicts [of ?w] by (simp add: wp_def [of "mapE _ _"] wp_rules)
  next
    case False
    then have "wp (export_loop n (if take batch ?R = [] then a else j_seq (last (take batch ?R))) u batch)
        (\<lambda>x. (\<lambda>r _. r = Some ds) (map_option ((@) (take batch ds)) x)) ?E ?w"
      by (intro wp_mono [OF rest]) auto
    then show ?thesis using False len by (simp add: wp_def [of "mapE _ _"] dicts wp_rules)
  qed
  have journal: "w_journal ?w = w_journal w" by simp
  show ?case unfolding export_loop.simps wp_bindE [of "db_query _ _"]
  proof (rule wp_db_query_any, goal_cases)
    case 1
    show ?case unfolding export_page_eq journal wp_bindE [of "mapE _ _"] by (rule page)
  qed auto
qed simp

text \<open>A batch of no rows never ends.\<close>

lemma export_of_empty_batches: "w_db w = (\<lambda>_. DbOk) \<Longrightarrow> \<exists>w'. export_loop n a u 0 w = (Inr None, w')"
proof (induction n arbitrary: w)
  case (Suc n)
  let ?w = "w\<lparr>w_db_at := Suc (w_db_at w)\<rparr>"
  from Suc.IH [of ?w] Suc.prems obtain w' where "export_loop n a u 0 ?w = (Inr None, w')" by auto
  then show ?case using Suc.prems
    by (auto simp: bindE_def retE_def db_query_def db_stmt_def export_page_eq)
qed (simp add: retE_def)

section \<open>The contract of a sink\<close>

text \<open>
  \<open>log\<close> is the sequence of canonical texts a sink holds. A call that returns has appended exactly
  its event; a call that raises has raised \<open>AuditUnavailable\<close> and appended the event or nothing.
\<close>

locale audit_log =
  fixes record_event :: "audit_event \<Rightarrow> ('w, exn, unit) eff"
    and log :: "'w \<Rightarrow> string list"
  assumes record_ok: "record_event e w = (Inr u, w') \<Longrightarrow> log w' = log w @ [canonical_json e]"
    and record_err: "record_event e w = (Inl x, w') \<Longrightarrow>
      catches AuditUnavailable x \<and> (log w' = log w \<or> log w' = log w @ [canonical_json e])"
begin

lemma wp_record:
  assumes "\<And>w'. log w' = log w @ [canonical_json e] \<Longrightarrow> Q () w'"
    and "\<And>x w'. catches AuditUnavailable x \<Longrightarrow> R x w'"
  shows "wp (record_event e) Q R w"
  using assms record_ok record_err by (intro wpI) auto

lemma log_grows: "record_event e w = (r, w') \<Longrightarrow> prefix (log w) (log w')"
  by (cases r) (fastforce simp: prefix_def dest: record_ok record_err)+

text \<open>The composite of a sink with sinks that leave its log alone is a sink with the same log.\<close>

lemma composite_ok:
  assumes frame: "\<And>s e. s \<in> set others \<Longrightarrow> keeps log (s e)"
    and "composite_record (record_event # others) e w = (Inr u, w')"
  shows "log w' = log w @ [canonical_json e]"
proof -
  have rest: "keeps log (mapE (\<lambda>s. s e) ss)" if "set ss \<subseteq> set others" for ss
    using that frame by (induction ss) (auto intro!: keeps_rules)
  obtain v w1 where w1: "record_event e w = (Inr v, w1)" "fst (mapE (\<lambda>s. s e) others w1) \<noteq> Inl x"
      "snd (mapE (\<lambda>s. s e) others w1) = w'" for x
    using assms(2)
    by (auto simp: composite_record_def forE_def bindE_def retE_def split: prod.splits sum.splits)
  have "log w' = log w1" using rest [of others] w1(3) by (auto simp: keeps_def)
  then show ?thesis using record_ok [OF w1(1)] by simp
qed

end

definition pg_log :: "('x, 'm) audit_world_scheme \<Rightarrow> string list" where
  "pg_log w = map j_payload (w_journal w)"

definition mem_log :: "('x, 'm) audit_world_scheme \<Rightarrow> string list" where
  "mem_log w = map (canonical_json \<circ> st_event) (w_mem_events w)"

interpretation pg_sink: audit_log "pg_record :: audit_event \<Rightarrow> (('x, 'm) audit_world_scheme, exn, unit) eff" pg_log
proof
  fix e u and w w' :: "('x, 'm) audit_world_scheme"
  assume "pg_record e w = (Inr u, w')"
  then show "pg_log w' = pg_log w @ [canonical_json e]"
    by (cases rule: pg_record_cases) (auto simp: pg_log_def event_row_def)
next
  fix e x and w w' :: "('x, 'm) audit_world_scheme"
  assume "pg_record e w = (Inl x, w')"
  then show "catches AuditUnavailable x \<and> (pg_log w' = pg_log w \<or> pg_log w' = pg_log w @ [canonical_json e])"
    by (cases rule: pg_record_cases) (auto simp: pg_log_def event_row_def hoc_def)
qed

interpretation mem_sink: audit_log "mem_record :: audit_event \<Rightarrow> (('x, 'm) audit_world_scheme, exn, unit) eff" mem_log
  by unfold_locales (auto simp: mem_record_def modifyE_def mem_log_def chain_event_def)

section \<open>Properties\<close>

definition record_all :: "audit_event list \<Rightarrow> ('x, 'm) audit_world_scheme \<Rightarrow> ('x, 'm) audit_world_scheme" where
  "record_all es w = foldl (\<lambda>w e. snd (pg_record e w)) w es"

lemma journal_inv_record_all:
  "journal_inv pc w \<Longrightarrow> list_all (good_event pc) es \<Longrightarrow> journal_inv pc (record_all es w)"
proof (induction es arbitrary: w)
  case (Cons e es)
  have "journal_inv pc (snd (pg_record e w))"
    using Cons.prems journal_inv_record [of pc w e "fst (pg_record e w)" "snd (pg_record e w)"] by simp
  then show ?case using Cons by (simp add: record_all_def)
qed (simp add: record_all_def)

text \<open>
  C6: a journal the program wrote always verifies. Starting from an empty table, after any
  sequence of \<open>record\<close> calls, some of which may have failed before or after the insert, and
  whatever the database does next, \<open>verify_chain_report\<close> either reports an intact chain that covers
  every row, with the last row's hash as its head, or raises \<open>AuditUnavailable\<close> because the table
  cannot be read.
\<close>

theorem recorded_journal_verifies:
  assumes "conv_laws pc" "w_journal w = []" "list_all (good_event pc) es"
  shows "wp (verify_chain_report pc GENESIS_HASH)
    (\<lambda>rep w'. rep_ok rep \<and> rep_checked rep = length (w_journal w')
       \<and> w_journal w' = w_journal (record_all es w)
       \<and> (w_journal w' \<noteq> [] \<longrightarrow> rep_head rep = Some (j_hash (last (w_journal w')))))
    (\<lambda>x w'. x = hoc AuditUnavailable) (record_all es w)"
proof -
  let ?w = "record_all es w"
  have "journal_inv pc w" using assms(2) by (auto simp: journal_inv_def intro!: exI [of _ "[]"])
  then obtain ns where ns: "w_journal ?w = rows_from GENESIS_HASH ns" "list_all (\<lambda>(n, e). good_event pc e) ns"
    using journal_inv_record_all [OF _ assms(3)] unfolding journal_inv_def by blast
  obtain rep where rep: "verify_rows pc (map chain_row_of (w_journal ?w)) GENESIS_HASH = Inr rep" "rep_ok rep"
      "rep_checked rep = length ns"
      "rep_head rep = (if length ns = 0 then None else
         Some (if ns = [] then GENESIS_HASH else j_hash (last (rows_from GENESIS_HASH ns))))"
    using verify_loop_rows_from [OF assms(1) ns(2), of None GENESIS_HASH GENESIS_HASH 0 None] ns(1)
    unfolding verify_rows_def by auto
  have len: "length (rows_from p xs) = length xs" for p xs
    by (induction p xs rule: rows_from.induct) auto
  show ?thesis unfolding verify_chain_report_def db_query_def
    using rep(1) by (auto simp: wp_rules rep(2-) ns(1) len intro!: wp_db_stmtI)
qed

text \<open>The text whose hash a verified row stores.\<close>

definition row_text :: "pyconv \<Rightarrow> chain_row \<Rightarrow> string" where
  "row_text pc r = cr_prev_hash r @
     (case event_from_payload pc (cr_payload r) of Inl e \<Rightarrow> [] | Inr v \<Rightarrow> dumps_canonical v)"

lemma rows_verified_texts: "rows_verified pc p rs vs \<Longrightarrow> map (row_text pc) rs = hashed_texts p vs"
  by (induction pc p rs vs rule: rows_verified.induct) (auto simp: row_text_def)

lemma rows_verified_events: "rows_verified pc p rs vs \<Longrightarrow>
    map (\<lambda>r. map_sum id dumps_canonical (event_from_payload pc (cr_payload r))) rs
      = map Inr (map dumps_canonical vs)"
  by (induction pc p rs vs rule: rows_verified.induct) auto

text \<open>
  C7: the journal is tamper evident. If two sequences of rows both pass \<open>verify_rows\<close> from the
  same 64-character anchor, cover the same number of rows and end in the same head, then row by
  row they carry the same canonical event, unless two different texts hashed in these very rows
  have the same SHA-256. So whoever knows the count and the head of a journal detects any change
  to an event.
\<close>

theorem verified_rows_same_events:
  assumes "verify_rows pc rows anchor = Inr rep" "verify_rows pc rows' anchor = Inr rep'"
    "rep_ok rep" "rep_ok rep'" "rep_checked rep = rep_checked rep'" "rep_head rep = rep_head rep'"
    "length anchor = 64"
  shows "collision_between (map (row_text pc) rows) (map (row_text pc) rows') \<or>
    map (\<lambda>r. map_sum id dumps_canonical (event_from_payload pc (cr_payload r))) rows =
    map (\<lambda>r. map_sum id dumps_canonical (event_from_payload pc (cr_payload r))) rows'"
proof -
  obtain vs where vs: "rows_verified pc anchor rows vs" "rep_checked rep = length vs"
      "rep_head rep = (if length vs = 0 then None else Some (fold_hashes anchor vs))"
    using verify_loop_ok [OF assms(1) [unfolded verify_rows_def] assms(3)] by auto
  obtain us where us: "rows_verified pc anchor rows' us" "rep_checked rep' = length us"
      "rep_head rep' = (if length us = 0 then None else Some (fold_hashes anchor us))"
    using verify_loop_ok [OF assms(2) [unfolded verify_rows_def] assms(4)] by auto
  have "collision_between (hashed_texts anchor vs) (hashed_texts anchor us)
      \<or> map dumps_canonical vs = map dumps_canonical us"
    using fold_hashes_inject [of vs us anchor] vs us assms(5,6,7) by (cases "length vs = 0") auto
  then show ?thesis
    unfolding rows_verified_texts [OF vs(1)] rows_verified_texts [OF us(1)]
      rows_verified_events [OF vs(1)] rows_verified_events [OF us(1)] by metis
qed

text \<open>
  C8: \<open>export\<close> covers exactly its range. With a positive batch size (an empty batch never ends) on a table in \<open>seq\<close> order whose payloads
  in the range parse, and whatever statements the database fails: the generator runs for at most one page more than there are rows;
  if it ends, it has yielded the dict of every row with \<open>since_seq < seq \<le> until_seq\<close>, once and in order, however the pages fall, and
  it raises only \<open>AuditUnavailable\<close> and only when the database failed a statement.
\<close>

theorem export_covers_range:
  fixes w :: "('x, 'm) audit_world_scheme"
  assumes "sorted_wrt (<) (map j_seq (w_journal w))" "0 < batch"
    "map export_dict (filter (in_range since until) (w_journal w)) = map Inr dicts"
  shows "wp (export_loop (Suc (length (w_journal w))) since until batch) (\<lambda>r _. r = Some dicts)
    (\<lambda>e _. e = hoc AuditUnavailable \<and> (\<exists>i. w_db w i \<noteq> DbOk)) w"
  using wp_export_loop [OF assms, of "Suc (length (w_journal w))"] le_imp_less_Suc [OF length_filter_le]
  by blast

definition retime :: "datetime \<Rightarrow> journal_row \<Rightarrow> journal_row" where
  "retime t r = r\<lparr>j_columns := AList.update ''ts'' (SqlTime t) (j_columns r)\<rparr>"

lemma chain_row_of_retime: "chain_row_of (retime t r) = chain_row_of r"
  by (simp add: chain_row_of_def retime_def checked_columns_def column_text_def map_of_update)

text \<open>
  The reporting column \<open>ts\<close> is outside what is verified: giving every row another time leaves
  the report of \<open>verify_chain_report\<close> unchanged, although \<open>hoc journal tail\<close> shows that column.
\<close>

theorem ts_column_not_verified:
  "fst (verify_chain_report pc anchor (w\<lparr>w_journal := map (retime t) (w_journal w)\<rparr>))
    = fst (verify_chain_report pc anchor w)"
  by (simp add: verify_chain_report_def db_query_def db_stmt_def bindE_def liftE_def Let_def comp_def
      chain_row_of_retime split: db_fate.splits)

section \<open>Witnesses\<close>

definition std_conv :: pyconv where
  "std_conv = \<lparr>conv_int = (\<lambda>v. case v of JInt i \<Rightarrow> Some i | _ \<Rightarrow> None),
     conv_float = (\<lambda>v. case v of JFloat t \<Rightarrow> Some t | _ \<Rightarrow> None),
     conv_time = (\<lambda>v. case v of JStr t \<Rightarrow> Some t | _ \<Rightarrow> None),
     conv_str = (\<lambda>v. case v of JStr t \<Rightarrow> t | _ \<Rightarrow> ''None'')\<rparr>"

definition sample_event :: audit_event where
  "sample_event = \<lparr>ev_kind = EvDecision, ev_timestamp = 0, ev_subject = ''user:alice'',
     ev_actor = ''agent:bot'', ev_delegation_depth = 0, ev_action = ''read:viewer'',
     ev_resource = ''document:a'', ev_outcome = ''ALLOW'', ev_reason = ''allowed'',
     ev_engine_latency_ms = PyFloat (3 / 2) ''1.5'', ev_token_fingerprint = None, ev_args_hash = None,
     ev_decision_id = Some ''d1'', ev_event_id = ''e1''\<rparr>"

definition audit_world0 :: "unit audit_world" where
  "audit_world0 = \<lparr>w_clock = (\<lambda>n. int n), w_clock_at = 0, w_uuid = show_nat, w_uuid_at = 0,
     w_perf = (\<lambda>_ _. float_zero), w_perf_at = 0, w_db = (\<lambda>_. DbOk), w_db_at = 0, w_ext = (),
     w_journal = [], w_seq = 0, w_mem_events = []\<rparr>"

lemma std_conv_laws: "conv_laws std_conv"
  by (simp add: conv_laws_def std_conv_def)

lemma sample_event_good: "good_event std_conv sample_event"
proof -
  have "wf_float ''1.5''" by code_simp
  then show ?thesis by (simp add: good_event_def wf_event_def sample_event_def std_conv_def)
qed

theorem recorded_journal_verifies_witness:
  "wp (verify_chain_report std_conv GENESIS_HASH)
    (\<lambda>rep w'. rep_ok rep \<and> rep_checked rep = 1) (\<lambda>x w'. x = hoc AuditUnavailable)
    (record_all [sample_event] audit_world0)"
proof -
  have one: "length (w_journal (record_all [sample_event] audit_world0)) = 1"
    by (simp add: record_all_def pg_record_def db_stmt_def audit_world0_def)
  show ?thesis
    by (rule wp_mono [OF recorded_journal_verifies [of std_conv audit_world0 "[sample_event]"]])
       (use one in \<open>auto simp: std_conv_laws sample_event_good audit_world0_def\<close>)
qed

definition sample_rows :: "chain_row list" where
  "sample_rows = map chain_row_of (rows_from GENESIS_HASH [(1, sample_event)])"

theorem verified_rows_same_events_witness:
  "\<exists>rep. verify_rows std_conv sample_rows GENESIS_HASH = Inr rep \<and> rep_ok rep \<and> rep_checked rep = 1 \<and>
    (collision_between (map (row_text std_conv) sample_rows) (map (row_text std_conv) sample_rows) \<or>
     map (\<lambda>r. map_sum id dumps_canonical (event_from_payload std_conv (cr_payload r))) sample_rows =
     map (\<lambda>r. map_sum id dumps_canonical (event_from_payload std_conv (cr_payload r))) sample_rows)"
proof -
  obtain rep where rep: "verify_rows std_conv sample_rows GENESIS_HASH = Inr rep" "rep_ok rep" "rep_checked rep = 1"
    using verify_loop_rows_from [OF std_conv_laws, of "[(1, sample_event)]" None GENESIS_HASH GENESIS_HASH 0 None]
      sample_event_good unfolding verify_rows_def sample_rows_def by auto
  have "length GENESIS_HASH = 64" by (simp add: GENESIS_HASH_def)
  then show ?thesis using verified_rows_same_events [OF rep(1) rep(1) rep(2) rep(2)] rep by blast
qed

definition export_world :: "unit audit_world" where
  "export_world = audit_world0\<lparr>w_journal := rows_from GENESIS_HASH [(1, sample_event), (2, sample_event), (4, sample_event)], w_seq := 4\<rparr>"

text \<open>Three rows, of which the last two are asked for, one to a page.\<close>

theorem export_covers_range_witness:
  "\<exists>d2 d4 w'. export_dict (w_journal export_world ! 1) = Inr d2 \<and> export_dict (w_journal export_world ! 2) = Inr d4
    \<and> export_loop 4 1 None 1 export_world = (Inr (Some [d2, d4]), w')"
proof -
  have "\<exists>d. export_dict r = Inr d" if "j_payload r = canonical_json sample_event" for r
    using loads_canonical_json [of sample_event] sample_event_good that by (simp add: export_dict_def good_event_def)
  moreover have "j_payload (w_journal export_world ! 1) = canonical_json sample_event" "j_payload (w_journal export_world ! 2) = canonical_json sample_event"
    by (simp_all add: export_world_def event_row_def)
  ultimately obtain d2 d4 where d: "export_dict (w_journal export_world ! 1) = Inr d2" "export_dict (w_journal export_world ! 2) = Inr d4" by metis
  have rows: "w_journal export_world \<noteq> []"
    "map j_seq (w_journal export_world) = [1, 2, 4]" "w_db export_world = (\<lambda>_. DbOk)"
    by (simp_all add: export_world_def event_row_def audit_world0_def)
  have "map export_dict (filter (in_range 1 None) (w_journal export_world)) = map Inr [d2, d4]"
    using d by (simp add: export_world_def event_row_def in_range_def)
  moreover have "sorted_wrt (<) (map j_seq (w_journal export_world))" "(0 :: nat) < 1" by (simp_all add: rows(2))
  ultimately have run: "wp (export_loop (Suc (length (w_journal export_world))) 1 None 1) (\<lambda>r _. r = Some [d2, d4])
      (\<lambda>e _. e = hoc AuditUnavailable \<and> (\<exists>i. w_db export_world i \<noteq> DbOk)) export_world"
    by (intro export_covers_range)
  have fuel: "Suc (length (w_journal export_world)) = 4" using arg_cong [OF rows(2), of length] by simp
  have "wp (export_loop 4 1 None 1) (\<lambda>r _. r = Some [d2, d4]) (\<lambda>_ _. False) export_world"
    using run unfolding fuel by (rule wp_mono) (simp_all add: rows(3))
  then show ?thesis using d by (cases "export_loop 4 1 None 1 export_world") (auto simp: wp_def split: sum.splits)
qed

end
