(* ===== verification/Core_Decider.thy ===== *)
theory Core_Decider
  imports Core_Events
begin

text \<open>
  The decision path (\<open>core/decider.py\<close>), shared by reading, acting and remembering.

  A \<open>decider\<close> is the record of what the class holds: the engine, the sink, an optional policy and
  optional metrics. They are parameters: an engine may answer anything, raise anything and leave
  any world behind, so what other tasks do while a call waits is covered as well. \<open>spec_decide\<close> is
  the abstract decision as a function of what the engine answered; the lemmas relate every entry
  point to it.
\<close>

section \<open>The model\<close>

definition BATCH_LIMIT :: nat where
  "BATCH_LIMIT = 50"

record 'w decider =
  dc_engine :: "'w authz_engine"
  dc_audit :: "'w audit_sink"
  dc_policy :: "policy option"
  dc_metrics :: "'w metrics_sink option"

type_synonym evaluation = "outcome \<times> string \<times> pyfloat"

definition observe :: "('x, 'm) world_scheme decider \<Rightarrow> decision \<Rightarrow> nat \<Rightarrow> (('x, 'm) world_scheme, exn, unit) eff" where
  "observe d dn started = (case dc_metrics d of
     None \<Rightarrow> retE ()
   | Some m \<Rightarrow> bindE (elapsed_ms started) (\<lambda>total.
       ms_record m dn total
         (if fl_val (d_engine_latency_ms dn) > 0 then Some (d_engine_latency_ms dn) else None)))"

definition policy_verdict ::
    "policy option \<Rightarrow> principal_chain \<Rightarrow> action \<Rightarrow> string \<Rightarrow> tool_args \<Rightarrow> decision_context \<Rightarrow> verdict" where
  "policy_verdict pol c a r args ctx = (case pol of
     None \<Rightarrow> \<lparr>v_outcome = ALLOW, v_reason = ''allowed''\<rparr>
   | Some p \<Rightarrow> (case p c a r args ctx of
       Inl e \<Rightarrow> \<lparr>v_outcome = DENY, v_reason = ''policy_error''\<rparr>
     | Inr v \<Rightarrow> if v_outcome v = ALLOW then \<lparr>v_outcome = ALLOW, v_reason = ''allowed''\<rparr> else v))"

definition evaluate ::
    "('x, 'm) world_scheme decider \<Rightarrow> principal_chain \<Rightarrow> action \<Rightarrow> string \<Rightarrow> tool_args \<Rightarrow> decision_context
     \<Rightarrow> (('x, 'm) world_scheme, exn, evaluation) eff" where
  "evaluate d c a r args ctx =
     bindE (liftE (mk_capability (act_kind a) r)) (\<lambda>cap.
     if \<not> scope_covers (ch_scope c) cap then retE (DENY, ''scope_excluded'', float_zero)
     else bindE perf_counter (\<lambda>started.
       bindE (attemptE (eng_check (dc_engine d) (ch_subject c) (act_relation a) r)) (\<lambda>answer.
       bindE (elapsed_ms started) (\<lambda>ms.
         case answer of
           Inl e \<Rightarrow> retE (DENY, failure_reason ''engine_error'' e, ms)
         | Inr related \<Rightarrow>
             if \<not> related then retE (DENY, ''not_related'', ms)
             else (let v = policy_verdict (dc_policy d) c a r args ctx
                   in retE (v_outcome v, v_reason v, ms))))))"

text \<open>\<open>Decision(...)\<close>: the id comes from the field's default factory.\<close>

definition mk_decision ::
    "evaluation \<Rightarrow> principal_chain \<Rightarrow> string \<Rightarrow> action \<Rightarrow> datetime \<Rightarrow> string list
     \<Rightarrow> (('x, 'm) world_scheme, exn, decision) eff" where
  "mk_decision ev c r a t rs = bindE uuid4_hex (\<lambda>i. retE
     \<lparr>d_outcome = fst ev, d_reason = fst (snd ev), d_chain = c, d_resource = r, d_action = a,
      d_timestamp = t, d_engine_latency_ms = snd (snd ev), d_decision_id = i, d_resources = rs\<rparr>)"

definition journal_decision ::
    "('x, 'm) world_scheme decider \<Rightarrow> decision \<Rightarrow> tool_args option \<Rightarrow> (('x, 'm) world_scheme, exn, unit) eff" where
  "journal_decision d dn args = bindE (event_from_decision dn (hash_args args)) (dc_audit d)"

definition args_or_empty :: "tool_args option \<Rightarrow> tool_args" where
  "args_or_empty args = (case args of None \<Rightarrow> [] | Some a \<Rightarrow> a)"

definition context_or_none :: "decision_context option \<Rightarrow> decision_context" where
  "context_or_none ctx = (case ctx of None \<Rightarrow> no_context | Some c \<Rightarrow> c)"

definition decide ::
    "('x, 'm) world_scheme decider \<Rightarrow> principal_chain \<Rightarrow> action \<Rightarrow> string \<Rightarrow> tool_args option
     \<Rightarrow> decision_context option \<Rightarrow> (('x, 'm) world_scheme, exn, decision) eff" where
  "decide d c a r args ctx =
     bindE (liftE (validate_resource_pattern r)) (\<lambda>_.
     bindE (liftE (validate_ref (ch_subject c) ''user'')) (\<lambda>_.
     bindE perf_counter (\<lambda>started.
     bindE (evaluate d c a r (args_or_empty args) (context_or_none ctx)) (\<lambda>ev.
     bindE now (\<lambda>t.
     bindE (mk_decision ev c r a t []) (\<lambda>dn.
     bindE (journal_decision d dn args) (\<lambda>_.
     bindE (observe d dn started) (\<lambda>_.
     retE dn))))))))"

text \<open>\<open>_batch\<close>: the answers, or the reason of a denial.\<close>

definition batch ::
    "'w decider \<Rightarrow> string \<Rightarrow> string \<Rightarrow> string list \<Rightarrow> ('w, exn, bool list \<times> string option) eff" where
  "batch d subj rel rs =
     bindE (attemptE (eng_batch_check (dc_engine d) subj (map (\<lambda>r. (rel, r)) rs))) (\<lambda>answer.
       case answer of
         Inl e \<Rightarrow> retE ([], Some (failure_reason ''engine_error'' e))
       | Inr related \<Rightarrow> if length related \<noteq> length rs then retE ([], Some ''engine_error'')
           else retE (related, None))"

text \<open>The loop over the policies: the first verdict that is not ALLOW is returned.\<close>

fun first_refusal ::
    "policy option \<Rightarrow> principal_chain \<Rightarrow> action \<Rightarrow> tool_args \<Rightarrow> decision_context \<Rightarrow> string list \<Rightarrow> verdict option" where
  "first_refusal pol c a args ctx [] = None"
| "first_refusal pol c a args ctx (r # rs) =
     (let v = policy_verdict pol c a r args ctx in
      if v_outcome v \<noteq> ALLOW then Some v else first_refusal pol c a args ctx rs)"

definition all_outcome ::
    "policy option \<Rightarrow> principal_chain \<Rightarrow> action \<Rightarrow> string list \<Rightarrow> tool_args \<Rightarrow> decision_context
     \<Rightarrow> bool list \<times> string option \<Rightarrow> pyfloat \<Rightarrow> evaluation" where
  "all_outcome pol c a rs args ctx answer ms = (case answer of
     (related, Some reason) \<Rightarrow> (DENY, (if reason = [] then ''not_related'' else reason), ms)
   | (related, None) \<Rightarrow>
       if \<not> list_all id related then (DENY, ''not_related'', ms)
       else (case first_refusal pol c a args ctx rs of
               Some v \<Rightarrow> (v_outcome v, v_reason v, ms)
             | None \<Rightarrow> (ALLOW, ''allowed'', ms)))"

definition evaluate_all ::
    "('x, 'm) world_scheme decider \<Rightarrow> principal_chain \<Rightarrow> action \<Rightarrow> string list \<Rightarrow> string list \<Rightarrow> bool
     \<Rightarrow> tool_args \<Rightarrow> decision_context \<Rightarrow> (('x, 'm) world_scheme, exn, evaluation) eff" where
  "evaluate_all d c a rs targets explicit_scope args ctx =
     (if rs = [] \<and> \<not> explicit_scope then retE (DENY, ''no_resource'', float_zero)
      else bindE (mapE (\<lambda>t. liftE (mk_capability (act_kind a) t)) targets) (\<lambda>caps.
      if list_ex (\<lambda>cap. \<not> scope_covers (ch_scope c) cap) caps then retE (DENY, ''scope_excluded'', float_zero)
      else if rs = [] then retE (ALLOW, ''scope_only'', float_zero)
      else bindE perf_counter (\<lambda>started.
        bindE (batch d (ch_subject c) (act_relation a) rs) (\<lambda>answer.
        bindE (elapsed_ms started) (\<lambda>ms.
        retE (all_outcome (dc_policy d) c a rs args ctx answer ms))))))"

definition decide_all ::
    "('x, 'm) world_scheme decider \<Rightarrow> principal_chain \<Rightarrow> action \<Rightarrow> string list \<Rightarrow> string list option
     \<Rightarrow> string option \<Rightarrow> tool_args option \<Rightarrow> decision_context option
     \<Rightarrow> (('x, 'm) world_scheme, exn, decision) eff" where
  "decide_all d c a rs scope_resources named args ctx =
     bindE (liftE (validate_ref (ch_subject c) ''user'')) (\<lambda>_.
     let targets = (case scope_resources of Some ts \<Rightarrow> ts | None \<Rightarrow> rs) in
     bindE (mapE (\<lambda>r. liftE (validate_resource_pattern r)) (rs @ targets)) (\<lambda>_.
     let name = (case named of Some n \<Rightarrow> n | None \<Rightarrow> (case rs of [] \<Rightarrow> '''' | r # _ \<Rightarrow> r)) in
     bindE perf_counter (\<lambda>started.
     bindE (evaluate_all d c a rs targets (scope_resources \<noteq> None) (args_or_empty args) (context_or_none ctx)) (\<lambda>ev.
     bindE now (\<lambda>t.
     bindE (mk_decision ev c name a t rs) (\<lambda>dn.
     bindE (journal_decision d dn args) (\<lambda>_.
     bindE (observe d dn started) (\<lambda>_.
     retE dn))))))))"

text \<open>
  \<open>decide_each\<close>. \<open>outcomes\<close> is the dict from indices to evaluations: the excluded targets first,
  then the targets of each chunk. \<open>started\<close> is overwritten by every chunk, as in the source.
\<close>

definition chunk_outcome ::
    "policy option \<Rightarrow> principal_chain \<Rightarrow> action \<Rightarrow> tool_args \<Rightarrow> decision_context \<Rightarrow> bool list \<times> string option
     \<Rightarrow> pyfloat \<Rightarrow> nat \<Rightarrow> string \<Rightarrow> evaluation" where
  "chunk_outcome pol c a args ctx answer ms position r = (case answer of
     (related, Some reason) \<Rightarrow> (DENY, reason, ms)
   | (related, None) \<Rightarrow>
       if \<not> related ! position then (DENY, ''not_related'', ms)
       else (let v = policy_verdict pol c a r args ctx in (v_outcome v, v_reason v, ms)))"

definition decide_chunk ::
    "('x, 'm) world_scheme decider \<Rightarrow> principal_chain \<Rightarrow> action \<Rightarrow> tool_args \<Rightarrow> decision_context \<Rightarrow> string list
     \<Rightarrow> nat list \<Rightarrow> (('x, 'm) world_scheme, exn, nat \<times> (nat \<times> evaluation) list) eff" where
  "decide_chunk d c a args ctx targets chunk =
     bindE perf_counter (\<lambda>started.
     bindE (batch d (ch_subject c) (act_relation a) (map (\<lambda>i. targets ! i) chunk)) (\<lambda>answer.
     bindE (elapsed_ms started) (\<lambda>ms.
     retE (started, map (\<lambda>(position, i).
         (i, chunk_outcome (dc_policy d) c a args ctx answer ms position (targets ! i))) (enumerate 0 chunk)))))"

definition covered_indices :: "principal_chain \<Rightarrow> action \<Rightarrow> string list \<Rightarrow> nat list" where
  "covered_indices c a targets =
     filter (\<lambda>i. scope_covers (ch_scope c) (Capability (act_kind a) (targets ! i))) [0..<length targets]"

definition decide_each ::
    "('x, 'm) world_scheme decider \<Rightarrow> principal_chain \<Rightarrow> action \<Rightarrow> string list \<Rightarrow> bool \<Rightarrow> tool_args option
     \<Rightarrow> decision_context option \<Rightarrow> (('x, 'm) world_scheme, exn, decision list) eff" where
  "decide_each d c a targets audit_each args ctx =
     bindE (liftE (validate_ref (ch_subject c) ''user'')) (\<lambda>_.
     bindE (mapE (\<lambda>r. liftE (validate_resource_pattern r)) targets) (\<lambda>_.
     if targets = [] then retE []
     else bindE perf_counter (\<lambda>started0.
       let to_check = covered_indices c a targets in
       bindE (mapE (decide_chunk d c a (args_or_empty args) (context_or_none ctx) targets)
                (chunks BATCH_LIMIT to_check)) (\<lambda>runs.
       let outcomes = map_of (concat (map snd runs));
           started = (if runs = [] then started0 else fst (last runs)) in
       bindE now (\<lambda>t.
       mapE (\<lambda>(i, r).
         let ev = (case outcomes i of Some ev \<Rightarrow> ev | None \<Rightarrow> (DENY, ''scope_excluded'', float_zero)) in
         bindE (mk_decision ev c r a t []) (\<lambda>dn.
         bindE (if audit_each then journal_decision d dn args else retE ()) (\<lambda>_.
         bindE (observe d dn started) (\<lambda>_.
         retE dn)))) (enumerate 0 targets))))))"

section \<open>The abstract decision\<close>

text \<open>What the policy says: no policy allows, one that raises denies, and the reason of an ALLOW is fixed.\<close>

definition spec_policy ::
    "policy option \<Rightarrow> principal_chain \<Rightarrow> action \<Rightarrow> string \<Rightarrow> tool_args \<Rightarrow> decision_context \<Rightarrow> outcome \<times> string" where
  "spec_policy pol c a r args ctx = (case pol of None \<Rightarrow> (ALLOW, ''allowed'')
     | Some p \<Rightarrow> (case p c a r args ctx of Inl _ \<Rightarrow> (DENY, ''policy_error'')
        | Inr v \<Rightarrow> (v_outcome v, if v_outcome v = ALLOW then ''allowed'' else v_reason v)))"

definition spec_decide ::
    "policy option \<Rightarrow> principal_chain \<Rightarrow> action \<Rightarrow> string \<Rightarrow> tool_args \<Rightarrow> decision_context \<Rightarrow> exn + bool
     \<Rightarrow> outcome \<times> string" where
  "spec_decide pol c a r args ctx answer =
     (if \<not> scope_covers (ch_scope c) (Capability (act_kind a) r) then (DENY, ''scope_excluded'')
      else case answer of
        Inl e \<Rightarrow> (DENY, failure_reason ''engine_error'' e)
      | Inr False \<Rightarrow> (DENY, ''not_related'')
      | Inr True \<Rightarrow> spec_policy pol c a r args ctx)"

lemma spec_policy_eq:
  "spec_policy pol c a r args ctx = (v_outcome (policy_verdict pol c a r args ctx), v_reason (policy_verdict pol c a r args ctx))"
  by (auto simp: spec_policy_def policy_verdict_def split: option.splits sum.splits)

lemma spec_decide_eq:
  "spec_decide pol c a r args ctx answer =
     (if \<not> scope_covers (ch_scope c) (Capability (act_kind a) r) then (DENY, ''scope_excluded'')
      else case answer of
        Inl e \<Rightarrow> (DENY, failure_reason ''engine_error'' e)
      | Inr False \<Rightarrow> (DENY, ''not_related'')
      | Inr True \<Rightarrow> (v_outcome (policy_verdict pol c a r args ctx), v_reason (policy_verdict pol c a r args ctx)))"
  unfolding spec_decide_def spec_policy_eq ..

text \<open>What the engine was asked and answered during a call, and what the sink accepted.\<close>

definition answered :: "'w authz_engine \<Rightarrow> string \<Rightarrow> string \<Rightarrow> string \<Rightarrow> exn + bool \<Rightarrow> bool" where
  "answered e subj rel r ans \<longleftrightarrow> (\<exists>w w'. eng_check e subj rel r w = (ans, w'))"

definition batch_answered :: "'w authz_engine \<Rightarrow> string \<Rightarrow> string \<Rightarrow> string list \<Rightarrow> exn + bool list \<Rightarrow> bool" where
  "batch_answered e subj rel rs ans \<longleftrightarrow> (\<exists>w w'. eng_batch_check e subj (map (\<lambda>r. (rel, r)) rs) w = (ans, w'))"

definition accepted :: "'w audit_sink \<Rightarrow> audit_event \<Rightarrow> bool" where
  "accepted sink ev \<longleftrightarrow> (\<exists>w w'. sink ev w = (Inr (), w'))"

text \<open>The exceptions that may leave an entry point once its arguments are valid.\<close>

definition sink_raised :: "'w decider \<Rightarrow> exn \<Rightarrow> bool" where
  "sink_raised d x \<longleftrightarrow> (\<exists>ev w w'. dc_audit d ev w = (Inl x, w'))
     \<or> (\<exists>m dn t l w w'. dc_metrics d = Some m \<and> ms_record m dn t l w = (Inl x, w'))"

lemma answeredI: "eng_check e subj rel r w = (ans, w') \<Longrightarrow> answered e subj rel r ans"
  unfolding answered_def by blast

lemma batch_answeredI:
  "eng_batch_check e subj (map (\<lambda>r. (rel, r)) rs) w = (ans, w') \<Longrightarrow> batch_answered e subj rel rs ans"
  unfolding batch_answered_def by blast

lemma acceptedI: "sink ev w = (Inr u, w') \<Longrightarrow> accepted sink ev"
  unfolding accepted_def by (metis (full_types) unit.exhaust)

lemma sink_raisedI:
  "dc_audit d ev w = (Inl x, w') \<Longrightarrow> sink_raised d x"
  "dc_metrics d = Some m \<Longrightarrow> ms_record m dn t l w = (Inl x, w') \<Longrightarrow> sink_raised d x"
  unfolding sink_raised_def by blast+

lemma spec_decide_ALLOW:
  "fst (spec_decide pol c a r args ctx answer) = ALLOW \<longleftrightarrow>
    scope_covers (ch_scope c) (Capability (act_kind a) r) \<and> answer = Inr True
    \<and> v_outcome (policy_verdict pol c a r args ctx) = ALLOW"
  by (auto simp: spec_decide_eq split: sum.splits bool.splits)

section \<open>Lemmas\<close>

lemma wp_call:
  assumes "\<And>x w'. m w = (Inr x, w') \<Longrightarrow> Q x w'" "\<And>e w'. m w = (Inl e, w') \<Longrightarrow> R e w'"
  shows "wp m Q R w"
  using assms by (rule wpI)

lemma wp_mapE_liftE_valid:
  assumes "\<And>x. x \<in> set xs \<Longrightarrow> f x = Inr (g x)"
  shows "wp (mapE (\<lambda>x. liftE (f x)) xs) Q R = Q (map g xs)"
  using assms by (induction xs arbitrary: Q) (simp_all add: wp_rules)

lemma validate_pattern_valid [simp]: "valid_pattern r \<Longrightarrow> validate_resource_pattern r = Inr r"
  by (simp add: validate_resource_pattern_def)

lemma wp_evaluate:
  assumes "valid_pattern r"
    and "\<And>ans ms w'. (scope_covers (ch_scope c) (Capability (act_kind a) r) \<Longrightarrow>
        answered (dc_engine d) (ch_subject c) (act_relation a) r ans) \<Longrightarrow>
      Q (fst (spec_decide (dc_policy d) c a r args ctx ans),
         snd (spec_decide (dc_policy d) c a r args ctx ans), ms) w'"
  shows "wp (evaluate d c a r args ctx) Q R w"
proof (cases "scope_covers (ch_scope c) (Capability (act_kind a) r)")
  case False
  then show ?thesis
    using assms(1) assms(2) [of "Inr False" float_zero]
    by (simp add: evaluate_def wp_rules spec_decide_eq)
next
  case True
  have "wp (eng_check (dc_engine d) (ch_subject c) (act_relation a) r)
      (\<lambda>x w'. \<forall>ms w''. Q (fst (spec_decide (dc_policy d) c a r args ctx (Inr x)),
         snd (spec_decide (dc_policy d) c a r args ctx (Inr x)), ms) w'')
      (\<lambda>e w'. \<forall>ms w''. Q (fst (spec_decide (dc_policy d) c a r args ctx (Inl e)),
         snd (spec_decide (dc_policy d) c a r args ctx (Inl e)), ms) w'') w0" for w0
    by (rule wpI) (auto intro!: assms(2) answeredI)
  note call = this
  show ?thesis using True assms(1)
    by (simp add: evaluate_def wp_rules)
       (rule wp_mono [OF call], auto simp: spec_decide_eq wp_rules Let_def split: bool.splits)
qed

text \<open>What an entry point does after its evaluation: one event accepted by the sink, or a raise.\<close>

definition decision_journaled :: "'w decider \<Rightarrow> decision \<Rightarrow> tool_args option \<Rightarrow> bool" where
  "decision_journaled d dn args \<longleftrightarrow> (\<exists>eid. accepted (dc_audit d) (decision_event dn (hash_args args) eid))"

lemma decision_journaledI:
  "dc_audit d (decision_event dn (hash_args args) eid) w = (Inr u, w') \<Longrightarrow> decision_journaled d dn args"
  unfolding decision_journaled_def by (rule exI, rule acceptedI)

lemma wp_observe:
  assumes "\<And>w'. Q () w'" "\<And>x w'. sink_raised d x \<Longrightarrow> R x w'"
  shows "wp (observe d dn started) Q R w"
proof (cases "dc_metrics d")
  case None
  then show ?thesis using assms(1) by (simp add: observe_def wp_rules)
next
  case (Some m)
  have "wp (ms_record m dn t l) Q R w0" for t l w0
    by (rule wpI) (auto intro!: assms sink_raisedI(2) [OF Some])
  then show ?thesis using Some by (simp add: observe_def wp_rules)
qed

lemma wp_journal_decision:
  assumes "\<And>w'. decision_journaled d dn args \<Longrightarrow> Q () w'" "\<And>x w'. sink_raised d x \<Longrightarrow> R x w'"
  shows "wp (journal_decision d dn args) Q R w"
proof -
  have "wp (dc_audit d (decision_event dn (hash_args args) eid)) Q R w0" for eid w0
    by (rule wpI) (auto intro!: assms sink_raisedI(1) decision_journaledI)
  then show ?thesis by (simp add: journal_decision_def event_from_decision_def wp_rules)
qed

lemma wp_finish:
  assumes "\<And>t i w'. let dn = \<lparr>d_outcome = fst ev, d_reason = fst (snd ev), d_chain = c, d_resource = r,
        d_action = a, d_timestamp = t, d_engine_latency_ms = snd (snd ev), d_decision_id = i, d_resources = rs\<rparr>
      in decision_journaled d dn args \<longrightarrow> Q dn w'"
    "\<And>x w'. sink_raised d x \<Longrightarrow> R x w'"
  shows "wp (bindE now (\<lambda>t. bindE (mk_decision ev c r a t rs) (\<lambda>dn. bindE (journal_decision d dn args)
    (\<lambda>_. bindE (observe d dn started) (\<lambda>_. retE dn))))) Q R w"
  using assms unfolding Let_def
  by (auto simp: wp_rules mk_decision_def intro!: wp_journal_decision wp_observe)

lemma wp_decide:
  assumes "valid_pattern r" "valid_ref (ch_subject c) ''user''"
    and "\<And>ans dn w'. (scope_covers (ch_scope c) (Capability (act_kind a) r) \<Longrightarrow>
        answered (dc_engine d) (ch_subject c) (act_relation a) r ans) \<Longrightarrow>
      (d_outcome dn, d_reason dn) =
        spec_decide (dc_policy d) c a r (args_or_empty args) (context_or_none ctx) ans \<Longrightarrow>
      d_chain dn = c \<Longrightarrow> d_resource dn = r \<Longrightarrow> d_action dn = a \<Longrightarrow> decision_journaled d dn args \<Longrightarrow> Q dn w'"
    and "\<And>x w'. sink_raised d x \<Longrightarrow> R x w'"
  shows "wp (decide d c a r args ctx) Q R w"
  unfolding decide_def using assms(1,2)
  by (simp add: wp_bindE wp_liftE wp_perf_counter)
     (rule wp_evaluate [OF assms(1)], unfold wp_bindE [symmetric], rule wp_finish,
      auto simp: Let_def intro!: assms(3,4))

lemma decide_invalid:
  "\<not> valid_pattern r \<Longrightarrow> decide d c a r args ctx w = (Inl (hoc InvalidResource), w)"
  "valid_pattern r \<Longrightarrow> \<not> valid_ref (ch_subject c) ''user'' \<Longrightarrow>
    decide d c a r args ctx w = (Inl (hoc InvariantViolation), w)"
  by (simp_all add: decide_def bindE_def liftE_def validate_resource_pattern_def)

subsection \<open>Deciding about every resource at once\<close>

definition spec_all ::
    "policy option \<Rightarrow> principal_chain \<Rightarrow> action \<Rightarrow> string list \<Rightarrow> string list \<Rightarrow> bool \<Rightarrow> tool_args
     \<Rightarrow> decision_context \<Rightarrow> exn + bool list \<Rightarrow> outcome \<times> string" where
  "spec_all pol c a rs targets explicit_scope args ctx answer =
     (if rs = [] \<and> \<not> explicit_scope then (DENY, ''no_resource'')
      else if \<not> list_all (\<lambda>t. scope_covers (ch_scope c) (Capability (act_kind a) t)) targets
      then (DENY, ''scope_excluded'')
      else if rs = [] then (ALLOW, ''scope_only'')
      else case answer of
        Inl e \<Rightarrow> (DENY, let r = failure_reason ''engine_error'' e in if r = [] then ''not_related'' else r)
      | Inr bs \<Rightarrow> if length bs \<noteq> length rs then (DENY, ''engine_error'')
          else if \<not> list_all id bs then (DENY, ''not_related'')
          else (case first_refusal pol c a args ctx rs of
                  Some v \<Rightarrow> (v_outcome v, v_reason v) | None \<Rightarrow> (ALLOW, ''allowed'')))"

lemma first_refusal_Some:
  "first_refusal pol c a args ctx rs = Some v \<Longrightarrow> v_outcome v \<noteq> ALLOW"
  by (induction rs) (auto simp: Let_def split: if_splits)

lemma first_refusal_None:
  "first_refusal pol c a args ctx rs = None \<longleftrightarrow>
    (\<forall>r\<in>set rs. v_outcome (policy_verdict pol c a r args ctx) = ALLOW)"
  by (induction rs) (auto simp: Let_def)

lemma spec_all_ALLOW:
  "fst (spec_all pol c a rs targets expl args ctx answer) = ALLOW \<longleftrightarrow>
    (\<forall>t\<in>set targets. scope_covers (ch_scope c) (Capability (act_kind a) t)) \<and>
    (if rs = [] then expl else
      answer = Inr (replicate (length rs) True) \<and>
      (\<forall>r\<in>set rs. v_outcome (policy_verdict pol c a r args ctx) = ALLOW))"
proof -
  have "bs = replicate n True \<longleftrightarrow> length bs = n \<and> list_all id bs" for bs n
    by (auto simp: list_all_iff list_eq_iff_nth_eq) (metis in_set_conv_nth)
  then show ?thesis
    by (auto simp: spec_all_def list_all_iff first_refusal_None [symmetric]
        split: sum.splits option.splits dest: first_refusal_Some)
qed

lemma wp_batch:
  assumes "\<And>ans w'. batch_answered (dc_engine d) subj rel rs ans \<Longrightarrow>
      Q (case ans of Inl e \<Rightarrow> ([], Some (failure_reason ''engine_error'' e))
          | Inr bs \<Rightarrow> if length bs \<noteq> length rs then ([], Some ''engine_error'') else (bs, None)) w'"
  shows "wp (batch d subj rel rs) Q R w"
proof -
  have "wp (eng_batch_check (dc_engine d) subj (map (\<lambda>r. (rel, r)) rs))
      (\<lambda>bs w'. Q (if length bs \<noteq> length rs then ([], Some ''engine_error'') else (bs, None)) w')
      (\<lambda>e w'. Q ([], Some (failure_reason ''engine_error'' e)) w') w"
    by (rule wpI) (use assms in \<open>force dest: batch_answeredI\<close>)+
  then show ?thesis unfolding batch_def
    by (auto simp: wp_rules elim!: wp_mono split: if_splits)
qed

lemma wp_evaluate_all:
  assumes "list_all valid_pattern targets"
    and "\<And>ans ms w'. (rs \<noteq> [] \<Longrightarrow> list_all (\<lambda>t. scope_covers (ch_scope c) (Capability (act_kind a) t)) targets \<Longrightarrow>
        batch_answered (dc_engine d) (ch_subject c) (act_relation a) rs ans) \<Longrightarrow>
      Q (fst (spec_all (dc_policy d) c a rs targets expl args ctx ans),
         snd (spec_all (dc_policy d) c a rs targets expl args ctx ans), ms) w'"
  shows "wp (evaluate_all d c a rs targets expl args ctx) Q R w"
proof -
  let ?cov = "\<lambda>t. scope_covers (ch_scope c) (Capability (act_kind a) t)"
  have caps: "wp (mapE (\<lambda>t. liftE (mk_capability (act_kind a) t)) targets) P R w
      = P (map (Capability (act_kind a)) targets) w" for P w
    using assms(1) by (subst wp_mapE_liftE_valid [where g = "Capability (act_kind a)"])
      (auto simp: list_all_iff)
  have ex: "list_ex (\<lambda>cap. \<not> scope_covers (ch_scope c) cap) (map (Capability (act_kind a)) targets)
      \<longleftrightarrow> \<not> list_all ?cov targets"
    by (auto simp: list_ex_iff list_all_iff)
  show ?thesis
  proof (cases "rs = [] \<or> \<not> list_all ?cov targets")
    case True
    then show ?thesis using assms(2) [of "Inr []" float_zero]
      by (auto simp: evaluate_all_def wp_rules caps ex spec_all_def)
  next
    case False
    have call: "wp (batch d (ch_subject c) (act_relation a) rs)
       (\<lambda>answer w'. \<forall>ms w''. Q (all_outcome (dc_policy d) c a rs args ctx answer ms) w'') R w0" for w0
    proof (rule wp_batch, goal_cases)
      case (1 ans w')
      have "Q (fst (spec_all (dc_policy d) c a rs targets expl args ctx ans),
         snd (spec_all (dc_policy d) c a rs targets expl args ctx ans), ms) w''" for ms w''
        using assms(2) 1 by blast
      then show ?case using False
        by (auto simp: spec_all_def all_outcome_def Let_def split: sum.splits option.splits if_splits)
    qed
    show ?thesis using False
      by (simp add: evaluate_all_def wp_rules caps ex) (rule wp_mono [OF call], simp_all)
  qed
qed

lemma wp_decide_all:
  fixes scope_resources :: "string list option" and rs :: "string list"
    and d :: "('x, 'm) world_scheme decider"
  defines "targets \<equiv> (case scope_resources of Some ts \<Rightarrow> ts | None \<Rightarrow> rs)"
  assumes "list_all valid_pattern (rs @ targets)" "valid_ref (ch_subject c) ''user''"
    and "\<And>ans dn w'. (rs \<noteq> [] \<Longrightarrow> list_all (\<lambda>t. scope_covers (ch_scope c) (Capability (act_kind a) t)) targets \<Longrightarrow>
        batch_answered (dc_engine d) (ch_subject c) (act_relation a) rs ans) \<Longrightarrow>
      (d_outcome dn, d_reason dn) = spec_all (dc_policy d) c a rs targets (scope_resources \<noteq> None)
        (args_or_empty args) (context_or_none ctx) ans \<Longrightarrow>
      d_chain dn = c \<Longrightarrow> d_action dn = a \<Longrightarrow> d_resources dn = rs \<Longrightarrow> decision_journaled d dn args \<Longrightarrow> Q dn w'"
    and "\<And>x w'. sink_raised d x \<Longrightarrow> R x w'"
  shows "wp (decide_all d c a rs scope_resources named args ctx) Q R w"
proof -
  have valid: "wp (mapE (\<lambda>r. liftE (validate_resource_pattern r)) (rs @ targets)) P R w = P (rs @ targets) w"
    for P and w :: "('x, 'm) world_scheme"
    using assms(2) by (subst wp_mapE_liftE_valid [where g = id]) (auto simp: list_all_iff)
  have targets: "list_all valid_pattern targets" using assms(2) by simp
  show ?thesis
    unfolding decide_all_def using assms(3)
    by (simp add: wp_bindE wp_liftE Let_def valid [unfolded targets_def] wp_perf_counter)
       (rule wp_evaluate_all [OF targets [unfolded targets_def]], unfold wp_bindE [symmetric], rule wp_finish,
        auto simp: Let_def intro!: assms(4,5) [unfolded targets_def])
qed

subsection \<open>Deciding about each resource\<close>

text \<open>What a batched question said about one of its resources.\<close>

definition point_answer :: "string list \<Rightarrow> exn + bool list \<Rightarrow> nat \<Rightarrow> exn + bool" where
  "point_answer chunk ans position = (case ans of
     Inl e \<Rightarrow> Inl e
   | Inr bs \<Rightarrow> if length bs = length chunk then Inr (bs ! position) else Inl (Other ''length''))"

definition each_answered :: "'w authz_engine \<Rightarrow> string \<Rightarrow> string \<Rightarrow> string \<Rightarrow> exn + bool \<Rightarrow> bool" where
  "each_answered e subj rel r ans \<longleftrightarrow> (\<exists>chunk position bans. position < length chunk \<and> chunk ! position = r
     \<and> length chunk \<le> BATCH_LIMIT \<and> batch_answered e subj rel chunk bans
     \<and> ans = point_answer chunk bans position)"

definition each_ok :: "'w decider \<Rightarrow> principal_chain \<Rightarrow> action \<Rightarrow> tool_args \<Rightarrow> decision_context \<Rightarrow> string \<Rightarrow> outcome \<times> string \<Rightarrow> bool" where
  "each_ok d c a args ctx r res \<longleftrightarrow> (\<exists>ans. (scope_covers (ch_scope c) (Capability (act_kind a) r) \<longrightarrow>
       each_answered (dc_engine d) (ch_subject c) (act_relation a) r ans)
     \<and> res = spec_decide (dc_policy d) c a r args ctx ans)"

lemma chunk_outcome_spec:
  assumes "scope_covers (ch_scope c) (Capability (act_kind a) r)"
  shows "chunk_outcome (dc_policy d) c a args ctx (case ans of Inl e \<Rightarrow> ([], Some (failure_reason ''engine_error'' e))
      | Inr bs \<Rightarrow> if length bs \<noteq> length rs then ([], Some ''engine_error'') else (bs, None)) ms i r
    = (fst (spec_decide (dc_policy d) c a r args ctx (point_answer rs ans i)),
       snd (spec_decide (dc_policy d) c a r args ctx (point_answer rs ans i)), ms)"
  using assms
  by (auto simp: chunk_outcome_def spec_decide_eq point_answer_def Let_def split: sum.splits bool.splits)

definition chunk_ok :: "'w decider \<Rightarrow> principal_chain \<Rightarrow> action \<Rightarrow> tool_args \<Rightarrow> decision_context \<Rightarrow> string list
    \<Rightarrow> nat list \<Rightarrow> nat \<times> (nat \<times> evaluation) list \<Rightarrow> bool" where
  "chunk_ok d c a args ctx targets chunk run \<longleftrightarrow> map fst (snd run) = chunk \<and>
     (\<forall>(i, ev)\<in>set (snd run). each_ok d c a args ctx (targets ! i) (fst ev, fst (snd ev)))"

lemma wp_decide_chunk:
  assumes cov: "\<And>i. i \<in> set chunk \<Longrightarrow> scope_covers (ch_scope c) (Capability (act_kind a) (targets ! i))"
    and len: "length chunk \<le> BATCH_LIMIT"
  shows "wp (decide_chunk d c a args ctx targets chunk)
    (\<lambda>run w'. chunk_ok d c a args ctx targets chunk run) R w"
proof -
  let ?rs = "map (\<lambda>i. targets ! i) chunk"
  have call: "wp (batch d (ch_subject c) (act_relation a) ?rs)
      (\<lambda>answer w'. \<forall>ms started. chunk_ok d c a args ctx targets chunk (started,
         map (\<lambda>(position, i). (i, chunk_outcome (dc_policy d) c a args ctx answer ms position (targets ! i)))
           (enumerate 0 chunk))) R w0" for w0
  proof (rule wp_batch, goal_cases)
    case (1 ans w')
    have "each_ok d c a args ctx (targets ! i) (spec_decide (dc_policy d) c a (targets ! i) args ctx
        (point_answer ?rs ans p))" if "p < length chunk" "chunk ! p = i" for p i
    proof -
      have "each_answered (dc_engine d) (ch_subject c) (act_relation a) (targets ! i) (point_answer ?rs ans p)"
        unfolding each_answered_def using that len 1
        by (intro exI [of _ ?rs] exI [of _ p] exI [of _ ans]) auto
      then show ?thesis unfolding each_ok_def by blast
    qed
    then show ?case
      using cov by (auto simp: chunk_ok_def chunk_outcome_spec in_set_enumerate_eq comp_def case_prod_unfold)
  qed
  show ?thesis
    by (simp add: decide_chunk_def wp_rules) (rule wp_mono [OF call], simp_all)
qed

lemma covered_chunks:
  assumes "chunk \<in> set (chunks BATCH_LIMIT (covered_indices c a targets))" "i \<in> set chunk"
  shows "i \<in> set (covered_indices c a targets)"
proof -
  have "set (concat (chunks BATCH_LIMIT (covered_indices c a targets))) = set (covered_indices c a targets)"
    by (simp add: concat_chunks BATCH_LIMIT_def)
  then show ?thesis using assms by auto
qed

lemma runs_outcomes:
  assumes runs: "list_all2 (chunk_ok d c a args ctx targets) (chunks BATCH_LIMIT (covered_indices c a targets)) runs"
    and i: "i < length targets"
  shows "each_ok d c a args ctx (targets ! i)
    (case map_of (concat (map snd runs)) i of
       Some ev \<Rightarrow> (fst ev, fst (snd ev)) | None \<Rightarrow> (DENY, ''scope_excluded''))"
proof -
  have keys: "map fst (concat (map snd runs)) = covered_indices c a targets"
  proof -
    have "map (map fst \<circ> snd) runs = chunks BATCH_LIMIT (covered_indices c a targets)"
      using runs by (induction rule: list_all2_induct) (auto simp: chunk_ok_def)
    then show ?thesis by (simp add: map_concat comp_def concat_chunks BATCH_LIMIT_def)
  qed
  have entries: "\<forall>(i, ev)\<in>set (concat (map snd runs)). each_ok d c a args ctx (targets ! i) (fst ev, fst (snd ev))"
    using runs by (induction rule: list_all2_induct) (auto simp: chunk_ok_def)
  show ?thesis
  proof (cases "map_of (concat (map snd runs)) i")
    case (Some ev)
    then show ?thesis using bspec [OF entries map_of_SomeD [OF Some]] by simp
  next
    case None
    then have "i \<notin> set (covered_indices c a targets)" using keys by (metis map_of_eq_None_iff set_map)
    then have "\<not> scope_covers (ch_scope c) (Capability (act_kind a) (targets ! i))"
      using i by (simp add: covered_indices_def)
    then show ?thesis using None by (auto simp: each_ok_def spec_decide_eq intro!: exI [of _ "Inr False"])
  qed
qed

lemma wp_decide_each:
  assumes "list_all valid_pattern targets" "valid_ref (ch_subject c) ''user''"
  shows "wp (decide_each d c a targets audit_each args ctx)
    (\<lambda>dns _. list_all2 (\<lambda>r dn. d_resource dn = r \<and> d_chain dn = c \<and> d_action dn = a
        \<and> each_ok d c a (args_or_empty args) (context_or_none ctx) r (d_outcome dn, d_reason dn)
        \<and> (audit_each \<longrightarrow> decision_journaled d dn args)) targets dns)
    (\<lambda>x _. sink_raised d x) w"
    (is "wp _ (\<lambda>dns _. list_all2 ?P targets dns) _ _")
proof (cases "targets = []")
  case True
  then show ?thesis using assms by (simp add: decide_each_def wp_rules)
next
  case False
  let ?a = "args_or_empty args" and ?x = "context_or_none ctx"
  have valid: "wp (mapE (\<lambda>r. liftE (validate_resource_pattern r)) targets) P R w = P targets w"
    for P R and w :: "('a, 'b) world_scheme"
    using assms(1) by (subst wp_mapE_liftE_valid [where g = id]) (auto simp: list_all_iff)
  have runs: "wp (mapE (decide_chunk d c a ?a ?x targets) (chunks BATCH_LIMIT (covered_indices c a targets)))
      (\<lambda>runs _. list_all2 (chunk_ok d c a ?a ?x targets) (chunks BATCH_LIMIT (covered_indices c a targets)) runs)
      (\<lambda>x _. sink_raised d x) v" for v
  proof (rule wp_mapE_all2, rule wp_decide_chunk)
    fix chunk
    assume chunk: "chunk \<in> set (chunks BATCH_LIMIT (covered_indices c a targets))"
    then show "length chunk \<le> BATCH_LIMIT" by (simp add: chunks_bounds)
    fix i assume "i \<in> set chunk"
    with chunk have "i \<in> set (covered_indices c a targets)" by (rule covered_chunks)
    then show "scope_covers (ch_scope c) (Capability (act_kind a) (targets ! i))"
      by (simp add: covered_indices_def)
  qed
  have each: "wp (mapE (\<lambda>(i, r).
         let ev = (case outcomes i of Some ev \<Rightarrow> ev | None \<Rightarrow> (DENY, ''scope_excluded'', float_zero)) in
         bindE (mk_decision ev c r a t []) (\<lambda>dn.
         bindE (if audit_each then journal_decision d dn args else retE ()) (\<lambda>_.
         bindE (observe d dn started) (\<lambda>_. retE dn)))) (enumerate 0 targets))
      (\<lambda>dns _. list_all2 (\<lambda>(i, r). ?P r) (enumerate 0 targets) dns) (\<lambda>x _. sink_raised d x) v"
    if "\<And>i. i < length targets \<Longrightarrow> each_ok d c a ?a ?x (targets ! i)
      (case outcomes i of Some ev \<Rightarrow> (fst ev, fst (snd ev)) | None \<Rightarrow> (DENY, ''scope_excluded''))"
    for outcomes t started v
  proof -
    have none: "each_ok d c a ?a ?x (targets ! i) (DENY, ''scope_excluded'')"
      if "i < length targets" "outcomes i = None" for i
      using \<open>\<And>i. i < length targets \<Longrightarrow> _\<close> [OF that(1)] that(2) by simp
    have some: "each_ok d c a ?a ?x (targets ! i) (oc, reason)"
      if "i < length targets" "outcomes i = Some (oc, reason, ms)" for i oc reason ms
      using \<open>\<And>i. i < length targets \<Longrightarrow> _\<close> [OF that(1)] that(2) by simp
    show ?thesis
      by (intro wp_mapE_all2)
         (auto simp: Let_def wp_rules mk_decision_def in_set_enumerate_eq none intro: some split: option.splits
           intro!: wp_journal_decision wp_observe)
  qed
  have strip: "list_all2 (\<lambda>(i, r). ?P r) (enumerate 0 targets) dns \<Longrightarrow> list_all2 ?P targets dns" for dns
    by (auto simp: list_all2_conv_all_nth nth_enumerate_eq)
  show ?thesis
    unfolding decide_each_def using assms(2) False
    apply (simp add: wp_bindE wp_liftE valid wp_perf_counter Let_def)
    apply (rule wp_mono [OF runs])
     apply (simp only: wp_now)
     apply (rule wp_mono [OF each [unfolded Let_def]])
       apply (erule (1) runs_outcomes)
      apply (erule strip)
     apply assumption
    apply assumption
    done
qed

text \<open>What an ALLOW of \<open>decide_all\<close> rests on.\<close>

lemma decide_all_grounds:
  assumes "decide_all d c a rs scope_resources named args ctx w = (Inr dn, w')" "d_outcome dn = ALLOW"
    "list_all valid_pattern (rs @ (case scope_resources of Some ts \<Rightarrow> ts | None \<Rightarrow> rs))"
    "valid_ref (ch_subject c) ''user''"
  shows "(\<forall>t\<in>set (case scope_resources of Some ts \<Rightarrow> ts | None \<Rightarrow> rs).
        scope_covers (ch_scope c) (Capability (act_kind a) t))
    \<and> (rs = [] \<longrightarrow> scope_resources \<noteq> None)
    \<and> (rs \<noteq> [] \<longrightarrow> batch_answered (dc_engine d) (ch_subject c) (act_relation a) rs (Inr (replicate (length rs) True)))
    \<and> (\<forall>r\<in>set rs. v_outcome (policy_verdict (dc_policy d) c a r (args_or_empty args) (context_or_none ctx)) = ALLOW)
    \<and> decision_journaled d dn args"
proof -
  let ?ts = "case scope_resources of Some ts \<Rightarrow> ts | None \<Rightarrow> rs"
  let ?s = "spec_all (dc_policy d) c a rs ?ts (scope_resources \<noteq> None) (args_or_empty args) (context_or_none ctx)"
  have "wp (decide_all d c a rs scope_resources named args ctx)
    (\<lambda>dn _. decision_journaled d dn args \<and> (\<exists>ans. (rs \<noteq> [] \<longrightarrow>
        list_all (\<lambda>t. scope_covers (ch_scope c) (Capability (act_kind a) t)) ?ts \<longrightarrow>
        batch_answered (dc_engine d) (ch_subject c) (act_relation a) rs ans)
      \<and> (d_outcome dn, d_reason dn) = ?s ans)) (\<lambda>_ _. True) w"
    by (rule wp_decide_all [OF assms(3,4)]) blast+
  then have "decision_journaled d dn args \<and> (\<exists>ans. (rs \<noteq> [] \<longrightarrow>
        list_all (\<lambda>t. scope_covers (ch_scope c) (Capability (act_kind a) t)) ?ts \<longrightarrow>
        batch_answered (dc_engine d) (ch_subject c) (act_relation a) rs ans)
      \<and> (d_outcome dn, d_reason dn) = ?s ans)"
    using assms(1) by (simp add: wp_def)
  then obtain ans where j: "decision_journaled d dn args"
      and ans: "rs \<noteq> [] \<Longrightarrow> list_all (\<lambda>t. scope_covers (ch_scope c) (Capability (act_kind a) t)) ?ts \<Longrightarrow>
        batch_answered (dc_engine d) (ch_subject c) (act_relation a) rs ans"
      and res: "(d_outcome dn, d_reason dn) = ?s ans"
    by blast
  have "fst (?s ans) = ALLOW" using res assms(2) by (metis fst_conv)
  then show ?thesis using j ans unfolding spec_all_ALLOW
    by (auto simp: list_all_iff split: if_splits)
qed

text \<open>A joint decision is only made about valid references.\<close>

lemma decide_all_valid:
  assumes "decide_all d c a rs scope_resources named args ctx w = (Inr dn, w')"
  shows "list_all valid_pattern (rs @ (case scope_resources of Some ts \<Rightarrow> ts | None \<Rightarrow> rs))" "valid_ref (ch_subject c) ''user''"
proof -
  have pats: "list_all valid_pattern xs" if "mapE (\<lambda>r. liftE (validate_resource_pattern r)) xs w1 = (Inr ys, w2)"
    for xs ys and w1 w2 :: "('a, 'b) world_scheme"
    using that by (induction xs arbitrary: w1 ys) (auto simp: bindE_Inr liftE_def retE_def validate_resource_pattern_def split: if_splits)
  show "valid_ref (ch_subject c) ''user''"
    using assms by (auto simp: decide_all_def bindE_Inr liftE_def validate_ref_def split: if_splits)
  show "list_all valid_pattern (rs @ (case scope_resources of Some ts \<Rightarrow> ts | None \<Rightarrow> rs))"
    using assms unfolding decide_all_def Let_def bindE_Inr by (elim exE conjE) (rule pats)
qed

lemma each_ok_functional:
  assumes fn: "\<And>items w. fst (eng_batch_check (dc_engine d) (ch_subject c) items w) = Inr (map (\<lambda>(rel, r). f rel r) items)"
    and ok: "each_ok d c a args ctx r res"
  shows "res = spec_decide (dc_policy d) c a r args ctx (Inr (f (act_relation a) r))"
proof -
  have each: "each_answered (dc_engine d) (ch_subject c) (act_relation a) r ans \<Longrightarrow> ans = Inr (f (act_relation a) r)" for ans
    unfolding each_answered_def batch_answered_def point_answer_def
    by (clarsimp, drule arg_cong [where f = fst]) (auto simp: fn comp_def)
  show ?thesis using ok unfolding each_ok_def
    by (cases "scope_covers (ch_scope c) (Capability (act_kind a) r)") (use each in blast, auto simp: spec_decide_eq)
qed

text \<open>The same for an engine whose batched call may raise: the resource is decided as alone, or denied for that exception.\<close>

lemma each_ok_batched:
  assumes batched: "\<And>rs w. fst (eng_batch_check (dc_engine d) (ch_subject c) (map (\<lambda>r. (act_relation a, r)) rs) w)
      \<in> insert (Inr (map f rs)) (range Inl)"
    and ok: "each_ok d c a args ctx r res"
  shows "res = spec_decide (dc_policy d) c a r args ctx (Inr (f r)) \<or>
    (\<exists>rs x. r \<in> set rs \<and> length rs \<le> BATCH_LIMIT \<and> batch_answered (dc_engine d) (ch_subject c) (act_relation a) rs (Inl x) \<and>
      res = (DENY, failure_reason ''engine_error'' x))"
proof (cases "scope_covers (ch_scope c) (Capability (act_kind a) r)")
  case False
  then show ?thesis using ok by (auto simp: each_ok_def spec_decide_eq)
next
  case True
  with ok obtain chunk position bans where chunk: "position < length chunk" "chunk ! position = r" "length chunk \<le> BATCH_LIMIT"
    "batch_answered (dc_engine d) (ch_subject c) (act_relation a) chunk bans"
    and res: "res = spec_decide (dc_policy d) c a r args ctx (point_answer chunk bans position)"
    by (auto simp: each_ok_def each_answered_def)
  have "bans \<in> insert (Inr (map f chunk)) (range Inl)"
    using chunk(4) batched [of chunk] unfolding batch_answered_def by (metis fst_conv)
  then show ?thesis
  proof (elim insertE rangeE)
    assume "bans = Inr (map f chunk)"
    then show ?thesis using res chunk by (simp add: point_answer_def)
  next
    fix x assume "bans = Inl x"
    then show ?thesis using res chunk True nth_mem [OF chunk(1)] by (auto simp: point_answer_def spec_decide_eq)
  qed
qed

lemma decide_functional:
  assumes single: "\<And>w. fst (eng_check (dc_engine d) (ch_subject c) (act_relation a) r w) = Inr b"
    and run: "decide d c a r args ctx w = (Inr dn, w')"
  shows "(d_outcome dn, d_reason dn) = spec_decide (dc_policy d) c a r (args_or_empty args) (context_or_none ctx) (Inr b)"
proof -
  have valid: "valid_pattern r" "valid_ref (ch_subject c) ''user''"
    using run by (cases "valid_pattern r"; cases "valid_ref (ch_subject c) ''user''"; simp add: decide_invalid)+
  have asked: "ans = Inr b" if "answered (dc_engine d) (ch_subject c) (act_relation a) r ans" for ans
    using that single unfolding answered_def by (metis fst_conv)
  have "wp (decide d c a r args ctx) (\<lambda>dn _. (d_outcome dn, d_reason dn)
      = spec_decide (dc_policy d) c a r (args_or_empty args) (context_or_none ctx) (Inr b)) (\<lambda>x _. sink_raised d x) w"
  proof (rule wp_decide [OF valid])
    fix ans dn assume ans: "scope_covers (ch_scope c) (Capability (act_kind a) r) \<Longrightarrow> answered (dc_engine d) (ch_subject c) (act_relation a) r ans"
      and "(d_outcome dn, d_reason dn) = spec_decide (dc_policy d) c a r (args_or_empty args) (context_or_none ctx) ans"
    then show "(d_outcome dn, d_reason dn) = spec_decide (dc_policy d) c a r (args_or_empty args) (context_or_none ctx) (Inr b)"
      using asked by (cases "scope_covers (ch_scope c) (Capability (act_kind a) r)") (auto simp: spec_decide_eq)
  qed
  then show ?thesis using run by (simp add: wp_def)
qed

lemma each_ok_ALLOW:
  "each_ok d c a args ctx r (ALLOW, reason) \<Longrightarrow> scope_covers (ch_scope c) (Capability (act_kind a) r)
    \<and> each_answered (dc_engine d) (ch_subject c) (act_relation a) r (Inr True) \<and> fst (spec_policy (dc_policy d) c a r args ctx) = ALLOW"
  by (auto simp: each_ok_def spec_decide_def split: if_splits sum.splits bool.splits) (metis fst_conv)

lemma decide_each_grounds:
  assumes "decide_each d c a targets audit_each args ctx w = (Inr dns, w')" "list_all valid_pattern targets"
  shows "list_all2 (\<lambda>r dn. d_resource dn = r
    \<and> each_ok d c a (args_or_empty args) (context_or_none ctx) r (d_outcome dn, d_reason dn)) targets dns"
proof -
  have "valid_ref (ch_subject c) ''user''"
    using assms(1) by (auto simp: decide_each_def bindE_Inr liftE_def validate_ref_def split: if_splits)
  from wpD(1) [OF wp_decide_each [OF assms(2) this] assms(1)] show ?thesis by (rule list_all2_mono) simp
qed

section \<open>Properties\<close>

lemma evaluate_ALLOW:
  assumes "evaluate d c a r args ctx w = (Inr (ALLOW, reason, ms), w')" "valid_pattern r"
  shows "scope_covers (ch_scope c) (Capability (act_kind a) r)
    \<and> v_outcome (policy_verdict (dc_policy d) c a r args ctx) = ALLOW
    \<and> (\<exists>w1. eng_check (dc_engine d) (ch_subject c) (act_relation a) r
          (w\<lparr>w_perf_at := Suc (w_perf_at w)\<rparr>) = (Inr True, w1) \<and> w' = w1\<lparr>w_perf_at := Suc (w_perf_at w1)\<rparr>)"
proof -
  obtain ans w1 where ans: "eng_check (dc_engine d) (ch_subject c) (act_relation a) r
      (w\<lparr>w_perf_at := Suc (w_perf_at w)\<rparr>) = (ans, w1)" by fastforce
  show ?thesis using assms ans
    by (cases ans) (auto simp: evaluate_def bindE_def attemptE_def retE_def liftE_def perf_counter_def
        elapsed_ms_def stateE_def getsE_def Let_def split: if_splits)
qed

lemma decide_ALLOW_grounds:
  assumes "decide d c a r args ctx w = (Inr dn, w')" "d_outcome dn = ALLOW"
  shows "valid_ref (ch_subject c) ''user'' \<and> scope_covers (ch_scope c) (Capability (act_kind a) r)
    \<and> v_outcome (policy_verdict (dc_policy d) c a r (args_or_empty args) (context_or_none ctx)) = ALLOW
    \<and> (\<exists>w1 w2. eng_check (dc_engine d) (ch_subject c) (act_relation a) r
          (w\<lparr>w_perf_at := w_perf_at w + 2\<rparr>) = (Inr True, w1)
        \<and> dc_audit d (decision_event dn (hash_args args) (w_uuid w1 (Suc (w_uuid_at w1))))
            (w1\<lparr>w_perf_at := Suc (w_perf_at w1), w_clock_at := Suc (w_clock_at w1),
                w_uuid_at := w_uuid_at w1 + 2\<rparr>) = (Inr (), w2))"
proof -
  have valid: "valid_pattern r" "valid_ref (ch_subject c) ''user''"
    using assms(1)
    by (cases "valid_pattern r"; cases "valid_ref (ch_subject c) ''user''"; simp add: decide_invalid)+
  obtain ev w0 where ev: "evaluate d c a r (args_or_empty args) (context_or_none ctx)
        (w\<lparr>w_perf_at := Suc (w_perf_at w)\<rparr>) = (Inr ev, w0)"
      "bindE now (\<lambda>t. bindE (mk_decision ev c r a t []) (\<lambda>dn. bindE (journal_decision d dn args)
         (\<lambda>_. bindE (observe d dn (w_perf_at w)) (\<lambda>_. retE dn)))) w0 = (Inr dn, w')"
    using assms(1) valid by (auto simp: decide_def bindE_Inr liftE_def perf_counter_def stateE_def)
  from ev(2) obtain w2 where fin: "fst ev = d_outcome dn"
      "dc_audit d (decision_event dn (hash_args args) (w_uuid w0 (Suc (w_uuid_at w0))))
        (w0\<lparr>w_clock_at := Suc (w_clock_at w0), w_uuid_at := w_uuid_at w0 + 2\<rparr>) = (Inr (), w2)"
    by (auto simp: bindE_Inr mk_decision_def journal_decision_def event_from_decision_def retE_def now_def
        uuid4_hex_def stateE_def)
  have "evaluate d c a r (args_or_empty args) (context_or_none ctx) (w\<lparr>w_perf_at := Suc (w_perf_at w)\<rparr>)
      = (Inr (ALLOW, fst (snd ev), snd (snd ev)), w0)"
    using ev(1) fin(1) assms(2) by (metis prod.collapse)
  from evaluate_ALLOW [OF this valid(1)] obtain w1 where
      "scope_covers (ch_scope c) (Capability (act_kind a) r)"
      "v_outcome (policy_verdict (dc_policy d) c a r (args_or_empty args) (context_or_none ctx)) = ALLOW"
      "eng_check (dc_engine d) (ch_subject c) (act_relation a) r (w\<lparr>w_perf_at := w_perf_at w + 2\<rparr>) = (Inr True, w1)"
      "w0 = w1\<lparr>w_perf_at := Suc (w_perf_at w1)\<rparr>" by auto
  then show ?thesis using fin(2) valid(2) by auto
qed

text \<open>
  C1: an ALLOW is never produced without all of its grounds. When \<open>decide\<close> returns ALLOW, the
  subject is a user, the actor's scope covers the request, the engine was asked about this
  subject, relation and resource in this very call and answered true, the policy allowed, and
  after that the sink accepted the event of this decision.
\<close>

theorem allow_needs_every_ground:
  assumes "decide d c a r args ctx w = (Inr dn, w')" "d_outcome dn = ALLOW"
  shows "valid_ref (ch_subject c) ''user'' \<and> scope_covers (ch_scope c) (Capability (act_kind a) r)
    \<and> fst (spec_policy (dc_policy d) c a r (args_or_empty args) (context_or_none ctx)) = ALLOW
    \<and> (\<exists>w1 w2. eng_check (dc_engine d) (ch_subject c) (act_relation a) r
          (w\<lparr>w_perf_at := w_perf_at w + 2\<rparr>) = (Inr True, w1)
        \<and> dc_audit d (decision_event dn (hash_args args) (w_uuid w1 (Suc (w_uuid_at w1))))
            (w1\<lparr>w_perf_at := Suc (w_perf_at w1), w_clock_at := Suc (w_clock_at w1),
                w_uuid_at := w_uuid_at w1 + 2\<rparr>) = (Inr (), w2))"
  unfolding spec_policy_eq fst_conv using assms by (rule decide_ALLOW_grounds)

text \<open>
  C2: the decision path fails closed and never gets stuck. On a valid request \<open>decide\<close> either
  raises what the sink or the metrics raised, and then returns no decision, or returns a decision
  that the sink accepted and whose outcome and reason are the abstract decision for the engine's
  answer: an engine that raised, or answered false, or a policy that raised, gives DENY.
\<close>

theorem decide_fails_closed:
  assumes "valid_pattern r" "valid_ref (ch_subject c) ''user''"
  shows "wp (decide d c a r args ctx)
    (\<lambda>dn _. decision_journaled d dn args \<and> d_chain dn = c \<and> d_resource dn = r \<and>
      (\<exists>ans. (scope_covers (ch_scope c) (Capability (act_kind a) r) \<longrightarrow>
          answered (dc_engine d) (ch_subject c) (act_relation a) r ans) \<and>
        (d_outcome dn, d_reason dn) =
          spec_decide (dc_policy d) c a r (args_or_empty args) (context_or_none ctx) ans))
    (\<lambda>x _. sink_raised d x) w"
  by (rule wp_decide [OF assms]) blast+

text \<open>
  C32: a joint decision allows only what every single one would. When \<open>decide_all\<close> returns ALLOW on valid references, the scope of the
  chain covers every scope target, there is a resource or an explicit scope target, one batched answer of the engine said true for every
  resource, in full length, the policy allowed each of them, and the sink has accepted the event of the decision.
\<close>

theorem decide_all_allows_only_all:
  assumes "decide_all d c a rs scope_resources named args ctx w = (Inr dn, w')" "d_outcome dn = ALLOW"
    "list_all valid_pattern (rs @ (case scope_resources of Some ts \<Rightarrow> ts | None \<Rightarrow> rs))"
    "valid_ref (ch_subject c) ''user''"
  shows "(\<forall>t\<in>set (case scope_resources of Some ts \<Rightarrow> ts | None \<Rightarrow> rs).
        scope_covers (ch_scope c) (Capability (act_kind a) t))
    \<and> (rs = [] \<longrightarrow> scope_resources \<noteq> None)
    \<and> (rs \<noteq> [] \<longrightarrow> batch_answered (dc_engine d) (ch_subject c) (act_relation a) rs (Inr (replicate (length rs) True)))
    \<and> (\<forall>r\<in>set rs. v_outcome (policy_verdict (dc_policy d) c a r (args_or_empty args) (context_or_none ctx)) = ALLOW)
    \<and> decision_journaled d dn args"
  by (rule decide_all_grounds [OF assms])

text \<open>
  C5: batching agrees with deciding one by one. The engine answers every single question, always the same, and its
  batched answer is the list of the single ones or an exception. Then \<open>decide_each\<close> returns one decision per resource, in order, and each has the outcome and the reason
  of what any run of \<open>decide\<close> returns for that resource, however the resources fall into batches of fifty; the one exception is a
  resource in a batch whose call raised: it is denied with the reason of that exception, never allowed.
\<close>

theorem decide_each_agrees_with_decide:
  fixes w :: "('x, 'm) world_scheme"
  assumes single: "\<And>r w. fst (eng_check (dc_engine d) (ch_subject c) (act_relation a) r w) = Inr (f r)"
    and batched: "\<And>rs w. fst (eng_batch_check (dc_engine d) (ch_subject c) (map (\<lambda>r. (act_relation a, r)) rs) w)
      \<in> insert (Inr (map f rs)) (range Inl)"
    and valid: "list_all valid_pattern targets" "valid_ref (ch_subject c) ''user''"
  shows "wp (decide_each d c a targets audit_each args ctx)
    (\<lambda>dns _. list_all2 (\<lambda>r dn. d_resource dn = r \<and>
      ((\<forall>(v :: ('x, 'm) world_scheme) dn1 v'. decide d c a r args ctx v = (Inr dn1, v') \<longrightarrow>
          d_outcome dn = d_outcome dn1 \<and> d_reason dn = d_reason dn1) \<or>
       (\<exists>rs x. r \<in> set rs \<and> length rs \<le> BATCH_LIMIT \<and> batch_answered (dc_engine d) (ch_subject c) (act_relation a) rs (Inl x) \<and>
          d_outcome dn = DENY \<and> d_reason dn = failure_reason ''engine_error'' x))) targets dns)
    (\<lambda>x _. sink_raised d x) w"
proof (rule wp_mono [OF wp_decide_each [OF valid]])
  fix dns :: "decision list" and w' :: "('x, 'm) world_scheme"
  assume "list_all2 (\<lambda>r dn. d_resource dn = r \<and> d_chain dn = c \<and> d_action dn = a
        \<and> each_ok d c a (args_or_empty args) (context_or_none ctx) r (d_outcome dn, d_reason dn)
        \<and> (audit_each \<longrightarrow> decision_journaled d dn args)) targets dns"
  then show "list_all2 (\<lambda>r dn. d_resource dn = r \<and>
      ((\<forall>(v :: ('x, 'm) world_scheme) dn1 v'. decide d c a r args ctx v = (Inr dn1, v') \<longrightarrow>
          d_outcome dn = d_outcome dn1 \<and> d_reason dn = d_reason dn1) \<or>
       (\<exists>rs x. r \<in> set rs \<and> length rs \<le> BATCH_LIMIT \<and> batch_answered (dc_engine d) (ch_subject c) (act_relation a) rs (Inl x) \<and>
          d_outcome dn = DENY \<and> d_reason dn = failure_reason ''engine_error'' x))) targets dns"
  proof (rule list_all2_mono)
    fix r dn
    assume dn: "d_resource dn = r \<and> d_chain dn = c \<and> d_action dn = a
        \<and> each_ok d c a (args_or_empty args) (context_or_none ctx) r (d_outcome dn, d_reason dn)
        \<and> (audit_each \<longrightarrow> decision_journaled d dn args)"
    then have "each_ok d c a (args_or_empty args) (context_or_none ctx) r (d_outcome dn, d_reason dn)" by blast
    from each_ok_batched [OF batched this] show "d_resource dn = r \<and>
      ((\<forall>(v :: ('x, 'm) world_scheme) dn1 v'. decide d c a r args ctx v = (Inr dn1, v') \<longrightarrow>
          d_outcome dn = d_outcome dn1 \<and> d_reason dn = d_reason dn1) \<or>
       (\<exists>rs x. r \<in> set rs \<and> length rs \<le> BATCH_LIMIT \<and> batch_answered (dc_engine d) (ch_subject c) (act_relation a) rs (Inl x) \<and>
          d_outcome dn = DENY \<and> d_reason dn = failure_reason ''engine_error'' x))"
    proof (elim disjE)
      assume spec: "(d_outcome dn, d_reason dn) = spec_decide (dc_policy d) c a r (args_or_empty args) (context_or_none ctx) (Inr (f r))"
      have "d_outcome dn = d_outcome dn1 \<and> d_reason dn = d_reason dn1"
        if "decide d c a r args ctx v = (Inr dn1, v')" for dn1 and v v' :: "('x, 'm) world_scheme"
        using decide_functional [OF single that] spec by (metis prod.inject)
      then show ?thesis using dn by blast
    qed (use dn in \<open>auto simp: prod_eq_iff\<close>)
  qed
qed

text \<open>
  No batched question of \<open>decide_each\<close> ever exceeds the fifty checks OpenFGA accepts: two
  engines that agree on batches of at most fifty items cannot be told apart by it.
\<close>

theorem decide_each_batches_bounded:
  assumes "\<And>items. length items \<le> 50 \<Longrightarrow>
      eng_batch_check (dc_engine d) (ch_subject c) items = eng_batch_check e (ch_subject c) items"
  shows "decide_each d c a targets audit_each args ctx = decide_each (d\<lparr>dc_engine := e\<rparr>) c a targets audit_each args ctx"
proof -
  have chunk: "decide_chunk d c a xs x targets chunk = decide_chunk (d\<lparr>dc_engine := e\<rparr>) c a xs x targets chunk"
    if "length chunk \<le> 50" for xs x chunk
    using assms [of "map (\<lambda>r. (act_relation a, r)) (map ((!) targets) chunk)"] that
    by (simp add: decide_chunk_def batch_def)
  have cong: "mapE g xs = mapE h xs" if "\<And>x. x \<in> set xs \<Longrightarrow> g x = h x" for g h xs
    using that by (induction xs) simp_all
  have m: "mapE (decide_chunk d c a xs x targets) (chunks BATCH_LIMIT is)
      = mapE (decide_chunk (d\<lparr>dc_engine := e\<rparr>) c a xs x targets) (chunks BATCH_LIMIT is)" for xs x "is"
    by (rule cong, rule chunk) (use chunks_bounds in \<open>force simp: BATCH_LIMIT_def\<close>)
  have j: "journal_decision (d\<lparr>dc_engine := e\<rparr>) = journal_decision d"
    and o: "observe (d\<lparr>dc_engine := e\<rparr>) = observe d"
    by (simp_all add: fun_eq_iff journal_decision_def observe_def)
  show ?thesis unfolding decide_each_def j o m ..
qed

section \<open>Witnesses\<close>

definition world0 :: "unit world" where
  "world0 = \<lparr>w_clock = (\<lambda>n. int n), w_clock_at = 0, w_uuid = show_nat, w_uuid_at = 0,
     w_perf = (\<lambda>_ _. float_zero), w_perf_at = 0, w_db = (\<lambda>_. DbOk), w_db_at = 0, w_ext = ()\<rparr>"

text \<open>An engine that relates every user to every document but one, and a sink that accepts.\<close>

definition sample_engine :: "'w authz_engine" where
  "sample_engine = \<lparr>eng_check = (\<lambda>u rel r w. (Inr (r \<noteq> ''document:secret''), w)),
     eng_batch_check = (\<lambda>u items w. (Inr (map (\<lambda>(rel, r). r \<noteq> ''document:secret'') items), w)),
     eng_list_objects = (\<lambda>u rel t w. (Inr [], w))\<rparr>"

definition sample_decider :: "unit world decider" where
  "sample_decider = \<lparr>dc_engine = sample_engine, dc_audit = (\<lambda>e w. (Inr (), w)), dc_policy = None, dc_metrics = None\<rparr>"

lemma sample_simps:
  "dc_engine sample_decider = sample_engine" "dc_policy sample_decider = None"
  "act_kind action_read = READ" "act_relation action_read = ''viewer''" "ch_subject sample_chain = ''user:alice''"
  by (simp_all add: sample_decider_def action_read_def sample_chain_def)

lemma sample_decider_total: "\<not> sink_raised sample_decider x"
  by (simp add: sink_raised_def sample_decider_def)

lemma sample_valid:
  "valid_pattern ''document:a''" "valid_pattern ''document:secret''" "valid_ref (ch_subject sample_chain) ''user''"
  by code_simp+

lemma sample_covers: "scope_covers (ch_scope sample_chain) (Capability READ ''document:a'')"
    "scope_covers (ch_scope sample_chain) (Capability READ ''document:secret'')"
  by code_simp+

theorem decide_fails_closed_witness:
  "\<exists>dn w'. decide sample_decider sample_chain action_read ''document:secret'' None None world0 = (Inr dn, w')
    \<and> d_outcome dn = DENY \<and> d_reason dn = ''not_related'' \<and> decision_journaled sample_decider dn None"
proof -
  obtain r w' where run: "decide sample_decider sample_chain action_read ''document:secret'' None None world0 = (r, w')"
    by fastforce
  show ?thesis
    using decide_fails_closed [OF sample_valid(2,3), of sample_decider action_read None None world0] run sample_covers(2)
    by (cases r) (auto simp: wp_def sample_decider_total answered_def sample_simps sample_engine_def
        spec_decide_eq)
qed

lemma sample_allow:
  "\<exists>dn w'. decide sample_decider sample_chain action_read ''document:a'' None None world0 = (Inr dn, w') \<and> d_outcome dn = ALLOW"
proof -
  obtain r w' where run: "decide sample_decider sample_chain action_read ''document:a'' None None world0 = (r, w')"
    by fastforce
  have "wp (decide sample_decider sample_chain action_read ''document:a'' None None)
      (\<lambda>dn _. d_outcome dn = ALLOW) (\<lambda>x _. sink_raised sample_decider x) world0"
    by (rule wp_decide [OF sample_valid(1,3)])
       (use sample_covers(1) in \<open>auto simp: answered_def sample_simps sample_engine_def spec_decide_eq policy_verdict_def\<close>)
  then show ?thesis using run by (cases r) (auto simp: wp_def sample_decider_total)
qed

theorem allow_needs_every_ground_witness:
  "\<exists>w1. eng_check (dc_engine sample_decider) ''user:alice'' ''viewer'' ''document:a''
      (world0\<lparr>w_perf_at := w_perf_at world0 + 2\<rparr>) = (Inr True, w1)"
  using sample_allow allow_needs_every_ground [of sample_decider sample_chain action_read "''document:a''" None None world0]
  by (auto simp: sample_simps)

theorem decide_all_allows_only_all_witness:
  "\<exists>dn w'. decide_all sample_decider sample_chain action_read [''document:a''] None None None None world0 = (Inr dn, w')
    \<and> batch_answered (sample_engine :: unit world authz_engine) ''user:alice'' ''viewer'' [''document:a''] (Inr [True])"
proof -
  let ?run = "decide_all sample_decider sample_chain action_read [''document:a''] None None None"
  have valid: "list_all valid_pattern ([''document:a''] @ (case None of Some ts \<Rightarrow> ts | None \<Rightarrow> [''document:a'']))"
    using sample_valid(1) by simp
  have "wp (?run None) (\<lambda>dn _. d_outcome dn = ALLOW) (\<lambda>x _. sink_raised sample_decider x) world0"
    by (rule wp_decide_all [OF valid sample_valid(3)])
       (use sample_covers(1) in \<open>auto simp: batch_answered_def sample_simps sample_engine_def spec_all_def
          policy_verdict_def Let_def\<close>)
  then obtain dn w' where run: "?run None world0 = (Inr dn, w')" "d_outcome dn = ALLOW"
    by (cases "?run None world0") (auto simp: wp_def sample_decider_total split: sum.splits)
  from decide_all_allows_only_all [OF this valid sample_valid(3)] show ?thesis
    using run(1) by (auto simp: sample_simps)
qed

theorem decide_each_agrees_with_decide_witness:
  "\<exists>dn w'. decide sample_decider sample_chain action_read ''document:a'' None None world0 = (Inr dn, w') \<and> d_outcome dn = ALLOW \<and>
    wp (decide_each sample_decider sample_chain action_read [''document:a'', ''document:secret''] True None None)
      (\<lambda>dns _. length dns = 2 \<and> d_outcome (dns ! 0) = ALLOW \<and> d_reason (dns ! 0) = d_reason dn) (\<lambda>x _. False) world0"
proof -
  obtain dn w' where run: "decide sample_decider sample_chain action_read ''document:a'' None None world0 = (Inr dn, w')" "d_outcome dn = ALLOW"
    using sample_allow by (elim exE conjE)
  have never: "\<not> batch_answered (dc_engine sample_decider) (ch_subject sample_chain) (act_relation action_read) rs (Inl x)" for rs x
    by (simp add: batch_answered_def sample_decider_def sample_engine_def)
  have "list_all valid_pattern [''document:a'', ''document:secret'']" using sample_valid by simp
  note agrees = decide_each_agrees_with_decide [where d = sample_decider and f = "\<lambda>r. r \<noteq> ''document:secret''", OF _ _ this sample_valid(3)]
  have "wp (decide_each sample_decider sample_chain action_read [''document:a'', ''document:secret''] True None None)
      (\<lambda>dns _. length dns = 2 \<and> d_outcome (dns ! 0) = ALLOW \<and> d_reason (dns ! 0) = d_reason dn) (\<lambda>x _. False) world0"
  proof (rule wp_mono [OF agrees [where a = action_read]], goal_cases)
    case (3 dns w1)
    then obtain dn1 dn2 where dns: "dns = [dn1, dn2]"
      and one: "\<forall>v dn v'. decide sample_decider sample_chain action_read ''document:a'' None None v = (Inr dn, v') \<longrightarrow>
        d_outcome dn1 = d_outcome dn \<and> d_reason dn1 = d_reason dn"
      using never by (auto simp: list_all2_Cons1)
    then show ?case using run one [rule_format, OF run(1)] by simp
  qed (auto simp: sample_simps sample_engine_def sample_decider_total comp_def)
  then show ?thesis using run by (intro exI conjI)
qed

theorem decide_each_batches_bounded_witness:
  "decide_each sample_decider sample_chain action_read [''document:a''] True None None
    = decide_each (sample_decider\<lparr>dc_engine := sample_engine\<lparr>eng_batch_check := (\<lambda>u items.
        if length items \<le> 50 then eng_batch_check sample_engine u items else raiseE (hoc EngineUnavailable))\<rparr>\<rparr>)
        sample_chain action_read [''document:a''] True None None"
  by (rule decide_each_batches_bounded) (simp add: sample_decider_def)

end
