(* ===== verification/Engine_OpenFga.thy ===== *)
theory Engine_OpenFga
  imports Core_Decider
begin

text \<open>
  The OpenFGA adapter (\<open>engines/openfga/engine.py\<close>).

  The SDK client is third-party code: \<open>fga_client\<close> is the record of the calls the adapter makes,
  each of which may answer, raise or change the world in any way. A response is modelled by the
  attributes the adapter reads. The freshness guard is a call that raises when a connector is
  stale. \<open>fga_engine\<close> and \<open>fga_tuple_store\<close> assemble the adapter's methods into the two protocols
  it implements.
\<close>

section \<open>The client\<close>

text \<open>One result of a batched check: the correlation id read as an int (\<open>None\<close> when it is not
  one), whether an error is attached, and \<open>allowed\<close>.\<close>

record batch_item =
  bi_index :: "int option"
  bi_error :: bool
  bi_allowed :: bool

record 'w fga_client =
  fc_check :: "string \<Rightarrow> string \<Rightarrow> string \<Rightarrow> ('w, exn, bool) eff"
  fc_batch_check :: "(string \<times> string \<times> string \<times> nat) list \<Rightarrow> ('w, exn, batch_item list) eff"
  fc_list_objects :: "string \<Rightarrow> string \<Rightarrow> string \<Rightarrow> ('w, exn, string list) eff"
  fc_write :: "tuple list \<Rightarrow> ('w, exn, unit) eff"
  fc_delete :: "tuple list \<Rightarrow> ('w, exn, unit) eff"
  fc_read :: "string \<Rightarrow> string \<Rightarrow> string option \<Rightarrow> ('w, exn, tuple list \<times> string option) eff"

record 'w fga =
  fga_client :: "'w fga_client"
  fga_fresh :: "('w, exn, unit) eff"
  fga_retries :: nat

section \<open>The adapter\<close>

text \<open>\<open>_call\<close>: the first try and \<open>retries\<close> more; what survives them is \<open>EngineUnavailable\<close>.\<close>

primrec fga_call :: "nat \<Rightarrow> ('w, exn, 'a) eff \<Rightarrow> ('w, exn, 'a) eff" where
  "fga_call 0 operation = catchE operation (\<lambda>_. raiseE (hoc EngineUnavailable))"
| "fga_call (Suc n) operation = catchE operation (\<lambda>_. fga_call n operation)"

definition fga_guard :: "'w fga \<Rightarrow> string \<Rightarrow> string \<Rightarrow> ('w, exn, unit) eff" where
  "fga_guard f subj obj =
     bindE (liftE (validate_ref subj ''user'')) (\<lambda>_.
     bindE (liftE (validate_resource_pattern obj)) (\<lambda>_.
     fga_fresh f))"

definition fga_check :: "'w fga \<Rightarrow> string \<Rightarrow> string \<Rightarrow> string \<Rightarrow> ('w, exn, bool) eff" where
  "fga_check f subj rel obj =
     bindE (fga_guard f subj obj) (\<lambda>_.
     fga_call (fga_retries f) (fc_check (fga_client f) subj rel obj))"

text \<open>The results of a batch are collected by correlation id; what is missing stays False.\<close>

fun collect_results :: "batch_item list \<Rightarrow> bool list \<Rightarrow> exn + bool list" where
  "collect_results [] results = Inr results"
| "collect_results (s # ss) results = (case bi_index s of
     None \<Rightarrow> Inl (Other ''ValueError'')
   | Some i \<Rightarrow>
       if bi_error s then collect_results ss results
       else if 0 \<le> i \<and> i < int (length results)
       then collect_results ss (results[nat i := bi_allowed s])
       else collect_results ss results)"

definition fga_batch_check :: "'w fga \<Rightarrow> string \<Rightarrow> (string \<times> string) list \<Rightarrow> ('w, exn, bool list) eff" where
  "fga_batch_check f subj items =
     (if items = [] then retE []
      else bindE (forE items (\<lambda>(rel, obj). fga_guard f subj obj)) (\<lambda>_.
      bindE (fga_call (fga_retries f) (fc_batch_check (fga_client f)
          (map (\<lambda>(i, (rel, obj)). (subj, rel, obj, i)) (enumerate 0 items)))) (\<lambda>response.
      liftE (collect_results response (replicate (length items) False)))))"

definition fga_list_objects :: "'w fga \<Rightarrow> string \<Rightarrow> string \<Rightarrow> string \<Rightarrow> ('w, exn, string list) eff" where
  "fga_list_objects f subj rel t =
     bindE (fga_guard f subj (t @ '':*'')) (\<lambda>_.
     fga_call (fga_retries f) (fc_list_objects (fga_client f) subj rel t))"

text \<open>\<open>str.isidentifier\<close> on code points below 256.\<close>

definition ident_start :: "char \<Rightarrow> bool" where
  "ident_start c = (let n = (of_char c :: nat) in
     (65 \<le> n \<and> n \<le> 90) \<or> (97 \<le> n \<and> n \<le> 122) \<or> n = 95 \<or> n = 170 \<or> n = 181 \<or> n = 186
     \<or> (192 \<le> n \<and> n \<noteq> 215 \<and> n \<noteq> 247))"

definition isidentifier :: "string \<Rightarrow> bool" where
  "isidentifier s = (case s of [] \<Rightarrow> False
     | c # cs \<Rightarrow> ident_start c \<and> list_all (\<lambda>d. ident_start d \<or> is_digit d \<or> of_char d = (183 :: nat)) cs)"

definition validate_relation :: "string \<Rightarrow> exn + unit" where
  "validate_relation rel = (if isidentifier rel then Inr () else Inl (hoc InvariantViolation))"

text \<open>\<open>user.partition("#")\<close>: the userset may be empty.\<close>

definition validate_fga_tuple :: "tuple \<Rightarrow> exn + tuple" where
  "validate_fga_tuple t = (case t of (user, rel, obj) \<Rightarrow>
     (case partition_char (CHR ''#'') user of (base, _, userset) \<Rightarrow>
      case validate_resource_pattern base of Inl e \<Rightarrow> Inl e | Inr _ \<Rightarrow>
      case (if userset \<noteq> [] then validate_relation userset else Inr ()) of Inl e \<Rightarrow> Inl e | Inr _ \<Rightarrow>
      case validate_relation rel of Inl e \<Rightarrow> Inl e | Inr _ \<Rightarrow>
      case validate_resource_pattern obj of Inl e \<Rightarrow> Inl e | Inr _ \<Rightarrow> Inr t))"

definition fga_write_tuples :: "'w fga \<Rightarrow> tuple list \<Rightarrow> ('w, exn, unit) eff" where
  "fga_write_tuples f ts =
     bindE (mapE (\<lambda>t. liftE (validate_fga_tuple t)) ts) (\<lambda>body.
     if body = [] then retE () else fga_call (fga_retries f) (fc_write (fga_client f) body))"

definition fga_delete_tuples :: "'w fga \<Rightarrow> tuple list \<Rightarrow> ('w, exn, unit) eff" where
  "fga_delete_tuples f ts =
     bindE (mapE (\<lambda>t. liftE (validate_fga_tuple t)) ts) (\<lambda>body.
     if body = [] then retE () else fga_call (fga_retries f) (fc_delete (fga_client f) body))"

text \<open>
  The paging loop of \<open>read_tuples\<close>: an empty continuation token ends it. The fuel bounds the
  pages; \<open>None\<close> is a run that needs more. \<open>read_pages_mono\<close> shows that more fuel never changes a
  result.
\<close>

primrec read_pages ::
    "nat \<Rightarrow> 'w fga_client \<Rightarrow> string \<Rightarrow> string \<Rightarrow> string option \<Rightarrow> ('w, exn, tuple list option) eff" where
  "read_pages 0 cl obj rel cont = retE None"
| "read_pages (Suc n) cl obj rel cont =
     bindE (fc_read cl obj rel cont) (\<lambda>(page, next_token).
       if next_token = None \<or> next_token = Some [] then retE (Some page)
       else bindE (read_pages n cl obj rel next_token) (\<lambda>rest. retE (map_option (\<lambda>ts. page @ ts) rest)))"

definition fga_read_tuples :: "nat \<Rightarrow> 'w fga \<Rightarrow> string \<Rightarrow> string \<Rightarrow> ('w, exn, tuple list option) eff" where
  "fga_read_tuples fuel f obj rel =
     bindE (liftE (validate_resource_pattern obj)) (\<lambda>_.
     bindE (liftE (validate_relation rel)) (\<lambda>_.
     catchE (read_pages fuel (fga_client f) obj rel None) (\<lambda>_. raiseE (hoc EngineUnavailable))))"

definition fga_engine :: "'w fga \<Rightarrow> 'w authz_engine" where
  "fga_engine f = \<lparr>eng_check = fga_check f, eng_batch_check = fga_batch_check f,
     eng_list_objects = fga_list_objects f\<rparr>"

text \<open>The store as its callers see it; a read that needs more than \<open>fuel\<close> pages has no answer in
  the model.\<close>

definition fga_tuple_store :: "nat \<Rightarrow> 'w fga \<Rightarrow> 'w tuple_store" where
  "fga_tuple_store fuel f = \<lparr>ts_write_tuples = fga_write_tuples f, ts_delete_tuples = fga_delete_tuples f,
     ts_read_tuples = (\<lambda>obj rel. bindE (fga_read_tuples fuel f obj rel) (\<lambda>r. case r of
       Some ts \<Rightarrow> retE ts | None \<Rightarrow> raiseE (Other ''still paging'')))\<rparr>"

section \<open>Lemmas\<close>

lemma fga_call_Suc:
  "fga_call (Suc n) operation w =
    (case operation w of (Inl e, w1) \<Rightarrow> fga_call n operation w1 | (Inr x, w1) \<Rightarrow> (Inr x, w1))"
  by (simp add: catchE_def)

lemma fga_call_0:
  "fga_call 0 operation w =
    (case operation w of (Inl e, w1) \<Rightarrow> (Inl (hoc EngineUnavailable), w1) | (Inr x, w1) \<Rightarrow> (Inr x, w1))"
  by (simp add: catchE_def raiseE_def)

lemma fga_call_raises: "fga_call n operation w = (Inl e, w') \<Longrightarrow> e = hoc EngineUnavailable"
proof (induction n arbitrary: w)
  case 0
  then show ?case by (cases "operation w"; cases "fst (operation w)") (auto simp: fga_call_0 simp del: fga_call.simps)
next
  case (Suc n)
  then show ?case by (cases "operation w"; cases "fst (operation w)") (auto simp: fga_call_Suc simp del: fga_call.simps)
qed

text \<open>Retrying never invents an answer: the answer is one the client gave.\<close>

lemma fga_call_answers:
  assumes "fga_call n operation w = (Inr x, w')"
  shows "\<exists>w0. operation w0 = (Inr x, w')"
proof -
  have step: "operation w = (Inr x, w') \<or> (\<exists>w1. fga_call n operation w1 = (Inr x, w'))"
    if "fga_call (Suc n) operation w = (Inr x, w')" for n w
    using that unfolding fga_call_Suc by (simp split: prod.splits sum.splits) metis
  have base: "operation w = (Inr x, w')" if "fga_call 0 operation w = (Inr x, w')" for w
    using that unfolding fga_call_0 by (simp split: prod.splits sum.splits)
  show ?thesis using assms
  proof (induction n arbitrary: w)
    case 0
    then have "operation w = (Inr x, w')" by (rule base)
    then show ?case by (rule exI)
  next
    case (Suc n)
    from step [OF Suc.prems] show ?case
    proof
      assume "operation w = (Inr x, w')"
      then show ?thesis by (rule exI)
    next
      assume "\<exists>w1. fga_call n operation w1 = (Inr x, w')"
      then show ?thesis using Suc.IH by (elim exE)
    qed
  qed
qed

lemma fga_call_first: "operation w = (Inr x, w') \<Longrightarrow> fga_call n operation w = (Inr x, w')"
  by (cases n) (auto simp: catchE_def)

lemma read_pages_mono:
  "read_pages n cl obj rel cont w = (Inr (Some ts), w') \<Longrightarrow> n \<le> m \<Longrightarrow>
    read_pages m cl obj rel cont w = (Inr (Some ts), w')"
proof (induction n arbitrary: m cont w ts)
  case (Suc n)
  obtain k where m: "m = Suc k" "n \<le> k" using Suc.prems(2) by (cases m) auto
  obtain page tok w1 where page: "fc_read cl obj rel cont w = (Inr (page, tok), w1)"
    using Suc.prems(1) by (auto simp: bindE_Inr)
  show ?case
  proof (cases "tok = None \<or> tok = Some []")
    case True
    then show ?thesis using Suc.prems(1) page m(1) by (simp add: bindE_def)
  next
    case False
    then obtain us where us: "read_pages n cl obj rel tok w1 = (Inr (Some us), w')" "ts = page @ us"
      using Suc.prems(1) page by (auto simp: bindE_def retE_def split: prod.splits sum.splits)
    then show ?thesis using Suc.IH [OF us(1) m(2)] page m(1) False by (auto simp: bindE_def retE_def)
  qed
qed (simp add: retE_def)

lemma collect_results_length: "collect_results ss rs = Inr bs \<Longrightarrow> length bs = length rs"
proof (induction ss arbitrary: rs)
  case (Cons s ss)
  then show ?case by (cases "bi_index s") (fastforce split: if_splits)+
qed simp

text \<open>A True at a position was put there by a result for that position without an error.\<close>

lemma collect_results_True:
  assumes "collect_results ss rs = Inr bs" "i < length bs" "bs ! i"
  shows "rs ! i \<or> (\<exists>s\<in>set ss. bi_index s = Some (int i) \<and> \<not> bi_error s \<and> bi_allowed s)"
  using assms
proof (induction ss rs arbitrary: bs rule: collect_results.induct)
  case (2 s ss results)
  obtain j where j: "bi_index s = Some j" using 2(4) by (auto split: option.splits)
  show ?case
  proof (cases "\<not> bi_error s \<and> 0 \<le> j \<and> j < int (length results)")
    case True
    have rec: "collect_results ss (results[nat j := bi_allowed s]) = Inr bs" using 2(4) j True by simp
    have "results[nat j := bi_allowed s] ! i \<or>
        (\<exists>s\<in>set ss. bi_index s = Some (int i) \<and> \<not> bi_error s \<and> bi_allowed s)"
      using "2.IH"(2) [OF j _ _ rec] True 2(5,6) by auto
    then show ?thesis using j True by (cases "nat j = i") auto
  next
    case False
    then have rec: "collect_results ss results = Inr bs" using 2(4) j by (auto split: if_splits)
    show ?thesis using "2.IH"(1) [OF j _ rec] "2.IH"(3) [OF j _ _ rec] False 2(5,6) by auto
  qed
qed simp

lemma fga_guard_ok:
  "fga_guard f subj obj w = (Inr u, w') \<Longrightarrow>
    valid_ref subj ''user'' \<and> valid_pattern obj \<and> fga_fresh f w = (Inr u, w')"
  by (cases "valid_ref subj ''user''"; cases "valid_pattern obj")
     (simp_all add: fga_guard_def bindE_def liftE_def validate_resource_pattern_def)

lemma mapE_Inr_witness:
  "mapE g xs w = (Inr ys, w') \<Longrightarrow> x \<in> set xs \<Longrightarrow> \<exists>y w0 w1. g x w0 = (Inr y, w1)"
proof (induction xs arbitrary: w ys)
  case (Cons a xs)
  then obtain y w1 zs w2 where run: "g a w = (Inr y, w1)" "mapE g xs w1 = (Inr zs, w2)" "w2 = w'"
    by (auto simp: bindE_Inr retE_def)
  show ?case
  proof (cases "x = a")
    case True
    then show ?thesis using run(1) by blast
  next
    case False
    then show ?thesis using Cons.IH [of w1 zs] Cons.prems(2) run(2,3) by simp
  qed
qed simp

section \<open>Properties\<close>

text \<open>
  C9: the adapter never guesses. A True of \<open>batch_check\<close> at a position means that the subject is a
  user, that the freshness guard passed for that item, and that the client's response carried an
  \<open>allowed\<close> result, without an error, for that very position; and whatever the response holds,
  repeated, missing or out of range, there is exactly one answer per item. A False is the default.
\<close>

theorem fga_batch_never_guesses:
  assumes "fga_batch_check f subj items w = (Inr bs, w')"
  shows "length bs = length items \<and> (\<forall>i < length items. bs ! i \<longrightarrow>
    valid_ref subj ''user'' \<and> valid_pattern (snd (items ! i)) \<and>
    (\<exists>w0 w1. fga_fresh f w0 = (Inr (), w1)) \<and>
    (\<exists>w2 response s. fc_batch_check (fga_client f)
        (map (\<lambda>(i, (rel, obj)). (subj, rel, obj, i)) (enumerate 0 items)) w2 = (Inr response, w') \<and>
      s \<in> set response \<and> bi_index s = Some (int i) \<and> \<not> bi_error s \<and> bi_allowed s))"
proof (cases "items = []")
  case True
  then show ?thesis using assms by (simp add: fga_batch_check_def retE_def)
next
  case False
  let ?q = "fc_batch_check (fga_client f) (map (\<lambda>(i, (rel, obj)). (subj, rel, obj, i)) (enumerate 0 items))"
  obtain gs w1 w2 response where run:
      "mapE (\<lambda>(rel, obj). fga_guard f subj obj) items w = (Inr gs, w1)"
      "fga_call (fga_retries f) ?q w1 = (Inr response, w2)"
      "collect_results response (replicate (length items) False) = Inr bs" "w2 = w'"
    using assms False by (auto simp: fga_batch_check_def forE_def bindE_Inr retE_def liftE_def)
  obtain w3 where q: "?q w3 = (Inr response, w')" using fga_call_answers [OF run(2)] run(4) by blast
  have len: "length bs = length items" using collect_results_length [OF run(3)] by simp
  have "valid_ref subj ''user'' \<and> valid_pattern (snd (items ! i)) \<and> (\<exists>w0 w1. fga_fresh f w0 = (Inr (), w1))"
    if i: "i < length items" for i
  proof -
    obtain w4 w5 where "fga_guard f subj (snd (items ! i)) w4 = (Inr (), w5)"
      using mapE_Inr_witness [OF run(1), of "items ! i"] i by (auto simp: case_prod_unfold)
    then show ?thesis by (blast dest: fga_guard_ok)
  qed
  moreover have "\<exists>s\<in>set response. bi_index s = Some (int i) \<and> \<not> bi_error s \<and> bi_allowed s"
    if "i < length items" "bs ! i" for i
    using collect_results_True [OF run(3), of i] that len by simp
  ultimately show ?thesis using len q by blast
qed

text \<open>
  A single check allows only on the client's word and on fresh data, and a failure of the
  client is never an answer: \<open>check\<close> returns True only if the guard passed and the client said so,
  and every exception it raises is one of the guard's or \<open>EngineUnavailable\<close>, after at most
  \<open>retries + 1\<close> tries.
\<close>

theorem fga_check_never_guesses:
  "wp (fga_check f subj rel obj)
    (\<lambda>b w'. valid_ref subj ''user'' \<and> valid_pattern obj \<and> (\<exists>w1. fga_fresh f w = (Inr (), w1)) \<and>
      (\<exists>w2. fc_check (fga_client f) subj rel obj w2 = (Inr b, w')))
    (\<lambda>e w'. e = hoc EngineUnavailable \<or> fga_guard f subj obj w = (Inl e, w')) w"
proof (rule wpI)
  fix b w' assume "fga_check f subj rel obj w = (Inr b, w')"
  then obtain w1 where g: "fga_guard f subj obj w = (Inr (), w1)"
      and c: "fga_call (fga_retries f) (fc_check (fga_client f) subj rel obj) w1 = (Inr b, w')"
    by (auto simp: fga_check_def bindE_Inr)
  show "valid_ref subj ''user'' \<and> valid_pattern obj \<and> (\<exists>w1. fga_fresh f w = (Inr (), w1)) \<and>
      (\<exists>w2. fc_check (fga_client f) subj rel obj w2 = (Inr b, w'))"
    using fga_guard_ok [OF g] fga_call_answers [OF c] by blast
next
  fix e w' assume "fga_check f subj rel obj w = (Inl e, w')"
  then show "e = hoc EngineUnavailable \<or> fga_guard f subj obj w = (Inl e, w')"
    by (auto simp: fga_check_def bindE_def split: prod.splits sum.splits dest: fga_call_raises)
qed

definition sample_fga :: "unit world fga" where
  "sample_fga = \<lparr>fga_client = \<lparr>fc_check = (\<lambda>u rel obj w. (Inr True, w)),
       fc_batch_check = (\<lambda>checks w. (Inr [\<lparr>bi_index = Some 1, bi_error = False, bi_allowed = True\<rparr>,
          \<lparr>bi_index = Some 0, bi_error = True, bi_allowed = True\<rparr>], w)),
       fc_list_objects = (\<lambda>u rel t w. (Inr [], w)), fc_write = (\<lambda>ts w. (Inr (), w)),
       fc_delete = (\<lambda>ts w. (Inr (), w)), fc_read = (\<lambda>obj rel k w. (Inr ([], None), w))\<rparr>,
     fga_fresh = retE (), fga_retries = 1\<rparr>"

theorem fga_batch_never_guesses_witness:
  "fga_batch_check sample_fga ''user:alice'' [(''viewer'', ''document:a''), (''viewer'', ''document:b'')] world0
      = (Inr [False, True], world0)
    \<and> (\<exists>w2 response s. fc_batch_check (fga_client sample_fga)
        [(''user:alice'', ''viewer'', ''document:a'', 0), (''user:alice'', ''viewer'', ''document:b'', 1)] w2
          = (Inr response, world0) \<and> s \<in> set response \<and> bi_index s = Some 1 \<and> \<not> bi_error s \<and> bi_allowed s)"
proof -
  have "valid_ref ''user:alice'' ''user''" "valid_pattern ''document:a''" "valid_pattern ''document:b''"
    by code_simp+
  then have run: "fga_batch_check sample_fga ''user:alice'' [(''viewer'', ''document:a''), (''viewer'', ''document:b'')] world0
      = (Inr [False, True], world0)"
    by (simp add: fga_batch_check_def fga_guard_def forE_def bindE_def liftE_def retE_def catchE_def
        sample_fga_def numeral_2_eq_2)
  show ?thesis using run fga_batch_never_guesses [OF run] by (auto dest!: spec [of _ 1]) blast
qed

end
