(* ===== verification/Read_Connectors.thy ===== *)
theory Read_Connectors
  imports Audit_Journal Engine_OpenFga
begin

text \<open>
  The connector framework (\<open>read/connectors/base.py\<close>, \<open>engines/freshness.py\<close>).

  A connector's snapshot is an argument: the connectors themselves talk to their sources. The state
  stores keep, per connector, when it last synced and which tuples it last wrote; they are also the
  freshness guard. \<open>w_conn_rows\<close> is the table \<open>connector_state_v2\<close>, keyed by namespace and
  connector; the two dicts of the in-memory store and the dict of \<open>InMemoryConnectorState\<close> stand
  beside it. The locale \<open>connector_state\<close> is the contract of a state store, with \<open>base\<close> what it
  remembers of a connector; both stores interpret it and \<open>reconcile\<close> is proved against it.
\<close>

section \<open>Data\<close>

record document_meta =
  dm_id :: string
  dm_title :: string
  dm_path :: string
  dm_source :: "string option"

record snapshot =
  sn_connector :: string
  sn_tuples :: "tuple list"
  sn_documents :: "document_meta list"
  sn_taken_at :: datetime

record sync_report =
  sr_connector :: string
  sr_added :: nat
  sr_removed :: nat
  sr_documents :: nat
  sr_synced_at :: datetime

record conn_row =
  cn_synced_at :: "datetime option"
  cn_tuples :: string

record 'x conn_world = "'x audit_world" +
  w_conn_rows :: "((string \<times> string) \<times> conn_row) list"
  w_conn_mem_tuples :: "(string \<times> tuple set) list"
  w_conn_mem_synced :: "(string \<times> datetime option) list"
  w_conn_last_sync :: "(string \<times> datetime) list"

section \<open>Tuples\<close>

definition acl_principal :: "string \<Rightarrow> exn + string" where
  "acl_principal ref = (if startswith ref ''group:'' then
       (case validate_ref ref ''group'' of Inl e \<Rightarrow> Inl e | Inr _ \<Rightarrow> Inr (ref @ ''#member''))
     else (case validate_ref ref ''user'' of Inl e \<Rightarrow> Inl e | Inr _ \<Rightarrow> Inr ref))"

definition validate_tuple :: "tuple \<Rightarrow> exn + tuple" where
  "validate_tuple t = (case t of (user, rel, obj) \<Rightarrow>
     (case partition_char (CHR ''#'') user of (base, _, userset) \<Rightarrow>
      case validate_resource_pattern base of Inl e \<Rightarrow> Inl e | Inr _ \<Rightarrow>
      if userset \<noteq> [] \<and> \<not> isidentifier userset then Inl (hoc InvariantViolation)
      else if \<not> isidentifier rel then Inl (hoc InvariantViolation)
      else case validate_resource_pattern obj of Inl e \<Rightarrow> Inl e | Inr _ \<Rightarrow> Inr t))"

section \<open>The stores\<close>

text \<open>\<open>ConnectorStateStore\<close>\<close>

record 'w conn_store =
  cs_register :: "string \<Rightarrow> ('w, exn, unit) eff"
  cs_load_tuples :: "string \<Rightarrow> ('w, exn, tuple set option) eff"
  cs_save :: "string \<Rightarrow> tuple set \<Rightarrow> datetime \<Rightarrow> ('w, exn, unit) eff"
  cs_last_sync :: "string \<Rightarrow> ('w, exn, datetime option) eff"
  cs_assert_fresh :: "('w, exn, unit) eff"

text \<open>The loop of \<open>assert_fresh\<close>: a connector that never synced is stale.\<close>

fun all_fresh :: "datetime \<Rightarrow> timedelta \<Rightarrow> (string \<times> datetime option) list \<Rightarrow> exn option" where
  "all_fresh t max_age [] = None"
| "all_fresh t max_age ((c, s) # rest) = (case s of
     None \<Rightarrow> Some (hoc ConnectorStale)
   | Some last_sync \<Rightarrow> if t - last_sync > max_age then Some (hoc ConnectorStale) else all_fresh t max_age rest)"

definition raise_if :: "exn option \<Rightarrow> ('w, exn, unit) eff" where
  "raise_if e = (case e of None \<Rightarrow> retE () | Some x \<Rightarrow> raiseE x)"

subsection \<open>In memory\<close>

definition mem_conn_register :: "string \<Rightarrow> (('x, 'm) conn_world_scheme, exn, unit) eff" where
  "mem_conn_register c = modifyE (\<lambda>w. if map_of (w_conn_mem_synced w) c = None
     then w\<lparr>w_conn_mem_synced := w_conn_mem_synced w @ [(c, None)]\<rparr> else w)"

definition mem_conn_load :: "string \<Rightarrow> (('x, 'm) conn_world_scheme, exn, tuple set option) eff" where
  "mem_conn_load c = getsE (\<lambda>w. map_of (w_conn_mem_tuples w) c)"

definition mem_conn_save :: "string \<Rightarrow> tuple set \<Rightarrow> datetime \<Rightarrow> (('x, 'm) conn_world_scheme, exn, unit) eff" where
  "mem_conn_save c ts t = modifyE (\<lambda>w.
     w\<lparr>w_conn_mem_tuples := AList.update c ts (w_conn_mem_tuples w),
       w_conn_mem_synced := AList.update c (Some t) (w_conn_mem_synced w)\<rparr>)"

definition mem_conn_last_sync :: "string \<Rightarrow> (('x, 'm) conn_world_scheme, exn, datetime option) eff" where
  "mem_conn_last_sync c = getsE (\<lambda>w. case map_of (w_conn_mem_synced w) c of Some s \<Rightarrow> s | None \<Rightarrow> None)"

definition mem_conn_assert_fresh :: "timedelta \<Rightarrow> (('x, 'm) conn_world_scheme, exn, unit) eff" where
  "mem_conn_assert_fresh max_age = bindE now (\<lambda>t.
     bindE (getsE (\<lambda>w. w_conn_mem_synced w)) (\<lambda>rows. raise_if (all_fresh t max_age rows)))"

definition mem_conn_store :: "timedelta \<Rightarrow> ('x, 'm) conn_world_scheme conn_store" where
  "mem_conn_store max_age = \<lparr>cs_register = mem_conn_register, cs_load_tuples = mem_conn_load,
     cs_save = mem_conn_save, cs_last_sync = mem_conn_last_sync,
     cs_assert_fresh = mem_conn_assert_fresh max_age\<rparr>"

subsection \<open>PostgreSQL\<close>

definition pg_conn_register :: "string \<Rightarrow> string \<Rightarrow> (('x, 'm) conn_world_scheme, exn, unit) eff" where
  "pg_conn_register ns c = db_stmt ConnectorStateUnavailable (\<lambda>w. Some ((),
     if map_of (w_conn_rows w) (ns, c) = None
     then w\<lparr>w_conn_rows := w_conn_rows w @ [((ns, c), \<lparr>cn_synced_at = None, cn_tuples = ''[]''\<rparr>)]\<rparr> else w))"

text \<open>\<open>json.dumps(sorted(tuples))\<close> and its inverse.\<close>

definition tuples_json :: "tuple set \<Rightarrow> string" where
  "tuples_json ts = dumps (JArr (map (\<lambda>(u, r, obj). JArr [JStr u, JStr r, JStr obj]) (sorted_list_of_set ts)))"

definition tuple_of_json :: "pyconv \<Rightarrow> json \<Rightarrow> exn + tuple" where
  "tuple_of_json pc v = (case v of
     JArr [u, r, obj] \<Rightarrow> Inr (conv_str pc u, conv_str pc r, conv_str pc obj)
   | _ \<Rightarrow> Inl (Other ''ValueError''))"

fun sequence_sum :: "('e + 'a) list \<Rightarrow> 'e + 'a list" where
  "sequence_sum [] = Inr []"
| "sequence_sum (x # xs) = (case x of Inl e \<Rightarrow> Inl e | Inr y \<Rightarrow>
     (case sequence_sum xs of Inl e \<Rightarrow> Inl e | Inr ys \<Rightarrow> Inr (y # ys)))"

definition tuples_of_json :: "pyconv \<Rightarrow> string \<Rightarrow> exn + tuple set" where
  "tuples_of_json pc text = (case loads text of
     Some (JArr vs) \<Rightarrow> (case sequence_sum (map (tuple_of_json pc) vs) of Inl e \<Rightarrow> Inl e | Inr ts \<Rightarrow> Inr (set ts))
   | _ \<Rightarrow> Inl (Other ''ValueError''))"

definition pg_conn_load :: "pyconv \<Rightarrow> string \<Rightarrow> string \<Rightarrow> (('x, 'm) conn_world_scheme, exn, tuple set option) eff" where
  "pg_conn_load pc ns c =
     bindE (db_query ConnectorStateUnavailable (\<lambda>w. map_of (w_conn_rows w) (ns, c))) (\<lambda>row.
     case row of
       None \<Rightarrow> retE None
     | Some r \<Rightarrow> if cn_synced_at r = None then retE None
         else bindE (liftE (tuples_of_json pc (cn_tuples r))) (\<lambda>ts. retE (Some ts)))"

definition pg_conn_save :: "string \<Rightarrow> string \<Rightarrow> tuple set \<Rightarrow> datetime \<Rightarrow> (('x, 'm) conn_world_scheme, exn, unit) eff" where
  "pg_conn_save ns c ts t = db_stmt ConnectorStateUnavailable (\<lambda>w. Some ((),
     w\<lparr>w_conn_rows := AList.update (ns, c) \<lparr>cn_synced_at = Some t, cn_tuples = tuples_json ts\<rparr> (w_conn_rows w)\<rparr>))"

definition pg_conn_last_sync :: "string \<Rightarrow> string \<Rightarrow> (('x, 'm) conn_world_scheme, exn, datetime option) eff" where
  "pg_conn_last_sync ns c =
     bindE (db_query ConnectorStateUnavailable (\<lambda>w. map_of (w_conn_rows w) (ns, c))) (\<lambda>row.
     retE (case row of None \<Rightarrow> None | Some r \<Rightarrow> cn_synced_at r))"

text \<open>An unreadable state store is a stale one.\<close>

definition pg_conn_assert_fresh :: "string \<Rightarrow> timedelta \<Rightarrow> (('x, 'm) conn_world_scheme, exn, unit) eff" where
  "pg_conn_assert_fresh ns max_age = bindE now (\<lambda>t.
     bindE (catchE (db_query ConnectorStateUnavailable
         (\<lambda>w. map (\<lambda>((n, c), r). (c, cn_synced_at r)) (filter (\<lambda>((n, c), r). n = ns) (w_conn_rows w))))
       (\<lambda>e. if catches ConnectorStateUnavailable e then raiseE (hoc ConnectorStale) else raiseE e)) (\<lambda>rows.
     raise_if (all_fresh t max_age rows)))"

definition pg_conn_store :: "pyconv \<Rightarrow> string \<Rightarrow> timedelta \<Rightarrow> ('x, 'm) conn_world_scheme conn_store" where
  "pg_conn_store pc ns max_age = \<lparr>cs_register = pg_conn_register ns, cs_load_tuples = pg_conn_load pc ns,
     cs_save = pg_conn_save ns, cs_last_sync = pg_conn_last_sync ns,
     cs_assert_fresh = pg_conn_assert_fresh ns max_age\<rparr>"

subsection \<open>\<open>InMemoryConnectorState\<close>\<close>

text \<open>\<open>datetime.min\<close>, in microseconds from 1970.\<close>

definition datetime_min :: datetime where
  "datetime_min = - 62135596800000000"

definition ims_register :: "string \<Rightarrow> (('x, 'm) conn_world_scheme, exn, unit) eff" where
  "ims_register c = bindE now (\<lambda>t. modifyE (\<lambda>w. if map_of (w_conn_last_sync w) c = None
     then w\<lparr>w_conn_last_sync := w_conn_last_sync w @ [(c, datetime_min)]\<rparr> else w))"

definition ims_mark_synced :: "string \<Rightarrow> datetime option \<Rightarrow> (('x, 'm) conn_world_scheme, exn, unit) eff" where
  "ims_mark_synced c moment = bindE (case moment of Some t \<Rightarrow> retE t | None \<Rightarrow> now) (\<lambda>t.
     modifyE (\<lambda>w. w\<lparr>w_conn_last_sync := AList.update c t (w_conn_last_sync w)\<rparr>))"

definition ims_assert_fresh :: "timedelta \<Rightarrow> (('x, 'm) conn_world_scheme, exn, unit) eff" where
  "ims_assert_fresh max_age = bindE now (\<lambda>t. bindE (getsE (\<lambda>w. w_conn_last_sync w)) (\<lambda>rows.
     raise_if (all_fresh t max_age (map (\<lambda>(c, s). (c, Some s)) rows))))"

section \<open>Reconciliation\<close>

definition sync_event :: "string \<Rightarrow> datetime \<Rightarrow> nat \<Rightarrow> nat \<Rightarrow> nat \<Rightarrow> string \<Rightarrow> audit_event" where
  "sync_event c t added removed docs eid =
     \<lparr>ev_kind = EvConnectorSynced, ev_timestamp = t, ev_subject = ''-'', ev_actor = ''connector:'' @ c,
      ev_delegation_depth = 0, ev_action = ''connector:sync'', ev_resource = ''source:'' @ c,
      ev_outcome = ''ALLOW'',
      ev_reason = ''added='' @ show_nat added @ '' removed='' @ show_nat removed @ '' documents='' @ show_nat docs,
      ev_engine_latency_ms = float_zero, ev_token_fingerprint = None, ev_args_hash = None,
      ev_decision_id = None, ev_event_id = eid\<rparr>"

definition reconcile ::
    "string \<Rightarrow> (('x, 'm) conn_world_scheme, exn, snapshot) eff \<Rightarrow> ('x, 'm) conn_world_scheme tuple_store
     \<Rightarrow> ('x, 'm) conn_world_scheme conn_store \<Rightarrow> ('x, 'm) conn_world_scheme audit_sink
     \<Rightarrow> (('x, 'm) conn_world_scheme, exn, sync_report) eff" where
  "reconcile name take_snapshot tuples state audit =
     bindE (cs_register state name) (\<lambda>_.
     bindE take_snapshot (\<lambda>snap.
     bindE (mapE (\<lambda>t. liftE (validate_tuple t)) (sn_tuples snap)) (\<lambda>valid.
     bindE (cs_load_tuples state name) (\<lambda>loaded.
     let desired = set valid; previous = (case loaded of Some ts \<Rightarrow> ts | None \<Rightarrow> {});
         to_add = sorted_list_of_set (desired - previous);
         to_remove = sorted_list_of_set (previous - desired) in
     bindE (forE (chunks 100 to_add) (ts_write_tuples tuples)) (\<lambda>_.
     bindE (forE (chunks 100 to_remove) (ts_delete_tuples tuples)) (\<lambda>_.
     bindE now (\<lambda>synced_at.
     bindE (cs_save state name desired synced_at) (\<lambda>_.
     bindE uuid4_hex (\<lambda>eid.
     bindE (audit (sync_event name synced_at (length to_add) (length to_remove) (length (sn_documents snap)) eid)) (\<lambda>_.
     retE \<lparr>sr_connector = name, sr_added = length to_add, sr_removed = length to_remove,
           sr_documents = length (sn_documents snap), sr_synced_at = synced_at\<rparr>))))))))))"

section \<open>Lemmas\<close>

lemma sequence_sum_Inr: "sequence_sum (map (\<lambda>x. Inr (f x)) xs) = Inr (map f xs)"
  by (induction xs) simp_all

lemma tuples_round_trip:
  assumes "conv_laws pc" "finite ts"
  shows "tuples_of_json pc (tuples_json ts) = Inr ts"
proof -
  let ?js = "map (\<lambda>(u, r, obj). JArr [JStr u, JStr r, JStr obj]) (sorted_list_of_set ts)"
  have "wf_json (JArr ?js)" by (auto simp: list_all_iff)
  then have "loads (tuples_json ts) = Some (JArr ?js)" by (simp add: tuples_json_def loads_dumps)
  moreover have "sequence_sum (map (tuple_of_json pc) ?js) = Inr (sorted_list_of_set ts)"
  proof -
    have eq: "map (tuple_of_json pc) ?js = map (\<lambda>x. Inr (id x)) (sorted_list_of_set ts)"
      using assms(1) by (auto simp: tuple_of_json_def conv_laws_def)
    show ?thesis unfolding eq sequence_sum_Inr by simp
  qed
  ultimately show ?thesis using assms(2) by (simp add: tuples_of_json_def)
qed

lemma all_fresh_None:
  "all_fresh t max_age rows = None \<longleftrightarrow> (\<forall>(c, s)\<in>set rows. \<exists>l. s = Some l \<and> t - l \<le> max_age)"
  by (induction t max_age rows rule: all_fresh.induct) (auto split: option.splits)

lemma all_fresh_Some: "all_fresh t max_age rows = Some e \<Longrightarrow> e = hoc ConnectorStale"
  by (induction t max_age rows rule: all_fresh.induct) (auto split: option.splits if_splits)

lemma validate_tuple_ok: "validate_tuple t = Inr t' \<Longrightarrow> t' = t"
  by (auto simp: validate_tuple_def split: prod.splits sum.splits if_splits)

section \<open>The contract of a state store\<close>

text \<open>
  \<open>base\<close> is what the store remembers: nothing, a registration without a sync, or the time and the
  tuples of the last sync. A call that raises leaves it as it was, or saved what it was asked to.
\<close>

type_synonym baseline = "string \<Rightarrow> (datetime \<times> tuple set) option option"

definition baseline_tuples :: "(datetime \<times> tuple set) option option \<Rightarrow> tuple set" where
  "baseline_tuples s = (case s of Some (Some (t, ts)) \<Rightarrow> ts | _ \<Rightarrow> {})"

text \<open>What a tuple store is expected to do, on the set of tuples \<open>tv\<close> it holds.\<close>

definition tuple_laws :: "'w tuple_store \<Rightarrow> ('w \<Rightarrow> tuple set) \<Rightarrow> bool" where
  "tuple_laws st tv \<longleftrightarrow> (\<forall>ts w u w'. ts_write_tuples st ts w = (Inr u, w') \<longrightarrow> tv w' = tv w \<union> set ts)
     \<and> (\<forall>ts w u w'. ts_delete_tuples st ts w = (Inr u, w') \<longrightarrow> tv w' = tv w - set ts)"

lemma forE_Cons_Inr:
  "forE (x # xs) f w = (Inr u, w') \<longleftrightarrow> (\<exists>w1. f x w = (Inr (), w1) \<and> forE xs f w1 = (Inr u, w'))"
  by (auto simp: forE_def bindE_Inr retE_def)

lemma forE_Nil [simp]: "forE [] f = retE ()"
  by (simp add: forE_def)

lemma forE_write:
  assumes "tuple_laws st tv" "forE cs (ts_write_tuples st) w = (Inr u, w')"
  shows "tv w' = tv w \<union> \<Union> (set ` set cs)"
  using assms(2)
proof (induction cs arbitrary: w)
  case (Cons c cs)
  then obtain w1 where "ts_write_tuples st c w = (Inr (), w1)" "tv w' = tv w1 \<union> \<Union> (set ` set cs)"
    by (auto simp: forE_Cons_Inr)
  then show ?case using assms(1) by (auto simp: tuple_laws_def)
qed (simp add: retE_def)

lemma forE_delete:
  assumes "tuple_laws st tv" "forE cs (ts_delete_tuples st) w = (Inr u, w')"
  shows "tv w' = tv w - \<Union> (set ` set cs)"
  using assms(2)
proof (induction cs arbitrary: w)
  case (Cons c cs)
  then obtain w1 where "ts_delete_tuples st c w = (Inr (), w1)" "tv w' = tv w1 - \<Union> (set ` set cs)"
    by (auto simp: forE_Cons_Inr)
  then show ?case using assms(1) by (auto simp: tuple_laws_def)
qed (simp add: retE_def)

lemma forE_keeps: "forE cs f w = (Inr u, w') \<Longrightarrow> (\<And>c. keeps v (f c)) \<Longrightarrow> v w' = v w"
  by (rule keepsD [OF keeps_forE])

lemma mapE_validate:
  "mapE (\<lambda>t. liftE (validate_tuple t)) ts w = (Inr valid, w') \<Longrightarrow> valid = ts \<and> w' = w"
  by (induction ts arbitrary: w valid) (auto simp: bindE_Inr retE_def liftE_def dest: validate_tuple_ok)

locale connector_state =
  fixes store :: "('x, 'm) conn_world_scheme conn_store"
    and base :: "('x, 'm) conn_world_scheme \<Rightarrow> baseline"
    and good :: "('x, 'm) conn_world_scheme \<Rightarrow> bool"
    and max_age :: timedelta
  assumes register_ok: "good w \<Longrightarrow> cs_register store c w = (Inr u, w') \<Longrightarrow> good w' \<and>
      base w' = (if base w c = None then (base w)(c := Some None) else base w)"
    and load_ok: "good w \<Longrightarrow> cs_load_tuples store c w = (Inr r, w') \<Longrightarrow> good w' \<and> base w' = base w \<and>
      r = (case base w c of Some (Some (t, ts)) \<Rightarrow> Some ts | _ \<Rightarrow> None)"
    and save_ok: "good w \<Longrightarrow> finite ts \<Longrightarrow> cs_save store c ts t w = (Inr u, w') \<Longrightarrow> good w' \<and>
      base w' = (base w)(c := Some (Some (t, ts)))"
    and fresh_ok: "good w \<Longrightarrow> cs_assert_fresh store w = (Inr u, w') \<Longrightarrow> base w' = base w \<and>
      (\<forall>c s. base w c = Some s \<longrightarrow> (\<exists>t ts. s = Some (t, ts) \<and> w_clock w (w_clock_at w) - t \<le> max_age))"
    and base_finite: "good w \<Longrightarrow> base w c = Some (Some (t, ts)) \<Longrightarrow> finite ts"
    and fresh_err: "cs_assert_fresh store w = (Inl e, w') \<Longrightarrow> e = hoc ConnectorStale"
begin

text \<open>A guard that passes vouches for every registered connector; otherwise it raises as stale.\<close>

lemma stale_connector_blocks:
  assumes "good w" "base w c = Some s"
    "s = None \<or> (\<exists>t ts. s = Some (t, ts) \<and> w_clock w (w_clock_at w) - t > max_age)"
  shows "\<exists>w'. cs_assert_fresh store w = (Inl (hoc ConnectorStale), w')"
proof -
  obtain r w' where run: "cs_assert_fresh store w = (r, w')" by fastforce
  show ?thesis
  proof (cases r)
    case (Inl e)
    then show ?thesis using run fresh_err by blast
  next
    case (Inr u)
    then show ?thesis using run fresh_ok [OF assms(1), of u w'] assms(2,3) by force
  qed
qed

lemma reconcile_run:
  assumes good: "good w"
    and run: "reconcile name take_snapshot tuples store audit w = (Inr report, w')"
    and laws: "tuple_laws tuples tv"
    and frame: "\<And>ts. keeps good (ts_write_tuples tuples ts)" "\<And>ts. keeps good (ts_delete_tuples tuples ts)"
      "\<And>e. keeps base (audit e)" "keeps base take_snapshot" "keeps good take_snapshot"
      "\<And>w. base (w\<lparr>w_clock_at := Suc (w_clock_at w)\<rparr>) = base w" "\<And>w. good (w\<lparr>w_clock_at := Suc (w_clock_at w)\<rparr>) = good w"
      "\<And>w. base (w\<lparr>w_uuid_at := Suc (w_uuid_at w)\<rparr>) = base w"
    and tv: "keeps tv take_snapshot" "\<And>c. keeps tv (cs_register store c)" "\<And>c. keeps tv (cs_load_tuples store c)"
      "\<And>c ts t. keeps tv (cs_save store c ts t)" "\<And>e. keeps tv (audit e)"
      "\<And>w. tv (w\<lparr>w_clock_at := Suc (w_clock_at w)\<rparr>) = tv w" "\<And>w. tv (w\<lparr>w_uuid_at := Suc (w_uuid_at w)\<rparr>) = tv w"
  shows "\<exists>snap w1 w2. take_snapshot w1 = (Inr snap, w2)
    \<and> base w' name = Some (Some (sr_synced_at report, set (sn_tuples snap)))
    \<and> (let previous = baseline_tuples (base w name); desired = set (sn_tuples snap)
       in tv w' = (tv w \<union> (desired - previous)) - (previous - desired))"
proof -
  obtain u1 w1 where reg: "cs_register store name w = (Inr u1, w1)"
    using run by (auto simp: reconcile_def bindE_Inr)
  obtain snap w2 where snap: "take_snapshot w1 = (Inr snap, w2)"
    using run reg by (auto simp: reconcile_def bindE_Inr)
  obtain valid where valid: "mapE (\<lambda>t. liftE (validate_tuple t)) (sn_tuples snap) w2 = (Inr valid, w2)"
      "valid = sn_tuples snap"
    using run reg snap mapE_validate by (fastforce simp: reconcile_def bindE_Inr)
  obtain loaded w3 where load: "cs_load_tuples store name w2 = (Inr loaded, w3)"
    using run reg snap valid(1) by (auto simp: reconcile_def bindE_Inr)
  let ?d = "set (sn_tuples snap)" and ?p = "case loaded of Some ts \<Rightarrow> ts | None \<Rightarrow> {}"
  obtain u4 w4 u5 w5 u6 w6 u7 w7 where steps:
      "forE (chunks 100 (sorted_list_of_set (?d - ?p))) (ts_write_tuples tuples) w3 = (Inr u4, w4)"
      "forE (chunks 100 (sorted_list_of_set (?p - ?d))) (ts_delete_tuples tuples) w4 = (Inr u5, w5)"
      "cs_save store name ?d (sr_synced_at report) (w5\<lparr>w_clock_at := Suc (w_clock_at w5)\<rparr>) = (Inr u6, w6)"
      "audit u7 (w6\<lparr>w_uuid_at := Suc (w_uuid_at w6)\<rparr>) = (Inr (), w7)" "w7 = w'"
    using run reg snap valid load
    by (auto simp: reconcile_def bindE_Inr Let_def now_def uuid4_hex_def stateE_def retE_def)
  have g1: "good w1" "base w1 name \<noteq> None" "baseline_tuples (base w1 name) = baseline_tuples (base w name)"
    using register_ok [OF good reg] by (auto simp: baseline_tuples_def split: if_splits)
  have g2: "good w2" "base w2 = base w1" using frame(4,5) snap g1(1) by (auto dest: keepsD)
  have g3: "good w3" "?p = baseline_tuples (base w name)" "finite ?p"
    using load_ok [OF g2(1) load] g1(3) g2(2) base_finite [OF g2(1), of name]
    by (auto simp: baseline_tuples_def split: option.splits)
  have g5: "good w5"
    using forE_keeps [OF steps(1) frame(1)] forE_keeps [OF steps(2) frame(2)] g3(1) by simp
  have save: "base w6 name = Some (Some (sr_synced_at report, ?d))"
    using save_ok [OF _ _ steps(3)] g5 frame(7) by simp
  have b: "base w' name = Some (Some (sr_synced_at report, ?d))"
    using save keepsD [OF frame(3) steps(4)] steps(5) frame(8) by simp
  have "tv w3 = tv w"
    using keepsD [OF tv(2) reg] keepsD [OF tv(1) snap] keepsD [OF tv(3) load] by simp
  moreover have "tv w4 = tv w3 \<union> (?d - ?p)"
    using forE_write [OF laws steps(1)] by (simp add: concat_chunks flip: set_concat)
  moreover have "tv w5 = tv w4 - (?p - ?d)"
    using forE_delete [OF laws steps(2)] g3(3) by (simp add: concat_chunks flip: set_concat)
  moreover have "tv w' = tv w5"
    using keepsD [OF tv(4) steps(3)] keepsD [OF tv(5) steps(4)] steps(5) tv(6,7) by simp
  ultimately show ?thesis using b snap g3(2) unfolding Let_def by blast
qed

end

subsection \<open>Both stores satisfy it\<close>

definition mem_conn_base :: "('x, 'm) conn_world_scheme \<Rightarrow> baseline" where
  "mem_conn_base w c = map_option (\<lambda>s. map_option (\<lambda>t. (t, the (map_of (w_conn_mem_tuples w) c))) s)
     (map_of (w_conn_mem_synced w) c)"

text \<open>The two dicts agree: a connector has tuples exactly when it has synced; no key repeats.\<close>

definition mem_conn_good :: "('x, 'm) conn_world_scheme \<Rightarrow> bool" where
  "mem_conn_good w \<longleftrightarrow> distinct (map fst (w_conn_mem_synced w)) \<and>
     (\<forall>c ts. map_of (w_conn_mem_tuples w) c = Some ts \<longrightarrow> finite ts) \<and>
     (\<forall>c. (map_of (w_conn_mem_tuples w) c \<noteq> None) = (\<exists>t. map_of (w_conn_mem_synced w) c = Some (Some t)))"

lemma distinct_fst_update: "distinct (map fst al) \<Longrightarrow> distinct (map fst (AList.update k v al))"
  by (rule distinct_update)

interpretation mem_conn: connector_state "mem_conn_store max_age" mem_conn_base mem_conn_good max_age
proof
  fix w w' :: "('x, 'm) conn_world_scheme" and c u
  assume g: "mem_conn_good w" and run: "cs_register (mem_conn_store max_age) c w = (Inr u, w')"
  show "mem_conn_good w' \<and> mem_conn_base w' =
      (if mem_conn_base w c = None then (mem_conn_base w)(c := Some None) else mem_conn_base w)"
  proof (cases "map_of (w_conn_mem_synced w) c")
    case (Some s)
    then show ?thesis using g run
      by (simp add: mem_conn_store_def mem_conn_register_def modifyE_def mem_conn_base_def)
  next
    case None
    then have w': "w' = w\<lparr>w_conn_mem_synced := w_conn_mem_synced w @ [(c, None)]\<rparr>"
      using run by (simp add: mem_conn_store_def mem_conn_register_def modifyE_def)
    have "mem_conn_good w'" using g None unfolding mem_conn_good_def w'
      by (simp add: map_of_snoc_new distinct_snoc_new del: map_append map_of_append distinct_append map_of_eq_Some_iff)
    then show ?thesis using None unfolding w'
      by (simp add: mem_conn_base_def fun_eq_iff map_of_snoc_new del: map_of_append)
  qed
next
  fix w w' :: "('x, 'm) conn_world_scheme" and c r
  assume g: "mem_conn_good w" and run: "cs_load_tuples (mem_conn_store max_age) c w = (Inr r, w')"
  have "w' = w" "r = map_of (w_conn_mem_tuples w) c"
    using run by (auto simp: mem_conn_store_def mem_conn_load_def getsE_def)
  moreover have "(map_of (w_conn_mem_tuples w) c \<noteq> None) = (\<exists>t. map_of (w_conn_mem_synced w) c = Some (Some t))"
    using g unfolding mem_conn_good_def by blast
  ultimately show "mem_conn_good w' \<and> mem_conn_base w' = mem_conn_base w \<and>
      r = (case mem_conn_base w c of Some (Some (t, ts)) \<Rightarrow> Some ts | _ \<Rightarrow> None)"
    using g by (auto simp: mem_conn_base_def split: option.splits simp del: map_of_eq_Some_iff)
next
  fix w w' :: "('x, 'm) conn_world_scheme" and c t u and ts :: "tuple set"
  assume "mem_conn_good w" "finite ts" "cs_save (mem_conn_store max_age) c ts t w = (Inr u, w')"
  then show "mem_conn_good w' \<and> mem_conn_base w' = (mem_conn_base w)(c := Some (Some (t, ts)))"
    by (auto simp: mem_conn_store_def mem_conn_save_def modifyE_def mem_conn_good_def mem_conn_base_def
        map_of_update fun_eq_iff distinct_fst_update split: if_splits simp del: map_of_eq_Some_iff) blast
next
  fix w w' :: "('x, 'm) conn_world_scheme" and u
  assume "mem_conn_good w" "cs_assert_fresh (mem_conn_store max_age) w = (Inr u, w')"
  then show "mem_conn_base w' = mem_conn_base w \<and> (\<forall>c s. mem_conn_base w c = Some s \<longrightarrow>
      (\<exists>t ts. s = Some (t, ts) \<and> w_clock w (w_clock_at w) - t \<le> max_age))"
    by (auto simp: mem_conn_store_def mem_conn_assert_fresh_def bindE_def now_def stateE_def getsE_def
        raise_if_def retE_def raiseE_def all_fresh_None mem_conn_base_def fun_eq_iff
        split: option.splits dest!: map_of_SomeD)
next
  fix w :: "('x, 'm) conn_world_scheme" and c t and ts :: "tuple set"
  assume "mem_conn_good w" "mem_conn_base w c = Some (Some (t, ts))"
  then show "finite ts"
    by (auto simp: mem_conn_good_def mem_conn_base_def simp del: map_of_eq_Some_iff)
next
  fix w w' :: "('x, 'm) conn_world_scheme" and e
  assume "cs_assert_fresh (mem_conn_store max_age) w = (Inl e, w')"
  then show "e = hoc ConnectorStale"
    by (auto simp: mem_conn_store_def mem_conn_assert_fresh_def bindE_def now_def stateE_def getsE_def
        raise_if_def retE_def raiseE_def split: option.splits dest: all_fresh_Some)
qed

definition pg_conn_base :: "pyconv \<Rightarrow> string \<Rightarrow> ('x, 'm) conn_world_scheme \<Rightarrow> baseline" where
  "pg_conn_base pc ns w c = map_option (\<lambda>r. map_option (\<lambda>t. (t, case tuples_of_json pc (cn_tuples r) of
       Inr ts \<Rightarrow> ts | Inl e \<Rightarrow> {})) (cn_synced_at r)) (map_of (w_conn_rows w) (ns, c))"

definition pg_conn_good :: "('x, 'm) conn_world_scheme \<Rightarrow> bool" where
  "pg_conn_good w \<longleftrightarrow> distinct (map fst (w_conn_rows w))"

text \<open>The Postgres store keeps the tuples as JSON; it satisfies the contract when \<open>str\<close> behaves.\<close>

locale conv_reads =
  fixes pc :: pyconv
  assumes laws: "conv_laws pc"
begin

lemma pg_register_base:
  assumes "pg_conn_good w" "pg_conn_register ns c w = (Inr u, w')"
  shows "pg_conn_good w' \<and> pg_conn_base pc ns w' =
    (if pg_conn_base pc ns w c = None then (pg_conn_base pc ns w)(c := Some None) else pg_conn_base pc ns w)"
  using assms
  by (cases "map_of (w_conn_rows w) (ns, c)")
     (auto simp: pg_conn_register_def db_stmt_Inr pg_conn_good_def pg_conn_base_def map_of_snoc_new
       distinct_snoc_new fun_eq_iff split: if_splits
       simp del: map_append map_of_append distinct_append map_of_eq_Some_iff)

lemma pg_load_base:
  assumes "pg_conn_good w" "pg_conn_load pc ns c w = (Inr r, w')"
  shows "pg_conn_good w' \<and> pg_conn_base pc ns w' = pg_conn_base pc ns w \<and>
    r = (case pg_conn_base pc ns w c of Some (Some (t, ts)) \<Rightarrow> Some ts | _ \<Rightarrow> None)"
  using assms
  by (cases "map_of (w_conn_rows w) (ns, c)")
     (auto simp: pg_conn_load_def bindE_Inr db_query_Inr liftE_def retE_def pg_conn_good_def pg_conn_base_def
       fun_eq_iff split: if_splits option.splits)

lemma pg_save_base:
  assumes "pg_conn_good w" "finite ts" "pg_conn_save ns c ts t w = (Inr u, w')"
  shows "pg_conn_good w' \<and> pg_conn_base pc ns w' = (pg_conn_base pc ns w)(c := Some (Some (t, ts)))"
  using assms tuples_round_trip [OF laws assms(2)]
  by (auto simp: pg_conn_save_def db_stmt_Inr pg_conn_good_def pg_conn_base_def map_of_update
      distinct_update fun_eq_iff)

lemma pg_fresh_base:
  assumes "pg_conn_good w" "pg_conn_assert_fresh ns max_age w = (Inr u, w')"
  shows "pg_conn_base pc ns w' = pg_conn_base pc ns w \<and> (\<forall>c s. pg_conn_base pc ns w c = Some s \<longrightarrow>
    (\<exists>t ts. s = Some (t, ts) \<and> w_clock w (w_clock_at w) - t \<le> max_age))"
proof -
  have w': "w_conn_rows w' = w_conn_rows w"
      and fr: "all_fresh (w_clock w (w_clock_at w)) max_age
        (map (\<lambda>((n, c), r). (c, cn_synced_at r)) (filter (\<lambda>((n, c), r). n = ns) (w_conn_rows w))) = None"
    using assms(2)
    by (auto simp: pg_conn_assert_fresh_def bindE_Inr now_def stateE_def catchE_def raiseE_def raise_if_def
        retE_def db_query_Inr split: prod.splits sum.splits option.splits if_splits)
  have "\<exists>l. cn_synced_at r = Some l \<and> w_clock w (w_clock_at w) - l \<le> max_age"
    if "map_of (w_conn_rows w) (ns, c) = Some r" for c r
    using fr map_of_SomeD [OF that] unfolding all_fresh_None by force
  then show ?thesis using w' by (auto simp: pg_conn_base_def fun_eq_iff)
qed

lemma pg_base_finite: "pg_conn_base pc ns w c = Some (Some (t, ts)) \<Longrightarrow> finite ts"
  by (auto simp: pg_conn_base_def tuples_of_json_def split: sum.splits option.splits json.splits)

lemma pg_fresh_err: "pg_conn_assert_fresh ns max_age w = (Inl e, w') \<Longrightarrow> e = hoc ConnectorStale"
  by (auto simp: pg_conn_assert_fresh_def bindE_def now_def stateE_def catchE_def raiseE_def raise_if_def
      retE_def split: prod.splits sum.splits option.splits if_splits dest: all_fresh_Some db_query_Inl)
     (auto simp: hoc_def dest!: db_query_Inl)

end

sublocale conv_reads \<subseteq> pg_conn: connector_state "pg_conn_store pc ns max_age" "pg_conn_base pc ns" pg_conn_good max_age
  for ns max_age
  by unfold_locales
     (unfold pg_conn_store_def conn_store.simps, (erule (1) pg_register_base | erule (1) pg_load_base
       | erule (2) pg_save_base | erule (1) pg_fresh_base | erule pg_fresh_err
       | erule pg_base_finite)+)

context conv_reads
begin

lemmas pg_reconcile_run = pg_conn.reconcile_run
lemmas pg_stale_blocks = pg_conn.stale_connector_blocks

end

interpretation std_reads: conv_reads std_conv
  by unfold_locales (rule std_conv_laws)

section \<open>Properties\<close>

lemma pg_record_keeps:
  assumes "\<And>w n. f (w\<lparr>w_db_at := n\<rparr>) = f w" "\<And>w js n. f (w\<lparr>w_journal := js, w_seq := n\<rparr>) = f w"
  shows "keeps f (pg_record e)"
  unfolding pg_record_def by (rule keeps_db_stmt) (auto simp: assms split: if_splits)

text \<open>
  C10: what a reconciliation leaves in the tuple store. When \<open>reconcile\<close> returns, against the Postgres state store and the journal, for
  a tuple store that adds what it is told to write and removes what it is told to delete, and a snapshot that changes neither of
  them: the recorded baseline is the snapshot with the time of the report; no tuple of the previous baseline that the source has dropped is left; no tuple outside both baselines is
  touched; and what the store lacks of the snapshot is exactly what it already lacked of the previous baseline, because only the
  difference between the baselines is written. So if the store held the previous baseline, it holds exactly the snapshot among the
  tuples of either; a tuple that a half-applied run deleted and that the source has again stays missing.
\<close>

theorem reconcile_brings_in_line:
  fixes w :: "('x, 'm) conn_world_scheme"
  assumes "conv_laws pc" "pg_conn_good w" "tuple_laws tuples (\<lambda>w. tv (w_ext w))"
    and "\<And>ts. keeps w_conn_rows (ts_write_tuples tuples ts)" "\<And>ts. keeps w_conn_rows (ts_delete_tuples tuples ts)"
    and "keeps w_conn_rows take_snapshot" "keeps w_ext take_snapshot"
    and run: "reconcile name take_snapshot tuples (pg_conn_store pc ns max_age) pg_record w = (Inr report, w')"
  shows "\<exists>snap w1 w2. take_snapshot w1 = (Inr snap, w2) \<and>
    (let previous = baseline_tuples (pg_conn_base pc ns w name); desired = set (sn_tuples snap) in
      pg_conn_base pc ns w' name = Some (Some (sr_synced_at report, desired))
      \<and> tv (w_ext w') \<inter> (previous - desired) = {}
      \<and> tv (w_ext w') - (previous \<union> desired) = tv (w_ext w) - (previous \<union> desired)
      \<and> desired - tv (w_ext w') = (desired \<inter> previous) - tv (w_ext w)
      \<and> (previous \<subseteq> tv (w_ext w) \<longrightarrow> tv (w_ext w') \<inter> (previous \<union> desired) = desired))"
proof -
  have reads: "conv_reads pc" using assms(1) by unfold_locales
  have base: "pg_conn_base pc ns v = pg_conn_base pc ns v'" if "w_conn_rows v = w_conn_rows v'"
    for v v' :: "('x, 'm) conn_world_scheme" using that by (simp add: pg_conn_base_def fun_eq_iff)
  have kb: "keeps (pg_conn_base pc ns) m" "keeps pg_conn_good m" if "keeps w_conn_rows m"
    for m :: "(('x, 'm) conn_world_scheme, exn, 'z) eff"
    using that base unfolding keeps_def pg_conn_good_def by metis+
  have kv: "keeps (\<lambda>w. tv (w_ext w)) m" if "keeps w_ext m"
    for m :: "(('x, 'm) conn_world_scheme, exn, 'z) eff" using that unfolding keeps_def by metis
  have "\<exists>snap w1 w2. take_snapshot w1 = (Inr snap, w2)
    \<and> pg_conn_base pc ns w' name = Some (Some (sr_synced_at report, set (sn_tuples snap)))
    \<and> (let previous = baseline_tuples (pg_conn_base pc ns w name); desired = set (sn_tuples snap)
       in tv (w_ext w') = (tv (w_ext w) \<union> (desired - previous)) - (previous - desired))"
    by (rule conv_reads.pg_reconcile_run [OF reads assms(2) run, where tv = "\<lambda>w. tv (w_ext w)"])
       (use assms(3-7) in \<open>auto intro!: kb kv keeps_rules pg_record_keeps
          simp: pg_conn_store_def pg_conn_register_def pg_conn_load_def pg_conn_save_def
            pg_conn_base_def fun_eq_iff pg_conn_good_def\<close>)
  then obtain snap w1 w2 where snap: "take_snapshot w1 = (Inr snap, w2)"
    and saved: "pg_conn_base pc ns w' name = Some (Some (sr_synced_at report, set (sn_tuples snap)))"
    and left: "tv (w_ext w') = (tv (w_ext w) \<union> (set (sn_tuples snap) - baseline_tuples (pg_conn_base pc ns w name)))
      - (baseline_tuples (pg_conn_base pc ns w name) - set (sn_tuples snap))"
    unfolding Let_def by (elim exE conjE)
  show ?thesis unfolding Let_def
    by (rule exI [of _ snap], rule exI [of _ w1], rule exI [of _ w2], intro conjI snap saved) (unfold left, blast+)
qed

text \<open>
  A connector that is behind: it is registered and has never synced, or synced longer ago than the limit at any reading of the
  clock from here on.
\<close>

definition behind :: "pyconv \<Rightarrow> string \<Rightarrow> timedelta \<Rightarrow> string \<Rightarrow> ('x, 'm) conn_world_scheme \<Rightarrow> bool" where
  "behind pc ns max_age conn w \<longleftrightarrow> pg_conn_good w \<and> (\<exists>s. pg_conn_base pc ns w conn = Some s \<and>
     (s = None \<or> (\<exists>t ts. s = Some (t, ts) \<and> (\<forall>n\<ge>w_clock_at w. w_clock w n - t > max_age))))"

lemma behindI:
  assumes "pg_conn_good w" "pg_conn_base pc ns w conn = Some s" "mono (w_clock w)"
    and "s = None \<or> (\<exists>t ts. s = Some (t, ts) \<and> w_clock w (w_clock_at w) - t > max_age)"
  shows "behind pc ns max_age conn w"
proof -
  have later: "w_clock w n - t > max_age" if "w_clock w (w_clock_at w) - t > max_age" "w_clock_at w \<le> n" for n t
    using monoD [OF assms(3) that(2)] that(1) by linarith
  from assms(4) show ?thesis unfolding behind_def
  proof (elim disjE exE conjE)
    fix t ts assume "s = Some (t, ts)" "w_clock w (w_clock_at w) - t > max_age"
    then show "pg_conn_good w \<and> (\<exists>s. pg_conn_base pc ns w conn = Some s \<and>
       (s = None \<or> (\<exists>t ts. s = Some (t, ts) \<and> (\<forall>n\<ge>w_clock_at w. w_clock w n - t > max_age))))"
      using assms(1,2) later by (intro conjI exI [of _ s] disjI2 exI [of _ t] exI [of _ ts]) auto
  qed (use assms(1,2) in simp)
qed

lemma behind_frame:
  assumes "behind pc ns max_age conn w" "w_conn_rows w' = w_conn_rows w" "w_clock w' = w_clock w" "w_clock_at w \<le> w_clock_at w'"
  shows "behind pc ns max_age conn w'"
proof -
  have "pg_conn_base pc ns w' = pg_conn_base pc ns w" "pg_conn_good w' = pg_conn_good w"
    using assms(2) by (simp_all add: pg_conn_base_def pg_conn_good_def fun_eq_iff)
  then show ?thesis using assms(1,3,4) unfolding behind_def by (metis order_trans)
qed

lemma behind_perf [simp]: "behind pc ns max_age conn w \<Longrightarrow> behind pc ns max_age conn (w\<lparr>w_perf_at := n\<rparr>)"
  by (erule behind_frame) simp_all

lemma guard_behind:
  fixes w :: "('x, 'm) conn_world_scheme"
  assumes laws: "conv_laws pc" and fresh: "fga_fresh f = cs_assert_fresh (pg_conn_store pc ns max_age)" and late: "behind pc ns max_age conn w"
  shows "\<exists>e w'. fga_guard f subj obj w = (Inl e, w') \<and> behind pc ns max_age conn w'"
proof -
  have reads: "conv_reads pc" using laws by unfold_locales
  from late obtain s where s: "pg_conn_good w" "pg_conn_base pc ns w conn = Some s"
    "s = None \<or> (\<exists>t ts. s = Some (t, ts) \<and> w_clock w (w_clock_at w) - t > max_age)" unfolding behind_def by blast
  obtain r w' where run: "fga_fresh f w = (r, w')" by (cases "fga_fresh f w")
  with conv_reads.pg_stale_blocks [OF reads s] fresh obtain e where e: "r = Inl e" by auto
  let ?F = "\<lambda>v. w_conn_rows v = w_conn_rows w \<and> w_clock v = w_clock w \<and> w_clock_at w \<le> w_clock_at v"
  have "wp (pg_conn_assert_fresh ns max_age) (\<lambda>_. ?F) (\<lambda>_. ?F) w"
    unfolding pg_conn_assert_fresh_def wp_rules db_query_def
    by (rule wp_db_stmtI) (auto simp: raise_if_def wp_rules split: option.splits)
  then have "w_conn_rows w' = w_conn_rows w" "w_clock w' = w_clock w" "w_clock_at w \<le> w_clock_at w'"
    using run fresh by (auto simp: pg_conn_store_def wp_def split: sum.splits)
  then have "behind pc ns max_age conn w'" by (rule behind_frame [OF late])
  then show ?thesis using run e late
    by (cases "validate_ref subj ''user''"; cases "validate_resource_pattern obj") (simp_all add: fga_guard_def bindE_def liftE_def)
qed

lemma wp_mapE_inv:
  assumes "\<And>x w. x \<in> set xs \<Longrightarrow> I w \<Longrightarrow> wp (f x) (\<lambda>y w'. I w' \<and> P y) R w"
  shows "I w \<Longrightarrow> wp (mapE f xs) (\<lambda>ys w'. I w' \<and> (\<forall>y\<in>set ys. P y)) R w"
  using assms
proof (induction xs arbitrary: w)
  case (Cons x xs)
  have "wp (mapE f xs) (\<lambda>ys w'. I w' \<and> (\<forall>y\<in>set (z # ys). P y)) R v" if "I v \<and> P z" for z v
    by (rule wp_mono [OF Cons.IH]) (use that Cons.prems(2) in auto)
  then show ?case using Cons.prems(2) [OF list.set_intros(1) Cons.prems(1)] unfolding mapE.simps wp_bindE wp_retE by (elim wp_mono)
qed (simp add: wp_rules)

text \<open>While a connector is behind, no question of the three entry points gets an answer from the engine.\<close>

lemma batch_behind:
  fixes w :: "('x, 'm) conn_world_scheme"
  assumes laws: "conv_laws pc" and engine: "dc_engine d = fga_engine f" "fga_fresh f = cs_assert_fresh (pg_conn_store pc ns max_age)"
    and late: "behind pc ns max_age conn w" and rs: "rs \<noteq> []"
  shows "wp (batch d subj rel rs) (\<lambda>answer w'. behind pc ns max_age conn w' \<and> snd answer \<noteq> None) R w"
proof -
  obtain r rs' where "rs = r # rs'" using rs by (cases rs) auto
  moreover obtain e w' where "fga_guard f subj r w = (Inl e, w')" "behind pc ns max_age conn w'"
    using guard_behind [OF laws engine(2) late] by blast
  ultimately show ?thesis
    by (simp add: batch_def engine(1) fga_engine_def fga_batch_check_def forE_def wp_def bindE_def attemptE_def retE_def)
qed

lemma decide_chunk_behind:
  fixes w :: "('x, 'm) conn_world_scheme"
  assumes laws: "conv_laws pc" and engine: "dc_engine d = fga_engine f" "fga_fresh f = cs_assert_fresh (pg_conn_store pc ns max_age)"
    and late: "behind pc ns max_age conn w" and chunk: "chunk \<noteq> []"
  shows "wp (decide_chunk d c a args ctx targets chunk)
    (\<lambda>run w'. behind pc ns max_age conn w' \<and> (\<forall>e\<in>set (snd run). fst (snd e) = DENY)) R w"
proof -
  have "wp (batch d (ch_subject c) (act_relation a) (map (\<lambda>i. targets ! i) chunk))
      (\<lambda>answer w'. behind pc ns max_age conn w' \<and> snd answer \<noteq> None) R (w\<lparr>w_perf_at := n\<rparr>)" for n
    by (rule batch_behind [OF laws engine]) (use late chunk in auto)
  from this [of "Suc (w_perf_at w)"] show ?thesis unfolding decide_chunk_def wp_rules
    by (elim wp_mono) (auto simp: wp_rules chunk_outcome_def split: option.splits)
qed

lemma decide_each_behind:
  fixes w :: "('x, 'm) conn_world_scheme"
  assumes laws: "conv_laws pc" and engine: "dc_engine d = fga_engine f" "fga_fresh f = cs_assert_fresh (pg_conn_store pc ns max_age)"
    and late: "behind pc ns max_age conn w" and valid: "list_all valid_pattern targets" "valid_ref (ch_subject c) ''user''"
  shows "wp (decide_each d c a targets audit_each args ctx) (\<lambda>dns _. \<forall>dn\<in>set dns. d_outcome dn = DENY) (\<lambda>_ _. True) w"
proof (cases "targets = []")
  case True
  then show ?thesis using valid by (simp add: decide_each_def wp_rules)
next
  case False
  let ?B = "\<lambda>w :: ('x, 'm) conn_world_scheme. behind pc ns max_age conn w"
  have checked: "wp (mapE (\<lambda>r. liftE (validate_resource_pattern r)) targets) P R w = P targets w" for P R and w :: "('x, 'm) conn_world_scheme"
    using valid(1) by (subst wp_mapE_liftE_valid [where g = id]) (auto simp: list_all_iff)
  have runs: "wp (mapE (decide_chunk d c a xs x targets) (chunks BATCH_LIMIT is))
      (\<lambda>runs w'. ?B w' \<and> (\<forall>run\<in>set runs. \<forall>e\<in>set (snd run). fst (snd e) = DENY)) (\<lambda>_ _. True) v" if "?B v" for v xs x "is"
  proof (rule wp_mapE_inv [where I = ?B])
    fix chunk and u :: "('x, 'm) conn_world_scheme"
    assume chunk: "chunk \<in> set (chunks BATCH_LIMIT is)" and u: "?B u"
    have "chunk \<noteq> []" using chunks_bounds [OF chunk] by simp
    then show "wp (decide_chunk d c a xs x targets chunk) (\<lambda>y w'. ?B w' \<and> (\<forall>e\<in>set (snd y). fst (snd e) = DENY)) (\<lambda>_ _. True) u"
      by (rule decide_chunk_behind [OF laws engine u])
  qed (rule that)
  have each: "wp (mapE (\<lambda>(i, r).
         let ev = (case map_of (concat (map snd runs)) i of Some ev \<Rightarrow> ev | None \<Rightarrow> (DENY, ''scope_excluded'', float_zero)) in
         bindE (mk_decision ev c r a t []) (\<lambda>dn.
         bindE (if audit_each then journal_decision d dn args else retE ()) (\<lambda>_.
         bindE (observe d dn started) (\<lambda>_. retE dn)))) xs)
      (\<lambda>dns _. \<forall>dn\<in>set dns. d_outcome dn = DENY) (\<lambda>_ _. True) v"
    if denied: "\<forall>run\<in>set runs. \<forall>e\<in>set (snd run). fst (snd e) = DENY" for runs t started xs and v :: "('x, 'm) conn_world_scheme"
  proof -
    have out: "fst (case map_of (concat (map snd runs)) i of Some ev \<Rightarrow> ev | None \<Rightarrow> (DENY, ''scope_excluded'', float_zero)) = DENY" for i
      using denied by (auto split: option.splits dest!: map_of_SomeD) force
    have ok: "wp m (\<lambda>_ _. True) (\<lambda>_ _. True) u1" for m :: "(('x, 'm) conn_world_scheme, exn, unit) eff" and u1 by simp
    have one: "wp (bindE (mk_decision ev c r a t []) (\<lambda>dn. bindE (if audit_each then journal_decision d dn args else retE ()) (\<lambda>_.
         bindE (observe d dn started) (\<lambda>_. retE dn)))) (\<lambda>dn _. True \<and> d_outcome dn = DENY) (\<lambda>_ _. True) u"
      if "fst ev = DENY" for ev r and u :: "('x, 'm) conn_world_scheme"
      using that by (auto simp: mk_decision_def wp_rules intro!: wp_mono [OF ok])
    have "wp (mapE (\<lambda>(i, r).
         let ev = (case map_of (concat (map snd runs)) i of Some ev \<Rightarrow> ev | None \<Rightarrow> (DENY, ''scope_excluded'', float_zero)) in
         bindE (mk_decision ev c r a t []) (\<lambda>dn.
         bindE (if audit_each then journal_decision d dn args else retE ()) (\<lambda>_.
         bindE (observe d dn started) (\<lambda>_. retE dn)))) xs) (\<lambda>dns _. True \<and> (\<forall>dn\<in>set dns. d_outcome dn = DENY)) (\<lambda>_ _. True) v"
      by (rule wp_mapE_inv [where I = "\<lambda>_. True"]) (auto simp only: Let_def split_beta intro!: one out)
    then show ?thesis by simp
  qed
  show ?thesis
    unfolding decide_each_def using valid(2) False
    apply (simp add: wp_bindE wp_liftE checked wp_perf_counter Let_def)
    apply (rule wp_mono [OF runs])
      apply (simp add: late)
     apply (simp only: wp_now)
     apply (rule each [unfolded Let_def])
     apply simp
    apply simp
    done
qed

lemma decide_each_valid:
  assumes "decide_each d c a rs audit_each args ctx w = (Inr dns, w')"
  shows "list_all valid_pattern rs" "valid_ref (ch_subject c) ''user''"
proof -
  have pats: "list_all valid_pattern xs" if "mapE (\<lambda>r. liftE (validate_resource_pattern r)) xs w1 = (Inr ys, w2)"
    for xs ys and w1 w2 :: "('a, 'b) world_scheme"
    using that by (induction xs arbitrary: w1 ys) (auto simp: bindE_Inr liftE_def retE_def validate_resource_pattern_def split: if_splits)
  show "valid_ref (ch_subject c) ''user''"
    using assms by (auto simp: decide_each_def bindE_Inr liftE_def validate_ref_def split: if_splits)
  show "list_all valid_pattern rs"
    using assms unfolding decide_each_def Let_def bindE_Inr by (elim exE conjE) (rule pats)
qed

lemma decide_all_behind:
  fixes w :: "('x, 'm) conn_world_scheme"
  assumes laws: "conv_laws pc" and engine: "dc_engine d = fga_engine f" "fga_fresh f = cs_assert_fresh (pg_conn_store pc ns max_age)"
    and late: "behind pc ns max_age conn w" and rs: "rs \<noteq> []"
    and valid: "list_all valid_pattern (rs @ (case scope_resources of Some ts \<Rightarrow> ts | None \<Rightarrow> rs))" "valid_ref (ch_subject c) ''user''"
  shows "wp (decide_all d c a rs scope_resources named args ctx) (\<lambda>dn _. d_outcome dn = DENY) (\<lambda>_ _. True) w"
proof -
  define targets where "targets = (case scope_resources of Some ts \<Rightarrow> ts | None \<Rightarrow> rs)"
  have checked: "wp (mapE (\<lambda>r. liftE (validate_resource_pattern r)) (rs @ targets)) P R w = P (rs @ targets) w"
    for P R and w :: "('x, 'm) conn_world_scheme"
    using valid(1) unfolding targets_def by (subst wp_mapE_liftE_valid [where g = id]) (auto simp: list_all_iff)
  have caps: "wp (mapE (\<lambda>t. liftE (mk_capability (act_kind a) t)) targets) P R v = P (map (Capability (act_kind a)) targets) v"
    for P R and v :: "('x, 'm) conn_world_scheme"
    using valid(1) unfolding targets_def by (subst wp_mapE_liftE_valid [where g = "Capability (act_kind a)"]) (auto simp: list_all_iff)
  have ok: "wp m (\<lambda>_ _. True) (\<lambda>_ _. True) u1" for m :: "(('x, 'm) conn_world_scheme, exn, unit) eff" and u1 by simp
  have asked: "wp (batch d (ch_subject c) (act_relation a) rs) (\<lambda>answer _. snd answer \<noteq> None) (\<lambda>_ _. True) (w\<lparr>w_perf_at := n\<rparr>)" for n
    by (rule wp_mono [OF batch_behind [OF laws engine behind_perf [OF late] rs]]) auto
  have ev: "wp (evaluate_all d c a rs targets (\<exists>y. scope_resources = Some y) xs x) (\<lambda>ev _. fst ev = DENY) (\<lambda>_ _. True) (w\<lparr>w_perf_at := n\<rparr>)" for xs x n
    using rs asked [of "Suc n"] unfolding evaluate_all_def
    by (auto simp: wp_rules caps all_outcome_def elim!: wp_mono split: option.splits)
  show ?thesis
    unfolding decide_all_def using valid(2)
    apply (simp add: wp_bindE wp_liftE Let_def checked [unfolded targets_def] wp_perf_counter)
    apply (rule wp_mono [OF ev [unfolded targets_def args_or_empty_def context_or_none_def]])
     apply (auto simp: wp_rules mk_decision_def intro!: wp_mono [OF ok])
    done
qed

text \<open>
  C11: stale permissions are no permissions. While any registered connector has never synced, or synced longer ago than the limit
  when the call starts, with a clock that does not run backwards, nothing that asks the OpenFGA engine behind the Postgres freshness
  guard comes back as ALLOW, whatever the client would answer: not \<open>decide\<close>, not \<open>decide_all\<close> about at least one resource, and no
  decision of \<open>decide_each\<close>. (\<open>decide_all\<close> without resources answers from the scope alone and asks nobody.)
\<close>

theorem stale_connector_denies:
  fixes w :: "('x, 'm) conn_world_scheme"
  assumes "conv_laws pc" "pg_conn_good w" "pg_conn_base pc ns w conn = Some s" "mono (w_clock w)"
    and stale: "s = None \<or> (\<exists>t ts. s = Some (t, ts) \<and> w_clock w (w_clock_at w) - t > max_age)"
    and engine: "dc_engine d = fga_engine f" "fga_fresh f = cs_assert_fresh (pg_conn_store pc ns max_age)"
  shows "(\<forall>dn w'. decide d c a r args ctx w = (Inr dn, w') \<longrightarrow> d_outcome dn \<noteq> ALLOW)
    \<and> (\<forall>rs dn w'. rs \<noteq> [] \<longrightarrow> decide_all d c a rs scope_resources named args ctx w = (Inr dn, w') \<longrightarrow> d_outcome dn \<noteq> ALLOW)
    \<and> (\<forall>rs dns w'. decide_each d c a rs audit_each args ctx w = (Inr dns, w') \<longrightarrow> (\<forall>dn\<in>set dns. d_outcome dn \<noteq> ALLOW))"
proof (intro conjI allI impI)
  have late: "behind pc ns max_age conn w" by (rule behindI) (fact assms(2,3,4) stale)+
  show "d_outcome dn \<noteq> ALLOW" if run: "decide d c a r args ctx w = (Inr dn, w')" for dn w'
  proof
    assume "d_outcome dn = ALLOW"
    then obtain w1 where "fga_check f (ch_subject c) (act_relation a) r (w\<lparr>w_perf_at := w_perf_at w + 2\<rparr>) = (Inr True, w1)"
      using decide_ALLOW_grounds [OF run] engine(1) by (auto simp: fga_engine_def)
    moreover obtain e w2 where "fga_guard f (ch_subject c) r (w\<lparr>w_perf_at := w_perf_at w + 2\<rparr>) = (Inl e, w2)"
      using guard_behind [OF assms(1) engine(2) behind_perf [OF late]] by blast
    ultimately show False by (simp add: fga_check_def bindE_def)
  qed
  show "d_outcome dn \<noteq> ALLOW" if "rs \<noteq> []" "decide_all d c a rs scope_resources named args ctx w = (Inr dn, w')" for rs dn w'
  proof -
    have "wp (decide_all d c a rs scope_resources named args ctx) (\<lambda>dn _. d_outcome dn = DENY) (\<lambda>_ _. True) w"
      by (rule decide_all_behind [OF assms(1) engine late that(1) decide_all_valid [OF that(2)]])
    then show ?thesis using that(2) by (simp add: wp_def)
  qed
  show "\<forall>dn\<in>set dns. d_outcome dn \<noteq> ALLOW" if "decide_each d c a rs audit_each args ctx w = (Inr dns, w')" for rs dns w'
  proof -
    have "wp (decide_each d c a rs audit_each args ctx) (\<lambda>dns _. \<forall>dn\<in>set dns. d_outcome dn = DENY) (\<lambda>_ _. True) w"
      by (rule decide_each_behind [OF assms(1) engine late decide_each_valid [OF that]])
    then show ?thesis using that by (simp add: wp_def)
  qed
qed

section \<open>Examples\<close>

definition conn_world0 :: "tuple set conn_world" where
  "conn_world0 = \<lparr>w_clock = (\<lambda>n. int n), w_clock_at = 0, w_uuid = show_nat, w_uuid_at = 0,
     w_perf = (\<lambda>_ _. float_zero), w_perf_at = 0, w_db = (\<lambda>_. DbOk), w_db_at = 0, w_ext = {},
     w_journal = [], w_seq = 0, w_mem_events = [],
     w_conn_rows = [((''ns'', ''drive''), \<lparr>cn_synced_at = None, cn_tuples = ''[]''\<rparr>)],
     w_conn_mem_tuples = [], w_conn_mem_synced = [], w_conn_last_sync = []\<rparr>"

text \<open>A tuple store that keeps its tuples as a set in the outside state, and a one-tuple source.\<close>

definition set_tuple_store :: "(tuple set, 'm) conn_world_scheme tuple_store" where
  "set_tuple_store = \<lparr>ts_write_tuples = (\<lambda>ts. modifyE (\<lambda>w. w\<lparr>w_ext := w_ext w \<union> set ts\<rparr>)),
     ts_delete_tuples = (\<lambda>ts. modifyE (\<lambda>w. w\<lparr>w_ext := w_ext w - set ts\<rparr>)),
     ts_read_tuples = (\<lambda>obj rel. retE [])\<rparr>"

definition sample_snapshot :: snapshot where
  "sample_snapshot = \<lparr>sn_connector = ''drive'', sn_tuples = [(''user:alice'', ''viewer'', ''document:a'')],
     sn_documents = [], sn_taken_at = 0\<rparr>"

lemma set_tuple_store_laws: "tuple_laws set_tuple_store w_ext"
  by (auto simp: tuple_laws_def set_tuple_store_def modifyE_def)

lemma sample_tuple_valid:
  "validate_tuple (''user:alice'', ''viewer'', ''document:a'') = Inr (''user:alice'', ''viewer'', ''document:a'')"
  by code_simp

theorem reconcile_brings_in_line_witness:
  "\<exists>report w'. reconcile ''drive'' (retE sample_snapshot) set_tuple_store (pg_conn_store std_conv ''ns'' 10)
      pg_record conn_world0 = (Inr report, w')
    \<and> w_ext w' \<inter> {(''user:alice'', ''viewer'', ''document:a'')} = {(''user:alice'', ''viewer'', ''document:a'')}"
proof -
  let ?run = "reconcile ''drive'' (retE sample_snapshot) set_tuple_store (pg_conn_store std_conv ''ns'' 10)
      pg_record conn_world0"
  have "\<exists>report w'. ?run = (Inr report, w')"
    by (simp add: reconcile_def bindE_def retE_def sample_snapshot_def set_tuple_store_def pg_conn_store_def
        pg_conn_register_def pg_conn_load_def pg_conn_save_def db_query_def db_stmt_def conn_world0_def
        sample_tuple_valid liftE_def forE_def chunks.simps modifyE_def now_def uuid4_hex_def stateE_def pg_record_def Let_def)
  then obtain report w' where run: "?run = (Inr report, w')" by blast
  have "baseline_tuples (pg_conn_base std_conv ''ns'' conn_world0 ''drive'') = {}"
    by (simp add: baseline_tuples_def pg_conn_base_def conn_world0_def)
  have frame: "keeps w_conn_rows (ts_write_tuples (set_tuple_store :: tuple set conn_world tuple_store) ts)"
      "keeps w_conn_rows (ts_delete_tuples (set_tuple_store :: tuple set conn_world tuple_store) ts)" for ts
    by (simp_all add: set_tuple_store_def keeps_rules)
  have laws: "tuple_laws set_tuple_store (\<lambda>w. id (w_ext w))" "pg_conn_good conn_world0"
    using set_tuple_store_laws by (simp_all add: pg_conn_good_def conn_world0_def)
  show ?thesis
    using run reconcile_brings_in_line [OF std_conv_laws laws(2,1) frame keeps_retE keeps_retE run]
      \<open>baseline_tuples _ = {}\<close>
    by (auto simp: Let_def sample_snapshot_def retE_def)
qed

definition stale_decider :: "(tuple set conn_world) decider" where
  "stale_decider = \<lparr>dc_engine = fga_engine \<lparr>fga_client = \<lparr>fc_check = (\<lambda>u rel obj w. (Inr True, w)),
       fc_batch_check = (\<lambda>checks w. (Inr [], w)), fc_list_objects = (\<lambda>u rel t w. (Inr [], w)),
       fc_write = (\<lambda>ts w. (Inr (), w)), fc_delete = (\<lambda>ts w. (Inr (), w)),
       fc_read = (\<lambda>obj rel k w. (Inr ([], None), w))\<rparr>,
       fga_fresh = cs_assert_fresh (pg_conn_store std_conv ''ns'' 10), fga_retries = 1\<rparr>,
     dc_audit = (\<lambda>e w. (Inr (), w)), dc_policy = None, dc_metrics = None\<rparr>"

theorem stale_connector_denies_witness:
  "\<exists>dn w' dns w2. decide stale_decider sample_chain action_read ''document:a'' None None conn_world0 = (Inr dn, w') \<and> d_outcome dn \<noteq> ALLOW
    \<and> decide_each stale_decider sample_chain action_read [''document:a''] True None None conn_world0 = (Inr dns, w2)
    \<and> length dns = 1 \<and> (\<forall>dn\<in>set dns. d_outcome dn \<noteq> ALLOW)"
proof -
  let ?run = "decide stale_decider sample_chain action_read ''document:a'' None None conn_world0"
  let ?runs = "decide_each stale_decider sample_chain action_read [''document:a''] True None None conn_world0"
  have quiet: "\<not> sink_raised stale_decider x" for x by (simp add: sink_raised_def stale_decider_def)
  have "wp (decide stale_decider sample_chain action_read ''document:a'' None None) (\<lambda>_ _. True) (\<lambda>x _. False) conn_world0"
    by (rule wp_decide [OF sample_valid(1,3)]) (auto simp: quiet)
  then obtain dn w' where run: "?run = (Inr dn, w')" by (cases ?run) (auto simp: wp_def split: sum.splits)
  have "list_all valid_pattern [''document:a'']" using sample_valid by simp
  from wp_decide_each [OF this sample_valid(3), of stale_decider action_read True None None conn_world0]
  obtain dns w2 where runs: "?runs = (Inr dns, w2)" "length dns = 1"
    by (cases ?runs) (auto simp: wp_def quiet dest: list_all2_lengthD split: sum.splits)
  have world: "pg_conn_good conn_world0" "pg_conn_base std_conv ''ns'' conn_world0 ''drive'' = Some None" "mono (w_clock conn_world0)"
    by (simp_all add: pg_conn_good_def pg_conn_base_def conn_world0_def mono_def)
  have engine: "dc_engine stale_decider = fga_engine \<lparr>fga_client = \<lparr>fc_check = (\<lambda>u rel obj w. (Inr True, w)),
       fc_batch_check = (\<lambda>checks w. (Inr [], w)), fc_list_objects = (\<lambda>u rel t w. (Inr [], w)),
       fc_write = (\<lambda>ts w. (Inr (), w)), fc_delete = (\<lambda>ts w. (Inr (), w)),
       fc_read = (\<lambda>obj rel k w. (Inr ([], None), w))\<rparr>, fga_fresh = cs_assert_fresh (pg_conn_store std_conv ''ns'' 10), fga_retries = 1\<rparr>"
    by (simp add: stale_decider_def)
  show ?thesis using run runs stale_connector_denies [OF std_conv_laws world disjI1 [OF refl] engine] by (simp) blast
qed

end
