(* ===== verification/Identity_Callers.thy ===== *)
theory Identity_Callers
  imports Audit_Journal
begin

text \<open>
  Verified identities and the callers they stand for (\<open>identity/provider.py\<close>,
  \<open>identity/callers.py\<close>).

  The claims of a token are a dict of JSON values; \<open>str(v)\<close> is the parameter \<open>conv_str\<close>. The lemmas
  show when a token is taken for an agent and when for a human: a token marked as an agent's is
  never taken for a human's, and whoever passes \<open>require_human\<close> is neither marked nor a Keycloak
  service account.
\<close>

type_synonym claims = "(string \<times> json) list"

record verified_identity =
  vi_subject :: string
  vi_issuer :: string
  vi_groups :: "string list"
  vi_expires_at :: datetime
  vi_claims :: claims

section \<open>Python values\<close>

text \<open>\<open>a or b\<close>\<close>

definition py_or :: "json \<Rightarrow> json \<Rightarrow> json" where
  "py_or a b = (if json_falsy a then b else a)"

section \<open>Callers\<close>

definition SERVICE_ACCOUNT_PREFIX :: string where
  "SERVICE_ACCOUNT_PREFIX = ''service-account-''"

datatype caller_kind = AgentCaller | UserCaller

record caller =
  cl_kind :: caller_kind
  cl_ref :: string

record agent_detection =
  ad_marker_claim :: string
  ad_marker_value :: "string option"
  ad_id_claim :: string
  ad_keycloak_fallback :: bool

definition DEFAULT_DETECTION :: agent_detection where
  "DEFAULT_DETECTION = \<lparr>ad_marker_claim = ''clientId'', ad_marker_value = None,
     ad_id_claim = ''clientId'', ad_keycloak_fallback = True\<rparr>"

definition str_or :: "string \<Rightarrow> string \<Rightarrow> string" where
  "str_or s dflt = (if s = [] then dflt else s)"

definition detection_from_settings :: "string \<Rightarrow> string \<Rightarrow> bool \<Rightarrow> agent_detection" where
  "detection_from_settings marker id_claim fallback = (case partition_char (CHR ''='') marker of
     (claim, sep, value) \<Rightarrow>
       \<lparr>ad_marker_claim = str_or (strip claim) ''clientId'',
        ad_marker_value = (if sep then Some (strip value) else None),
        ad_id_claim = str_or (strip id_claim) ''clientId'', ad_keycloak_fallback = fallback\<rparr>)"

definition agent_caller :: "string \<Rightarrow> exn + caller" where
  "agent_caller client_id = (case validate_ref (''agent:'' @ client_id) ''agent'' of
     Inl e \<Rightarrow> Inl (if catches InvariantViolation e then hoc IdentityError else e)
   | Inr r \<Rightarrow> Inr \<lparr>cl_kind = AgentCaller, cl_ref = r\<rparr>)"

definition marked :: "pyconv \<Rightarrow> agent_detection \<Rightarrow> claims \<Rightarrow> bool" where
  "marked pc d cs = (let marker = dict_get cs (ad_marker_claim d) in
     marker \<noteq> JNull \<and> marker \<noteq> JStr [] \<and>
     (case ad_marker_value d of None \<Rightarrow> True | Some v \<Rightarrow> conv_str pc marker = v))"

definition preferred_username :: "pyconv \<Rightarrow> claims \<Rightarrow> string" where
  "preferred_username pc cs = conv_str pc (py_or (dict_get cs ''preferred_username'') (JStr []))"

definition caller_from_identity :: "pyconv \<Rightarrow> verified_identity \<Rightarrow> agent_detection \<Rightarrow> exn + caller" where
  "caller_from_identity pc i d =
     (let cs = vi_claims i;
          username = preferred_username pc cs;
          name = drop (length SERVICE_ACCOUNT_PREFIX) username;
          human = Inr \<lparr>cl_kind = UserCaller, cl_ref = vi_subject i\<rparr> in
      if marked pc d cs then
        (case py_or (dict_get cs (ad_id_claim d)) (dict_get cs ''azp'') of
           JStr raw_id \<Rightarrow> if raw_id = [] then Inl (hoc IdentityError) else agent_caller raw_id
         | _ \<Rightarrow> Inl (hoc IdentityError))
      else if ad_keycloak_fallback d \<and> startswith username SERVICE_ACCOUNT_PREFIX then
        (if name = [] then Inl (hoc IdentityError)
         else if dict_get cs ''azp'' = JStr name then agent_caller name
         else human)
      else human)"

definition require_human :: "pyconv \<Rightarrow> verified_identity \<Rightarrow> agent_detection \<Rightarrow> exn + string" where
  "require_human pc i d = (case caller_from_identity pc i d of
     Inl e \<Rightarrow> Inl e
   | Inr c \<Rightarrow> if cl_kind c \<noteq> UserCaller then Inl (Hoc TokenInvalid ''user_token_not_human'') else Inr (cl_ref c))"

section \<open>Agents and humans\<close>

text \<open>A Keycloak service account: the username and the authorized party name the same client.\<close>

definition service_account :: "pyconv \<Rightarrow> claims \<Rightarrow> string \<Rightarrow> bool" where
  "service_account pc cs name \<longleftrightarrow> preferred_username pc cs = SERVICE_ACCOUNT_PREFIX @ name
     \<and> (name = [] \<or> dict_get cs ''azp'' = JStr name)"

lemma agent_caller_Inr:
  "agent_caller s = Inr c \<longleftrightarrow> valid_ref (''agent:'' @ s) ''agent'' \<and> c = \<lparr>cl_kind = AgentCaller, cl_ref = ''agent:'' @ s\<rparr>"
  by (auto simp: agent_caller_def validate_ref_def)

lemma agent_caller_Inl: "agent_caller s = Inl e \<Longrightarrow> e = hoc IdentityError"
  by (auto simp: agent_caller_def validate_ref_def hoc_def split: if_splits)

lemma startswith_split: "startswith s p \<longleftrightarrow> (\<exists>r. s = p @ r)"
  by (auto simp: startswith_def) (metis append_take_drop_id)

lemma caller_agentD:
  assumes "caller_from_identity pc i d = Inr c" "cl_kind c = AgentCaller"
  shows "\<exists>name. cl_ref c = ''agent:'' @ name \<and> name \<noteq> [] \<and> valid_ref (cl_ref c) ''agent''
    \<and> (marked pc d (vi_claims i) \<or> ad_keycloak_fallback d \<and> service_account pc (vi_claims i) name)"
  using assms
  by (auto simp: caller_from_identity_def Let_def agent_caller_Inr service_account_def startswith_split
      split: if_splits json.splits)

lemma caller_userD:
  assumes "caller_from_identity pc i d = Inr c" "cl_kind c = UserCaller"
  shows "cl_ref c = vi_subject i \<and> \<not> marked pc d (vi_claims i)
    \<and> (ad_keycloak_fallback d \<longrightarrow> (\<forall>name. \<not> service_account pc (vi_claims i) name))"
  using assms
  by (auto simp: caller_from_identity_def Let_def agent_caller_Inr service_account_def startswith_split
      split: if_splits json.splits)

text \<open>Every failure is an \<open>IdentityError\<close>: nobody is downgraded to a human.\<close>

lemma caller_from_identity_Inl: "caller_from_identity pc i d = Inl e \<Longrightarrow> e = hoc IdentityError"
  by (auto simp: caller_from_identity_def Let_def dest: agent_caller_Inl split: if_splits json.splits)

text \<open>
  \<open>require_human\<close> returns exactly the subject of an identity that no rule of \<open>AgentDetection\<close>
  takes for an agent; every other identity is refused.
\<close>

theorem require_human_exact:
  "require_human pc i d = Inr s \<longleftrightarrow> s = vi_subject i \<and> \<not> marked pc d (vi_claims i)
    \<and> \<not> (ad_keycloak_fallback d \<and> (\<exists>name. service_account pc (vi_claims i) name))"
proof
  assume "require_human pc i d = Inr s"
  then obtain c where c: "caller_from_identity pc i d = Inr c" "cl_kind c = UserCaller" "s = cl_ref c"
    by (auto simp: require_human_def split: sum.splits if_splits)
  then show "s = vi_subject i \<and> \<not> marked pc d (vi_claims i)
    \<and> \<not> (ad_keycloak_fallback d \<and> (\<exists>name. service_account pc (vi_claims i) name))"
    using caller_userD [OF c(1,2)] by auto
next
  assume "s = vi_subject i \<and> \<not> marked pc d (vi_claims i)
    \<and> \<not> (ad_keycloak_fallback d \<and> (\<exists>name. service_account pc (vi_claims i) name))"
  then show "require_human pc i d = Inr s"
    by (auto simp: require_human_def caller_from_identity_def Let_def service_account_def startswith_split)
qed

end
