(* ===== verification/Actions_Approvals.thy ===== *)
theory Actions_Approvals
  imports Read_Connectors
begin

text \<open>
  Approval requests and their stores (\<open>actions/approvals.py\<close>).

  \<open>w_appr_mem\<close> is the dict of the in-memory store; \<open>w_appr_rows\<close> is the table \<open>approval_requests\<close>
  keyed by its primary key, with the column types of the schema, the status as text. A read-modify-
  write under the store's lock, and a statement of the Postgres store, is one step. The locale
  \<open>approval_contract\<close> states every operation of the \<open>ApprovalStore\<close> protocol as an atomic step on the
  map of requests; both stores interpret it, and that an approval is consumed at most once is proved
  from it for every interleaving of the program's store calls.
\<close>

section \<open>Requests\<close>

definition APPROVER_RELATION :: string where
  "APPROVER_RELATION = ''approver''"

datatype approval_status = PENDING | APPROVED | REJECTED | EXPIRED | CONSUMED

fun status_value :: "approval_status \<Rightarrow> string" where
  "status_value PENDING = ''pending''"
| "status_value APPROVED = ''approved''"
| "status_value REJECTED = ''rejected''"
| "status_value EXPIRED = ''expired''"
| "status_value CONSUMED = ''consumed''"

definition status_of :: "string \<Rightarrow> exn + approval_status" where
  "status_of s = (case find (\<lambda>x. status_value x = s) [PENDING, APPROVED, REJECTED, EXPIRED, CONSUMED] of
     Some x \<Rightarrow> Inr x | None \<Rightarrow> Inl (Other ''ValueError''))"

record approval_request =
  rq_request_id :: string
  rq_subject :: string
  rq_actor :: string
  rq_delegation_depth :: nat
  rq_tool :: string
  rq_args_hash :: string
  rq_decision_id :: string
  rq_created_at :: datetime
  rq_expires_at :: datetime
  rq_status :: approval_status
  rq_resolved_by :: "string option"
  rq_resolved_at :: "datetime option"
  rq_resolution_reason :: "string option"
  rq_consumed_at :: "datetime option"
  rq_approval_reason :: string

text \<open>The keyword arguments of a transition; \<open>FieldOther\<close> is a keyword that names no field.\<close>

datatype appr_field =
    FieldResolvedBy "string option" | FieldResolvedAt "datetime option"
  | FieldResolutionReason "string option" | FieldConsumedAt "datetime option" | FieldOther string

fun apply_field :: "appr_field \<Rightarrow> approval_request \<Rightarrow> approval_request" where
  "apply_field (FieldResolvedBy v) r = r\<lparr>rq_resolved_by := v\<rparr>"
| "apply_field (FieldResolvedAt v) r = r\<lparr>rq_resolved_at := v\<rparr>"
| "apply_field (FieldResolutionReason v) r = r\<lparr>rq_resolution_reason := v\<rparr>"
| "apply_field (FieldConsumedAt v) r = r\<lparr>rq_consumed_at := v\<rparr>"
| "apply_field (FieldOther n) r = r"

fun field_known :: "appr_field \<Rightarrow> bool" where
  "field_known (FieldOther n) = False"
| "field_known _ = True"

definition apply_fields :: "appr_field list \<Rightarrow> approval_request \<Rightarrow> approval_request" where
  "apply_fields fs r = fold apply_field fs r"

definition with_status :: "approval_status \<Rightarrow> appr_field list \<Rightarrow> approval_request \<Rightarrow> exn + approval_request" where
  "with_status s fs r = (if list_all field_known fs then Inr (apply_fields fs (r\<lparr>rq_status := s\<rparr>))
     else Inl (Other ''TypeError''))"

record approval_row =
  ar_subject :: string
  ar_actor :: string
  ar_delegation_depth :: nat
  ar_tool :: string
  ar_args_hash :: string
  ar_decision_id :: string
  ar_created_at :: datetime
  ar_expires_at :: datetime
  ar_status :: string
  ar_resolved_by :: "string option"
  ar_resolved_at :: "datetime option"
  ar_resolution_reason :: "string option"
  ar_consumed_at :: "datetime option"
  ar_approval_reason :: string

record 'x appr_world = "'x conn_world" +
  w_appr_mem :: "(string \<times> approval_request) list"
  w_appr_rows :: "(string \<times> approval_row) list"

text \<open>\<open>ApprovalStore\<close>\<close>

record 'w appr_store =
  as_create :: "approval_request \<Rightarrow> ('w, exn, unit) eff"
  as_get :: "string \<Rightarrow> ('w, exn, approval_request option) eff"
  as_update :: "approval_request \<Rightarrow> ('w, exn, unit) eff"
  as_transition :: "string \<Rightarrow> approval_status list \<Rightarrow> approval_status \<Rightarrow> appr_field list
    \<Rightarrow> ('w, exn, approval_request option) eff"
  as_consume :: "string \<Rightarrow> datetime \<Rightarrow> ('w, exn, approval_request option) eff"
  as_list_pending :: "string option \<Rightarrow> ('w, exn, approval_request list) eff"
  as_expire_pending :: "datetime \<Rightarrow> ('w, exn, nat) eff"

section \<open>The in-memory store\<close>

definition mem_appr_create :: "approval_request \<Rightarrow> (('x, 'm) appr_world_scheme, exn, unit) eff" where
  "mem_appr_create r = (\<lambda>w.
     if map_of (w_appr_mem w) (rq_request_id r) \<noteq> None then (Inl (hoc ApprovalStoreUnavailable), w)
     else (Inr (), w\<lparr>w_appr_mem := AList.update (rq_request_id r) r (w_appr_mem w)\<rparr>))"

definition mem_appr_get :: "string \<Rightarrow> (('x, 'm) appr_world_scheme, exn, approval_request option) eff" where
  "mem_appr_get i = getsE (\<lambda>w. map_of (w_appr_mem w) i)"

definition mem_appr_update :: "approval_request \<Rightarrow> (('x, 'm) appr_world_scheme, exn, unit) eff" where
  "mem_appr_update r = (\<lambda>w.
     if map_of (w_appr_mem w) (rq_request_id r) = None then (Inl (hoc ApprovalStoreUnavailable), w)
     else (Inr (), w\<lparr>w_appr_mem := AList.update (rq_request_id r) r (w_appr_mem w)\<rparr>))"

definition mem_appr_transition ::
    "string \<Rightarrow> approval_status list \<Rightarrow> approval_status \<Rightarrow> appr_field list
     \<Rightarrow> (('x, 'm) appr_world_scheme, exn, approval_request option) eff" where
  "mem_appr_transition i froms to fs = (\<lambda>w. case map_of (w_appr_mem w) i of
     None \<Rightarrow> (Inr None, w)
   | Some current \<Rightarrow>
       if rq_status current \<notin> set froms then (Inr None, w)
       else (case with_status to fs current of
         Inl e \<Rightarrow> (Inl e, w)
       | Inr moved \<Rightarrow> (Inr (Some moved), w\<lparr>w_appr_mem := AList.update i moved (w_appr_mem w)\<rparr>)))"

definition mem_appr_consume :: "string \<Rightarrow> datetime \<Rightarrow> (('x, 'm) appr_world_scheme, exn, approval_request option) eff" where
  "mem_appr_consume i t = mem_appr_transition i [APPROVED] CONSUMED [FieldConsumedAt (Some t)]"

definition pending_of :: "string option \<Rightarrow> approval_request \<Rightarrow> bool" where
  "pending_of subj r = (rq_status r = PENDING \<and> (subj = None \<or> subj = Some (rq_subject r)))"

definition mem_appr_list_pending :: "string option \<Rightarrow> (('x, 'm) appr_world_scheme, exn, approval_request list) eff" where
  "mem_appr_list_pending subj = getsE (\<lambda>w. filter (pending_of subj) (map snd (w_appr_mem w)))"

definition overdue :: "datetime \<Rightarrow> approval_request \<Rightarrow> bool" where
  "overdue t r = (rq_status r = PENDING \<and> rq_expires_at r < t)"

definition mem_appr_expire_pending :: "datetime \<Rightarrow> (('x, 'm) appr_world_scheme, exn, nat) eff" where
  "mem_appr_expire_pending t = stateE (\<lambda>w.
     let late = filter (overdue t) (map snd (w_appr_mem w)) in
     (length late, w\<lparr>w_appr_mem := fold (\<lambda>r. AList.update (rq_request_id r) (r\<lparr>rq_status := EXPIRED\<rparr>)) late
        (w_appr_mem w)\<rparr>))"

definition mem_appr_store :: "('x, 'm) appr_world_scheme appr_store" where
  "mem_appr_store = \<lparr>as_create = mem_appr_create, as_get = mem_appr_get, as_update = mem_appr_update,
     as_transition = mem_appr_transition, as_consume = mem_appr_consume,
     as_list_pending = mem_appr_list_pending, as_expire_pending = mem_appr_expire_pending\<rparr>"

section \<open>The Postgres store\<close>

text \<open>\<open>_values\<close> and \<open>_from_row\<close>, the primary key apart.\<close>

definition appr_values :: "approval_request \<Rightarrow> approval_row" where
  "appr_values r = \<lparr>ar_subject = rq_subject r, ar_actor = rq_actor r,
     ar_delegation_depth = rq_delegation_depth r, ar_tool = rq_tool r, ar_args_hash = rq_args_hash r,
     ar_decision_id = rq_decision_id r, ar_created_at = rq_created_at r, ar_expires_at = rq_expires_at r,
     ar_status = status_value (rq_status r), ar_resolved_by = rq_resolved_by r,
     ar_resolved_at = rq_resolved_at r, ar_resolution_reason = rq_resolution_reason r,
     ar_consumed_at = rq_consumed_at r, ar_approval_reason = rq_approval_reason r\<rparr>"

definition appr_from_row :: "string \<times> approval_row \<Rightarrow> exn + approval_request" where
  "appr_from_row kr = (case kr of (i, row) \<Rightarrow> (case status_of (ar_status row) of
     Inl e \<Rightarrow> Inl e
   | Inr s \<Rightarrow> Inr \<lparr>rq_request_id = i, rq_subject = ar_subject row, rq_actor = ar_actor row,
       rq_delegation_depth = ar_delegation_depth row, rq_tool = ar_tool row, rq_args_hash = ar_args_hash row,
       rq_decision_id = ar_decision_id row, rq_created_at = ar_created_at row, rq_expires_at = ar_expires_at row,
       rq_status = s, rq_resolved_by = ar_resolved_by row, rq_resolved_at = ar_resolved_at row,
       rq_resolution_reason = ar_resolution_reason row, rq_consumed_at = ar_consumed_at row,
       rq_approval_reason = ar_approval_reason row\<rparr>))"

definition pg_appr_create :: "approval_request \<Rightarrow> (('x, 'm) appr_world_scheme, exn, unit) eff" where
  "pg_appr_create r = db_stmt ApprovalStoreUnavailable (\<lambda>w.
     if map_of (w_appr_rows w) (rq_request_id r) \<noteq> None then None
     else Some ((), w\<lparr>w_appr_rows := w_appr_rows w @ [(rq_request_id r, appr_values r)]\<rparr>))"

text \<open>\<open>SELECT ... ORDER BY created_at\<close>; rows created at the same instant stay in table order.\<close>

definition pg_appr_requests ::
    "(string \<times> approval_row \<Rightarrow> bool) \<Rightarrow> (('x, 'm) appr_world_scheme, exn, approval_request list) eff" where
  "pg_appr_requests cond =
     bindE (db_query ApprovalStoreUnavailable
       (\<lambda>w. sort_key (\<lambda>(i, row). ar_created_at row) (filter cond (w_appr_rows w))))
     (mapE (\<lambda>kr. liftE (appr_from_row kr)))"

definition pg_appr_get :: "string \<Rightarrow> (('x, 'm) appr_world_scheme, exn, approval_request option) eff" where
  "pg_appr_get i = bindE (pg_appr_requests (\<lambda>(k, row). k = i)) (\<lambda>rows.
     retE (case rows of [] \<Rightarrow> None | r # _ \<Rightarrow> Some r))"

definition pg_appr_update :: "approval_request \<Rightarrow> (('x, 'm) appr_world_scheme, exn, unit) eff" where
  "pg_appr_update r = db_stmt ApprovalStoreUnavailable (\<lambda>w. Some ((),
     w\<lparr>w_appr_rows := map (\<lambda>(k, row). (k, if k = rq_request_id r then
       row\<lparr>ar_status := status_value (rq_status r), ar_resolved_by := rq_resolved_by r,
           ar_resolved_at := rq_resolved_at r, ar_resolution_reason := rq_resolution_reason r,
           ar_consumed_at := rq_consumed_at r\<rparr> else row)) (w_appr_rows w)\<rparr>))"

fun set_column :: "appr_field \<Rightarrow> approval_row \<Rightarrow> approval_row" where
  "set_column (FieldResolvedBy v) r = r\<lparr>ar_resolved_by := v\<rparr>"
| "set_column (FieldResolvedAt v) r = r\<lparr>ar_resolved_at := v\<rparr>"
| "set_column (FieldResolutionReason v) r = r\<lparr>ar_resolution_reason := v\<rparr>"
| "set_column (FieldConsumedAt v) r = r\<lparr>ar_consumed_at := v\<rparr>"
| "set_column (FieldOther n) r = r"

text \<open>\<open>UPDATE ... WHERE request_id = %s AND status = ANY(%s) RETURNING ...\<close>\<close>

definition pg_appr_transition ::
    "string \<Rightarrow> approval_status list \<Rightarrow> approval_status \<Rightarrow> appr_field list
     \<Rightarrow> (('x, 'm) appr_world_scheme, exn, approval_request option) eff" where
  "pg_appr_transition i froms to fs =
     (if \<not> list_all field_known fs then raiseE (hoc ApprovalStoreUnavailable)
      else bindE (db_stmt ApprovalStoreUnavailable (\<lambda>w. case map_of (w_appr_rows w) i of
          None \<Rightarrow> Some (None, w)
        | Some row \<Rightarrow>
            if ar_status row \<notin> set (map status_value froms) then Some (None, w)
            else (let moved = fold set_column fs (row\<lparr>ar_status := status_value to\<rparr>)
                  in Some (Some (i, moved),
                    w\<lparr>w_appr_rows := map (\<lambda>(k, r). (k, if k = i then moved else r)) (w_appr_rows w)\<rparr>))))
        (\<lambda>row. case row of None \<Rightarrow> retE None
           | Some kr \<Rightarrow> bindE (liftE (appr_from_row kr)) (\<lambda>r. retE (Some r))))"

definition pg_appr_consume :: "string \<Rightarrow> datetime \<Rightarrow> (('x, 'm) appr_world_scheme, exn, approval_request option) eff" where
  "pg_appr_consume i t = pg_appr_transition i [APPROVED] CONSUMED [FieldConsumedAt (Some t)]"

definition pg_appr_list_pending :: "string option \<Rightarrow> (('x, 'm) appr_world_scheme, exn, approval_request list) eff" where
  "pg_appr_list_pending subj = (case subj of
     None \<Rightarrow> pg_appr_requests (\<lambda>(k, row). ar_status row = status_value PENDING)
   | Some s \<Rightarrow> pg_appr_requests (\<lambda>(k, row). ar_status row = status_value PENDING \<and> ar_subject row = s))"

definition row_overdue :: "datetime \<Rightarrow> approval_row \<Rightarrow> bool" where
  "row_overdue t row = (ar_status row = status_value PENDING \<and> ar_expires_at row < t)"

definition pg_appr_expire_pending :: "datetime \<Rightarrow> (('x, 'm) appr_world_scheme, exn, nat) eff" where
  "pg_appr_expire_pending t = db_stmt ApprovalStoreUnavailable (\<lambda>w. Some (
     length (filter (\<lambda>(k, row). row_overdue t row) (w_appr_rows w)),
     w\<lparr>w_appr_rows := map (\<lambda>(k, row). (k, if row_overdue t row then row\<lparr>ar_status := status_value EXPIRED\<rparr> else row))
        (w_appr_rows w)\<rparr>))"

definition pg_appr_store :: "('x, 'm) appr_world_scheme appr_store" where
  "pg_appr_store = \<lparr>as_create = pg_appr_create, as_get = pg_appr_get, as_update = pg_appr_update,
     as_transition = pg_appr_transition, as_consume = pg_appr_consume,
     as_list_pending = pg_appr_list_pending, as_expire_pending = pg_appr_expire_pending\<rparr>"

section \<open>Resolution\<close>

definition approval_event ::
    "event_kind \<Rightarrow> datetime \<Rightarrow> approval_request \<Rightarrow> string \<Rightarrow> string \<Rightarrow> string \<Rightarrow> string \<Rightarrow> audit_event" where
  "approval_event kind t rq act out reason eid =
     \<lparr>ev_kind = kind, ev_timestamp = t, ev_subject = rq_subject rq, ev_actor = act,
      ev_delegation_depth = rq_delegation_depth rq, ev_action = ''approval:'' @ rq_request_id rq,
      ev_resource = rq_tool rq, ev_outcome = out, ev_reason = reason, ev_engine_latency_ms = float_zero,
      ev_token_fingerprint = None, ev_args_hash = Some (rq_args_hash rq),
      ev_decision_id = Some (rq_decision_id rq), ev_event_id = eid\<rparr>"

text \<open>\<open>validate_ref(approver, "user")\<close>, any violation raised again as an \<open>ApprovalError\<close>.\<close>

definition check_approver :: "string \<Rightarrow> ('w, exn, unit) eff" where
  "check_approver who = catchE (bindE (liftE (validate_ref who ''user'')) (\<lambda>_. retE ()))
     (\<lambda>e. if catches InvariantViolation e then raiseE (hoc ApprovalError) else raiseE e)"

definition refusal ::
    "('x, 'm) world_scheme authz_engine option \<Rightarrow> approval_request \<Rightarrow> string \<Rightarrow> bool
     \<Rightarrow> (('x, 'm) world_scheme, exn, string option) eff" where
  "refusal engine rq who allow_self =
     (if who = rq_subject rq then retE (if allow_self then None else Some ''self_approval_disabled'')
      else case engine of
        None \<Rightarrow> retE (Some ''engine_unavailable'')
      | Some eng \<Rightarrow> bindE (attemptE (eng_check eng who APPROVER_RELATION (rq_tool rq))) (\<lambda>answer.
          retE (case answer of
            Inl e \<Rightarrow> Some (failure_reason ''engine_unavailable'' e)
          | Inr ok \<Rightarrow> if ok then None else Some ''approver_not_authorized'')))"

definition authorize_approver ::
    "('x, 'm) world_scheme authz_engine option \<Rightarrow> ('x, 'm) world_scheme audit_sink \<Rightarrow> datetime
     \<Rightarrow> approval_request \<Rightarrow> string \<Rightarrow> bool \<Rightarrow> (('x, 'm) world_scheme, exn, unit) eff" where
  "authorize_approver engine audit t rq who allow_self =
     bindE (check_approver who) (\<lambda>_.
     bindE (refusal engine rq who allow_self) (\<lambda>reason. case reason of
       None \<Rightarrow> retE ()
     | Some why \<Rightarrow>
         bindE uuid4_hex (\<lambda>eid.
         bindE (audit (approval_event EvApprovalResolved t rq who ''REFUSED'' why eid)) (\<lambda>_.
         raiseE (Hoc ApprovalError why)))))"

definition status_upper :: "approval_status \<Rightarrow> string" where
  "status_upper s = (case s of PENDING \<Rightarrow> ''PENDING'' | APPROVED \<Rightarrow> ''APPROVED'' | REJECTED \<Rightarrow> ''REJECTED''
     | EXPIRED \<Rightarrow> ''EXPIRED'' | CONSUMED \<Rightarrow> ''CONSUMED'')"

definition resolve_request ::
    "('x, 'm) world_scheme appr_store \<Rightarrow> ('x, 'm) world_scheme audit_sink \<Rightarrow> datetime \<Rightarrow> string \<Rightarrow> string
     \<Rightarrow> bool \<Rightarrow> string \<Rightarrow> bool \<Rightarrow> (('x, 'm) world_scheme, exn, approval_request) eff" where
  "resolve_request store audit t i who approved reason allow_self =
     bindE (check_approver who) (\<lambda>_.
     bindE (as_get store i) (\<lambda>found. case found of
       None \<Rightarrow> raiseE (hoc ApprovalError)
     | Some rq0 \<Rightarrow>
     bindE (if rq_status rq0 = PENDING \<and> t > rq_expires_at rq0
            then (let late = rq0\<lparr>rq_status := EXPIRED\<rparr> in bindE (as_update store late) (\<lambda>_. retE late))
            else retE rq0) (\<lambda>rq.
     if rq_status rq \<noteq> PENDING then raiseE (hoc ApprovalError)
     else if who = rq_subject rq \<and> \<not> allow_self then raiseE (hoc ApprovalError)
     else let s = (if approved then APPROVED else REJECTED) in
     bindE (as_transition store i [PENDING] s
         [FieldResolvedBy (Some who), FieldResolvedAt (Some t), FieldResolutionReason (Some reason)]) (\<lambda>res.
     case res of
       None \<Rightarrow> raiseE (Hoc ApprovalError ''approval_not_pending'')
     | Some resolved \<Rightarrow>
         bindE uuid4_hex (\<lambda>eid.
         bindE (audit (approval_event EvApprovalResolved t rq who (status_upper s)
             (if reason = [] then status_value s else reason) eid)) (\<lambda>_.
         retE resolved))))))"

section \<open>The contract of a store\<close>

type_synonym requests = "string \<Rightarrow> approval_request option"

definition spec_create :: "approval_request \<Rightarrow> requests \<Rightarrow> unit \<Rightarrow> requests \<Rightarrow> bool" where
  "spec_create r m u m' \<longleftrightarrow> m (rq_request_id r) = None \<and> m' = m(rq_request_id r \<mapsto> r)"

definition spec_get :: "string \<Rightarrow> requests \<Rightarrow> approval_request option \<Rightarrow> requests \<Rightarrow> bool" where
  "spec_get i m x m' \<longleftrightarrow> m' = m \<and> x = m i"

text \<open>The fields a request keeps for life: what was asked, by whom, when and until when.\<close>

definition same_call :: "approval_request \<Rightarrow> approval_request \<Rightarrow> bool" where
  "same_call r r0 \<longleftrightarrow> r = r0\<lparr>rq_status := rq_status r, rq_resolved_by := rq_resolved_by r,
     rq_resolved_at := rq_resolved_at r, rq_resolution_reason := rq_resolution_reason r,
     rq_consumed_at := rq_consumed_at r\<rparr>"

definition spec_update :: "approval_request \<Rightarrow> requests \<Rightarrow> unit \<Rightarrow> requests \<Rightarrow> bool" where
  "spec_update r m u m' \<longleftrightarrow> (case m (rq_request_id r) of
     None \<Rightarrow> m' = m
   | Some r0 \<Rightarrow> \<exists>r1. rq_status r1 = rq_status r \<and> (same_call r r0 \<longrightarrow> r1 = r) \<and> m' = m(rq_request_id r \<mapsto> r1))"

definition spec_transition ::
    "string \<Rightarrow> approval_status list \<Rightarrow> approval_status \<Rightarrow> appr_field list
     \<Rightarrow> requests \<Rightarrow> approval_request option \<Rightarrow> requests \<Rightarrow> bool" where
  "spec_transition i froms to fs m x m' \<longleftrightarrow> (case m i of
     None \<Rightarrow> x = None \<and> m' = m
   | Some r \<Rightarrow> if rq_status r \<in> set froms
       then (let moved = apply_fields fs (r\<lparr>rq_status := to\<rparr>) in x = Some moved \<and> m' = m(i \<mapsto> moved))
       else x = None \<and> m' = m)"

definition spec_pending :: "string option \<Rightarrow> requests \<Rightarrow> approval_request list \<Rightarrow> requests \<Rightarrow> bool" where
  "spec_pending subj m xs m' \<longleftrightarrow> m' = m \<and> set xs = {r \<in> ran m. pending_of subj r}"

definition spec_expire :: "datetime \<Rightarrow> requests \<Rightarrow> nat \<Rightarrow> requests \<Rightarrow> bool" where
  "spec_expire t m n m' \<longleftrightarrow> m' = (\<lambda>i. map_option (\<lambda>r. if overdue t r then r\<lparr>rq_status := EXPIRED\<rparr> else r) (m i))"

text \<open>The store calls of the program: \<open>gate\<close> creates pending requests, \<open>resolve_request\<close> resolves
  them or marks them overdue, \<open>redeem\<close> expires or consumes them, and the sweep expires them.\<close>

datatype appr_op =
    OpCreate approval_request | OpTransition string "approval_status list" approval_status "appr_field list"
  | OpConsume string datetime | OpUpdate approval_request | OpExpire datetime

text \<open>How far a request has come; the three final statuses are the same distance.\<close>

fun status_rank :: "approval_status \<Rightarrow> nat" where
  "status_rank PENDING = 0"
| "status_rank APPROVED = 1"
| "status_rank _ = 2"

fun program_op :: "appr_op \<Rightarrow> bool" where
  "program_op (OpCreate r) = (rq_status r = PENDING)"
| "program_op (OpTransition i froms to fs) = ((froms, to) \<in>
     {([PENDING], APPROVED), ([PENDING], REJECTED), ([PENDING, APPROVED], EXPIRED)})"
| "program_op (OpConsume i t) = True"
| "program_op (OpUpdate r) = (rq_status r = EXPIRED)"
| "program_op (OpExpire t) = True"

text \<open>One call, whatever it answers: whether it was a consumption that succeeded, and the state.\<close>

fun run_op :: "'w appr_store \<Rightarrow> appr_op \<Rightarrow> 'w \<Rightarrow> approval_request option \<times> 'w" where
  "run_op st (OpCreate r) w = (None, snd (as_create st r w))"
| "run_op st (OpTransition i froms to fs) w = (None, snd (as_transition st i froms to fs w))"
| "run_op st (OpConsume i t) w = (case as_consume st i t w of (Inr r, w') \<Rightarrow> (r, w') | (Inl e, w') \<Rightarrow> (None, w'))"
| "run_op st (OpUpdate r) w = (None, snd (as_update st r w))"
| "run_op st (OpExpire t) w = (None, snd (as_expire_pending st t w))"

fun consumptions :: "'w appr_store \<Rightarrow> appr_op list \<Rightarrow> 'w \<Rightarrow> approval_request list" where
  "consumptions st [] w = []"
| "consumptions st (op # ops) w = (case run_op st op w of (r, w') \<Rightarrow>
     (case r of None \<Rightarrow> [] | Some c \<Rightarrow> [c]) @ consumptions st ops w')"

definition rank_of :: "requests \<Rightarrow> string \<Rightarrow> nat" where
  "rank_of m i = (case m i of None \<Rightarrow> 0 | Some r \<Rightarrow> status_rank (rq_status r))"

lemma status_rank_le: "status_rank s \<le> 2"
  by (cases s) simp_all

lemma rank_of_le: "rank_of m i \<le> 2"
  by (simp add: rank_of_def status_rank_le split: option.splits)

lemma fold_apply_field_fixed [simp]:
  "rq_status (fold apply_field fs r) = rq_status r"
  "rq_request_id (fold apply_field fs r) = rq_request_id r"
  by (induction fs arbitrary: r; simp; rename_tac a fs r; case_tac a; simp)+

lemma apply_fields_fixed [simp]:
  "rq_status (apply_fields fs r) = rq_status r" "rq_request_id (apply_fields fs r) = rq_request_id r"
  by (simp_all add: apply_fields_def)

text \<open>No call of the program takes a request back, and every step that moves one moves it forward.\<close>

lemma rank_mono_transition:
  "spec_transition i froms to fs m x m' \<Longrightarrow> \<forall>s\<in>set froms. status_rank s \<le> status_rank to \<Longrightarrow> rank_of m j \<le> rank_of m' j"
  by (auto simp: spec_transition_def rank_of_def Let_def split: option.splits if_splits)

lemma rank_mono_create: "spec_create r m u m' \<Longrightarrow> rank_of m j \<le> rank_of m' j"
  by (auto simp: spec_create_def rank_of_def)

lemma rank_mono_update: "spec_update r m u m' \<Longrightarrow> status_rank (rq_status r) = 2 \<Longrightarrow> rank_of m j \<le> rank_of m' j"
  by (auto simp: spec_update_def rank_of_def status_rank_le split: option.splits if_splits)

lemma rank_mono_expire: "spec_expire t m n m' \<Longrightarrow> rank_of m j \<le> rank_of m' j"
  by (auto simp: spec_expire_def rank_of_def overdue_def split: option.splits)

locale approval_contract =
  fixes store :: "'w appr_store"
    and reqs :: "'w \<Rightarrow> requests"
    and good :: "'w \<Rightarrow> bool"
  assumes create: "atomic reqs good (spec_create r) (as_create store r)"
    and get: "atomic reqs good (spec_get i) (as_get store i)"
    and update: "atomic reqs good (spec_update r) (as_update store r)"
    and transition: "atomic reqs good (spec_transition i froms to fs) (as_transition store i froms to fs)"
    and consume_is: "as_consume store i t = as_transition store i [APPROVED] CONSUMED [FieldConsumedAt (Some t)]"
    and list_pending: "atomic reqs good (spec_pending subj) (as_list_pending store subj)"
    and expire: "atomic reqs good (spec_expire t) (as_expire_pending store t)"
    and ids: "good w \<Longrightarrow> reqs w i = Some r \<Longrightarrow> rq_request_id r = i"
begin

lemma atomic_rank:
  assumes "atomic reqs good spec m" "good w"
    and mono: "\<And>s x s' j. spec s x s' \<Longrightarrow> rank_of s j \<le> rank_of s' j"
  shows "good (snd (m w)) \<and> rank_of (reqs w) j \<le> rank_of (reqs (snd (m w))) j"
proof (cases "m w")
  case (Pair r w')
  show ?thesis
  proof (cases r)
    case (Inl e)
    have "good w' \<and> (reqs w' = reqs w \<or> (\<exists>x. spec (reqs w) x (reqs w')))"
      by (rule atomicD(2) [OF assms(1,2)]) (use Pair Inl in simp)
    then show ?thesis using Pair mono by auto
  next
    case (Inr x)
    have "good w' \<and> spec (reqs w) x (reqs w')"
      by (rule atomicD(1) [OF assms(1,2)]) (use Pair Inr in simp)
    then show ?thesis using Pair mono by auto
  qed
qed

lemma consume_step:
  assumes "good w" "as_consume store i t w = (Inr (Some c), w')"
  shows "good w' \<and> rq_request_id c = i \<and> rank_of (reqs w) i = 1 \<and> rank_of (reqs w') i = 2
    \<and> (\<exists>r. reqs w i = Some r \<and> rq_status r = APPROVED
        \<and> c = r\<lparr>rq_status := CONSUMED, rq_consumed_at := Some t\<rparr> \<and> reqs w' = (reqs w)(i \<mapsto> c))"
proof -
  have "good w' \<and> spec_transition i [APPROVED] CONSUMED [FieldConsumedAt (Some t)] (reqs w) (Some c) (reqs w')"
    using atomicD(1) [OF transition assms(1)] assms(2) consume_is by simp
  then show ?thesis using ids [OF assms(1), of i]
    by (auto simp: spec_transition_def rank_of_def Let_def apply_fields_def split: option.splits if_splits)
qed

lemma run_op_rank:
  assumes "good w" "program_op op" "run_op store op w = (res, w')"
  shows "good w' \<and> rank_of (reqs w) j \<le> rank_of (reqs w') j
    \<and> (\<forall>c. res = Some c \<longrightarrow> rank_of (reqs w) (rq_request_id c) = 1 \<and> rank_of (reqs w') (rq_request_id c) = 2)"
proof (cases op)
  case (OpCreate r)
  then show ?thesis using atomic_rank [OF create assms(1) rank_mono_create] assms(3) by auto
next
  case (OpTransition i froms to fs)
  have "\<forall>s\<in>set froms. status_rank s \<le> status_rank to" using assms(2) OpTransition by auto
  then show ?thesis
    using atomic_rank [OF transition assms(1) rank_mono_transition] assms(3) OpTransition by fastforce
next
  case (OpUpdate r)
  then show ?thesis using atomic_rank [OF update assms(1) rank_mono_update, of r] assms(2,3) by auto
next
  case (OpExpire t)
  then show ?thesis using atomic_rank [OF expire assms(1) rank_mono_expire] assms(3) by auto
next
  case (OpConsume i t)
  obtain out where run: "as_consume store i t w = (out, w')" "res = (case out of Inr r \<Rightarrow> r | Inl e \<Rightarrow> None)"
    using assms(3) OpConsume by (cases "as_consume store i t w") (auto split: sum.splits)
  have "good (snd (as_consume store i t w)) \<and> rank_of (reqs w) j \<le> rank_of (reqs (snd (as_consume store i t w))) j"
    unfolding consume_is by (rule atomic_rank [OF transition assms(1) rank_mono_transition]) auto
  moreover have "rank_of (reqs w) (rq_request_id c) = 1 \<and> rank_of (reqs w') (rq_request_id c) = 2" if "res = Some c" for c
  proof -
    have "out = Inr (Some c)" using run(2) that by (cases out) auto
    then show ?thesis using consume_step [OF assms(1)] run(1) by blast
  qed
  ultimately show ?thesis using run(1) by simp
qed

text \<open>Whatever the calls and their failures, a request is handed out as consumed at most once.\<close>

lemma consumed_at_most_once:
  assumes "good w" "list_all program_op ops"
  shows "length (filter (\<lambda>c. rq_request_id c = i) (consumptions store ops w))
    \<le> (if rank_of (reqs w) i < 2 then 1 else 0)"
  using assms
proof (induction ops arbitrary: w)
  case (Cons op ops)
  obtain res w' where run: "run_op store op w = (res, w')" by fastforce
  have step: "good w'" "rank_of (reqs w) i \<le> rank_of (reqs w') i"
      "\<And>c. res = Some c \<Longrightarrow> rank_of (reqs w) (rq_request_id c) = 1 \<and> rank_of (reqs w') (rq_request_id c) = 2"
    using run_op_rank [OF Cons.prems(1) _ run] Cons.prems(2) by auto
  have rest: "length (filter (\<lambda>c. rq_request_id c = i) (consumptions store ops w'))
      \<le> (if rank_of (reqs w') i < 2 then 1 else 0)"
    by (rule Cons.IH [OF step(1)]) (use Cons.prems(2) in simp)
  show ?case
  proof (cases "\<exists>c. res = Some c \<and> rq_request_id c = i")
    case True
    then show ?thesis using step(3) rest run by auto
  next
    case False
    then show ?thesis using rest run step(2) by (auto split: option.splits if_splits)
  qed
qed simp

end

subsection \<open>Both stores satisfy it\<close>

definition mem_appr_good :: "('x, 'm) appr_world_scheme \<Rightarrow> bool" where
  "mem_appr_good w \<longleftrightarrow> distinct (map fst (w_appr_mem w)) \<and>
     (\<forall>k r. map_of (w_appr_mem w) k = Some r \<longrightarrow> rq_request_id r = k)"

definition mem_appr_reqs :: "('x, 'm) appr_world_scheme \<Rightarrow> requests" where
  "mem_appr_reqs w = map_of (w_appr_mem w)"

lemma fold_update_map_of:
  assumes "\<forall>r\<in>set rs. map_of al0 (rq_request_id r) = Some r"
    and "\<And>k r. map_of al0 k = Some r \<Longrightarrow> rq_request_id r = k"
  shows "map_of (fold (\<lambda>r. AList.update (rq_request_id r) (g r)) rs al) k =
    (case map_of al0 k of Some r \<Rightarrow> if r \<in> set rs then Some (g r) else map_of al k | None \<Rightarrow> map_of al k)"
  using assms(1)
proof (induction rs arbitrary: al)
  case (Cons x xs)
  let ?al = "AList.update (rq_request_id x) (g x) al"
  have IH: "map_of (fold (\<lambda>r. AList.update (rq_request_id r) (g r)) xs ?al) k =
      (case map_of al0 k of Some r \<Rightarrow> if r \<in> set xs then Some (g r) else map_of ?al k | None \<Rightarrow> map_of ?al k)"
    by (rule Cons.IH) (use Cons.prems in simp)
  have x: "map_of al0 (rq_request_id x) = Some x" using Cons.prems by simp
  show ?case
  proof (cases "k = rq_request_id x")
    case True
    then show ?thesis using IH x by (simp add: map_of_update)
  next
    case False
    then have "map_of al0 k \<noteq> Some x" using assms(2) by blast
    then show ?thesis using IH False by (simp add: map_of_update split: option.splits)
  qed
qed (simp split: option.splits)

lemma distinct_fold_update:
  "distinct (map fst al) \<Longrightarrow> distinct (map fst (fold (\<lambda>r. AList.update (f r) (g r)) rs al))"
  by (induction rs arbitrary: al) (simp_all add: distinct_update)

lemma mem_expire_map_of:
  assumes "mem_appr_good w"
  shows "map_of (fold (\<lambda>r. AList.update (rq_request_id r) (r\<lparr>rq_status := EXPIRED\<rparr>))
      (filter (overdue t) (map snd (w_appr_mem w))) (w_appr_mem w)) k
    = map_option (\<lambda>r. if overdue t r then r\<lparr>rq_status := EXPIRED\<rparr> else r) (map_of (w_appr_mem w) k)"
proof -
  have ids: "\<And>k r. map_of (w_appr_mem w) k = Some r \<Longrightarrow> rq_request_id r = k"
    using assms by (auto simp: mem_appr_good_def simp del: map_of_eq_Some_iff)
  have vals: "map_of (w_appr_mem w) (rq_request_id r) = Some r" if "r \<in> snd ` set (w_appr_mem w)" for r
  proof -
    from that obtain k where "(k, r) \<in> set (w_appr_mem w)" by auto
    then have "map_of (w_appr_mem w) k = Some r" using assms by (simp add: mem_appr_good_def)
    then show ?thesis using ids by blast
  qed
  have mem: "r \<in> snd ` set (w_appr_mem w)" if "map_of (w_appr_mem w) k = Some r" for r
    using map_of_SomeD [OF that] by force
  show ?thesis
    by (subst fold_update_map_of [OF _ ids])
       (use vals mem in \<open>auto split: option.splits simp del: map_of_eq_Some_iff\<close>)
qed

interpretation mem_appr: approval_contract mem_appr_store mem_appr_reqs mem_appr_good
proof
  fix r :: approval_request
  show "atomic mem_appr_reqs mem_appr_good (spec_create r) (as_create mem_appr_store r)"
    by (rule atomicI)
       (auto simp: mem_appr_store_def mem_appr_create_def mem_appr_good_def mem_appr_reqs_def spec_create_def
          map_of_update distinct_update split: if_splits simp del: map_of_eq_Some_iff)
  show "atomic mem_appr_reqs mem_appr_good (spec_update r) (as_update mem_appr_store r)"
    by (rule atomicI)
       (auto simp: mem_appr_store_def mem_appr_update_def mem_appr_good_def mem_appr_reqs_def spec_update_def
          map_of_update distinct_update split: if_splits simp del: map_of_eq_Some_iff)
next
  fix i froms to fs
  show "atomic mem_appr_reqs mem_appr_good (spec_transition i froms to fs) (as_transition mem_appr_store i froms to fs)"
    by (rule atomicI)
       (auto simp: mem_appr_store_def mem_appr_transition_def mem_appr_good_def mem_appr_reqs_def spec_transition_def
          with_status_def map_of_update distinct_update Let_def split: if_splits option.splits simp del: map_of_eq_Some_iff)
next
  fix t
  show "atomic mem_appr_reqs mem_appr_good (spec_expire t) (as_expire_pending mem_appr_store t)"
    by (rule atomicI)
       (auto simp: mem_appr_store_def mem_appr_expire_pending_def stateE_def Let_def spec_expire_def mem_appr_reqs_def
          mem_expire_map_of fun_eq_iff mem_appr_good_def distinct_fold_update simp del: map_of_eq_Some_iff)
next
  fix subj
  show "atomic mem_appr_reqs mem_appr_good (spec_pending subj) (as_list_pending mem_appr_store subj)"
    by (auto intro!: atomic_getsE simp: mem_appr_store_def mem_appr_list_pending_def spec_pending_def
        mem_appr_reqs_def mem_appr_good_def ran_map_of)
qed (auto intro!: atomic_getsE simp: mem_appr_store_def mem_appr_get_def spec_get_def mem_appr_reqs_def
      mem_appr_consume_def mem_appr_good_def simp del: map_of_eq_Some_iff)

text \<open>
  A good table holds the encodings of requests under distinct keys; \<open>by_id\<close> is the map they stand for.
\<close>

definition appr_entry :: "approval_request \<Rightarrow> string \<times> approval_row" where
  "appr_entry r = (rq_request_id r, appr_values r)"

definition by_id :: "approval_request list \<Rightarrow> requests" where
  "by_id rs = map_of (map (\<lambda>r. (rq_request_id r, r)) rs)"

definition pg_appr_good :: "('x, 'm) appr_world_scheme \<Rightarrow> bool" where
  "pg_appr_good w \<longleftrightarrow> (\<exists>rs. w_appr_rows w = map appr_entry rs \<and> distinct (map rq_request_id rs))"

definition pg_appr_reqs :: "('x, 'm) appr_world_scheme \<Rightarrow> requests" where
  "pg_appr_reqs w i = (case map_of (w_appr_rows w) i of None \<Rightarrow> None
     | Some row \<Rightarrow> (case appr_from_row (i, row) of Inl e \<Rightarrow> None | Inr r \<Rightarrow> Some r))"

lemma status_of_value [simp]: "status_of (status_value s) = Inr s"
  by (cases s) (simp_all add: status_of_def)

lemma status_value_inject [simp]: "status_value a = status_value b \<longleftrightarrow> a = b"
  by (cases a; cases b) simp_all

text \<open>Writing a request and reading the row back is the identity.\<close>

lemma appr_row_round_trip [simp]: "appr_from_row (appr_entry r) = Inr r"
  by (simp add: appr_from_row_def appr_entry_def appr_values_def)

lemma appr_values_round_trip [simp]: "rq_request_id r = i \<Longrightarrow> appr_from_row (i, appr_values r) = Inr r"
  using appr_row_round_trip [of r] by (simp add: appr_entry_def)

lemma map_of_entries: "map_of (map appr_entry rs) i = map_option appr_values (by_id rs i)"
  by (induction rs) (simp_all add: appr_entry_def by_id_def)

lemma by_id_id: "by_id rs i = Some r \<Longrightarrow> rq_request_id r = i \<and> r \<in> set rs"
  by (auto simp: by_id_def dest!: map_of_SomeD)

lemma by_id_mem: "distinct (map rq_request_id rs) \<Longrightarrow> r \<in> set rs \<Longrightarrow> by_id rs (rq_request_id r) = Some r"
  by (simp add: by_id_def comp_def image_iff)

lemma ran_by_id: "distinct (map rq_request_id rs) \<Longrightarrow> ran (by_id rs) = set rs"
  by (auto simp: ran_def dest: by_id_id intro: by_id_mem)

lemma pg_appr_reqs_entries: "w_appr_rows w = map appr_entry rs \<Longrightarrow> pg_appr_reqs w = by_id rs"
  by (rule ext) (auto simp: pg_appr_reqs_def map_of_entries split: option.splits dest: by_id_id)

lemma pg_appr_goodE:
  assumes "pg_appr_good w"
  obtains rs where "w_appr_rows w = map appr_entry rs" "distinct (map rq_request_id rs)" "pg_appr_reqs w = by_id rs"
  using assms pg_appr_reqs_entries unfolding pg_appr_good_def by blast

lemma pg_appr_entriesI:
  "w_appr_rows w = map appr_entry rs \<Longrightarrow> distinct (map rq_request_id rs) \<Longrightarrow> pg_appr_good w \<and> pg_appr_reqs w = by_id rs"
  using pg_appr_reqs_entries unfolding pg_appr_good_def by blast

lemma pg_appr_frame [simp]:
  "pg_appr_reqs (w\<lparr>w_db_at := n\<rparr>) = pg_appr_reqs w" "pg_appr_good (w\<lparr>w_db_at := n\<rparr>) = pg_appr_good w"
  "pg_appr_reqs (w\<lparr>w_uuid_at := n\<rparr>) = pg_appr_reqs w" "pg_appr_good (w\<lparr>w_uuid_at := n\<rparr>) = pg_appr_good w"
  "pg_appr_reqs (w\<lparr>w_clock_at := n\<rparr>) = pg_appr_reqs w" "pg_appr_good (w\<lparr>w_clock_at := n\<rparr>) = pg_appr_good w"
  by (simp_all add: pg_appr_reqs_def pg_appr_good_def fun_eq_iff)

lemma spec_updateI:
  "m (rq_request_id r) = Some r0 \<Longrightarrow>
    m' = m(rq_request_id r \<mapsto> r0\<lparr>rq_status := rq_status r, rq_resolved_by := rq_resolved_by r,
      rq_resolved_at := rq_resolved_at r, rq_resolution_reason := rq_resolution_reason r,
      rq_consumed_at := rq_consumed_at r\<rparr>) \<Longrightarrow> spec_update r m u m'"
  unfolding spec_update_def same_call_def
  by (simp, rule exI [of _ "r0\<lparr>rq_status := rq_status r, rq_resolved_by := rq_resolved_by r,
      rq_resolved_at := rq_resolved_at r, rq_resolution_reason := rq_resolution_reason r,
      rq_consumed_at := rq_consumed_at r\<rparr>"]) simp

lemma by_id_at:
  "(\<lambda>i. map_option (\<lambda>r. if rq_request_id r = k then f r else r) (by_id rs i))
    = (case by_id rs k of None \<Rightarrow> by_id rs | Some r \<Rightarrow> (by_id rs)(k \<mapsto> f r))"
proof
  fix i
  show "map_option (\<lambda>r. if rq_request_id r = k then f r else r) (by_id rs i)
    = (case by_id rs k of None \<Rightarrow> by_id rs | Some r \<Rightarrow> (by_id rs)(k \<mapsto> f r)) i"
    using by_id_id [of rs i] by (cases "by_id rs i"; cases "i = k") (auto split: option.splits)
qed

text \<open>Changing every row by a function that keeps the key changes the map pointwise.\<close>

lemma by_id_map:
  "(\<And>r. rq_request_id (f r) = rq_request_id r) \<Longrightarrow> by_id (map f rs) i = map_option f (by_id rs i)"
  by (induction rs) (auto simp: by_id_def)

lemma rows_map:
  assumes "w_appr_rows w = map appr_entry rs" "distinct (map rq_request_id rs)"
    and "\<And>r. rq_request_id (f r) = rq_request_id r" "\<And>r. g (appr_entry r) = appr_entry (f r)"
  shows "pg_appr_good (w\<lparr>w_appr_rows := map g (w_appr_rows w)\<rparr>)
    \<and> pg_appr_reqs (w\<lparr>w_appr_rows := map g (w_appr_rows w)\<rparr>) = (\<lambda>i. map_option f (pg_appr_reqs w i))"
proof -
  have "w_appr_rows (w\<lparr>w_appr_rows := map g (w_appr_rows w)\<rparr>) = map appr_entry (map f rs)"
    using assms(1,4) by (simp add: comp_def)
  from pg_appr_entriesI [OF this] show ?thesis
    using assms(2,3) pg_appr_reqs_entries [OF assms(1)] by (simp add: by_id_map comp_def fun_eq_iff)
qed

lemma set_column_values: "set_column f (appr_values r) = appr_values (apply_field f r)"
  by (cases f) (simp_all add: appr_values_def)

lemma fold_set_column: "fold set_column fs (appr_values r) = appr_values (fold apply_field fs r)"
  by (induction fs arbitrary: r) (simp_all add: set_column_values)

lemma mapE_decode: "mapE (\<lambda>kr. liftE (appr_from_row kr)) (map appr_entry rs) = retE rs"
  by (induction rs) (simp_all add: liftE_def retE_def bindE_def fun_eq_iff)

text \<open>A query over the decoded requests.\<close>

lemma pg_appr_requests_atomic:
  assumes "\<And>r. cond (appr_entry r) = cond' r"
    and "\<And>rs xs. distinct (map rq_request_id rs) \<Longrightarrow> set xs = {r \<in> set rs. cond' r} \<Longrightarrow> spec (by_id rs) xs (by_id rs)"
  shows "atomic pg_appr_reqs pg_appr_good spec (pg_appr_requests cond)"
proof -
  let ?key = "\<lambda>(i, row). ar_created_at row"
  let ?spec = "\<lambda>m rows m'. m' = m \<and> (\<exists>rs xs. distinct (map rq_request_id rs) \<and> m = by_id rs \<and>
      rows = map appr_entry xs \<and> set xs = {r \<in> set rs. cond' r})"
  have rows: "\<exists>rs xs. distinct (map rq_request_id rs) \<and> pg_appr_reqs w = by_id rs \<and>
      sort_key ?key (filter cond (w_appr_rows w)) = map appr_entry xs \<and> set xs = {r \<in> set rs. cond' r}"
    if g: "pg_appr_good w" for w :: "('x, 'm) appr_world_scheme"
  proof -
    obtain rs where rs: "w_appr_rows w = map appr_entry rs" "distinct (map rq_request_id rs)" "pg_appr_reqs w = by_id rs"
      using g by (rule pg_appr_goodE)
    have "sort_key ?key (map appr_entry ys) = map appr_entry (sort_key (\<lambda>r. ?key (appr_entry r)) ys)" for ys
    proof (induction ys)
      case (Cons y ys)
      have "insort_key ?key (appr_entry y) (map appr_entry zs) = map appr_entry (insort_key (\<lambda>r. ?key (appr_entry r)) y zs)" for zs
        by (induction zs) auto
      then show ?case using Cons.IH by simp
    qed simp
    then have "sort_key ?key (filter cond (w_appr_rows w))
        = map appr_entry (sort_key (\<lambda>r. ?key (appr_entry r)) (filter cond' rs))"
      using rs(1) assms(1) by (simp add: filter_map comp_def)
    then show ?thesis using rs by (intro exI [of _ rs] exI conjI) auto
  qed
  have "atomic pg_appr_reqs pg_appr_good ?spec
      (db_query ApprovalStoreUnavailable (\<lambda>w. sort_key ?key (filter cond (w_appr_rows w))))"
    by (rule atomic_db_query, simp, simp, intro conjI refl, erule rows)
  then show ?thesis unfolding pg_appr_requests_def
    by (rule atomic_bind_pure) (use assms(2) in \<open>auto simp: mapE_decode wp_retE\<close>)
qed

definition move_row ::
    "string \<Rightarrow> approval_status list \<Rightarrow> approval_status \<Rightarrow> appr_field list \<Rightarrow> ('x, 'm) appr_world_scheme
     \<Rightarrow> ((string \<times> approval_row) option \<times> ('x, 'm) appr_world_scheme) option" where
  "move_row i froms to fs w = (case map_of (w_appr_rows w) i of
     None \<Rightarrow> Some (None, w)
   | Some row \<Rightarrow>
       if ar_status row \<notin> set (map status_value froms) then Some (None, w)
       else (let moved = fold set_column fs (row\<lparr>ar_status := status_value to\<rparr>)
             in Some (Some (i, moved),
               w\<lparr>w_appr_rows := map (\<lambda>(k, r). (k, if k = i then moved else r)) (w_appr_rows w)\<rparr>)))"

lemma row_status_mem: "ar_status (appr_values r) \<in> status_value ` set froms \<longleftrightarrow> rq_status r \<in> set froms"
  by (auto simp: appr_values_def)

lemma move_row_spec:
  assumes "pg_appr_good w" "move_row i froms to fs w = Some (x, w')"
  shows "pg_appr_good w' \<and> (\<exists>y. x = map_option appr_entry y \<and> spec_transition i froms to fs (pg_appr_reqs w) y (pg_appr_reqs w'))"
proof -
  obtain rs where rs: "w_appr_rows w = map appr_entry rs" "distinct (map rq_request_id rs)" "pg_appr_reqs w = by_id rs"
    using assms(1) by (elim pg_appr_goodE)
  show ?thesis
  proof (cases "by_id rs i")
    case None
    then show ?thesis using assms rs
      by (simp add: move_row_def map_of_entries spec_transition_def)
  next
    case (Some r)
    note r = by_id_id [OF Some]
    show ?thesis
    proof (cases "rq_status r \<in> set froms")
      case False
      then show ?thesis using assms rs Some
        by (simp add: move_row_def map_of_entries row_status_mem spec_transition_def)
    next
      case True
      let ?m = "apply_fields fs (r\<lparr>rq_status := to\<rparr>)"
      let ?f = "\<lambda>r0. if rq_request_id r0 = i then ?m else r0"
      let ?g = "\<lambda>(k, row). (k, if k = i then appr_values ?m else row)"
      have row: "fold set_column fs (appr_values r\<lparr>ar_status := status_value to\<rparr>) = appr_values ?m"
        using fold_set_column [of fs "r\<lparr>rq_status := to\<rparr>"] by (simp add: appr_values_def apply_fields_def)
      have out: "x = Some (i, appr_values ?m)" "w' = w\<lparr>w_appr_rows := map ?g (w_appr_rows w)\<rparr>"
        using assms(2) rs(1) Some True
        by (simp_all add: move_row_def map_of_entries row row_status_mem Let_def)
      have "pg_appr_good w' \<and> pg_appr_reqs w' = (\<lambda>i. map_option ?f (pg_appr_reqs w i))"
        unfolding out(2) by (rule rows_map [OF rs(1,2)]) (use r in \<open>auto simp: appr_entry_def\<close>)
      then show ?thesis unfolding rs(3) by_id_at using Some True out(1) r
        by (auto simp: spec_transition_def appr_entry_def intro!: exI [of _ "Some ?m"])
    qed
  qed
qed

lemma pg_transition_atomic:
  "atomic pg_appr_reqs pg_appr_good (spec_transition i froms to fs)
    (pg_appr_transition i froms to fs :: (('x, 'm) appr_world_scheme, exn, approval_request option) eff)"
proof (cases "list_all field_known fs")
  case True
  let ?dec = "\<lambda>row. case row of None \<Rightarrow> retE None | Some kr \<Rightarrow> bindE (liftE (appr_from_row kr)) (\<lambda>r. retE (Some r))"
  have dec: "?dec (map_option appr_entry y) = retE y" for y
    by (cases y) (simp_all add: liftE_def retE_def bindE_def fun_eq_iff)
  have "(pg_appr_transition i froms to fs :: (('x, 'm) appr_world_scheme, exn, approval_request option) eff)
      = bindE (db_stmt ApprovalStoreUnavailable (move_row i froms to fs)) ?dec"
    using True by (simp add: pg_appr_transition_def move_row_def [abs_def])
  moreover have "atomic pg_appr_reqs pg_appr_good (spec_transition i froms to fs)
      (bindE (db_stmt ApprovalStoreUnavailable (move_row i froms to fs)) ?dec
        :: (('x, 'm) appr_world_scheme, exn, approval_request option) eff)"
  proof (rule atomic_bind_pure)
    fix m x m' and w :: "('x, 'm) appr_world_scheme"
    assume "\<exists>y. x = map_option appr_entry y \<and> spec_transition i froms to fs m y m'"
    then obtain y where y: "x = map_option appr_entry y" "spec_transition i froms to fs m y m'" by blast
    show "wp (?dec x) (\<lambda>y w'. w' = w \<and> spec_transition i froms to fs m y m')
        (\<lambda>e w'. w' = w \<and> (m' = m \<or> (\<exists>y. spec_transition i froms to fs m y m'))) w"
      unfolding y(1) dec by (simp add: wp_retE y(2))
  next
    show "atomic pg_appr_reqs pg_appr_good (\<lambda>m x m'. \<exists>y. x = map_option appr_entry y \<and> spec_transition i froms to fs m y m')
        (db_stmt ApprovalStoreUnavailable (move_row i froms to fs))"
      by (rule atomic_db_stmt) (simp_all add: move_row_spec)
  qed blast
  ultimately show ?thesis by simp
next
  case False
  then show ?thesis by (auto simp: pg_appr_transition_def raiseE_def intro!: atomicI)
qed

lemma set_option_by_id:
  "distinct (map rq_request_id rs) \<Longrightarrow> set_option (by_id rs i) = {r \<in> set rs. rq_request_id r = i}"
  using by_id_id [of rs i] by_id_mem [of rs] by (cases "by_id rs i") (auto, metis option.inject)

lemma pg_get_atomic: "atomic pg_appr_reqs pg_appr_good (spec_get i) (pg_appr_get i)"
  unfolding pg_appr_get_def
proof (rule atomic_bind_pure)
  show "atomic pg_appr_reqs pg_appr_good (\<lambda>m xs m'. m' = m \<and> set xs = set_option (m i))
      (pg_appr_requests (\<lambda>(k, row). k = i))"
    by (rule pg_appr_requests_atomic [where cond' = "\<lambda>r. rq_request_id r = i"])
       (simp_all add: appr_entry_def set_option_by_id)
next
  fix m m' :: requests and xs and w :: "('x, 'm) appr_world_scheme"
  assume "m' = m \<and> set xs = set_option (m i)"
  then have "m' = m" "(case xs of [] \<Rightarrow> None | r # _ \<Rightarrow> Some r) = m i"
    by (cases xs; cases "m i"; auto)+
  then show "wp (retE (case xs of [] \<Rightarrow> None | r # _ \<Rightarrow> Some r)) (\<lambda>y w'. w' = w \<and> spec_get i m y m')
      (\<lambda>e w'. w' = w \<and> (m' = m \<or> (\<exists>y. spec_get i m y m'))) w"
    by (simp add: wp_retE spec_get_def)
qed simp

interpretation pg_appr: approval_contract pg_appr_store pg_appr_reqs pg_appr_good
proof
  fix r :: approval_request
  show "atomic pg_appr_reqs pg_appr_good (spec_create r) (as_create pg_appr_store r)"
    unfolding pg_appr_store_def appr_store.simps pg_appr_create_def
  proof (rule atomic_db_stmt)
    fix w w' :: "('x, 'm) appr_world_scheme" and u
    assume "pg_appr_good w" and stmt: "(if map_of (w_appr_rows w) (rq_request_id r) \<noteq> None then None
      else Some ((), w\<lparr>w_appr_rows := w_appr_rows w @ [(rq_request_id r, appr_values r)]\<rparr>)) = Some (u, w')"
    then obtain rs where rs: "w_appr_rows w = map appr_entry rs" "distinct (map rq_request_id rs)" "pg_appr_reqs w = by_id rs"
      by (elim pg_appr_goodE)
    have new: "by_id rs (rq_request_id r) = None" and w': "w_appr_rows w' = map appr_entry (rs @ [r])"
      using stmt rs(1) by (auto simp: map_of_entries appr_entry_def split: if_splits)
    have "by_id (rs @ [r]) = (by_id rs)(rq_request_id r \<mapsto> r)" "distinct (map rq_request_id (rs @ [r]))"
      using new map_of_snoc_new [of "map (\<lambda>r. (rq_request_id r, r)) rs" "rq_request_id r" r] rs(2)
      by (auto simp: by_id_def map_of_eq_None_iff comp_def image_iff)
    then show "pg_appr_good w' \<and> spec_create r (pg_appr_reqs w) u (pg_appr_reqs w')"
      using pg_appr_entriesI [OF w'] rs(3) new by (simp add: spec_create_def)
  qed simp_all
  let ?f = "\<lambda>r0. if rq_request_id r0 = rq_request_id r then r0\<lparr>rq_status := rq_status r,
      rq_resolved_by := rq_resolved_by r, rq_resolved_at := rq_resolved_at r,
      rq_resolution_reason := rq_resolution_reason r, rq_consumed_at := rq_consumed_at r\<rparr> else r0"
  let ?g = "\<lambda>(k, row). (k, if k = rq_request_id r then row\<lparr>ar_status := status_value (rq_status r),
      ar_resolved_by := rq_resolved_by r, ar_resolved_at := rq_resolved_at r,
      ar_resolution_reason := rq_resolution_reason r, ar_consumed_at := rq_consumed_at r\<rparr> else row)"
  show "atomic pg_appr_reqs pg_appr_good (spec_update r) (as_update pg_appr_store r)"
    unfolding pg_appr_store_def appr_store.simps pg_appr_update_def
  proof (rule atomic_db_stmt)
    fix w w' :: "('x, 'm) appr_world_scheme" and u
    assume "pg_appr_good w" and stmt: "Some ((), w\<lparr>w_appr_rows := map ?g (w_appr_rows w)\<rparr>) = Some (u, w')"
    then obtain rs where rs: "w_appr_rows w = map appr_entry rs" "distinct (map rq_request_id rs)" "pg_appr_reqs w = by_id rs"
      by (elim pg_appr_goodE)
    have "pg_appr_good w' \<and> pg_appr_reqs w' = (\<lambda>i. map_option ?f (pg_appr_reqs w i))"
      using rows_map [OF rs(1,2), of ?f ?g] stmt by (simp add: appr_entry_def appr_values_def)
    then show "pg_appr_good w' \<and> spec_update r (pg_appr_reqs w) u (pg_appr_reqs w')"
      unfolding rs(3) by_id_at using spec_updateI [of "by_id rs" r]
      by (auto simp: spec_update_def [of _ _ _ "by_id rs"] split: option.splits)
  qed simp_all
next
  fix i
  show "atomic pg_appr_reqs pg_appr_good (spec_get i) (as_get pg_appr_store i)"
    unfolding pg_appr_store_def appr_store.simps by (rule pg_get_atomic)
next
  fix i froms to fs
  show "atomic pg_appr_reqs pg_appr_good (spec_transition i froms to fs) (as_transition pg_appr_store i froms to fs)"
    unfolding pg_appr_store_def appr_store.simps by (rule pg_transition_atomic)
next
  fix t
  show "atomic pg_appr_reqs pg_appr_good (spec_expire t) (as_expire_pending pg_appr_store t)"
    unfolding pg_appr_store_def appr_store.simps pg_appr_expire_pending_def
  proof (rule atomic_db_stmt)
    let ?f = "\<lambda>r. if overdue t r then r\<lparr>rq_status := EXPIRED\<rparr> else r"
    let ?g = "\<lambda>(k, row). (k, if row_overdue t row then row\<lparr>ar_status := status_value EXPIRED\<rparr> else row)"
    fix w w' :: "('x, 'm) appr_world_scheme" and n
    assume "pg_appr_good w" and stmt: "Some (length (filter (\<lambda>(k, row). row_overdue t row) (w_appr_rows w)),
        w\<lparr>w_appr_rows := map ?g (w_appr_rows w)\<rparr>) = Some (n, w')"
    then obtain rs where rs: "w_appr_rows w = map appr_entry rs" "distinct (map rq_request_id rs)" "pg_appr_reqs w = by_id rs"
      by (elim pg_appr_goodE)
    have "pg_appr_good w' \<and> pg_appr_reqs w' = (\<lambda>i. map_option ?f (pg_appr_reqs w i))"
      using rows_map [OF rs(1,2), of ?f ?g] stmt
      by (simp add: appr_entry_def appr_values_def row_overdue_def overdue_def del: status_value.simps)
    then show "pg_appr_good w' \<and> spec_expire t (pg_appr_reqs w) n (pg_appr_reqs w')"
      by (simp add: spec_expire_def)
  qed simp_all
next
  fix subj
  show "atomic pg_appr_reqs pg_appr_good (spec_pending subj) (as_list_pending pg_appr_store subj)"
    by (cases subj; simp add: pg_appr_store_def pg_appr_list_pending_def del: status_value.simps;
        rule pg_appr_requests_atomic [where cond' = "pending_of subj"];
        simp add: spec_pending_def pending_of_def appr_entry_def appr_values_def ran_by_id del: status_value.simps;
        auto)
qed (auto simp: pg_appr_store_def pg_appr_consume_def elim!: pg_appr_goodE dest: by_id_id)

section \<open>Lemmas on resolution\<close>

lemma distinct_if_once: "(\<And>i. length (filter (\<lambda>x. f x = i) xs) \<le> 1) \<Longrightarrow> distinct (map f xs)"
proof (induction xs)
  case (Cons x xs)
  have "length (filter (\<lambda>y. f y = i) xs) \<le> 1" for i using Cons.prems [of i] by (simp split: if_splits)
  moreover have "filter (\<lambda>y. f y = f x) xs = []" using Cons.prems [of "f x"] by simp
  ultimately show ?case using Cons.IH by (auto simp: filter_empty_conv)
qed simp

lemma check_approver_Inr: "check_approver who w = (Inr u, w') \<longleftrightarrow> valid_ref who ''user'' \<and> w' = w"
  by (cases "valid_ref who ''user''")
     (auto simp: check_approver_def catchE_def bindE_def liftE_def retE_def raiseE_def split: if_splits)

lemma transition_wp:
  assumes "atomic reqs good (spec_transition i froms to fs) m" "good w" "m w = (Inr (Some r'), w')"
  shows "good w' \<and> (\<exists>r. reqs w i = Some r \<and> rq_status r \<in> set froms \<and>
    r' = apply_fields fs (r\<lparr>rq_status := to\<rparr>) \<and> reqs w' = (reqs w)(i \<mapsto> r'))"
proof -
  have "good w' \<and> spec_transition i froms to fs (reqs w) (Some r') (reqs w')" by (rule atomicD(1) [OF assms])
  then show ?thesis by (simp add: spec_transition_def Let_def split: option.splits if_splits)
qed

lemma wp_check_approver:
  "wp (check_approver who) Q R w = (if valid_ref who ''user'' then Q () w else R (hoc ApprovalError) w)"
  by (simp add: check_approver_def wp_rules hoc_def split: sum.splits)

section \<open>Properties\<close>

text \<open>
  C15: an approval is spent at most once. Start from any good table and run any sequence of the
  program's calls on the Postgres store, in any order and on any requests, each of which may fail
  before or after its effect: among the consumptions that report success, no request occurs twice.
\<close>

theorem approval_consumed_at_most_once:
  assumes "pg_appr_good w" "list_all program_op ops"
  shows "distinct (map rq_request_id (consumptions pg_appr_store ops w))"
proof -
  have "length (filter (\<lambda>c. rq_request_id c = i) (consumptions pg_appr_store ops w)) \<le> 1" for i
    using pg_appr.consumed_at_most_once [OF assms, of i] by (simp split: if_splits)
  then show ?thesis by (rule distinct_if_once)
qed

text \<open>
  Only an approver resolves. When \<open>authorize_approver\<close> returns, the approver is a user and is
  either the subject, where self-approval is enabled, or someone for whom the engine answered true on
  the relation approver of the tool; and it left no event. In every other case it raises: an
  \<open>ApprovalError\<close> after the refusal was recorded, or what the audit sink raised.
\<close>

theorem authorize_approver_grounds:
  fixes audit :: "('x, 'm) world_scheme audit_sink"
  shows "wp (authorize_approver engine audit t rq who allow_self)
    (\<lambda>_ w'. valid_ref who ''user'' \<and> (if who = rq_subject rq then allow_self \<and> w' = w
       else \<exists>eng. engine = Some eng \<and> eng_check eng who APPROVER_RELATION (rq_tool rq) w = (Inr True, w')))
    (\<lambda>e w'. if valid_ref who ''user''
      then (\<exists>why eid w1. e = Hoc ApprovalError why \<and>
           audit (approval_event EvApprovalResolved t rq who ''REFUSED'' why eid) w1 = (Inr (), w'))
        \<or> (\<exists>ev w1. audit ev w1 = (Inl e, w'))
      else e = hoc ApprovalError \<and> w' = w) w"
proof (cases "valid_ref who ''user''")
  case False
  then show ?thesis by (simp add: authorize_approver_def wp_bindE wp_check_approver)
next
  case valid: True
  let ?refuse = "\<lambda>why. bindE uuid4_hex (\<lambda>eid. bindE (audit (approval_event EvApprovalResolved t rq who ''REFUSED'' why eid))
      (\<lambda>_. raiseE (Hoc ApprovalError why)))"
  let ?Q = "\<lambda>_ w'. valid_ref who ''user'' \<and> (if who = rq_subject rq then allow_self \<and> w' = w
       else \<exists>eng. engine = Some eng \<and> eng_check eng who APPROVER_RELATION (rq_tool rq) w = (Inr True, w'))"
  let ?R = "\<lambda>e w'. if valid_ref who ''user''
      then (\<exists>why eid w1. e = Hoc ApprovalError why \<and>
           audit (approval_event EvApprovalResolved t rq who ''REFUSED'' why eid) w1 = (Inr (), w'))
        \<or> (\<exists>ev w1. audit ev w1 = (Inl e, w'))
      else e = hoc ApprovalError \<and> w' = w"
  have refuse: "wp (?refuse why) ?Q ?R w1" for why w1
    unfolding wp_bindE wp_uuid4_hex wp_raiseE by (rule wpI) (use valid in auto)
  have eng: "wp (eng_check e who APPROVER_RELATION (rq_tool rq))
      (\<lambda>ok. wp (case (if ok then None else Some ''approver_not_authorized'') of None \<Rightarrow> retE () | Some why \<Rightarrow> ?refuse why) ?Q ?R)
      (\<lambda>x. wp (?refuse (failure_reason ''engine_unavailable'' x)) ?Q ?R) w"
    if "engine = Some e" "who \<noteq> rq_subject rq" for e
    by (rule wpI) (use that refuse valid in \<open>auto simp: wp_retE\<close>)
  show ?thesis
    using valid refuse eng
    by (cases engine) (auto simp: authorize_approver_def refusal_def wp_bindE wp_check_approver wp_retE wp_attemptE)
qed

text \<open>
  A resolution is a decision on a pending, unexpired request. When \<open>resolve_request\<close> returns
  over the Postgres store, the request was pending at the compare-and-set, unexpired when it was
  read, and is now approved or rejected as asked, by that user, at that time; the resolver is not the
  subject unless self-approval is enabled; and the event was recorded.
\<close>

theorem resolve_request_decides:
  fixes w :: "('x, 'm) appr_world_scheme"
  assumes "pg_appr_good w" "resolve_request pg_appr_store audit t i who approved reason allow_self w = (Inr res, w')"
  shows "\<exists>rq w1 eid. pg_appr_reqs w i = Some rq \<and> t \<le> rq_expires_at rq \<and> rq_status rq = PENDING
    \<and> valid_ref who ''user'' \<and> (who = rq_subject rq \<longrightarrow> allow_self)
    \<and> res = rq\<lparr>rq_status := (if approved then APPROVED else REJECTED), rq_resolved_by := Some who,
        rq_resolved_at := Some t, rq_resolution_reason := Some reason\<rparr>
    \<and> pg_appr_reqs w1 = (pg_appr_reqs w)(i \<mapsto> res)
    \<and> audit (approval_event EvApprovalResolved t rq who (status_upper (rq_status res))
        (if reason = [] then status_value (rq_status res) else reason) eid) w1 = (Inr (), w')"
proof -
  have valid: "valid_ref who ''user''"
    using assms(2) by (auto simp: resolve_request_def bindE_Inr check_approver_Inr)
  obtain found w0 where get: "pg_appr_get i w = (Inr found, w0)"
    using assms(2) by (auto simp: resolve_request_def bindE_Inr check_approver_Inr pg_appr_store_def)
  have g: "pg_appr_good w0" "pg_appr_reqs w0 = pg_appr_reqs w" "found = pg_appr_reqs w i"
    using atomicD(1) [OF pg_get_atomic assms(1) get] by (simp_all add: spec_get_def)
  obtain rq where rq: "found = Some rq" "rq_status rq = PENDING" "t \<le> rq_expires_at rq" "who = rq_subject rq \<longrightarrow> allow_self"
    using assms(2) get
    by (auto simp: resolve_request_def bindE_Inr check_approver_Inr pg_appr_store_def raiseE_def retE_def Let_def
        split: option.splits if_splits)
  let ?s = "if approved then APPROVED else REJECTED"
  let ?fs = "[FieldResolvedBy (Some who), FieldResolvedAt (Some t), FieldResolutionReason (Some reason)]"
  obtain w1 eid where run: "pg_appr_transition i [PENDING] ?s ?fs w0 = (Inr (Some res), w1)"
      "audit (approval_event EvApprovalResolved t rq who (status_upper ?s)
        (if reason = [] then status_value ?s else reason) eid) (w1\<lparr>w_uuid_at := Suc (w_uuid_at w1)\<rparr>) = (Inr (), w')"
    using assms(2) get rq
    by (auto simp: resolve_request_def bindE_Inr check_approver_Inr pg_appr_store_def raiseE_def retE_def Let_def
        uuid4_hex_def stateE_def split: option.splits if_splits)
  have moved: "res = apply_fields ?fs (rq\<lparr>rq_status := ?s\<rparr>)" "pg_appr_reqs w1 = (pg_appr_reqs w)(i \<mapsto> res)"
    using transition_wp [OF pg_transition_atomic g(1) run(1)] g(2,3) rq(1) by auto
  have st: "rq_status res = ?s" using moved(1) by simp
  show ?thesis
    by (rule exI [of _ rq], rule exI [of _ "w1\<lparr>w_uuid_at := Suc (w_uuid_at w1)\<rparr>"], rule exI [of _ eid],
        unfold st, intro conjI) (use moved valid rq g(3) run(2) in \<open>simp_all add: apply_fields_def\<close>)
qed

section \<open>Examples\<close>

definition appr_world0 :: "unit appr_world" where
  "appr_world0 = \<lparr>w_clock = (\<lambda>n. int n), w_clock_at = 0, w_uuid = show_nat, w_uuid_at = 0,
     w_perf = (\<lambda>_ _. float_zero), w_perf_at = 0, w_db = (\<lambda>_. DbOk), w_db_at = 0, w_ext = (),
     w_journal = [], w_seq = 0, w_mem_events = [], w_conn_rows = [], w_conn_mem_tuples = [],
     w_conn_mem_synced = [], w_conn_last_sync = [], w_appr_mem = [], w_appr_rows = []\<rparr>"

definition sample_request :: approval_request where
  "sample_request = \<lparr>rq_request_id = ''r1'', rq_subject = ''user:alice'', rq_actor = ''agent:a'',
     rq_delegation_depth = 0, rq_tool = ''tool:pay'', rq_args_hash = ''h'', rq_decision_id = ''d1'',
     rq_created_at = 0, rq_expires_at = 3600, rq_status = PENDING, rq_resolved_by = None,
     rq_resolved_at = None, rq_resolution_reason = None, rq_consumed_at = None,
     rq_approval_reason = ''approval_required''\<rparr>"

definition sample_appr_world :: "unit appr_world" where
  "sample_appr_world = appr_world0\<lparr>w_appr_rows := [appr_entry sample_request]\<rparr>"

lemma sample_appr_good: "pg_appr_good sample_appr_world" "pg_appr_good appr_world0"
  unfolding pg_appr_good_def sample_appr_world_def
  by (rule exI [of _ "[sample_request]"], simp) (rule exI [of _ "[]"], simp add: appr_world0_def)

text \<open>Two redemptions of one approval: the second finds it consumed.\<close>

definition sample_ops :: "appr_op list" where
  "sample_ops = [OpCreate sample_request, OpTransition ''r1'' [PENDING] APPROVED [FieldResolvedBy (Some ''user:bob'')],
     OpConsume ''r1'' 10, OpConsume ''r1'' 11]"

theorem approval_consumed_at_most_once_witness:
  "map rq_request_id (consumptions pg_appr_store sample_ops appr_world0) = [''r1'']
    \<and> distinct (map rq_request_id (consumptions pg_appr_store sample_ops appr_world0))"
proof
  show "map rq_request_id (consumptions pg_appr_store sample_ops appr_world0) = [''r1'']"
    by (simp add: sample_ops_def pg_appr_store_def pg_appr_create_def pg_appr_transition_def pg_appr_consume_def
        db_stmt_def appr_world0_def sample_request_def appr_values_def bindE_def retE_def liftE_def appr_from_row_def
        status_of_def Let_def)
  show "distinct (map rq_request_id (consumptions pg_appr_store sample_ops appr_world0))"
    by (rule approval_consumed_at_most_once [OF sample_appr_good(2)]) (simp add: sample_ops_def sample_request_def)
qed

theorem resolve_request_decides_witness:
  "\<exists>res w'. resolve_request pg_appr_store pg_record 10 ''r1'' ''user:bob'' True [] False sample_appr_world = (Inr res, w')
    \<and> rq_status res = APPROVED \<and> rq_resolved_by res = Some ''user:bob''"
proof -
  have bob: "valid_ref ''user:bob'' ''user''" by code_simp
  have "\<exists>res w'. resolve_request pg_appr_store pg_record 10 ''r1'' ''user:bob'' True [] False sample_appr_world = (Inr res, w')"
    by (simp add: resolve_request_def check_approver_def bob sample_appr_world_def pg_appr_store_def pg_appr_get_def
        pg_appr_requests_def pg_appr_transition_def db_query_def db_stmt_def appr_world0_def sample_request_def
        appr_entry_def appr_values_def bindE_def retE_def liftE_def catchE_def appr_from_row_def status_of_def Let_def
        uuid4_hex_def stateE_def pg_record_def)
  then obtain res w' where run:
    "resolve_request pg_appr_store pg_record 10 ''r1'' ''user:bob'' True [] False sample_appr_world = (Inr res, w')" by blast
  show ?thesis using resolve_request_decides [OF sample_appr_good(1) run] run by auto
qed

end
