(* ===== verification/Actions_Policies.thy ===== *)
theory Actions_Policies
  imports Core_Decider
begin

text \<open>
  The built-in decision policies (\<open>actions/policies.py\<close>).

  A predicate over the arguments is code of the deployment: it is a field of the policy's record and
  may raise. The locale \<open>approval_policy\<close> is what an approval may do to a policy, lift a requirement
  of approval and nothing else; both built-in policies interpret it and composition keeps it.
\<close>

section \<open>Policies\<close>

type_synonym predicate = "tool_args \<Rightarrow> exn + bool"

text \<open>\<open>any(...)\<close> builds the requested capability for every pattern it looks at.\<close>

fun matches_tool :: "capability list \<Rightarrow> string \<Rightarrow> exn + bool" where
  "matches_tool [] r = Inr False"
| "matches_tool (p # ps) r = (case mk_capability ACT r of
     Inl e \<Rightarrow> Inl e
   | Inr c \<Rightarrow> if cap_covers p c then Inr True else matches_tool ps r)"

fun tool_patterns :: "string list \<Rightarrow> exn + capability list" where
  "tool_patterns [] = Inr []"
| "tool_patterns (t # ts) = (case mk_capability ACT t of
     Inl e \<Rightarrow> Inl e
   | Inr c \<Rightarrow> (case tool_patterns ts of Inl e \<Rightarrow> Inl e | Inr cs \<Rightarrow> Inr (c # cs)))"

record require_approval =
  ra_patterns :: "capability list"
  ra_when :: "predicate option"
  ra_reason :: string

definition mk_require_approval :: "string list \<Rightarrow> predicate option \<Rightarrow> string \<Rightarrow> exn + require_approval" where
  "mk_require_approval tools when_pred reason = (case tool_patterns tools of
     Inl e \<Rightarrow> Inl e | Inr ps \<Rightarrow> Inr \<lparr>ra_patterns = ps, ra_when = when_pred, ra_reason = reason\<rparr>)"

definition require_approval_evaluate :: "require_approval \<Rightarrow> policy" where
  "require_approval_evaluate ra c a r args ctx =
     (if act_kind a \<noteq> ACT then Inr verdict_ALLOW
      else case matches_tool (ra_patterns ra) r of
        Inl e \<Rightarrow> Inl e
      | Inr m \<Rightarrow>
          if \<not> m then Inr verdict_ALLOW
          else (case (case ra_when ra of None \<Rightarrow> Inr True | Some p \<Rightarrow> p args) of
            Inl e \<Rightarrow> Inr \<lparr>v_outcome = DENY, v_reason = ''policy_error''\<rparr>
          | Inr applies \<Rightarrow>
              if \<not> applies then Inr verdict_ALLOW
              else if approval_id ctx \<noteq> None then Inr verdict_ALLOW
              else Inr \<lparr>v_outcome = REQUIRE_APPROVAL, v_reason = ra_reason ra\<rparr>))"

record deny_when =
  dw_patterns :: "capability list"
  dw_predicate :: predicate
  dw_reason :: string

definition mk_deny_when :: "string list \<Rightarrow> predicate \<Rightarrow> string \<Rightarrow> exn + deny_when" where
  "mk_deny_when tools p reason = (case tool_patterns tools of
     Inl e \<Rightarrow> Inl e | Inr ps \<Rightarrow> Inr \<lparr>dw_patterns = ps, dw_predicate = p, dw_reason = reason\<rparr>)"

definition deny_when_evaluate :: "deny_when \<Rightarrow> policy" where
  "deny_when_evaluate dw c a r args ctx =
     (if act_kind a \<noteq> ACT then Inr verdict_ALLOW
      else case matches_tool (dw_patterns dw) r of
        Inl e \<Rightarrow> Inl e
      | Inr m \<Rightarrow>
          if \<not> m then Inr verdict_ALLOW
          else (case dw_predicate dw args of
            Inl e \<Rightarrow> Inr \<lparr>v_outcome = DENY, v_reason = ''policy_error''\<rparr>
          | Inr hit \<Rightarrow> if hit then Inr \<lparr>v_outcome = DENY, v_reason = dw_reason dw\<rparr> else Inr verdict_ALLOW))"

text \<open>The loop of \<open>CompositePolicy.evaluate\<close> with its running verdict.\<close>

fun composite_loop ::
    "verdict \<Rightarrow> policy list \<Rightarrow> principal_chain \<Rightarrow> action \<Rightarrow> string \<Rightarrow> tool_args \<Rightarrow> decision_context \<Rightarrow> exn + verdict" where
  "composite_loop v [] c a r args ctx = Inr v"
| "composite_loop v (p # ps) c a r args ctx = (case p c a r args ctx of
     Inl e \<Rightarrow> Inl e
   | Inr u \<Rightarrow> composite_loop (most_restrictive v u) ps c a r args ctx)"

definition composite_policy :: "policy list \<Rightarrow> policy" where
  "composite_policy ps c a r args ctx = composite_loop verdict_ALLOW ps c a r args ctx"

section \<open>Lemmas\<close>

lemma composite_loop_Inr:
  "composite_loop v ps c a r args ctx = Inr u \<Longrightarrow>
    (\<exists>vs. list_all2 (\<lambda>p x. p c a r args ctx = Inr x) ps vs \<and> u \<in> set (v # vs) \<and>
      (\<forall>x\<in>set (v # vs). severity (v_outcome x) \<le> severity (v_outcome u)))"
proof (induction v ps c a r args ctx rule: composite_loop.induct)
  case (2 v p ps c a r args ctx)
  obtain x where x: "p c a r args ctx = Inr x" using 2(2) by (cases "p c a r args ctx") simp_all
  then have "composite_loop (most_restrictive v x) ps c a r args ctx = Inr u" using 2(2) by simp
  from "2.IH" [OF x this] obtain vs where vs: "list_all2 (\<lambda>p x. p c a r args ctx = Inr x) ps vs"
      "u \<in> set (most_restrictive v x # vs)"
      "\<forall>y\<in>set (most_restrictive v x # vs). severity (v_outcome y) \<le> severity (v_outcome u)" by blast
  have "u \<in> set (v # x # vs)" using vs(2) by (auto simp: most_restrictive_def split: if_splits)
  moreover have "\<forall>y\<in>set (v # x # vs). severity (v_outcome y) \<le> severity (v_outcome u)"
    using vs(3) most_restrictive_severity [of v x] by auto
  ultimately show ?case using vs(1) x by (intro exI [of _ "x # vs"]) simp
qed simp

lemma composite_loop_Inl:
  "(\<exists>e. composite_loop v ps c a r args ctx = Inl e) \<longleftrightarrow> (\<exists>p\<in>set ps. \<exists>e. p c a r args ctx = Inl e)"
proof (induction v ps c a r args ctx rule: composite_loop.induct)
  case (2 v p ps c a r args ctx)
  show ?case
  proof (cases "p c a r args ctx")
    case (Inr u)
    then show ?thesis using "2.IH" [OF Inr] by auto
  qed auto
qed simp

text \<open>The verdict of a policy once an approval is presented.\<close>

definition lift_approval :: "verdict \<Rightarrow> verdict" where
  "lift_approval v = (if v_outcome v = REQUIRE_APPROVAL then verdict_ALLOW else v)"

lemma lift_approval_most_restrictive:
  assumes "v_outcome u = ALLOW \<longrightarrow> u = verdict_ALLOW"
  shows "most_restrictive (lift_approval u) (lift_approval v) = lift_approval (most_restrictive u v)"
  using assms
  by (cases "v_outcome u"; cases "v_outcome v") (simp_all add: most_restrictive_def lift_approval_def verdict_ALLOW_def)

section \<open>What an approval may do\<close>

locale approval_policy =
  fixes pol :: policy
  assumes approved: "pol c a r args \<lparr>approval_id = Some i\<rparr> = map_sum id lift_approval (pol c a r args \<lparr>approval_id = None\<rparr>)"
begin

text \<open>An approval never turns a denial into anything else, and nothing is left to approve.\<close>

lemma approval_keeps_denial:
  "pol c a r args \<lparr>approval_id = None\<rparr> = Inr v \<Longrightarrow> v_outcome v = DENY \<Longrightarrow>
    pol c a r args \<lparr>approval_id = Some i\<rparr> = Inr v"
  by (simp add: approved lift_approval_def)

lemma approval_settles:
  "pol c a r args \<lparr>approval_id = Some i\<rparr> = Inr v \<Longrightarrow> v_outcome v \<noteq> REQUIRE_APPROVAL"
  by (cases "pol c a r args \<lparr>approval_id = None\<rparr>") (auto simp: approved lift_approval_def verdict_ALLOW_def split: if_splits)

end

interpretation require_approval: approval_policy "require_approval_evaluate ra" for ra
  by unfold_locales
     (simp add: require_approval_evaluate_def lift_approval_def verdict_ALLOW_def split: sum.splits)

interpretation deny_when: approval_policy "deny_when_evaluate dw" for dw
  by unfold_locales
     (simp add: deny_when_evaluate_def lift_approval_def verdict_ALLOW_def split: sum.splits)

lemma composite_loop_approved:
  assumes "\<forall>p\<in>set ps. approval_policy p" "v_outcome v = ALLOW \<longrightarrow> v = verdict_ALLOW"
  shows "composite_loop (lift_approval v) ps c a r args \<lparr>approval_id = Some i\<rparr>
    = map_sum id lift_approval (composite_loop v ps c a r args \<lparr>approval_id = None\<rparr>)"
  using assms
proof (induction ps arbitrary: v)
  case (Cons p ps)
  have p: "p c a r args \<lparr>approval_id = Some i\<rparr> = map_sum id lift_approval (p c a r args \<lparr>approval_id = None\<rparr>)"
    using Cons.prems(1) approval_policy.approved by simp
  show ?case
  proof (cases "p c a r args \<lparr>approval_id = None\<rparr>")
    case (Inr u)
    have allow: "v_outcome (most_restrictive v u) = ALLOW \<longrightarrow> most_restrictive v u = verdict_ALLOW"
      using Cons.prems(2) by (cases "v_outcome u"; cases "v_outcome v") (auto simp: most_restrictive_def)
    show ?thesis
      using Inr p Cons.IH [OF _ allow] Cons.prems lift_approval_most_restrictive [OF Cons.prems(2), of u] by simp
  qed (simp add: p)
qed simp

lemma composite_approval_policy:
  assumes "\<forall>p\<in>set ps. approval_policy p"
  shows "approval_policy (composite_policy ps)"
  using composite_loop_approved [OF assms, of verdict_ALLOW]
  by unfold_locales (simp add: composite_policy_def lift_approval_def verdict_ALLOW_def)

section \<open>Properties\<close>

text \<open>
  The most restrictive verdict wins. A composite policy raises exactly when one of its policies
  raises; otherwise its verdict is one of the given verdicts, or the initial ALLOW, and none of them
  is more restrictive. So it allows only if every policy allows, whatever their order.
\<close>

theorem composite_is_most_restrictive:
  "case composite_policy ps c a r args ctx of
     Inl e \<Rightarrow> \<exists>p\<in>set ps. \<exists>e. p c a r args ctx = Inl e
   | Inr u \<Rightarrow> \<exists>vs. map (\<lambda>p. p c a r args ctx) ps = map Inr vs \<and> u \<in> set (verdict_ALLOW # vs)
       \<and> list_all (\<lambda>x. severity (v_outcome x) \<le> severity (v_outcome u)) vs"
proof (cases "composite_policy ps c a r args ctx")
  case (Inl e)
  then show ?thesis
    using composite_loop_Inl [of verdict_ALLOW ps c a r args ctx] by (simp add: composite_policy_def)
next
  case (Inr u)
  then obtain vs where vs: "list_all2 (\<lambda>p x. p c a r args ctx = Inr x) ps vs" "u \<in> set (verdict_ALLOW # vs)"
      "\<forall>x\<in>set (verdict_ALLOW # vs). severity (v_outcome x) \<le> severity (v_outcome u)"
    using composite_loop_Inr [of verdict_ALLOW ps c a r args ctx u] by (auto simp: composite_policy_def)
  have "map (\<lambda>p. p c a r args ctx) ps = map Inr vs"
    using vs(1) by (induction rule: list_all2_induct) simp_all
  then show ?thesis using Inr vs(2,3) by (auto simp: list_all_iff)
qed

text \<open>
  An approval only lifts the requirement of an approval. For every composition of the built-in
  policies, the verdict with an approval is the verdict without one, except that REQUIRE_APPROVAL
  becomes ALLOW: a denial stays the same denial, and a policy that raises still raises.
\<close>

theorem approval_lifts_only_approval:
  assumes "\<forall>p\<in>set ps. (\<exists>ra. p = require_approval_evaluate ra) \<or> (\<exists>dw. p = deny_when_evaluate dw)"
  shows "composite_policy ps c a r args \<lparr>approval_id = Some i\<rparr>
    = (case composite_policy ps c a r args \<lparr>approval_id = None\<rparr> of
         Inl e \<Rightarrow> Inl e
       | Inr v \<Rightarrow> Inr (if v_outcome v = REQUIRE_APPROVAL then verdict_ALLOW else v))"
proof -
  have "\<forall>p\<in>set ps. approval_policy p"
    using assms by (auto intro: require_approval.approval_policy_axioms deny_when.approval_policy_axioms)
  then have "approval_policy (composite_policy ps)" by (rule composite_approval_policy)
  from approval_policy.approved [OF this] show ?thesis
    by (simp add: map_sum_def lift_approval_def split: sum.splits)
qed

section \<open>Examples\<close>

text \<open>Wire transfers need an approval, and are denied above a limit the predicate reads.\<close>

definition sample_policies :: "policy list" where
  "sample_policies = [require_approval_evaluate \<lparr>ra_patterns = [Capability ACT ''tool:pay''], ra_when = None,
       ra_reason = ''approval_required''\<rparr>,
     deny_when_evaluate \<lparr>dw_patterns = [Capability ACT ''tool:pay''],
       dw_predicate = (\<lambda>args. case map_of args ''amount'' of Some (JInt n) \<Rightarrow> Inr (n > 100) | _ \<Rightarrow> Inl (Other ''KeyError'')),
       dw_reason = ''over_limit''\<rparr>]"

theorem approval_lifts_only_approval_witness:
  "composite_policy sample_policies sample_chain action_invoke ''tool:pay'' [(''amount'', JInt 5)] \<lparr>approval_id = Some ''r1''\<rparr>
     = Inr verdict_ALLOW
   \<and> composite_policy sample_policies sample_chain action_invoke ''tool:pay'' [(''amount'', JInt 500)] \<lparr>approval_id = Some ''r1''\<rparr>
     = Inr \<lparr>v_outcome = DENY, v_reason = ''over_limit''\<rparr>"
proof -
  have builtin: "\<forall>p\<in>set sample_policies. (\<exists>ra. p = require_approval_evaluate ra) \<or> (\<exists>dw. p = deny_when_evaluate dw)"
    by (auto simp: sample_policies_def)
  have m: "matches_tool [Capability ACT ''tool:pay''] ''tool:pay'' = Inr True" by code_simp
  show ?thesis
    unfolding approval_lifts_only_approval [OF builtin]
    by (simp add: composite_policy_def sample_policies_def require_approval_evaluate_def deny_when_evaluate_def
        action_invoke_def m most_restrictive_def verdict_ALLOW_def del: matches_tool.simps)
qed

end
