(* ===== verification/Actions_Gate.thy ===== *)
theory Actions_Gate
  imports Actions_Approvals Actions_Policies
begin

text \<open>
  The action gate (\<open>actions/gate.py\<close>) and its channels (\<open>actions/channels.py\<close>).

  The gate is a record of what the class holds. A channel is a name and a call; what a plugin channel
  does is its own. The decision path, the store and the sink are used through the protocols of the
  other theories, so the theorems about redeeming rest on the contract of the Postgres store.
\<close>

section \<open>Channels\<close>

definition request_payload :: "approval_request \<Rightarrow> json" where
  "request_payload r = JObj [
     (''request_id'', JStr (rq_request_id r)), (''subject'', JStr (rq_subject r)),
     (''actor'', JStr (rq_actor r)), (''delegation_depth'', JInt (int (rq_delegation_depth r))),
     (''tool'', JStr (rq_tool r)), (''args_hash'', JStr (rq_args_hash r)),
     (''decision_id'', JStr (rq_decision_id r)), (''status'', JStr (status_value (rq_status r))),
     (''approval_reason'', JStr (rq_approval_reason r)), (''created_at'', JStr (isoformat (rq_created_at r))),
     (''expires_at'', JStr (isoformat (rq_expires_at r)))]"

text \<open>\<open>hmac.new(key, body, sha256).hexdigest()\<close> (RFC 2104), over bytes.\<close>

definition sha256_digest :: "nat list \<Rightarrow> nat list" where
  "sha256_digest bs = concat (map (\<lambda>x. be_bytes 4 (unat x)) (foldl sha_block sha_h0 (chunks 64 (sha_pad bs))))"

definition hmac_sha256_hex :: "nat list \<Rightarrow> nat list \<Rightarrow> string" where
  "hmac_sha256_hex key body =
     (let k = (if length key > 64 then sha256_digest key else key);
          block = k @ replicate (64 - length k) 0;
          pad = (\<lambda>p. map (\<lambda>b. xor b p) block)
      in sha256_bytes (pad 92 @ sha256_digest (pad 54 @ body)))"

definition webhook_body :: "approval_request \<Rightarrow> string" where
  "webhook_body r = json_text '','' '':'' (JObj [(''event'', JStr ''approval.pending''), (''request'', request_payload r)])"

definition webhook_headers :: "string option \<Rightarrow> string \<Rightarrow> (string \<times> string) list" where
  "webhook_headers secret body =
     [(''Content-Type'', ''application/json''), (''X-HeadOfContext-Event'', ''approval.pending'')] @
     (case secret of None \<Rightarrow> []
      | Some s \<Rightarrow> if s = [] then []
          else [(''X-HeadOfContext-Signature'', ''sha256='' @ hmac_sha256_hex (utf8 s) (utf8 body))])"

text \<open>\<open>post\<close> is the HTTP client: a status code, or an \<open>httpx.HTTPError\<close> as \<open>Other ''HTTPError''\<close>.\<close>

type_synonym 'w http_post = "string \<Rightarrow> string \<Rightarrow> (string \<times> string) list \<Rightarrow> ('w, exn, nat) eff"

type_synonym 'w channel = "string \<times> (approval_request \<Rightarrow> ('w, exn, unit) eff)"

definition webhook_notify :: "'w http_post \<Rightarrow> string \<Rightarrow> string option \<Rightarrow> approval_request \<Rightarrow> ('w, exn, unit) eff" where
  "webhook_notify post url secret r =
     (let body = webhook_body r in
      bindE (catchE (post url body (webhook_headers secret body)) (\<lambda>e.
          if e = Other ''HTTPError'' then raiseE (hoc ApprovalChannelError) else raiseE e)) (\<lambda>code.
      if 200 \<le> code \<and> code < 300 then retE () else raiseE (hoc ApprovalChannelError)))"

definition log_channel :: "'w channel" where
  "log_channel = (''log'', \<lambda>_. retE ())"

definition webhook_from_env :: "'w http_post \<Rightarrow> (string \<times> string) list \<Rightarrow> exn + 'w channel" where
  "webhook_from_env post env = (case map_of env ''HOC_APPROVAL_WEBHOOK_URL'' of
     None \<Rightarrow> Inl (hoc ApprovalChannelError)
   | Some url \<Rightarrow> if url = [] then Inl (hoc ApprovalChannelError)
       else Inr (''webhook'', webhook_notify post url (map_of env ''HOC_APPROVAL_WEBHOOK_SECRET'')))"

text \<open>\<open>[n.strip() for n in text.split(",") if n.strip()]\<close>\<close>

function split_on :: "char \<Rightarrow> string \<Rightarrow> string list" where
  "split_on c s = (case partition_char c s of (a, found, rest) \<Rightarrow>
     if found then a # split_on c rest else [a])"
  by pat_completeness auto

lemma partition_char_shorter: "partition_char c s = (a, True, rest) \<Longrightarrow> length rest < length s"
  by (induction c s arbitrary: a rest rule: partition_char.induct) (auto split: if_splits prod.splits simp: less_Suc_eq)

termination split_on
  by (relation "measure (\<lambda>(c, s). length s)") (auto dest!: partition_char_shorter [OF sym] partition_char_shorter)

type_synonym 'w channel_factory = "(string \<times> string) list \<Rightarrow> exn + 'w channel"

definition channel_factories :: "'w http_post \<Rightarrow> (string \<times> 'w channel_factory) list \<Rightarrow> (string \<times> 'w channel_factory) list" where
  "channel_factories post plugins =
     foldl (\<lambda>fs (name, f). if map_of fs name = None then fs @ [(name, f)] else fs)
       [(''log'', \<lambda>_. Inr log_channel), (''webhook'', webhook_from_env post)] plugins"

fun open_channels ::
    "(string \<times> 'w channel_factory) list \<Rightarrow> (string \<times> string) list \<Rightarrow> string list \<Rightarrow> exn + 'w channel list" where
  "open_channels fs env [] = Inr []"
| "open_channels fs env (n # ns) = (case map_of fs n of
     None \<Rightarrow> Inl (hoc ApprovalChannelError)
   | Some f \<Rightarrow> (case f env of Inl e \<Rightarrow> Inl e
       | Inr ch \<Rightarrow> (case open_channels fs env ns of Inl e \<Rightarrow> Inl e | Inr chs \<Rightarrow> Inr (ch # chs))))"

definition build_channels ::
    "'w http_post \<Rightarrow> (string \<times> string) list \<Rightarrow> (string \<times> 'w channel_factory) list \<Rightarrow> exn + 'w channel list" where
  "build_channels post env plugins =
     (let raw = (case map_of env ''HOC_APPROVAL_CHANNELS'' of Some t \<Rightarrow> t | None \<Rightarrow> []);
          names = filter (\<lambda>n. n \<noteq> []) (map strip (split_on (CHR '','') raw))
      in if names = [] then Inr [] else open_channels (channel_factories post plugins) env names)"

section \<open>The gate\<close>

definition DEFAULT_APPROVAL_TTL :: timedelta where
  "DEFAULT_APPROVAL_TTL = seconds 3600"

record gate_result =
  gr_decision :: decision
  gr_approval :: "approval_request option"

definition gate_allowed :: "gate_result \<Rightarrow> bool" where
  "gate_allowed g = (d_outcome (gr_decision g) = ALLOW)"

definition gate_pending :: "gate_result \<Rightarrow> bool" where
  "gate_pending g = (d_outcome (gr_decision g) = REQUIRE_APPROVAL \<and> gr_approval g \<noteq> None)"

record 'w action_gate =
  ga_decider :: "'w decider"
  ga_approvals :: "'w appr_store"
  ga_audit :: "'w audit_sink"
  ga_ttl :: timedelta
  ga_allow_self :: bool
  ga_channels :: "'w channel list"
  ga_metrics :: "'w metrics_sink option"

definition gate_event ::
    "event_kind \<Rightarrow> approval_request \<Rightarrow> string \<Rightarrow> string \<Rightarrow> (('x, 'm) world_scheme, exn, audit_event) eff" where
  "gate_event kind rq out reason = bindE now (\<lambda>t. bindE uuid4_hex (\<lambda>eid.
     retE (approval_event kind t rq (rq_actor rq) out reason eid)))"

text \<open>Only an \<open>ApprovalChannelError\<close> is caught; its reason is recorded and counted.\<close>

definition notify_one ::
    "('x, 'm) world_scheme action_gate \<Rightarrow> approval_request \<Rightarrow> ('x, 'm) world_scheme channel
     \<Rightarrow> (('x, 'm) world_scheme, exn, unit) eff" where
  "notify_one g rq ch = catchE (snd ch rq) (\<lambda>e.
     if catches ApprovalChannelError e
     then bindE (gate_event EvApprovalNotifyFailed rq ''PENDING'' (failure_reason [] e)) (\<lambda>ev.
          bindE (ga_audit g ev) (\<lambda>_.
          case ga_metrics g of None \<Rightarrow> retE () | Some m \<Rightarrow> ms_notify_failed m (fst ch)))
     else raiseE e)"

definition notify_all ::
    "('x, 'm) world_scheme action_gate \<Rightarrow> approval_request \<Rightarrow> (('x, 'm) world_scheme, exn, unit) eff" where
  "notify_all g rq = forE (ga_channels g) (notify_one g rq)"

definition new_request ::
    "principal_chain \<Rightarrow> string \<Rightarrow> tool_args \<Rightarrow> decision \<Rightarrow> datetime \<Rightarrow> timedelta \<Rightarrow> string \<Rightarrow> approval_request" where
  "new_request c tool args dn t ttl i =
     \<lparr>rq_request_id = i, rq_subject = ch_subject c, rq_actor = ch_actor c, rq_delegation_depth = chain_depth c,
      rq_tool = tool, rq_args_hash = (case hash_args (Some args) of Some h \<Rightarrow> h | None \<Rightarrow> []),
      rq_decision_id = d_decision_id dn, rq_created_at = t, rq_expires_at = t + ttl, rq_status = PENDING,
      rq_resolved_by = None, rq_resolved_at = None, rq_resolution_reason = None, rq_consumed_at = None,
      rq_approval_reason = d_reason dn\<rparr>"

definition gate ::
    "('x, 'm) world_scheme action_gate \<Rightarrow> principal_chain \<Rightarrow> string \<Rightarrow> tool_args option
     \<Rightarrow> (('x, 'm) world_scheme, exn, gate_result) eff" where
  "gate g c tool args0 =
     bindE (liftE (validate_ref tool ''tool'')) (\<lambda>_.
     let args = args_or_empty args0 in
     bindE (decide (ga_decider g) c action_invoke tool (Some args) None) (\<lambda>dn.
     if d_outcome dn \<noteq> REQUIRE_APPROVAL then retE \<lparr>gr_decision = dn, gr_approval = None\<rparr>
     else
       bindE now (\<lambda>t.
       bindE uuid4_hex (\<lambda>i.
       let rq = new_request c tool args dn t (ga_ttl g) i in
       bindE (as_create (ga_approvals g) rq) (\<lambda>_.
       bindE (gate_event EvApprovalRequested rq ''PENDING'' (d_reason dn)) (\<lambda>ev.
       bindE (ga_audit g ev) (\<lambda>_.
       bindE (notify_all g rq) (\<lambda>_.
       retE \<lparr>gr_decision = dn, gr_approval = Some rq\<rparr>))))))))"

definition resolve ::
    "('x, 'm) world_scheme action_gate \<Rightarrow> string \<Rightarrow> string \<Rightarrow> bool \<Rightarrow> string
     \<Rightarrow> (('x, 'm) world_scheme, exn, approval_request) eff" where
  "resolve g i who approved reason =
     bindE now (\<lambda>t.
     bindE (as_get (ga_approvals g) i) (\<lambda>found. case found of
       None \<Rightarrow> raiseE (hoc ApprovalError)
     | Some rq \<Rightarrow>
         bindE (authorize_approver (Some (dc_engine (ga_decider g))) (ga_audit g) t rq who (ga_allow_self g)) (\<lambda>_.
         resolve_request (ga_approvals g) (ga_audit g) t i who approved reason (ga_allow_self g))))"

definition pending_for ::
    "('x, 'm) world_scheme action_gate \<Rightarrow> string \<Rightarrow> (('x, 'm) world_scheme, exn, approval_request list) eff" where
  "pending_for g user =
     bindE (liftE (validate_ref user ''user'')) (\<lambda>_.
     bindE (as_list_pending (ga_approvals g) None) (\<lambda>pending.
     if pending = [] then retE []
     else bindE (catchE (eng_batch_check (dc_engine (ga_decider g)) user
           (map (\<lambda>r. (APPROVER_RELATION, rq_tool r)) pending))
         (\<lambda>e. if catches HocError e then raiseE e else raiseE (hoc EngineUnavailable))) (\<lambda>related.
       if length related \<noteq> length pending then raiseE (Other ''ValueError'')
       else retE (map fst (filter (\<lambda>(r, ok). ok \<or> rq_subject r = user) (zip pending related))))))"

definition mismatch :: "approval_request \<Rightarrow> principal_chain \<Rightarrow> string \<Rightarrow> tool_args \<Rightarrow> string option" where
  "mismatch rq c tool args =
     (if rq_status rq = CONSUMED then Some ''approval_consumed''
      else if rq_status rq = EXPIRED then Some ''approval_expired''
      else if rq_status rq \<noteq> APPROVED then Some ''approval_not_approved''
      else if rq_tool rq \<noteq> tool then Some ''approval_tool_mismatch''
      else if (rq_subject rq, rq_actor rq, rq_delegation_depth rq) \<noteq> (ch_subject c, ch_actor c, chain_depth c)
        then Some ''approval_chain_mismatch''
      else if rq_args_hash rq \<noteq> (case hash_args (Some args) of Some h \<Rightarrow> h | None \<Rightarrow> [])
        then Some ''approval_args_mismatch''
      else None)"

definition expire_if_needed ::
    "('x, 'm) world_scheme action_gate \<Rightarrow> approval_request \<Rightarrow> (('x, 'm) world_scheme, exn, approval_request) eff" where
  "expire_if_needed g rq =
     (if rq_status rq \<in> {PENDING, APPROVED} then
        bindE now (\<lambda>t.
        if t > rq_expires_at rq then
          bindE (as_transition (ga_approvals g) (rq_request_id rq) [PENDING, APPROVED] EXPIRED []) (\<lambda>expired.
          case expired of
            Some r \<Rightarrow> retE r
          | None \<Rightarrow> bindE (as_get (ga_approvals g) (rq_request_id rq)) (\<lambda>found.
              retE (case found of Some r \<Rightarrow> r | None \<Rightarrow> rq)))
        else retE rq)
      else retE rq)"

definition gate_deny ::
    "('x, 'm) world_scheme action_gate \<Rightarrow> principal_chain \<Rightarrow> string \<Rightarrow> tool_args \<Rightarrow> string
     \<Rightarrow> (('x, 'm) world_scheme, exn, decision) eff" where
  "gate_deny g c tool args reason =
     bindE now (\<lambda>t.
     bindE (mk_decision (DENY, reason, float_zero) c tool action_invoke t []) (\<lambda>dn.
     bindE (event_from_decision dn (hash_args (Some args))) (\<lambda>ev.
     bindE (ga_audit g ev) (\<lambda>_.
     retE dn))))"

text \<open>\<open>tool or x\<close>: an empty string counts as absent.\<close>

definition tool_or :: "string option \<Rightarrow> string \<Rightarrow> string" where
  "tool_or tool x = (case tool of None \<Rightarrow> x | Some t \<Rightarrow> if t = [] then x else t)"

definition redeem ::
    "('x, 'm) world_scheme action_gate \<Rightarrow> principal_chain \<Rightarrow> string \<Rightarrow> tool_args option \<Rightarrow> string option
     \<Rightarrow> (('x, 'm) world_scheme, exn, decision) eff" where
  "redeem g c i args0 tool =
     (let args = args_or_empty args0 in
     bindE (as_get (ga_approvals g) i) (\<lambda>found. case found of
       None \<Rightarrow> gate_deny g c (tool_or tool ''tool:unknown'') args ''approval_unknown''
     | Some rq0 \<Rightarrow>
         let target = tool_or tool (rq_tool rq0) in
         bindE (liftE (validate_resource_pattern target)) (\<lambda>_.
         bindE (expire_if_needed g rq0) (\<lambda>rq.
         case mismatch rq c target args of
           Some why \<Rightarrow> gate_deny g c target args why
         | None \<Rightarrow>
             bindE now (\<lambda>t.
             bindE (as_consume (ga_approvals g) (rq_request_id rq) t) (\<lambda>spent. case spent of
               None \<Rightarrow> gate_deny g c target args ''approval_consumed''
             | Some consumed \<Rightarrow>
                 bindE (decide (ga_decider g) c action_invoke target (Some args)
                   (Some \<lparr>approval_id = Some (rq_request_id rq)\<rparr>)) (\<lambda>dn.
                 bindE (gate_event EvApprovalConsumed consumed ''CONSUMED''
                   (if d_outcome dn = ALLOW then ''redeemed'' else d_reason dn)) (\<lambda>ev.
                 bindE (ga_audit g ev) (\<lambda>_.
                 retE dn)))))))))"

section \<open>The life of a request\<close>

text \<open>
  The steps a request can take, as a relation on the map of requests: what the store calls of the
  gate, of \<open>resolve_request\<close> and of the sweep do, in any order. \<open>late\<close> is the plain \<open>update\<close> with which
  \<open>resolve_request\<close> marks an overdue request.
\<close>

inductive approval_step :: "requests \<Rightarrow> requests \<Rightarrow> bool" where
  create: "m (rq_request_id r) = None \<Longrightarrow> rq_status r = PENDING \<Longrightarrow> approval_step m (m(rq_request_id r \<mapsto> r))"
| resolved: "m i = Some r \<Longrightarrow> rq_status r = PENDING \<Longrightarrow> s \<in> {APPROVED, REJECTED} \<Longrightarrow>
    approval_step m (m(i \<mapsto> apply_fields fs (r\<lparr>rq_status := s\<rparr>)))"
| expired: "m i = Some r \<Longrightarrow> rq_status r \<in> {PENDING, APPROVED} \<Longrightarrow>
    approval_step m (m(i \<mapsto> apply_fields fs (r\<lparr>rq_status := EXPIRED\<rparr>)))"
| consumed: "m i = Some r \<Longrightarrow> rq_status r = APPROVED \<Longrightarrow>
    approval_step m (m(i \<mapsto> apply_fields fs (r\<lparr>rq_status := CONSUMED\<rparr>)))"
| sweep: "approval_step m (\<lambda>i. map_option (\<lambda>r. if overdue t r then r\<lparr>rq_status := EXPIRED\<rparr> else r) (m i))"
| late: "m i = Some r0 \<Longrightarrow> same_call r r0 \<Longrightarrow> rq_status r = EXPIRED \<Longrightarrow> approval_step m (m(i \<mapsto> r))"

inductive_cases approval_stepE: "approval_step m m'"

lemma same_call_refl [simp]: "same_call r r"
  by (simp add: same_call_def)

lemma same_call_iff:
  "same_call r r0 \<longleftrightarrow> rq_request_id r = rq_request_id r0 \<and> rq_subject r = rq_subject r0 \<and> rq_actor r = rq_actor r0
    \<and> rq_delegation_depth r = rq_delegation_depth r0 \<and> rq_tool r = rq_tool r0 \<and> rq_args_hash r = rq_args_hash r0
    \<and> rq_decision_id r = rq_decision_id r0 \<and> rq_created_at r = rq_created_at r0 \<and> rq_expires_at r = rq_expires_at r0
    \<and> rq_approval_reason r = rq_approval_reason r0"
  by (cases r; cases r0) (auto simp: same_call_def)

lemma same_call_trans: "same_call a b \<Longrightarrow> same_call b c \<Longrightarrow> same_call a c"
  by (simp add: same_call_iff)

lemma same_call_apply: "same_call (apply_field f r) r"
  by (cases f) (simp_all add: same_call_def)

lemma same_call_fold: "same_call (fold apply_field fs r) r"
proof (induction fs arbitrary: r)
  case (Cons f fs)
  then show ?case using same_call_trans [OF Cons.IH same_call_apply] by simp
qed simp

lemma same_call_moved [simp]: "same_call (apply_fields fs (r\<lparr>rq_status := s\<rparr>)) r"
  unfolding apply_fields_def by (rule same_call_trans [OF same_call_fold]) (simp add: same_call_def)

lemma same_call_status [simp]: "same_call (r\<lparr>rq_status := s\<rparr>) r"
  by (simp add: same_call_def)

text \<open>A step keeps what was asked, and only moves a request forward.\<close>

lemma approval_step_keeps:
  assumes "approval_step m m'" "m i = Some r"
  shows "\<exists>r'. m' i = Some r' \<and> same_call r' r \<and> (r' = r \<or> status_rank (rq_status r) < status_rank (rq_status r')
    \<or> rq_status r' = EXPIRED)"
  using assms
proof (cases rule: approval_step.cases)
  case (sweep t)
  then show ?thesis using assms(2) by (auto simp: overdue_def)
qed auto

lemma approval_steps_keep:
  assumes "approval_step\<^sup>*\<^sup>* m m'" "m i = Some r"
  shows "\<exists>r'. m' i = Some r' \<and> same_call r' r \<and> status_rank (rq_status r) \<le> status_rank (rq_status r')"
  using assms
proof (induction rule: rtranclp_induct)
  case (step m1 m2)
  then obtain r1 where r1: "m1 i = Some r1" "same_call r1 r" "status_rank (rq_status r) \<le> status_rank (rq_status r1)" by blast
  from approval_step_keeps [OF step.hyps(2) r1(1)] obtain r2 where r2: "m2 i = Some r2" "same_call r2 r1"
      "r2 = r1 \<or> status_rank (rq_status r1) < status_rank (rq_status r2) \<or> rq_status r2 = EXPIRED" by blast
  then show ?case using r1 same_call_trans [OF r2(2) r1(2)] status_rank_le [of "rq_status r"] by auto
qed auto

text \<open>The store calls of the program are such steps.\<close>

lemma spec_transition_step:
  assumes "spec_transition i froms to fs m x m'" "program_op (OpTransition i froms to fs)"
  shows "m' = m \<or> approval_step m m'"
  using assms
  by (auto simp: spec_transition_def Let_def split: option.splits if_splits intro: approval_step.intros)

lemma spec_consume_step:
  "spec_transition i [APPROVED] CONSUMED fs m x m' \<Longrightarrow> m' = m \<or> approval_step m m'"
  by (auto simp: spec_transition_def Let_def split: option.splits if_splits intro: approval_step.intros)

lemma spec_create_step: "spec_create r m u m' \<Longrightarrow> rq_status r = PENDING \<Longrightarrow> approval_step m m'"
  by (auto simp: spec_create_def intro: approval_step.create)

lemma spec_expire_step: "spec_expire t m n m' \<Longrightarrow> approval_step m m'"
  unfolding spec_expire_def by (simp add: approval_step.sweep)

lemma spec_update_step:
  "spec_update r m u m' \<Longrightarrow> m (rq_request_id r) = Some r0 \<Longrightarrow> same_call r r0 \<Longrightarrow> rq_status r = EXPIRED \<Longrightarrow> approval_step m m'"
  by (auto simp: spec_update_def intro: approval_step.late)

section \<open>Lemmas on redeeming\<close>

lemma liftE_Inr: "liftE r w = (Inr x, w') \<longleftrightarrow> r = Inr x \<and> w' = w"
  by (auto simp: liftE_def)

lemma keeps_pg_appr_get:
  assumes "\<And>w. f (w\<lparr>w_db_at := Suc (w_db_at w)\<rparr>) = f w"
  shows "keeps f (pg_appr_get i)"
  unfolding pg_appr_get_def pg_appr_requests_def by (auto intro!: keeps_rules assms)

lemma pg_get_run:
  assumes "pg_appr_good w" "pg_appr_get i w = (Inr found, w')"
  shows "pg_appr_good w'" "pg_appr_reqs w' = pg_appr_reqs w" "found = pg_appr_reqs w i"
    "w_clock w' = w_clock w" "w_clock_at w' = w_clock_at w"
  using atomicD(1) [OF pg_get_atomic assms] keepsD [OF keeps_pg_appr_get [of w_clock] assms(2)]
    keepsD [OF keeps_pg_appr_get [of w_clock_at] assms(2)] by (simp_all add: spec_get_def)

lemma gate_deny_DENY: "gate_deny g c tool args why w = (Inr dn, w') \<Longrightarrow> d_outcome dn = DENY"
  by (auto simp: gate_deny_def bindE_Inr mk_decision_def retE_def)

text \<open>A request that survives the expiry check approved is the stored one, and has not expired.\<close>

lemma expire_if_needed_approved:
  assumes "pg_appr_good w" "ga_approvals g = pg_appr_store" "pg_appr_reqs w (rq_request_id rq0) = Some rq0"
    and "expire_if_needed g rq0 w = (Inr rq, w')" "rq_status rq = APPROVED"
  shows "rq = rq0 \<and> w_clock w (w_clock_at w) \<le> rq_expires_at rq0 \<and> w' = w\<lparr>w_clock_at := Suc (w_clock_at w)\<rparr>"
proof -
  let ?w = "w\<lparr>w_clock_at := Suc (w_clock_at w)\<rparr>"
  show ?thesis
  proof (cases "rq_status rq0 \<in> {PENDING, APPROVED} \<and> w_clock w (w_clock_at w) > rq_expires_at rq0")
    case True
    then obtain x w1 where t: "pg_appr_transition (rq_request_id rq0) [PENDING, APPROVED] EXPIRED [] ?w = (Inr x, w1)"
        "x = Some rq \<or> x = None"
      using assms(2,4) by (auto simp: expire_if_needed_def bindE_Inr now_def stateE_def pg_appr_store_def retE_def
          split: option.splits)
    have good: "pg_appr_good ?w" using assms(1) by simp
    have "spec_transition (rq_request_id rq0) [PENDING, APPROVED] EXPIRED [] (pg_appr_reqs w) x (pg_appr_reqs w1)"
      using atomicD(1) [OF pg_transition_atomic good t(1)] by simp
    then have "x = Some (rq0\<lparr>rq_status := EXPIRED\<rparr>)"
      using assms(3) True by (auto simp: spec_transition_def apply_fields_def Let_def)
    then show ?thesis using t(2) assms(5) by auto
  next
    case False
    then show ?thesis using assms(4,5)
      by (auto simp: expire_if_needed_def bindE_Inr now_def stateE_def retE_def split: if_splits)
  qed
qed

lemma mismatch_None:
  "mismatch rq c tool args = None \<Longrightarrow> rq_status rq = APPROVED \<and> rq_tool rq = tool \<and> rq_subject rq = ch_subject c
    \<and> rq_actor rq = ch_actor c \<and> rq_delegation_depth rq = chain_depth c \<and> Some (rq_args_hash rq) = hash_args (Some args)"
  by (auto simp: mismatch_def hash_args_def split: if_splits)

lemma redeem_ALLOW_run:
  fixes w :: "('x, 'm) appr_world_scheme"
  assumes "pg_appr_good w" "ga_approvals g = pg_appr_store"
    and run: "redeem g c i args tool w = (Inr dn, w')" and allow: "d_outcome dn = ALLOW"
  shows "\<exists>rq t w1 w2. pg_appr_reqs w i = Some rq \<and> w_clock w (w_clock_at w) \<le> rq_expires_at rq
    \<and> mismatch rq c (tool_or tool (rq_tool rq)) (args_or_empty args) = None
    \<and> pg_appr_reqs w1 = (pg_appr_reqs w)(i \<mapsto> rq\<lparr>rq_status := CONSUMED, rq_consumed_at := Some t\<rparr>)
    \<and> decide (ga_decider g) c action_invoke (rq_tool rq) (Some (args_or_empty args)) (Some \<lparr>approval_id = Some i\<rparr>) w1 = (Inr dn, w2)"
proof -
  obtain found w0 where get: "pg_appr_get i w = (Inr found, w0)"
    using run assms(2) by (auto simp: redeem_def Let_def bindE_Inr pg_appr_store_def)
  note g = pg_get_run [OF assms(1) get]
  obtain rq0 where rq0: "found = Some rq0"
    using run get assms(2) allow by (cases found) (auto simp: redeem_def Let_def bindE_Inr pg_appr_store_def dest: gate_deny_DENY)
  then have id: "rq_request_id rq0 = i" using pg_appr.ids [OF assms(1)] g(3) by simp
  let ?target = "tool_or tool (rq_tool rq0)" and ?args = "args_or_empty args"
  let ?spent = "\<lambda>rq t. as_consume (ga_approvals g) (rq_request_id rq) t"
  obtain rq wa where ex: "expire_if_needed g rq0 w0 = (Inr rq, wa)"
      and rest: "(case mismatch rq c ?target ?args of
         Some why \<Rightarrow> gate_deny g c ?target ?args why
       | None \<Rightarrow> bindE now (\<lambda>t. bindE (?spent rq t) (\<lambda>spent. case spent of
           None \<Rightarrow> gate_deny g c ?target ?args ''approval_consumed''
         | Some consumed \<Rightarrow>
             bindE (decide (ga_decider g) c action_invoke ?target (Some ?args)
               (Some \<lparr>approval_id = Some (rq_request_id rq)\<rparr>)) (\<lambda>dn.
             bindE (gate_event EvApprovalConsumed consumed ''CONSUMED''
               (if d_outcome dn = ALLOW then ''redeemed'' else d_reason dn)) (\<lambda>ev.
             bindE (ga_audit g ev) (\<lambda>_. retE dn)))))) wa = (Inr dn, w')"
    using run get rq0 assms(2) by (simp add: redeem_def Let_def bindE_Inr pg_appr_store_def liftE_Inr) blast
  have no: "mismatch rq c ?target ?args = None"
    using rest allow by (cases "mismatch rq c ?target ?args") (auto dest: gate_deny_DENY)
  have same: "rq = rq0" "w_clock w (w_clock_at w) \<le> rq_expires_at rq0" "wa = w0\<lparr>w_clock_at := Suc (w_clock_at w0)\<rparr>"
    using expire_if_needed_approved [OF g(1) assms(2) _ ex] mismatch_None [OF no] g rq0 id by auto
  let ?t = "w_clock w0 (Suc (w_clock_at w0))" and ?w = "w0\<lparr>w_clock_at := Suc (Suc (w_clock_at w0))\<rparr>"
  obtain spent wb where cons: "pg_appr_consume i ?t ?w = (Inr (Some spent), wb)"
      "\<exists>wc. decide (ga_decider g) c action_invoke ?target (Some ?args) (Some \<lparr>approval_id = Some i\<rparr>) wb = (Inr dn, wc)"
    using rest no allow same(1,3) id assms(2)
    by (auto simp: bindE_Inr pg_appr_store_def now_def stateE_def retE_def split: option.splits dest: gate_deny_DENY)
  have "as_consume pg_appr_store i ?t ?w = (Inr (Some spent), wb)" using cons(1) by (simp add: pg_appr_store_def)
  from pg_appr.consume_step [OF _ this] have "pg_appr_reqs wb = (pg_appr_reqs w)(i \<mapsto> rq0\<lparr>rq_status := CONSUMED, rq_consumed_at := Some ?t\<rparr>)"
    using g rq0 by auto
  then show ?thesis using cons(2) g(3) rq0 same(1,2) no mismatch_None [OF no] by metis
qed

text \<open>On a database that answers, the store's calls return.\<close>

lemma pg_appr_get_total:
  assumes "pg_appr_good w" "w_db w (w_db_at w) = DbOk"
  shows "pg_appr_get i w = (Inr (pg_appr_reqs w i), w\<lparr>w_db_at := Suc (w_db_at w)\<rparr>)"
proof -
  obtain rs where rs: "w_appr_rows w = map appr_entry rs" "distinct (map rq_request_id rs)" "pg_appr_reqs w = by_id rs"
    using assms(1) by (rule pg_appr_goodE)
  let ?rows = "sort_key (\<lambda>(i, row). ar_created_at row) (filter (\<lambda>(k, row). k = i) (w_appr_rows w))"
  have "\<exists>ys. ?rows = map appr_entry ys"
    unfolding ex_map_conv using rs(1) by auto
  then obtain ys where "?rows = map appr_entry ys" by blast
  then have "\<exists>x. pg_appr_get i w = (Inr x, w\<lparr>w_db_at := Suc (w_db_at w)\<rparr>)"
    using assms(2) by (simp add: pg_appr_get_def pg_appr_requests_def bindE_def db_query_def db_stmt_def mapE_decode retE_def)
  then show ?thesis using pg_get_run(3) [OF assms(1)] by blast
qed

lemma pg_appr_consume_total:
  assumes "pg_appr_good w" "w_db w (w_db_at w) = DbOk" "pg_appr_reqs w i = Some r" "rq_status r = APPROVED"
  shows "\<exists>c w'. pg_appr_consume i t w = (Inr (Some c), w')"
proof -
  obtain rs where rs: "w_appr_rows w = map appr_entry rs" "distinct (map rq_request_id rs)" "pg_appr_reqs w = by_id rs"
    using assms(1) by (rule pg_appr_goodE)
  let ?r = "r\<lparr>rq_status := CONSUMED, rq_consumed_at := Some t\<rparr>"
  have "map_of (w_appr_rows w) i = Some (appr_values r)" "rq_request_id r = i"
    using rs(1,3) assms(3) by_id_id [of rs i r] by (simp_all add: map_of_entries)
  moreover have "appr_values r\<lparr>ar_status := status_value CONSUMED, ar_consumed_at := Some t\<rparr> = appr_values ?r"
    by (simp add: appr_values_def)
  moreover have "ar_status (appr_values r) = status_value APPROVED" using assms(4) by (simp add: appr_values_def)
  ultimately show ?thesis using assms(2)
    by (simp add: pg_appr_consume_def pg_appr_transition_def bindE_def db_stmt_def retE_def liftE_def Let_def
        del: status_value.simps)
qed

lemma decide_allows:
  assumes "valid_pattern r" "valid_ref (ch_subject c) ''user''" "scope_covers (ch_scope c) (Capability (act_kind a) r)"
    and "\<And>w. \<exists>w'. eng_check (dc_engine d) (ch_subject c) (act_relation a) r w = (Inr True, w')"
    and "v_outcome (policy_verdict (dc_policy d) c a r (args_or_empty args) (context_or_none ctx)) = ALLOW"
    and "\<And>x. \<not> sink_raised d x"
  shows "\<exists>dn w'. decide d c a r args ctx w = (Inr dn, w') \<and> d_outcome dn = ALLOW"
proof -
  have ans: "answered (dc_engine d) (ch_subject c) (act_relation a) r x \<Longrightarrow> x = Inr True" for x
    using assms(4) unfolding answered_def by (metis prod.inject)
  have "wp (decide d c a r args ctx) (\<lambda>dn _. d_outcome dn = ALLOW) (\<lambda>_ _. False) w"
  proof (rule wp_decide [OF assms(1,2)])
    fix x dn w'
    assume a: "scope_covers (ch_scope c) (Capability (act_kind a) r) \<Longrightarrow>
        answered (dc_engine d) (ch_subject c) (act_relation a) r x"
      and o: "(d_outcome dn, d_reason dn) = spec_decide (dc_policy d) c a r (args_or_empty args) (context_or_none ctx) x"
    have "x = Inr True" using ans a assms(3) by blast
    then show "d_outcome dn = ALLOW" using o assms(3,5) by (simp add: spec_decide_eq)
  qed (use assms(6) in blast)
  then show ?thesis by (cases "decide d c a r args ctx w") (auto simp: wp_def split: sum.splits)
qed

lemma redeem_allows:
  fixes w :: "('x, 'm) appr_world_scheme"
  assumes store: "pg_appr_good w" "ga_approvals g = pg_appr_store" "\<And>n. w_db w n = DbOk"
    and rq: "pg_appr_reqs w i = Some rq" "w_clock w (w_clock_at w) \<le> rq_expires_at rq"
      "mismatch rq c (rq_tool rq) args = None"
    and valid: "valid_pattern (rq_tool rq)" "valid_ref (ch_subject c) ''user''"
      "scope_covers (ch_scope c) (Capability ACT (rq_tool rq))"
    and engine: "\<And>w. \<exists>w'. eng_check (dc_engine (ga_decider g)) (ch_subject c) ''can_invoke'' (rq_tool rq) w = (Inr True, w')"
    and policy: "dc_policy (ga_decider g) = Some (composite_policy ps)"
      "\<forall>p\<in>set ps. (\<exists>ra. p = require_approval_evaluate ra) \<or> (\<exists>dw. p = deny_when_evaluate dw)"
      "v_outcome (policy_verdict (Some (composite_policy ps)) c action_invoke (rq_tool rq) args no_context) = REQUIRE_APPROVAL"
    and sinks: "\<And>x. \<not> sink_raised (ga_decider g) x" "\<And>ev w. \<exists>w'. ga_audit g ev w = (Inr (), w')"
  shows "\<exists>dn w'. redeem g c i (Some args) None w = (Inr dn, w') \<and> d_outcome dn = ALLOW"
proof -
  let ?w0 = "w\<lparr>w_db_at := Suc (w_db_at w)\<rparr>" and ?ctx = "\<lparr>approval_id = Some i\<rparr>"
  have id: "rq_request_id rq = i" by (rule pg_appr.ids [OF store(1) rq(1)])
  have approved: "rq_status rq = APPROVED" using mismatch_None [OF rq(3)] by simp
  have get: "pg_appr_get i w = (Inr (Some rq), ?w0)" using pg_appr_get_total [OF store(1)] store(3) rq(1) by simp
  have ex: "expire_if_needed g rq ?w0 = (Inr rq, ?w0\<lparr>w_clock_at := Suc (w_clock_at w)\<rparr>)"
    using approved rq(2) by (simp add: expire_if_needed_def bindE_def now_def stateE_def retE_def)
  let ?w1 = "?w0\<lparr>w_clock_at := Suc (Suc (w_clock_at w))\<rparr>" and ?t = "w_clock w (Suc (w_clock_at w))"
  obtain spent w2 where spend: "pg_appr_consume i ?t ?w1 = (Inr (Some spent), w2)"
    using pg_appr_consume_total [of ?w1 i rq ?t] store rq(1) approved by auto
  have "\<forall>p\<in>set ps. approval_policy p"
    using policy(2) by (auto intro: require_approval.approval_policy_axioms deny_when.approval_policy_axioms)
  from approval_policy.approved [OF composite_approval_policy [OF this]]
  have "v_outcome (policy_verdict (dc_policy (ga_decider g)) c action_invoke (rq_tool rq) args ?ctx) = ALLOW"
    using policy(1,3) by (auto simp: policy_verdict_def no_context_def lift_approval_def verdict_ALLOW_def
        map_sum_def split: sum.splits if_splits)
  then obtain dn w3 where dec: "decide (ga_decider g) c action_invoke (rq_tool rq) (Some args) (Some ?ctx) w2 = (Inr dn, w3)"
      "d_outcome dn = ALLOW"
    using decide_allows [OF valid(1,2), of action_invoke "ga_decider g" "Some args" "Some ?ctx" w2] valid(3) engine sinks(1)
    by (auto simp: action_invoke_def args_or_empty_def context_or_none_def)
  obtain ev w4 where ev: "gate_event EvApprovalConsumed spent ''CONSUMED'' ''redeemed'' w3 = (Inr ev, w4)"
    by (simp add: gate_event_def bindE_def now_def uuid4_hex_def stateE_def retE_def)
  obtain w5 where "ga_audit g ev w4 = (Inr (), w5)" using sinks(2) by blast
  then have "redeem g c i (Some args) None w = (Inr dn, w5)"
    using get ex rq(3) valid(1) spend dec ev id store(2)
    by (simp add: redeem_def args_or_empty_def tool_or_def Let_def bindE_def pg_appr_store_def liftE_def
        validate_resource_pattern_def now_def stateE_def retE_def)
  then show ?thesis using dec(2) by blast
qed

section \<open>Properties\<close>

text \<open>
  C14: an approval is good for one call. Let the gate have stored the request for a chain, a tool and
  arguments, and let the requests have taken any steps since. If \<open>redeem\<close> then returns ALLOW for that
  request, the call is the one that was parked: the same tool, the same subject, actor and depth,
  arguments with the same hash, before the expiry; the request was approved, is consumed before the
  decision, and the decision was taken on the tool of the request.
\<close>

theorem redeem_only_the_parked_call:
  fixes w :: "('x, 'm) appr_world_scheme"
  assumes stored: "m i = Some (new_request c0 tool0 args0 dn0 t0 ttl i)"
    and steps: "approval_step\<^sup>*\<^sup>* m (pg_appr_reqs w)"
    and store: "pg_appr_good w" "ga_approvals g = pg_appr_store"
    and run: "redeem g c i args tool w = (Inr dn, w')" "d_outcome dn = ALLOW"
  shows "tool_or tool tool0 = tool0 \<and> ch_subject c = ch_subject c0 \<and> ch_actor c = ch_actor c0
    \<and> chain_depth c = chain_depth c0 \<and> hash_args (Some (args_or_empty args)) = hash_args (Some args0)
    \<and> w_clock w (w_clock_at w) \<le> t0 + ttl
    \<and> (\<exists>rq t w1 w2. pg_appr_reqs w i = Some rq \<and> rq_status rq = APPROVED
        \<and> pg_appr_reqs w1 = (pg_appr_reqs w)(i \<mapsto> rq\<lparr>rq_status := CONSUMED, rq_consumed_at := Some t\<rparr>)
        \<and> decide (ga_decider g) c action_invoke tool0 (Some (args_or_empty args)) (Some \<lparr>approval_id = Some i\<rparr>) w1
            = (Inr dn, w2))"
proof -
  obtain rq t w1 w2 where rq: "pg_appr_reqs w i = Some rq" "w_clock w (w_clock_at w) \<le> rq_expires_at rq"
      "mismatch rq c (tool_or tool (rq_tool rq)) (args_or_empty args) = None"
      "pg_appr_reqs w1 = (pg_appr_reqs w)(i \<mapsto> rq\<lparr>rq_status := CONSUMED, rq_consumed_at := Some t\<rparr>)"
      "decide (ga_decider g) c action_invoke (rq_tool rq) (Some (args_or_empty args)) (Some \<lparr>approval_id = Some i\<rparr>) w1 = (Inr dn, w2)"
    using redeem_ALLOW_run [OF store run] by blast
  have same: "same_call rq (new_request c0 tool0 args0 dn0 t0 ttl i)"
    using approval_steps_keep [OF steps stored] rq(1) by auto
  note bound = mismatch_None [OF rq(3)]
  have fields: "rq_tool rq = tool0" "rq_subject rq = ch_subject c0" "rq_actor rq = ch_actor c0"
      "rq_delegation_depth rq = chain_depth c0" "rq_expires_at rq = t0 + ttl" "Some (rq_args_hash rq) = hash_args (Some args0)"
    using same by (simp_all add: same_call_iff new_request_def hash_args_def)
  show ?thesis
    by (intro conjI exI [of _ rq] exI [of _ t] exI [of _ w1] exI [of _ w2]) (use fields bound rq in auto)
qed

text \<open>
  C16: an approved call goes through. On a database that answers, with a sink that accepts, an engine
  that answers true and a policy composed of the built-in ones that asked for the approval, redeeming
  an approved, unexpired request for the call it was made for, within the scope of the chain, returns
  ALLOW.
\<close>

theorem approved_call_goes_through:
  fixes w :: "('x, 'm) appr_world_scheme"
  assumes store: "pg_appr_good w" "ga_approvals g = pg_appr_store" "\<And>n. w_db w n = DbOk"
    and rq: "pg_appr_reqs w i = Some rq" "w_clock w (w_clock_at w) \<le> rq_expires_at rq"
      "mismatch rq c (rq_tool rq) args = None"
    and valid: "valid_pattern (rq_tool rq)" "valid_ref (ch_subject c) ''user''"
      "scope_covers (ch_scope c) (Capability ACT (rq_tool rq))"
    and engine: "\<And>w. \<exists>w'. eng_check (dc_engine (ga_decider g)) (ch_subject c) ''can_invoke'' (rq_tool rq) w = (Inr True, w')"
    and policy: "dc_policy (ga_decider g) = Some (composite_policy ps)"
      "\<forall>p\<in>set ps. (\<exists>ra. p = require_approval_evaluate ra) \<or> (\<exists>dw. p = deny_when_evaluate dw)"
      "v_outcome (policy_verdict (Some (composite_policy ps)) c action_invoke (rq_tool rq) args no_context) = REQUIRE_APPROVAL"
    and sinks: "\<And>x. \<not> sink_raised (ga_decider g) x" "\<And>ev w. \<exists>w'. ga_audit g ev w = (Inr (), w')"
  shows "\<exists>dn w'. redeem g c i (Some args) None w = (Inr dn, w') \<and> d_outcome dn = ALLOW"
  using assms by (rule redeem_allows)

text \<open>
  Only the channel's own error class is contained. A channel that raises an exception of any
  other class makes \<open>gate\<close> raise it, after the request was stored and recorded: the caller gets neither
  the decision nor the request.
\<close>

theorem channel_exception_escapes:
  assumes ch: "ch \<in> set (ga_channels g)"
    and raises: "\<And>rq w. \<exists>e w'. snd ch rq w = (Inl e, w') \<and> \<not> catches ApprovalChannelError e"
    and run: "gate g c tool args w = (Inr res, w')"
  shows "gr_approval res = None \<and> d_outcome (gr_decision res) \<noteq> REQUIRE_APPROVAL"
proof (rule ccontr)
  assume "\<not> (gr_approval res = None \<and> d_outcome (gr_decision res) \<noteq> REQUIRE_APPROVAL)"
  then obtain rq w1 w2 where "notify_all g rq w1 = (Inr (), w2)"
    using run by (auto simp: gate_def Let_def bindE_Inr retE_def split: if_splits)
  then obtain ys w3 where "mapE (notify_one g rq) (ga_channels g) w1 = (Inr ys, w3)"
    by (auto simp: notify_all_def forE_def bindE_Inr)
  from mapE_Inr_witness [OF this ch] obtain y w4 w5 where one: "notify_one g rq ch w4 = (Inr y, w5)" by blast
  obtain e w6 where "snd ch rq w4 = (Inl e, w6)" "\<not> catches ApprovalChannelError e" using raises by blast
  then show False using one by (simp add: notify_one_def catchE_def raiseE_def)
qed

section \<open>Examples\<close>

definition sample_gate_chain :: principal_chain where
  "sample_gate_chain = \<lparr>ch_subject = ''user:alice'', ch_actor = ''agent:a'', ch_delegation = [],
     ch_scope = set [Capability ACT ''tool:pay''], ch_root_scope = None\<rparr>"

definition sample_gate :: "unit appr_world action_gate" where
  "sample_gate = \<lparr>ga_decider = \<lparr>dc_engine = sample_engine, dc_audit = (\<lambda>e w. (Inr (), w)),
       dc_policy = Some (composite_policy sample_policies), dc_metrics = None\<rparr>,
     ga_approvals = pg_appr_store, ga_audit = (\<lambda>e w. (Inr (), w)), ga_ttl = DEFAULT_APPROVAL_TTL,
     ga_allow_self = False, ga_channels = [(''broken'', \<lambda>rq w. (Inl (Other ''ValueError''), w))], ga_metrics = None\<rparr>"

definition sample_args :: tool_args where
  "sample_args = [(''amount'', JInt 5)]"

definition sample_parked :: approval_request where
  "sample_parked = new_request sample_gate_chain ''tool:pay'' sample_args
     \<lparr>d_outcome = REQUIRE_APPROVAL, d_reason = ''approval_required'', d_chain = sample_gate_chain, d_resource = ''tool:pay'',
      d_action = action_invoke, d_timestamp = 0, d_engine_latency_ms = float_zero, d_decision_id = ''d1'', d_resources = []\<rparr>
     0 DEFAULT_APPROVAL_TTL ''r1''"

definition sample_gate_world :: "unit appr_world" where
  "sample_gate_world = appr_world0\<lparr>w_appr_rows := [appr_entry (sample_parked\<lparr>rq_status := APPROVED\<rparr>)]\<rparr>"

lemma sample_gate_store:
  "pg_appr_good sample_gate_world" "pg_appr_reqs sample_gate_world = [''r1'' \<mapsto> sample_parked\<lparr>rq_status := APPROVED\<rparr>]"
  "w_db sample_gate_world n = DbOk" "w_clock sample_gate_world (w_clock_at sample_gate_world) = 0"
proof -
  have "w_appr_rows sample_gate_world = map appr_entry [sample_parked\<lparr>rq_status := APPROVED\<rparr>]"
    by (simp add: sample_gate_world_def)
  from pg_appr_entriesI [OF this] show "pg_appr_good sample_gate_world"
      "pg_appr_reqs sample_gate_world = [''r1'' \<mapsto> sample_parked\<lparr>rq_status := APPROVED\<rparr>]"
    by (simp_all add: by_id_def sample_parked_def new_request_def)
qed (simp_all add: sample_gate_world_def appr_world0_def)

lemma sample_gate_valid:
  "valid_pattern ''tool:pay''" "valid_ref ''user:alice'' ''user''"
  "scope_covers (ch_scope sample_gate_chain) (Capability ACT ''tool:pay'')"
  "matches_tool [Capability ACT ''tool:pay''] ''tool:pay'' = Inr True"
  by code_simp+

lemma sample_gate_policy:
  "\<forall>p\<in>set sample_policies. (\<exists>ra. p = require_approval_evaluate ra) \<or> (\<exists>dw. p = deny_when_evaluate dw)"
  "v_outcome (policy_verdict (Some (composite_policy sample_policies)) sample_gate_chain action_invoke ''tool:pay'' sample_args no_context)
    = REQUIRE_APPROVAL"
  by (auto simp: sample_policies_def policy_verdict_def composite_policy_def require_approval_evaluate_def no_context_def
      deny_when_evaluate_def action_invoke_def sample_gate_valid(4) most_restrictive_def verdict_ALLOW_def sample_args_def
      simp del: matches_tool.simps)

lemma sample_parked_fields:
  "rq_tool (sample_parked\<lparr>rq_status := APPROVED\<rparr>) = ''tool:pay''"
  "rq_expires_at (sample_parked\<lparr>rq_status := APPROVED\<rparr>) = DEFAULT_APPROVAL_TTL"
  "mismatch (sample_parked\<lparr>rq_status := APPROVED\<rparr>) sample_gate_chain ''tool:pay'' sample_args = None"
  by (simp_all add: sample_parked_def new_request_def mismatch_def hash_args_def)

lemma sample_gate_total: "\<not> sink_raised (ga_decider sample_gate) x" "\<exists>w'. ga_audit sample_gate ev w = (Inr (), w')"
  by (simp_all add: sink_raised_def sample_gate_def)

lemma sample_redeem:
  "\<exists>dn w'. redeem sample_gate sample_gate_chain ''r1'' (Some sample_args) None sample_gate_world = (Inr dn, w') \<and> d_outcome dn = ALLOW"
  by (rule redeem_allows [OF sample_gate_store(1) _ sample_gate_store(3), where rq = "sample_parked\<lparr>rq_status := APPROVED\<rparr>" and ps = sample_policies])
     (simp_all add: sample_gate_store sample_parked_fields sample_gate_valid sample_gate_policy sample_gate_total
        sample_gate_def sample_gate_chain_def [THEN arg_cong [of _ _ ch_subject]] sample_engine_def DEFAULT_APPROVAL_TTL_def seconds_def sink_raised_def)

theorem approved_call_goes_through_witness:
  "\<exists>dn w'. redeem sample_gate sample_gate_chain ''r1'' (Some sample_args) None sample_gate_world = (Inr dn, w') \<and> d_outcome dn = ALLOW"
  by (rule approved_call_goes_through [OF sample_gate_store(1) _ sample_gate_store(3),
        where rq = "sample_parked\<lparr>rq_status := APPROVED\<rparr>" and ps = sample_policies])
     (simp_all add: sample_gate_store sample_parked_fields sample_gate_valid sample_gate_policy sample_gate_total
        sample_gate_def sample_gate_chain_def [THEN arg_cong [of _ _ ch_subject]] sample_engine_def DEFAULT_APPROVAL_TTL_def
        seconds_def sink_raised_def)

theorem redeem_only_the_parked_call_witness:
  "\<exists>dn w'. redeem sample_gate sample_gate_chain ''r1'' (Some sample_args) None sample_gate_world = (Inr dn, w')
    \<and> tool_or None ''tool:pay'' = ''tool:pay'' \<and> w_clock sample_gate_world (w_clock_at sample_gate_world) \<le> 0 + DEFAULT_APPROVAL_TTL"
proof -
  obtain dn w' where run: "redeem sample_gate sample_gate_chain ''r1'' (Some sample_args) None sample_gate_world = (Inr dn, w')"
      "d_outcome dn = ALLOW" using sample_redeem by blast
  have "approval_step [''r1'' \<mapsto> sample_parked] ([''r1'' \<mapsto> sample_parked](''r1'' \<mapsto> apply_fields [] (sample_parked\<lparr>rq_status := APPROVED\<rparr>)))"
    by (rule approval_step.resolved) (simp_all add: sample_parked_def new_request_def)
  then have steps: "approval_step\<^sup>*\<^sup>* [''r1'' \<mapsto> sample_parked] (pg_appr_reqs sample_gate_world)"
    by (simp add: sample_gate_store(2) apply_fields_def)
  have gate: "ga_approvals sample_gate = pg_appr_store" by (simp add: sample_gate_def)
  have stored: "[''r1'' \<mapsto> sample_parked] ''r1'' = Some sample_parked" by simp
  show ?thesis
    using run redeem_only_the_parked_call [OF stored [unfolded sample_parked_def] steps [unfolded sample_parked_def]
        sample_gate_store(1) gate run] by simp
qed

theorem channel_exception_escapes_witness:
  "\<exists>res w'. gate sample_gate sample_chain ''tool:pay'' None appr_world0 = (Inr res, w') \<and> gr_approval res = None"
proof -
  have valid: "valid_ref ''tool:pay'' ''tool''" by code_simp
  have out: "\<not> scope_covers (ch_scope sample_chain) (Capability ACT ''tool:pay'')" by code_simp
  have "wp (decide (ga_decider sample_gate) sample_chain action_invoke ''tool:pay'' (Some []) None)
      (\<lambda>dn _. d_outcome dn = DENY) (\<lambda>_ _. False) appr_world0"
    by (rule wp_decide [OF sample_gate_valid(1) sample_valid(3)])
       (use out sample_gate_total(1) in \<open>auto simp: spec_decide_eq action_invoke_def\<close>)
  then obtain dn w1 where "decide (ga_decider sample_gate) sample_chain action_invoke ''tool:pay'' (Some []) None appr_world0 = (Inr dn, w1)"
      "d_outcome dn = DENY"
    by (cases "decide (ga_decider sample_gate) sample_chain action_invoke ''tool:pay'' (Some []) None appr_world0")
       (auto simp: wp_def split: sum.splits)
  then obtain res where run: "gate sample_gate sample_chain ''tool:pay'' None appr_world0 = (Inr res, w1)"
    using valid by (simp add: gate_def Let_def bindE_def liftE_def retE_def args_or_empty_def)
  have "gr_approval res = None \<and> d_outcome (gr_decision res) \<noteq> REQUIRE_APPROVAL"
    by (rule channel_exception_escapes [OF _ _ run, of "hd (ga_channels sample_gate)"])
       (simp_all add: sample_gate_def is_a_def)
  then show ?thesis using run by blast
qed

end
