(* ===== verification/Tokens_Biscuit.thy ===== *)
theory Tokens_Biscuit
  imports Actions_Gate
begin

text \<open>
  Biscuit tokens (\<open>tokens/biscuit/\<close>: datalog, keys, revocation, service).

  The library \<open>biscuit_auth\<close> is third-party code: \<open>biscuit_lib\<close> is the record of the calls the code
  makes, on tokens of a type \<open>'b\<close> and keys of types \<open>'pub\<close> and \<open>'priv\<close>. What the code hands to it is data:
  \<open>dblock\<close> is a block of Datalog in the fragment the program writes (facts and three forms of checks;
  \<open>CheckOther\<close> is any check someone else wrote into a block), \<open>authorizer\<close> the facts of a request with
  the fixed policies. \<open>biscuit_laws\<close> states the documented behaviour: how blocks accumulate, what a
  query over the authority block returns, what an authorization that succeeds means, how a block
  prints, and that block ids accumulate. \<open>w_revoked_rows\<close> is the table \<open>token_revocations\<close>.
\<close>

section \<open>Datalog\<close>

datatype dterm = DStr string | DTime datetime

type_synonym dfact = "string \<times> dterm list"

text \<open>\<open>check if time($t), $t < e\<close>; \<open>check if false\<close>; one alternative per capability, (is a prefix, kind,
  text); anything else.\<close>

datatype dcheck = CheckTime datetime | CheckFalse | CheckScope "(bool \<times> string \<times> string) list" | CheckOther string

record dblock =
  bk_facts :: "dfact list"
  bk_checks :: "dcheck list"

definition cap_fact :: "capability \<Rightarrow> dfact" where
  "cap_fact c = (if is_pattern c then (''cap_prefix'', [DStr (kind_value (cap_kind c)), DStr (butlast (cap_resource c))])
     else (''cap_exact'', [DStr (kind_value (cap_kind c)), DStr (cap_resource c)]))"

definition authority_builder ::
    "string \<Rightarrow> string \<Rightarrow> scope \<Rightarrow> datetime \<Rightarrow> datetime \<Rightarrow> string option \<Rightarrow> dblock" where
  "authority_builder subj act s issued_at expires_at mandate_id =
     \<lparr>bk_facts = [(''subject'', [DStr subj]), (''actor'', [DStr act]), (''issued_at'', [DTime issued_at]),
          (''expires_at'', [DTime expires_at])] @ map cap_fact (sorted_scope s)
        @ (case mandate_id of None \<Rightarrow> [] | Some m \<Rightarrow> [(''mandate'', [DStr m])]),
      bk_checks = [CheckTime expires_at]\<rparr>"

definition scope_clause :: "capability \<Rightarrow> bool \<times> string \<times> string" where
  "scope_clause c = (is_pattern c, kind_value (cap_kind c),
     if is_pattern c then butlast (cap_resource c) else cap_resource c)"

definition scope_check :: "scope \<Rightarrow> dcheck" where
  "scope_check s = (if card s = 0 then CheckFalse else CheckScope (map scope_clause (sorted_scope s)))"

definition attenuation_builder :: "string \<Rightarrow> string \<Rightarrow> scope \<Rightarrow> dblock" where
  "attenuation_builder a b s =
     \<lparr>bk_facts = (''delegation'', [DStr a, DStr b])
        # map (\<lambda>c. (''scope_cap'', [DStr (kind_value (cap_kind c)), DStr (cap_resource c)])) (sorted_scope s),
      bk_checks = [scope_check s]\<rparr>"

text \<open>\<open>Capability(Kind(kind), resource)\<close> with an unknown kind as \<open>TokenInvalid\<close>.\<close>

definition token_capability :: "string \<Rightarrow> string \<Rightarrow> exn + capability" where
  "token_capability k r = (case kind_of k of None \<Rightarrow> Inl (hoc TokenInvalid) | Some kd \<Rightarrow> mk_capability kd r)"

subsection \<open>Reading a trail block\<close>

text \<open>\<open>str.splitlines\<close> on code points below 256; \<open>\r\n\<close> is one break.\<close>

definition line_break :: "char \<Rightarrow> bool" where
  "line_break c = (c \<in> set [CHR 0x0A, CHR 0x0B, CHR 0x0C, CHR 0x0D, CHR 0x1C, CHR 0x1D, CHR 0x1E, CHR 0x85])"

fun split_lines :: "string \<Rightarrow> string \<Rightarrow> string list" where
  "split_lines acc [] = (if acc = [] then [] else [rev acc])"
| "split_lines acc (c # cs) =
     (if c = CHR 0x0D \<and> cs \<noteq> [] \<and> hd cs = CHR 0x0A then rev acc # split_lines [] (tl cs)
      else if line_break c then rev acc # split_lines [] cs
      else split_lines (c # acc) cs)"

definition splitlines :: "string \<Rightarrow> string list" where
  "splitlines s = split_lines [] s"

text \<open>The regular expressions: \<open>name("x", "y");\<close> with non-empty arguments free of quotes and backslashes.\<close>

definition plain_arg_char :: "char \<Rightarrow> bool" where
  "plain_arg_char c = (c \<noteq> CHR 0x22 \<and> c \<noteq> CHR 0x5C)"

definition match_fact :: "string \<Rightarrow> string \<Rightarrow> (string \<times> string) option" where
  "match_fact name line =
     (let open_text = name @ [CHR ''('', CHR 0x22] in
      if \<not> startswith line open_text then None
      else let s1 = drop (length open_text) line;
               a = takeWhile plain_arg_char s1; r1 = dropWhile plain_arg_char s1;
               mid = [CHR 0x22, CHR '','', CHR '' '', CHR 0x22] in
        if a = [] \<or> \<not> startswith r1 mid then None
        else let s2 = drop 4 r1; b = takeWhile plain_arg_char s2; r2 = dropWhile plain_arg_char s2 in
          if b = [] \<or> r2 \<noteq> [CHR 0x22, CHR '')'', CHR '';''] then None else Some (a, b))"

fun trail_lines ::
    "string list \<Rightarrow> (string \<times> string) option \<Rightarrow> capability list \<Rightarrow> exn + ((string \<times> string) option \<times> capability list)" where
  "trail_lines [] dlg caps = Inr (dlg, caps)"
| "trail_lines (raw # rest) dlg caps =
     (let line = strip raw in
      case match_fact ''delegation'' line of
        Some ab \<Rightarrow> if dlg \<noteq> None then Inl (hoc TokenInvalid) else trail_lines rest (Some ab) caps
      | None \<Rightarrow> (case match_fact ''scope_cap'' line of
          Some (k, r) \<Rightarrow> (case token_capability k r of Inl e \<Rightarrow> Inl e | Inr c \<Rightarrow> trail_lines rest dlg (caps @ [c]))
        | None \<Rightarrow> trail_lines rest dlg caps))"

definition parse_trail_block :: "string \<Rightarrow> exn + ((string \<times> string) \<times> scope) option" where
  "parse_trail_block source = (case trail_lines (splitlines source) None [] of
     Inl e \<Rightarrow> Inl e
   | Inr (None, _) \<Rightarrow> Inr None
   | Inr (Some ab, caps) \<Rightarrow> Inr (Some (ab, scope_of caps)))"

section \<open>The library\<close>

record authorizer =
  az_caller :: string
  az_operation :: string
  az_resource :: string
  az_time :: datetime

text \<open>\<open>AuthorizationError\<close>, or any other exception.\<close>

datatype auth_failure = AuthorizationError | AuthorizerFailed exn

record ('b, 'pub, 'priv) biscuit_lib =
  bl_unverified_key :: "string \<Rightarrow> exn + int option"
  bl_from_base64 :: "string \<Rightarrow> 'pub \<Rightarrow> exn + 'b"
  bl_to_base64 :: "'b \<Rightarrow> string"
  bl_build :: "dblock \<Rightarrow> int \<Rightarrow> 'priv \<Rightarrow> 'b"
  bl_append :: "'b \<Rightarrow> dblock \<Rightarrow> 'b"
  bl_block_count :: "'b \<Rightarrow> nat"
  bl_block_source :: "'b \<Rightarrow> nat \<Rightarrow> string"
  bl_revocation_ids :: "'b \<Rightarrow> string list"
  bl_query :: "'b \<Rightarrow> string \<Rightarrow> nat \<Rightarrow> exn + dterm list list"
  bl_authorize :: "'b \<Rightarrow> authorizer \<Rightarrow> auth_failure + unit"
  bl_public_of :: "'priv \<Rightarrow> 'pub"

subsection \<open>Keys\<close>

record ('pub, 'priv) keyring =
  kr_public :: "(int \<times> 'pub) list"
  kr_private :: "(int \<times> 'priv) list"

definition add_private_key ::
    "('b, 'pub, 'priv) biscuit_lib \<Rightarrow> int \<Rightarrow> 'priv \<Rightarrow> ('pub, 'priv) keyring \<Rightarrow> ('pub, 'priv) keyring" where
  "add_private_key lib i p kr = kr\<lparr>kr_private := AList.update i p (kr_private kr),
     kr_public := AList.update i (bl_public_of lib p) (kr_public kr)\<rparr>"

definition add_public_key :: "int \<Rightarrow> 'pub \<Rightarrow> ('pub, 'priv) keyring \<Rightarrow> ('pub, 'priv) keyring" where
  "add_public_key i p kr = kr\<lparr>kr_public := AList.update i p (kr_public kr)\<rparr>"

definition public_key :: "('pub, 'priv) keyring \<Rightarrow> int option \<Rightarrow> exn + 'pub" where
  "public_key kr i = (case i of None \<Rightarrow> Inl (hoc TokenInvalid)
     | Some k \<Rightarrow> (case map_of (kr_public kr) k of None \<Rightarrow> Inl (hoc TokenInvalid) | Some p \<Rightarrow> Inr p))"

definition private_key :: "('pub, 'priv) keyring \<Rightarrow> int \<Rightarrow> exn + 'priv" where
  "private_key kr i = (case map_of (kr_private kr) i of None \<Rightarrow> Inl (hoc TokenInvalid) | Some p \<Rightarrow> Inr p)"

definition key_ids :: "('pub, 'priv) keyring \<Rightarrow> int list" where
  "key_ids kr = sorted_list_of_set (fst ` set (kr_public kr))"

subsection \<open>Reading the authority block\<close>

text \<open>\<open>str(term)\<close>: a datetime prints with a blank where ISO has a T.\<close>

definition dterm_str :: "dterm \<Rightarrow> string" where
  "dterm_str t = (case t of DStr s \<Rightarrow> s
     | DTime d \<Rightarrow> map (\<lambda>c. if c = CHR ''T'' then CHR '' '' else c) (isoformat d))"

definition single_fact :: "('b, 'pub, 'priv) biscuit_lib \<Rightarrow> 'b \<Rightarrow> string \<Rightarrow> exn + dterm" where
  "single_fact lib b name = (case bl_query lib b name 1 of
     Inl e \<Rightarrow> Inl e
   | Inr [[t]] \<Rightarrow> Inr t
   | Inr _ \<Rightarrow> Inl (hoc TokenInvalid))"

definition pair_caps :: "string \<Rightarrow> dterm list list \<Rightarrow> exn + capability list" where
  "pair_caps sfx rows = sequence_sum (map (\<lambda>ts. case ts of
     k # r # _ \<Rightarrow> token_capability (dterm_str k) (dterm_str r @ sfx)
   | _ \<Rightarrow> Inl (Other ''IndexError'')) rows)"

definition read_authority ::
    "('b, 'pub, 'priv) biscuit_lib \<Rightarrow> 'b \<Rightarrow> exn + (string \<times> string \<times> scope \<times> datetime)" where
  "read_authority lib b =
     (case single_fact lib b ''subject'' of Inl e \<Rightarrow> Inl e | Inr subj \<Rightarrow>
      case single_fact lib b ''actor'' of Inl e \<Rightarrow> Inl e | Inr act \<Rightarrow>
      case single_fact lib b ''expires_at'' of Inl e \<Rightarrow> Inl e | Inr ex \<Rightarrow>
      case bl_query lib b ''cap_exact'' 2 of Inl e \<Rightarrow> Inl e | Inr rows1 \<Rightarrow>
      case pair_caps [] rows1 of Inl e \<Rightarrow> Inl e | Inr exact \<Rightarrow>
      case bl_query lib b ''cap_prefix'' 2 of Inl e \<Rightarrow> Inl e | Inr rows2 \<Rightarrow>
      case pair_caps ''*'' rows2 of Inl e \<Rightarrow> Inl e | Inr prefixed \<Rightarrow>
      (case ex of
         DStr _ \<Rightarrow> Inl (hoc TokenInvalid)
       | DTime d \<Rightarrow> Inr (dterm_str subj, dterm_str act, scope_of (exact @ prefixed), d)))"

definition read_mandate :: "('b, 'pub, 'priv) biscuit_lib \<Rightarrow> 'b \<Rightarrow> exn + string option" where
  "read_mandate lib b = (case bl_query lib b ''mandate'' 1 of
     Inl e \<Rightarrow> Inl e
   | Inr [] \<Rightarrow> Inr None
   | Inr [t # _] \<Rightarrow> Inr (Some (dterm_str t))
   | Inr _ \<Rightarrow> Inl (hoc TokenInvalid))"

section \<open>Loading and attenuating\<close>

record issued_token =
  it_token :: string
  it_chain :: principal_chain
  it_expires_at :: datetime
  it_revocation_ids :: "string list"
  it_mandate_id :: "string option"

definition issued_fingerprint :: "issued_token \<Rightarrow> string" where
  "issued_fingerprint i = fingerprint (it_token i)"

record verified_token =
  vt_chain :: principal_chain
  vt_expires_at :: datetime
  vt_revocation_ids :: "string list"
  vt_fingerprint :: string
  vt_mandate_id :: "string option"

record 'b loaded =
  ld_biscuit :: 'b
  ld_chain :: principal_chain
  ld_expires_at :: datetime
  ld_mandate_id :: "string option"

definition mandate_revocation_id :: "string \<Rightarrow> string" where
  "mandate_revocation_id m = ''mandate:'' @ m"

definition with_mandate :: "string list \<Rightarrow> string option \<Rightarrow> string list" where
  "with_mandate ids m = ids @ (case m of None \<Rightarrow> [] | Some i \<Rightarrow> [mandate_revocation_id i])"

definition loaded_revocation_ids :: "('b, 'pub, 'priv) biscuit_lib \<Rightarrow> 'b loaded \<Rightarrow> string list" where
  "loaded_revocation_ids lib l = with_mandate (bl_revocation_ids lib (ld_biscuit l)) (ld_mandate_id l)"

definition own_revocation_id :: "('b, 'pub, 'priv) biscuit_lib \<Rightarrow> 'b loaded \<Rightarrow> string" where
  "own_revocation_id lib l = last (bl_revocation_ids lib (ld_biscuit l))"

text \<open>The loop over the blocks after the first.\<close>

fun rebuild_chain :: "principal_chain \<Rightarrow> string list \<Rightarrow> exn + principal_chain" where
  "rebuild_chain c [] = Inr c"
| "rebuild_chain c (src # rest) = (case parse_trail_block src of
     Inl e \<Rightarrow> Inl e
   | Inr None \<Rightarrow> rebuild_chain c rest
   | Inr (Some ((a, b), declared)) \<Rightarrow>
       if a \<noteq> ch_actor c then Inl (hoc TokenInvalid)
       else (case delegate c b declared of Inl e \<Rightarrow> Inl e | Inr c' \<Rightarrow> rebuild_chain c' rest))"

text \<open>\<open>except InvariantViolation as exc: raise TokenInvalid(..., reason=exc.reason)\<close>\<close>

definition as_token_invalid :: "exn \<Rightarrow> exn" where
  "as_token_invalid e = (if catches InvariantViolation e then Hoc TokenInvalid (failure_reason [] e) else e)"

text \<open>\<open>except TokenInvalid: raise\<close>, then \<open>except Exception: raise TokenInvalid\<close>.\<close>

definition unreadable :: "exn \<Rightarrow> exn" where
  "unreadable e = (if catches TokenInvalid e then e else hoc TokenInvalid)"

definition load :: "('b, 'pub, 'priv) biscuit_lib \<Rightarrow> ('pub, 'priv) keyring \<Rightarrow> string \<Rightarrow> exn + 'b loaded" where
  "load lib kr token =
     (case bl_unverified_key lib token of Inl _ \<Rightarrow> Inl (hoc TokenInvalid) | Inr kid \<Rightarrow>
      case public_key kr kid of Inl e \<Rightarrow> Inl e | Inr pub \<Rightarrow>
      case bl_from_base64 lib token pub of Inl _ \<Rightarrow> Inl (hoc TokenInvalid) | Inr b \<Rightarrow>
      if bl_block_count lib b - 1 > MAX_DELEGATION_DEPTH then Inl (hoc TokenInvalid) else
      case read_authority lib b of Inl e \<Rightarrow> Inl (unreadable e) | Inr (subj, act, s, ex) \<Rightarrow>
      case read_mandate lib b of Inl e \<Rightarrow> Inl (unreadable e) | Inr m \<Rightarrow>
      case root_chain subj act s of Inl e \<Rightarrow> Inl (as_token_invalid e) | Inr c0 \<Rightarrow>
      case rebuild_chain c0 (map (bl_block_source lib b) [1..<bl_block_count lib b]) of
        Inl e \<Rightarrow> Inl (as_token_invalid e)
      | Inr c \<Rightarrow> Inr \<lparr>ld_biscuit = b, ld_chain = c, ld_expires_at = ex, ld_mandate_id = m\<rparr>)"

definition attenuate ::
    "('b, 'pub, 'priv) biscuit_lib \<Rightarrow> ('pub, 'priv) keyring \<Rightarrow> string \<Rightarrow> string \<Rightarrow> scope \<Rightarrow> exn + issued_token" where
  "attenuate lib kr token b s =
     (case validate_ref b ''agent'' of Inl e \<Rightarrow> Inl e | Inr _ \<Rightarrow>
      case load lib kr token of Inl e \<Rightarrow> Inl e | Inr l \<Rightarrow>
      if chain_depth (ld_chain l) \<ge> MAX_DELEGATION_DEPTH then Inl (hoc TokenInvalid) else
      case delegate (ld_chain l) b s of Inl e \<Rightarrow> Inl e | Inr child \<Rightarrow>
      let bis = bl_append lib (ld_biscuit l) (attenuation_builder (ch_actor (ld_chain l)) b s) in
      Inr \<lparr>it_token = bl_to_base64 lib bis, it_chain = child, it_expires_at = ld_expires_at l,
           it_revocation_ids = with_mandate (bl_revocation_ids lib bis) (ld_mandate_id l),
           it_mandate_id = ld_mandate_id l\<rparr>)"

section \<open>Revocation stores\<close>

record 'x token_world = "'x appr_world" +
  w_revoked_mem :: "(string \<times> string \<times> datetime) list"
  w_revoked_rows :: "(string \<times> string \<times> datetime) list"

record 'w revocation_store =
  rs_revoke :: "string \<Rightarrow> string \<Rightarrow> datetime \<Rightarrow> ('w, exn, unit) eff"
  rs_is_revoked :: "string list \<Rightarrow> ('w, exn, bool) eff"

definition mem_revoke :: "string \<Rightarrow> string \<Rightarrow> datetime \<Rightarrow> (('x, 'm) token_world_scheme, exn, unit) eff" where
  "mem_revoke i reason t = modifyE (\<lambda>w. w\<lparr>w_revoked_mem := AList.update i (reason, t) (w_revoked_mem w)\<rparr>)"

definition mem_is_revoked :: "string list \<Rightarrow> (('x, 'm) token_world_scheme, exn, bool) eff" where
  "mem_is_revoked ids = getsE (\<lambda>w. list_ex (\<lambda>i. map_of (w_revoked_mem w) i \<noteq> None) ids)"

definition mem_revocations :: "('x, 'm) token_world_scheme revocation_store" where
  "mem_revocations = \<lparr>rs_revoke = mem_revoke, rs_is_revoked = mem_is_revoked\<rparr>"

definition pg_revoke :: "string \<Rightarrow> string \<Rightarrow> datetime \<Rightarrow> (('x, 'm) token_world_scheme, exn, unit) eff" where
  "pg_revoke i reason t = db_stmt RevocationStoreUnavailable (\<lambda>w. Some ((),
     if map_of (w_revoked_rows w) i \<noteq> None then w
     else w\<lparr>w_revoked_rows := w_revoked_rows w @ [(i, reason, t)]\<rparr>))"

definition pg_is_revoked :: "string list \<Rightarrow> (('x, 'm) token_world_scheme, exn, bool) eff" where
  "pg_is_revoked ids = (if ids = [] then retE False
     else db_query RevocationStoreUnavailable (\<lambda>w. list_ex (\<lambda>(i, r, t). i \<in> set ids) (w_revoked_rows w)))"

definition pg_revocations :: "('x, 'm) token_world_scheme revocation_store" where
  "pg_revocations = \<lparr>rs_revoke = pg_revoke, rs_is_revoked = pg_is_revoked\<rparr>"

section \<open>The token service\<close>

definition DEFAULT_TTL :: timedelta where
  "DEFAULT_TTL = seconds 3600"

record ('w, 'b, 'pub, 'priv) token_service =
  tk_lib :: "('b, 'pub, 'priv) biscuit_lib"
  tk_keyring :: "('pub, 'priv) keyring"
  tk_revocations :: "'w revocation_store"
  tk_audit :: "'w audit_sink"
  tk_key_id :: int
  tk_ttl :: timedelta

definition token_event ::
    "event_kind \<Rightarrow> issued_token \<Rightarrow> string \<Rightarrow> (('x, 'm) world_scheme, exn, audit_event) eff" where
  "token_event kind i out = bindE now (\<lambda>t. bindE uuid4_hex (\<lambda>eid. retE
     \<lparr>ev_kind = kind, ev_timestamp = t, ev_subject = ch_subject (it_chain i), ev_actor = ch_actor (it_chain i),
      ev_delegation_depth = chain_depth (it_chain i), ev_action = ''token:'' @ out,
      ev_resource = ch_actor (it_chain i), ev_outcome = out,
      ev_reason = ''expires_at='' @ isoformat (it_expires_at i) @
        (case it_mandate_id i of None \<Rightarrow> [] | Some m \<Rightarrow> if m = [] then [] else '' mandate='' @ m),
      ev_engine_latency_ms = float_zero, ev_token_fingerprint = Some (issued_fingerprint i), ev_args_hash = None,
      ev_decision_id = None, ev_event_id = eid\<rparr>))"

text \<open>\<open>ttl or self._ttl\<close>: a zero duration is falsy.\<close>

definition ttl_or :: "timedelta option \<Rightarrow> timedelta \<Rightarrow> timedelta" where
  "ttl_or ttl dflt = (case ttl of None \<Rightarrow> dflt | Some d \<Rightarrow> if d = 0 then dflt else d)"

definition issue ::
    "(('x, 'm) world_scheme, 'b, 'pub, 'priv) token_service \<Rightarrow> principal_chain \<Rightarrow> timedelta option \<Rightarrow> string option
     \<Rightarrow> (('x, 'm) world_scheme, exn, issued_token) eff" where
  "issue svc c ttl m =
     (if chain_depth c \<noteq> 0 then raiseE (hoc TokenInvalid)
      else bindE now (\<lambda>issued_at.
        let expires_at = issued_at + ttl_or ttl (tk_ttl svc);
            blk = authority_builder (ch_subject c) (ch_actor c) (ch_scope c) issued_at expires_at m in
        bindE (liftE (private_key (tk_keyring svc) (tk_key_id svc))) (\<lambda>priv.
        let b = bl_build (tk_lib svc) blk (tk_key_id svc) priv;
            i = \<lparr>it_token = bl_to_base64 (tk_lib svc) b, it_chain = c, it_expires_at = expires_at,
                 it_revocation_ids = with_mandate (bl_revocation_ids (tk_lib svc) b) m, it_mandate_id = m\<rparr> in
        bindE (token_event EvTokenIssued i ''issued'') (\<lambda>ev.
        bindE (tk_audit svc ev) (\<lambda>_.
        retE i)))))"

definition service_attenuate ::
    "(('x, 'm) world_scheme, 'b, 'pub, 'priv) token_service \<Rightarrow> string \<Rightarrow> string \<Rightarrow> scope
     \<Rightarrow> (('x, 'm) world_scheme, exn, issued_token) eff" where
  "service_attenuate svc token b s =
     bindE (liftE (attenuate (tk_lib svc) (tk_keyring svc) token b s)) (\<lambda>i.
     bindE (token_event EvTokenDelegated i ''delegated'') (\<lambda>ev.
     bindE (tk_audit svc ev) (\<lambda>_.
     retE i)))"

definition service_is_revoked ::
    "('w, 'b, 'pub, 'priv) token_service \<Rightarrow> string list \<Rightarrow> ('w, exn, bool) eff" where
  "service_is_revoked svc ids = catchE (rs_is_revoked (tk_revocations svc) ids)
     (\<lambda>e. if catches HocError e then raiseE e else raiseE (hoc TokenInvalid))"

text \<open>The steps every check of a presented token shares: load, revocation, holder.\<close>

definition present ::
    "('w, 'b, 'pub, 'priv) token_service \<Rightarrow> string \<Rightarrow> string \<Rightarrow> ('w, exn, 'b loaded) eff" where
  "present svc token who =
     bindE (liftE (load (tk_lib svc) (tk_keyring svc) token)) (\<lambda>l.
     bindE (service_is_revoked svc (loaded_revocation_ids (tk_lib svc) l)) (\<lambda>dead.
     if dead then raiseE (hoc TokenRevoked)
     else if who \<noteq> ch_actor (ld_chain l) then raiseE (hoc TokenInvalid)
     else retE l))"

definition verified :: "('b, 'pub, 'priv) biscuit_lib \<Rightarrow> string \<Rightarrow> 'b loaded \<Rightarrow> verified_token" where
  "verified lib token l = \<lparr>vt_chain = ld_chain l, vt_expires_at = ld_expires_at l,
     vt_revocation_ids = loaded_revocation_ids lib l, vt_fingerprint = fingerprint token, vt_mandate_id = ld_mandate_id l\<rparr>"

definition verify ::
    "(('x, 'm) world_scheme, 'b, 'pub, 'priv) token_service \<Rightarrow> string \<Rightarrow> string \<Rightarrow> kind \<Rightarrow> string
     \<Rightarrow> (('x, 'm) world_scheme, exn, verified_token) eff" where
  "verify svc token who op r =
     bindE (liftE (validate_ref who ''agent'')) (\<lambda>_.
     bindE (liftE (validate_resource_pattern r)) (\<lambda>_.
     bindE (present svc token who) (\<lambda>l.
     bindE now (\<lambda>t.
     case bl_authorize (tk_lib svc) (ld_biscuit l)
         \<lparr>az_caller = who, az_operation = kind_value op, az_resource = r, az_time = t\<rparr> of
       Inl AuthorizationError \<Rightarrow> raiseE (hoc TokenInvalid)
     | Inl (AuthorizerFailed e) \<Rightarrow> raiseE e
     | Inr _ \<Rightarrow> retE (verified (tk_lib svc) token l)))))"

definition authorized ::
    "(('x, 'm) world_scheme, 'b, 'pub, 'priv) token_service \<Rightarrow> 'b loaded \<Rightarrow> string \<Rightarrow> kind \<Rightarrow> string \<Rightarrow> datetime
     \<Rightarrow> (('x, 'm) world_scheme, exn, bool) eff" where
  "authorized svc l who op r t = (case bl_authorize (tk_lib svc) (ld_biscuit l)
       \<lparr>az_caller = who, az_operation = kind_value op, az_resource = r, az_time = t\<rparr> of
     Inl AuthorizationError \<Rightarrow> retE False
   | Inl (AuthorizerFailed e) \<Rightarrow> raiseE e
   | Inr _ \<Rightarrow> retE True)"

text \<open>The dict \<open>permits\<close> grows in the order of the distinct resources.\<close>

fun permit_all ::
    "(('x, 'm) world_scheme, 'b, 'pub, 'priv) token_service \<Rightarrow> 'b loaded \<Rightarrow> string \<Rightarrow> kind \<Rightarrow> datetime \<Rightarrow> string list
     \<Rightarrow> (string \<times> bool) list \<Rightarrow> (('x, 'm) world_scheme, exn, (string \<times> bool) list) eff" where
  "permit_all svc l who op t [] permits = retE permits"
| "permit_all svc l who op t (r # rs) permits =
     (if map_of permits r \<noteq> None then permit_all svc l who op t rs permits
      else bindE (liftE (validate_resource_pattern r)) (\<lambda>_.
           bindE (authorized svc l who op r t) (\<lambda>ok.
           permit_all svc l who op t rs (permits @ [(r, ok)]))))"

definition verify_many ::
    "(('x, 'm) world_scheme, 'b, 'pub, 'priv) token_service \<Rightarrow> string \<Rightarrow> string \<Rightarrow> kind \<Rightarrow> string list
     \<Rightarrow> (('x, 'm) world_scheme, exn, verified_token \<times> (string \<times> bool) list) eff" where
  "verify_many svc token who op rs =
     bindE (liftE (validate_ref who ''agent'')) (\<lambda>_.
     bindE (present svc token who) (\<lambda>l.
     bindE now (\<lambda>t.
     if t \<ge> ld_expires_at l then raiseE (hoc TokenInvalid)
     else bindE (permit_all svc l who op t rs []) (\<lambda>permits.
       retE (verified (tk_lib svc) token l, permits)))))"

definition inspect ::
    "(('x, 'm) world_scheme, 'b, 'pub, 'priv) token_service \<Rightarrow> string \<Rightarrow> string
     \<Rightarrow> (('x, 'm) world_scheme, exn, verified_token) eff" where
  "inspect svc token who =
     bindE (liftE (validate_ref who ''agent'')) (\<lambda>_.
     bindE (present svc token who) (\<lambda>l.
     bindE now (\<lambda>t.
     if t \<ge> ld_expires_at l then raiseE (hoc TokenInvalid) else retE (verified (tk_lib svc) token l))))"

definition revoke_id ::
    "(('x, 'm) world_scheme, 'b, 'pub, 'priv) token_service \<Rightarrow> string \<Rightarrow> string
     \<Rightarrow> (('x, 'm) world_scheme, exn, unit) eff" where
  "revoke_id svc i reason =
     bindE now (\<lambda>t.
     bindE (rs_revoke (tk_revocations svc) i reason t) (\<lambda>_.
     bindE uuid4_hex (\<lambda>eid.
     tk_audit svc \<lparr>ev_kind = EvTokenRevoked, ev_timestamp = t, ev_subject = ''-'', ev_actor = ''-'',
       ev_delegation_depth = 0, ev_action = ''token:revoke'', ev_resource = ''revocation:'' @ i, ev_outcome = ''revoked'',
       ev_reason = reason, ev_engine_latency_ms = float_zero, ev_token_fingerprint = None, ev_args_hash = None,
       ev_decision_id = None, ev_event_id = eid\<rparr>)))"

definition revoke_token ::
    "(('x, 'm) world_scheme, 'b, 'pub, 'priv) token_service \<Rightarrow> string \<Rightarrow> string \<Rightarrow> string
     \<Rightarrow> (('x, 'm) world_scheme, exn, string) eff" where
  "revoke_token svc token who reason =
     bindE (liftE (load (tk_lib svc) (tk_keyring svc) token)) (\<lambda>l.
     if who \<noteq> ch_actor (ld_chain l) then raiseE (hoc TokenInvalid)
     else bindE (revoke_id svc (own_revocation_id (tk_lib svc) l) reason) (\<lambda>_.
       retE (own_revocation_id (tk_lib svc) l)))"

section \<open>What is relied on of the library\<close>

definition authorizer_facts :: "authorizer \<Rightarrow> dfact list" where
  "authorizer_facts az = [(''caller'', [DStr (az_caller az)]), (''operation'', [DStr (az_operation az)]),
     (''resource'', [DStr (az_resource az)]), (''time'', [DTime (az_time az)])]"

text \<open>The arguments of the facts of a name, by their types.\<close>

fun str_arg :: "string \<Rightarrow> dfact \<Rightarrow> string option" where
  "str_arg n (m, [DStr r]) = (if m = n then Some r else None)"
| "str_arg n _ = None"

fun time_arg :: "string \<Rightarrow> dfact \<Rightarrow> datetime option" where
  "time_arg n (m, [DTime t]) = (if m = n then Some t else None)"
| "time_arg n _ = None"

fun pair_arg :: "string \<Rightarrow> dfact \<Rightarrow> (string \<times> string) option" where
  "pair_arg n (m, [DStr a, DStr b]) = (if m = n then Some (a, b) else None)"
| "pair_arg n _ = None"

definition str_args :: "string \<Rightarrow> dfact list \<Rightarrow> string list" where
  "str_args n F = List.map_filter (str_arg n) F"

definition time_args :: "string \<Rightarrow> dfact list \<Rightarrow> datetime list" where
  "time_args n F = List.map_filter (time_arg n) F"

definition pair_args :: "string \<Rightarrow> dfact list \<Rightarrow> (string \<times> string) list" where
  "pair_args n F = List.map_filter (pair_arg n) F"

text \<open>The meaning of a check over the facts it sees; \<open>other\<close> is the meaning of foreign checks.\<close>

fun check_holds :: "(string \<Rightarrow> dfact list \<Rightarrow> bool) \<Rightarrow> dfact list \<Rightarrow> dcheck \<Rightarrow> bool" where
  "check_holds other F (CheckTime e) = list_ex (\<lambda>t. t < e) (time_args ''time'' F)"
| "check_holds other F CheckFalse = False"
| "check_holds other F (CheckScope cls) = list_ex (\<lambda>(pre, k, x). k \<in> set (str_args ''operation'' F) \<and>
     list_ex (\<lambda>r. if pre then startswith r x else r = x) (str_args ''resource'' F)) cls"
| "check_holds other F (CheckOther s) = other s F"

text \<open>\<open>AUTHORIZER_POLICIES\<close>: one of the two allow policies matches before \<open>deny if true\<close>.\<close>

definition policy_allows :: "dfact list \<Rightarrow> bool" where
  "policy_allows F \<longleftrightarrow>
     list_ex (\<lambda>(k, x). k \<in> set (str_args ''operation'' F) \<and> x \<in> set (str_args ''resource'' F)) (pair_args ''cap_exact'' F)
   \<or> list_ex (\<lambda>(k, x). k \<in> set (str_args ''operation'' F) \<and> list_ex (\<lambda>r. startswith r x) (str_args ''resource'' F))
       (pair_args ''cap_prefix'' F)"

text \<open>A check of a block sees the authorizer's facts, the authority block and its own block; a policy
  sees the first two.\<close>

definition biscuit_permits :: "(string \<Rightarrow> dfact list \<Rightarrow> bool) \<Rightarrow> dblock list \<Rightarrow> authorizer \<Rightarrow> bool" where
  "biscuit_permits other bs az \<longleftrightarrow>
     list_all (\<lambda>blk. list_all (check_holds other (authorizer_facts az @ bk_facts (hd bs) @ bk_facts blk)) (bk_checks blk)) bs
     \<and> policy_allows (authorizer_facts az @ bk_facts (hd bs))"

text \<open>Documented behaviour: blocks accumulate, queries see the authority block, an authorization that
  succeeds satisfies every check and an allow policy, every block has its own id.\<close>

definition biscuit_laws ::
    "('b, 'pub, 'priv) biscuit_lib \<Rightarrow> ('b \<Rightarrow> dblock list) \<Rightarrow> (string \<Rightarrow> dfact list \<Rightarrow> bool) \<Rightarrow> bool" where
  "biscuit_laws lib blocks other \<longleftrightarrow>
     (\<forall>b. blocks b \<noteq> [] \<and> bl_block_count lib b = length (blocks b) \<and> length (bl_revocation_ids lib b) = length (blocks b))
   \<and> (\<forall>a i p. blocks (bl_build lib a i p) = [a])
   \<and> (\<forall>b k. blocks (bl_append lib b k) = blocks b @ [k] \<and> (\<exists>i. bl_revocation_ids lib (bl_append lib b k) = bl_revocation_ids lib b @ [i]))
   \<and> (\<forall>b n k rows. bl_query lib b n k = Inr rows \<longrightarrow> distinct rows \<and>
        set rows = {ts. (n, ts) \<in> set (bk_facts (hd (blocks b))) \<and> length ts = k})
   \<and> (\<forall>b az. bl_authorize lib b az = Inr () \<longrightarrow> biscuit_permits other (blocks b) az)"

text \<open>How a fact prints in \<open>block_source\<close>, for texts that need no escapes.\<close>

definition plain_text :: "string \<Rightarrow> bool" where
  "plain_text s \<longleftrightarrow> s \<noteq> [] \<and> list_all (\<lambda>c. plain_arg_char c \<and> \<not> line_break c) s"

definition pair_text :: "string \<Rightarrow> string \<Rightarrow> string \<Rightarrow> string" where
  "pair_text n a b = n @ [CHR ''('', CHR 0x22] @ a @ [CHR 0x22, CHR '','', CHR '' '', CHR 0x22] @ b @ [CHR 0x22, CHR '')'', CHR '';'']"

definition plain_scope :: "scope \<Rightarrow> bool" where
  "plain_scope s \<longleftrightarrow> finite s \<and> (\<forall>c\<in>s. wf_capability c \<and> plain_text (cap_resource c))"

definition trail_source :: "string \<Rightarrow> string \<Rightarrow> scope \<Rightarrow> string list" where
  "trail_source a b s = pair_text ''delegation'' a b
     # map (\<lambda>c. pair_text ''scope_cap'' (kind_value (cap_kind c)) (cap_resource c)) (sorted_scope s)"

text \<open>The library answers: within its execution limits, for a token signed with a key, \<open>sealed b i pub\<close>.\<close>

definition biscuit_runs ::
    "('b, 'pub, 'priv) biscuit_lib \<Rightarrow> ('b \<Rightarrow> dblock list) \<Rightarrow> ('b \<Rightarrow> int \<Rightarrow> 'pub \<Rightarrow> bool) \<Rightarrow> bool" where
  "biscuit_runs lib blocks sealed \<longleftrightarrow>
     (\<forall>b n k. \<exists>rows. bl_query lib b n k = Inr rows)
   \<and> (\<forall>b blk. bl_query lib (bl_append lib b blk) = bl_query lib b
        \<and> (\<forall>j < length (blocks b). bl_block_source lib (bl_append lib b blk) j = bl_block_source lib b j))
   \<and> (\<forall>a i p. sealed (bl_build lib a i p) i (bl_public_of lib p))
   \<and> (\<forall>b i pub blk. sealed b i pub \<longrightarrow> sealed (bl_append lib b blk) i pub)
   \<and> (\<forall>b i pub. sealed b i pub \<longrightarrow>
        bl_unverified_key lib (bl_to_base64 lib b) = Inr (Some i) \<and> bl_from_base64 lib (bl_to_base64 lib b) pub = Inr b)
   \<and> (\<forall>b a c s. plain_text a \<and> plain_text c \<and> plain_scope s \<longrightarrow>
        (\<exists>texts. splitlines (bl_block_source lib (bl_append lib b (attenuation_builder a c s)) (length (blocks b)))
            = trail_source a c s @ texts \<and> list_all (\<lambda>t. startswith t ''check if'') texts))"

section \<open>Lemmas\<close>

subsection \<open>Checks and scopes\<close>

lemma sorted_scope_set: "finite s \<Longrightarrow> set (sorted_scope s) = s"
  by (simp add: sorted_scope_def)

lemma clause_covers:
  "scope_clause c = (pre, k, x) \<Longrightarrow>
    kind_value op = k \<and> (if pre then startswith r x else r = x) \<longleftrightarrow> cap_covers c (Capability op r)"
  by (auto simp: scope_clause_def cap_covers_def)

text \<open>Only the authorizer states an operation, a resource and a time.\<close>

definition request_free :: "dfact list \<Rightarrow> bool" where
  "request_free F \<longleftrightarrow> list_all (\<lambda>f. fst f \<notin> {''operation'', ''resource'', ''time''}) F"

lemma request_free_authority: "request_free (bk_facts (authority_builder subj act s ia ex m))"
  by (auto simp: request_free_def authority_builder_def cap_fact_def list_all_iff split: option.splits)

lemma request_free_attenuation: "request_free (bk_facts (attenuation_builder a b s))"
  by (auto simp: request_free_def attenuation_builder_def list_all_iff)

lemma request_free_append: "request_free (F @ G) \<longleftrightarrow> request_free F \<and> request_free G"
  by (simp add: request_free_def)

lemma str_arg_name: "str_arg n f = Some x \<Longrightarrow> fst f = n"
  by (induction n f rule: str_arg.induct) (auto split: if_splits)

lemma time_arg_name: "time_arg n f = Some x \<Longrightarrow> fst f = n"
  by (induction n f rule: time_arg.induct) (auto split: if_splits)

lemma str_arg_other: "fst f \<noteq> n \<Longrightarrow> str_arg n f = None"
  by (cases "str_arg n f") (auto dest: str_arg_name)

lemma time_arg_other: "fst f \<noteq> n \<Longrightarrow> time_arg n f = None"
  by (cases "time_arg n f") (auto dest: time_arg_name)

lemma pair_args_Cons: "pair_args n (f # F) = (case pair_arg n f of None \<Rightarrow> [] | Some x \<Rightarrow> [x]) @ pair_args n F"
  by (simp add: pair_args_def map_filter_simps split: option.splits)

lemma pair_args_Nil: "pair_args n [] = []"
  by (simp add: pair_args_def map_filter_simps)

lemma map_filter_none: "(\<And>x. x \<in> set xs \<Longrightarrow> f x = None) \<Longrightarrow> List.map_filter f xs = []"
  by (induction xs) (simp_all add: map_filter_simps)

lemma args_append:
  "str_args n (F @ G) = str_args n F @ str_args n G" "time_args n (F @ G) = time_args n F @ time_args n G"
  "pair_args n (F @ G) = pair_args n F @ pair_args n G"
  by (simp_all add: str_args_def time_args_def pair_args_def map_filter_def)

lemma request_free_args:
  assumes "request_free F"
  shows "str_args ''operation'' F = []" "str_args ''resource'' F = []" "time_args ''time'' F = []"
  using assms
  by (auto simp: str_args_def time_args_def request_free_def list_all_iff str_arg_other time_arg_other intro!: map_filter_none)

lemma request_args:
  assumes "request_free F"
  shows "str_args ''operation'' (authorizer_facts az @ F) = [az_operation az]"
    "str_args ''resource'' (authorizer_facts az @ F) = [az_resource az]"
    "time_args ''time'' (authorizer_facts az @ F) = [az_time az]"
  by (simp_all add: args_append request_free_args [OF assms])
     (simp_all add: authorizer_facts_def str_args_def time_args_def map_filter_simps)

abbreviation request_of :: "string \<Rightarrow> kind \<Rightarrow> string \<Rightarrow> datetime \<Rightarrow> authorizer" where
  "request_of who op r t \<equiv> \<lparr>az_caller = who, az_operation = kind_value op, az_resource = r, az_time = t\<rparr>"

text \<open>The check of an attenuation is the scope it was built from.\<close>

lemma scope_check_covers:
  assumes "finite s" "request_free F"
  shows "check_holds other (authorizer_facts (request_of who op r t) @ F) (scope_check s) \<longleftrightarrow> scope_covers s (Capability op r)"
proof (cases "s = {}")
  case True
  then show ?thesis by (simp add: scope_check_def scope_covers_def)
next
  case False
  have "(case scope_clause c of (pre, k, x) \<Rightarrow> k = kind_value op \<and> (if pre then startswith r x else r = x))
      \<longleftrightarrow> cap_covers c (Capability op r)" for c
    by (cases "scope_clause c") (use clause_covers [of c _ _ _ op r] in auto)
  then show ?thesis using assms False
    by (simp add: scope_check_def request_args list_ex_iff sorted_scope_set scope_covers_def split_def if_bool_eq_conj)
qed

lemma pair_args_authority:
  assumes "finite s"
  shows "set (pair_args n (bk_facts (authority_builder subj act s ia ex m)))
    = {(kind_value (cap_kind c), x) | c x. c \<in> s \<and> cap_fact c = (n, [DStr (kind_value (cap_kind c)), DStr x])}"
proof -
  have "set (pair_args n (map cap_fact cs)) =
      {(kind_value (cap_kind c), x) | c x. c \<in> set cs \<and> cap_fact c = (n, [DStr (kind_value (cap_kind c)), DStr x])}" for cs
    by (induction cs) (auto simp: pair_args_def map_filter_simps cap_fact_def split: if_splits)
  from this [of "sorted_scope s"] show ?thesis using assms
    by (cases m) (simp_all add: authority_builder_def args_append pair_args_Cons pair_args_Nil sorted_scope_set)
qed

text \<open>The allow policies on the authority block are the scope the token was issued for.\<close>

lemma pair_args_request: "pair_args n (authorizer_facts az) = []"
  by (simp add: pair_args_def authorizer_facts_def map_filter_simps)

lemma policy_allows_covers:
  assumes "finite s"
  shows "policy_allows (authorizer_facts (request_of who op r t) @ bk_facts (authority_builder subj act s ia ex m))
    \<longleftrightarrow> scope_covers s (Capability op r)"
proof -
  let ?F = "bk_facts (authority_builder subj act s ia ex m)"
  have "policy_allows (authorizer_facts (request_of who op r t) @ ?F) \<longleftrightarrow>
      (kind_value op, r) \<in> set (pair_args ''cap_exact'' ?F) \<or>
      (\<exists>x. (kind_value op, x) \<in> set (pair_args ''cap_prefix'' ?F) \<and> startswith r x)"
    unfolding policy_allows_def args_append(3) pair_args_request
    by (auto simp: request_args [OF request_free_authority] list_ex_iff)
  also have "\<dots> \<longleftrightarrow> (\<exists>c\<in>s. cap_covers c (Capability op r))"
    unfolding pair_args_authority [OF assms]
    by (auto simp: cap_fact_def cap_covers_def split: if_splits)
  finally show ?thesis by (simp add: scope_covers_def)
qed

text \<open>The blocks of a token this service issued and attenuated along a trail.\<close>

definition minted :: "string \<Rightarrow> string \<Rightarrow> scope \<Rightarrow> datetime \<Rightarrow> datetime \<Rightarrow> string option \<Rightarrow> (string \<times> string \<times> scope) list \<Rightarrow> dblock list" where
  "minted subj act s0 ia ex m trail =
     authority_builder subj act s0 ia ex m # map (\<lambda>(a, b, s). attenuation_builder a b s) trail"

lemma permits_minted:
  assumes "finite s0" "list_all (\<lambda>(a, b, s). finite s) trail"
  shows "biscuit_permits other (minted subj act s0 ia ex m trail) (request_of who op r t) \<longleftrightarrow>
    t < ex \<and> scope_covers s0 (Capability op r) \<and> list_all (\<lambda>(a, b, s). scope_covers s (Capability op r)) trail"
proof -
  let ?A = "authority_builder subj act s0 ia ex m" and ?R = "authorizer_facts (request_of who op r t)"
  have att: "list_all (check_holds other (?R @ bk_facts ?A @ bk_facts (attenuation_builder a b s))) (bk_checks (attenuation_builder a b s))
      \<longleftrightarrow> scope_covers s (Capability op r)" if "finite s" for a b s
  proof -
    have "request_free (bk_facts ?A @ bk_facts (attenuation_builder a b s))"
      by (simp add: request_free_append request_free_authority request_free_attenuation)
    from scope_check_covers [OF that this] show ?thesis by (simp add: attenuation_builder_def)
  qed
  have "request_free (bk_facts ?A @ bk_facts ?A)" by (simp add: request_free_append request_free_authority)
  from request_args(3) [OF this, of "request_of who op r t"]
  have auth: "list_all (check_holds other (?R @ bk_facts ?A @ bk_facts ?A)) (bk_checks ?A) \<longleftrightarrow> t < ex"
    by (simp add: authority_builder_def)
  have trail: "list_all (\<lambda>blk. list_all (check_holds other (?R @ bk_facts ?A @ bk_facts blk)) (bk_checks blk))
      (map (\<lambda>(a, b, s). attenuation_builder a b s) trail) \<longleftrightarrow> list_all (\<lambda>(a, b, s). scope_covers s (Capability op r)) trail"
    using assms(2) by (induction trail) (auto simp: att)
  show ?thesis
    unfolding biscuit_permits_def minted_def list.sel list.pred_inject auth trail policy_allows_covers [OF assms(1)] by blast
qed

section \<open>The contract of a revocation store\<close>

locale revocation_contract =
  fixes store :: "'w revocation_store"
    and revoked :: "'w \<Rightarrow> string set"
  assumes revoke: "atomic revoked (\<lambda>_. True) (\<lambda>S u S'. S' = insert i S) (rs_revoke store i reason t)"
    and lookup: "atomic revoked (\<lambda>_. True) (\<lambda>S dead S'. S' = S \<and> dead = (\<exists>i\<in>set ids. i \<in> S)) (rs_is_revoked store ids)"
begin

lemma revoke_adds: "rs_revoke store i reason t w = (Inr u, w') \<Longrightarrow> revoked w' = insert i (revoked w)"
  using atomicD(1) [OF revoke] by simp

text \<open>A token with a revoked id is never found alive.\<close>

lemma never_alive: "i \<in> revoked w \<Longrightarrow> i \<in> set ids \<Longrightarrow> fst (rs_is_revoked store ids w) \<noteq> Inr False"
  using atomicD(1) [OF lookup [of ids], of w False] by (cases "rs_is_revoked store ids w") auto

lemma present_dead:
  assumes "tk_revocations svc = store" "load (tk_lib svc) (tk_keyring svc) token = Inr l"
    and "i \<in> revoked w" "i \<in> set (loaded_revocation_ids (tk_lib svc) l)"
  shows "present svc token who w \<noteq> (Inr x, w')"
  using assms never_alive [OF assms(3,4)]
  by (auto simp: present_def service_is_revoked_def bindE_Inr liftE_def catchE_def raiseE_def
      split: prod.splits sum.splits if_splits)

end

definition pg_revoked :: "('x, 'm) token_world_scheme \<Rightarrow> string set" where
  "pg_revoked w = fst ` set (w_revoked_rows w)"

definition mem_revoked :: "('x, 'm) token_world_scheme \<Rightarrow> string set" where
  "mem_revoked w = fst ` set (w_revoked_mem w)"

interpretation mem_revocations: revocation_contract mem_revocations mem_revoked
  by unfold_locales
     (force intro!: atomic_modifyE atomic_getsE simp: mem_revocations_def mem_revoke_def mem_is_revoked_def mem_revoked_def
       dom_update list_ex_iff map_of_eq_None_iff)+

lemma pg_is_revoked_atomic:
  "atomic pg_revoked (\<lambda>_. True) (\<lambda>S dead S'. S' = S \<and> dead = (\<exists>i\<in>set ids. i \<in> S)) (pg_is_revoked ids)"
proof (cases "ids = []")
  case True
  then show ?thesis by (auto simp: pg_is_revoked_def retE_def intro!: atomicI)
next
  case False
  then show ?thesis
    by (auto simp: pg_is_revoked_def pg_revoked_def list_ex_iff intro!: atomic_db_query) force+
qed

interpretation pg_revocations: revocation_contract pg_revocations pg_revoked
proof
  fix i reason t
  show "atomic pg_revoked (\<lambda>_. True) (\<lambda>S u S'. S' = insert i S) (rs_revoke pg_revocations i reason t)"
    unfolding pg_revocations_def revocation_store.simps pg_revoke_def
    by (rule atomic_db_stmt) (auto simp: pg_revoked_def map_of_eq_None_iff split: if_splits)
qed (simp add: pg_revocations_def pg_is_revoked_atomic)

subsection \<open>Presenting a token\<close>

lemma keeps_pg_is_revoked:
  "(\<And>w. f (w\<lparr>w_db_at := Suc (w_db_at w)\<rparr>) = f w) \<Longrightarrow> keeps f (pg_is_revoked ids)"
  by (simp add: pg_is_revoked_def keeps_rules)

lemma present_run:
  fixes svc :: "(('x, 'm) token_world_scheme, 'b, 'pub, 'priv) token_service"
  assumes "tk_revocations svc = pg_revocations" "present svc token who w = (Inr l, w')"
  shows "load (tk_lib svc) (tk_keyring svc) token = Inr l" "who = ch_actor (ld_chain l)"
    "\<forall>i\<in>set (loaded_revocation_ids (tk_lib svc) l). i \<notin> pg_revoked w"
    "w_clock w' = w_clock w" "w_clock_at w' = w_clock_at w"
proof -
  show l: "load (tk_lib svc) (tk_keyring svc) token = Inr l" and "who = ch_actor (ld_chain l)"
    using assms(2) by (auto simp: present_def bindE_Inr liftE_def retE_def raiseE_def split: if_splits)
  show "\<forall>i\<in>set (loaded_revocation_ids (tk_lib svc) l). i \<notin> pg_revoked w"
    using pg_revocations.present_dead [OF assms(1) l] assms(2) by blast
  have q: "pg_is_revoked (loaded_revocation_ids (tk_lib svc) l) w = (Inr False, w')"
    using assms l by (auto simp: present_def service_is_revoked_def bindE_Inr liftE_def retE_def raiseE_def catchE_def
        pg_revocations_def split: if_splits prod.splits sum.splits)
  show "w_clock w' = w_clock w" "w_clock_at w' = w_clock_at w"
    using keepsD [OF keeps_pg_is_revoked q, of w_clock] keepsD [OF keeps_pg_is_revoked q, of w_clock_at] by simp_all
qed

lemma verify_run:
  fixes svc :: "(('x, 'm) token_world_scheme, 'b, 'pub, 'priv) token_service"
  assumes "tk_revocations svc = pg_revocations" "verify svc token who op r w = (Inr v, w')"
  shows "\<exists>l. load (tk_lib svc) (tk_keyring svc) token = Inr l \<and> who = ch_actor (ld_chain l)
    \<and> (\<forall>i\<in>set (loaded_revocation_ids (tk_lib svc) l). i \<notin> pg_revoked w)
    \<and> bl_authorize (tk_lib svc) (ld_biscuit l) (request_of who op r (w_clock w (w_clock_at w))) = Inr ()
    \<and> v = verified (tk_lib svc) token l"
proof -
  obtain l w1 where p: "present svc token who w = (Inr l, w1)"
      and a: "(case bl_authorize (tk_lib svc) (ld_biscuit l) (request_of who op r (w_clock w1 (w_clock_at w1))) of
        Inl AuthorizationError \<Rightarrow> raiseE (hoc TokenInvalid)
      | Inl (AuthorizerFailed e) \<Rightarrow> raiseE e
      | Inr _ \<Rightarrow> retE (verified (tk_lib svc) token l)) (w1\<lparr>w_clock_at := Suc (w_clock_at w1)\<rparr>) = (Inr v, w')"
    using assms(2) by (auto simp: verify_def bindE_Inr liftE_def now_def stateE_def)
  note run = present_run [OF assms(1) p]
  show ?thesis using a run
    by (auto simp: retE_def raiseE_def split: sum.splits auth_failure.splits)
qed

lemma revoke_id_adds:
  fixes svc :: "(('x, 'm) token_world_scheme, 'b, 'pub, 'priv) token_service"
  assumes store: "tk_revocations svc = pg_revocations" and audit: "\<And>e. keeps w_revoked_rows (tk_audit svc e)"
    and run: "revoke_id svc i reason w0 = (Inr (), w1)"
  shows "i \<in> pg_revoked w1"
proof -
  let ?t = "w_clock w0 (w_clock_at w0)"
  obtain u wb where rv: "pg_revoke i reason ?t (w0\<lparr>w_clock_at := Suc (w_clock_at w0)\<rparr>) = (Inr u, wb)"
    and au: "\<exists>e. tk_audit svc e (wb\<lparr>w_uuid_at := Suc (w_uuid_at wb)\<rparr>) = (Inr (), w1)"
    using run store
    by (auto simp: revoke_id_def bindE_Inr now_def uuid4_hex_def stateE_def pg_revocations_def)
  obtain e where "tk_audit svc e (wb\<lparr>w_uuid_at := Suc (w_uuid_at wb)\<rparr>) = (Inr (), w1)" using au by (rule exE)
  then have rows: "w_revoked_rows w1 = w_revoked_rows wb" using keepsD [OF audit, of e _ "Inr ()" w1] by simp
  have "i \<in> pg_revoked wb" using pg_revocations.revoke_adds [of i reason ?t _ u wb] rv by (simp add: pg_revocations_def)
  then show ?thesis using rows by (simp add: pg_revoked_def)
qed

subsection \<open>Reading back what was written\<close>

lemma strip_Cons:
  "c \<notin> set [CHR '' '', CHR 0x09, CHR 0x0A, CHR 0x0B, CHR 0x0C, CHR 0x0D, CHR 0x1C, CHR 0x1D, CHR 0x1E, CHR 0x1F, CHR 0x85, CHR 0xA0]
    \<Longrightarrow> \<exists>ys. strip (c # xs) = c # ys"
proof -
  let ?blank = "\<lambda>c. c \<in> set [CHR '' '', CHR 0x09, CHR 0x0A, CHR 0x0B, CHR 0x0C, CHR 0x0D, CHR 0x1C, CHR 0x1D, CHR 0x1E, CHR 0x1F, CHR 0x85, CHR 0xA0]"
  assume c: "\<not> ?blank c"
  have "strip (c # xs) = rev (dropWhile ?blank (rev xs @ [c]))"
    unfolding strip_def Let_def dropWhile.simps using c by (simp only: if_False rev.simps)
  also have "\<dots> = rev (dropWhile ?blank (rev xs) @ [c])" using c by (subst dropWhile_append3) simp_all
  finally show ?thesis by simp
qed

lemma strip_pair_text:
  "strip (pair_text ''delegation'' a b) = pair_text ''delegation'' a b"
  "strip (pair_text ''scope_cap'' a b) = pair_text ''scope_cap'' a b"
  by (simp_all add: strip_def pair_text_def)

lemma takeWhile_plain:
  "plain_text a \<Longrightarrow> takeWhile plain_arg_char (a @ CHR 0x22 # rest) = a"
  "plain_text a \<Longrightarrow> dropWhile plain_arg_char (a @ CHR 0x22 # rest) = CHR 0x22 # rest"
  by (simp_all add: plain_text_def list_all_iff takeWhile_append2 dropWhile_append2) (simp_all add: plain_arg_char_def)

lemma match_fact_pair:
  assumes "plain_text a" "plain_text b"
  shows "match_fact n (pair_text n a b) = Some (a, b)"
proof -
  have "a \<noteq> []" "b \<noteq> []" using assms by (auto simp: plain_text_def)
  moreover have "pair_text n a b = (n @ [CHR ''('', CHR 0x22]) @ a @ CHR 0x22 # CHR '','' # CHR '' '' # CHR 0x22 # b @ [CHR 0x22, CHR '')'', CHR '';'']"
    by (simp add: pair_text_def)
  ultimately show ?thesis
    unfolding match_fact_def
    by (simp add: Let_def takeWhile_plain [OF assms(1)] takeWhile_plain [OF assms(2)] startswith_def)
qed

lemma match_fact_other: "match_fact ''delegation'' (pair_text ''scope_cap'' a b) = None"
  by (simp add: match_fact_def pair_text_def startswith_def Let_def)

lemma match_fact_check:
  assumes "startswith t ''check if''"
  shows "match_fact ''delegation'' (strip t) = None" "match_fact ''scope_cap'' (strip t) = None"
proof -
  obtain u where "t = CHR ''c'' # u" using assms by (cases t) (auto simp: startswith_def)
  then obtain ys where "strip t = CHR ''c'' # ys" using strip_Cons [of "CHR ''c''" u] by auto
  then show "match_fact ''delegation'' (strip t) = None" "match_fact ''scope_cap'' (strip t) = None"
    by (simp_all add: match_fact_def startswith_def)
qed

lemma kind_value_plain: "plain_text (kind_value k)"
  by (cases k) (simp_all add: plain_text_def plain_arg_char_def line_break_def)

lemma token_capability_ok: "wf_capability c \<Longrightarrow> token_capability (kind_value (cap_kind c)) (cap_resource c) = Inr c"
  by (simp add: token_capability_def mk_capability_def wf_capability_def validate_resource_pattern_def)

lemma trail_lines_caps:
  assumes "\<forall>c\<in>set cs. wf_capability c \<and> plain_text (cap_resource c)"
  shows "trail_lines (map (\<lambda>c. pair_text ''scope_cap'' (kind_value (cap_kind c)) (cap_resource c)) cs @ rest) dlg caps
    = trail_lines rest dlg (caps @ cs)"
  using assms
  by (induction cs arbitrary: caps)
     (simp_all add: Let_def strip_pair_text match_fact_other match_fact_pair [OF kind_value_plain] token_capability_ok)

lemma trail_lines_checks: "list_all (\<lambda>t. startswith t ''check if'') texts \<Longrightarrow> trail_lines texts dlg caps = Inr (dlg, caps)"
  by (induction texts) (simp_all add: Let_def match_fact_check)

text \<open>A trail block reads back as the delegation it was built from.\<close>

lemma parse_trail_round_trip:
  assumes "splitlines src = trail_source a b s @ texts" "list_all (\<lambda>t. startswith t ''check if'') texts"
    and "plain_text a" "plain_text b" "plain_scope s"
  shows "parse_trail_block src = Inr (Some ((a, b), s))"
proof -
  have "set (sorted_scope s) = s" using assms(5) by (simp add: sorted_scope_set plain_scope_def)
  moreover have "\<forall>c\<in>set (sorted_scope s). wf_capability c \<and> plain_text (cap_resource c)"
    using assms(5) by (simp add: sorted_scope_set plain_scope_def)
  ultimately show ?thesis using assms(1-4)
    by (simp add: parse_trail_block_def trail_source_def Let_def strip_pair_text match_fact_pair trail_lines_caps
        trail_lines_checks scope_of_def)
qed

lemma rebuild_chain_snoc:
  "rebuild_chain c (srcs @ [src]) = (case rebuild_chain c srcs of Inl e \<Rightarrow> Inl e | Inr c' \<Rightarrow> rebuild_chain c' [src])"
  by (induction c srcs rule: rebuild_chain.induct) (auto split: sum.splits option.splits prod.splits)

lemma distinct_singleton: "distinct xs \<Longrightarrow> set xs = {x} \<Longrightarrow> xs = [x]"
  by (metis card_1_singleton_iff distinct_card length_0_conv length_Suc_conv list.set(1) list.simps(15) One_nat_def
      insert_not_empty singleton_iff list.set_intros(1))

lemma authority_facts:
  "(''subject'', ts) \<in> set (bk_facts (authority_builder subj act s ia ex m)) \<longleftrightarrow> ts = [DStr subj]"
  "(''actor'', ts) \<in> set (bk_facts (authority_builder subj act s ia ex m)) \<longleftrightarrow> ts = [DStr act]"
  "(''expires_at'', ts) \<in> set (bk_facts (authority_builder subj act s ia ex m)) \<longleftrightarrow> ts = [DTime ex]"
  "(''mandate'', ts) \<in> set (bk_facts (authority_builder subj act s ia ex m)) \<longleftrightarrow> (\<exists>i. m = Some i \<and> ts = [DStr i])"
  by (auto simp: authority_builder_def cap_fact_def split: option.splits if_splits)

lemma authority_caps:
  assumes "finite s"
  shows "{ts. (''cap_exact'', ts) \<in> set (bk_facts (authority_builder subj act s ia ex m)) \<and> length ts = 2}
      = (\<lambda>c. [DStr (kind_value (cap_kind c)), DStr (cap_resource c)]) ` {c \<in> s. \<not> is_pattern c}"
    "{ts. (''cap_prefix'', ts) \<in> set (bk_facts (authority_builder subj act s ia ex m)) \<and> length ts = 2}
      = (\<lambda>c. [DStr (kind_value (cap_kind c)), DStr (butlast (cap_resource c))]) ` {c \<in> s. is_pattern c}"
  using sorted_scope_set [OF assms]
  by (auto simp: authority_builder_def cap_fact_def image_iff split: option.splits if_splits)

lemma sequence_sum_all:
  "(\<And>x. x \<in> set xs \<Longrightarrow> f x = Inr (g x)) \<Longrightarrow> sequence_sum (map f xs) = Inr (map g xs)"
  by (induction xs) simp_all

lemma pair_caps_ok:
  assumes "set rows = (\<lambda>c. [DStr (kind_value (cap_kind c)), DStr (h c)]) ` S"
    and "\<And>c. c \<in> S \<Longrightarrow> wf_capability c \<and> h c @ sfx = cap_resource c"
  shows "\<exists>cs. pair_caps sfx rows = Inr cs \<and> set cs = S"
proof -
  let ?f = "\<lambda>ts. case ts of k # r # _ \<Rightarrow> token_capability (dterm_str k) (dterm_str r @ sfx) | _ \<Rightarrow> Inl (Other ''IndexError'')"
  have one: "?f [DStr (kind_value (cap_kind c)), DStr (h c)] = Inr c" if "c \<in> S" for c
    using assms(2) [OF that] token_capability_ok by (simp add: dterm_str_def)
  have "?f ts = Inr (projr (?f ts))" if "ts \<in> set rows" for ts
    using that assms(1) one by auto
  then have "pair_caps sfx rows = Inr (map (\<lambda>ts. projr (?f ts)) rows)"
    unfolding pair_caps_def by (rule sequence_sum_all)
  moreover have "(\<lambda>ts. projr (?f ts)) ` set rows = S" using assms(1) one by (auto simp: image_iff)
  ultimately show ?thesis by simp
qed

lemma biscuit_lawsD:
  assumes "biscuit_laws lib blocks other"
  shows "blocks b \<noteq> []" "bl_block_count lib b = length (blocks b)" "blocks (bl_build lib a i p) = [a]"
    "blocks (bl_append lib b k) = blocks b @ [k]"
    "bl_query lib b n j = Inr rows \<Longrightarrow> distinct rows"
    "bl_query lib b n j = Inr rows \<Longrightarrow> set rows = {ts. (n, ts) \<in> set (bk_facts (hd (blocks b))) \<and> length ts = j}"
    "bl_authorize lib b az = Inr () \<Longrightarrow> biscuit_permits other (blocks b) az"
  using assms by (simp_all add: biscuit_laws_def)

lemma biscuit_laws_ids:
  assumes "biscuit_laws lib blocks other"
  obtains i where "bl_revocation_ids lib (bl_append lib b k) = bl_revocation_ids lib b @ [i]"
proof -
  have "\<forall>b k. blocks (bl_append lib b k) = blocks b @ [k] \<and> (\<exists>i. bl_revocation_ids lib (bl_append lib b k) = bl_revocation_ids lib b @ [i])"
    using assms unfolding biscuit_laws_def by (elim conjE)
  from this [rule_format, of b k] show ?thesis by (auto intro: that)
qed

lemma biscuit_runsD:
  assumes "biscuit_runs lib blocks sealed"
  shows "sealed (bl_build lib a i p) i (bl_public_of lib p)" "sealed b i pub \<Longrightarrow> sealed (bl_append lib b blk) i pub"
    "sealed b i pub \<Longrightarrow> bl_unverified_key lib (bl_to_base64 lib b) = Inr (Some i)"
    "sealed b i pub \<Longrightarrow> bl_from_base64 lib (bl_to_base64 lib b) pub = Inr b"
    "bl_query lib (bl_append lib b blk) = bl_query lib b"
    "j < length (blocks b) \<Longrightarrow> bl_block_source lib (bl_append lib b blk) j = bl_block_source lib b j"
    "\<exists>rows. bl_query lib b n j = Inr rows"
  using assms by (simp_all add: biscuit_runs_def)

lemma biscuit_runs_source:
  assumes "biscuit_runs lib blocks sealed" "plain_text a" "plain_text c" "plain_scope s"
  obtains texts where
    "splitlines (bl_block_source lib (bl_append lib b (attenuation_builder a c s)) (length (blocks b))) = trail_source a c s @ texts"
    "list_all (\<lambda>t. startswith t ''check if'') texts"
proof -
  have "\<forall>b a c s. plain_text a \<and> plain_text c \<and> plain_scope s \<longrightarrow>
        (\<exists>texts. splitlines (bl_block_source lib (bl_append lib b (attenuation_builder a c s)) (length (blocks b)))
            = trail_source a c s @ texts \<and> list_all (\<lambda>t. startswith t ''check if'') texts)"
    using assms(1) unfolding biscuit_runs_def by (elim conjE)
  from this [rule_format, of a c s b] assms(2-4) show ?thesis by (auto intro: that)
qed

lemma load_authority:
  assumes laws: "biscuit_laws lib blocks other" and runs: "biscuit_runs lib blocks sealed"
    and auth: "hd (blocks b) = authority_builder subj act s ia ex m" and s: "finite s" "\<forall>c\<in>s. wf_capability c"
  shows "read_authority lib b = Inr (subj, act, s, ex)" "read_mandate lib b = Inr m"
proof -
  have q: "\<exists>rows. bl_query lib b n k = Inr rows \<and> distinct rows \<and>
      set rows = {ts. (n, ts) \<in> set (bk_facts (authority_builder subj act s ia ex m)) \<and> length ts = k}" for n k
    using biscuit_runsD(7) [OF runs, of b n k] biscuit_lawsD(5,6) [OF laws] by (auto simp: auth)
  have single: "bl_query lib b n 1 = Inr [[x]]"
    if "\<And>ts. (n, ts) \<in> set (bk_facts (authority_builder subj act s ia ex m)) \<longleftrightarrow> ts = [x]" for n x
  proof -
    obtain rows where rows: "bl_query lib b n 1 = Inr rows" "distinct rows"
        "set rows = {ts. (n, ts) \<in> set (bk_facts (authority_builder subj act s ia ex m)) \<and> length ts = 1}" using q by blast
    have "set rows = {[x]}" unfolding rows(3) that by auto
    from distinct_singleton [OF rows(2) this] show ?thesis using rows(1) by simp
  qed
  obtain r1 where r1: "bl_query lib b ''cap_exact'' 2 = Inr r1"
      "set r1 = (\<lambda>c. [DStr (kind_value (cap_kind c)), DStr (cap_resource c)]) ` {c \<in> s. \<not> is_pattern c}"
    using q [of "''cap_exact''" 2] by (auto simp: authority_caps(1) [OF s(1)])
  obtain r2 where r2: "bl_query lib b ''cap_prefix'' 2 = Inr r2"
      "set r2 = (\<lambda>c. [DStr (kind_value (cap_kind c)), DStr (butlast (cap_resource c))]) ` {c \<in> s. is_pattern c}"
    using q [of "''cap_prefix''" 2] by (auto simp: authority_caps(2) [OF s(1)])
  have star: "butlast r @ ''*'' = r" if "endswith r ''*''" for r
  proof (cases r rule: rev_cases)
    case Nil
    then show ?thesis using that by (simp add: endswith_def)
  next
    case (snoc ys y)
    then show ?thesis using that by (simp add: endswith_def)
  qed
  obtain c1 where c1: "pair_caps [] r1 = Inr c1" "set c1 = {c \<in> s. \<not> is_pattern c}"
    using pair_caps_ok [OF r1(2), of "[]"] s(2) by auto
  obtain c2 where c2: "pair_caps ''*'' r2 = Inr c2" "set c2 = {c \<in> s. is_pattern c}"
    using pair_caps_ok [OF r2(2), of "''*''"] s(2) star by (auto simp: is_pattern_def)
  have "scope_of (c1 @ c2) = s" using c1(2) c2(2) by (auto simp: scope_of_def)
  then show "read_authority lib b = Inr (subj, act, s, ex)"
    using single [OF authority_facts(1)] single [OF authority_facts(2)] single [OF authority_facts(3)] r1(1) r2(1) c1(1) c2(1)
    by (simp add: read_authority_def single_fact_def dterm_str_def)
  show "read_mandate lib b = Inr m"
  proof (cases m)
    case None
    obtain rows where "bl_query lib b ''mandate'' 1 = Inr rows" "set rows = {}"
      using q [of "''mandate''" 1] None by (auto simp: authority_facts(4))
    then show ?thesis using None by (simp add: read_mandate_def)
  next
    case (Some i)
    then have "bl_query lib b ''mandate'' 1 = Inr [[DStr i]]" by (intro single) (simp add: authority_facts(4))
    then show ?thesis using Some by (simp add: read_mandate_def dterm_str_def)
  qed
qed

lemma load_sealed:
  assumes "biscuit_laws lib blocks other" "biscuit_runs lib blocks sealed" "sealed b i pub" "public_key kr (Some i) = Inr pub"
    and "length (blocks b) \<le> Suc MAX_DELEGATION_DEPTH" "read_authority lib b = Inr (subj, act, s, ex)" "read_mandate lib b = Inr m"
    and "root_chain subj act s = Inr c0" "rebuild_chain c0 (map (bl_block_source lib b) [1..<length (blocks b)]) = Inr c"
  shows "load lib kr (bl_to_base64 lib b) = Inr \<lparr>ld_biscuit = b, ld_chain = c, ld_expires_at = ex, ld_mandate_id = m\<rparr>"
  using assms biscuit_lawsD(2) [OF assms(1)] biscuit_runsD(3,4) [OF assms(2,3)] by (auto simp: load_def)

lemma load_Inr:
  assumes "load lib kr token = Inr l"
  shows "\<exists>subj act s c0. bl_block_count lib (ld_biscuit l) - 1 \<le> MAX_DELEGATION_DEPTH
    \<and> read_authority lib (ld_biscuit l) = Inr (subj, act, s, ld_expires_at l) \<and> read_mandate lib (ld_biscuit l) = Inr (ld_mandate_id l)
    \<and> root_chain subj act s = Inr c0
    \<and> rebuild_chain c0 (map (bl_block_source lib (ld_biscuit l)) [1..<bl_block_count lib (ld_biscuit l)]) = Inr (ld_chain l)"
  using assms unfolding load_def by (auto split: sum.splits prod.splits if_splits)

section \<open>Properties\<close>

text \<open>
  C17: a token allows only what every block of it allows. If \<open>verify\<close> succeeds for a token whose blocks
  this service wrote, an authority block for a scope and any trail of attenuations, then the caller is
  the holder, no block id and no mandate id of the token is revoked, the token has not expired, and the
  requested capability is covered by the scope of the authority and by the scope of every attenuation.
\<close>

theorem verify_respects_every_scope:
  fixes svc :: "(('x, 'm) token_world_scheme, 'b, 'pub, 'priv) token_service"
  assumes laws: "biscuit_laws (tk_lib svc) blocks other" and store: "tk_revocations svc = pg_revocations"
    and load: "load (tk_lib svc) (tk_keyring svc) token = Inr l"
    and minted: "blocks (ld_biscuit l) = minted subj act s0 ia ex m trail"
      "finite s0" "list_all (\<lambda>(a, b, s). finite s) trail"
    and run: "verify svc token who op r w = (Inr v, w')"
  shows "who = ch_actor (vt_chain v) \<and> pg_revoked w \<inter> set (vt_revocation_ids v) = {}
    \<and> w_clock w (w_clock_at w) < ex \<and> scope_covers s0 (Capability op r)
    \<and> list_all (\<lambda>(a, b, s). scope_covers s (Capability op r)) trail"
proof -
  have v: "who = ch_actor (ld_chain l)" "\<forall>i\<in>set (loaded_revocation_ids (tk_lib svc) l). i \<notin> pg_revoked w"
      "bl_authorize (tk_lib svc) (ld_biscuit l) (request_of who op r (w_clock w (w_clock_at w))) = Inr ()"
      "v = verified (tk_lib svc) token l"
    using verify_run [OF store run] load by auto
  have "biscuit_permits other (blocks (ld_biscuit l)) (request_of who op r (w_clock w (w_clock_at w)))"
    by (rule biscuit_lawsD(7) [OF laws v(3)])
  then show ?thesis
    using v(1,2,4) unfolding minted(1) permits_minted [OF minted(2,3)] by (auto simp: verified_def)
qed

text \<open>
  C18: revocation is final and reaches every derived token. Once \<open>revoke_id\<close> has returned for an id of
  a token, and while the table of revocations only grows, neither \<open>verify\<close> nor \<open>verify_many\<close> nor
  \<open>inspect\<close> ever returns for that token again; and every attenuation of it carries the id too.
\<close>

theorem revocation_is_final:
  fixes svc :: "(('x, 'm) token_world_scheme, 'b, 'pub, 'priv) token_service"
  assumes laws: "biscuit_laws (tk_lib svc) blocks other" and store: "tk_revocations svc = pg_revocations"
    and audit: "\<And>e. keeps w_revoked_rows (tk_audit svc e)"
    and load: "load (tk_lib svc) (tk_keyring svc) token = Inr l" "i \<in> set (loaded_revocation_ids (tk_lib svc) l)"
    and revoked: "revoke_id svc i reason w0 = (Inr (), w1)" "pg_revoked w1 \<subseteq> pg_revoked w"
  shows "verify svc token who op r w \<noteq> (Inr v, w') \<and> verify_many svc token who op rs w \<noteq> (Inr vm, w')
    \<and> inspect svc token who w \<noteq> (Inr v, w')
    \<and> (attenuate (tk_lib svc) (tk_keyring svc) token b s = Inr child \<longrightarrow> i \<in> set (it_revocation_ids child))"
proof -
  have "i \<in> pg_revoked w1" by (rule revoke_id_adds [OF store audit revoked(1)])
  then have "i \<in> pg_revoked w" using revoked(2) by blast
  from pg_revocations.present_dead [OF store load(1) this load(2)]
  have dead: "present svc token who w \<noteq> (Inr x, w2)" for x w2 .
  have "i \<in> set (it_revocation_ids child)" if "attenuate (tk_lib svc) (tk_keyring svc) token b s = Inr child"
  proof -
    let ?blk = "attenuation_builder (ch_actor (ld_chain l)) b s"
    obtain j where "bl_revocation_ids (tk_lib svc) (bl_append (tk_lib svc) (ld_biscuit l) ?blk)
        = bl_revocation_ids (tk_lib svc) (ld_biscuit l) @ [j]"
      by (rule biscuit_laws_ids [OF laws])
    then show ?thesis using that load
      by (auto simp: attenuate_def loaded_revocation_ids_def with_mandate_def Let_def split: sum.splits if_splits)
  qed
  then show ?thesis using dead
    by (auto simp: verify_def verify_many_def inspect_def bindE_Inr liftE_def)
qed

text \<open>
  A zero duration issues a token with the default lifetime. \<open>ttl or self._ttl\<close> reads
  \<open>timedelta(0)\<close> as absent, so the token lives as long as one issued without a duration.
\<close>

theorem zero_ttl_gets_default:
  assumes "issue svc c (Some 0) m w = (Inr i, w')"
  shows "it_expires_at i = w_clock w (w_clock_at w) + tk_ttl svc"
  using assms by (auto simp: issue_def bindE_Inr now_def stateE_def Let_def ttl_or_def retE_def raiseE_def split: if_splits)

text \<open>
  An issued token reads back as the chain it was issued for. Within the limits of the library, and
  with the key ring holding the service's own key, \<open>load\<close> of a token \<open>issue\<close> returned gives the root
  chain, the expiry, the mandate and the revocation ids of the issued token.
\<close>

theorem issued_token_loads:
  assumes laws: "biscuit_laws (tk_lib svc) blocks other" and runs: "biscuit_runs (tk_lib svc) blocks sealed"
    and key: "private_key (tk_keyring svc) (tk_key_id svc) = Inr priv"
      "public_key (tk_keyring svc) (Some (tk_key_id svc)) = Inr (bl_public_of (tk_lib svc) priv)"
    and chain: "root_chain subj act s = Inr c" "finite s" "\<forall>c\<in>s. wf_capability c"
    and run: "issue svc c ttl m w = (Inr i, w')"
  shows "\<exists>l. load (tk_lib svc) (tk_keyring svc) (it_token i) = Inr l \<and> ld_chain l = c
    \<and> ld_expires_at l = it_expires_at i \<and> ld_mandate_id l = m
    \<and> loaded_revocation_ids (tk_lib svc) l = it_revocation_ids i"
proof -
  have c: "c = \<lparr>ch_subject = subj, ch_actor = act, ch_delegation = [], ch_scope = s, ch_root_scope = None\<rparr>"
    using chain(1) by (auto simp: root_chain_def mk_chain_def Let_def split: option.splits)
  let ?ex = "w_clock w (w_clock_at w) + ttl_or ttl (tk_ttl svc)"
  let ?a = "authority_builder subj act s (w_clock w (w_clock_at w)) ?ex m"
  let ?b = "bl_build (tk_lib svc) ?a (tk_key_id svc) priv"
  have i: "it_token i = bl_to_base64 (tk_lib svc) ?b" "it_expires_at i = ?ex"
      "it_revocation_ids i = with_mandate (bl_revocation_ids (tk_lib svc) ?b) m"
    using run key(1) by (auto simp: issue_def c bindE_Inr now_def stateE_def Let_def retE_def raiseE_def liftE_def split: if_splits)
  have "load (tk_lib svc) (tk_keyring svc) (bl_to_base64 (tk_lib svc) ?b)
      = Inr \<lparr>ld_biscuit = ?b, ld_chain = c, ld_expires_at = ?ex, ld_mandate_id = m\<rparr>"
    by (rule load_sealed [OF laws runs biscuit_runsD(1) [OF runs] key(2)])
       (use load_authority [OF laws runs, of ?b] chain biscuit_lawsD(3) [OF laws] in \<open>simp_all add: MAX_DELEGATION_DEPTH_def\<close>)
  then show ?thesis using i by (auto simp: loaded_revocation_ids_def)
qed

text \<open>
  A delegated token reads back as the delegated chain, and it is narrower. For a token that loads,
  \<open>attenuate\<close> offline with the public key gives a token that loads with the same subject, expiry and
  mandate, and with the parent's chain delegated to the new holder, whose scope the parent's covers.
\<close>

theorem attenuated_token_loads:
  assumes laws: "biscuit_laws lib blocks other" and runs: "biscuit_runs lib blocks sealed"
    and parent: "load lib kr token = Inr l" "sealed (ld_biscuit l) kid pub" "public_key kr (Some kid) = Inr pub"
      "length (blocks (ld_biscuit l)) \<le> MAX_DELEGATION_DEPTH"
    and plain: "plain_text (ch_actor (ld_chain l))" "plain_text b" "plain_scope s"
    and run: "attenuate lib kr token b s = Inr i"
  shows "\<exists>l'. load lib kr (it_token i) = Inr l' \<and> ld_chain l' = it_chain i \<and> ld_expires_at l' = ld_expires_at l
    \<and> ld_mandate_id l' = ld_mandate_id l \<and> delegate (ld_chain l) b s = Inr (it_chain i)
    \<and> ch_subject (it_chain i) = ch_subject (ld_chain l) \<and> ch_actor (it_chain i) = b
    \<and> is_subset_of (ch_scope (it_chain i)) (ch_scope (ld_chain l))"
proof -
  let ?p = "ld_biscuit l" and ?a = "ch_actor (ld_chain l)"
  let ?n = "length (blocks ?p)" and ?blk = "attenuation_builder ?a b s"
  let ?b = "bl_append lib ?p ?blk"
  have i: "it_token i = bl_to_base64 lib ?b" "delegate (ld_chain l) b s = Inr (it_chain i)"
    using run parent(1) by (auto simp: attenuate_def Let_def split: sum.splits if_splits)
  obtain subj act s0 c0 where pl: "read_authority lib ?p = Inr (subj, act, s0, ld_expires_at l)"
      "read_mandate lib ?p = Inr (ld_mandate_id l)" "root_chain subj act s0 = Inr c0"
      "rebuild_chain c0 (map (bl_block_source lib ?p) [1..<?n]) = Inr (ld_chain l)"
    using load_Inr [OF parent(1)] biscuit_lawsD(2) [OF laws] by auto
  obtain texts where "splitlines (bl_block_source lib ?b ?n) = trail_source ?a b s @ texts"
      "list_all (\<lambda>t. startswith t ''check if'') texts"
    by (rule biscuit_runs_source [OF runs plain])
  from parse_trail_round_trip [OF this plain] have src: "rebuild_chain (ld_chain l) [bl_block_source lib ?b ?n] = Inr (it_chain i)"
    using i(2) by simp
  have "blocks ?p \<noteq> []" by (rule biscuit_lawsD(1) [OF laws])
  then have "map (bl_block_source lib ?b) [1..<length (blocks ?b)] = map (bl_block_source lib ?p) [1..<?n] @ [bl_block_source lib ?b ?n]"
    using biscuit_runsD(6) [OF runs] by (cases "blocks ?p") (auto simp: biscuit_lawsD(4) [OF laws])
  then have rb: "rebuild_chain c0 (map (bl_block_source lib ?b) [1..<length (blocks ?b)]) = Inr (it_chain i)"
    using pl(4) src by (simp add: rebuild_chain_snoc del: rebuild_chain.simps)
  have q: "read_authority lib ?b = read_authority lib ?p" "read_mandate lib ?b = read_mandate lib ?p"
    unfolding read_authority_def read_mandate_def single_fact_def biscuit_runsD(5) [OF runs] by (rule refl)+
  have "load lib kr (bl_to_base64 lib ?b) = Inr \<lparr>ld_biscuit = ?b, ld_chain = it_chain i, ld_expires_at = ld_expires_at l,
      ld_mandate_id = ld_mandate_id l\<rparr>"
    by (rule load_sealed [OF laws runs biscuit_runsD(2) [OF runs parent(2)] parent(3) _ _ _ pl(3) rb])
       (simp_all add: biscuit_lawsD(4) [OF laws] parent(4) q pl(1,2))
  moreover have "ch_subject (it_chain i) = ch_subject (ld_chain l) \<and> ch_actor (it_chain i) = b
      \<and> is_subset_of (ch_scope (it_chain i)) (ch_scope (ld_chain l))"
    using i(2) by (auto simp: delegate_ok)
  ultimately show ?thesis using i by auto
qed

end
