(* ===== verification/Tokens_Instance.thy ===== *)
theory Tokens_Instance
  imports Tokens_Biscuit
begin

text \<open>
  An instance of what \<open>Tokens_Biscuit\<close> relies on of the library: tokens are lists of blocks under a
  key, written as JSON, queries and authorizations are computed from the blocks. \<open>sample_lib_laws\<close> and
  \<open>sample_lib_runs\<close> show that the laws can hold together, and the witnesses of the token properties run
  on this instance. It models no code of the repository.
\<close>

section \<open>Blocks as JSON\<close>

type_synonym sample_token = "int \<times> int \<times> dblock \<times> dblock list"

fun term_json :: "dterm \<Rightarrow> json" where
  "term_json (DStr s) = JStr s"
| "term_json (DTime t) = JInt t"

fun json_term :: "json \<Rightarrow> dterm" where
  "json_term (JInt t) = DTime t"
| "json_term (JStr s) = DStr s"
| "json_term _ = DStr []"

definition fact_json :: "dfact \<Rightarrow> json" where
  "fact_json f = JArr (JStr (fst f) # map term_json (snd f))"

fun json_fact :: "json \<Rightarrow> dfact" where
  "json_fact (JArr (JStr n # ts)) = (n, map json_term ts)"
| "json_fact _ = ([], [])"

fun clause_json :: "bool \<times> string \<times> string \<Rightarrow> json" where
  "clause_json (p, k, x) = JArr [JBool p, JStr k, JStr x]"

fun json_clause :: "json \<Rightarrow> bool \<times> string \<times> string" where
  "json_clause (JArr [JBool p, JStr k, JStr x]) = (p, k, x)"
| "json_clause _ = (False, [], [])"

fun check_json :: "dcheck \<Rightarrow> json" where
  "check_json (CheckTime e) = JInt e"
| "check_json CheckFalse = JNull"
| "check_json (CheckScope cls) = JArr (map clause_json cls)"
| "check_json (CheckOther s) = JStr s"

fun json_check :: "json \<Rightarrow> dcheck" where
  "json_check (JInt e) = CheckTime e"
| "json_check (JArr cls) = CheckScope (map json_clause cls)"
| "json_check (JStr s) = CheckOther s"
| "json_check _ = CheckFalse"

definition block_json :: "dblock \<Rightarrow> json" where
  "block_json b = JArr [JArr (map fact_json (bk_facts b)), JArr (map check_json (bk_checks b))]"

fun json_block :: "json \<Rightarrow> dblock" where
  "json_block (JArr [JArr fs, JArr cs]) = \<lparr>bk_facts = map json_fact fs, bk_checks = map json_check cs\<rparr>"
| "json_block _ = \<lparr>bk_facts = [], bk_checks = []\<rparr>"

fun token_json :: "sample_token \<Rightarrow> json" where
  "token_json (i, p, a, bs) = JArr (JInt i # JInt p # block_json a # map block_json bs)"

fun json_token :: "json \<Rightarrow> sample_token option" where
  "json_token (JArr (JInt i # JInt p # a # bs)) = Some (i, p, json_block a, map json_block bs)"
| "json_token _ = None"

lemma json_term_inv [simp]: "json_term (term_json t) = t"
  by (cases t) simp_all

lemma json_fact_inv [simp]: "json_fact (fact_json f) = f"
  by (simp add: fact_json_def comp_def)

lemma json_clause_inv [simp]: "json_clause (clause_json c) = c"
  by (cases c rule: clause_json.cases) simp

lemma json_check_inv [simp]: "json_check (check_json c) = c"
  by (cases c) (simp_all add: comp_def)

lemma json_block_inv [simp]: "json_block (block_json b) = b"
  by (simp add: block_json_def comp_def)

lemma json_token_inv [simp]: "json_token (token_json t) = Some t"
  by (cases t rule: token_json.cases) (simp add: comp_def)

lemma wf_term_json [simp]: "wf_json (term_json t)"
  by (cases t) simp_all

lemma wf_fact_json [simp]: "wf_json (fact_json f)"
  by (simp add: fact_json_def list_all_iff)

lemma wf_clause_json [simp]: "wf_json (clause_json c)"
  by (cases c rule: clause_json.cases) simp

lemma wf_check_json [simp]: "wf_json (check_json c)"
  by (cases c) (simp_all add: list_all_iff)

lemma wf_block_json [simp]: "wf_json (block_json b)"
  by (simp add: block_json_def list_all_iff)

lemma wf_token_json [simp]: "wf_json (token_json t)"
  by (cases t rule: token_json.cases) (simp add: list_all_iff)

section \<open>The library\<close>

definition sample_blocks :: "sample_token \<Rightarrow> dblock list" where
  "sample_blocks t = (case t of (i, p, a, bs) \<Rightarrow> a # bs)"

definition sample_other :: "string \<Rightarrow> dfact list \<Rightarrow> bool" where
  "sample_other s F = False"

definition sample_sealed :: "sample_token \<Rightarrow> int \<Rightarrow> int \<Rightarrow> bool" where
  "sample_sealed t i p = (fst t = i \<and> fst (snd t) = p)"

fun fact_text :: "dfact \<Rightarrow> string" where
  "fact_text (n, [DStr a, DStr b]) = pair_text n a b"
| "fact_text (n, _) = n @ ''()''"

fun check_text :: "dcheck \<Rightarrow> string" where
  "check_text (CheckTime _) = ''check if time($t), $t < _;''"
| "check_text CheckFalse = ''check if false;''"
| "check_text (CheckScope _) = ''check if operation($op), resource($r), _;''"
| "check_text (CheckOther _) = ''check if other;''"

definition block_text :: "dblock \<Rightarrow> string" where
  "block_text b = concat (map (\<lambda>l. l @ [CHR 0x0A]) (map fact_text (bk_facts b) @ map check_text (bk_checks b)))"

definition sample_lib :: "(sample_token, int, int) biscuit_lib" where
  "sample_lib = \<lparr>
     bl_unverified_key = (\<lambda>s. case Option.bind (loads s) json_token of None \<Rightarrow> Inl (Other ''DataLogError'') | Some t \<Rightarrow> Inr (Some (fst t))),
     bl_from_base64 = (\<lambda>s p. case Option.bind (loads s) json_token of None \<Rightarrow> Inl (Other ''BiscuitValidationError'')
       | Some t \<Rightarrow> if fst (snd t) = p then Inr t else Inl (Other ''BiscuitValidationError'')),
     bl_to_base64 = (\<lambda>t. dumps (token_json t)),
     bl_build = (\<lambda>a i p. (i, p, a, [])),
     bl_append = (\<lambda>t b. case t of (i, p, a, bs) \<Rightarrow> (i, p, a, bs @ [b])),
     bl_block_count = (\<lambda>t. length (sample_blocks t)),
     bl_block_source = (\<lambda>t j. block_text (sample_blocks t ! j)),
     bl_revocation_ids = (\<lambda>t. map (\<lambda>j. dumps (JArr (map block_json (take (Suc j) (sample_blocks t))))) [0..<length (sample_blocks t)]),
     bl_query = (\<lambda>t n k. Inr (remdups (map snd (filter (\<lambda>f. fst f = n \<and> length (snd f) = k) (bk_facts (hd (sample_blocks t))))))),
     bl_authorize = (\<lambda>t az. if biscuit_permits sample_other (sample_blocks t) az then Inr () else Inl AuthorizationError),
     bl_public_of = (\<lambda>p. p)\<rparr>"

lemma sample_blocks_simps [simp]:
  "sample_blocks (i, p, a, bs) = a # bs"
  by (simp add: sample_blocks_def)

lemma sample_lib_laws: "biscuit_laws sample_lib sample_blocks sample_other"
proof -
  have ids: "\<exists>i. bl_revocation_ids sample_lib (bl_append sample_lib b k) = bl_revocation_ids sample_lib b @ [i]" for b k
    by (cases b rule: token_json.cases) (simp add: sample_lib_def)
  have q: "set rows = {ts. (n, ts) \<in> set (bk_facts (hd (sample_blocks b))) \<and> length ts = k}" "distinct rows"
    if "bl_query sample_lib b n k = Inr rows" for b n k rows
    using that by (force simp: sample_lib_def)+
  have "sample_blocks b \<noteq> []" for b by (cases b rule: token_json.cases) simp
  moreover have "sample_blocks (bl_append sample_lib b k) = sample_blocks b @ [k]" for b k
    by (cases b rule: token_json.cases) (simp add: sample_lib_def)
  moreover have "sample_blocks (bl_build sample_lib a i p) = [a]" for a i p by (simp add: sample_lib_def)
  moreover have "bl_block_count sample_lib b = length (sample_blocks b)"
      "length (bl_revocation_ids sample_lib b) = length (sample_blocks b)" for b by (simp_all add: sample_lib_def)
  moreover have "biscuit_permits sample_other (sample_blocks b) az" if "bl_authorize sample_lib b az = Inr ()" for b az
    using that by (simp add: sample_lib_def split: if_splits)
  ultimately show ?thesis unfolding biscuit_laws_def using ids q by simp
qed

definition one_line :: "string \<Rightarrow> bool" where
  "one_line l = list_all (\<lambda>c. \<not> line_break c) l"

lemma split_lines_line: "one_line l \<Longrightarrow> split_lines acc (l @ CHR 0x0A # rest) = (rev acc @ l) # split_lines [] rest"
proof (induction l arbitrary: acc)
  case (Cons c l)
  then have "c \<noteq> CHR 0x0D" "\<not> line_break c" "one_line l" by (auto simp: line_break_def one_line_def)
  then show ?case using Cons.IH by simp
qed (simp add: line_break_def)

lemma splitlines_lines: "list_all one_line ls \<Longrightarrow> splitlines (concat (map (\<lambda>l. l @ [CHR 0x0A]) ls)) = ls"
  by (induction ls) (simp_all add: splitlines_def split_lines_line)

lemma pair_text_line: "plain_text a \<Longrightarrow> plain_text b \<Longrightarrow> one_line n \<Longrightarrow> one_line (pair_text n a b)"
  by (auto simp: pair_text_def plain_text_def one_line_def list_all_iff) (simp_all add: line_break_def)

lemma check_text_line: "one_line (check_text c)" "startswith (check_text c) ''check if''"
  by (cases c; simp add: line_break_def startswith_def one_line_def)+

lemma sample_source:
  assumes "plain_text a" "plain_text c" "plain_scope s"
  shows "splitlines (block_text (attenuation_builder a c s)) = trail_source a c s @ [check_text (scope_check s)]"
proof -
  have s: "set (sorted_scope s) = s" using assms(3) by (simp add: plain_scope_def sorted_scope_set)
  have tx: "block_text (attenuation_builder a c s)
      = concat (map (\<lambda>l. l @ [CHR 0x0A]) (trail_source a c s @ [check_text (scope_check s)]))"
    by (simp add: block_text_def attenuation_builder_def trail_source_def comp_def)
  have names: "one_line ''delegation''" "one_line ''scope_cap''" by (simp_all add: one_line_def line_break_def)
  have "list_all one_line (trail_source a c s)"
    unfolding trail_source_def list_all_iff using assms s
    by (auto simp: plain_scope_def intro!: pair_text_line names kind_value_plain)
  then show ?thesis unfolding tx by (intro splitlines_lines) (simp add: check_text_line)
qed

lemma sample_lib_runs: "biscuit_runs sample_lib sample_blocks sample_sealed"
  unfolding biscuit_runs_def
proof (intro conjI allI impI)
  fix b :: sample_token and a c s assume "plain_text a \<and> plain_text c \<and> plain_scope s"
  then show "\<exists>texts. splitlines (bl_block_source sample_lib (bl_append sample_lib b (attenuation_builder a c s)) (length (sample_blocks b)))
      = trail_source a c s @ texts \<and> list_all (\<lambda>t. startswith t ''check if'') texts"
    using sample_source [of a c s] check_text_line(2)
    by (cases b rule: token_json.cases) (simp add: sample_lib_def)
next
  fix b :: sample_token and blk j assume "j < length (sample_blocks b)"
  then show "bl_block_source sample_lib (bl_append sample_lib b blk) j = bl_block_source sample_lib b j"
    by (cases b rule: token_json.cases) (simp add: sample_lib_def nth_Cons nth_append split: nat.splits)
next
  fix b :: sample_token and blk show "bl_query sample_lib (bl_append sample_lib b blk) = bl_query sample_lib b"
    by (cases b rule: token_json.cases) (simp add: sample_lib_def)
next
  fix b :: sample_token and i pub blk assume "sample_sealed b i pub"
  then show "sample_sealed (bl_append sample_lib b blk) i pub"
    by (cases b rule: token_json.cases) (simp add: sample_lib_def sample_sealed_def)
qed (simp_all add: sample_lib_def sample_sealed_def loads_dumps)

section \<open>A service on the instance\<close>

definition sample_keyring :: "(int, int) keyring" where
  "sample_keyring = add_private_key sample_lib 1 7 \<lparr>kr_public = [], kr_private = []\<rparr>"

definition sample_service :: "(('x, 'm) token_world_scheme, sample_token, int, int) token_service" where
  "sample_service = \<lparr>tk_lib = sample_lib, tk_keyring = sample_keyring,
     tk_revocations = pg_revocations, tk_audit = mem_record, tk_key_id = 1, tk_ttl = DEFAULT_TTL\<rparr>"

definition token_world0 :: "unit token_world" where
  "token_world0 = appr_world.extend appr_world0 (token_world.fields [] [])"

definition narrow_scope :: scope where
  "narrow_scope = set [Capability READ ''document:hr/*'']"

definition sample_trail :: "(string \<times> string \<times> scope) list" where
  "sample_trail = [(''agent:a'', ''agent:b'', narrow_scope)]"

definition sample_biscuit :: sample_token where
  "sample_biscuit = (1, 7, authority_builder ''user:alice'' ''agent:a'' (ch_scope sample_chain) 0 10 (Some ''m1''),
     [attenuation_builder ''agent:a'' ''agent:b'' narrow_scope])"

definition sample_loaded :: "sample_token loaded" where
  "sample_loaded = \<lparr>ld_biscuit = sample_biscuit, ld_chain = sample_delegated, ld_expires_at = 10, ld_mandate_id = Some ''m1''\<rparr>"

lemma sample_plain: "plain_text ''agent:a''" "plain_text ''agent:b''" "plain_scope narrow_scope"
proof -
  show "plain_text ''agent:a''" "plain_text ''agent:b''" by code_simp+
  have "\<forall>c\<in>narrow_scope. wf_capability c \<and> plain_text (cap_resource c)" by code_simp
  then show "plain_scope narrow_scope" by (simp add: plain_scope_def narrow_scope_def)
qed

lemma sample_keys:
  "public_key sample_keyring (Some 1) = Inr 7" "private_key sample_keyring 1 = Inr 7"
  by (simp_all add: sample_keyring_def add_private_key_def public_key_def private_key_def sample_lib_def)

lemma sample_service_simps [simp]:
  "tk_lib sample_service = sample_lib" "tk_revocations sample_service = pg_revocations" "tk_audit sample_service = mem_record"
  "tk_keyring sample_service = sample_keyring" "tk_key_id sample_service = 1" "tk_ttl sample_service = DEFAULT_TTL"
  by (simp_all add: sample_service_def)

lemma sample_roots: "root_chain ''user:alice'' ''agent:a'' (ch_scope sample_chain) = Inr sample_chain"
    "delegate sample_chain ''agent:b'' narrow_scope = Inr sample_delegated"
proof -
  have "wf_chain sample_chain" "wf_chain sample_delegated" "is_subset_of narrow_scope (ch_scope sample_chain)"
    "valid_ref ''agent:a'' ''agent''" "valid_ref ''agent:b'' ''agent''"
    by code_simp+
  then show "root_chain ''user:alice'' ''agent:a'' (ch_scope sample_chain) = Inr sample_chain"
      "delegate sample_chain ''agent:b'' narrow_scope = Inr sample_delegated"
    unfolding delegate_ok root_chain_def mk_chain_ok
    by (simp_all add: sample_chain_def sample_delegated_def root_scope_def narrow_scope_def)
qed

lemma sample_load: "load sample_lib sample_keyring (bl_to_base64 sample_lib sample_biscuit) = Inr sample_loaded"
  unfolding sample_loaded_def
proof (rule load_sealed [OF sample_lib_laws sample_lib_runs _ sample_keys(1)])
  show "sample_sealed sample_biscuit 1 7" by (simp add: sample_sealed_def sample_biscuit_def)
  show "length (sample_blocks sample_biscuit) \<le> Suc MAX_DELEGATION_DEPTH" by (simp add: sample_biscuit_def MAX_DELEGATION_DEPTH_def)
  have auth: "hd (sample_blocks sample_biscuit) = authority_builder ''user:alice'' ''agent:a'' (ch_scope sample_chain) 0 10 (Some ''m1'')"
    by (simp add: sample_biscuit_def)
  show "read_authority sample_lib sample_biscuit = Inr (''user:alice'', ''agent:a'', ch_scope sample_chain, 10)"
      "read_mandate sample_lib sample_biscuit = Inr (Some ''m1'')"
    using load_authority [OF sample_lib_laws sample_lib_runs auth] sample_chain_wf(2) by (simp_all add: wf_scope_def)
  show "root_chain ''user:alice'' ''agent:a'' (ch_scope sample_chain) = Inr sample_chain" by (rule sample_roots)
  have src: "bl_block_source sample_lib sample_biscuit 1 = block_text (attenuation_builder ''agent:a'' ''agent:b'' narrow_scope)"
    by (simp add: sample_lib_def sample_biscuit_def)
  have "parse_trail_block (block_text (attenuation_builder ''agent:a'' ''agent:b'' narrow_scope))
      = Inr (Some ((''agent:a'', ''agent:b''), narrow_scope))"
    by (rule parse_trail_round_trip [OF sample_source [OF sample_plain] _ sample_plain]) (simp add: check_text_line)
  then show "rebuild_chain sample_chain (map (bl_block_source sample_lib sample_biscuit) [1..<length (sample_blocks sample_biscuit)])
      = Inr sample_delegated"
    using src sample_roots(2) by (simp add: sample_biscuit_def sample_chain_def [THEN arg_cong [of _ _ ch_actor]])
qed

section \<open>Witnesses\<close>

lemma sample_world_db [simp]: "w_db token_world0 n = DbOk" "w_revoked_rows token_world0 = []" "w_clock token_world0 n = int n"
    "w_clock_at token_world0 = 0"
  by (simp_all add: token_world0_def appr_world.extend_def token_world.fields_def appr_world0_def)

lemma sample_minted:
  "sample_blocks (ld_biscuit sample_loaded) = minted ''user:alice'' ''agent:a'' (ch_scope sample_chain) 0 10 (Some ''m1'') sample_trail"
  "finite (ch_scope sample_chain)" "list_all (\<lambda>(a, b, s). finite s) sample_trail"
  by (simp_all add: sample_loaded_def sample_biscuit_def minted_def sample_trail_def narrow_scope_def sample_chain_def)

lemma sample_verify:
  "\<exists>v w'. verify sample_service (bl_to_base64 sample_lib sample_biscuit) ''agent:b'' READ ''document:hr/1'' token_world0 = (Inr v, w')"
proof -
  have valid: "validate_ref ''agent:b'' ''agent'' = Inr ''agent:b''" "validate_resource_pattern ''document:hr/1'' = Inr ''document:hr/1''"
    by code_simp+
  have covers: "scope_covers (ch_scope sample_chain) (Capability READ ''document:hr/1'')" "scope_covers narrow_scope (Capability READ ''document:hr/1'')"
    by code_simp+
  have "bl_authorize sample_lib sample_biscuit (request_of ''agent:b'' READ ''document:hr/1'' 0) = Inr ()"
    using permits_minted [OF sample_minted(2,3), of sample_other "''user:alice''" "''agent:a''" 0 10 "Some ''m1''"
        "''agent:b''" READ "''document:hr/1''" 0] sample_minted(1) covers
    by (simp add: sample_lib_def sample_loaded_def sample_trail_def del: kind_value.simps)
  then show ?thesis
    by (simp add: verify_def bindE_def liftE_def valid present_def sample_load service_is_revoked_def catchE_def pg_revocations_def
        pg_is_revoked_def db_query_def db_stmt_def Let_def loaded_revocation_ids_def with_mandate_def sample_loaded_def
        sample_delegated_def [THEN arg_cong [of _ _ ch_actor]] retE_def now_def stateE_def)
qed

theorem verify_respects_every_scope_witness:
  "\<exists>v w'. verify sample_service (bl_to_base64 sample_lib sample_biscuit) ''agent:b'' READ ''document:hr/1'' token_world0 = (Inr v, w')
    \<and> scope_covers narrow_scope (Capability READ ''document:hr/1'')"
proof -
  obtain v w' where run: "verify sample_service (bl_to_base64 sample_lib sample_biscuit) ''agent:b'' READ ''document:hr/1'' token_world0 = (Inr v, w')"
    using sample_verify by blast
  have laws: "biscuit_laws (tk_lib sample_service) sample_blocks sample_other" by (simp add: sample_lib_laws)
  from verify_respects_every_scope [OF laws _ _ sample_minted run] sample_load run show ?thesis
    by (auto simp: sample_trail_def)
qed

theorem revocation_is_final_witness:
  "\<exists>w1. revoke_id sample_service ''mandate:m1'' ''stolen'' token_world0 = (Inr (), w1)
    \<and> verify sample_service (bl_to_base64 sample_lib sample_biscuit) ''agent:b'' READ ''document:hr/1'' w1 \<notin> {(Inr v0, w2) | v0 w2. True}"
proof -
  obtain w1 where run: "revoke_id sample_service ''mandate:m1'' ''stolen'' token_world0 = (Inr (), w1)"
    by (simp add: revoke_id_def bindE_def now_def stateE_def pg_revocations_def pg_revoke_def db_stmt_def Let_def
        uuid4_hex_def mem_record_def modifyE_def)
  have keeps: "keeps w_revoked_rows (tk_audit sample_service e)" for e
    by (simp add: mem_record_def keeps_rules)
  have laws: "biscuit_laws (tk_lib sample_service) sample_blocks sample_other" by (simp add: sample_lib_laws)
  have "''mandate:m1'' \<in> set (loaded_revocation_ids (tk_lib sample_service) sample_loaded)"
    by (simp add: loaded_revocation_ids_def sample_loaded_def with_mandate_def mandate_revocation_id_def)
  from revocation_is_final [OF laws _ keeps _ this run subset_refl] sample_load run show ?thesis by auto
qed

theorem issued_token_loads_witness:
  "\<exists>i w'. issue sample_service sample_chain None (Some ''m1'') token_world0 = (Inr i, w')
    \<and> (\<exists>l. load sample_lib sample_keyring (it_token i) = Inr l \<and> ld_chain l = sample_chain)"
proof -
  obtain i w' where run: "issue sample_service sample_chain None (Some ''m1'') token_world0 = (Inr i, w')"
    by (simp add: issue_def chain_depth_def sample_chain_def [THEN arg_cong [of _ _ ch_delegation]] bindE_def now_def stateE_def
        Let_def liftE_def sample_keys token_event_def uuid4_hex_def retE_def mem_record_def modifyE_def)
  have laws: "biscuit_laws (tk_lib sample_service) sample_blocks sample_other" "biscuit_runs (tk_lib sample_service) sample_blocks sample_sealed"
    by (simp_all add: sample_lib_laws sample_lib_runs)
  have pub: "bl_public_of (tk_lib sample_service) 7 = 7" by (simp add: sample_lib_def)
  from issued_token_loads [OF laws _ _ sample_roots(1) _ _ run, of 7] sample_chain_wf(2) sample_keys run pub show ?thesis
    by (auto simp: wf_scope_def)
qed

theorem zero_ttl_gets_default_witness:
  "\<exists>i w'. issue sample_service sample_chain (Some 0) None token_world0 = (Inr i, w') \<and> it_expires_at i = 0 + DEFAULT_TTL"
proof -
  obtain i w' where run: "issue sample_service sample_chain (Some 0) None token_world0 = (Inr i, w')"
    by (simp add: issue_def chain_depth_def sample_chain_def [THEN arg_cong [of _ _ ch_delegation]] bindE_def now_def stateE_def
        Let_def liftE_def sample_keys token_event_def uuid4_hex_def retE_def mem_record_def modifyE_def)
  from zero_ttl_gets_default [OF run] run show ?thesis by auto
qed

theorem attenuated_token_loads_witness:
  "\<exists>i l. attenuate sample_lib sample_keyring (bl_to_base64 sample_lib sample_biscuit) ''agent:c'' narrow_scope = Inr i
    \<and> load sample_lib sample_keyring (it_token i) = Inr l \<and> ld_chain l = it_chain i \<and> ch_actor (ld_chain l) = ''agent:c''"
proof -
  have wf: "wf_chain \<lparr>ch_subject = ''user:alice'', ch_actor = ''agent:c'', ch_delegation = ch_delegation sample_delegated @
       [\<lparr>from_actor = ''agent:b'', to_actor = ''agent:c'', link_scope = narrow_scope\<rparr>], ch_scope = narrow_scope,
       ch_root_scope = Some (ch_scope sample_chain)\<rparr>" (is "wf_chain ?c")
    by code_simp
  have valid: "validate_ref ''agent:c'' ''agent'' = Inr ''agent:c''" "valid_ref ''agent:b'' ''agent''" "valid_ref ''agent:c'' ''agent''"
      "is_subset_of narrow_scope (ch_scope sample_delegated)" "plain_text ''agent:c''" "plain_text (ch_actor (ld_chain sample_loaded))"
    by code_simp+
  have dl: "delegate sample_delegated ''agent:c'' narrow_scope = Inr ?c"
    unfolding delegate_ok using wf valid(2-4) by (simp add: sample_delegated_def root_scope_def)
  have "chain_depth sample_delegated < MAX_DELEGATION_DEPTH" by code_simp
  then obtain i where run: "attenuate sample_lib sample_keyring (bl_to_base64 sample_lib sample_biscuit) ''agent:c'' narrow_scope = Inr i"
    using sample_load valid(1) dl by (simp add: attenuate_def Let_def sample_loaded_def)
  have sealed: "sample_sealed (ld_biscuit sample_loaded) 1 7" "length (sample_blocks (ld_biscuit sample_loaded)) \<le> MAX_DELEGATION_DEPTH"
    by (simp_all add: sample_loaded_def sample_biscuit_def sample_sealed_def MAX_DELEGATION_DEPTH_def)
  from attenuated_token_loads [OF sample_lib_laws sample_lib_runs sample_load sealed(1) sample_keys(1) sealed(2) valid(6) valid(5) sample_plain(3) run]
  show ?thesis using run by auto
qed

end
