(* ===== verification/Tokens_Mandates.thy ===== *)
theory Tokens_Mandates
  imports Tokens_Instance
begin

text \<open>
  Standing mandates (\<open>tokens/mandates.py\<close>): a human authorizes an agent once, the agent is issued
  short tokens after.

  \<open>w_mand_rows\<close> is the table \<open>mandates\<close>, \<open>w_mand_mem\<close> the dict of the in-memory store. The locale
  \<open>mandate_contract\<close> is what the service relies on of a store; its parameter \<open>kept\<close> is what a store
  keeps of a mandate, since the Postgres column for the longest lifetime holds whole seconds.
\<close>

section \<open>Mandates\<close>

definition DEFAULT_MAX_DAYS :: int where
  "DEFAULT_MAX_DAYS = 90"

definition DEFAULT_MAX_TOKEN_TTL :: timedelta where
  "DEFAULT_MAX_TOKEN_TTL = seconds 3600"

definition BINDING_RELATION :: string where
  "BINDING_RELATION = ''can_act_on_behalf_of''"

datatype mandate_status = ActiveM | RevokedM | ExpiredM

fun mstatus_value :: "mandate_status \<Rightarrow> string" where
  "mstatus_value ActiveM = ''active''"
| "mstatus_value RevokedM = ''revoked''"
| "mstatus_value ExpiredM = ''expired''"

definition mstatus_of :: "string \<Rightarrow> exn + mandate_status" where
  "mstatus_of s = (if s = ''active'' then Inr ActiveM else if s = ''revoked'' then Inr RevokedM
     else if s = ''expired'' then Inr ExpiredM else Inl (Other ''ValueError''))"

record mandate =
  md_mandate_id :: string
  md_subject :: string
  md_agent :: string
  md_scope :: scope
  md_created_at :: datetime
  md_expires_at :: datetime
  md_max_token_ttl :: timedelta
  md_created_by :: string
  md_status :: mandate_status
  md_revoked_at :: "datetime option"
  md_revocation_reason :: "string option"

definition md_revocation_id :: "mandate \<Rightarrow> string" where
  "md_revocation_id m = mandate_revocation_id (md_mandate_id m)"

definition md_expired :: "mandate \<Rightarrow> mandate" where
  "md_expired m = m\<lparr>md_status := ExpiredM\<rparr>"

definition md_revoked :: "datetime \<Rightarrow> string option \<Rightarrow> mandate \<Rightarrow> mandate" where
  "md_revoked t reason m = m\<lparr>md_status := RevokedM, md_revoked_at := Some t, md_revocation_reason := reason\<rparr>"

record mandate_row =
  mr_subject :: string
  mr_agent :: string
  mr_scope_json :: string
  mr_created_at :: datetime
  mr_expires_at :: datetime
  mr_max_token_ttl_seconds :: int
  mr_created_by :: string
  mr_status :: string
  mr_revoked_at :: "datetime option"
  mr_revocation_reason :: "string option"

record 'x mand_world = "'x token_world" +
  w_mand_mem :: "(string \<times> mandate) list"
  w_mand_rows :: "(string \<times> mandate_row) list"

text \<open>\<open>MandateStore\<close>\<close>

record 'w mand_store =
  mst_create :: "mandate \<Rightarrow> ('w, exn, unit) eff"
  mst_get :: "string \<Rightarrow> ('w, exn, mandate option) eff"
  mst_update :: "mandate \<Rightarrow> ('w, exn, unit) eff"
  mst_list_for :: "string \<Rightarrow> ('w, exn, mandate list) eff"
  mst_expire_active :: "datetime \<Rightarrow> ('w, exn, mandate list) eff"

section \<open>The in-memory store\<close>

definition mem_mand_create :: "mandate \<Rightarrow> (('x, 'm) mand_world_scheme, exn, unit) eff" where
  "mem_mand_create m = (\<lambda>w.
     if map_of (w_mand_mem w) (md_mandate_id m) \<noteq> None then (Inl (hoc MandateStoreUnavailable), w)
     else (Inr (), w\<lparr>w_mand_mem := AList.update (md_mandate_id m) m (w_mand_mem w)\<rparr>))"

definition mem_mand_get :: "string \<Rightarrow> (('x, 'm) mand_world_scheme, exn, mandate option) eff" where
  "mem_mand_get i = getsE (\<lambda>w. map_of (w_mand_mem w) i)"

definition mem_mand_update :: "mandate \<Rightarrow> (('x, 'm) mand_world_scheme, exn, unit) eff" where
  "mem_mand_update m = (\<lambda>w.
     if map_of (w_mand_mem w) (md_mandate_id m) = None then (Inl (hoc MandateStoreUnavailable), w)
     else (Inr (), w\<lparr>w_mand_mem := AList.update (md_mandate_id m) m (w_mand_mem w)\<rparr>))"

definition mem_mand_list_for :: "string \<Rightarrow> (('x, 'm) mand_world_scheme, exn, mandate list) eff" where
  "mem_mand_list_for subj = getsE (\<lambda>w. sort_key md_created_at (filter (\<lambda>m. md_subject m = subj) (map snd (w_mand_mem w))))"

definition lapsed :: "datetime \<Rightarrow> mandate \<Rightarrow> bool" where
  "lapsed t m = (md_status m = ActiveM \<and> md_expires_at m \<le> t)"

definition mem_mand_expire_active :: "datetime \<Rightarrow> (('x, 'm) mand_world_scheme, exn, mandate list) eff" where
  "mem_mand_expire_active t = stateE (\<lambda>w.
     let late = map md_expired (filter (lapsed t) (map snd (w_mand_mem w))) in
     (late, w\<lparr>w_mand_mem := fold (\<lambda>m. AList.update (md_mandate_id m) m) late (w_mand_mem w)\<rparr>))"

definition mem_mand_store :: "('x, 'm) mand_world_scheme mand_store" where
  "mem_mand_store = \<lparr>mst_create = mem_mand_create, mst_get = mem_mand_get, mst_update = mem_mand_update,
     mst_list_for = mem_mand_list_for, mst_expire_active = mem_mand_expire_active\<rparr>"

section \<open>The Postgres store\<close>

definition scope_to_json :: "scope \<Rightarrow> string" where
  "scope_to_json s = json_text '','' '':'' (JArr (map (\<lambda>c. JObj [(''kind'', JStr (kind_value (cap_kind c))),
     (''resource'', JStr (cap_resource c))]) (sorted_scope s)))"

text \<open>Iterating over what \<open>json.loads\<close> gave: a dict gives its keys, a string its characters.\<close>

definition json_iter :: "json \<Rightarrow> exn + json list" where
  "json_iter v = (case v of JArr vs \<Rightarrow> Inr vs | JObj kvs \<Rightarrow> Inr (map (\<lambda>kv. JStr (fst kv)) kvs)
     | JStr s \<Rightarrow> Inr (map (\<lambda>c. JStr [c]) s) | _ \<Rightarrow> Inl (Other ''TypeError''))"

text \<open>\<open>Capability(Kind(c["kind"]), str(c["resource"]))\<close>\<close>

definition capability_of_json :: "pyconv \<Rightarrow> json \<Rightarrow> exn + capability" where
  "capability_of_json pc v = (case v of
     JObj d \<Rightarrow> (case map_of d ''kind'' of
         None \<Rightarrow> Inl (Other ''KeyError'')
       | Some (JStr k) \<Rightarrow> (case kind_of k of
           None \<Rightarrow> Inl (Other ''ValueError'')
         | Some kd \<Rightarrow> (case map_of d ''resource'' of
             None \<Rightarrow> Inl (Other ''KeyError'')
           | Some r \<Rightarrow> mk_capability kd (conv_str pc r)))
       | Some _ \<Rightarrow> Inl (Other ''ValueError''))
   | _ \<Rightarrow> Inl (Other ''TypeError''))"

definition scope_from_json :: "pyconv \<Rightarrow> string \<Rightarrow> exn + scope" where
  "scope_from_json pc raw = (case loads raw of
     None \<Rightarrow> Inl (Other ''JSONDecodeError'')
   | Some v \<Rightarrow> (case json_iter v of Inl e \<Rightarrow> Inl e | Inr vs \<Rightarrow>
       (case sequence_sum (map (capability_of_json pc) vs) of Inl e \<Rightarrow> Inl e | Inr cs \<Rightarrow> Inr (scope_of cs))))"

text \<open>\<open>int(td.total_seconds())\<close>: towards zero.\<close>

definition whole_seconds :: "timedelta \<Rightarrow> int" where
  "whole_seconds d = (if d < 0 then - ((- d) div 1000000) else d div 1000000)"

definition mand_values :: "mandate \<Rightarrow> mandate_row" where
  "mand_values m = \<lparr>mr_subject = md_subject m, mr_agent = md_agent m, mr_scope_json = scope_to_json (md_scope m),
     mr_created_at = md_created_at m, mr_expires_at = md_expires_at m,
     mr_max_token_ttl_seconds = whole_seconds (md_max_token_ttl m), mr_created_by = md_created_by m,
     mr_status = mstatus_value (md_status m), mr_revoked_at = md_revoked_at m,
     mr_revocation_reason = md_revocation_reason m\<rparr>"

definition mand_from_row :: "pyconv \<Rightarrow> string \<times> mandate_row \<Rightarrow> exn + mandate" where
  "mand_from_row pc kr = (case kr of (i, row) \<Rightarrow>
     (case scope_from_json pc (mr_scope_json row) of Inl e \<Rightarrow> Inl e | Inr s \<Rightarrow>
      case mstatus_of (mr_status row) of Inl e \<Rightarrow> Inl e | Inr st \<Rightarrow>
      Inr \<lparr>md_mandate_id = i, md_subject = mr_subject row, md_agent = mr_agent row, md_scope = s,
           md_created_at = mr_created_at row, md_expires_at = mr_expires_at row,
           md_max_token_ttl = seconds (mr_max_token_ttl_seconds row), md_created_by = mr_created_by row,
           md_status = st, md_revoked_at = mr_revoked_at row, md_revocation_reason = mr_revocation_reason row\<rparr>))"

text \<open>The primary key and the range of an \<open>INTEGER\<close> column are the constraints of the insert.\<close>

definition int4 :: "int \<Rightarrow> bool" where
  "int4 n = (- 2147483648 \<le> n \<and> n \<le> 2147483647)"

definition pg_mand_create :: "mandate \<Rightarrow> (('x, 'm) mand_world_scheme, exn, unit) eff" where
  "pg_mand_create m = db_stmt MandateStoreUnavailable (\<lambda>w.
     if map_of (w_mand_rows w) (md_mandate_id m) \<noteq> None \<or> \<not> int4 (whole_seconds (md_max_token_ttl m)) then None
     else Some ((), w\<lparr>w_mand_rows := w_mand_rows w @ [(md_mandate_id m, mand_values m)]\<rparr>))"

definition pg_mandates ::
    "pyconv \<Rightarrow> (string \<times> mandate_row \<Rightarrow> bool) \<Rightarrow> (('x, 'm) mand_world_scheme, exn, mandate list) eff" where
  "pg_mandates pc cond =
     bindE (db_query MandateStoreUnavailable
       (\<lambda>w. sort_key (\<lambda>(i, row). mr_created_at row) (filter cond (w_mand_rows w))))
     (mapE (\<lambda>kr. liftE (mand_from_row pc kr)))"

definition pg_mand_get :: "pyconv \<Rightarrow> string \<Rightarrow> (('x, 'm) mand_world_scheme, exn, mandate option) eff" where
  "pg_mand_get pc i = bindE (pg_mandates pc (\<lambda>(k, row). k = i)) (\<lambda>rows.
     retE (case rows of [] \<Rightarrow> None | m # _ \<Rightarrow> Some m))"

definition pg_mand_update :: "mandate \<Rightarrow> (('x, 'm) mand_world_scheme, exn, unit) eff" where
  "pg_mand_update m = db_stmt MandateStoreUnavailable (\<lambda>w. Some ((),
     w\<lparr>w_mand_rows := map (\<lambda>(k, row). (k, if k = md_mandate_id m then
       row\<lparr>mr_status := mstatus_value (md_status m), mr_revoked_at := md_revoked_at m,
           mr_revocation_reason := md_revocation_reason m\<rparr> else row)) (w_mand_rows w)\<rparr>))"

definition pg_mand_list_for :: "pyconv \<Rightarrow> string \<Rightarrow> (('x, 'm) mand_world_scheme, exn, mandate list) eff" where
  "pg_mand_list_for pc subj = pg_mandates pc (\<lambda>(k, row). mr_subject row = subj)"

definition row_lapsed :: "datetime \<Rightarrow> mandate_row \<Rightarrow> bool" where
  "row_lapsed t row = (mr_status row = mstatus_value ActiveM \<and> mr_expires_at row \<le> t)"

text \<open>\<open>UPDATE ... RETURNING\<close>, in table order.\<close>

definition pg_mand_expire_active :: "pyconv \<Rightarrow> datetime \<Rightarrow> (('x, 'm) mand_world_scheme, exn, mandate list) eff" where
  "pg_mand_expire_active pc t =
     bindE (db_stmt MandateStoreUnavailable (\<lambda>w. Some (
       map (\<lambda>(k, row). (k, row\<lparr>mr_status := mstatus_value ExpiredM\<rparr>)) (filter (\<lambda>(k, row). row_lapsed t row) (w_mand_rows w)),
       w\<lparr>w_mand_rows := map (\<lambda>(k, row). (k, if row_lapsed t row then row\<lparr>mr_status := mstatus_value ExpiredM\<rparr> else row))
         (w_mand_rows w)\<rparr>)))
     (mapE (\<lambda>kr. liftE (mand_from_row pc kr)))"

definition pg_mand_store :: "pyconv \<Rightarrow> ('x, 'm) mand_world_scheme mand_store" where
  "pg_mand_store pc = \<lparr>mst_create = pg_mand_create, mst_get = pg_mand_get pc, mst_update = pg_mand_update,
     mst_list_for = pg_mand_list_for pc, mst_expire_active = pg_mand_expire_active pc\<rparr>"

section \<open>The service\<close>

record ('w, 'b, 'pub, 'priv) mandate_service =
  ms_store :: "'w mand_store"
  ms_tokens :: "('w, 'b, 'pub, 'priv) token_service"
  ms_engine :: "'w authz_engine option"
  ms_audit :: "'w audit_sink"
  ms_max_days :: int
  ms_default_max_token_ttl :: timedelta

definition mandate_event ::
    "event_kind \<Rightarrow> mandate \<Rightarrow> string \<Rightarrow> string \<Rightarrow> (('x, 'm) world_scheme, exn, audit_event) eff" where
  "mandate_event kind m out reason = bindE now (\<lambda>t. bindE uuid4_hex (\<lambda>eid. retE
     \<lparr>ev_kind = kind, ev_timestamp = t, ev_subject = md_subject m, ev_actor = md_agent m, ev_delegation_depth = 0,
      ev_action = ''mandate'', ev_resource = ''mandate:'' @ md_mandate_id m, ev_outcome = out,
      ev_reason = (if reason = [] then out else reason), ev_engine_latency_ms = float_zero,
      ev_token_fingerprint = None, ev_args_hash = None, ev_decision_id = None, ev_event_id = eid\<rparr>))"

definition mandate_record ::
    "(('x, 'm) world_scheme, 'b, 'pub, 'priv) mandate_service \<Rightarrow> event_kind \<Rightarrow> mandate \<Rightarrow> string \<Rightarrow> string
     \<Rightarrow> (('x, 'm) world_scheme, exn, unit) eff" where
  "mandate_record sv kind m out reason = bindE (mandate_event kind m out reason) (ms_audit sv)"

definition denied :: "string \<Rightarrow> ('w, exn, 'a) eff" where
  "denied reason = raiseE (Hoc MandateDenied reason)"

definition require_binding ::
    "('w, 'b, 'pub, 'priv) mandate_service \<Rightarrow> string \<Rightarrow> string \<Rightarrow> ('w, exn, unit) eff" where
  "require_binding sv subj agent = (case ms_engine sv of
     None \<Rightarrow> denied ''engine_unavailable''
   | Some eng \<Rightarrow> bindE (catchE (eng_check eng subj BINDING_RELATION agent)
         (\<lambda>e. if catches HocError e then raiseE e else denied ''engine_unavailable''))
       (\<lambda>bound. if bound then retE () else denied ''not_related''))"

definition mandate_create ::
    "(('x, 'm) world_scheme, 'b, 'pub, 'priv) mandate_service \<Rightarrow> string \<Rightarrow> string \<Rightarrow> scope \<Rightarrow> datetime \<Rightarrow> string
     \<Rightarrow> timedelta option \<Rightarrow> (('x, 'm) world_scheme, exn, mandate) eff" where
  "mandate_create sv subj agent s expires_at created_by max_token_ttl =
     bindE (catchE (bindE (liftE (validate_ref subj ''user'')) (\<lambda>_. liftE (validate_ref agent ''agent'')))
       (\<lambda>e. if catches InvariantViolation e then denied ''invalid_reference'' else raiseE e)) (\<lambda>_.
     if created_by \<noteq> subj then denied ''not_subject''
     else bindE now (\<lambda>t.
     if expires_at \<le> t then denied ''mandate_expired''
     else if expires_at > t + seconds (86400 * ms_max_days sv) then denied ''mandate_too_long''
     else if card s = 0 then denied ''scope_empty''
     else let ttl = ttl_or max_token_ttl (ms_default_max_token_ttl sv) in
     if ttl \<le> 0 then denied ''invalid_ttl''
     else bindE (require_binding sv subj agent) (\<lambda>_.
     bindE uuid4_hex (\<lambda>i.
     let m = \<lparr>md_mandate_id = i, md_subject = subj, md_agent = agent, md_scope = s, md_created_at = t,
              md_expires_at = expires_at, md_max_token_ttl = ttl, md_created_by = created_by, md_status = ActiveM,
              md_revoked_at = None, md_revocation_reason = None\<rparr> in
     bindE (mst_create (ms_store sv) m) (\<lambda>_.
     bindE (mandate_record sv EvMandateCreated m ''created'' ''created'') (\<lambda>_.
     retE m))))))"

definition fresh ::
    "(('x, 'm) world_scheme, 'b, 'pub, 'priv) mandate_service \<Rightarrow> mandate option
     \<Rightarrow> (('x, 'm) world_scheme, exn, mandate option) eff" where
  "fresh sv found = (case found of
     None \<Rightarrow> retE None
   | Some m \<Rightarrow>
     if md_status m \<noteq> ActiveM then retE (Some m)
     else bindE now (\<lambda>t.
     if md_expires_at m \<le> t then
       (let e = md_expired m in
        bindE (mst_update (ms_store sv) e) (\<lambda>_.
        bindE (mandate_record sv EvMandateExpired e ''expired'' ''expired'') (\<lambda>_.
        retE (Some e))))
     else bindE (catchE (service_is_revoked (ms_tokens sv) [md_revocation_id m])
         (\<lambda>e. if catches HocError e then denied ''revocation_store_unavailable'' else raiseE e)) (\<lambda>dead.
       if dead then
         (let r = md_revoked t (Some ''revocation_id_revoked'') m in
          bindE (mst_update (ms_store sv) r) (\<lambda>_.
          bindE (mandate_record sv EvMandateRevoked r ''revoked'' ''revocation_id_revoked'') (\<lambda>_.
          retE (Some r))))
       else retE (Some m))))"

definition mandate_get ::
    "(('x, 'm) world_scheme, 'b, 'pub, 'priv) mandate_service \<Rightarrow> string \<Rightarrow> (('x, 'm) world_scheme, exn, mandate option) eff" where
  "mandate_get sv i = bindE (mst_get (ms_store sv) i) (fresh sv)"

definition mandate_list ::
    "(('x, 'm) world_scheme, 'b, 'pub, 'priv) mandate_service \<Rightarrow> string \<Rightarrow> (('x, 'm) world_scheme, exn, mandate list) eff" where
  "mandate_list sv subj = bindE (mst_list_for (ms_store sv) subj) (\<lambda>ms.
     bindE (mapE (\<lambda>m. fresh sv (Some m)) ms) (\<lambda>fs. retE (List.map_filter id fs)))"

definition mandate_revoke ::
    "(('x, 'm) world_scheme, 'b, 'pub, 'priv) mandate_service \<Rightarrow> string \<Rightarrow> string \<Rightarrow> string
     \<Rightarrow> (('x, 'm) world_scheme, exn, mandate) eff" where
  "mandate_revoke sv i who reason =
     bindE (mst_get (ms_store sv) i) (\<lambda>found. case found of
       None \<Rightarrow> denied ''mandate_unknown''
     | Some m \<Rightarrow>
       if who \<noteq> md_subject m then denied ''not_subject''
       else bindE now (\<lambda>t.
       bindE (revoke_id (ms_tokens sv) (md_revocation_id m) (if reason = [] then ''mandate revoked'' else reason)) (\<lambda>_.
       let r = md_revoked t (if reason = [] then None else Some reason) m in
       bindE (mst_update (ms_store sv) r) (\<lambda>_.
       bindE (mandate_record sv EvMandateRevoked r ''revoked'' reason) (\<lambda>_.
       retE r)))))"

definition mandate_expire ::
    "(('x, 'm) world_scheme, 'b, 'pub, 'priv) mandate_service \<Rightarrow> (('x, 'm) world_scheme, exn, nat) eff" where
  "mandate_expire sv = bindE now (\<lambda>t.
     bindE (mst_expire_active (ms_store sv) t) (\<lambda>late.
     bindE (forE late (\<lambda>m. mandate_record sv EvMandateExpired m ''expired'' ''expired'')) (\<lambda>_.
     retE (length late))))"

text \<open>\<open>min(ttl or mandate.max_token_ttl, mandate.max_token_ttl, mandate.expires_at - now)\<close>\<close>

definition effective_ttl :: "timedelta option \<Rightarrow> mandate \<Rightarrow> datetime \<Rightarrow> timedelta" where
  "effective_ttl ttl m t = min (min (ttl_or ttl (md_max_token_ttl m)) (md_max_token_ttl m)) (md_expires_at m - t)"

definition mandate_issue ::
    "(('x, 'm) world_scheme, 'b, 'pub, 'priv) mandate_service \<Rightarrow> string \<Rightarrow> string \<Rightarrow> scope \<Rightarrow> timedelta option
     \<Rightarrow> (('x, 'm) world_scheme, exn, issued_token) eff" where
  "mandate_issue sv i caller s ttl =
     bindE (mandate_get sv i) (\<lambda>found. case found of
       None \<Rightarrow> denied ''mandate_unknown''
     | Some m \<Rightarrow>
       if md_status m = RevokedM then denied ''mandate_revoked''
       else if md_status m = ExpiredM then denied ''mandate_expired''
       else if caller \<noteq> md_agent m then denied ''mandate_wrong_agent''
       else if \<not> is_subset_of s (md_scope m) then denied ''scope_escalation''
       else bindE (require_binding sv (md_subject m) (md_agent m)) (\<lambda>_.
       bindE now (\<lambda>t.
       bindE (liftE (root_chain (md_subject m) (md_agent m) s)) (\<lambda>c.
       issue (ms_tokens sv) c (Some (effective_ttl ttl m t)) (Some (md_mandate_id m))))))"

section \<open>The contract of a store\<close>

type_synonym mandates = "string \<Rightarrow> mandate option"

text \<open>A mandate the constructors of its scope accepted.\<close>

definition wf_mandate :: "mandate \<Rightarrow> bool" where
  "wf_mandate m \<longleftrightarrow> finite (md_scope m) \<and> (\<forall>c\<in>md_scope m. wf_capability c)"

text \<open>\<open>m\<close> is \<open>m0\<close> up to its status.\<close>

definition with_state_of :: "mandate \<Rightarrow> mandate \<Rightarrow> mandate" where
  "with_state_of m m0 = m0\<lparr>md_status := md_status m, md_revoked_at := md_revoked_at m,
     md_revocation_reason := md_revocation_reason m\<rparr>"

definition spec_mcreate :: "(mandate \<Rightarrow> mandate) \<Rightarrow> mandate \<Rightarrow> mandates \<Rightarrow> unit \<Rightarrow> mandates \<Rightarrow> bool" where
  "spec_mcreate kept md m u m' \<longleftrightarrow> m (md_mandate_id md) = None \<and> m' = m(md_mandate_id md \<mapsto> kept md)"

definition spec_mget :: "string \<Rightarrow> mandates \<Rightarrow> mandate option \<Rightarrow> mandates \<Rightarrow> bool" where
  "spec_mget i m x m' \<longleftrightarrow> m' = m \<and> x = m i"

definition spec_mupdate :: "mandate \<Rightarrow> mandates \<Rightarrow> unit \<Rightarrow> mandates \<Rightarrow> bool" where
  "spec_mupdate md m u m' \<longleftrightarrow> (case m (md_mandate_id md) of
     None \<Rightarrow> m' = m
   | Some m0 \<Rightarrow> \<exists>m1. md_status m1 = md_status md \<and> (with_state_of md m0 = md \<longrightarrow> m1 = md)
       \<and> m' = m(md_mandate_id md \<mapsto> m1))"

definition spec_mlist :: "string \<Rightarrow> mandates \<Rightarrow> mandate list \<Rightarrow> mandates \<Rightarrow> bool" where
  "spec_mlist subj m xs m' \<longleftrightarrow> m' = m \<and> set xs = {md \<in> ran m. md_subject md = subj}"

definition spec_mexpire :: "datetime \<Rightarrow> mandates \<Rightarrow> mandate list \<Rightarrow> mandates \<Rightarrow> bool" where
  "spec_mexpire t m xs m' \<longleftrightarrow> m' = (\<lambda>i. map_option (\<lambda>md. if lapsed t md then md_expired md else md) (m i))
     \<and> set xs = md_expired ` {md \<in> ran m. lapsed t md}"

lemma md_status_with_state_of: "md_status (with_state_of m m0) = md_status m"
  by (simp add: with_state_of_def)

lemma spec_mupdateI:
  "m (md_mandate_id md) = Some m0 \<Longrightarrow> m' = m(md_mandate_id md \<mapsto> with_state_of md m0) \<Longrightarrow> spec_mupdate md m u m'"
  unfolding spec_mupdate_def by (simp, rule exI [of _ "with_state_of md m0"]) (simp add: md_status_with_state_of)

text \<open>The calls of the service: it creates active mandates and updates one only to end it.\<close>

datatype mand_op = MCreate mandate | MGet string | MUpdate mandate | MList string | MExpire datetime

fun service_op :: "mand_op \<Rightarrow> bool" where
  "service_op (MCreate m) = (wf_mandate m \<and> md_status m = ActiveM)"
| "service_op (MUpdate m) = (md_status m \<noteq> ActiveM)"
| "service_op _ = True"

fun run_mop :: "'w mand_store \<Rightarrow> mand_op \<Rightarrow> 'w \<Rightarrow> 'w" where
  "run_mop st (MCreate m) w = snd (mst_create st m w)"
| "run_mop st (MGet i) w = snd (mst_get st i w)"
| "run_mop st (MUpdate m) w = snd (mst_update st m w)"
| "run_mop st (MList s) w = snd (mst_list_for st s w)"
| "run_mop st (MExpire t) w = snd (mst_expire_active st t w)"

definition ended :: "mandates \<Rightarrow> string \<Rightarrow> bool" where
  "ended m i \<longleftrightarrow> (case m i of None \<Rightarrow> False | Some md \<Rightarrow> md_status md \<noteq> ActiveM)"

lemma ended_steps:
  "spec_mcreate kept md m u m' \<Longrightarrow> ended m i \<Longrightarrow> ended m' i"
  "spec_mget j m x m' \<Longrightarrow> ended m i \<Longrightarrow> ended m' i"
  "spec_mupdate md m u m' \<Longrightarrow> md_status md \<noteq> ActiveM \<Longrightarrow> ended m i \<Longrightarrow> ended m' i"
  "spec_mlist subj m xs m' \<Longrightarrow> ended m i \<Longrightarrow> ended m' i"
  "spec_mexpire t m xs m' \<Longrightarrow> ended m i \<Longrightarrow> ended m' i"
  by (auto simp: ended_def spec_mcreate_def spec_mget_def spec_mupdate_def spec_mlist_def spec_mexpire_def md_expired_def
      split: option.splits)

text \<open>An atomic call keeps what every step of its specification keeps, whatever it answers.\<close>

lemma atomic_invariant:
  assumes "atomic view good spec m" "good w" "P (view w)" "\<And>s x s'. spec s x s' \<Longrightarrow> P s \<Longrightarrow> P s'"
  shows "good (snd (m w)) \<and> P (view (snd (m w)))"
proof (cases "m w")
  case (Pair r w')
  then show ?thesis using atomicD [OF assms(1,2)] assms(3,4) by (cases r) (fastforce)+
qed

locale mandate_contract =
  fixes store :: "'w mand_store"
    and mands :: "'w \<Rightarrow> mandates"
    and good :: "'w \<Rightarrow> bool"
    and kept :: "mandate \<Rightarrow> mandate"
  assumes create: "wf_mandate m \<Longrightarrow> atomic mands good (spec_mcreate kept m) (mst_create store m)"
    and get: "atomic mands good (spec_mget i) (mst_get store i)"
    and update: "atomic mands good (spec_mupdate m) (mst_update store m)"
    and list_for: "atomic mands good (spec_mlist subj) (mst_list_for store subj)"
    and expire: "atomic mands good (spec_mexpire t) (mst_expire_active store t)"
    and ids: "good w \<Longrightarrow> mands w i = Some m \<Longrightarrow> md_mandate_id m = i"
begin

lemma ended_stays:
  assumes "good w" "ended (mands w) i" "list_all service_op ops"
  shows "good (fold (run_mop store) ops w) \<and> ended (mands (fold (run_mop store) ops w)) i"
  using assms
proof (induction ops arbitrary: w)
  case (Cons op ops)
  have "good (run_mop store op w) \<and> ended (mands (run_mop store op w)) i"
  proof (cases op)
    case (MCreate m)
    then show ?thesis using atomic_invariant [OF create Cons.prems(1), of m "\<lambda>s. ended s i"] Cons.prems ended_steps(1) by auto
  next
    case (MGet j)
    then show ?thesis using atomic_invariant [OF get Cons.prems(1), of "\<lambda>s. ended s i" j] Cons.prems ended_steps(2) by auto
  next
    case (MUpdate m)
    then show ?thesis using atomic_invariant [OF update Cons.prems(1), of "\<lambda>s. ended s i" m] Cons.prems ended_steps(3) by auto
  next
    case (MList s)
    then show ?thesis using atomic_invariant [OF list_for Cons.prems(1), of "\<lambda>s. ended s i" s] Cons.prems ended_steps(4) by auto
  next
    case (MExpire t)
    then show ?thesis using atomic_invariant [OF expire Cons.prems(1), of "\<lambda>s. ended s i" t] Cons.prems ended_steps(5) by auto
  qed
  then show ?case using Cons by simp
qed simp

text \<open>What \<open>get\<close> hands to the service is the stored mandate.\<close>

lemma get_is:
  assumes "good w" "mst_get store i w = (Inr x, w')"
  shows "x = mands w i" "mands w' = mands w" "good w'"
  using atomicD(1) [OF get assms] by (auto simp: spec_mget_def)

lemma update_is:
  assumes "good w" "mands w i = Some m0" "md_mandate_id m = i" "with_state_of m m0 = m" "mst_update store m w = (Inr u, w')"
  shows "mands w' i = Some m" "good w'"
  using atomicD(1) [OF update assms(1,5)] assms(2-4) by (auto simp: spec_mupdate_def)

end

subsection \<open>The in-memory store satisfies it\<close>

definition mem_mand_good :: "('x, 'm) mand_world_scheme \<Rightarrow> bool" where
  "mem_mand_good w \<longleftrightarrow> distinct (map fst (w_mand_mem w)) \<and>
     (\<forall>k m. map_of (w_mand_mem w) k = Some m \<longrightarrow> md_mandate_id m = k)"

definition mem_mands :: "('x, 'm) mand_world_scheme \<Rightarrow> mandates" where
  "mem_mands w = map_of (w_mand_mem w)"

text \<open>Writing back changed values under their own keys changes the map at those keys.\<close>

lemma map_of_fold_update:
  assumes "\<forall>x\<in>set xs. map_of al0 (key x) = Some x" "\<And>k x. map_of al0 k = Some x \<Longrightarrow> key x = k"
  shows "map_of (fold (\<lambda>x. AList.update (key x) (g x)) xs al) k
    = (case map_of al0 k of Some x \<Rightarrow> if x \<in> set xs then Some (g x) else map_of al k | None \<Rightarrow> map_of al k)"
  using assms(1)
proof (induction xs arbitrary: al)
  case (Cons x xs)
  let ?al = "AList.update (key x) (g x) al"
  have IH: "map_of (fold (\<lambda>x. AList.update (key x) (g x)) xs ?al) k
      = (case map_of al0 k of Some x \<Rightarrow> if x \<in> set xs then Some (g x) else map_of ?al k | None \<Rightarrow> map_of ?al k)"
    by (rule Cons.IH) (use Cons.prems in simp)
  have x: "map_of al0 (key x) = Some x" using Cons.prems by simp
  show ?case
  proof (cases "k = key x")
    case True
    then show ?thesis using IH x by (simp add: map_of_update)
  next
    case False
    then have "map_of al0 k \<noteq> Some x" using assms(2) by blast
    then show ?thesis using IH False by (simp add: map_of_update split: option.splits)
  qed
qed (simp split: option.splits)

lemma mem_mand_expire_map:
  assumes "mem_mand_good w"
  shows "map_of (fold (\<lambda>m. AList.update (md_mandate_id m) m) (map md_expired (filter (lapsed t) (map snd (w_mand_mem w)))) (w_mand_mem w)) k
    = map_option (\<lambda>m. if lapsed t m then md_expired m else m) (map_of (w_mand_mem w) k)"
proof -
  let ?al = "w_mand_mem w"
  have ids: "\<And>k m. map_of ?al k = Some m \<Longrightarrow> md_mandate_id m = k"
    using assms by (auto simp: mem_mand_good_def simp del: map_of_eq_Some_iff)
  have vals: "map_of ?al (md_mandate_id m) = Some m" if "m \<in> snd ` set ?al" for m
  proof -
    from that obtain k where "(k, m) \<in> set ?al" by auto
    then have "map_of ?al k = Some m" using assms by (simp add: mem_mand_good_def)
    then show ?thesis using ids by blast
  qed
  have mem: "m \<in> snd ` set ?al" if "map_of ?al k = Some m" for m using map_of_SomeD [OF that] by force
  have "fold (\<lambda>m. AList.update (md_mandate_id m) m) (map md_expired xs) ?al
      = fold (\<lambda>m. AList.update (md_mandate_id m) (md_expired m)) xs ?al" for xs
    by (simp add: fold_map comp_def md_expired_def)
  note split = this
  show ?thesis unfolding split
    by (subst map_of_fold_update [OF _ ids]) (use vals mem in \<open>auto split: option.splits simp del: map_of_eq_Some_iff\<close>)
qed

lemma mem_mand_ids_kept:
  assumes "mem_mand_good w"
  shows "distinct (map fst (fold (\<lambda>m. AList.update (md_mandate_id m) m) xs (w_mand_mem w)))"
  using assms distinct_fold_update [of "w_mand_mem w" md_mandate_id id xs] by (simp add: mem_mand_good_def)

lemma mem_mand_expire_atomic: "atomic mem_mands mem_mand_good (spec_mexpire t) (mem_mand_expire_active t)"
proof (rule atomicI)
  fix w x and w' :: "('x, 'm) mand_world_scheme" assume w: "mem_mand_good w" and run: "mem_mand_expire_active t w = (Inr x, w')"
  have eq: "mem_mands w' = (\<lambda>i. map_option (\<lambda>md. if lapsed t md then md_expired md else md) (mem_mands w i))"
    using run mem_mand_expire_map [OF w]
    by (auto simp: mem_mand_expire_active_def stateE_def Let_def mem_mands_def fun_eq_iff simp del: map_of_eq_Some_iff)
  have "mem_mand_good w'"
    using run w eq mem_mand_ids_kept [OF w]
    by (auto simp: mem_mand_expire_active_def stateE_def Let_def mem_mand_good_def mem_mands_def md_expired_def simp del: map_of_eq_Some_iff)
  moreover have "set x = md_expired ` {md \<in> ran (mem_mands w). lapsed t md}"
  proof -
    have "x = map md_expired (filter (lapsed t) (map snd (w_mand_mem w)))"
      using run by (auto simp: mem_mand_expire_active_def stateE_def Let_def)
    then show ?thesis using w by (simp add: mem_mands_def ran_map_of mem_mand_good_def)
  qed
  ultimately show "mem_mand_good w' \<and> spec_mexpire t (mem_mands w) x (mem_mands w')" using eq by (simp add: spec_mexpire_def)
qed (simp add: mem_mand_expire_active_def stateE_def Let_def)

interpretation mem_mand: mandate_contract mem_mand_store mem_mands mem_mand_good id
proof
  fix m :: mandate
  show "atomic mem_mands mem_mand_good (spec_mcreate id m) (mst_create mem_mand_store m)"
    by (rule atomicI)
       (auto simp: mem_mand_store_def mem_mand_create_def mem_mand_good_def mem_mands_def spec_mcreate_def
          map_of_update distinct_update split: if_splits simp del: map_of_eq_Some_iff)
  show "atomic mem_mands mem_mand_good (spec_mupdate m) (mst_update mem_mand_store m)"
    by (rule atomicI)
       (auto simp: mem_mand_store_def mem_mand_update_def mem_mand_good_def mem_mands_def spec_mupdate_def
          map_of_update distinct_update split: if_splits simp del: map_of_eq_Some_iff)
next
  fix t
  show "atomic mem_mands mem_mand_good (spec_mexpire t) (mst_expire_active mem_mand_store t)"
    using mem_mand_expire_atomic by (simp add: mem_mand_store_def)
next
  fix subj
  show "atomic mem_mands mem_mand_good (spec_mlist subj) (mst_list_for mem_mand_store subj)"
    by (auto intro!: atomic_getsE simp: mem_mand_store_def mem_mand_list_for_def spec_mlist_def mem_mands_def mem_mand_good_def ran_map_of)
qed (auto intro!: atomic_getsE simp: mem_mand_store_def mem_mand_get_def spec_mget_def mem_mands_def mem_mand_good_def simp del: map_of_eq_Some_iff)

subsection \<open>The Postgres store satisfies it\<close>

text \<open>What a row keeps of a mandate.\<close>

definition kept_seconds :: "mandate \<Rightarrow> mandate" where
  "kept_seconds m = m\<lparr>md_max_token_ttl := seconds (whole_seconds (md_max_token_ttl m))\<rparr>"

lemma mstatus_of_value [simp]: "mstatus_of (mstatus_value s) = Inr s"
  by (cases s) (simp_all add: mstatus_of_def)

lemma capability_json_round_trip:
  "conv_laws pc \<Longrightarrow> wf_capability c \<Longrightarrow>
    capability_of_json pc (JObj [(''kind'', JStr (kind_value (cap_kind c))), (''resource'', JStr (cap_resource c))]) = Inr c"
  using token_capability_ok [of c] by (cases "cap_kind c")
    (simp_all add: capability_of_json_def conv_laws_def token_capability_def kind_of_def)

lemma scope_json_round_trip:
  assumes "conv_laws pc" "finite s" "\<forall>c\<in>s. wf_capability c"
  shows "scope_from_json pc (scope_to_json s) = Inr s"
proof -
  let ?v = "JArr (map (\<lambda>c. JObj [(''kind'', JStr (kind_value (cap_kind c))), (''resource'', JStr (cap_resource c))]) (sorted_scope s))"
  have "loads (scope_to_json s) = Some ?v"
    unfolding scope_to_json_def by (rule loads_json_text [of "[]" "[]"]) (simp_all add: list_all_iff)
  moreover have "sequence_sum (map (\<lambda>c. capability_of_json pc (JObj [(''kind'', JStr (kind_value (cap_kind c))), (''resource'', JStr (cap_resource c))]))
      (sorted_scope s)) = Inr (map id (sorted_scope s))"
    by (rule sequence_sum_all) (use assms capability_json_round_trip in \<open>simp add: sorted_scope_set\<close>)
  ultimately show ?thesis using assms(2) by (simp add: scope_from_json_def json_iter_def comp_def scope_of_def sorted_scope_set)
qed

lemma mand_row_round_trip:
  "conv_laws pc \<Longrightarrow> wf_mandate m \<Longrightarrow> mand_from_row pc (md_mandate_id m, mand_values m) = Inr (kept_seconds m)"
  by (simp add: mand_from_row_def mand_values_def wf_mandate_def scope_json_round_trip kept_seconds_def)

definition pg_mand_good :: "pyconv \<Rightarrow> ('x, 'm) mand_world_scheme \<Rightarrow> bool" where
  "pg_mand_good pc w \<longleftrightarrow> distinct (map fst (w_mand_rows w)) \<and>
     (\<forall>kr\<in>set (w_mand_rows w). \<exists>m. mand_from_row pc kr = Inr m)"

definition pg_mands :: "pyconv \<Rightarrow> ('x, 'm) mand_world_scheme \<Rightarrow> mandates" where
  "pg_mands pc w i = (case map_of (w_mand_rows w) i of None \<Rightarrow> None
     | Some row \<Rightarrow> (case mand_from_row pc (i, row) of Inl e \<Rightarrow> None | Inr m \<Rightarrow> Some m))"

lemma pg_mand_frame [simp]:
  "pg_mands pc (w\<lparr>w_db_at := n\<rparr>) = pg_mands pc w" "pg_mand_good pc (w\<lparr>w_db_at := n\<rparr>) = pg_mand_good pc w"
  "pg_mands pc (w\<lparr>w_clock_at := n\<rparr>) = pg_mands pc w" "pg_mand_good pc (w\<lparr>w_clock_at := n\<rparr>) = pg_mand_good pc w"
  "pg_mands pc (w\<lparr>w_uuid_at := n\<rparr>) = pg_mands pc w" "pg_mand_good pc (w\<lparr>w_uuid_at := n\<rparr>) = pg_mand_good pc w"
  by (simp_all add: pg_mands_def pg_mand_good_def fun_eq_iff)

lemma mand_from_row_id: "mand_from_row pc (i, row) = Inr m \<Longrightarrow> md_mandate_id m = i"
  by (auto simp: mand_from_row_def split: sum.splits)

lemma mand_from_row_state:
  "mand_from_row pc (i, row) = Inr m0 \<Longrightarrow>
    mand_from_row pc (i, row\<lparr>mr_status := mstatus_value s, mr_revoked_at := t, mr_revocation_reason := why\<rparr>)
      = Inr (m0\<lparr>md_status := s, md_revoked_at := t, md_revocation_reason := why\<rparr>)"
  "mand_from_row pc (i, row) = Inr m0 \<Longrightarrow>
    mand_from_row pc (i, row\<lparr>mr_status := mstatus_value s\<rparr>) = Inr (m0\<lparr>md_status := s\<rparr>)"
  by (auto simp: mand_from_row_def split: sum.splits)

text \<open>A statement that changes each row in place by \<open>g\<close> changes each mandate by \<open>f\<close>.\<close>

lemma pg_mand_rows_map:
  assumes "pg_mand_good pc w"
    and "\<And>k row m. mand_from_row pc (k, row) = Inr m \<Longrightarrow> mand_from_row pc (k, g k row) = Inr (f m)"
  shows "pg_mand_good pc (w\<lparr>w_mand_rows := map (\<lambda>(k, row). (k, g k row)) (w_mand_rows w)\<rparr>)
    \<and> pg_mands pc (w\<lparr>w_mand_rows := map (\<lambda>(k, row). (k, g k row)) (w_mand_rows w)\<rparr>) = (\<lambda>i. map_option f (pg_mands pc w i))"
proof -
  have ok: "\<forall>kr\<in>set rows. \<exists>m. mand_from_row pc kr = Inr m \<Longrightarrow>
      (\<forall>kr\<in>set (map (\<lambda>(k, row). (k, g k row)) rows). \<exists>m. mand_from_row pc kr = Inr m) \<and>
      (case map_of (map (\<lambda>(k, row). (k, g k row)) rows) i of None \<Rightarrow> None
        | Some row \<Rightarrow> (case mand_from_row pc (i, row) of Inl e \<Rightarrow> None | Inr m \<Rightarrow> Some m))
      = map_option f (case map_of rows i of None \<Rightarrow> None
        | Some row \<Rightarrow> (case mand_from_row pc (i, row) of Inl e \<Rightarrow> None | Inr m \<Rightarrow> Some m))" for rows i
    by (induction rows) (use assms(2) in \<open>fastforce\<close>)+
  have "map fst (map (\<lambda>(k, row). (k, g k row)) (w_mand_rows w)) = map fst (w_mand_rows w)" by (induction "w_mand_rows w") auto
  then show ?thesis using assms(1) ok [of "w_mand_rows w"]
    by (simp add: pg_mand_good_def pg_mands_def fun_eq_iff split_def comp_def)
qed

lemma mapE_mand_rows:
  "\<forall>kr\<in>set rows. mand_from_row pc kr = Inr (f kr) \<Longrightarrow> mapE (\<lambda>kr. liftE (mand_from_row pc kr)) rows = retE (map f rows)"
  by (induction rows) (simp_all add: liftE_def retE_def bindE_def fun_eq_iff)

text \<open>The rows a query selects decode to the mandates of the view.\<close>

lemma pg_mand_rows_view:
  assumes "pg_mand_good pc w"
  shows "ran (pg_mands pc w) = (\<lambda>kr. projr (mand_from_row pc kr)) ` set (w_mand_rows w)"
    "(k, row) \<in> set (w_mand_rows w) \<Longrightarrow> pg_mands pc w k = Some (projr (mand_from_row pc (k, row)))"
proof -
  have d: "distinct (map fst (w_mand_rows w))" "\<And>kr. kr \<in> set (w_mand_rows w) \<Longrightarrow> \<exists>m. mand_from_row pc kr = Inr m"
    using assms by (auto simp: pg_mand_good_def)
  show one: "pg_mands pc w k = Some (projr (mand_from_row pc (k, row)))" if "(k, row) \<in> set (w_mand_rows w)" for k row
    using d(1) d(2) [OF that] that by (auto simp: pg_mands_def)
  show "ran (pg_mands pc w) = (\<lambda>kr. projr (mand_from_row pc kr)) ` set (w_mand_rows w)"
  proof
    show "ran (pg_mands pc w) \<subseteq> (\<lambda>kr. projr (mand_from_row pc kr)) ` set (w_mand_rows w)"
    proof
      fix m assume "m \<in> ran (pg_mands pc w)"
      then obtain k row where "map_of (w_mand_rows w) k = Some row" "pg_mands pc w k = Some m"
        by (auto simp: ran_def pg_mands_def split: option.splits)
      then show "m \<in> (\<lambda>kr. projr (mand_from_row pc kr)) ` set (w_mand_rows w)"
        using map_of_SomeD one by (intro image_eqI [of _ _ "(k, row)"]) fastforce+
    qed
    show "(\<lambda>kr. projr (mand_from_row pc kr)) ` set (w_mand_rows w) \<subseteq> ran (pg_mands pc w)"
      using one by (auto simp: ran_def)
  qed
qed

lemma pg_mandates_atomic:
  assumes "\<And>(w :: ('x, 'm) mand_world_scheme) xs. pg_mand_good pc w \<Longrightarrow> set xs = (\<lambda>kr. projr (mand_from_row pc kr)) ` {kr \<in> set (w_mand_rows w). cond kr} \<Longrightarrow>
      length xs = length (filter cond (w_mand_rows w)) \<Longrightarrow> spec (pg_mands pc w) xs (pg_mands pc w)"
  shows "atomic (pg_mands pc :: ('x, 'm) mand_world_scheme \<Rightarrow> mandates) (pg_mand_good pc) spec (pg_mandates pc cond)"
proof -
  let ?q = "\<lambda>w. sort_key (\<lambda>(i, row). mr_created_at row) (filter cond (w_mand_rows w))"
  let ?f = "\<lambda>kr. projr (mand_from_row pc kr)"
  let ?spec = "\<lambda>m rows m'. m' = m \<and> (\<forall>kr\<in>set rows. mand_from_row pc kr = Inr (?f kr)) \<and> spec m (map ?f rows) m"
  have "atomic (pg_mands pc :: ('x, 'm) mand_world_scheme \<Rightarrow> mandates) (pg_mand_good pc) ?spec (db_query MandateStoreUnavailable ?q)"
  proof (rule atomic_db_query)
    fix w :: "('x, 'm) mand_world_scheme" assume w: "pg_mand_good pc w"
    have "spec (pg_mands pc w) (map ?f (?q w)) (pg_mands pc w)" by (rule assms [OF w]) auto
    moreover have "\<forall>kr\<in>set (?q w). mand_from_row pc kr = Inr (?f kr)" using w by (auto simp: pg_mand_good_def)
    ultimately show "?spec (pg_mands pc w) (?q w) (pg_mands pc w)" by blast
  qed simp_all
  then show ?thesis unfolding pg_mandates_def
    by (rule atomic_bind_pure) (auto simp: mapE_mand_rows wp_retE)
qed

lemma pg_mand_get_atomic:
  "atomic (pg_mands pc :: ('x, 'm) mand_world_scheme \<Rightarrow> mandates) (pg_mand_good pc) (spec_mget i) (pg_mand_get pc i)"
proof -
  let ?spec = "\<lambda>m xs m'. m' = m \<and> (case xs of [] \<Rightarrow> None | md # _ \<Rightarrow> Some md) = m i"
  have "atomic (pg_mands pc :: ('x, 'm) mand_world_scheme \<Rightarrow> mandates) (pg_mand_good pc) ?spec (pg_mandates pc (\<lambda>(k, row). k = i))"
  proof (rule pg_mandates_atomic, rule conjI [OF refl])
    fix w :: "('x, 'm) mand_world_scheme" and xs
    assume w: "pg_mand_good pc w"
      and xs: "set xs = (\<lambda>kr. projr (mand_from_row pc kr)) ` {kr \<in> set (w_mand_rows w). case kr of (k, row) \<Rightarrow> k = i}"
        "length xs = length (filter (\<lambda>(k, row). k = i) (w_mand_rows w))"
    show "(case xs of [] \<Rightarrow> None | md # _ \<Rightarrow> Some md) = pg_mands pc w i"
    proof (cases xs)
      case Nil
      then have "map_of (w_mand_rows w) i = None" using xs(1) by (auto simp: map_of_eq_None_iff)
      then show ?thesis using Nil by (simp add: pg_mands_def)
    next
      case (Cons x ys)
      then have "x \<in> set xs" by simp
      then obtain row where "(i, row) \<in> set (w_mand_rows w)" "x = projr (mand_from_row pc (i, row))" using xs(1) by auto
      then show ?thesis using pg_mand_rows_view(2) [OF w] Cons by simp
    qed
  qed
  then show ?thesis unfolding pg_mand_get_def
    by (rule atomic_bind_pure) (auto simp: wp_retE spec_mget_def)
qed

lemma pg_mand_update_atomic:
  "atomic (pg_mands pc :: ('x, 'm) mand_world_scheme \<Rightarrow> mandates) (pg_mand_good pc) (spec_mupdate md) (pg_mand_update md)"
  unfolding pg_mand_update_def
proof (rule atomic_db_stmt)
  fix w :: "('x, 'm) mand_world_scheme" and x w'
  let ?i = "md_mandate_id md" and ?f = "\<lambda>m0. if md_mandate_id m0 = md_mandate_id md then with_state_of md m0 else m0"
  let ?g = "\<lambda>k row. if k = ?i then row\<lparr>mr_status := mstatus_value (md_status md), mr_revoked_at := md_revoked_at md,
           mr_revocation_reason := md_revocation_reason md\<rparr> else row"
  assume w: "pg_mand_good pc w"
    and w': "Some ((), w\<lparr>w_mand_rows := map (\<lambda>(k, row). (k, ?g k row)) (w_mand_rows w)\<rparr>) = Some (x, w')"
  have "mand_from_row pc (k, ?g k row) = Inr (?f m)" if "mand_from_row pc (k, row) = Inr m" for k row m
    using mand_from_row_state(1) [OF that, where s = "md_status md" and t = "md_revoked_at md" and why = "md_revocation_reason md"]
      mand_from_row_id [OF that] that by (auto simp: with_state_of_def)
  from pg_mand_rows_map [OF w this] w' have "pg_mand_good pc w'" "pg_mands pc w' = (\<lambda>i. map_option ?f (pg_mands pc w i))" by auto
  moreover have "(\<lambda>i. map_option ?f (pg_mands pc w i))
      = (case pg_mands pc w ?i of None \<Rightarrow> pg_mands pc w | Some m0 \<Rightarrow> (pg_mands pc w)(?i \<mapsto> with_state_of md m0))"
  proof
    fix i
    show "map_option ?f (pg_mands pc w i)
        = (case pg_mands pc w ?i of None \<Rightarrow> pg_mands pc w | Some m0 \<Rightarrow> (pg_mands pc w)(?i \<mapsto> with_state_of md m0)) i"
    proof (cases "pg_mands pc w i")
      case None
      then show ?thesis by (auto split: option.splits)
    next
      case (Some m)
      have "md_mandate_id m = i"
        using Some mand_from_row_id by (auto simp: pg_mands_def split: option.splits sum.splits)
      then show ?thesis using Some by (cases "i = ?i") (simp_all split: option.split)
    qed
  qed
  ultimately show "pg_mand_good pc w' \<and> spec_mupdate md (pg_mands pc w) x (pg_mands pc w')"
    by (cases "pg_mands pc w ?i") (simp add: spec_mupdate_def, simp add: spec_mupdateI)
qed simp_all

lemma pg_mand_create_atomic:
  assumes "conv_laws pc" "wf_mandate md"
  shows "atomic (pg_mands pc :: ('x, 'm) mand_world_scheme \<Rightarrow> mandates) (pg_mand_good pc) (spec_mcreate kept_seconds md) (pg_mand_create md)"
  unfolding pg_mand_create_def
proof (rule atomic_db_stmt)
  fix w :: "('x, 'm) mand_world_scheme" and x w'
  let ?i = "md_mandate_id md"
  assume w: "pg_mand_good pc w"
    and st: "(if map_of (w_mand_rows w) ?i \<noteq> None \<or> \<not> int4 (whole_seconds (md_max_token_ttl md)) then None
        else Some ((), w\<lparr>w_mand_rows := w_mand_rows w @ [(?i, mand_values md)]\<rparr>)) = Some (x, w')"
  then have new: "map_of (w_mand_rows w) ?i = None" and w': "w' = w\<lparr>w_mand_rows := w_mand_rows w @ [(?i, mand_values md)]\<rparr>"
    by (auto split: if_splits)
  have "?i \<notin> fst ` set (w_mand_rows w)" using new by (simp add: map_of_eq_None_iff)
  then have "pg_mand_good pc w'"
    using w mand_row_round_trip [OF assms] by (auto simp: pg_mand_good_def w')
  moreover have "pg_mands pc w' = (pg_mands pc w)(?i \<mapsto> kept_seconds md)"
    using new mand_row_round_trip [OF assms] by (auto simp: pg_mands_def w' map_add_def fun_eq_iff split: option.splits)
  ultimately show "pg_mand_good pc w' \<and> spec_mcreate kept_seconds md (pg_mands pc w) x (pg_mands pc w')"
    using new by (simp add: spec_mcreate_def pg_mands_def)
qed simp_all

lemma pg_mand_expire_atomic:
  "atomic (pg_mands pc :: ('x, 'm) mand_world_scheme \<Rightarrow> mandates) (pg_mand_good pc) (spec_mexpire t) (pg_mand_expire_active pc t)"
proof -
  let ?e = "\<lambda>row. row\<lparr>mr_status := mstatus_value ExpiredM\<rparr>" and ?p = "\<lambda>kr. projr (mand_from_row pc kr)"
  let ?g = "\<lambda>k row. if row_lapsed t row then ?e row else row"
  let ?stmt = "\<lambda>w. Some (map (\<lambda>(k, row). (k, ?e row)) (filter (\<lambda>(k, row). row_lapsed t row) (w_mand_rows w)),
       w\<lparr>w_mand_rows := map (\<lambda>(k, row). (k, ?g k row)) (w_mand_rows w)\<rparr>)"
  let ?spec = "\<lambda>m rows m'. (\<forall>kr\<in>set rows. mand_from_row pc kr = Inr (?p kr)) \<and> spec_mexpire t m (map ?p rows) m'"
  have lapse: "row_lapsed t row \<longleftrightarrow> lapsed t m" if "mand_from_row pc (k, row) = Inr m" for k row m
    using that by (auto simp: row_lapsed_def lapsed_def mand_from_row_def mstatus_of_def split: sum.splits if_splits)
  have "atomic (pg_mands pc :: ('x, 'm) mand_world_scheme \<Rightarrow> mandates) (pg_mand_good pc) ?spec (db_stmt MandateStoreUnavailable ?stmt)"
  proof (rule atomic_db_stmt)
    fix w :: "('x, 'm) mand_world_scheme" and x w' assume w: "pg_mand_good pc w" and st: "?stmt w = Some (x, w')"
    have row: "mand_from_row pc (k, ?g k row) = Inr (if lapsed t m then md_expired m else m)" if "mand_from_row pc (k, row) = Inr m" for k row m
      using mand_from_row_state(2) [OF that, of ExpiredM] lapse [OF that] that by (simp add: md_expired_def)
    have post: "pg_mand_good pc w'" "pg_mands pc w' = (\<lambda>i. map_option (\<lambda>m. if lapsed t m then md_expired m else m) (pg_mands pc w i))"
      using pg_mand_rows_map [OF w row] st by auto
    have decode: "mand_from_row pc kr = Inr (?p kr)" if "kr \<in> set (w_mand_rows w)" for kr
      using w that by (auto simp: pg_mand_good_def)
    have ex: "mand_from_row pc (k, ?e row) = Inr (md_expired (?p (k, row)))" "row_lapsed t row \<longleftrightarrow> lapsed t (?p (k, row))"
      if "(k, row) \<in> set (w_mand_rows w)" for k row
      using mand_from_row_state(2) [OF decode [OF that], of ExpiredM] lapse [OF decode [OF that]] by (simp_all add: md_expired_def)
    have x: "x = map (\<lambda>(k, row). (k, ?e row)) (filter (\<lambda>(k, row). row_lapsed t row) (w_mand_rows w))" using st by simp
    have "set (map ?p x) = md_expired ` {m \<in> ran (pg_mands pc w). lapsed t m}"
      unfolding x pg_mand_rows_view(1) [OF w] using ex by (force simp: image_iff)
    moreover have "\<forall>kr\<in>set x. mand_from_row pc kr = Inr (?p kr)" unfolding x using ex(1) by auto
    ultimately show "pg_mand_good pc w' \<and> ?spec (pg_mands pc w) x (pg_mands pc w')" using post by (simp add: spec_mexpire_def)
  qed simp_all
  then show ?thesis unfolding pg_mand_expire_active_def
    by (rule atomic_bind_pure) (auto simp: mapE_mand_rows wp_retE)
qed

lemma pg_mand_list_atomic:
  "atomic (pg_mands pc :: ('x, 'm) mand_world_scheme \<Rightarrow> mandates) (pg_mand_good pc) (spec_mlist subj) (pg_mand_list_for pc subj)"
  unfolding pg_mand_list_for_def
proof (rule pg_mandates_atomic)
  fix w :: "('x, 'm) mand_world_scheme" and xs
  assume w: "pg_mand_good pc w"
    and xs: "set xs = (\<lambda>kr. projr (mand_from_row pc kr)) ` {kr \<in> set (w_mand_rows w). case kr of (k, row) \<Rightarrow> mr_subject row = subj}"
  have "mr_subject row = md_subject (projr (mand_from_row pc (k, row)))" if "(k, row) \<in> set (w_mand_rows w)" for k row
    using w that by (force simp: pg_mand_good_def mand_from_row_def split: sum.splits)
  then show "spec_mlist subj (pg_mands pc w) xs (pg_mands pc w)"
    unfolding spec_mlist_def xs pg_mand_rows_view(1) [OF w] by (auto simp: image_iff)
qed

lemma pg_mand_contract:
  assumes "conv_laws pc"
  shows "mandate_contract (pg_mand_store pc) (pg_mands pc) (pg_mand_good pc) kept_seconds"
proof
  fix m assume "wf_mandate m"
  then show "atomic (pg_mands pc) (pg_mand_good pc) (spec_mcreate kept_seconds m) (mst_create (pg_mand_store pc) m)"
    using pg_mand_create_atomic [OF assms] by (simp add: pg_mand_store_def)
next
  fix w i m assume "pg_mands pc w i = Some m"
  then show "md_mandate_id m = i" using mand_from_row_id by (auto simp: pg_mands_def split: option.splits sum.splits)
qed (simp_all add: pg_mand_store_def pg_mand_get_atomic pg_mand_update_atomic pg_mand_expire_atomic pg_mand_list_atomic)

text \<open>The conversions of the standard library satisfy \<open>conv_laws\<close>.\<close>

interpretation pg_mand: mandate_contract "pg_mand_store std_conv" "pg_mands std_conv" "pg_mand_good std_conv" kept_seconds
  by (rule pg_mand_contract [OF std_conv_laws])

section \<open>Runs of the service\<close>

lemma md_ended [simp]: "md_status (md_expired m) = ExpiredM" "md_status (md_revoked t r m) = RevokedM"
  by (simp_all add: md_expired_def md_revoked_def)

lemma md_revoked_changes: "md_status m = ActiveM \<Longrightarrow> md_revoked t r m \<noteq> m"
  by (metis md_ended(2) mandate_status.distinct(1))

lemma bindE_now: "bindE now f w = f (w_clock w (w_clock_at w)) (w\<lparr>w_clock_at := Suc (w_clock_at w)\<rparr>)"
  by (simp add: bindE_def now_def stateE_def)

lemma fresh_active:
  assumes "fresh sv found w = (Inr (Some m'), w')" "md_status m' = ActiveM"
  shows "found = Some m'" "w_clock w (w_clock_at w) < md_expires_at m'"
    "service_is_revoked (ms_tokens sv) [md_revocation_id m'] (w\<lparr>w_clock_at := Suc (w_clock_at w)\<rparr>) = (Inr False, w')"
  using assms md_revoked_changes
  by (auto simp: fresh_def bindE_Inr retE_def now_def stateE_def catchE_def denied_def raiseE_def Let_def
      split: option.splits if_splits prod.splits sum.splits)

lemma issue_fields:
  assumes "issue svc c ttl mid w = (Inr i, w')"
  shows "it_chain i = c" "it_mandate_id i = mid" "chain_depth c = 0"
    "it_expires_at i = w_clock w (w_clock_at w) + ttl_or ttl (tk_ttl svc)"
    "mid = Some k \<Longrightarrow> mandate_revocation_id k \<in> set (it_revocation_ids i)"
  using assms by (auto simp: issue_def bindE_Inr now_def stateE_def Let_def retE_def raiseE_def with_mandate_def split: if_splits)

lemma require_binding_run:
  assumes "require_binding sv subj agent w = (Inr u, w')"
  obtains eng where "ms_engine sv = Some eng" "eng_check eng subj BINDING_RELATION agent w = (Inr True, w')"
  using assms by (auto simp: require_binding_def bindE_Inr catchE_def denied_def raiseE_def retE_def
      split: option.splits if_splits prod.splits sum.splits)

lemma mandate_issue_run:
  assumes "mandate_issue sv i caller s ttl w = (Inr tok, w')"
  obtains m wa wb eng wc c where
    "mst_get (ms_store sv) i w = (Inr (Some m), wa)" "md_status m = ActiveM" "w_clock wa (w_clock_at wa) < md_expires_at m"
    "service_is_revoked (ms_tokens sv) [md_revocation_id m] (wa\<lparr>w_clock_at := Suc (w_clock_at wa)\<rparr>) = (Inr False, wb)"
    "caller = md_agent m" "is_subset_of s (md_scope m)" "ms_engine sv = Some eng"
    "eng_check eng (md_subject m) BINDING_RELATION (md_agent m) wb = (Inr True, wc)"
    "root_chain (md_subject m) (md_agent m) s = Inr c"
    "issue (ms_tokens sv) c (Some (effective_ttl ttl m (w_clock wc (w_clock_at wc)))) (Some (md_mandate_id m))
       (wc\<lparr>w_clock_at := Suc (w_clock_at wc)\<rparr>) = (Inr tok, w')"
proof -
  obtain found wa out wb where g: "mst_get (ms_store sv) i w = (Inr found, wa)" "fresh sv found wa = (Inr out, wb)"
      and rest0: "(case out of None \<Rightarrow> denied ''mandate_unknown'' | Some m \<Rightarrow>
       if md_status m = RevokedM then denied ''mandate_revoked''
       else if md_status m = ExpiredM then denied ''mandate_expired''
       else if caller \<noteq> md_agent m then denied ''mandate_wrong_agent''
       else if \<not> is_subset_of s (md_scope m) then denied ''scope_escalation''
       else bindE (require_binding sv (md_subject m) (md_agent m)) (\<lambda>_. bindE now (\<lambda>t.
         bindE (liftE (root_chain (md_subject m) (md_agent m) s)) (\<lambda>c.
         issue (ms_tokens sv) c (Some (effective_ttl ttl m t)) (Some (md_mandate_id m)))))) wb = (Inr tok, w')"
    using assms unfolding mandate_issue_def mandate_get_def bindE_assoc
    unfolding bindE_Inr [of "mst_get (ms_store sv) i"] bindE_Inr [of "fresh sv _"] by (elim exE conjE)
  obtain m where out: "out = Some m" using rest0 by (cases out) (simp_all add: denied_def raiseE_def)
  have m: "md_status m = ActiveM" "caller = md_agent m" "is_subset_of s (md_scope m)"
    using rest0 unfolding out by (cases "md_status m"; auto simp: denied_def raiseE_def split: if_splits)+
  have rest: "bindE (require_binding sv (md_subject m) (md_agent m)) (\<lambda>_. bindE now (\<lambda>t.
         bindE (liftE (root_chain (md_subject m) (md_agent m) s)) (\<lambda>c.
         issue (ms_tokens sv) c (Some (effective_ttl ttl m t)) (Some (md_mandate_id m))))) wb = (Inr tok, w')"
    using rest0 m unfolding out by simp
  obtain wc where b: "require_binding sv (md_subject m) (md_agent m) wb = (Inr (), wc)"
      and fin: "bindE (liftE (root_chain (md_subject m) (md_agent m) s)) (\<lambda>c.
         issue (ms_tokens sv) c (Some (effective_ttl ttl m (w_clock wc (w_clock_at wc)))) (Some (md_mandate_id m)))
         (wc\<lparr>w_clock_at := Suc (w_clock_at wc)\<rparr>) = (Inr tok, w')"
    using rest by (auto simp: bindE_Inr [of "require_binding _ _ _"] bindE_now)
  obtain c where c: "root_chain (md_subject m) (md_agent m) s = Inr c"
      "issue (ms_tokens sv) c (Some (effective_ttl ttl m (w_clock wc (w_clock_at wc)))) (Some (md_mandate_id m))
         (wc\<lparr>w_clock_at := Suc (w_clock_at wc)\<rparr>) = (Inr tok, w')"
    using fin by (cases "root_chain (md_subject m) (md_agent m) s") (auto simp: bindE_def liftE_def)
  obtain eng where "ms_engine sv = Some eng" "eng_check eng (md_subject m) BINDING_RELATION (md_agent m) wb = (Inr True, wc)"
    using b by (rule require_binding_run)
  then show ?thesis using that g(1) fresh_active [OF g(2) [unfolded out] m(1)] m c by simp
qed

lemma keeps_pg_mand_get:
  "(\<And>w. f (w\<lparr>w_db_at := Suc (w_db_at w)\<rparr>) = f w) \<Longrightarrow> keeps f (pg_mand_get pc i)"
  by (simp add: pg_mand_get_def pg_mandates_def keeps_rules)

lemma keeps_revoke_id:
  assumes "\<And>w. f (w\<lparr>w_clock_at := Suc (w_clock_at w)\<rparr>) = f w" "\<And>w. f (w\<lparr>w_uuid_at := Suc (w_uuid_at w)\<rparr>) = f w"
    and "\<And>t. keeps f (rs_revoke (tk_revocations svc) i reason t)" "\<And>e. keeps f (tk_audit svc e)"
  shows "keeps f (revoke_id svc i reason)"
  using assms by (simp add: revoke_id_def keeps_rules)

lemma keeps_mandate_record:
  assumes "\<And>w. f (w\<lparr>w_clock_at := Suc (w_clock_at w)\<rparr>) = f w" "\<And>w. f (w\<lparr>w_uuid_at := Suc (w_uuid_at w)\<rparr>) = f w"
    and "\<And>e. keeps f (ms_audit sv e)"
  shows "keeps f (mandate_record sv kind m out reason)"
  using assms by (simp add: mandate_record_def mandate_event_def keeps_rules)

lemma pg_mands_rows: "w_mand_rows w = w_mand_rows w' \<Longrightarrow> pg_mands pc w = pg_mands pc w'"
  by (simp add: pg_mands_def fun_eq_iff)

lemma pg_mand_good_rows: "w_mand_rows w = w_mand_rows w' \<Longrightarrow> pg_mand_good pc w = pg_mand_good pc w'"
  by (simp add: pg_mand_good_def)

text \<open>While the revocation id of a mandate is revoked the service issues nothing under it.\<close>

lemma revoked_mandate_issues_nothing:
  assumes "ms_store sv = pg_mand_store pc" "tk_revocations (ms_tokens sv) = pg_revocations"
    and "pg_mand_good pc w" "mandate_revocation_id i \<in> pg_revoked w"
  shows "mandate_issue sv i caller s ttl w \<noteq> (Inr tok, w')"
proof
  assume "mandate_issue sv i caller s ttl w = (Inr tok, w')"
  then obtain m wa wb where get: "mst_get (ms_store sv) i w = (Inr (Some m), wa)"
      and alive: "service_is_revoked (ms_tokens sv) [md_revocation_id m] (wa\<lparr>w_clock_at := Suc (w_clock_at wa)\<rparr>) = (Inr False, wb)"
    by (rule mandate_issue_run)
  from get have run: "pg_mand_get pc i w = (Inr (Some m), wa)" by (simp add: assms(1) pg_mand_store_def)
  have "md_mandate_id m = i"
    using atomicD(1) [OF pg_mand_get_atomic assms(3) run] mand_from_row_id
    by (auto simp: spec_mget_def pg_mands_def split: option.splits sum.splits)
  moreover have "w_revoked_rows wa = w_revoked_rows w" using keepsD [OF keeps_pg_mand_get run, of w_revoked_rows] by simp
  ultimately have "md_revocation_id m \<in> pg_revoked (wa\<lparr>w_clock_at := Suc (w_clock_at wa)\<rparr>)"
    using assms(4) by (simp add: md_revocation_id_def pg_revoked_def)
  from pg_revocations.never_alive [OF this, of "[md_revocation_id m]"] alive show False
    by (auto simp: service_is_revoked_def assms(2) catchE_def raiseE_def split: prod.splits sum.splits if_splits)
qed

section \<open>Properties\<close>

text \<open>
  C19: a token under a mandate rests on every ground of it. If \<open>issue\<close> returns a token for a mandate, the
  stored mandate was active and not past its date, its revocation id was not revoked, the caller is its
  agent, the requested scope is within its scope, and the engine related the subject to the agent in
  this call. The token is a root token for the subject, the agent and the requested scope, carries the
  mandate and its revocation id, and lives at most the mandate's cap and at most until the mandate's
  end, up to the time that passed between the two readings of the clock; a remaining time of zero gets
  the default lifetime instead.
\<close>

theorem mandate_token_grounds:
  assumes "ms_store sv = pg_mand_store pc" "tk_revocations (ms_tokens sv) = pg_revocations" "pg_mand_good pc w"
    and run: "mandate_issue sv i caller s ttl w = (Inr tok, w')"
  shows "\<exists>m eng wb wc. pg_mands pc w i = Some m \<and> md_status m = ActiveM \<and> w_clock w (w_clock_at w) < md_expires_at m
    \<and> md_revocation_id m \<notin> pg_revoked w \<and> caller = md_agent m \<and> is_subset_of s (md_scope m)
    \<and> ms_engine sv = Some eng \<and> eng_check eng (md_subject m) BINDING_RELATION caller wb = (Inr True, wc)
    \<and> root_chain (md_subject m) caller s = Inr (it_chain tok)
    \<and> it_mandate_id tok = Some i \<and> md_revocation_id m \<in> set (it_revocation_ids tok)
    \<and> (let t = w_clock wc (w_clock_at wc); t' = w_clock wc (Suc (w_clock_at wc)) in
        if effective_ttl ttl m t = 0 then it_expires_at tok = t' + tk_ttl (ms_tokens sv)
        else it_expires_at tok \<le> t' + md_max_token_ttl m \<and> it_expires_at tok \<le> md_expires_at m + (t' - t))"
  using run
proof (rule mandate_issue_run)
  fix m wa wb eng wc c
  assume get: "mst_get (ms_store sv) i w = (Inr (Some m), wa)" and act: "md_status m = ActiveM"
    and live: "w_clock wa (w_clock_at wa) < md_expires_at m"
    and alive: "service_is_revoked (ms_tokens sv) [md_revocation_id m] (wa\<lparr>w_clock_at := Suc (w_clock_at wa)\<rparr>) = (Inr False, wb)"
    and who: "caller = md_agent m" "is_subset_of s (md_scope m)" "ms_engine sv = Some eng"
      "eng_check eng (md_subject m) BINDING_RELATION (md_agent m) wb = (Inr True, wc)"
      "root_chain (md_subject m) (md_agent m) s = Inr c"
    and iss: "issue (ms_tokens sv) c (Some (effective_ttl ttl m (w_clock wc (w_clock_at wc)))) (Some (md_mandate_id m))
       (wc\<lparr>w_clock_at := Suc (w_clock_at wc)\<rparr>) = (Inr tok, w')"
  from get have g: "pg_mand_get pc i w = (Inr (Some m), wa)" by (simp add: assms(1) pg_mand_store_def)
  have m: "pg_mands pc w i = Some m" using atomicD(1) [OF pg_mand_get_atomic assms(3) g] by (simp add: spec_mget_def)
  have id: "md_mandate_id m = i" using m mand_from_row_id by (auto simp: pg_mands_def split: option.splits sum.splits)
  note frame = keepsD [OF keeps_pg_mand_get g]
  have clock: "w_clock wa = w_clock w" "w_clock_at wa = w_clock_at w" "w_revoked_rows wa = w_revoked_rows w"
    using frame [of w_clock] frame [of w_clock_at] frame [of w_revoked_rows] by simp_all
  have "md_revocation_id m \<notin> pg_revoked w"
    using pg_revocations.never_alive [of "md_revocation_id m" "wa\<lparr>w_clock_at := Suc (w_clock_at wa)\<rparr>" "[md_revocation_id m]"] alive clock(3)
    by (auto simp: service_is_revoked_def assms(2) catchE_def raiseE_def pg_revoked_def split: prod.splits sum.splits if_splits)
  note f = issue_fields [OF iss]
  have exp: "it_expires_at tok = w_clock wc (Suc (w_clock_at wc)) + ttl_or (Some (effective_ttl ttl m (w_clock wc (w_clock_at wc)))) (tk_ttl (ms_tokens sv))"
    using f(4) by simp
  show ?thesis
  proof (intro exI conjI)
    show "let t = w_clock wc (w_clock_at wc); t' = w_clock wc (Suc (w_clock_at wc)) in
        if effective_ttl ttl m t = 0 then it_expires_at tok = t' + tk_ttl (ms_tokens sv)
        else it_expires_at tok \<le> t' + md_max_token_ttl m \<and> it_expires_at tok \<le> md_expires_at m + (t' - t)"
      using exp by (auto simp: Let_def ttl_or_def effective_ttl_def)
    show "md_revocation_id m \<in> set (it_revocation_ids tok)" using f(5) by (simp add: md_revocation_id_def)
  qed (use m act live clock who id f \<open>md_revocation_id m \<notin> pg_revoked w\<close> in simp_all)
qed

text \<open>
  C20: revoking a mandate ends it and everything issued under it. When \<open>revoke\<close> returns, the caller was
  the subject, the stored mandate is revoked, and from then on, while the table of revocations only
  grows, no token is issued under the mandate and no token that names it passes \<open>verify\<close>.
\<close>

theorem mandate_revocation_kills:
  fixes sv :: "(('x, 'm) mand_world_scheme, 'b, 'pub, 'priv) mandate_service"
  assumes stores: "ms_store sv = pg_mand_store pc" "tk_revocations (ms_tokens sv) = pg_revocations"
    and audit: "\<And>e. keeps w_mand_rows (tk_audit (ms_tokens sv) e)" "\<And>e. keeps w_revoked_rows (tk_audit (ms_tokens sv) e)"
      "\<And>e. keeps w_mand_rows (ms_audit sv e)" "\<And>e. keeps w_revoked_rows (ms_audit sv e)"
    and w0: "pg_mand_good pc w0" and run: "mandate_revoke sv i who reason w0 = (Inr r, w1)"
    and later: "pg_mand_good pc w" "pg_revoked w1 \<subseteq> pg_revoked w"
    and tok: "load (tk_lib (ms_tokens sv)) (tk_keyring (ms_tokens sv)) token = Inr l" "ld_mandate_id l = Some i"
  shows "who = md_subject r \<and> pg_mands pc w1 i = Some r \<and> md_status r = RevokedM
    \<and> mandate_issue sv i caller s ttl w \<noteq> (Inr t, w') \<and> verify (ms_tokens sv) token agent op res w \<noteq> (Inr v, w')"
proof -
  let ?rs = "if reason = [] then ''mandate revoked'' else reason"
  obtain m wa where get: "pg_mand_get pc i w0 = (Inr (Some m), wa)" and who: "who = md_subject m"
      and rest: "bindE (revoke_id (ms_tokens sv) (md_revocation_id m) ?rs) (\<lambda>_.
       let r = md_revoked (w_clock wa (w_clock_at wa)) (if reason = [] then None else Some reason) m in
       bindE (mst_update (ms_store sv) r) (\<lambda>_.
       bindE (mandate_record sv EvMandateRevoked r ''revoked'' reason) (\<lambda>_.
       retE r))) (wa\<lparr>w_clock_at := Suc (w_clock_at wa)\<rparr>) = (Inr r, w1)"
    using run
    by (auto simp: mandate_revoke_def stores(1) pg_mand_store_def bindE_Inr [of "pg_mand_get pc i"] bindE_now denied_def raiseE_def
        simp del: if_split split: option.splits if_splits)
  obtain wb wc where rv: "revoke_id (ms_tokens sv) (md_revocation_id m) ?rs (wa\<lparr>w_clock_at := Suc (w_clock_at wa)\<rparr>) = (Inr (), wb)"
      and r: "r = md_revoked (w_clock wa (w_clock_at wa)) (if reason = [] then None else Some reason) m"
      and up: "pg_mand_update r wb = (Inr (), wc)" and rec: "mandate_record sv EvMandateRevoked r ''revoked'' reason wc = (Inr (), w1)"
    using rest by (auto simp: bindE_Inr retE_def Let_def stores(1) pg_mand_store_def simp del: if_split)
  have m: "pg_mands pc w0 i = Some m" "pg_mands pc wa = pg_mands pc w0" "pg_mand_good pc wa"
    using atomicD(1) [OF pg_mand_get_atomic w0 get] by (simp_all add: spec_mget_def)
  have id: "md_mandate_id m = i" using m(1) mand_from_row_id by (auto simp: pg_mands_def split: option.splits sum.splits)
  have "keeps w_mand_rows (rs_revoke (tk_revocations (ms_tokens sv)) j why t)" for j why t
    unfolding stores(2) pg_revocations_def revocation_store.simps pg_revoke_def by (rule keeps_db_stmt) (auto split: if_splits)
  then have wb: "w_mand_rows wb = w_mand_rows wa" using keepsD [OF keeps_revoke_id [OF _ _ _ audit(1)] rv] by simp
  have upd: "pg_mands pc wc i = Some r"
    using atomicD(1) [OF pg_mand_update_atomic _ up, of pc] m id pg_mands_rows [OF wb] pg_mand_good_rows [OF wb]
    by (auto simp: spec_mupdate_def r md_revoked_def with_state_of_def)
  have rec_rows: "w_mand_rows w1 = w_mand_rows wc" "w_revoked_rows w1 = w_revoked_rows wc"
    using keepsD [OF keeps_mandate_record rec, of w_mand_rows] keepsD [OF keeps_mandate_record rec, of w_revoked_rows] audit(3,4)
    by simp_all
  have "keeps w_revoked_rows (pg_mand_update r)"
    unfolding pg_mand_update_def by (rule keeps_db_stmt) auto
  from keepsD [OF this up] have "w_revoked_rows wc = w_revoked_rows wb" .
  then have dead: "mandate_revocation_id i \<in> pg_revoked w"
    using revoke_id_adds [OF stores(2) audit(2) rv] rec_rows(2) later(2) id by (auto simp: pg_revoked_def md_revocation_id_def)
  moreover have "mandate_revocation_id i \<in> set (loaded_revocation_ids (tk_lib (ms_tokens sv)) l)"
    using tok(2) by (simp add: loaded_revocation_ids_def with_mandate_def)
  ultimately have "present (ms_tokens sv) token agent w \<noteq> (Inr x, w2)" for x w2
    by (rule pg_revocations.present_dead [OF stores(2) tok(1)])
  then have "verify (ms_tokens sv) token agent op res w \<noteq> (Inr v, w')"
    by (auto simp: verify_def bindE_Inr liftE_def)
  then show ?thesis
    using upd pg_mands_rows [OF rec_rows(1)] who r revoked_mandate_issues_nothing [OF stores later(1) dead] by (simp add: md_revoked_def)
qed

text \<open>
  C21: a mandate that has ended stays ended. Whatever creations, updates to an ended status, sweeps and
  reads the service runs against the Postgres store, and whichever of them fail or lose their answer, a
  mandate that was revoked or expired is still stored and is not active.
\<close>

theorem mandate_never_reactivates:
  assumes "pg_mand_good std_conv w" "pg_mands std_conv w i = Some m" "md_status m \<noteq> ActiveM" "list_all service_op ops"
  shows "\<exists>m'. pg_mands std_conv (fold (run_mop (pg_mand_store std_conv)) ops w) i = Some m' \<and> md_status m' \<noteq> ActiveM"
proof -
  have "ended (pg_mands std_conv w) i" using assms(2,3) by (simp add: ended_def)
  from pg_mand.ended_stays [OF assms(1) this assms(4)] show ?thesis by (auto simp: ended_def split: option.splits)
qed

text \<open>
  What the Postgres store gives back is the mandate that was created, with the cap on token
  lifetimes cut to whole seconds. A cap of whole seconds comes back as it was; a positive cap under one
  second comes back as zero, which \<open>effective_ttl\<close> turns into a zero lifetime.
\<close>

theorem mandate_store_round_trip:
  fixes w :: "('x, 'm) mand_world_scheme"
  assumes "conv_laws pc" "wf_mandate m" "pg_mand_good pc w"
    and create: "pg_mand_create m w = (Inr (), w1)" and get: "pg_mand_get pc (md_mandate_id m) w1 = (Inr x, w2)"
  shows "x = Some (m\<lparr>md_max_token_ttl := seconds (whole_seconds (md_max_token_ttl m))\<rparr>)
    \<and> (if md_max_token_ttl m mod seconds 1 = 0 then x = Some m else True)
    \<and> (if 0 < md_max_token_ttl m \<and> md_max_token_ttl m < seconds 1
        then (\<exists>k. x = Some k \<and> (if t < md_expires_at m then effective_ttl None k t = 0 else True)) else True)"
proof -
  have "pg_mand_good pc w1 \<and> spec_mcreate kept_seconds m (pg_mands pc w) () (pg_mands pc w1)"
    by (rule atomicD(1) [OF pg_mand_create_atomic [OF assms(1,2)] assms(3) create])
  then have x: "x = Some (kept_seconds m)"
    using atomicD(1) [OF pg_mand_get_atomic _ get] by (auto simp: spec_mcreate_def spec_mget_def)
  have "kept_seconds m = m" if "md_max_token_ttl m mod 1000000 = 0"
    using that by (cases m) (auto simp: kept_seconds_def whole_seconds_def seconds_def zmod_zminus1_eq_if dvd_div_mult_self dvd_eq_mod_eq_0)
  moreover have "effective_ttl None (kept_seconds m) t = 0" if "0 < md_max_token_ttl m" "md_max_token_ttl m < 1000000" "t < md_expires_at m"
    using that by (simp add: effective_ttl_def kept_seconds_def ttl_or_def whole_seconds_def seconds_def)
  ultimately show ?thesis unfolding x by (simp add: kept_seconds_def seconds_def)
qed

section \<open>Witnesses\<close>

definition sample_mandate :: mandate where
  "sample_mandate = \<lparr>md_mandate_id = ''m1'', md_subject = ''user:alice'', md_agent = ''agent:a'', md_scope = ch_scope sample_chain,
     md_created_at = 0, md_expires_at = seconds 7200, md_max_token_ttl = seconds 60, md_created_by = ''user:alice'',
     md_status = ActiveM, md_revoked_at = None, md_revocation_reason = None\<rparr>"

definition mand_world0 :: "unit mand_world" where
  "mand_world0 = token_world.extend token_world0 (mand_world.fields [] [])"

definition sample_mand_world :: "unit mand_world" where
  "sample_mand_world = mand_world0\<lparr>w_mand_rows := [(''m1'', mand_values sample_mandate)]\<rparr>"

definition sample_mandates :: "(unit mand_world, sample_token, int, int) mandate_service" where
  "sample_mandates = \<lparr>ms_store = pg_mand_store std_conv, ms_tokens = sample_service, ms_engine = Some sample_engine,
     ms_audit = mem_record, ms_max_days = DEFAULT_MAX_DAYS, ms_default_max_token_ttl = DEFAULT_MAX_TOKEN_TTL\<rparr>"

lemma sample_mandate_wf: "wf_mandate sample_mandate"
  using sample_chain_wf(2) by (simp add: wf_mandate_def sample_mandate_def wf_scope_def)

lemma sample_mandate_kept: "kept_seconds sample_mandate = sample_mandate"
  by (simp add: kept_seconds_def sample_mandate_def whole_seconds_def seconds_def)

lemma mand_world0_simps [simp]:
  "w_db mand_world0 n = DbOk" "w_revoked_rows mand_world0 = []" "w_clock mand_world0 n = int n" "w_clock_at mand_world0 = 0"
  "w_mand_rows mand_world0 = []" "w_db_at mand_world0 = 0"
  by (simp_all add: mand_world0_def token_world.extend_def mand_world.fields_def token_world0_def appr_world.extend_def
      token_world.fields_def appr_world0_def)

lemma sample_mand_good: "pg_mand_good std_conv sample_mand_world" "pg_mands std_conv sample_mand_world = [''m1'' \<mapsto> sample_mandate]"
    "pg_mand_good std_conv mand_world0"
proof -
  have row: "mand_from_row std_conv (''m1'', mand_values sample_mandate) = Inr sample_mandate"
    using mand_row_round_trip [OF std_conv_laws sample_mandate_wf] sample_mandate_kept
    by (simp add: sample_mandate_def [THEN arg_cong [of _ _ md_mandate_id]])
  then show "pg_mand_good std_conv sample_mand_world" "pg_mands std_conv sample_mand_world = [''m1'' \<mapsto> sample_mandate]"
    by (simp_all add: pg_mand_good_def pg_mands_def sample_mand_world_def fun_eq_iff)
  show "pg_mand_good std_conv mand_world0" by (simp add: pg_mand_good_def)
qed

lemma sample_mand_get:
  "pg_mand_get std_conv ''m1'' sample_mand_world = (Inr (Some sample_mandate), sample_mand_world\<lparr>w_db_at := 1\<rparr>)"
proof -
  have "mand_from_row std_conv (''m1'', mand_values sample_mandate) = Inr sample_mandate"
    using mand_row_round_trip [OF std_conv_laws sample_mandate_wf] sample_mandate_kept
    by (simp add: sample_mandate_def [THEN arg_cong [of _ _ md_mandate_id]])
  then show ?thesis
    by (simp add: pg_mand_get_def pg_mandates_def bindE_def db_query_def db_stmt_def Let_def sample_mand_world_def liftE_def retE_def)
qed

lemma sample_mandate_issue:
  "\<exists>tok w'. mandate_issue sample_mandates ''m1'' ''agent:a'' (ch_scope sample_chain) None sample_mand_world = (Inr tok, w')"
proof -
  have sub: "is_subset_of (ch_scope sample_chain) (ch_scope sample_chain)" by code_simp
  show ?thesis
    using sample_mand_get sample_roots(1) sub
    by (simp add: mandate_issue_def mandate_get_def sample_mandates_def pg_mand_store_def bindE_def fresh_def now_def stateE_def
        sample_mandate_def [THEN arg_cong [of _ _ md_status]] sample_mandate_def [THEN arg_cong [of _ _ md_expires_at]]
        sample_mandate_def [THEN arg_cong [of _ _ md_agent]] sample_mandate_def [THEN arg_cong [of _ _ md_subject]]
        sample_mandate_def [THEN arg_cong [of _ _ md_scope]] sample_mand_world_def seconds_def
        service_is_revoked_def catchE_def pg_revocations_def pg_is_revoked_def db_query_def db_stmt_def Let_def
        require_binding_def sample_engine_def retE_def liftE_def issue_def chain_depth_def
        sample_chain_def [THEN arg_cong [of _ _ ch_delegation]] sample_keys token_event_def uuid4_hex_def mem_record_def modifyE_def)
qed

theorem mandate_token_grounds_witness:
  "\<exists>tok w'. mandate_issue sample_mandates ''m1'' ''agent:a'' (ch_scope sample_chain) None sample_mand_world = (Inr tok, w')
    \<and> it_mandate_id tok = Some ''m1'' \<and> pg_mands std_conv sample_mand_world ''m1'' = Some sample_mandate"
proof -
  obtain tok w' where run: "mandate_issue sample_mandates ''m1'' ''agent:a'' (ch_scope sample_chain) None sample_mand_world = (Inr tok, w')"
    using sample_mandate_issue by blast
  have "it_mandate_id tok = Some ''m1''"
    using mandate_token_grounds [OF _ _ sample_mand_good(1) run] by (auto simp: sample_mandates_def)
  then show ?thesis using run sample_mand_good(2) by auto
qed

theorem mandate_revocation_kills_witness:
  "\<exists>r w1. mandate_revoke sample_mandates ''m1'' ''user:alice'' ''lost'' sample_mand_world = (Inr r, w1) \<and> md_status r = RevokedM
    \<and> mandate_issue sample_mandates ''m1'' ''agent:a'' (ch_scope sample_chain) None
        (sample_mand_world\<lparr>w_revoked_rows := w_revoked_rows w1\<rparr>) \<notin> {(Inr t, w') | t w'. True}"
proof -
  obtain r w1 where run: "mandate_revoke sample_mandates ''m1'' ''user:alice'' ''lost'' sample_mand_world = (Inr r, w1)"
    using sample_mand_get
    by (simp add: mandate_revoke_def sample_mandates_def pg_mand_store_def bindE_def now_def stateE_def
        sample_mandate_def [THEN arg_cong [of _ _ md_subject]] revoke_id_def pg_revocations_def pg_revoke_def db_stmt_def Let_def
        sample_mand_world_def uuid4_hex_def mem_record_def modifyE_def pg_mand_update_def mandate_record_def mandate_event_def retE_def)
  have keeps: "keeps w_mand_rows (tk_audit (ms_tokens sample_mandates) e)" "keeps w_revoked_rows (tk_audit (ms_tokens sample_mandates) e)"
      "keeps w_mand_rows (ms_audit sample_mandates e)" "keeps w_revoked_rows (ms_audit sample_mandates e)" for e
    by (simp_all add: sample_mandates_def mem_record_def keeps_rules)
  have stores: "ms_store sample_mandates = pg_mand_store std_conv" "tk_revocations (ms_tokens sample_mandates) = pg_revocations"
    by (simp_all add: sample_mandates_def)
  let ?w = "sample_mand_world\<lparr>w_revoked_rows := w_revoked_rows w1\<rparr>"
  have later: "pg_mand_good std_conv ?w" "pg_revoked w1 \<subseteq> pg_revoked ?w"
    using sample_mand_good(1) by (simp_all add: pg_mand_good_def pg_revoked_def)
  have tok: "load (tk_lib (ms_tokens sample_mandates)) (tk_keyring (ms_tokens sample_mandates)) (bl_to_base64 sample_lib sample_biscuit) = Inr sample_loaded"
      "ld_mandate_id sample_loaded = Some ''m1''"
    using sample_load by (simp_all add: sample_mandates_def sample_loaded_def)
  from mandate_revocation_kills [OF stores keeps sample_mand_good(1) run later tok] run show ?thesis by blast
qed

theorem mandate_never_reactivates_witness:
  "\<exists>m'. pg_mands std_conv (fold (run_mop (pg_mand_store std_conv)) [MExpire 0, MCreate sample_mandate]
      (mand_world0\<lparr>w_mand_rows := [(''m1'', mand_values (md_expired sample_mandate))]\<rparr>)) ''m1'' = Some m' \<and> md_status m' \<noteq> ActiveM"
proof -
  let ?m = "md_expired sample_mandate" and ?w = "mand_world0\<lparr>w_mand_rows := [(''m1'', mand_values (md_expired sample_mandate))]\<rparr>"
  have "wf_mandate ?m" using sample_mandate_wf by (simp add: wf_mandate_def md_expired_def)
  then have row: "mand_from_row std_conv (''m1'', mand_values ?m) = Inr (kept_seconds ?m)"
    using mand_row_round_trip [OF std_conv_laws, of ?m] by (simp add: md_expired_def sample_mandate_def [THEN arg_cong [of _ _ md_mandate_id]])
  then have "pg_mand_good std_conv ?w" "pg_mands std_conv ?w ''m1'' = Some (kept_seconds ?m)"
    by (simp_all add: pg_mand_good_def pg_mands_def)
  from mandate_never_reactivates [OF this, of "[MExpire 0, MCreate sample_mandate]"] sample_mandate_wf show ?thesis
    by (simp add: kept_seconds_def md_expired_def sample_mandate_def [THEN arg_cong [of _ _ md_status]])
qed

theorem mandate_store_round_trip_witness:
  "\<exists>w1 x w2. pg_mand_create sample_mandate mand_world0 = (Inr (), w1)
    \<and> pg_mand_get std_conv ''m1'' w1 = (Inr x, w2) \<and> x = Some sample_mandate"
proof -
  have i: "md_mandate_id sample_mandate = ''m1''" by (simp add: sample_mandate_def)
  have cap: "whole_seconds (md_max_token_ttl sample_mandate) = 60" "md_max_token_ttl sample_mandate mod seconds 1 = 0"
    by (simp_all add: sample_mandate_def seconds_def whole_seconds_def)
  have create: "pg_mand_create sample_mandate mand_world0 = (Inr (), sample_mand_world\<lparr>w_db_at := 1\<rparr>)"
    by (simp add: pg_mand_create_def db_stmt_def Let_def i cap int4_def sample_mand_world_def)
  have "mand_from_row std_conv (''m1'', mand_values sample_mandate) = Inr sample_mandate"
    using mand_row_round_trip [OF std_conv_laws sample_mandate_wf] sample_mandate_kept i by simp
  then obtain x w2 where get: "pg_mand_get std_conv (md_mandate_id sample_mandate) (sample_mand_world\<lparr>w_db_at := 1\<rparr>) = (Inr x, w2)"
    by (simp add: i pg_mand_get_def pg_mandates_def bindE_def db_query_def db_stmt_def Let_def sample_mand_world_def liftE_def retE_def)
  have "x = Some sample_mandate"
    using mandate_store_round_trip [OF std_conv_laws sample_mandate_wf sample_mand_good(3) create get, THEN conjunct2, THEN conjunct1]
    by (simp only: cap(2) if_True)
  then show ?thesis using create get i by auto
qed

end
