(* ===== verification/Read_Sources.thy ===== *)
theory Read_Sources
  imports Identity_Callers Tokens_Mandates
begin

text \<open>
  The connectors that read a source's permissions (\<open>read/connectors/files.py\<close>,
  \<open>read/connectors/nextcloud.py\<close>, \<open>read/connectors/pipeshub.py\<close>, \<open>identity/groups.py\<close>) and PipesHub as
  an index (\<open>read/pipeshub.py\<close>).

  What a source answers is an argument: the listing of the file system and the text of its manifest;
  the WebDAV listing, given as the fields the connector reads of each response element, and the OCS
  answer; the JSON documents of PipesHub and of the Keycloak admin API. A set of tuples that grows is
  a list without repetitions, in the order of the additions.

  The locale \<open>acl_source\<close> is what the framework relies on: every tuple of a snapshot grants a
  well-formed user or group a reading or writing relation on a well-formed document or source, or
  places a document in a source. Every connector interprets it, so \<open>reconcile\<close> never rejects a
  snapshot. The listings that come in pages are shown to be read to the end.
\<close>

section \<open>Shared pieces\<close>

declare split_on.simps [simp del]

text \<open>\<open>v.get(key, default)\<close>; only a dict has the method.\<close>

definition json_get :: "json \<Rightarrow> string \<Rightarrow> json \<Rightarrow> exn + json" where
  "json_get v key dflt = (case v of
     JObj d \<Rightarrow> Inr (case map_of d key of None \<Rightarrow> dflt | Some x \<Rightarrow> x)
   | _ \<Rightarrow> Inl (Other ''AttributeError''))"

definition json_dict :: "json \<Rightarrow> exn + (string \<times> json) list" where
  "json_dict v = (case v of JObj d \<Rightarrow> Inr d | _ \<Rightarrow> Inl (Other ''AttributeError''))"

definition is_obj :: "json \<Rightarrow> bool" where
  "is_obj v = (case v of JObj d \<Rightarrow> True | _ \<Rightarrow> False)"

text \<open>The dicts of a list, and nothing for anything else.\<close>

definition only_dicts :: "json \<Rightarrow> json list" where
  "only_dicts v = (case v of JArr vs \<Rightarrow> filter is_obj vs | _ \<Rightarrow> [])"

definition take_snapshot ::
    "string \<Rightarrow> tuple list \<times> document_meta list \<Rightarrow> (('x, 'm) world_scheme, exn, snapshot) eff" where
  "take_snapshot name = (\<lambda>(tuples, docs). bindE now (\<lambda>t.
     retE \<lparr>sn_connector = name, sn_tuples = dedupe tuples, sn_documents = docs, sn_taken_at = t\<rparr>))"

text \<open>\<open>s.rsplit(c, 1)\<close>: what stands before the last \<open>c\<close>, or all of \<open>s\<close>; and what stands after it.\<close>

definition before_last :: "char \<Rightarrow> string \<Rightarrow> string" where
  "before_last c s = (if c \<in> set s then rev (tl (dropWhile (\<lambda>x. x \<noteq> c) (rev s))) else s)"

definition after_last :: "char \<Rightarrow> string \<Rightarrow> string" where
  "after_last c s = rev (takeWhile (\<lambda>x. x \<noteq> c) (rev s))"

text \<open>\<open>s.strip("/")\<close> and \<open>s.removeprefix(p)\<close>.\<close>

definition strip_slashes :: "string \<Rightarrow> string" where
  "strip_slashes s = rev (dropWhile (\<lambda>c. c = CHR ''/'') (rev (dropWhile (\<lambda>c. c = CHR ''/'') s)))"

definition removeprefix :: "string \<Rightarrow> string \<Rightarrow> string" where
  "removeprefix s p = (if startswith s p then drop (length p) s else s)"

section \<open>Files\<close>

definition MANIFEST_NAME :: string where
  "MANIFEST_NAME = ''hoc-acl.json''"

datatype id_strategy = Stem | ByPath

record files_connector =
  fc_root :: "string list"
  fc_name :: string
  fc_id_strategy :: id_strategy
  fc_manifest_name :: string

text \<open>\<open>_load_manifest\<close>: \<open>None\<close> is a missing file.\<close>

definition load_manifest :: "string option \<Rightarrow> exn + json" where
  "load_manifest text = (case text of
     None \<Rightarrow> Inl (Other ''FileNotFoundError'')
   | Some t \<Rightarrow> (case loads t of
       None \<Rightarrow> Inl (Other ''JSONDecodeError'')
     | Some v \<Rightarrow> if is_obj v then Inr v else Inl (Other ''ValueError'')))"

definition manifest_principal :: "pyconv \<Rightarrow> json \<Rightarrow> exn + string" where
  "manifest_principal pc ref = (case acl_principal (conv_str pc ref) of
     Inl e \<Rightarrow> Inl (if catches InvariantViolation e then Other ''ValueError'' else e)
   | Inr u \<Rightarrow> Inr u)"

text \<open>\<open>for ref in spec.get(key, []): tuples.add((_principal(ref), relation, obj))\<close>\<close>

definition grants ::
    "pyconv \<Rightarrow> json \<Rightarrow> string \<Rightarrow> string \<Rightarrow> string \<Rightarrow> ('w, exn, tuple list) eff" where
  "grants pc spec key relation obj =
     bindE (liftE (json_get spec key (JArr []))) (\<lambda>refs.
     bindE (liftE (json_iter refs)) (\<lambda>items.
     mapE (\<lambda>ref. bindE (liftE (manifest_principal pc ref)) (\<lambda>u. retE (u, relation, obj))) items))"

definition folder_tuples :: "pyconv \<Rightarrow> json \<Rightarrow> ('w, exn, tuple list) eff" where
  "folder_tuples pc spec =
     bindE (liftE (json_get spec ''source'' JNull)) (\<lambda>src.
     if src = JNull then retE []
     else bindE (liftE (validate_ref (conv_str pc src) ''source'')) (\<lambda>s.
       bindE (grants pc spec ''viewers'' ''viewer'' s) (\<lambda>vs.
       bindE (grants pc spec ''editors'' ''editor'' s) (\<lambda>es. retE (vs @ es)))))"

text \<open>The nearest ancestor listed in \<open>folders\<close>: the parts of the directory, dropped one by one.\<close>

function nearest :: "(string \<times> json) list \<Rightarrow> string list \<Rightarrow> string option" where
  "nearest folders parts = (if parts = [] then None
     else if map_of folders (joined ''/'' parts) \<noteq> None then Some (joined ''/'' parts)
     else nearest folders (butlast parts))"
  by pat_completeness auto
termination
  by (relation "measure (\<lambda>(folders, parts). length parts)") auto

declare nearest.simps [simp del]

definition nearest_folder :: "string \<Rightarrow> (string \<times> json) list \<Rightarrow> string option" where
  "nearest_folder rel folders = nearest folders (butlast (split_on (CHR ''/'') rel))"

definition path_name :: "string \<Rightarrow> string" where
  "path_name rel = last (split_on (CHR ''/'') rel)"

text \<open>\<open>path.stem\<close>: a leading or a final dot starts no suffix.\<close>

definition path_stem :: "string \<Rightarrow> string" where
  "path_stem rel = (let n = path_name rel; s = before_last (CHR ''.'') n in
     if CHR ''.'' \<in> set n \<and> s \<noteq> [] \<and> last n \<noteq> CHR ''.'' then s else n)"

definition document_id :: "files_connector \<Rightarrow> string \<Rightarrow> exn + string" where
  "document_id fc rel = validate_ref (''document:'' @ (case fc_id_strategy fc of
     ByPath \<Rightarrow> before_last (CHR ''.'') rel | Stem \<Rightarrow> path_stem rel)) ''document''"

definition skipped :: "files_connector \<Rightarrow> string \<Rightarrow> bool" where
  "skipped fc rel = (path_name rel = fc_manifest_name fc
     \<or> list_ex (\<lambda>part. startswith part ''.'') (fc_root fc @ split_on (CHR ''/'') rel))"

definition file_source :: "pyconv \<Rightarrow> (string \<times> json) list \<Rightarrow> string \<Rightarrow> exn + string option" where
  "file_source pc folders rel = (case nearest_folder rel folders of
     None \<Rightarrow> Inr None
   | Some f \<Rightarrow> (case json_get (dict_get folders f) ''source'' JNull of
       Inl e \<Rightarrow> Inl e
     | Inr v \<Rightarrow> Inr (if v = JNull then None else Some (conv_str pc v))))"

definition file_entry ::
    "pyconv \<Rightarrow> files_connector \<Rightarrow> (string \<times> json) list \<Rightarrow> json \<Rightarrow> string
     \<Rightarrow> ('w, exn, tuple list \<times> document_meta) eff" where
  "file_entry pc fc folders documents rel =
     bindE (liftE (file_source pc folders rel)) (\<lambda>src.
     bindE (liftE (document_id fc rel)) (\<lambda>d.
     bindE (liftE (json_get documents rel (JObj []))) (\<lambda>spec.
     bindE (grants pc spec ''viewers'' ''viewer'' d) (\<lambda>vs.
     bindE (grants pc spec ''editors'' ''editor'' d) (\<lambda>es.
     retE ((case src of None \<Rightarrow> [] | Some s \<Rightarrow> [(s, ''parent'', d)]) @ vs @ es,
       \<lparr>dm_id = d, dm_title = path_stem rel, dm_path = rel, dm_source = src\<rparr>))))))"

definition files_contents ::
    "pyconv \<Rightarrow> files_connector \<Rightarrow> string option \<Rightarrow> string list \<Rightarrow> ('w, exn, tuple list \<times> document_meta list) eff" where
  "files_contents pc fc manifest listing =
     bindE (liftE (load_manifest manifest)) (\<lambda>m.
     bindE (liftE (json_get m ''folders'' (JObj []))) (\<lambda>fs.
     bindE (liftE (json_get m ''documents'' (JObj []))) (\<lambda>documents.
     bindE (liftE (json_dict fs)) (\<lambda>folders.
     bindE (mapE (folder_tuples pc) (map snd folders)) (\<lambda>ft.
     bindE (mapE (file_entry pc fc folders documents) (filter (\<lambda>rel. \<not> skipped fc rel) listing)) (\<lambda>entries.
     retE (concat ft @ concat (map fst entries), map snd entries)))))))"

definition files_snapshot ::
    "pyconv \<Rightarrow> files_connector \<Rightarrow> string option \<Rightarrow> string list \<Rightarrow> (('x, 'm) world_scheme, exn, snapshot) eff" where
  "files_snapshot pc fc manifest listing =
     bindE (files_contents pc fc manifest listing) (take_snapshot (fc_name fc))"

section \<open>Nextcloud\<close>

definition SHARE_USER :: int where "SHARE_USER = 0"

definition SHARE_GROUP :: int where "SHARE_GROUP = 1"

datatype nc_strategy = NcStem | NcBackend

text \<open>
  A response element of the WebDAV listing: its unquoted \<open>href\<close>, whether it is a collection, and its
  file id. The client answers a status and, for the body, the elements or a parse error.
\<close>

type_synonym dav_item = "string \<times> bool \<times> string"

record 'w nextcloud =
  nc_user :: string
  nc_root_arg :: string
  nc_name :: string
  nc_id_strategy :: nc_strategy
  nc_propfind :: "string \<Rightarrow> ('w, exn, int \<times> (exn + dav_item list)) eff"
  nc_get_json :: "string \<Rightarrow> ('w, exn, json) eff"

definition nc_root :: "'w nextcloud \<Rightarrow> string" where
  "nc_root nc = ''/'' @ strip_slashes (nc_root_arg nc)"

text \<open>\<open>except (A, B) as exc: raise C(...)\<close>\<close>

definition as_unavailable :: "err_class \<Rightarrow> string list \<Rightarrow> ('w, exn, 'a) eff \<Rightarrow> ('w, exn, 'a) eff" where
  "as_unavailable cls names m = catchE m (\<lambda>e. raiseE (case e of
     Other n \<Rightarrow> if n \<in> set names then hoc cls else e
   | Hoc c r \<Rightarrow> e))"

definition list_files :: "'w nextcloud \<Rightarrow> ('w, exn, dav_item list) eff" where
  "list_files nc =
     (let prefix = ''/remote.php/dav/files/'' @ nc_user nc in
      bindE (as_unavailable NextcloudUnavailable [''HTTPError'', ''ParseError'']
        (bindE (nc_propfind nc (prefix @ nc_root nc)) (\<lambda>(status, body).
         if status \<noteq> 207 then raiseE (hoc NextcloudUnavailable) else liftE body))) (\<lambda>items.
      retE (map (\<lambda>(href, is_dir, fid).
        (str_or (rev (dropWhile (\<lambda>c. c = CHR ''/'') (rev (removeprefix href prefix)))) ''/'', is_dir, fid)) items)))"

text \<open>\<open>data["ocs"]["data"]\<close>\<close>

definition json_at :: "json \<Rightarrow> string \<Rightarrow> exn + json" where
  "json_at v key = (case v of
     JObj d \<Rightarrow> (case map_of d key of None \<Rightarrow> Inl (Other ''KeyError'') | Some x \<Rightarrow> Inr x)
   | _ \<Rightarrow> Inl (Other ''TypeError''))"

definition list_shares :: "'w nextcloud \<Rightarrow> ('w, exn, json list) eff" where
  "list_shares nc =
     bindE (as_unavailable NextcloudUnavailable [''HTTPError'', ''ValueError'', ''KeyError'', ''TypeError'']
       (bindE (nc_get_json nc ''/ocs/v2.php/apps/files_sharing/api/v1/shares'') (\<lambda>v.
        bindE (liftE (json_at v ''ocs'')) (\<lambda>ocs. liftE (json_at ocs ''data''))))) (\<lambda>data.
     retE (only_dicts data))"

definition nc_source_id :: "'w nextcloud \<Rightarrow> string \<Rightarrow> exn + string" where
  "nc_source_id nc folder = validate_ref (''source:'' @ nc_name nc @ ''-'' @ folder) ''source''"

definition nc_document_id :: "'w nextcloud \<Rightarrow> string \<Rightarrow> string \<Rightarrow> string option" where
  "nc_document_id nc rel fid = (case validate_ref (''document:'' @ (case nc_id_strategy nc of
       NcBackend \<Rightarrow> ''nc-'' @ fid
     | NcStem \<Rightarrow> before_last (CHR ''.'') (after_last (CHR ''/'') rel))) ''document'' of
     Inl e \<Rightarrow> None | Inr d \<Rightarrow> Some d)"

record nc_tree =
  tr_tuples :: "tuple list"
  tr_documents :: "document_meta list"
  tr_doc_by_path :: "(string \<times> string) list"
  tr_source_by_path :: "(string \<times> string) list"

text \<open>One entry of the listing.\<close>

definition add_entry :: "'w nextcloud \<Rightarrow> dav_item \<Rightarrow> nc_tree \<Rightarrow> exn + nc_tree" where
  "add_entry nc item tr = (case item of (path, is_dir, fid) \<Rightarrow>
     let rel = strip_slashes (removeprefix path (nc_root nc)) in
     if rel = [] then Inr tr
     else case nc_source_id nc (fst (partition_char (CHR ''/'') rel)) of
       Inl e \<Rightarrow> Inl e
     | Inr src \<Rightarrow>
         if is_dir then
           Inr (if CHR ''/'' \<notin> set rel then tr\<lparr>tr_source_by_path := AList.update path src (tr_source_by_path tr)\<rparr> else tr)
         else (case nc_document_id nc rel fid of
           None \<Rightarrow> Inr tr
         | Some d \<Rightarrow> Inr (tr\<lparr>tr_tuples := tr_tuples tr @ [(src, ''parent'', d)],
             tr_doc_by_path := AList.update path d (tr_doc_by_path tr),
             tr_documents := tr_documents tr @ [\<lparr>dm_id = d, dm_title = after_last (CHR ''/'') rel, dm_path = rel,
               dm_source = Some src\<rparr>]\<rparr>)))"

primrec add_entries :: "'w nextcloud \<Rightarrow> dav_item list \<Rightarrow> nc_tree \<Rightarrow> exn + nc_tree" where
  "add_entries nc [] tr = Inr tr"
| "add_entries nc (x # xs) tr = (case add_entry nc x tr of Inl e \<Rightarrow> Inl e | Inr tr' \<Rightarrow> add_entries nc xs tr')"

definition empty_tree :: nc_tree where
  "empty_tree = \<lparr>tr_tuples = [], tr_documents = [], tr_doc_by_path = [], tr_source_by_path = []\<rparr>"

text \<open>\<open>int(v)\<close> of a JSON value.\<close>

definition py_int_of :: "pyconv \<Rightarrow> json \<Rightarrow> exn + int" where
  "py_int_of pc v = (case conv_int pc v of None \<Rightarrow> Inl (Other ''ValueError'') | Some n \<Rightarrow> Inr n)"

definition share_item :: "(string \<times> json) list \<Rightarrow> string \<Rightarrow> json \<Rightarrow> json" where
  "share_item d key dflt = (case map_of d key of None \<Rightarrow> dflt | Some v \<Rightarrow> v)"

definition ref_or_none :: "string \<Rightarrow> string \<Rightarrow> string \<Rightarrow> string option" where
  "ref_or_none ref ty userset = (case validate_ref ref ty of Inl e \<Rightarrow> None | Inr r \<Rightarrow> Some (r @ userset))"

definition share_principal :: "pyconv \<Rightarrow> (string \<times> json) list \<Rightarrow> exn + string option" where
  "share_principal pc d = (case py_int_of pc (share_item d ''share_type'' (JInt (-1))) of
     Inl e \<Rightarrow> Inl e
   | Inr ty \<Rightarrow> Inr (case share_item d ''share_with'' JNull of
       JStr target \<Rightarrow>
         if target = [] then None
         else if ty = SHARE_GROUP then ref_or_none (''group:'' @ target) ''group'' ''#member''
         else if ty = SHARE_USER then ref_or_none (''user:'' @ target) ''user'' []
         else None
     | _ \<Rightarrow> None))"

text \<open>\<open>permissions & PERMISSION_UPDATE\<close> with \<open>PERMISSION_UPDATE = 2\<close>.\<close>

definition share_relation :: "pyconv \<Rightarrow> (string \<times> json) list \<Rightarrow> exn + string" where
  "share_relation pc d = (case py_int_of pc (share_item d ''permissions'' (JInt 0)) of
     Inl e \<Rightarrow> Inl e
   | Inr n \<Rightarrow> Inr (if (n div 2) mod 2 = 1 then ''editor'' else ''viewer''))"

definition share_tuples :: "pyconv \<Rightarrow> nc_tree \<Rightarrow> json \<Rightarrow> exn + tuple list" where
  "share_tuples pc tr share = (case json_dict share of Inl e \<Rightarrow> Inl e | Inr d \<Rightarrow>
     case share_principal pc d of Inl e \<Rightarrow> Inl e | Inr None \<Rightarrow> Inr [] | Inr (Some u) \<Rightarrow>
     let path = conv_str pc (share_item d ''path'' (JStr [])) in
     case share_relation pc d of Inl e \<Rightarrow> Inl e | Inr relation \<Rightarrow>
     Inr (case map_of (tr_source_by_path tr) path of
       Some src \<Rightarrow> [(u, relation, src)]
     | None \<Rightarrow> (case map_of (tr_doc_by_path tr) path of Some doc \<Rightarrow> [(u, relation, doc)] | None \<Rightarrow> [])))"

definition nextcloud_snapshot ::
    "pyconv \<Rightarrow> ('x, 'm) world_scheme nextcloud \<Rightarrow> (('x, 'm) world_scheme, exn, snapshot) eff" where
  "nextcloud_snapshot pc nc =
     bindE (list_files nc) (\<lambda>entries.
     bindE (list_shares nc) (\<lambda>shares.
     bindE (liftE (add_entries nc entries empty_tree)) (\<lambda>tr.
     bindE (mapE (\<lambda>share. liftE (share_tuples pc tr share)) shares) (\<lambda>granted.
     take_snapshot (nc_name nc) (tr_tuples tr @ concat granted, tr_documents tr)))))"

section \<open>PipesHub\<close>

record 'w pipeshub =
  ph_name :: string
  ph_principal_of :: "(string \<times> json) list \<Rightarrow> exn + string option"
  ph_page_size :: nat
  ph_nodes :: "nat \<Rightarrow> ('w, exn, json) eff"
  ph_get_record :: "string \<Rightarrow> ('w, exn, json option) eff"

text \<open>\<open>str.upper()\<close>, as far as it decides whether the result is one of the words compared with.\<close>

definition upper_char :: "char \<Rightarrow> char" where
  "upper_char c = (let n = (of_char c :: nat) in if 97 \<le> n \<and> n \<le> 122 then char_of (n - 32) else c)"

definition default_principal_of :: "pyconv \<Rightarrow> (string \<times> json) list \<Rightarrow> exn + string option" where
  "default_principal_of pc d = (let kind = map upper_char (conv_str pc (share_item d ''type'' (JStr []))) in
     Inr (case dict_get d ''name'' of
       JStr name \<Rightarrow>
         if name = [] then None
         else if kind = ''USER'' then Some (''user:'' @ fst (partition_char (CHR ''@'') name))
         else if kind = ''GROUP'' then Some (''group:'' @ name)
         else None
     | _ \<Rightarrow> None))"

definition entry_relation :: "string \<Rightarrow> string option" where
  "entry_relation relationship = (let upper = map upper_char relationship in
     if upper \<in> set [''OWNER'', ''WRITER''] then Some ''editor''
     else if upper \<in> set [''READER''] then Some ''viewer''
     else None)"

definition entry_principal :: "'w pipeshub \<Rightarrow> (string \<times> json) list \<Rightarrow> string option" where
  "entry_principal ph d = (case ph_principal_of ph d of
     Inl e \<Rightarrow> None
   | Inr None \<Rightarrow> None
   | Inr (Some ref) \<Rightarrow>
       if startswith ref ''group:'' then ref_or_none ref ''group'' ''#member'' else ref_or_none ref ''user'' [])"

definition node_ids :: "pyconv \<Rightarrow> json \<Rightarrow> exn + string list" where
  "node_ids pc item = (case item of
     JObj d \<Rightarrow> if dict_get d ''nodeType'' = JStr ''record'' then
         (case map_of d ''id'' of None \<Rightarrow> Inl (Other ''KeyError'') | Some v \<Rightarrow> Inr [conv_str pc v])
       else Inr []
   | _ \<Rightarrow> Inr [])"

text \<open>The loop of \<open>_record_ids\<close>, with a bound on the pages it reads.\<close>

fun record_ids :: "pyconv \<Rightarrow> 'w pipeshub \<Rightarrow> nat \<Rightarrow> nat \<Rightarrow> string list \<Rightarrow> ('w, exn, string list) eff" where
  "record_ids pc ph 0 page ids = raiseE (Other ''unfinished'')"
| "record_ids pc ph (Suc fuel) page ids =
     bindE (as_unavailable PipesHubUnavailable [''HTTPError'', ''ValueError''] (ph_nodes ph page)) (\<lambda>data.
     let items = (case data of JObj d \<Rightarrow> dict_get d ''items'' | _ \<Rightarrow> JNull) in
     if json_falsy items then retE ids
     else bindE (liftE (json_iter items)) (\<lambda>xs.
       bindE (mapE (\<lambda>x. liftE (node_ids pc x)) xs) (\<lambda>new.
       if length xs < ph_page_size ph then retE (ids @ concat new)
       else record_ids pc ph fuel (Suc page) (ids @ concat new))))"

text \<open>\<open>_record\<close>: \<open>None\<close> is a 404.\<close>

definition get_record :: "'w pipeshub \<Rightarrow> string \<Rightarrow> ('w, exn, json option) eff" where
  "get_record ph rid =
     bindE (as_unavailable PipesHubUnavailable [''HTTPError'', ''ValueError''] (ph_get_record ph rid)) (\<lambda>answer.
     retE (case answer of None \<Rightarrow> None | Some v \<Rightarrow> if is_obj v then Some v else None))"

definition record_source :: "'w pipeshub \<Rightarrow> (string \<times> json) list \<Rightarrow> exn + string option" where
  "record_source ph d = (case py_or (py_or (dict_get d ''knowledgeBase'') (dict_get d ''knowledge_base'')) (JObj []) of
     JObj kb \<Rightarrow> (case dict_get kb ''id'' of
         JStr i \<Rightarrow> (case validate_ref (''source:'' @ ph_name ph @ ''-'' @ i) ''source'' of Inl e \<Rightarrow> Inl e | Inr s \<Rightarrow> Inr (Some s))
       | _ \<Rightarrow> Inr None)
   | _ \<Rightarrow> Inr None)"

definition entry_tuples :: "pyconv \<Rightarrow> 'w pipeshub \<Rightarrow> string \<Rightarrow> json \<Rightarrow> tuple list" where
  "entry_tuples pc ph doc entry = (case entry of
     JObj d \<Rightarrow> (case (entry_relation (conv_str pc (share_item d ''relationship'' (JStr []))), entry_principal ph d) of
         (Some relation, Some u) \<Rightarrow> [(u, relation, doc)]
       | _ \<Rightarrow> [])
   | _ \<Rightarrow> [])"

definition record_title :: "pyconv \<Rightarrow> (string \<times> json) list \<Rightarrow> string \<Rightarrow> exn + string" where
  "record_title pc d rid = (case json_dict (py_or (dict_get d ''record'') (JObj [])) of
     Inl e \<Rightarrow> Inl e
   | Inr r \<Rightarrow> Inr (conv_str pc (py_or (py_or (dict_get r ''recordName'') (dict_get r ''name'')) (JStr rid))))"

definition record_entry ::
    "pyconv \<Rightarrow> 'w pipeshub \<Rightarrow> string \<times> json option \<Rightarrow> ('w, exn, tuple list \<times> document_meta list) eff" where
  "record_entry pc ph = (\<lambda>(rid, detail). case detail of
     None \<Rightarrow> retE ([], [])
   | Some v \<Rightarrow>
      bindE (liftE (json_dict v)) (\<lambda>d.
      bindE (liftE (validate_ref (''document:ph-'' @ rid) ''document'')) (\<lambda>doc.
      bindE (liftE (record_source ph d)) (\<lambda>src.
      bindE (liftE (json_iter (py_or (dict_get d ''permissions'') (JArr [])))) (\<lambda>entries.
      bindE (liftE (record_title pc d rid)) (\<lambda>title.
      retE ((case src of None \<Rightarrow> [] | Some s \<Rightarrow> [(s, ''parent'', doc)]) @ concat (map (entry_tuples pc ph doc) entries),
        [\<lparr>dm_id = doc, dm_title = title, dm_path = rid, dm_source = src\<rparr>])))))))"

definition pipeshub_snapshot ::
    "pyconv \<Rightarrow> ('x, 'm) world_scheme pipeshub \<Rightarrow> nat \<Rightarrow> (('x, 'm) world_scheme, exn, snapshot) eff" where
  "pipeshub_snapshot pc ph fuel =
     bindE (record_ids pc ph fuel 1 []) (\<lambda>ids.
     bindE (mapE (get_record ph) ids) (\<lambda>details.
     bindE (mapE (record_entry pc ph) (zip ids details)) (\<lambda>parts.
     take_snapshot (ph_name ph) (concat (map fst parts), concat (map snd parts)))))"

text \<open>A hit of the index becomes an item for the filter; one without a record is dropped.\<close>

definition hit_item :: "json \<Rightarrow> exn + json list" where
  "hit_item hit = (case hit of
     JObj h \<Rightarrow> (case py_or (dict_get h ''metadata'') (JObj []) of
         JObj md \<Rightarrow> (case dict_get md ''recordId'' of
             JStr rid \<Rightarrow> if rid = [] then Inr [] else
               (case validate_ref (''document:ph-'' @ rid) ''document'' of
                  Inl e \<Rightarrow> Inl e
                | Inr d \<Rightarrow> Inr [JObj [(''id'', JStr d), (''record_id'', JStr rid), (''name'', dict_get md ''recordName''),
                    (''score'', dict_get md ''score''), (''content'', dict_get h ''content'')]])
           | _ \<Rightarrow> Inr [])
       | _ \<Rightarrow> Inr [])
   | _ \<Rightarrow> Inr [])"

definition index_body :: "string \<Rightarrow> int \<Rightarrow> json \<Rightarrow> json" where
  "index_body query limit filters = JObj ([(''query'', JStr query), (''limit'', JInt limit)]
     @ (if json_falsy filters then [] else [(''filters'', filters)]))"

definition index_search ::
    "(json \<Rightarrow> ('w, exn, json) eff) \<Rightarrow> string \<Rightarrow> int \<Rightarrow> json \<Rightarrow> ('w, exn, json list) eff" where
  "index_search post query limit filters =
     bindE (as_unavailable PipesHubIndexUnavailable [''HTTPError'', ''ValueError''] (post (index_body query limit filters))) (\<lambda>data.
     bindE (liftE (case data of
         JObj d \<Rightarrow> json_get (py_or (dict_get d ''searchResponse'') (JObj [])) ''searchResults'' JNull
       | _ \<Rightarrow> Inr JNull)) (\<lambda>results.
     bindE (liftE (json_iter (py_or results (JArr [])))) (\<lambda>hits.
     bindE (mapE (\<lambda>hit. liftE (hit_item hit)) hits) (\<lambda>items. retE (concat items)))))"

section \<open>Keycloak groups\<close>

text \<open>
  The admin API: the answer to the login form, and the answer to a read of a path, with \<open>first\<close> when the
  listing comes in pages of a hundred.
\<close>

record 'w keycloak =
  kc_name :: string
  kc_realm :: string
  kc_login :: "('w, exn, json) eff"
  kc_read :: "string \<Rightarrow> string \<Rightarrow> nat option \<Rightarrow> ('w, exn, json) eff"

definition admin_token :: "'w keycloak \<Rightarrow> ('w, exn, string) eff" where
  "admin_token kc =
     bindE (as_unavailable IdentityError [''HTTPError'', ''ValueError'']
       (bindE (kc_login kc) (\<lambda>v. liftE (json_get v ''access_token'' JNull)))) (\<lambda>token.
     case token of JStr t \<Rightarrow> retE t | _ \<Rightarrow> raiseE (hoc IdentityError))"

definition kc_get :: "'w keycloak \<Rightarrow> string \<Rightarrow> string \<Rightarrow> nat option \<Rightarrow> ('w, exn, json list) eff" where
  "kc_get kc token path first =
     bindE (as_unavailable IdentityError [''HTTPError'', ''ValueError''] (kc_read kc token path first)) (\<lambda>v.
     retE (only_dicts v))"

text \<open>\<open>while True\<close> over pages of a hundred until an empty one, with a bound on the pages read.\<close>

fun all_pages ::
    "'w keycloak \<Rightarrow> (json \<Rightarrow> exn + json list) \<Rightarrow> string \<Rightarrow> string \<Rightarrow> nat \<Rightarrow> nat \<Rightarrow> json list \<Rightarrow> ('w, exn, json list) eff" where
  "all_pages kc each token path 0 first acc = raiseE (Other ''unfinished'')"
| "all_pages kc each token path (Suc fuel) first acc =
     bindE (kc_get kc token path (Some first)) (\<lambda>page.
     if page = [] then retE acc
     else bindE (mapE (\<lambda>x. liftE (each x)) page) (\<lambda>parts.
       all_pages kc each token path fuel (first + 100) (acc @ concat parts)))"

text \<open>\<open>group.get("subGroups") or []\<close>, and the dicts among its items.\<close>

definition sub_items :: "json \<Rightarrow> exn + json list" where
  "sub_items g = (case g of
     JObj d \<Rightarrow> (case py_or (dict_get d ''subGroups'') (JArr []) of
         JArr vs \<Rightarrow> Inr (filter is_obj vs)
       | JObj kvs \<Rightarrow> Inr [] | JStr s \<Rightarrow> Inr [] | _ \<Rightarrow> Inl (Other ''TypeError''))
   | _ \<Rightarrow> Inr [])"

lemma size_map_of: "map_of d k = Some v \<Longrightarrow> size v < size (JObj d)"
proof (induction d)
  case (Cons kv d)
  then show ?case by (cases kv) (auto split: if_splits)
qed simp

lemma sub_items_smaller: "sub_items g = Inr xs \<Longrightarrow> x \<in> set xs \<Longrightarrow> size x < size g"
proof -
  assume a: "sub_items g = Inr xs" "x \<in> set xs"
  then obtain d vs where g: "g = JObj d" "map_of d ''subGroups'' = Some (JArr vs)" "x \<in> set vs"
    by (auto simp: sub_items_def py_or_def dict_get_def json_falsy_def split: json.splits option.splits if_splits)
  have "size x < size (JArr vs)" using g(3) by (induction vs) auto
  then show ?thesis using size_map_of [OF g(2)] by (simp add: g(1))
qed

function flatten :: "json \<Rightarrow> exn + json list" where
  "flatten g = (case sub_items g of
     Inl e \<Rightarrow> Inl e
   | Inr children \<Rightarrow> (case sequence_sum (map flatten children) of Inl e \<Rightarrow> Inl e | Inr below \<Rightarrow> Inr (g # concat below)))"
  by pat_completeness auto
termination
  by (relation "measure size") (auto dest: sub_items_smaller)

declare flatten.simps [simp del]

text \<open>The children of a group whose listing left them out.\<close>

definition lazy_children ::
    "pyconv \<Rightarrow> 'w keycloak \<Rightarrow> string \<Rightarrow> string \<Rightarrow> json \<Rightarrow> ('w, exn, json list) eff" where
  "lazy_children pc kc token base g =
     bindE (liftE (json_dict g)) (\<lambda>d.
     bindE (liftE (py_int_of pc (py_or (share_item d ''subGroupCount'' (JInt 0)) (JInt 0)))) (\<lambda>count.
     if count > 0 \<and> json_falsy (dict_get d ''subGroups'') then
       bindE (liftE (json_at g ''id'')) (\<lambda>i.
       bindE (kc_get kc token (base @ ''/'' @ conv_str pc i @ ''/children'') None) (\<lambda>children.
       bindE (mapE (\<lambda>c. liftE (flatten c)) children) (\<lambda>below. retE (concat below))))
     else retE []))"

definition groups_path :: "'w keycloak \<Rightarrow> string" where
  "groups_path kc = ''/admin/realms/'' @ kc_realm kc @ ''/groups''"

definition all_groups :: "pyconv \<Rightarrow> 'w keycloak \<Rightarrow> nat \<Rightarrow> string \<Rightarrow> ('w, exn, json list) eff" where
  "all_groups pc kc fuel token =
     bindE (all_pages kc flatten token (groups_path kc) fuel 0 []) (\<lambda>flat.
     bindE (mapE (lazy_children pc kc token (groups_path kc)) flat) (\<lambda>more. retE (flat @ concat more)))"

definition group_ref :: "string \<Rightarrow> exn + string" where
  "group_ref path = validate_ref (''group:'' @ strip_slashes path) ''group''"

definition member_tuples :: "string \<Rightarrow> json \<Rightarrow> tuple list" where
  "member_tuples g m = (case m of
     JObj d \<Rightarrow> (case dict_get d ''username'' of
         JStr name \<Rightarrow> if json_falsy (share_item d ''enabled'' (JBool True)) then []
           else (case validate_ref (''user:'' @ name) ''user'' of Inl e \<Rightarrow> [] | Inr u \<Rightarrow> [(u, ''member'', g)])
       | _ \<Rightarrow> [])
   | _ \<Rightarrow> [])"

definition group_members ::
    "pyconv \<Rightarrow> 'w keycloak \<Rightarrow> nat \<Rightarrow> string \<Rightarrow> json \<Rightarrow> ('w, exn, tuple list) eff" where
  "group_members pc kc fuel token g =
     bindE (liftE (json_at g ''path'')) (\<lambda>path.
     bindE (liftE (group_ref (conv_str pc path))) (\<lambda>ref.
     bindE (liftE (json_at g ''id'')) (\<lambda>i.
     bindE (all_pages kc (\<lambda>m. Inr [m]) token (groups_path kc @ ''/'' @ conv_str pc i @ ''/members'') fuel 0 []) (\<lambda>members.
     retE (concat (map (member_tuples ref) members))))))"

definition keycloak_snapshot ::
    "pyconv \<Rightarrow> ('x, 'm) world_scheme keycloak \<Rightarrow> nat \<Rightarrow> (('x, 'm) world_scheme, exn, snapshot) eff" where
  "keycloak_snapshot pc kc fuel =
     bindE (admin_token kc) (\<lambda>token.
     bindE (all_groups pc kc fuel token) (\<lambda>groups.
     bindE (mapE (group_members pc kc fuel token) groups) (\<lambda>parts.
     take_snapshot (kc_name kc) (concat parts, []))))"

section \<open>What a snapshot may contain\<close>

definition acl_user :: "string \<Rightarrow> bool" where
  "acl_user u = (valid_ref u ''user'' \<or> (\<exists>g. u = g @ ''#member'' \<and> valid_ref g ''group''))"

definition acl_tuple :: "tuple \<Rightarrow> bool" where
  "acl_tuple = (\<lambda>(u, relation, obj).
     relation \<in> {''viewer'', ''editor''} \<and> acl_user u \<and> (valid_ref obj ''source'' \<or> valid_ref obj ''document'')
   \<or> relation = ''parent'' \<and> valid_ref u ''source'' \<and> valid_ref obj ''document''
   \<or> relation = ''member'' \<and> valid_ref u ''user'' \<and> valid_ref obj ''group'')"

lemma partition_char_absent: "c \<notin> set s \<Longrightarrow> partition_char c s = (s, False, [])"
  by (induction s) auto

lemma no_hash: "is_type t \<Longrightarrow> CHR ''#'' \<notin> set t" "list_all id_char i \<Longrightarrow> CHR ''#'' \<notin> set i"
proof -
  have c: "\<not> type_char (CHR ''#'')" "\<not> id_char (CHR ''#'')" "CHR ''#'' \<notin> set lower_alpha" by code_simp+
  show "is_type t \<Longrightarrow> CHR ''#'' \<notin> set t"
    using c by (auto simp: is_type_def list_all_iff split: list.splits)
  show "list_all id_char i \<Longrightarrow> CHR ''#'' \<notin> set i"
    using c by (auto simp: list_all_iff)
qed

lemma valid_ref_no_hash: "valid_ref s t \<Longrightarrow> CHR ''#'' \<notin> set s"
  using no_hash by (auto simp: valid_ref_iff plain_id_def newline_def)

lemma acl_tuple_accepted:
  assumes "acl_tuple t"
  shows "validate_tuple t = Inr t"
proof -
  obtain u relation obj where t: "t = (u, relation, obj)" by (cases t)
  have ids: "isidentifier ''viewer''" "isidentifier ''editor''" "isidentifier ''parent''" "isidentifier ''member''"
    by code_simp+
  have relation: "isidentifier relation" using assms ids by (auto simp: t acl_tuple_def)
  have obj: "valid_pattern obj" using assms by (auto simp: t acl_tuple_def dest: valid_ref_pattern)
  have plain: "partition_char (CHR ''#'') s = (s, False, []) \<and> valid_pattern s" if "valid_ref s ty" for s ty
    using partition_char_absent [OF valid_ref_no_hash [OF that]] valid_ref_pattern [OF that] by simp
  have user: "acl_user u \<or> valid_ref u ''source''" using assms by (auto simp: t acl_tuple_def acl_user_def)
  have "\<exists>base found userset. partition_char (CHR ''#'') u = (base, found, userset) \<and> valid_pattern base
      \<and> (userset = [] \<or> userset = ''member'')"
  proof (cases "\<exists>ty. valid_ref u ty")
    case True
    then show ?thesis using plain by blast
  next
    case False
    then obtain g where g: "u = g @ CHR ''#'' # ''member''" "valid_ref g ''group''"
      using user by (auto simp: acl_user_def)
    then show ?thesis
      using partition_char_hit [OF valid_ref_no_hash [OF g(2)]] valid_ref_pattern [OF g(2)] by blast
  qed
  then show ?thesis
    using relation obj ids(4) by (auto simp: t validate_tuple_def validate_resource_pattern_def)
qed

text \<open>What the loops of the connectors collect.\<close>

lemma mapE_Inr:
  "mapE f xs w = (Inr ys, w') \<Longrightarrow> list_all2 (\<lambda>x y. \<exists>v v'. f x v = (Inr y, v')) xs ys"
proof (induction xs arbitrary: w ys)
  case (Cons x xs)
  then show ?case by (fastforce simp: bindE_Inr retE_def)
qed (simp add: retE_def)

lemma mapE_Inr_in:
  assumes "mapE f xs w = (Inr ys, w')" "y \<in> set ys"
  shows "\<exists>x v v'. x \<in> set xs \<and> f x v = (Inr y, v')"
  using mapE_Inr [OF assms(1)] assms(2) by (auto simp: list_all2_conv_all_nth in_set_conv_nth)

lemma mapE_Inr_from:
  assumes "mapE f xs w = (Inr ys, w')" "x \<in> set xs"
  shows "\<exists>y v v'. y \<in> set ys \<and> f x v = (Inr y, v')"
  using mapE_Inr [OF assms(1)] assms(2) by (auto simp: list_all2_conv_all_nth in_set_conv_nth)

lemma take_snapshot_Inr:
  "take_snapshot name c w = (Inr sn, w') \<Longrightarrow> set (sn_tuples sn) = set (fst c) \<and> sn_documents sn = snd c"
  by (cases c) (auto simp: take_snapshot_def bindE_Inr retE_def)

lemma validate_ref_Inr: "validate_ref s t = Inr r \<longleftrightarrow> r = s \<and> valid_ref s t"
  by (auto simp: validate_ref_def)

lemma acl_principal_Inr: "acl_principal ref = Inr u \<Longrightarrow> acl_user u"
  by (auto simp: acl_principal_def acl_user_def validate_ref_Inr split: if_splits sum.splits)

lemma grants_acl:
  assumes "grants pc spec key relation obj w = (Inr ts, w')" "t \<in> set ts"
  shows "\<exists>u. t = (u, relation, obj) \<and> acl_user u"
proof -
  obtain items v where "mapE (\<lambda>ref. bindE (liftE (manifest_principal pc ref)) (\<lambda>u. retE (u, relation, obj))) items v = (Inr ts, w')"
    using assms(1) by (auto simp: grants_def bindE_Inr liftE_def)
  from mapE_Inr_in [OF this assms(2)] obtain ref u where "manifest_principal pc ref = Inr u" "t = (u, relation, obj)"
    by (auto simp: bindE_Inr liftE_def retE_def)
  then show ?thesis by (auto simp: manifest_principal_def dest: acl_principal_Inr split: sum.splits)
qed

subsection \<open>Files\<close>

lemma folder_tuples_acl:
  assumes "folder_tuples pc spec w = (Inr ts, w')" "t \<in> set ts"
  shows "acl_tuple t"
  using assms
  by (auto simp: folder_tuples_def bindE_Inr liftE_def retE_def validate_ref_Inr acl_tuple_def
      dest!: grants_acl split: if_splits)

lemma folder_tuples_source:
  "folder_tuples pc spec w = (Inr ts, w') \<Longrightarrow> json_get spec ''source'' JNull = Inr v \<Longrightarrow> v \<noteq> JNull \<Longrightarrow>
    valid_ref (conv_str pc v) ''source''"
  by (auto simp: folder_tuples_def bindE_Inr liftE_def validate_ref_Inr)

lemma nearest_in: "nearest folders parts = Some f \<Longrightarrow> map_of folders f \<noteq> None"
proof (induction folders parts rule: nearest.induct)
  case (1 folders parts)
  then show ?case by (subst (asm) (2) nearest.simps) (auto split: if_splits)
qed

lemma file_source_valid:
  fixes w :: 'w
  assumes "file_source pc folders rel = Inr (Some s)" "mapE (folder_tuples pc) (map snd folders) w = (Inr ft, w')"
  shows "valid_ref s ''source''"
proof -
  obtain f v where f: "nearest_folder rel folders = Some f" "json_get (dict_get folders f) ''source'' JNull = Inr v" "v \<noteq> JNull"
    "s = conv_str pc v"
    using assms(1) by (auto simp: file_source_def split: option.splits sum.splits if_splits)
  obtain spec where spec: "map_of folders f = Some spec"
    using nearest_in [OF f(1) [unfolded nearest_folder_def]] by auto
  then have "spec \<in> set (map snd folders)" by (auto dest!: map_of_SomeD intro: rev_image_eqI)
  from mapE_Inr_from [OF assms(2) this] obtain y and u u' :: 'w
    where "folder_tuples pc spec u = (Inr y, u')" by (elim exE conjE)
  then show ?thesis using folder_tuples_source f(2-4) spec by (fastforce simp: dict_get_def)
qed

lemma file_entry_acl:
  fixes w :: 'w
  assumes "file_entry pc fc folders documents rel w = (Inr (ts, m), w')" "t \<in> set ts"
    and "mapE (folder_tuples pc) (map snd folders) v = (Inr ft, v')"
  shows "acl_tuple t"
proof -
  obtain src d spec vs es and u1 u2 u3 u4 :: 'w where e: "file_source pc folders rel = Inr src" "document_id fc rel = Inr d"
    "grants pc spec ''viewers'' ''viewer'' d u1 = (Inr vs, u2)" "grants pc spec ''editors'' ''editor'' d u3 = (Inr es, u4)"
    "ts = (case src of None \<Rightarrow> [] | Some s \<Rightarrow> [(s, ''parent'', d)]) @ vs @ es"
    using assms(1) by (auto simp: file_entry_def bindE_Inr liftE_def retE_def)
  have d: "valid_ref d ''document''" using e(2) by (auto simp: document_id_def validate_ref_Inr)
  have s: "valid_ref s ''source''" if "src = Some s" for s using file_source_valid [OF _ assms(3)] e(1) that by simp
  have "(\<exists>s. src = Some s \<and> t = (s, ''parent'', d)) \<or> t \<in> set vs \<or> t \<in> set es"
    using assms(2) by (cases src) (simp_all add: e(5))
  then consider "\<exists>s. src = Some s \<and> t = (s, ''parent'', d)" | "t \<in> set vs" | "t \<in> set es" by argo
  then show ?thesis
  proof cases
    case 1
    then obtain s0 where "src = Some s0" "t = (s0, ''parent'', d)" by (elim exE conjE)
    then show ?thesis using d s [of s0] by (simp add: acl_tuple_def)
  next
    case 2
    then show ?thesis using d grants_acl [OF e(3) 2] by (auto simp: acl_tuple_def)
  next
    case 3
    then show ?thesis using d grants_acl [OF e(4) 3] by (auto simp: acl_tuple_def)
  qed
qed

lemma files_contents_acl:
  fixes w :: 'w
  assumes "files_contents pc fc manifest listing w = (Inr (ts, docs), w')" "t \<in> set ts"
  shows "acl_tuple t"
proof -
  obtain folders documents ft entries and v v' u u' :: 'w where
    ft: "mapE (folder_tuples pc) (map snd folders) v = (Inr ft, v')"
    and en: "mapE (file_entry pc fc folders documents) (filter (\<lambda>rel. \<not> skipped fc rel) listing) u = (Inr entries, u')"
    and ts: "ts = concat ft @ concat (map fst entries)"
    using assms(1) unfolding files_contents_def bindE_Inr by (elim exE conjE) (auto simp: retE_def)
  from assms(2) consider x where "x \<in> set ft" "t \<in> set x" | e where "e \<in> set entries" "t \<in> set (fst e)"
    by (auto simp: ts)
  then show ?thesis
  proof cases
    case 1
    from mapE_Inr_in [OF ft 1(1)] obtain spec and y y' :: 'w where "folder_tuples pc spec y = (Inr x, y')" by (elim exE conjE)
    then show ?thesis by (rule folder_tuples_acl [OF _ 1(2)])
  next
    case 2
    from mapE_Inr_in [OF en 2(1)] obtain rel and y y' :: 'w
      where "file_entry pc fc folders documents rel y = (Inr e, y')" by (elim exE conjE)
    then have "file_entry pc fc folders documents rel y = (Inr (fst e, snd e), y')" by simp
    then show ?thesis by (rule file_entry_acl [OF _ 2(2) ft])
  qed
qed

subsection \<open>Nextcloud\<close>

definition tree_ok :: "nc_tree \<Rightarrow> bool" where
  "tree_ok tr \<longleftrightarrow> list_all acl_tuple (tr_tuples tr)
     \<and> list_all (\<lambda>(p, d). valid_ref d ''document'') (tr_doc_by_path tr)
     \<and> list_all (\<lambda>(p, s). valid_ref s ''source'') (tr_source_by_path tr)"

lemma update_all: "list_all P al \<Longrightarrow> P (k, v) \<Longrightarrow> list_all P (AList.update k v al)"
  by (induction al) auto

lemma add_entry_ok: "add_entry nc item tr = Inr tr' \<Longrightarrow> tree_ok tr \<Longrightarrow> tree_ok tr'"
  by (auto simp: add_entry_def Let_def tree_ok_def nc_source_id_def nc_document_id_def validate_ref_Inr acl_tuple_def
      intro!: update_all split: if_splits sum.splits option.splits prod.splits)

lemma add_entries_ok: "add_entries nc xs tr = Inr tr' \<Longrightarrow> tree_ok tr \<Longrightarrow> tree_ok tr'"
  by (induction xs arbitrary: tr) (auto dest: add_entry_ok split: sum.splits)

lemma share_principal_acl: "share_principal pc d = Inr (Some u) \<Longrightarrow> acl_user u"
  by (auto simp: share_principal_def ref_or_none_def validate_ref_Inr acl_user_def split: sum.splits json.splits if_splits)

lemma share_relation_cases: "share_relation pc d = Inr r \<Longrightarrow> r \<in> {''viewer'', ''editor''}"
  by (auto simp: share_relation_def split: sum.splits if_splits)

lemma share_tuples_acl:
  assumes "share_tuples pc tr share = Inr ts" "t \<in> set ts" "tree_ok tr"
  shows "acl_tuple t"
proof -
  obtain d u relation obj where t: "t = (u, relation, obj)" "share_principal pc d = Inr (Some u)" "share_relation pc d = Inr relation"
    "valid_ref obj ''source'' \<or> valid_ref obj ''document''"
    using assms
    by (fastforce simp: share_tuples_def Let_def tree_ok_def list_all_iff dest!: map_of_SomeD split: sum.splits option.splits)
  then show ?thesis using share_principal_acl [OF t(2)] share_relation_cases [OF t(3)] by (auto simp: acl_tuple_def)
qed

subsection \<open>PipesHub and Keycloak\<close>

lemma ref_or_none_acl:
  "ref_or_none ref ''group'' ''#member'' = Some u \<Longrightarrow> acl_user u" "ref_or_none ref ''user'' [] = Some u \<Longrightarrow> acl_user u"
  by (auto simp: ref_or_none_def validate_ref_Inr acl_user_def split: sum.splits)

lemma entry_tuples_acl:
  assumes "valid_ref doc ''document''" "t \<in> set (entry_tuples pc ph doc entry)"
  shows "acl_tuple t"
proof -
  obtain d relation u where "t = (u, relation, doc)" "entry_relation (conv_str pc (share_item d ''relationship'' (JStr []))) = Some relation"
    "entry_principal ph d = Some u"
    using assms(2) by (auto simp: entry_tuples_def split: json.splits option.splits)
  moreover from this have "relation \<in> {''viewer'', ''editor''}" by (auto simp: entry_relation_def Let_def split: if_splits)
  moreover have "acl_user u" if "entry_principal ph d = Some u"
    using that by (auto simp: entry_principal_def intro: ref_or_none_acl split: sum.splits option.splits if_splits)
  ultimately show ?thesis using assms(1) by (simp add: acl_tuple_def)
qed

lemma record_source_valid: "record_source ph d = Inr (Some s) \<Longrightarrow> valid_ref s ''source''"
  by (auto simp: record_source_def validate_ref_Inr split: json.splits sum.splits)

lemma record_entry_acl:
  assumes "record_entry pc ph x w = (Inr (ts, docs), w')" "t \<in> set ts"
  shows "acl_tuple t"
proof (cases x)
  case (Pair rid detail)
  then obtain d doc src entries where e: "validate_ref (''document:ph-'' @ rid) ''document'' = Inr doc"
    "record_source ph d = Inr src"
    "ts = (case src of None \<Rightarrow> [] | Some s \<Rightarrow> [(s, ''parent'', doc)]) @ concat (map (entry_tuples pc ph doc) entries)"
    using assms by (cases detail) (auto simp: record_entry_def bindE_Inr liftE_def retE_def)
  have doc: "valid_ref doc ''document''" using e(1) by (simp add: validate_ref_Inr)
  show ?thesis
  proof (cases "\<exists>entry \<in> set entries. t \<in> set (entry_tuples pc ph doc entry)")
    case True
    then show ?thesis using entry_tuples_acl [OF doc] by blast
  next
    case False
    then obtain s where "src = Some s" "t = (s, ''parent'', doc)" using assms(2) by (cases src) (simp_all add: e(3))
    then show ?thesis using record_source_valid [of ph d s] e(2) doc by (simp add: acl_tuple_def)
  qed
qed

lemma member_tuples_acl:
  assumes "valid_ref g ''group''" "t \<in> set (member_tuples g m)"
  shows "acl_tuple t"
proof -
  obtain u where "t = (u, ''member'', g)" "valid_ref u ''user''"
    using assms(2) by (cases m) (auto simp: member_tuples_def validate_ref_Inr dest!: sym [of "Inr _"] split: json.splits if_splits)
  then show ?thesis using assms(1) by (simp add: acl_tuple_def)
qed

lemma group_members_acl:
  assumes "group_members pc kc fuel token g w = (Inr ts, w')" "t \<in> set ts"
  shows "acl_tuple t"
proof -
  obtain ref members where "valid_ref ref ''group''" "ts = concat (map (member_tuples ref) members)"
    using assms(1) by (auto simp: group_members_def bindE_Inr liftE_def retE_def group_ref_def validate_ref_Inr)
  then show ?thesis using assms(2) member_tuples_acl [of ref t] by auto
qed

section \<open>The contract of a source\<close>

text \<open>What the framework relies on of a connector.\<close>

locale acl_source =
  fixes read_source :: "('w, exn, snapshot) eff"
  assumes source_acl: "read_source w = (Inr sn, w') \<Longrightarrow> t \<in> set (sn_tuples sn) \<Longrightarrow> acl_tuple t"
begin

text \<open>The validation of the framework changes nothing.\<close>

lemma validated:
  assumes "read_source w = (Inr sn, w')"
  shows "mapE (\<lambda>t. liftE (validate_tuple t)) (sn_tuples sn) v = (Inr (sn_tuples sn), v)"
proof -
  have "mapE (\<lambda>t. liftE (validate_tuple t)) ts v = (Inr ts, v)" if "set ts \<subseteq> set (sn_tuples sn)" for ts
    using that
  proof (induction ts)
    case (Cons t ts)
    then have "validate_tuple t = Inr t" using source_acl [OF assms] acl_tuple_accepted by simp
    then show ?case using Cons by (simp add: bindE_def liftE_def retE_def)
  qed (simp add: retE_def)
  then show ?thesis by simp
qed

end

interpretation files: acl_source "files_snapshot pc fc manifest listing" for pc fc manifest listing
proof
  fix w :: "('a, 'b) world_scheme" and sn w' t
  assume "files_snapshot pc fc manifest listing w = (Inr sn, w')" "t \<in> set (sn_tuples sn)"
  then show "acl_tuple t"
    by (auto simp: files_snapshot_def bindE_Inr dest!: take_snapshot_Inr intro: files_contents_acl)
qed

interpretation nextcloud: acl_source "nextcloud_snapshot pc nc" for pc nc
proof
  fix w :: "('a, 'b) world_scheme" and sn w' t
  assume run: "nextcloud_snapshot pc nc w = (Inr sn, w')" and t: "t \<in> set (sn_tuples sn)"
  then obtain entries shares tr granted and v v' :: "('a, 'b) world_scheme" where
    tr: "add_entries nc entries empty_tree = Inr tr"
    and gr: "mapE (\<lambda>share. liftE (share_tuples pc tr share)) shares v = (Inr granted, v')"
    and ts: "set (sn_tuples sn) = set (tr_tuples tr @ concat granted)"
    unfolding nextcloud_snapshot_def bindE_Inr by (elim exE conjE) (auto simp: liftE_def dest!: take_snapshot_Inr)
  have ok: "tree_ok tr" using add_entries_ok [OF tr] by (simp add: tree_ok_def empty_tree_def)
  show "acl_tuple t"
  proof (cases "t \<in> set (tr_tuples tr)")
    case True
    then show ?thesis using ok by (simp add: tree_ok_def list_all_iff)
  next
    case False
    then obtain x where x: "x \<in> set granted" "t \<in> set x" using t unfolding ts by auto
    from mapE_Inr_in [OF gr x(1)] obtain share where "share_tuples pc tr share = Inr x" by (auto simp: liftE_def)
    then show ?thesis using share_tuples_acl [OF _ x(2) ok] by blast
  qed
qed

interpretation pipeshub: acl_source "pipeshub_snapshot pc ph fuel" for pc ph fuel
proof
  fix w :: "('a, 'b) world_scheme" and sn w' t
  assume run: "pipeshub_snapshot pc ph fuel w = (Inr sn, w')" and t: "t \<in> set (sn_tuples sn)"
  then obtain ids details parts and v v' :: "('a, 'b) world_scheme" where
    pa: "mapE (record_entry pc ph) (zip ids details) v = (Inr parts, v')" and ts: "set (sn_tuples sn) = set (concat (map fst parts))"
    unfolding pipeshub_snapshot_def bindE_Inr by (elim exE conjE) (auto dest!: take_snapshot_Inr)
  then obtain x where x: "x \<in> set parts" "t \<in> set (fst x)" using t by auto
  from mapE_Inr_in [OF pa x(1)] obtain y and u u' :: "('a, 'b) world_scheme" where "record_entry pc ph y u = (Inr (fst x, snd x), u')" by auto
  then show "acl_tuple t" by (rule record_entry_acl [OF _ x(2)])
qed

interpretation keycloak: acl_source "keycloak_snapshot pc kc fuel" for pc kc fuel
proof
  fix w :: "('a, 'b) world_scheme" and sn w' t
  assume run: "keycloak_snapshot pc kc fuel w = (Inr sn, w')" and t: "t \<in> set (sn_tuples sn)"
  then obtain token groups parts and v v' :: "('a, 'b) world_scheme" where
    pa: "mapE (group_members pc kc fuel token) groups v = (Inr parts, v')" and ts: "set (sn_tuples sn) = set (concat parts)"
    unfolding keycloak_snapshot_def bindE_Inr by (elim exE conjE) (auto dest!: take_snapshot_Inr)
  then obtain x where x: "x \<in> set parts" "t \<in> set x" using t by auto
  from mapE_Inr_in [OF pa x(1)] obtain g and u u' :: "('a, 'b) world_scheme" where "group_members pc kc fuel token g u = (Inr x, u')" by auto
  then show "acl_tuple t" by (rule group_members_acl [OF _ x(2)])
qed

section \<open>Listings are read to the end\<close>

lemma mapE_pure: "\<forall>x \<in> set xs. \<exists>y. f x = Inr y \<Longrightarrow> mapE (\<lambda>x. liftE (f x)) xs w = (Inr (map (projr \<circ> f) xs), w)"
  by (induction xs) (auto simp: bindE_def liftE_def retE_def)

text \<open>
  A hub that serves its nodes in pages: the loop ends and gives the ids of all its records in order, when
  the bound on the pages exceeds the pages there are.
\<close>

theorem record_ids_complete:
  assumes server: "\<And>page w. ph_nodes ph (Suc page) w =
      (Inr (JObj [(''items'', JArr (take (ph_page_size ph) (drop (page * ph_page_size ph) nodes)))]), w)"
    and size: "0 < ph_page_size ph" and ids: "\<forall>x \<in> set nodes. \<exists>y. node_ids pc x = Inr y"
    and fuel: "length nodes < fuel * ph_page_size ph"
  shows "record_ids pc ph fuel 1 [] w = (Inr (concat (map (projr \<circ> node_ids pc) nodes)), w)"
proof -
  let ?n = "ph_page_size ph"
  have "record_ids pc ph fuel (Suc k) acc w = (Inr (acc @ concat (map (projr \<circ> node_ids pc) (drop (k * ?n) nodes))), w)"
    if "length (drop (k * ?n) nodes) < fuel * ?n" for k acc
    using that
  proof (induction fuel arbitrary: k acc)
    case (Suc fuel)
    let ?xs = "take ?n (drop (k * ?n) nodes)"
    have read: "as_unavailable c names (ph_nodes ph (Suc k)) w = (Inr (JObj [(''items'', JArr ?xs)]), w)" for c names
      by (simp add: as_unavailable_def catchE_def server)
    have sub: "\<forall>x \<in> set ?xs. \<exists>y. node_ids pc x = Inr y" using ids by (meson in_set_dropD in_set_takeD)
    show ?case
    proof (cases "?xs = []")
      case True
      then have "drop (k * ?n) nodes = []" using size by simp
      then show ?thesis by (simp add: bindE_def read True dict_get_def json_falsy_def retE_def)
    next
      case False
      have step: "record_ids pc ph (Suc fuel) (Suc k) acc w =
          (if length ?xs < ?n then (Inr (acc @ concat (map (projr \<circ> node_ids pc) ?xs)), w)
           else record_ids pc ph fuel (Suc (Suc k)) (acc @ concat (map (projr \<circ> node_ids pc) ?xs)) w)"
        using False mapE_pure [OF sub, of w]
        by (simp add: bindE_def read dict_get_def json_falsy_def retE_def json_iter_def liftE_def Let_def del: length_take)
      show ?thesis
      proof (cases "length ?xs < ?n")
        case True
        then have eq: "?xs = drop (k * ?n) nodes" by simp
        show ?thesis unfolding step if_P [OF True] unfolding eq ..
      next
        case False
        then have "length (drop (Suc k * ?n) nodes) < fuel * ?n" using Suc.prems by (simp add: algebra_simps)
        from Suc.IH [OF this] have "record_ids pc ph fuel (Suc (Suc k)) (acc @ concat (map (projr \<circ> node_ids pc) ?xs)) w
            = (Inr (acc @ concat (map (projr \<circ> node_ids pc) (?xs @ drop (Suc k * ?n) nodes))), w)" by (simp add: comp_def)
        moreover have "?xs @ drop (Suc k * ?n) nodes = drop (k * ?n) nodes"
          by (metis add.commute append_take_drop_id drop_drop mult_Suc)
        ultimately show ?thesis unfolding step if_not_P [OF False] by (simp only:)
      qed
    qed
  qed simp
  from this [of 0 "[]"] show ?thesis using fuel by simp
qed

text \<open>The same for the pages of the Keycloak admin API, which end with an empty one.\<close>

theorem all_pages_complete:
  assumes server: "\<And>first w. kc_read kc token path (Some first) w = (Inr (JArr (take 100 (drop first items))), w)"
    and dicts: "\<forall>x \<in> set items. is_obj x" and each: "\<forall>x \<in> set items. \<exists>y. each x = Inr y"
    and fuel: "length items + 100 \<le> fuel * 100"
  shows "all_pages kc each token path fuel 0 [] w = (Inr (concat (map (projr \<circ> each) items)), w)"
proof -
  have "all_pages kc each token path fuel first acc w = (Inr (acc @ concat (map (projr \<circ> each) (drop first items))), w)"
    if "length (drop first items) + 100 \<le> fuel * 100" for first acc
    using that
  proof (induction fuel arbitrary: first acc)
    case (Suc fuel)
    let ?xs = "take 100 (drop first items)"
    have "filter is_obj ?xs = ?xs" using dicts by (auto simp: filter_id_conv dest: in_set_dropD in_set_takeD)
    then have read: "kc_get kc token path (Some first) w = (Inr ?xs, w)"
      by (simp add: kc_get_def bindE_def as_unavailable_def catchE_def server only_dicts_def retE_def)
    have sub: "\<forall>x \<in> set ?xs. \<exists>y. each x = Inr y" using each by (meson in_set_dropD in_set_takeD)
    show ?case
    proof (cases "?xs = []")
      case True
      then have "drop first items = []" by simp
      then show ?thesis by (simp add: bindE_def read True retE_def)
    next
      case False
      have "length (drop (first + 100) items) + 100 \<le> fuel * 100"
        using Suc.prems False by (cases fuel) auto
      from Suc.IH [OF this] have "all_pages kc each token path fuel (first + 100) (acc @ concat (map (projr \<circ> each) ?xs)) w
          = (Inr (acc @ concat (map (projr \<circ> each) (?xs @ drop (first + 100) items))), w)" by (simp add: comp_def)
      moreover have "?xs @ drop (first + 100) items = drop first items"
        by (metis add.commute append_take_drop_id drop_drop)
      ultimately show ?thesis using False mapE_pure [OF sub, of w]
        by (simp add: bindE_def read) (simp add: comp_def)
    qed
  qed simp
  from this [of 0 "[]"] show ?thesis using fuel by simp
qed

section \<open>Where a source is read too widely or not at all\<close>

text \<open>
  With the default strategy a file's document is named by its stem alone: two files of the same stem in
  different folders are one document, and the readers of either folder read both.
\<close>

theorem same_stem_shares_access:
  fixes w :: 'w
  assumes run: "files_contents pc fc manifest listing w = (Inr (ts, docs), w')" and "fc_id_strategy fc = Stem"
    and m: "m1 \<in> set docs" "m2 \<in> set docs" and "path_stem (dm_path m1) = path_stem (dm_path m2)" and "dm_source m1 = Some s"
  shows "(s, ''parent'', dm_id m2) \<in> set ts"
proof -
  obtain folders documents ft entries and v v' u u' :: 'w where
    en: "mapE (file_entry pc fc folders documents) (filter (\<lambda>rel. \<not> skipped fc rel) listing) u = (Inr entries, u')"
    and ts: "ts = concat ft @ concat (map fst entries)" "docs = map snd entries"
    using run unfolding files_contents_def bindE_Inr by (elim exE conjE) (auto simp: retE_def)
  have meta: "dm_id (snd e) = ''document:'' @ path_stem (dm_path (snd e))
      \<and> (\<forall>s. dm_source (snd e) = Some s \<longrightarrow> (s, ''parent'', dm_id (snd e)) \<in> set (fst e))" if "e \<in> set entries" for e
  proof -
    from mapE_Inr_in [OF en that] obtain rel and y y' :: 'w where "file_entry pc fc folders documents rel y = (Inr e, y')"
      by (elim exE conjE)
    then show ?thesis
      using \<open>fc_id_strategy fc = Stem\<close>
      by (auto simp: file_entry_def bindE_Inr liftE_def retE_def document_id_def validate_ref_Inr)
  qed
  obtain e1 e2 where e: "e1 \<in> set entries" "m1 = snd e1" "e2 \<in> set entries" "m2 = snd e2" using m ts(2) by auto
  have "dm_id m2 = dm_id m1" using meta [OF e(1)] meta [OF e(3)] e assms(5) by simp
  then show ?thesis using meta [OF e(1)] e(1,2) assms(6) ts(1) by auto
qed

text \<open>
  The test for hidden files looks at every part of the path, those of the root included: under a root with
  a part that starts with a dot, every file is skipped.
\<close>

theorem hidden_root_reads_nothing:
  assumes "list_ex (\<lambda>part. startswith part ''.'') (fc_root fc)"
    and "files_contents pc fc manifest listing w = (Inr (ts, docs), w')"
  shows "docs = []"
proof -
  have "skipped fc rel" for rel using assms(1) by (simp add: skipped_def)
  then have "filter (\<lambda>rel. \<not> skipped fc rel) listing = []" by simp
  then show ?thesis
    using assms(2) unfolding files_contents_def bindE_Inr by (elim exE conjE) (simp add: retE_def)
qed

text \<open>
  Children that a listing left out are fetched once: the children of a fetched child are not, so with lazily
  loaded groups the members of a group at the third level are missing from the snapshot.
\<close>

definition lazy_group :: "string \<Rightarrow> json" where
  "lazy_group name = JObj [(''id'', JStr name), (''path'', JStr (''/'' @ name)), (''subGroupCount'', JInt 1)]"

definition nested_keycloak :: "json list \<Rightarrow> 'w keycloak" where
  "nested_keycloak below_b = \<lparr>kc_name = ''keycloak-acme'', kc_realm = ''acme'',
     kc_login = retE (JObj [(''access_token'', JStr ''t'')]),
     kc_read = (\<lambda>token path first. retE (JArr (
       if first = Some 0 then [lazy_group ''a'']
       else if path = ''/admin/realms/acme/groups/a/children'' then [lazy_group ''b'']
       else if path = ''/admin/realms/acme/groups/b/children'' then below_b else [])))\<rparr>"

lemma flatten_lazy: "flatten (lazy_group name) = Inr [lazy_group name]"
  by (simp add: flatten.simps lazy_group_def sub_items_def py_or_def dict_get_def json_falsy_def)

theorem third_level_not_read:
  "all_groups std_conv (nested_keycloak below_b) 2 token w = (Inr [lazy_group ''a'', lazy_group ''b''], w)"
proof -
  have obj: "is_obj (lazy_group name)" for name by (simp add: is_obj_def lazy_group_def)
  have listed: "all_pages (nested_keycloak below_b) flatten token ''/admin/realms/acme/groups'' 2 0 [] w = (Inr [lazy_group ''a''], w)"
    by (simp add: numeral_2_eq_2 bindE_def kc_get_def as_unavailable_def catchE_def nested_keycloak_def retE_def only_dicts_def obj
        liftE_def flatten_lazy)
  have children: "lazy_children std_conv (nested_keycloak below_b) token ''/admin/realms/acme/groups'' (lazy_group ''a'') w
      = (Inr [lazy_group ''b''], w)"
    by (simp add: lazy_children_def bindE_def liftE_def json_dict_def lazy_group_def [of "''a''"] py_int_of_def share_item_def py_or_def
        json_falsy_def std_conv_def dict_get_def json_at_def kc_get_def as_unavailable_def catchE_def nested_keycloak_def retE_def
        only_dicts_def obj flatten_lazy)
  show ?thesis
    using listed children by (simp add: all_groups_def groups_path_def bindE_def retE_def nested_keycloak_def [THEN arg_cong [of _ _ kc_realm]])
qed

end
