(* ===== verification/Api_RateLimit.thy ===== *)
theory Api_RateLimit
  imports Core_Events "HOL-Library.Product_Lexorder" "HOL-Library.Multiset"
begin

text \<open>
  The per-caller token bucket in front of the routes (\<open>api/ratelimit.py\<close>).

  A limiter keeps an insertion-ordered dict of buckets. A request is charged to the bucket of its
  bearer's fingerprint or, without a bearer, of its address; a bearer without a bucket is first
  charged to the address's new-bearer bucket. Floats are rationals: the arithmetic is exact, and a
  clock reading is an argument of the operation that reads the clock.

  The lemmas show the shape every operation keeps (at most \<open>MAX_BUCKETS\<close> buckets, each between
  zero and its capacity), that an eviction forgets the buckets with the most tokens first, and that
  over any run the requests charged to a key are at most its capacity, what it refilled, and its
  capacity again for every eviction that dropped its bucket too early.
\<close>

definition MAX_BUCKETS :: nat where
  "MAX_BUCKETS = 10000"

record token_bucket =
  tb_tokens :: rat
  tb_updated :: rat

type_synonym buckets = "(string \<times> token_bucket) list"

record rate_limiter =
  rl_per_minute :: int
  rl_rate :: rat
  rl_buckets :: buckets

definition mk_limiter :: "int \<Rightarrow> rate_limiter" where
  "mk_limiter n = \<lparr>rl_per_minute = n, rl_rate = of_int n / 60, rl_buckets = []\<rparr>"

abbreviation capacity :: "rate_limiter \<Rightarrow> rat" where
  "capacity rl \<equiv> of_int (rl_per_minute rl)"

definition refill :: "rate_limiter \<Rightarrow> rat \<Rightarrow> token_bucket \<Rightarrow> token_bucket" where
  "refill rl t b = b\<lparr>tb_tokens := min (capacity rl) (tb_tokens b + (t - tb_updated b) * rl_rate rl),
     tb_updated := t\<rparr>"

definition draw :: "rate_limiter \<Rightarrow> token_bucket \<Rightarrow> rat option \<times> token_bucket" where
  "draw rl b =
     (if 1 \<le> tb_tokens b then (None, b\<lparr>tb_tokens := tb_tokens b - 1\<rparr>)
      else (Some ((1 - tb_tokens b) / rl_rate rl), b))"

definition level :: "rate_limiter \<Rightarrow> rat \<Rightarrow> token_bucket \<Rightarrow> rat" where
  "level rl t b = min (capacity rl) (tb_tokens b + (t - tb_updated b) * rl_rate rl)"

text \<open>The refilled buckets go; when that is not enough, the half with the most tokens, oldest first.\<close>

definition unfilled :: "rate_limiter \<Rightarrow> rat \<Rightarrow> buckets" where
  "unfilled rl t = filter (\<lambda>(k, b). \<not> capacity rl \<le> level rl t b) (rl_buckets rl)"

definition ranked :: "rate_limiter \<Rightarrow> rat \<Rightarrow> buckets \<Rightarrow> buckets" where
  "ranked rl t = sort_key (\<lambda>(k, b). (- level rl t b, tb_updated b))"

definition evict :: "rate_limiter \<Rightarrow> rat \<Rightarrow> buckets" where
  "evict rl t =
     (let left = unfilled rl t in
      if MAX_BUCKETS \<le> length left then
        let gone = set (map fst (take (length left div 2) (ranked rl t left))) in
        filter (\<lambda>(k, b). k \<notin> gone) left
      else left)"

definition open_bucket :: "string \<Rightarrow> rat \<Rightarrow> rate_limiter \<Rightarrow> token_bucket \<times> rate_limiter" where
  "open_bucket key t rl =
     (let kept = (if MAX_BUCKETS \<le> length (rl_buckets rl) then evict rl t else rl_buckets rl);
          b = \<lparr>tb_tokens = capacity rl, tb_updated = t\<rparr> in
      (b, rl\<lparr>rl_buckets := AList.update key b kept\<rparr>))"

text \<open>\<open>_draw\<close> on the bucket the dict holds under \<open>key\<close>.\<close>

definition draw_at :: "string \<Rightarrow> token_bucket \<times> rate_limiter \<Rightarrow> rat option \<times> rate_limiter" where
  "draw_at key = (\<lambda>(b, rl). case draw rl b of
     (wait, b') \<Rightarrow> (wait, rl\<lparr>rl_buckets := AList.update key b' (rl_buckets rl)\<rparr>))"

definition acquire :: "string \<Rightarrow> rat \<Rightarrow> rate_limiter \<Rightarrow> rat option \<times> rate_limiter" where
  "acquire key t rl =
     (if rl_per_minute rl \<le> 0 then (None, rl)
      else case map_of (rl_buckets rl) key of
        None \<Rightarrow> draw_at key (open_bucket key t rl)
      | Some b \<Rightarrow> draw_at key (refill rl t b, rl))"

text \<open>\<open>t\<close> and \<open>t'\<close> are the readings of the clock, in order; the second is read only by the
  \<open>acquire\<close> a new bearer goes through.\<close>

definition acquire_request ::
    "string option \<Rightarrow> string \<Rightarrow> rat \<Rightarrow> rat \<Rightarrow> rate_limiter \<Rightarrow> rat option \<times> rate_limiter" where
  "acquire_request bearer address t t' rl =
     (if rl_per_minute rl \<le> 0 then (None, rl)
      else case bearer of
        None \<Rightarrow> acquire (''addr:'' @ address) t rl
      | Some b \<Rightarrow>
         (let key = ''bearer:'' @ b in
          case map_of (rl_buckets rl) key of
            Some bucket \<Rightarrow> draw_at key (refill rl t bucket, rl)
          | None \<Rightarrow>
             (case acquire (''new:'' @ address) t' rl of
                (Some wait, rl') \<Rightarrow> (Some wait, rl')
              | (None, rl') \<Rightarrow> draw_at key (open_bucket key t rl'))))"

section \<open>The middleware\<close>

record asgi_scope =
  sc_type :: string
  sc_path :: "string option"
  sc_headers :: "(string \<times> string) list"
  sc_client :: "string option"

datatype asgi_outcome =
    CallApp
  | Respond int "(string \<times> string) list" string

text \<open>\<open>fingerprint\<close> of a header value, which is a byte string.\<close>

definition fingerprint_bytes :: "string \<Rightarrow> string" where
  "fingerprint_bytes v = sha256_bytes (map of_char v)"

definition identify :: "asgi_scope \<Rightarrow> string option \<times> string" where
  "identify sc =
     (map_option (\<lambda>(n, v). fingerprint_bytes v) (find (\<lambda>(n, v). n = ''authorization'') (sc_headers sc)),
      case sc_client sc of None \<Rightarrow> ''unknown'' | Some a \<Rightarrow> a)"

text \<open>\<open>int(x)\<close> cuts towards zero.\<close>

definition py_int :: "rat \<Rightarrow> int" where
  "py_int x = (if 0 \<le> x then \<lfloor>x\<rfloor> else \<lceil>x\<rceil>)"

definition retry_after :: "rat \<Rightarrow> int" where
  "retry_after wait = max 1 (py_int (wait + 999 / 1000))"

definition limited_body :: string where
  "limited_body = dumps (JObj [(''error'', JStr ''rate_limited''), (''detail'', JStr ''too many requests'')])"

definition too_many :: "rat \<Rightarrow> asgi_outcome" where
  "too_many wait = Respond 429
     [(''content-type'', ''application/json''), (''content-length'', show_nat (length limited_body)),
      (''retry-after'', show_int (retry_after wait))] limited_body"

definition rate_limit ::
    "string set \<Rightarrow> asgi_scope \<Rightarrow> rat \<Rightarrow> rat \<Rightarrow> rate_limiter \<Rightarrow> asgi_outcome \<times> rate_limiter" where
  "rate_limit exempt sc t t' rl =
     (if sc_type sc \<noteq> ''http'' \<or> (\<exists>p \<in> exempt. sc_path sc = Some p) then (CallApp, rl)
      else case identify sc of
        (bearer, address) \<Rightarrow>
          (case acquire_request bearer address t t' rl of
             (None, rl') \<Rightarrow> (CallApp, rl')
           | (Some wait, rl') \<Rightarrow> (too_many wait, rl')))"

section \<open>The shape of a limiter\<close>

text \<open>What holds of a limiter whose clock has not passed \<open>t\<close>.\<close>

definition bucket_ok :: "rate_limiter \<Rightarrow> rat \<Rightarrow> token_bucket \<Rightarrow> bool" where
  "bucket_ok rl t b \<longleftrightarrow> 0 \<le> tb_tokens b \<and> tb_tokens b \<le> capacity rl \<and> tb_updated b \<le> t"

definition limiter_ok :: "rat \<Rightarrow> rate_limiter \<Rightarrow> bool" where
  "limiter_ok t rl \<longleftrightarrow> 0 < rl_per_minute rl \<and> rl_rate rl = capacity rl / 60
     \<and> distinct (map fst (rl_buckets rl)) \<and> length (rl_buckets rl) \<le> MAX_BUCKETS
     \<and> (\<forall>kb \<in> set (rl_buckets rl). bucket_ok rl t (snd kb))"


lemma limiter_ok_simps:
  assumes "limiter_ok t rl"
  shows "0 < rl_per_minute rl" "1 \<le> capacity rl" "0 < rl_rate rl" "distinct (map fst (rl_buckets rl))"
    "length (rl_buckets rl) \<le> MAX_BUCKETS"
proof -
  have pos: "0 < rl_per_minute rl" using assms by (simp add: limiter_ok_def)
  then have "(1 :: rat) \<le> of_int (rl_per_minute rl)" by (simp only: of_int_1_le_iff)
  then show "1 \<le> capacity rl" "0 < rl_rate rl" using assms by (simp_all add: limiter_ok_def)
qed (use assms in \<open>simp_all add: limiter_ok_def\<close>)

lemma mk_limiter_ok: "0 < n \<Longrightarrow> limiter_ok t (mk_limiter n)"
  by (simp add: limiter_ok_def mk_limiter_def)

lemma bucket_ok_later: "bucket_ok rl t b \<Longrightarrow> t \<le> t' \<Longrightarrow> bucket_ok rl t' b"
  by (simp add: bucket_ok_def)

lemma limiter_ok_later: "limiter_ok t rl \<Longrightarrow> t \<le> t' \<Longrightarrow> limiter_ok t' rl"
  by (auto simp: limiter_ok_def intro: bucket_ok_later)

lemma limiter_ok_bucket:
  "limiter_ok t rl \<Longrightarrow> map_of (rl_buckets rl) k = Some b \<Longrightarrow> bucket_ok rl t b"
  by (auto simp: limiter_ok_def dest!: map_of_SomeD)

lemma bucket_ok_cong: "rl_per_minute rl' = rl_per_minute rl \<Longrightarrow> bucket_ok rl' t b = bucket_ok rl t b"
  by (simp add: bucket_ok_def)

text \<open>Replacing the buckets of a limiter.\<close>

lemma limiter_ok_buckets:
  assumes "limiter_ok t rl" "distinct (map fst bs)" "length bs \<le> MAX_BUCKETS"
    and "\<And>kb. kb \<in> set bs \<Longrightarrow> bucket_ok rl t (snd kb)"
  shows "limiter_ok t (rl\<lparr>rl_buckets := bs\<rparr>)"
  using assms by (simp add: limiter_ok_def bucket_ok_def)

lemma set_update_subset: "set (AList.update k v al) \<subseteq> insert (k, v) (set al)"
  by (induction al) auto

lemma length_update: "length (AList.update k v al) = (if k \<in> fst ` set al then length al else Suc (length al))"
  by (induction al) auto

lemma map_of_Some_fst: "map_of al k = Some b \<Longrightarrow> k \<in> fst ` set al"
  by (metis domI dom_map_of_conv_image_fst)

lemma draw_ok:
  assumes "bucket_ok rl t b" "draw rl b = (wait, b')"
  shows "bucket_ok rl t b'"
  using assms by (auto simp: draw_def bucket_ok_def split: if_splits)

lemma draw_at_ok:
  assumes ok: "limiter_ok t rl" and b: "bucket_ok rl t b" and k: "k \<in> fst ` set (rl_buckets rl)"
    and run: "draw_at k (b, rl) = (wait, rl')"
  shows "limiter_ok t rl'"
proof -
  obtain b' where d: "draw rl b = (wait, b')"
    and rl': "rl' = rl\<lparr>rl_buckets := AList.update k b' (rl_buckets rl)\<rparr>"
    using run by (auto simp: draw_at_def split: prod.splits)
  have "bucket_ok rl t b'" using draw_ok [OF b d] .
  then show ?thesis
    unfolding rl' using ok k set_update_subset [of k b' "rl_buckets rl"]
    by (intro limiter_ok_buckets)
       (auto simp: length_update limiter_ok_def distinct_update)
qed

lemma refill_ok:
  assumes "limiter_ok t rl" "bucket_ok rl t b" "t \<le> t'"
  shows "bucket_ok rl t' (refill rl t' b)"
proof -
  have "tb_updated b \<le> t'" using assms by (simp add: bucket_ok_def)
  then have "0 \<le> (t' - tb_updated b) * rl_rate rl" using limiter_ok_simps(3) [OF assms(1)] by simp
  then show ?thesis using assms limiter_ok_simps(2) [OF assms(1)]
    by (simp add: refill_def bucket_ok_def)
qed

subsection \<open>Eviction\<close>

lemma unfilled_subset: "set (unfilled rl t) \<subseteq> set (rl_buckets rl)"
  by (auto simp: unfilled_def)

lemma distinct_unfilled: "distinct (map fst (rl_buckets rl)) \<Longrightarrow> distinct (map fst (unfilled rl t))"
  by (simp add: unfilled_def distinct_map_filter)

lemma set_ranked [simp]: "set (ranked rl t bs) = set bs"
  by (simp add: ranked_def)

lemma length_ranked [simp]: "length (ranked rl t bs) = length bs"
  by (simp add: ranked_def)

lemma mset_ranked [simp]: "mset (ranked rl t bs) = mset bs"
  by (simp add: ranked_def)

lemma distinct_ranked: "distinct (map fst bs) \<Longrightarrow> distinct (map fst (ranked rl t bs))"
  using mset_eq_imp_distinct_iff [of "map fst (ranked rl t bs)" "map fst bs"] by simp

lemma filter_not_taken:
  assumes "distinct (map fst r)"
  shows "filter (\<lambda>(k, b). k \<notin> set (map fst (take m r))) r = drop m r"
proof -
  let ?P = "\<lambda>(k, b). k \<notin> set (map fst (take m r))"
  have "distinct (map fst (take m r) @ map fst (drop m r))"
    using assms by (simp flip: map_append)
  then have dis: "set (map fst (take m r)) \<inter> set (map fst (drop m r)) = {}"
    by (simp only: distinct_append)
  have "filter ?P (take m r) = []"
    by (auto simp: filter_empty_conv intro: rev_image_eqI)
  moreover have "fst x \<notin> set (map fst (take m r))" if "x \<in> set (drop m r)" for x
    using dis that by (metis IntI emptyE image_eqI list.set_map)
  then have "filter ?P (drop m r) = drop m r"
    by (simp add: filter_id_conv case_prod_beta)
  ultimately show ?thesis
    using filter_append [of ?P "take m r" "drop m r"] by simp
qed

text \<open>What a lossy eviction keeps, in the order of the ranking.\<close>

lemma evict_lossy:
  assumes dist: "distinct (map fst (rl_buckets rl))" and full: "MAX_BUCKETS \<le> length (unfilled rl t)"
  defines "r \<equiv> ranked rl t (unfilled rl t)"
  shows "mset (evict rl t) = mset (drop (length (unfilled rl t) div 2) r)"
proof -
  let ?m = "length (unfilled rl t) div 2"
  have "distinct (map fst r)" using distinct_ranked [OF distinct_unfilled [OF dist]] by (simp add: r_def)
  then have "mset (drop ?m r) = filter_mset (\<lambda>(k, b). k \<notin> set (map fst (take ?m r))) (mset r)"
    using filter_not_taken [of r ?m] by (metis mset_filter)
  then show ?thesis using full by (simp add: evict_def r_def Let_def)
qed

lemma evict_quiet: "length (unfilled rl t) < MAX_BUCKETS \<Longrightarrow> evict rl t = unfilled rl t"
  by (simp add: evict_def Let_def)

lemma evict_subset: "set (evict rl t) \<subseteq> set (rl_buckets rl)"
  using unfilled_subset [of rl t] by (auto simp: evict_def Let_def)

lemma distinct_evict: "distinct (map fst (rl_buckets rl)) \<Longrightarrow> distinct (map fst (evict rl t))"
  using distinct_unfilled [of rl t] by (auto simp: evict_def Let_def distinct_map_filter)

lemma evict_makes_room:
  assumes "limiter_ok t0 rl"
  shows "length (evict rl t) < MAX_BUCKETS"
proof (cases "MAX_BUCKETS \<le> length (unfilled rl t)")
  case True
  have "length (unfilled rl t) \<le> MAX_BUCKETS"
    using limiter_ok_simps(5) [OF assms] length_filter_le le_trans unfolding unfilled_def by blast
  moreover have "length (evict rl t) = length (unfilled rl t) - length (unfilled rl t) div 2"
    using arg_cong [OF evict_lossy [OF limiter_ok_simps(4) [OF assms] True], of size] by simp
  ultimately show ?thesis using True by (simp add: MAX_BUCKETS_def)
qed (simp add: evict_quiet)

lemma open_bucket_ok:
  assumes ok: "limiter_ok t rl" and new: "map_of (rl_buckets rl) k = None" and "t0 \<le> t"
    and run: "open_bucket k t0 rl = (b, rl')"
  shows "limiter_ok t rl' \<and> bucket_ok rl' t b \<and> map_of (rl_buckets rl') k = Some b"
proof -
  define kept where "kept = (if MAX_BUCKETS \<le> length (rl_buckets rl) then evict rl t0 else rl_buckets rl)"
  have run': "b = \<lparr>tb_tokens = capacity rl, tb_updated = t0\<rparr>"
    "rl' = rl\<lparr>rl_buckets := AList.update k b kept\<rparr>"
    using run by (auto simp: open_bucket_def kept_def Let_def)
  have sub: "set kept \<subseteq> set (rl_buckets rl)" using evict_subset by (auto simp: kept_def)
  have dist: "distinct (map fst kept)"
    using distinct_evict limiter_ok_simps(4) [OF ok] by (simp add: kept_def)
  have len: "length kept < MAX_BUCKETS" using evict_makes_room [OF ok] by (simp add: kept_def)
  have all: "bucket_ok rl t (snd kb)" if "kb \<in> set (rl_buckets rl)" for kb
    using ok that by (simp add: limiter_ok_def)
  have b: "bucket_ok rl t b" using limiter_ok_simps(1) [OF ok] \<open>t0 \<le> t\<close> by (simp add: run'(1) bucket_ok_def)
  have "limiter_ok t rl'"
    unfolding run'(2)
  proof (rule limiter_ok_buckets [OF ok])
    show "bucket_ok rl t (snd kb)" if "kb \<in> set (AList.update k b kept)" for kb
      using that set_update_subset [of k b kept] sub all b by fastforce
  qed (use dist len in \<open>simp_all add: length_update distinct_update\<close>)
  then show ?thesis using b by (simp add: run' map_of_update bucket_ok_def)
qed

lemma rl_params:
  "rl_per_minute (snd (draw_at k (b, rl))) = rl_per_minute rl"
  "rl_per_minute (snd (open_bucket k t rl)) = rl_per_minute rl"
  by (simp_all add: draw_at_def open_bucket_def Let_def split: prod.splits)

lemma draw_opened_ok:
  assumes "limiter_ok t rl" "map_of (rl_buckets rl) k = None" "t0 \<le> t"
    and "draw_at k (open_bucket k t0 rl) = (wait, rl')"
  shows "limiter_ok t rl'"
proof -
  obtain b rl1 where op: "open_bucket k t0 rl = (b, rl1)" by fastforce
  then show ?thesis
    using open_bucket_ok [OF assms(1-3) op] draw_at_ok [of t rl1 b k wait rl'] assms(4)
    by (auto dest!: map_of_Some_fst)
qed

lemma draw_refilled_ok:
  assumes "limiter_ok t rl" "map_of (rl_buckets rl) k = Some b" "t \<le> t'"
    and "draw_at k (refill rl t' b, rl) = (wait, rl')"
  shows "limiter_ok t' rl'"
  using draw_at_ok [OF limiter_ok_later refill_ok _ assms(4), of t t]
    limiter_ok_bucket [OF assms(1,2)] assms
  by (auto dest!: map_of_Some_fst)

lemma acquire_ok:
  assumes ok: "limiter_ok t rl" and "t \<le> t'" and run: "acquire k t' rl = (wait, rl')"
  shows "limiter_ok t' rl'"
proof (cases "map_of (rl_buckets rl) k")
  case None
  then show ?thesis
    using draw_opened_ok [OF limiter_ok_later [OF ok \<open>t \<le> t'\<close>] None order_refl] run limiter_ok_simps(1) [OF ok]
    by (simp add: acquire_def)
next
  case (Some b)
  then show ?thesis
    using draw_refilled_ok [OF ok Some \<open>t \<le> t'\<close>] run limiter_ok_simps(1) [OF ok] by (simp add: acquire_def)
qed

section \<open>What a key can spend\<close>

text \<open>The tokens a request of a key would find at a time: a key without a bucket finds a full one.\<close>

definition funds :: "string \<Rightarrow> rat \<Rightarrow> rate_limiter \<Rightarrow> rat" where
  "funds k t rl = (case map_of (rl_buckets rl) k of None \<Rightarrow> capacity rl | Some b \<Rightarrow> level rl t b)"

lemma level_buckets [simp]: "level (rl\<lparr>rl_buckets := bs\<rparr>) t b = level rl t b"
  by (simp add: level_def)

lemma level_mono:
  assumes "limiter_ok t0 rl" "t \<le> t'"
  shows "level rl t b \<le> level rl t' b"
proof -
  have "(t - tb_updated b) * rl_rate rl \<le> (t' - tb_updated b) * rl_rate rl"
    using assms limiter_ok_simps(3) [OF assms(1)] by simp
  then show ?thesis by (simp add: level_def min_le_iff_disj)
qed

lemma level_grows:
  assumes "limiter_ok t0 rl" "t \<le> t'"
  shows "level rl t' b \<le> level rl t b + (t' - t) * rl_rate rl"
proof -
  have "0 \<le> (t' - t) * rl_rate rl" using assms limiter_ok_simps(3) [OF assms(1)] by simp
  then show ?thesis by (simp add: level_def min_def algebra_simps)
qed

lemma funds_grow:
  assumes "limiter_ok t0 rl" "t \<le> t'"
  shows "funds k t' rl \<le> funds k t rl + (t' - t) * rl_rate rl"
  using level_grows [OF assms] assms limiter_ok_simps(3) [OF assms(1)]
  by (simp add: funds_def split: option.splits)

lemma funds_nonneg:
  assumes "limiter_ok t rl"
  shows "0 \<le> funds k t rl"
proof (cases "map_of (rl_buckets rl) k")
  case (Some b)
  then have "bucket_ok rl t b" using assms by (rule limiter_ok_bucket [rotated])
  then have "0 \<le> tb_tokens b" "0 \<le> (t - tb_updated b) * rl_rate rl"
    using limiter_ok_simps(3) [OF assms] by (simp_all add: bucket_ok_def)
  then show ?thesis using Some limiter_ok_simps(1) [OF assms] by (simp add: funds_def level_def)
qed (use limiter_ok_simps(1) [OF assms] in \<open>simp add: funds_def\<close>)

lemma funds_le_capacity: "funds k t rl \<le> capacity rl"
  by (simp add: funds_def level_def split: option.splits)

text \<open>An eviction that only drops refilled buckets changes nothing a request can observe.\<close>

lemma map_of_filter_distinct:
  "distinct (map fst al) \<Longrightarrow> map_of (filter P al) k =
     (case map_of al k of None \<Rightarrow> None | Some v \<Rightarrow> if P (k, v) then Some v else None)"
  by (induction al) (auto split: option.splits dest: map_of_Some_fst simp: map_of_eq_None_iff)

lemma funds_unfilled:
  assumes "limiter_ok t0 rl" "t \<le> t'"
  shows "funds k t' (rl\<lparr>rl_buckets := unfilled rl t\<rparr>) = funds k t' rl"
proof (cases "map_of (rl_buckets rl) k")
  case None
  then show ?thesis
    by (simp add: funds_def unfilled_def map_of_filter_distinct limiter_ok_simps(4) [OF assms(1)])
next
  case (Some b)
  have "level rl t' b = capacity rl" if "capacity rl \<le> level rl t b"
    using that level_mono [OF assms, of b] by (simp add: level_def)
  then show ?thesis
    using Some by (auto simp: funds_def unfilled_def map_of_filter_distinct limiter_ok_simps(4) [OF assms(1)]
        level_def)
qed

lemma funds_open:
  assumes ok: "limiter_ok t0 rl" and quiet: "length (unfilled rl t) < MAX_BUCKETS"
    and run: "open_bucket key t rl = (b, rl')" and "t \<le> t'" "k \<noteq> key"
  shows "funds k t' rl' = funds k t' rl"
proof -
  define kept where "kept = (if MAX_BUCKETS \<le> length (rl_buckets rl) then evict rl t else rl_buckets rl)"
  have "rl' = rl\<lparr>rl_buckets := AList.update key b kept\<rparr>"
    using run by (auto simp: open_bucket_def kept_def Let_def)
  then have "funds k t' rl' = funds k t' (rl\<lparr>rl_buckets := kept\<rparr>)"
    using \<open>k \<noteq> key\<close> by (simp add: funds_def map_of_update split: option.splits)
  also have "\<dots> = funds k t' rl"
    using funds_unfilled [OF ok \<open>t \<le> t'\<close>] by (simp add: kept_def evict_quiet [OF quiet])
  finally show ?thesis .
qed

text \<open>Any eviction leaves the bucket of another key as it is, or drops it.\<close>

lemma open_other:
  assumes ok: "limiter_ok t0 rl" and run: "open_bucket key t rl = (b, rl')" and "k \<noteq> key"
  shows "map_of (rl_buckets rl') k = None \<or> funds k t' rl' = funds k t' rl"
proof -
  define kept where "kept = (if MAX_BUCKETS \<le> length (rl_buckets rl) then evict rl t else rl_buckets rl)"
  have rl': "rl' = rl\<lparr>rl_buckets := AList.update key b kept\<rparr>" using run by (auto simp: open_bucket_def kept_def Let_def)
  have sub: "set kept \<subseteq> set (rl_buckets rl)" using evict_subset by (auto simp: kept_def)
  have "map_of (rl_buckets rl) k = Some v" if "map_of kept k = Some v" for v
    using that sub limiter_ok_simps(4) [OF ok] by (auto dest!: map_of_SomeD)
  then show ?thesis using \<open>k \<noteq> key\<close> unfolding rl' by (cases "map_of kept k") (auto simp: funds_def map_of_update)
qed

lemma draw_keeps_other: "k \<noteq> key \<Longrightarrow> draw_at key (b, rl) = (wait, rl') \<Longrightarrow> map_of (rl_buckets rl') k = map_of (rl_buckets rl) k"
  by (auto simp: draw_at_def map_of_update split: prod.splits)

lemma draw_at_present: "draw_at key brl = (wait, rl') \<Longrightarrow> map_of (rl_buckets rl') key \<noteq> None"
  by (cases brl) (auto simp: draw_at_def map_of_update split: prod.splits)

lemma funds_draw_other: "k \<noteq> key \<Longrightarrow> draw_at key (b, rl) = (wait, rl') \<Longrightarrow> funds k t rl' = funds k t rl"
  by (auto simp: draw_at_def funds_def map_of_update split: prod.splits option.splits)

lemma funds_draw:
  assumes "draw_at key (b, rl) = (wait, rl')"
  shows "funds key t rl' = (if wait = None then level rl t (b\<lparr>tb_tokens := tb_tokens b - 1\<rparr>) else level rl t b)"
  using assms by (auto simp: draw_at_def draw_def funds_def map_of_update level_def split: if_splits)

lemma funds_draw_refilled:
  assumes ok: "limiter_ok t0 rl" and b: "map_of (rl_buckets rl) key = Some b"
    and run: "draw_at key (refill rl t b, rl) = (wait, rl')"
  shows "funds k t rl' = funds k t rl - (if wait = None \<and> k = key then 1 else 0)"
proof (cases "k = key")
  case True
  have "level rl t (refill rl t b) = level rl t b" by (simp add: level_def refill_def)
  moreover have "level rl t ((refill rl t b)\<lparr>tb_tokens := tb_tokens (refill rl t b) - 1\<rparr>) = level rl t b - 1"
    by (simp add: level_def refill_def min_def)
  ultimately show ?thesis using b True by (simp add: funds_draw [OF run]) (simp add: funds_def)
next
  case False
  then show ?thesis using funds_draw_other [OF False run] by simp
qed

text \<open>A bucket opened at \<open>t\<close> grants its first request; at \<open>t'\<close> it has refilled since.\<close>

lemma funds_draw_opened:
  assumes ok: "limiter_ok t0 rl" and run: "draw_at key (open_bucket key t rl) = (wait, rl')"
  shows "wait = None" and "funds key t' rl' \<le> capacity rl - 1 + (t' - t) * rl_rate rl"
proof -
  obtain b rl1 where op: "open_bucket key t rl = (b, rl1)" by fastforce
  then have b: "b = \<lparr>tb_tokens = capacity rl, tb_updated = t\<rparr>"
    and rl1: "rl_rate rl1 = rl_rate rl" "rl_per_minute rl1 = rl_per_minute rl"
    by (auto simp: open_bucket_def Let_def)
  have draw: "draw_at key (b, rl1) = (wait, rl')" using run op by simp
  show w: "wait = None"
    using draw b limiter_ok_simps(2) [OF ok] by (auto simp: draw_at_def draw_def split: if_splits prod.splits)
  show "funds key t' rl' \<le> capacity rl - 1 + (t' - t) * rl_rate rl"
    using funds_draw [OF draw, of t'] w b rl1 by (simp add: level_def)
qed

lemma draw_opened_other:
  assumes ok: "limiter_ok t0 rl" and "k \<noteq> key" and run: "draw_at key (open_bucket key t rl) = (wait, rl')"
  shows "map_of (rl_buckets rl') k = None \<or> funds k t' rl' = funds k t' rl"
    and "length (unfilled rl t) < MAX_BUCKETS \<Longrightarrow> t \<le> t' \<Longrightarrow> funds k t' rl' = funds k t' rl"
proof -
  obtain b rl1 where op: "open_bucket key t rl = (b, rl1)" by fastforce
  then have draw: "draw_at key (b, rl1) = (wait, rl')" using run by simp
  show "map_of (rl_buckets rl') k = None \<or> funds k t' rl' = funds k t' rl"
    using open_other [OF ok op \<open>k \<noteq> key\<close>, of t'] draw_keeps_other [OF \<open>k \<noteq> key\<close> draw]
      funds_draw_other [OF \<open>k \<noteq> key\<close> draw, of t'] by simp
  show "length (unfilled rl t) < MAX_BUCKETS \<Longrightarrow> t \<le> t' \<Longrightarrow> funds k t' rl' = funds k t' rl"
    using funds_open [OF ok _ op _ \<open>k \<noteq> key\<close>] funds_draw_other [OF \<open>k \<noteq> key\<close> draw] by simp
qed

lemma unfilled_later:
  assumes "limiter_ok t0 rl" "t \<le> t'"
  shows "length (unfilled rl t') \<le> length (unfilled rl t)"
proof -
  have "unfilled rl t' = filter (\<lambda>(k, b). \<not> capacity rl \<le> level rl t' b) (unfilled rl t)"
    using level_mono [OF assms] by (auto simp: unfilled_def intro!: filter_cong intro: order_trans)
  then show ?thesis by simp
qed

lemma opened_grants: "limiter_ok t0 rl \<Longrightarrow> fst (draw_at key (open_bucket key t rl)) = None"
  using limiter_ok_simps(2) [of t0 rl] by (simp add: open_bucket_def draw_at_def draw_def Let_def)

lemma acquire_other:
  assumes ok: "limiter_ok t0 rl" and "k \<noteq> key" and run: "acquire key t rl = (wait, rl')"
  shows "map_of (rl_buckets rl') k = None \<or> funds k t' rl' = funds k t' rl"
    and "length (unfilled rl t) < MAX_BUCKETS \<Longrightarrow> t \<le> t' \<Longrightarrow> funds k t' rl' = funds k t' rl"
proof (atomize (full), cases "map_of (rl_buckets rl) key")
  case None
  then have "draw_at key (open_bucket key t rl) = (wait, rl')"
    using run limiter_ok_simps(1) [OF ok] by (simp add: acquire_def)
  from draw_opened_other [OF ok \<open>k \<noteq> key\<close> this, of t']
  show "(map_of (rl_buckets rl') k = None \<or> funds k t' rl' = funds k t' rl)
    \<and> (length (unfilled rl t) < MAX_BUCKETS \<longrightarrow> t \<le> t' \<longrightarrow> funds k t' rl' = funds k t' rl)" by blast
next
  case (Some b)
  then have "draw_at key (refill rl t b, rl) = (wait, rl')"
    using run limiter_ok_simps(1) [OF ok] by (simp add: acquire_def)
  from funds_draw_other [OF \<open>k \<noteq> key\<close> this, of t']
  show "(map_of (rl_buckets rl') k = None \<or> funds k t' rl' = funds k t' rl)
    \<and> (length (unfilled rl t) < MAX_BUCKETS \<longrightarrow> t \<le> t' \<longrightarrow> funds k t' rl' = funds k t' rl)" by blast
qed

lemma acquire_own:
  assumes ok: "limiter_ok t0 rl" and "t0 \<le> t" and run: "acquire key t rl = (wait, rl')"
  shows "map_of (rl_buckets rl') key \<noteq> None" "funds key t rl' \<le> funds key t rl - (if wait = None then 1 else 0)"
proof (atomize (full), cases "map_of (rl_buckets rl) key")
  case None
  then have "draw_at key (open_bucket key t rl) = (wait, rl')"
    using run limiter_ok_simps(1) [OF ok] by (simp add: acquire_def)
  from draw_at_present [OF this] funds_draw_opened(1) [OF ok this] funds_draw_opened(2) [OF ok this, of t] None
  show "map_of (rl_buckets rl') key \<noteq> None \<and> funds key t rl' \<le> funds key t rl - (if wait = None then 1 else 0)"
    by (simp add: funds_def)
next
  case (Some b)
  then have draw: "draw_at key (refill rl t b, rl) = (wait, rl')"
    using run limiter_ok_simps(1) [OF ok] by (simp add: acquire_def)
  show "map_of (rl_buckets rl') key \<noteq> None \<and> funds key t rl' \<le> funds key t rl - (if wait = None then 1 else 0)"
    using draw_at_present [OF draw] funds_draw_refilled [OF ok Some draw, of key] by simp
qed

section \<open>Runs of requests\<close>

record api_request =
  ar_bearer :: "string option"
  ar_address :: string
  ar_at :: rat
  ar_then :: rat

definition admit_request :: "api_request \<Rightarrow> rate_limiter \<Rightarrow> rat option \<times> rate_limiter" where
  "admit_request r = acquire_request (ar_bearer r) (ar_address r) (ar_at r) (ar_then r)"

text \<open>The keys an admitted request takes a token from.\<close>

definition charged :: "rate_limiter \<Rightarrow> api_request \<Rightarrow> string list" where
  "charged rl r = (case ar_bearer r of
     None \<Rightarrow> [''addr:'' @ ar_address r]
   | Some b \<Rightarrow> (if map_of (rl_buckets rl) (''bearer:'' @ b) = None then [''new:'' @ ar_address r] else [])
       @ [''bearer:'' @ b])"

primrec serve :: "api_request list \<Rightarrow> rate_limiter \<Rightarrow> rate_limiter" where
  "serve [] rl = rl"
| "serve (r # rs) rl = serve rs (snd (admit_request r rl))"

text \<open>How many requests of a run are admitted on tokens of \<open>k\<close>.\<close>

primrec admissions :: "string \<Rightarrow> api_request list \<Rightarrow> rate_limiter \<Rightarrow> nat" where
  "admissions k [] rl = 0"
| "admissions k (r # rs) rl =
     (if fst (admit_request r rl) = None \<and> k \<in> set (charged rl r) then 1 else 0)
     + admissions k rs (snd (admit_request r rl))"

text \<open>The clock does not run backwards; \<open>clock_end\<close> is its last reading.\<close>

primrec clocked :: "rat \<Rightarrow> api_request list \<Rightarrow> bool" where
  "clocked t [] = True"
| "clocked t (r # rs) = (t \<le> ar_at r \<and> ar_at r \<le> ar_then r \<and> clocked (ar_then r) rs)"

primrec clock_end :: "rat \<Rightarrow> api_request list \<Rightarrow> rat" where
  "clock_end t [] = t"
| "clock_end t (r # rs) = clock_end (ar_then r) rs"

text \<open>There is always room for the buckets still refilling and two more.\<close>

primrec roomy :: "api_request list \<Rightarrow> rate_limiter \<Rightarrow> bool" where
  "roomy [] rl = True"
| "roomy (r # rs) rl = (length (unfilled rl (ar_at r)) + 2 \<le> MAX_BUCKETS \<and> roomy rs (snd (admit_request r rl)))"

text \<open>
  A request forgets a key when it drops the bucket of the key before it has refilled, by an eviction to make room: the key finds a
  full bucket again. \<open>forgettings\<close> counts such requests in a run.
\<close>

definition forgets :: "string \<Rightarrow> api_request \<Rightarrow> rate_limiter \<Rightarrow> bool" where
  "forgets k r rl = (case admit_request r rl of (wait, rl') \<Rightarrow>
     map_of (rl_buckets rl') k = None \<and> (wait = None \<and> k \<in> set (charged rl r) \<or> funds k (ar_then r) rl < capacity rl))"

primrec forgettings :: "string \<Rightarrow> api_request list \<Rightarrow> rate_limiter \<Rightarrow> nat" where
  "forgettings k [] rl = 0"
| "forgettings k (r # rs) rl = (if forgets k r rl then 1 else 0) + forgettings k rs (snd (admit_request r rl))"

lemma draw_at_rate:
  "draw_at key (b, rl) = (wait, rl') \<Longrightarrow> rl_rate rl' = rl_rate rl \<and> rl_per_minute rl' = rl_per_minute rl"
  by (auto simp: draw_at_def split: prod.splits)

lemma open_bucket_rate:
  "open_bucket key t rl = (b, rl') \<Longrightarrow> rl_rate rl' = rl_rate rl \<and> rl_per_minute rl' = rl_per_minute rl"
  by (auto simp: open_bucket_def Let_def)

lemma draw_opened_rate:
  "draw_at key (open_bucket key t rl) = (wait, rl') \<Longrightarrow>
    rl_rate rl' = rl_rate rl \<and> rl_per_minute rl' = rl_per_minute rl"
  by (cases "open_bucket key t rl") (auto dest!: draw_at_rate open_bucket_rate)

lemma acquire_rate:
  "acquire key t rl = (wait, rl') \<Longrightarrow> rl_rate rl' = rl_rate rl \<and> rl_per_minute rl' = rl_per_minute rl"
  by (auto simp: acquire_def dest: draw_at_rate draw_opened_rate split: if_splits option.splits)

lemma admit_rate:
  "admit_request r rl = (wait, rl') \<Longrightarrow> rl_rate rl' = rl_rate rl \<and> rl_per_minute rl' = rl_per_minute rl"
  by (auto simp: admit_request_def acquire_request_def Let_def dest!: acquire_rate draw_at_rate draw_opened_rate
      split: if_splits option.splits prod.splits)

text \<open>\<open>acquire\<close> touches no key but its own, except to drop one.\<close>

lemma acquire_new_stays:
  assumes "acquire key t rl = (wait, rl')" "map_of (rl_buckets rl) k = None" "k \<noteq> key"
  shows "map_of (rl_buckets rl') k = None"
proof -
  have "map_of (evict rl t) k = None"
    using assms(2) evict_subset [of rl t] by (auto simp: map_of_eq_None_iff)
  then show ?thesis
    using assms by (auto simp: acquire_def draw_at_def open_bucket_def Let_def map_of_update
        split: if_splits option.splits prod.splits)
qed

lemma acquire_buckets:
  assumes "acquire key t rl = (wait, rl')" "kb \<in> set (rl_buckets rl')"
  shows "fst kb = key \<or> kb \<in> set (rl_buckets rl)"
proof -
  have upd: "set (AList.update key v al) \<subseteq> {kb. fst kb = key} \<union> set al" for v :: token_bucket and al
    using set_update_subset [of key v al] by auto
  have "\<exists>v al. rl_buckets rl' = AList.update key v al \<and> set al \<subseteq> {kb. fst kb = key} \<union> set (rl_buckets rl)"
    if "rl' \<noteq> rl"
    using assms(1) that evict_subset [of rl t] upd
    by (fastforce simp: acquire_def draw_at_def open_bucket_def Let_def split: if_splits option.splits prod.splits)
  then show ?thesis using assms(2) upd by (cases "rl' = rl") fastforce+
qed

lemma acquire_unfilled:
  assumes ok: "limiter_ok t0 rl" "limiter_ok t1 rl'" and run: "acquire key t' rl = (wait, rl')"
  shows "length (unfilled rl' t) \<le> Suc (length (unfilled rl t))"
proof -
  let ?keys = "\<lambda>rl. fst ` set (unfilled rl t)"
  have card: "length (unfilled rl t) = card (?keys rl)" if "limiter_ok t0 rl" for rl t0
    using distinct_card [OF distinct_unfilled [OF limiter_ok_simps(4) [OF that]], of t] by simp
  have "?keys rl' \<subseteq> insert key (?keys rl)"
    using acquire_buckets [OF run] acquire_rate [OF run]
    by (force simp: unfilled_def level_def)
  then have "card (?keys rl') \<le> card (insert key (?keys rl))" by (intro card_mono) simp_all
  also have "\<dots> \<le> Suc (card (?keys rl))" by (rule card_insert_le_m1) simp_all
  finally show ?thesis using card [OF ok(1)] card [OF ok(2)] by simp
qed

lemma acquire_refused_keeps_shape:
  assumes "limiter_ok t rl" "t \<le> t'" "acquire key t' rl = (Some wait, rl')"
  shows "map fst (rl_buckets rl') = map fst (rl_buckets rl)"
proof (cases "map_of (rl_buckets rl) key")
  case None
  have "1 \<le> capacity rl" by (rule limiter_ok_simps(2) [OF assms(1)])
  then show ?thesis
    using assms(3) None limiter_ok_simps(1) [OF assms(1)]
    by (auto simp: acquire_def open_bucket_def draw_at_def draw_def Let_def split: if_splits)
next
  case (Some b)
  have same: "map fst (AList.update key v (rl_buckets rl)) = map fst (rl_buckets rl)" for v
    using map_of_Some_fst [OF Some] by (simp add: update_keys)
  show ?thesis
    using assms(3) Some limiter_ok_simps(1) [OF assms(1)] same
    by (auto simp: acquire_def draw_at_def split: prod.splits)
qed

lemma admit_new_bearer:
  assumes "limiter_ok t rl" "ar_bearer r = Some s" "map_of (rl_buckets rl) (''bearer:'' @ s) = None"
    and "acquire (''new:'' @ ar_address r) (ar_then r) rl = (w, rl1)" "admit_request r rl = (wait, rl')"
  shows "(case w of None \<Rightarrow> draw_at (''bearer:'' @ s) (open_bucket (''bearer:'' @ s) (ar_at r) rl1)
      | Some v \<Rightarrow> (Some v, rl1)) = (wait, rl')"
  using assms limiter_ok_simps(1) [OF assms(1)]
  by (cases w) (auto simp: admit_request_def acquire_request_def Let_def)

lemma admit_ok:
  assumes ok: "limiter_ok t rl" and time: "t \<le> ar_at r" "ar_at r \<le> ar_then r"
    and run: "admit_request r rl = (wait, rl')"
  shows "limiter_ok (ar_then r) rl'"
proof (cases "ar_bearer r")
  case None
  then have "acquire (''addr:'' @ ar_address r) (ar_at r) rl = (wait, rl')"
    using run limiter_ok_simps(1) [OF ok] by (simp add: admit_request_def acquire_request_def)
  from limiter_ok_later [OF acquire_ok [OF ok time(1) this] time(2)] show ?thesis .
next
  case (Some s)
  let ?key = "''bearer:'' @ s"
  show ?thesis
  proof (cases "map_of (rl_buckets rl) ?key")
    case (Some b)
    then have "draw_at ?key (refill rl (ar_at r) b, rl) = (wait, rl')"
      using run \<open>ar_bearer r = Some s\<close> limiter_ok_simps(1) [OF ok] by (simp add: admit_request_def acquire_request_def)
    from limiter_ok_later [OF draw_refilled_ok [OF ok Some time(1) this] time(2)] show ?thesis .
  next
    case None
    obtain w1 rl1 where acq: "acquire (''new:'' @ ar_address r) (ar_then r) rl = (w1, rl1)" by fastforce
    have ok1: "limiter_ok (ar_then r) rl1" using acquire_ok [OF ok _ acq] time by simp
    have new: "map_of (rl_buckets rl1) ?key = None" using acquire_new_stays [OF acq None] by simp
    from admit_new_bearer [OF ok Some None acq run] show ?thesis using draw_opened_ok [OF ok1 new time(2)] ok1 by (auto split: option.splits)
  qed
qed

lemma draw_opened_stays:
  assumes "draw_at key (open_bucket key t rl) = (wait, rl')" "k \<noteq> key" "map_of (rl_buckets rl) k = None"
  shows "map_of (rl_buckets rl') k = None"
proof -
  have "map_of (evict rl t) k = None" using assms(3) evict_subset [of rl t] by (auto simp: map_of_eq_None_iff)
  then show ?thesis
    using assms by (auto simp: draw_at_def open_bucket_def Let_def map_of_update split: if_splits prod.splits)
qed

text \<open>A request is one \<open>acquire\<close>, or that of the new bearers of its address and the opening of its own bucket.\<close>

lemma admit_cases:
  assumes ok: "limiter_ok t rl" and run: "admit_request r rl = (wait, rl')"
  obtains (one) key where "acquire key (ar_at r) rl = (wait, rl')" "charged rl r = [key]"
  | (two) new key w rl1 where "acquire new (ar_then r) rl = (w, rl1)" "charged rl r = [new, key]" "new \<noteq> key"
      "map_of (rl_buckets rl) key = None" "map_of (rl_buckets rl1) key = None"
      "(case w of None \<Rightarrow> draw_at key (open_bucket key (ar_at r) rl1) | Some v \<Rightarrow> (Some v, rl1)) = (wait, rl')"
proof (cases "\<exists>s. ar_bearer r = Some s \<and> map_of (rl_buckets rl) (''bearer:'' @ s) = None")
  case False
  define key where "key = (case ar_bearer r of None \<Rightarrow> ''addr:'' @ ar_address r | Some s \<Rightarrow> ''bearer:'' @ s)"
  have "acquire key (ar_at r) rl = (wait, rl')" "charged rl r = [key]"
    using run False limiter_ok_simps(1) [OF ok]
    by (auto simp: admit_request_def acquire_request_def acquire_def key_def charged_def Let_def split: option.splits)
  then show ?thesis by (rule one)
next
  case True
  then obtain s where s: "ar_bearer r = Some s" and none: "map_of (rl_buckets rl) (''bearer:'' @ s) = None" by blast
  obtain w rl1 where acq: "acquire (''new:'' @ ar_address r) (ar_then r) rl = (w, rl1)" by fastforce
  show ?thesis
    by (rule two [OF acq _ _ none _ admit_new_bearer [OF ok s none acq run]])
       (use s none acquire_new_stays [OF acq none] in \<open>simp_all add: charged_def\<close>)
qed

lemma admit_funds:
  assumes ok: "limiter_ok t rl" and time: "t \<le> ar_at r" "ar_at r \<le> ar_then r" and run: "admit_request r rl = (wait, rl')"
  shows "funds k (ar_then r) rl' \<le> funds k t rl + (ar_then r - t) * rl_rate rl
     - (if wait = None \<and> k \<in> set (charged rl r) then 1 else 0) + (if forgets k r rl then capacity rl else 0)"
proof -
  have cap: "capacity rl' = capacity rl" and t: "t \<le> ar_then r" using admit_rate [OF run] time by simp_all
  have grow: "funds k (ar_then r) rl \<le> funds k t rl + (ar_then r - t) * rl_rate rl" by (rule funds_grow [OF ok t])
  have gone: "funds k (ar_then r) rl' = capacity rl" if "map_of (rl_buckets rl') k = None" using that cap by (simp add: funds_def)
  from ok run show ?thesis
  proof (cases rule: admit_cases)
    case (one key)
    show ?thesis
    proof (cases "k = key")
      case True
      have "funds k (ar_at r) rl' \<le> funds k (ar_at r) rl - (if wait = None then 1 else 0)"
        using acquire_own(2) [OF ok time(1) one(1)] True by simp
      moreover have "funds k (ar_then r) rl' \<le> funds k (ar_at r) rl' + (ar_then r - ar_at r) * rl_rate rl"
        using funds_grow [OF acquire_ok [OF ok time(1) one(1)] time(2), of k] acquire_rate [OF one(1)] by simp
      moreover have "funds k (ar_at r) rl \<le> funds k t rl + (ar_at r - t) * rl_rate rl" by (rule funds_grow [OF ok time(1)])
      ultimately show ?thesis using True one(2) limiter_ok_simps(2) [OF ok] by (auto simp: algebra_simps split: if_splits)
    next
      case False
      then show ?thesis
        using acquire_other(1) [OF ok False one(1), of "ar_then r"] grow gone one(2) run funds_nonneg [OF ok, of k]
          limiter_ok_simps(2) [OF ok] limiter_ok_simps(3) [OF ok] t
        by (auto simp: forgets_def)
    qed
  next
    case (two new key w rl1)
    have ok1: "limiter_ok (ar_then r) rl1" by (rule acquire_ok [OF ok t two(1)])
    have rate1: "rl_rate rl1 = rl_rate rl" "capacity rl1 = capacity rl" using acquire_rate [OF two(1)] by simp_all
    have own: "funds new (ar_then r) rl1 \<le> funds new (ar_then r) rl - (if w = None then 1 else 0)"
      by (rule acquire_own(2) [OF ok t two(1)])
    have full: "funds key t rl = capacity rl" using two(4) by (simp add: funds_def)
    show ?thesis
    proof (cases w)
      case (Some v)
      then have rl': "rl' = rl1" "wait \<noteq> None" using two(6) by auto
      show ?thesis
        using acquire_other(1) [OF ok _ two(1), of k "ar_then r"] own grow gone run rl' funds_nonneg [OF ok1] Some
          limiter_ok_simps(2) [OF ok] funds_nonneg [OF limiter_ok_later [OF ok t], of k]
        by (cases "k = new") (auto simp: forgets_def)
    next
      case None
      then have draw: "draw_at key (open_bucket key (ar_at r) rl1) = (wait, rl')" using two(6) by simp
      have w: "wait = None" by (rule funds_draw_opened(1) [OF ok1 draw])
      consider "k = key" | "k \<noteq> key" "map_of (rl_buckets rl') k = None" | "k \<noteq> key" "map_of (rl_buckets rl') k \<noteq> None" by blast
      then show ?thesis
      proof cases
        case 1
        have "(ar_then r - ar_at r) * rl_rate rl \<le> (ar_then r - t) * rl_rate rl"
          using time limiter_ok_simps(3) [OF ok] by simp
        then show ?thesis
          using 1 full two(2) funds_draw_opened(2) [OF ok1 draw, of "ar_then r"] rate1 w limiter_ok_simps(2) [OF ok] by auto
      next
        case 2
        then show ?thesis
          using gone two(2) own grow None run w funds_nonneg [OF ok1, of new] funds_nonneg [OF limiter_ok_later [OF ok t], of k]
          by (auto simp: forgets_def)
      next
        case 3
        have there: "map_of (rl_buckets rl1) k \<noteq> None" using draw_opened_stays [OF draw 3(1)] 3(2) by blast
        have "funds k (ar_then r) rl' = funds k (ar_then r) rl1" using draw_opened_other(1) [OF ok1 3(1) draw, of "ar_then r"] 3(2) by blast
        moreover have "funds k (ar_then r) rl1 = funds k (ar_then r) rl" if "k \<noteq> new"
          using acquire_other(1) [OF ok that two(1), of "ar_then r"] there by blast
        ultimately show ?thesis using 3 own None two(2) grow w limiter_ok_simps(2) [OF ok] by (cases "k = new") auto
      qed
    qed
  qed
qed

text \<open>With room for the buckets still refilling nothing is forgotten.\<close>

lemma roomy_keeps:
  assumes ok: "limiter_ok t rl" and time: "t \<le> ar_at r" "ar_at r \<le> ar_then r"
    and room: "length (unfilled rl (ar_at r)) + 2 \<le> MAX_BUCKETS"
  shows "\<not> forgets k r rl"
proof -
  obtain wait rl' where run: "admit_request r rl = (wait, rl')" by fastforce
  have cap: "capacity rl' = capacity rl" and t: "t \<le> ar_then r" using admit_rate [OF run] time by simp_all
  have quiet: "length (unfilled rl (ar_at r)) < MAX_BUCKETS" "length (unfilled rl (ar_then r)) < MAX_BUCKETS"
    using room unfilled_later [OF ok time(2)] by simp_all
  have "\<not> (wait = None \<and> k \<in> set (charged rl r)) \<and> funds k (ar_then r) rl = capacity rl"
    if gone: "map_of (rl_buckets rl') k = None"
  proof -
    have full: "funds k (ar_then r) rl' = capacity rl" using gone cap by (simp add: funds_def)
    from ok run show ?thesis
    proof (cases rule: admit_cases)
      case (one key)
      have "k \<noteq> key" using acquire_own(1) [OF ok time(1) one(1)] gone by auto
      then show ?thesis using acquire_other(2) [OF ok _ one(1) quiet(1) time(2), of k] full one(2) by simp
    next
      case (two new key w rl1)
      have ok1: "limiter_ok (ar_then r) rl1" by (rule acquire_ok [OF ok t two(1)])
      have own: "map_of (rl_buckets rl1) new \<noteq> None" "funds new (ar_then r) rl1 \<le> funds new (ar_then r) rl - (if w = None then 1 else 0)"
        by (rule acquire_own [OF ok t two(1)])+
      have other: "funds k (ar_then r) rl1 = funds k (ar_then r) rl" if "k \<noteq> new"
        by (rule acquire_other(2) [OF ok that two(1) quiet(2) order_refl])
      show ?thesis
      proof (cases w)
        case (Some v)
        then have "rl' = rl1" "wait \<noteq> None" using two(6) by auto
        moreover from this have "k \<noteq> new" using gone own(1) by auto
        ultimately show ?thesis using other full by simp
      next
        case None
        then have draw: "draw_at key (open_bucket key (ar_at r) rl1) = (wait, rl')" using two(6) by simp
        have "k \<noteq> key" using draw_at_present [OF draw] gone by auto
        moreover have "length (unfilled rl1 (ar_at r)) < MAX_BUCKETS"
          using acquire_unfilled [OF ok ok1 two(1), of "ar_at r"] room by simp
        ultimately have kept: "funds k (ar_then r) rl1 = capacity rl"
          using draw_opened_other(2) [OF ok1 _ draw _ time(2), of k] full by simp
        then have "k \<noteq> new" using own(2) None funds_le_capacity [of new "ar_then r" rl] by auto
        then show ?thesis using kept other \<open>k \<noteq> key\<close> two(2) by simp
      qed
    qed
  qed
  then show ?thesis using run by (auto simp: forgets_def)
qed

lemma serve_rate: "rl_per_minute (serve rs rl) = rl_per_minute rl"
proof (induction rs arbitrary: rl)
  case (Cons r rs)
  then show ?case using admit_rate [of r rl "fst (admit_request r rl)" "snd (admit_request r rl)"] by simp
qed simp

lemma serve_ok: "limiter_ok t rl \<Longrightarrow> clocked t rs \<Longrightarrow> limiter_ok (clock_end t rs) (serve rs rl)"
proof (induction rs arbitrary: t rl)
  case (Cons r rs)
  then show ?case using admit_ok [of t rl r "fst (admit_request r rl)" "snd (admit_request r rl)"] by simp
qed simp

lemma admissions_funds:
  assumes "limiter_ok t rl" "clocked t rs"
  shows "of_nat (admissions k rs rl) + funds k (clock_end t rs) (serve rs rl)
    \<le> funds k t rl + (clock_end t rs - t) * rl_rate rl + of_nat (forgettings k rs rl) * capacity rl"
  using assms
proof (induction rs arbitrary: t rl)
  case (Cons r rs)
  obtain wait rl' where run: "admit_request r rl = (wait, rl')" by fastforce
  have ok: "limiter_ok (ar_then r) rl'" using admit_ok [OF Cons.prems(1) _ _ run] Cons.prems by simp
  have "of_nat (admissions k rs rl') + funds k (clock_end (ar_then r) rs) (serve rs rl')
      \<le> funds k (ar_then r) rl' + (clock_end (ar_then r) rs - ar_then r) * rl_rate rl' + of_nat (forgettings k rs rl') * capacity rl'"
    using Cons.IH [OF ok] Cons.prems run by simp
  moreover have "funds k (ar_then r) rl' \<le> funds k t rl + (ar_then r - t) * rl_rate rl
     - (if wait = None \<and> k \<in> set (charged rl r) then 1 else 0) + (if forgets k r rl then capacity rl else 0)"
    using admit_funds [OF Cons.prems(1) _ _ run, of k] Cons.prems by simp
  ultimately show ?case using run admit_rate [OF run]
    by (auto simp: algebra_simps split: if_splits)
qed simp

lemma roomy_forgets_nothing: "limiter_ok t rl \<Longrightarrow> clocked t rs \<Longrightarrow> roomy rs rl \<Longrightarrow> forgettings k rs rl = 0"
proof (induction rs arbitrary: t rl)
  case (Cons r rs)
  then show ?case
    using roomy_keeps [of t rl r k] admit_ok [of t rl r "fst (admit_request r rl)" "snd (admit_request r rl)"] by simp
qed simp

section \<open>Properties\<close>

text \<open>
  C30: Serving any requests with a clock that does not run backwards, a limiter of a positive rate
  never holds more than \<open>MAX_BUCKETS\<close> buckets, has one bucket per key, and every bucket holds
  between zero and \<open>per_minute\<close> tokens.
\<close>

theorem limiter_stays_bounded:
  assumes "0 < n" "clocked t rs"
  shows "length (rl_buckets (serve rs (mk_limiter n))) \<le> MAX_BUCKETS
    \<and> distinct (map fst (rl_buckets (serve rs (mk_limiter n))))
    \<and> list_all (\<lambda>(k, b). 0 \<le> tb_tokens b \<and> tb_tokens b \<le> of_int n) (rl_buckets (serve rs (mk_limiter n)))"
proof -
  have "limiter_ok (clock_end t rs) (serve rs (mk_limiter n))"
    using serve_ok [OF mk_limiter_ok [OF assms(1)] assms(2)] .
  then show ?thesis
    by (auto simp: limiter_ok_def bucket_ok_def list_all_iff serve_rate) (auto simp: mk_limiter_def)
qed

text \<open>
  C29: What a key can be admitted on, over any run with a clock that does not run backwards: the requests admitted on the tokens of
  one key (a bearer, an address without bearer, or the new bearers of an address, so however many distinct bearers an address
  sprays) are at most \<open>per_minute\<close>, what the key refilled in the time the run took, and \<open>per_minute\<close> again for every time an
  eviction to make room dropped the bucket of the key before it had refilled. That never happens while the table has room for the
  buckets still refilling.
\<close>

theorem admissions_within_budget:
  assumes "0 < n" "clocked t rs"
  shows "of_nat (admissions k rs (mk_limiter n)) \<le> of_int n * of_nat (Suc (forgettings k rs (mk_limiter n)))
      + (clock_end t rs - t) * (of_int n / 60 :: rat)
    \<and> (roomy rs (mk_limiter n) \<longrightarrow> forgettings k rs (mk_limiter n) = 0)"
proof -
  have ok: "limiter_ok t (mk_limiter n)" by (rule mk_limiter_ok [OF assms(1)])
  have "0 \<le> funds k (clock_end t rs) (serve rs (mk_limiter n))"
    by (rule funds_nonneg [OF serve_ok [OF ok assms(2)]])
  moreover have "funds k t (mk_limiter n) \<le> of_int n"
    using funds_le_capacity [of k t "mk_limiter n"] by (simp add: mk_limiter_def)
  ultimately have "of_nat (admissions k rs (mk_limiter n)) \<le> of_int n * of_nat (Suc (forgettings k rs (mk_limiter n)))
      + (clock_end t rs - t) * (of_int n / 60 :: rat)"
    using admissions_funds [OF ok assms(2), of k] by (simp add: mk_limiter_def algebra_simps)
  then show ?thesis using roomy_forgets_nothing [OF ok assms(2)] by blast
qed

text \<open>
  A request with a bearer that has no bucket, refused by its address's new-bearer bucket,
  opens no bucket: the keys of the table stay the same.
\<close>

theorem refused_bearer_opens_no_bucket:
  assumes "limiter_ok t rl" "t \<le> t2" "map_of (rl_buckets rl) (''bearer:'' @ s) = None"
    and "acquire_request (Some s) address t1 t2 rl = (Some wait, rl')"
  shows "map fst (rl_buckets rl') = map fst (rl_buckets rl)"
proof -
  define r where "r = \<lparr>ar_bearer = Some s, ar_address = address, ar_at = t1, ar_then = t2\<rparr>"
  obtain w rl1 where acq: "acquire (''new:'' @ ar_address r) (ar_then r) rl = (w, rl1)" by fastforce
  have ok1: "limiter_ok t2 rl1" using acquire_ok [OF assms(1) _ acq] assms(2) by (simp add: r_def)
  have "(case w of None \<Rightarrow> draw_at (''bearer:'' @ s) (open_bucket (''bearer:'' @ s) (ar_at r) rl1)
      | Some v \<Rightarrow> (Some v, rl1)) = (Some wait, rl')"
    by (rule admit_new_bearer [OF assms(1) _ assms(3) acq]) (use assms(4) in \<open>simp_all add: r_def admit_request_def\<close>)
  then have "w = Some wait \<and> rl1 = rl'"
    using opened_grants [OF ok1] by (cases w) (auto simp: prod_eq_iff)
  then show ?thesis using acquire_refused_keeps_shape [OF assms(1,2)] acq by (simp add: r_def)
qed

text \<open>
  An eviction drops the buckets with the most tokens first: a bucket it drops has at least the
  level of every bucket it keeps, and of the buckets still refilling it keeps half or more.
\<close>

theorem eviction_forgets_fullest_first:
  assumes ok: "limiter_ok t0 rl" and gone: "(k, b) \<in> set (rl_buckets rl)" "(k, b) \<notin> set (evict rl t)"
    and kept: "(k', b') \<in> set (evict rl t)"
  shows "level rl t b' \<le> level rl t b \<and> length (unfilled rl t) \<le> 2 * length (evict rl t)"
proof (cases "MAX_BUCKETS \<le> length (unfilled rl t)")
  case False
  then show ?thesis
    using gone by (auto simp: evict_quiet unfilled_def level_def)
next
  case True
  define r where "r = ranked rl t (unfilled rl t)"
  define m where "m = length (unfilled rl t) div 2"
  have mset: "mset (evict rl t) = mset (drop m r)"
    unfolding r_def m_def by (rule evict_lossy [OF limiter_ok_simps(4) [OF ok] True])
  have "length (evict rl t) = length (unfilled rl t) - m"
    using arg_cong [OF mset, of size] by (simp add: r_def)
  then have half: "length (unfilled rl t) \<le> 2 * length (evict rl t)" by (simp add: m_def)
  have in_r: "(k', b') \<in> set (drop m r)" and out: "(k, b) \<notin> set (drop m r)"
    using kept gone(2) mset by (auto dest: mset_eq_setD)
  have "level rl t b' \<le> level rl t b"
  proof (cases "(k, b) \<in> set (unfilled rl t)")
    case False
    then show ?thesis using gone(1) by (auto simp: unfilled_def level_def)
  next
    case True
    then have "(k, b) \<in> set (take m r @ drop m r)" by (simp add: r_def)
    then have taken: "(k, b) \<in> set (take m r)" using out by (simp only: set_append Un_iff) simp
    have "sorted (map (\<lambda>(k, b). (- level rl t b, tb_updated b)) (take m r @ drop m r))"
      by (simp add: r_def ranked_def)
    then have "(- level rl t b, tb_updated b) \<le> (- level rl t b', tb_updated b')"
      using taken in_r unfolding map_append sorted_append by fastforce
    then show ?thesis by (auto simp: less_eq_prod_def)
  qed
  with half show ?thesis by simp
qed

text \<open>
  The wait a refused request is told is enough: the same key asked again that much later is
  granted, when nothing was charged to it in between.
\<close>

theorem wait_is_enough:
  assumes "limiter_ok t rl" "t \<le> t'" "acquire key t' rl = (Some wait, rl')"
  shows "0 < wait \<and> fst (acquire key (t' + wait) rl') = None"
proof (cases "map_of (rl_buckets rl) key")
  case None
  then show ?thesis
    using assms(3) opened_grants [OF assms(1)] limiter_ok_simps(1) [OF assms(1)]
    by (simp add: acquire_def) (metis fst_conv option.distinct(1))
next
  case (Some b)
  define c where "c = refill rl t' b"
  have rate: "0 < rl_rate rl" and cap: "1 \<le> capacity rl" using limiter_ok_simps(2,3) [OF assms(1)] by simp_all
  have c: "tb_tokens c < 1" "wait = (1 - tb_tokens c) / rl_rate rl"
    "rl' = rl\<lparr>rl_buckets := AList.update key c (rl_buckets rl)\<rparr>"
    using assms(3) Some limiter_ok_simps(1) [OF assms(1)]
    by (auto simp: acquire_def draw_at_def draw_def c_def split: if_splits)
  have "tb_updated c = t'" by (simp add: c_def refill_def)
  then have "tb_tokens (refill rl' (t' + wait) c) = min (capacity rl) 1"
    using c rate by (simp add: refill_def)
  then have "fst (acquire key (t' + wait) rl') = None"
    using c(3) cap limiter_ok_simps(1) [OF assms(1)]
    by (simp add: acquire_def draw_at_def draw_def map_of_update)
  then show ?thesis using c(1,2) rate by simp
qed

text \<open>
  The header told to a refused client is a positive number of seconds and falls short of the wait by
  less than a millisecond.
\<close>

lemma retry_after_bounds:
  assumes "0 \<le> wait"
  shows "1 \<le> retry_after wait \<and> wait - 1 / 1000 < of_int (retry_after wait)"
proof -
  have "wait + 999 / 1000 < of_int \<lfloor>wait + 999 / 1000\<rfloor> + 1" by (rule floor_correct [THEN conjunct2, simplified])
  moreover have "(of_int \<lfloor>wait + 999 / 1000\<rfloor> :: rat) \<le> of_int (retry_after wait)"
    using assms by (simp add: retry_after_def py_int_def)
  ultimately show ?thesis by (simp add: retry_after_def)
qed

text \<open>An HTTP request that is not exempt reaches the application exactly when the limiter lets it.\<close>

lemma rate_limit_outcome:
  assumes "sc_type sc = ''http''" "\<forall>p \<in> exempt. sc_path sc \<noteq> Some p"
    and "acquire_request (fst (identify sc)) (snd (identify sc)) t t' rl = (wait, rl')"
  shows "rate_limit exempt sc t t' rl = ((case wait of None \<Rightarrow> CallApp | Some s \<Rightarrow> too_many s), rl')"
  using assms by (auto simp: rate_limit_def case_prod_beta split: option.splits prod.splits)

section \<open>Witnesses\<close>

definition spray :: "api_request list" where
  "spray = map (\<lambda>s. \<lparr>ar_bearer = Some s, ar_address = ''10.0.0.1'', ar_at = 0, ar_then = 0\<rparr>)
     [''a'', ''b'', ''c'', ''a'']"

lemmas limiter_run = admit_request_def acquire_request_def acquire_def draw_at_def draw_def open_bucket_def
  refill_def unfilled_def level_def charged_def mk_limiter_def MAX_BUCKETS_def Let_def

lemma spray_clocked: "clocked 0 spray" and spray_end: "clock_end 0 spray = 0"
  by (simp_all add: spray_def)

lemma spray_roomy: "roomy spray (mk_limiter 2)"
  by (simp add: spray_def limiter_run)

lemma spray_admitted: "admissions ''new:10.0.0.1'' spray (mk_limiter 2) = 2"
  by (simp add: spray_def limiter_run)

theorem limiter_stays_bounded_witness:
  "length (rl_buckets (serve spray (mk_limiter 2))) \<le> MAX_BUCKETS"
  using limiter_stays_bounded [OF _ spray_clocked, of 2] by simp

theorem admissions_within_budget_witness:
  "admissions ''new:10.0.0.1'' spray (mk_limiter 2) = 2 \<and> forgettings ''new:10.0.0.1'' spray (mk_limiter 2) = 0
    \<and> of_nat (admissions ''new:10.0.0.1'' spray (mk_limiter 2)) \<le> (2 :: rat)"
  using admissions_within_budget [OF _ spray_clocked, of 2 "''new:10.0.0.1''"] spray_roomy
  by (simp add: spray_end spray_admitted)

end
