(* ===== verification/Memory_Stores.thy ===== *)
theory Memory_Stores
  imports Tokens_Mandates
begin

text \<open>
  What agent memory is kept in (\<open>memory/model.py\<close>, \<open>ledger.py\<close>, \<open>inmemory.py\<close>, \<open>postgres.py\<close>).

  The ledger holds the provenance of a memory and the hash of its content, an adapter the content
  itself. \<open>w_ledger_mem\<close> and \<open>w_ledger_rows\<close> are the dict and the table of the two ledgers,
  \<open>w_content_mem\<close> and \<open>w_content_rows\<close> those of the two adapters. Full-text ranking, vector distance
  and the embedder are code of PostgreSQL, pgvector and the caller: they are parameters. The locale
  \<open>ledger_contract\<close> is what the memory service relies on of a ledger.
\<close>

section \<open>Records\<close>

record memory_record =
  mm_memory_id :: string
  mm_written_for :: string
  mm_written_by :: string
  mm_derived_from :: "string list"
  mm_content_hash :: string
  mm_backend :: string
  mm_backend_ref :: string
  mm_created_at :: datetime

record memory =
  my_memory_id :: string
  my_content :: string
  my_derived_from :: "string list"
  my_written_for :: string
  my_written_by :: string
  my_created_at :: "datetime option"

record candidate =
  cd_content :: string
  cd_backend_refs :: "string list"
  cd_score :: "rat option"

record ledger_row =
  lr_written_for :: string
  lr_written_by :: string
  lr_derived_from :: string
  lr_content_hash :: string
  lr_backend :: string
  lr_backend_ref :: string
  lr_created_at :: datetime

record content_row =
  cr_memory_id :: string
  cr_content :: string
  cr_created_at :: datetime

text \<open>Content is keyed by namespace and backend reference.\<close>

record 'x memory_world = "'x mand_world" +
  w_ledger_mem :: "(string \<times> memory_record) list"
  w_ledger_rows :: "(string \<times> ledger_row) list"
  w_content_mem :: "((string \<times> string) \<times> string \<times> string) list"
  w_content_fail :: bool
  w_content_rows :: "((string \<times> string) \<times> content_row) list"
  w_embed_rows :: "((string \<times> string) \<times> string) list"

text \<open>\<open>ProvenanceLedger\<close> and \<open>MemoryAdapter\<close>\<close>

record 'w ledger =
  lg_put :: "memory_record \<Rightarrow> ('w, exn, unit) eff"
  lg_get :: "string \<Rightarrow> ('w, exn, memory_record option) eff"
  lg_get_by_backend_ref :: "string \<Rightarrow> string \<Rightarrow> ('w, exn, memory_record option) eff"
  lg_delete :: "string \<Rightarrow> ('w, exn, unit) eff"

record 'w memory_adapter =
  ma_name :: string
  ma_store :: "string \<Rightarrow> string \<Rightarrow> string \<Rightarrow> ('w, exn, string) eff"
  ma_search :: "string \<Rightarrow> string \<Rightarrow> int \<Rightarrow> ('w, exn, candidate list) eff"
  ma_delete :: "string \<Rightarrow> string \<Rightarrow> ('w, exn, unit) eff"

section \<open>The in-memory ledger\<close>

definition mem_ledger_put :: "memory_record \<Rightarrow> (('x, 'm) memory_world_scheme, exn, unit) eff" where
  "mem_ledger_put r = modifyE (\<lambda>w. w\<lparr>w_ledger_mem := AList.update (mm_memory_id r) r (w_ledger_mem w)\<rparr>)"

definition mem_ledger_get :: "string \<Rightarrow> (('x, 'm) memory_world_scheme, exn, memory_record option) eff" where
  "mem_ledger_get i = getsE (\<lambda>w. map_of (w_ledger_mem w) i)"

definition has_ref :: "string \<Rightarrow> string \<Rightarrow> memory_record \<Rightarrow> bool" where
  "has_ref backend ref r = (mm_backend r = backend \<and> mm_backend_ref r = ref)"

definition mem_ledger_by_ref :: "string \<Rightarrow> string \<Rightarrow> (('x, 'm) memory_world_scheme, exn, memory_record option) eff" where
  "mem_ledger_by_ref backend ref = getsE (\<lambda>w. find (has_ref backend ref) (map snd (w_ledger_mem w)))"

definition mem_ledger_delete :: "string \<Rightarrow> (('x, 'm) memory_world_scheme, exn, unit) eff" where
  "mem_ledger_delete i = modifyE (\<lambda>w. w\<lparr>w_ledger_mem := filter (\<lambda>kv. fst kv \<noteq> i) (w_ledger_mem w)\<rparr>)"

definition mem_ledger :: "('x, 'm) memory_world_scheme ledger" where
  "mem_ledger = \<lparr>lg_put = mem_ledger_put, lg_get = mem_ledger_get, lg_get_by_backend_ref = mem_ledger_by_ref,
     lg_delete = mem_ledger_delete\<rparr>"

section \<open>The Postgres ledger\<close>

definition ledger_values :: "memory_record \<Rightarrow> ledger_row" where
  "ledger_values r = \<lparr>lr_written_for = mm_written_for r, lr_written_by = mm_written_by r,
     lr_derived_from = dumps (JArr (map JStr (mm_derived_from r))), lr_content_hash = mm_content_hash r,
     lr_backend = mm_backend r, lr_backend_ref = mm_backend_ref r, lr_created_at = mm_created_at r\<rparr>"

definition ledger_from_row :: "pyconv \<Rightarrow> string \<times> ledger_row \<Rightarrow> exn + memory_record" where
  "ledger_from_row pc kr = (case kr of (i, row) \<Rightarrow>
     (case loads (lr_derived_from row) of None \<Rightarrow> Inl (Other ''JSONDecodeError'') | Some v \<Rightarrow>
      case json_iter v of Inl e \<Rightarrow> Inl e | Inr vs \<Rightarrow>
      Inr \<lparr>mm_memory_id = i, mm_written_for = lr_written_for row, mm_written_by = lr_written_by row,
           mm_derived_from = map (conv_str pc) vs, mm_content_hash = lr_content_hash row,
           mm_backend = lr_backend row, mm_backend_ref = lr_backend_ref row, mm_created_at = lr_created_at row\<rparr>))"

definition row_has_ref :: "string \<Rightarrow> string \<Rightarrow> string \<times> ledger_row \<Rightarrow> bool" where
  "row_has_ref backend ref kr = (lr_backend (snd kr) = backend \<and> lr_backend_ref (snd kr) = ref)"

text \<open>\<open>INSERT ... ON CONFLICT (memory_id) DO UPDATE\<close>; the pair of backend and reference is unique.\<close>

definition pg_ledger_put :: "memory_record \<Rightarrow> (('x, 'm) memory_world_scheme, exn, unit) eff" where
  "pg_ledger_put r = db_stmt LedgerUnavailable (\<lambda>w.
     if list_ex (\<lambda>kr. fst kr \<noteq> mm_memory_id r \<and> row_has_ref (mm_backend r) (mm_backend_ref r) kr) (w_ledger_rows w) then None
     else Some ((), w\<lparr>w_ledger_rows := AList.update (mm_memory_id r) (ledger_values r) (w_ledger_rows w)\<rparr>))"

text \<open>\<open>fetchone\<close> of a query\<close>

definition pg_ledger_record ::
    "pyconv \<Rightarrow> (string \<times> ledger_row \<Rightarrow> bool) \<Rightarrow> (('x, 'm) memory_world_scheme, exn, memory_record option) eff" where
  "pg_ledger_record pc cond = bindE (db_query LedgerUnavailable (\<lambda>w. find cond (w_ledger_rows w))) (\<lambda>row.
     case row of None \<Rightarrow> retE None | Some kr \<Rightarrow> bindE (liftE (ledger_from_row pc kr)) (\<lambda>r. retE (Some r)))"

definition pg_ledger_get :: "pyconv \<Rightarrow> string \<Rightarrow> (('x, 'm) memory_world_scheme, exn, memory_record option) eff" where
  "pg_ledger_get pc i = pg_ledger_record pc (\<lambda>kr. fst kr = i)"

definition pg_ledger_by_ref ::
    "pyconv \<Rightarrow> string \<Rightarrow> string \<Rightarrow> (('x, 'm) memory_world_scheme, exn, memory_record option) eff" where
  "pg_ledger_by_ref pc backend ref = pg_ledger_record pc (row_has_ref backend ref)"

definition pg_ledger_delete :: "string \<Rightarrow> (('x, 'm) memory_world_scheme, exn, unit) eff" where
  "pg_ledger_delete i = db_stmt LedgerUnavailable (\<lambda>w.
     Some ((), w\<lparr>w_ledger_rows := filter (\<lambda>kr. fst kr \<noteq> i) (w_ledger_rows w)\<rparr>))"

definition pg_ledger :: "pyconv \<Rightarrow> ('x, 'm) memory_world_scheme ledger" where
  "pg_ledger pc = \<lparr>lg_put = pg_ledger_put, lg_get = pg_ledger_get pc, lg_get_by_backend_ref = pg_ledger_by_ref pc,
     lg_delete = pg_ledger_delete\<rparr>"

section \<open>The in-memory adapter\<close>

text \<open>\<open>\w\<close> and \<open>str.lower\<close> on code points below 256.\<close>

definition word_char :: "char \<Rightarrow> bool" where
  "word_char c = (let n = of_char c :: nat in
     (48 \<le> n \<and> n \<le> 57) \<or> (65 \<le> n \<and> n \<le> 90) \<or> n = 95 \<or> (97 \<le> n \<and> n \<le> 122)
     \<or> n \<in> set [170, 178, 179, 181, 185, 186, 188, 189, 190] \<or> (192 \<le> n \<and> n \<noteq> 215 \<and> n \<noteq> 247))"

text \<open>\<open>re.findall(r"\w+", text)\<close>\<close>

fun find_words :: "string \<Rightarrow> string \<Rightarrow> string list" where
  "find_words acc [] = (if acc = [] then [] else [rev acc])"
| "find_words acc (c # cs) = (if word_char c then find_words (c # acc) cs
     else (if acc = [] then [] else [rev acc]) @ find_words [] cs)"

definition word_tokens :: "string \<Rightarrow> string set" where
  "word_tokens text = set (map (map lower_char) (filter (\<lambda>w. length w > 2) (find_words [] text)))"

definition mem_store :: "string \<Rightarrow> string \<Rightarrow> string \<Rightarrow> (('x, 'm) memory_world_scheme, exn, string) eff" where
  "mem_store i content ns = bindE (getsE w_content_fail) (\<lambda>failing.
     if failing then bindE (modifyE (\<lambda>w. w\<lparr>w_content_fail := False\<rparr>)) (\<lambda>_. raiseE (Other ''RuntimeError''))
     else bindE uuid4_hex (\<lambda>ref.
       bindE (modifyE (\<lambda>w. w\<lparr>w_content_mem := AList.update (ns, ref) (i, content) (w_content_mem w)\<rparr>)) (\<lambda>_.
       retE ref)))"

definition overlap_score :: "string set \<Rightarrow> string \<Rightarrow> rat" where
  "overlap_score wanted content = Fract (int (card (wanted \<inter> word_tokens content))) (int (max (card wanted) 1))"

definition mem_search :: "string \<Rightarrow> string \<Rightarrow> int \<Rightarrow> (('x, 'm) memory_world_scheme, exn, candidate list) eff" where
  "mem_search query ns limit = getsE (\<lambda>w.
     let wanted = word_tokens query;
         scored = List.map_filter (\<lambda>((n, ref), (_, content)).
           if n \<noteq> ns \<or> wanted \<inter> word_tokens content = {} then None else Some (overlap_score wanted content, ref, content))
           (w_content_mem w)
     in map (\<lambda>(s, ref, content). \<lparr>cd_content = content, cd_backend_refs = [ref], cd_score = Some s\<rparr>)
          (take (nat limit) (sort_key (\<lambda>(s, ref, content). (- s, ref)) scored)))"

definition mem_delete :: "string \<Rightarrow> string \<Rightarrow> (('x, 'm) memory_world_scheme, exn, unit) eff" where
  "mem_delete ref ns = modifyE (\<lambda>w. w\<lparr>w_content_mem := filter (\<lambda>kv. fst kv \<noteq> (ns, ref)) (w_content_mem w)\<rparr>)"

definition mem_adapter :: "('x, 'm) memory_world_scheme memory_adapter" where
  "mem_adapter = \<lparr>ma_name = ''inmemory'', ma_store = mem_store, ma_search = mem_search, ma_delete = mem_delete\<rparr>"

section \<open>The Postgres adapter\<close>

text \<open>\<open>ts_rank\<close> where the text matches the query, and the distance of two vector literals.\<close>

record pg_search =
  tx_rank :: "string \<Rightarrow> string \<Rightarrow> rat option"
  tx_distance :: "string \<Rightarrow> string \<Rightarrow> rat"

type_synonym embedder = "string \<Rightarrow> exn + pyfloat list"

definition vector_literal :: "pyfloat list \<Rightarrow> string" where
  "vector_literal v = ''['' @ joined '','' (map fl_repr v) @ '']''"

definition embed :: "embedder option \<Rightarrow> string \<Rightarrow> exn + pyfloat list option" where
  "embed emb text = (case emb of None \<Rightarrow> Inr None | Some f \<Rightarrow> (case f text of Inl e \<Rightarrow> Inl e | Inr v \<Rightarrow> Inr (Some v)))"

text \<open>One transaction for both inserts.\<close>

definition pg_store ::
    "embedder option \<Rightarrow> string \<Rightarrow> string \<Rightarrow> string \<Rightarrow> (('x, 'm) memory_world_scheme, exn, string) eff" where
  "pg_store emb i content ns = bindE uuid4_hex (\<lambda>ref.
     bindE (liftE (embed emb content)) (\<lambda>vec.
     bindE now (\<lambda>t.
     bindE (db_stmt MemoryContentUnavailable (\<lambda>w.
       if map_of (w_content_rows w) (ns, ref) \<noteq> None then None
       else Some ((), w\<lparr>w_content_rows := w_content_rows w @ [((ns, ref), \<lparr>cr_memory_id = i, cr_content = content, cr_created_at = t\<rparr>)],
         w_embed_rows := (case vec of None \<Rightarrow> w_embed_rows w | Some v \<Rightarrow> w_embed_rows w @ [((ns, ref), vector_literal v)])\<rparr>))) (\<lambda>_.
     retE ref))))"

definition search_text ::
    "pg_search \<Rightarrow> string \<Rightarrow> string \<Rightarrow> int \<Rightarrow> (('x, 'm) memory_world_scheme, exn, (string \<times> string \<times> rat) list) eff" where
  "search_text tx query ns limit = db_query MemoryContentUnavailable (\<lambda>w.
     take (nat limit) (sort_key (\<lambda>(ref, content, s). (- s, ref))
       (List.map_filter (\<lambda>((n, ref), row). if n \<noteq> ns then None
          else map_option (\<lambda>s. (ref, cr_content row, s)) (tx_rank tx query (cr_content row))) (w_content_rows w))))"

definition search_embedding ::
    "pg_search \<Rightarrow> string \<Rightarrow> string \<Rightarrow> int \<Rightarrow> (('x, 'm) memory_world_scheme, exn, (string \<times> string \<times> rat) list) eff" where
  "search_embedding tx vec ns limit = db_query MemoryContentUnavailable (\<lambda>w.
     take (nat limit) (sort_key (\<lambda>(ref, content, s). (1 - s, ref))
       (List.map_filter (\<lambda>((n, ref), e). if n \<noteq> ns then None
          else map_option (\<lambda>row. (ref, cr_content row, 1 - tx_distance tx e vec)) (map_of (w_content_rows w) (n, ref)))
          (w_embed_rows w))))"

definition pg_memory_search ::
    "pg_search \<Rightarrow> embedder option \<Rightarrow> string \<Rightarrow> string \<Rightarrow> int \<Rightarrow> (('x, 'm) memory_world_scheme, exn, candidate list) eff" where
  "pg_memory_search tx emb query ns limit =
     bindE (liftE (embed emb query)) (\<lambda>vec.
     bindE (case vec of
         Some v \<Rightarrow> if list_ex (\<lambda>x. fl_val x \<noteq> 0) v then search_embedding tx (vector_literal v) ns limit else retE []
       | None \<Rightarrow> retE []) (\<lambda>found.
     bindE (if found = [] then search_text tx query ns limit else retE found) (\<lambda>rows.
     retE (map (\<lambda>(ref, content, s). \<lparr>cd_content = content, cd_backend_refs = [ref], cd_score = Some s\<rparr>) rows))))"

text \<open>\<open>ON DELETE CASCADE\<close> takes the embedding along.\<close>

definition pg_memory_delete :: "string \<Rightarrow> string \<Rightarrow> (('x, 'm) memory_world_scheme, exn, unit) eff" where
  "pg_memory_delete ref ns = db_stmt MemoryContentUnavailable (\<lambda>w. Some ((),
     w\<lparr>w_content_rows := filter (\<lambda>kr. fst kr \<noteq> (ns, ref)) (w_content_rows w),
       w_embed_rows := filter (\<lambda>kr. fst kr \<noteq> (ns, ref)) (w_embed_rows w)\<rparr>))"

definition pg_adapter :: "pg_search \<Rightarrow> embedder option \<Rightarrow> ('x, 'm) memory_world_scheme memory_adapter" where
  "pg_adapter tx emb = \<lparr>ma_name = ''postgres'', ma_store = pg_store emb, ma_search = pg_memory_search tx emb,
     ma_delete = pg_memory_delete\<rparr>"

section \<open>The contract of a ledger\<close>

type_synonym records = "string \<Rightarrow> memory_record option"

definition spec_lput :: "memory_record \<Rightarrow> records \<Rightarrow> unit \<Rightarrow> records \<Rightarrow> bool" where
  "spec_lput r m u m' \<longleftrightarrow> m' = m(mm_memory_id r \<mapsto> r)"

definition spec_lget :: "string \<Rightarrow> records \<Rightarrow> memory_record option \<Rightarrow> records \<Rightarrow> bool" where
  "spec_lget i m x m' \<longleftrightarrow> m' = m \<and> x = m i"

definition spec_lref :: "string \<Rightarrow> string \<Rightarrow> records \<Rightarrow> memory_record option \<Rightarrow> records \<Rightarrow> bool" where
  "spec_lref backend ref m x m' \<longleftrightarrow> m' = m \<and> (case x of None \<Rightarrow> (\<forall>r\<in>ran m. \<not> has_ref backend ref r)
     | Some r \<Rightarrow> r \<in> ran m \<and> has_ref backend ref r)"

definition spec_ldelete :: "string \<Rightarrow> records \<Rightarrow> unit \<Rightarrow> records \<Rightarrow> bool" where
  "spec_ldelete i m u m' \<longleftrightarrow> m' = m(i := None)"

locale ledger_contract =
  fixes store :: "'w ledger"
    and recs :: "'w \<Rightarrow> records"
    and good :: "'w \<Rightarrow> bool"
  assumes put: "atomic recs good (spec_lput r) (lg_put store r)"
    and get: "atomic recs good (spec_lget i) (lg_get store i)"
    and by_ref: "atomic recs good (spec_lref backend ref) (lg_get_by_backend_ref store backend ref)"
    and delete: "atomic recs good (spec_ldelete i) (lg_delete store i)"
    and ids: "good w \<Longrightarrow> recs w i = Some r \<Longrightarrow> mm_memory_id r = i"
begin

text \<open>The records of the references of a candidate, when every one of them is known.\<close>

lemma refs_known:
  assumes "good w" "mapE (lg_get_by_backend_ref store backend) refs w = (Inr xs, w')"
  shows "good w' \<and> recs w' = recs w \<and> list_all2 (\<lambda>ref x. spec_lref backend ref (recs w) x (recs w)) refs xs"
  using assms
proof (induction refs arbitrary: w xs)
  case (Cons ref refs)
  then obtain x w1 ys where run: "lg_get_by_backend_ref store backend ref w = (Inr x, w1)"
      "mapE (lg_get_by_backend_ref store backend) refs w1 = (Inr ys, w')" "xs = x # ys"
    by (auto simp: bindE_Inr retE_def)
  have "good w1 \<and> spec_lref backend ref (recs w) x (recs w1)" by (rule atomicD(1) [OF by_ref Cons.prems(1) run(1)])
  then have "good w1" "recs w1 = recs w" "spec_lref backend ref (recs w) x (recs w)" by (auto simp: spec_lref_def)
  then show ?case using Cons.IH [OF _ run(2)] run(3) by simp
qed (simp add: retE_def)

end

definition mem_ledger_good :: "('x, 'm) memory_world_scheme \<Rightarrow> bool" where
  "mem_ledger_good w \<longleftrightarrow> distinct (map fst (w_ledger_mem w)) \<and>
     (\<forall>k r. map_of (w_ledger_mem w) k = Some r \<longrightarrow> mm_memory_id r = k)"

definition mem_records :: "('x, 'm) memory_world_scheme \<Rightarrow> records" where
  "mem_records w = map_of (w_ledger_mem w)"

lemma map_of_filter_key: "map_of (filter (\<lambda>kv. fst kv \<noteq> i) al) = (map_of al)(i := None)"
  by (induction al) (auto simp: fun_eq_iff)

lemma distinct_filter_key: "distinct (map fst al) \<Longrightarrow> distinct (map fst (filter P al))"
  by (induction al) auto

lemma find_spec:
  fixes P :: "'a \<Rightarrow> bool"
  shows "(case find P xs of None \<Rightarrow> \<forall>x\<in>set xs. \<not> P x | Some x \<Rightarrow> x \<in> set xs \<and> P x)"
  by (induction xs) (auto split: option.splits)

interpretation mem_ledger: ledger_contract mem_ledger mem_records mem_ledger_good
proof
  fix r :: memory_record
  show "atomic mem_records mem_ledger_good (spec_lput r) (lg_put mem_ledger r)"
    by (auto simp: mem_ledger_def mem_ledger_put_def mem_ledger_good_def mem_records_def spec_lput_def map_of_update distinct_update
        intro!: atomic_modifyE simp del: map_of_eq_Some_iff split: if_splits)
next
  fix backend ref
  show "atomic mem_records mem_ledger_good (spec_lref backend ref) (lg_get_by_backend_ref mem_ledger backend ref)"
    unfolding mem_ledger_def ledger.simps mem_ledger_by_ref_def
  proof (rule atomic_getsE)
    fix w assume "mem_ledger_good w"
    then show "spec_lref backend ref (mem_records w) (find (has_ref backend ref) (map snd (w_ledger_mem w))) (mem_records w)"
    using find_spec [where P = "has_ref backend ref" and xs = "map snd (w_ledger_mem w)"]
    by (auto simp: spec_lref_def mem_records_def mem_ledger_good_def ran_map_of split: option.splits)
  qed
next
  fix i
  show "atomic mem_records mem_ledger_good (spec_ldelete i) (lg_delete mem_ledger i)"
    by (auto simp: mem_ledger_def mem_ledger_delete_def mem_ledger_good_def mem_records_def spec_ldelete_def map_of_filter_key
        distinct_filter_key intro!: atomic_modifyE simp del: map_of_eq_Some_iff split: if_splits)
qed (auto intro!: atomic_getsE simp: mem_ledger_def mem_ledger_get_def spec_lget_def mem_records_def mem_ledger_good_def
      simp del: map_of_eq_Some_iff)

definition pg_ledger_good :: "pyconv \<Rightarrow> ('x, 'm) memory_world_scheme \<Rightarrow> bool" where
  "pg_ledger_good pc w \<longleftrightarrow> distinct (map fst (w_ledger_rows w)) \<and>
     (\<forall>kr\<in>set (w_ledger_rows w). \<exists>r. ledger_from_row pc kr = Inr r)"

definition pg_records :: "pyconv \<Rightarrow> ('x, 'm) memory_world_scheme \<Rightarrow> records" where
  "pg_records pc w i = (case map_of (w_ledger_rows w) i of None \<Rightarrow> None
     | Some row \<Rightarrow> (case ledger_from_row pc (i, row) of Inl e \<Rightarrow> None | Inr r \<Rightarrow> Some r))"

text \<open>Writing a record and reading the row back is the identity.\<close>

lemma ledger_row_round_trip:
  "conv_laws pc \<Longrightarrow> ledger_from_row pc (mm_memory_id r, ledger_values r) = Inr r"
  by (simp add: ledger_from_row_def ledger_values_def loads_dumps list_all_iff json_iter_def comp_def conv_laws_def)

lemma ledger_from_row_fields:
  "ledger_from_row pc (i, row) = Inr r \<Longrightarrow>
    mm_memory_id r = i \<and> has_ref backend ref r = row_has_ref backend ref (i, row)"
  by (auto simp: ledger_from_row_def has_ref_def row_has_ref_def split: option.splits sum.splits)

lemma pg_ledger_frame [simp]:
  "pg_records pc (w\<lparr>w_db_at := n\<rparr>) = pg_records pc w" "pg_ledger_good pc (w\<lparr>w_db_at := n\<rparr>) = pg_ledger_good pc w"
  by (simp_all add: pg_records_def pg_ledger_good_def fun_eq_iff)

lemma pg_records_row:
  "pg_ledger_good pc w \<Longrightarrow> (i, row) \<in> set (w_ledger_rows w) \<Longrightarrow> \<exists>r. ledger_from_row pc (i, row) = Inr r \<and> pg_records pc w i = Some r"
  by (fastforce simp: pg_ledger_good_def pg_records_def)

lemma ran_pg_records:
  assumes "pg_ledger_good pc w" "r \<in> ran (pg_records pc w)"
  shows "\<exists>i row. (i, row) \<in> set (w_ledger_rows w) \<and> ledger_from_row pc (i, row) = Inr r"
proof -
  obtain i where i: "pg_records pc w i = Some r" using assms(2) by (auto simp: ran_def)
  then obtain row where row: "map_of (w_ledger_rows w) i = Some row" by (auto simp: pg_records_def split: option.splits)
  then have "ledger_from_row pc (i, row) = Inr r" using i by (auto simp: pg_records_def split: sum.splits)
  then show ?thesis using map_of_SomeD [OF row] by blast
qed

text \<open>A query that looks for a row by a condition on the decoded record.\<close>

lemma pg_ledger_record_atomic:
  fixes spec :: "records \<Rightarrow> memory_record option \<Rightarrow> records \<Rightarrow> bool"
  assumes "\<And>w :: ('x, 'm) memory_world_scheme. pg_ledger_good pc w \<Longrightarrow> find cond (w_ledger_rows w) = None \<Longrightarrow>
      spec (pg_records pc w) None (pg_records pc w)"
    and "\<And>(w :: ('x, 'm) memory_world_scheme) i row r. pg_ledger_good pc w \<Longrightarrow> find cond (w_ledger_rows w) = Some (i, row) \<Longrightarrow>
      ledger_from_row pc (i, row) = Inr r \<Longrightarrow> pg_records pc w i = Some r \<Longrightarrow> spec (pg_records pc w) (Some r) (pg_records pc w)"
  shows "atomic (pg_records pc :: ('x, 'm) memory_world_scheme \<Rightarrow> records) (pg_ledger_good pc) spec (pg_ledger_record pc cond)"
proof -
  let ?spec = "\<lambda>m row m'. m' = m \<and> (case row of None \<Rightarrow> spec m None m | Some kr \<Rightarrow> (\<exists>r. ledger_from_row pc kr = Inr r \<and> spec m (Some r) m))"
  have "atomic (pg_records pc :: ('x, 'm) memory_world_scheme \<Rightarrow> records) (pg_ledger_good pc) ?spec
      (db_query LedgerUnavailable (\<lambda>w. find cond (w_ledger_rows w)))"
  proof (rule atomic_db_query)
    fix w :: "('x, 'm) memory_world_scheme" assume w: "pg_ledger_good pc w"
    show "?spec (pg_records pc w) (find cond (w_ledger_rows w)) (pg_records pc w)"
    proof (cases "find cond (w_ledger_rows w)")
      case None
      then show ?thesis using assms(1) [OF w] by simp
    next
      case (Some kr)
      obtain i row where kr: "kr = (i, row)" by (cases kr)
      have "(i, row) \<in> set (w_ledger_rows w)" using find_spec [where P = cond and xs = "w_ledger_rows w"] Some kr by simp
      from pg_records_row [OF w this] show ?thesis using assms(2) [OF w] Some kr by auto
    qed
  qed simp_all
  then show ?thesis unfolding pg_ledger_record_def
    by (rule atomic_bind_pure) (auto simp: wp_retE wp_bindE wp_liftE split: option.splits)
qed

lemma pg_ledger_put_atomic:
  assumes "conv_laws pc"
  shows "atomic (pg_records pc :: ('x, 'm) memory_world_scheme \<Rightarrow> records) (pg_ledger_good pc) (spec_lput r) (pg_ledger_put r)"
  unfolding pg_ledger_put_def
proof (rule atomic_db_stmt)
  fix w :: "('x, 'm) memory_world_scheme" and x w'
  assume w: "pg_ledger_good pc w" and st: "(if list_ex (\<lambda>kr. fst kr \<noteq> mm_memory_id r \<and> row_has_ref (mm_backend r) (mm_backend_ref r) kr) (w_ledger_rows w)
      then None else Some ((), w\<lparr>w_ledger_rows := AList.update (mm_memory_id r) (ledger_values r) (w_ledger_rows w)\<rparr>)) = Some (x, w')"
  then have w': "w' = w\<lparr>w_ledger_rows := AList.update (mm_memory_id r) (ledger_values r) (w_ledger_rows w)\<rparr>" by (auto split: if_splits)
  have upd: "kr \<in> set (AList.update k v al) \<Longrightarrow> kr = (k, v) \<or> kr \<in> set al" for kr k v and al :: "(string \<times> ledger_row) list"
    by (induction al) (auto split: if_splits)
  have "pg_ledger_good pc w'"
    using w ledger_row_round_trip [OF assms, of r] unfolding pg_ledger_good_def w' by (auto simp: distinct_update dest!: upd)
  moreover have "pg_records pc w' = (pg_records pc w)(mm_memory_id r \<mapsto> r)"
    using ledger_row_round_trip [OF assms, of r] by (auto simp: pg_records_def w' map_of_update fun_eq_iff)
  ultimately show "pg_ledger_good pc w' \<and> spec_lput r (pg_records pc w) x (pg_records pc w')" by (simp add: spec_lput_def)
qed simp_all

lemma pg_ledger_delete_atomic:
  "atomic (pg_records pc :: ('x, 'm) memory_world_scheme \<Rightarrow> records) (pg_ledger_good pc) (spec_ldelete i) (pg_ledger_delete i)"
  unfolding pg_ledger_delete_def
  by (rule atomic_db_stmt)
     (auto simp: pg_ledger_good_def pg_records_def spec_ldelete_def map_of_filter_key distinct_filter_key fun_eq_iff)

lemma pg_ledger_contract:
  assumes "conv_laws pc"
  shows "ledger_contract (pg_ledger pc) (pg_records pc) (pg_ledger_good pc)"
proof
  fix r show "atomic (pg_records pc) (pg_ledger_good pc) (spec_lput r) (lg_put (pg_ledger pc) r)"
    using pg_ledger_put_atomic [OF assms] by (simp add: pg_ledger_def)
next
  fix i
  show "atomic (pg_records pc) (pg_ledger_good pc) (spec_lget i) (lg_get (pg_ledger pc) i)"
    unfolding pg_ledger_def ledger.simps pg_ledger_get_def
  proof (rule pg_ledger_record_atomic)
    fix w assume "find (\<lambda>kr. fst kr = i) (w_ledger_rows w) = None"
    then show "spec_lget i (pg_records pc w) None (pg_records pc w)"
      using find_spec [where P = "\<lambda>kr. fst kr = i" and xs = "w_ledger_rows w"]
      by (auto simp: spec_lget_def pg_records_def split: option.splits dest!: map_of_SomeD)
  next
    fix w j row r assume "find (\<lambda>kr. fst kr = i) (w_ledger_rows w) = Some (j, row)" "pg_records pc w j = Some r"
    then show "spec_lget i (pg_records pc w) (Some r) (pg_records pc w)"
      using find_spec [where P = "\<lambda>kr. fst kr = i" and xs = "w_ledger_rows w"] by (simp add: spec_lget_def)
  qed
next
  fix backend ref
  show "atomic (pg_records pc) (pg_ledger_good pc) (spec_lref backend ref) (lg_get_by_backend_ref (pg_ledger pc) backend ref)"
    unfolding pg_ledger_def ledger.simps pg_ledger_by_ref_def
  proof (rule pg_ledger_record_atomic)
    fix w assume w: "pg_ledger_good pc w" "find (row_has_ref backend ref) (w_ledger_rows w) = None"
    then have none: "\<forall>kr\<in>set (w_ledger_rows w). \<not> row_has_ref backend ref kr"
      using find_spec [where P = "row_has_ref backend ref" and xs = "w_ledger_rows w"] by simp
    have "\<not> has_ref backend ref r" if "r \<in> ran (pg_records pc w)" for r
    proof -
      obtain i row where "(i, row) \<in> set (w_ledger_rows w)" "ledger_from_row pc (i, row) = Inr r"
        using ran_pg_records [OF w(1) \<open>r \<in> ran (pg_records pc w)\<close>] by blast
      then show ?thesis using none ledger_from_row_fields by blast
    qed
    then show "spec_lref backend ref (pg_records pc w) None (pg_records pc w)" by (simp add: spec_lref_def)
  next
    fix w i row r assume "find (row_has_ref backend ref) (w_ledger_rows w) = Some (i, row)" "ledger_from_row pc (i, row) = Inr r"
      "pg_records pc w i = Some r"
    then show "spec_lref backend ref (pg_records pc w) (Some r) (pg_records pc w)"
      using find_spec [where P = "row_has_ref backend ref" and xs = "w_ledger_rows w"] ledger_from_row_fields [of pc i row r backend ref]
      by (auto simp: spec_lref_def ran_def)
  qed
next
  fix i show "atomic (pg_records pc) (pg_ledger_good pc) (spec_ldelete i) (lg_delete (pg_ledger pc) i)"
    using pg_ledger_delete_atomic by (simp add: pg_ledger_def)
next
  fix w i r assume "pg_records pc w i = Some r"
  then show "mm_memory_id r = i" using ledger_from_row_fields by (auto simp: pg_records_def split: option.splits sum.splits)
qed

interpretation pg_ledger: ledger_contract "pg_ledger std_conv" "pg_records std_conv" "pg_ledger_good std_conv"
  by (rule pg_ledger_contract [OF std_conv_laws])

section \<open>The contract of an adapter\<close>

type_synonym contents = "string \<times> string \<Rightarrow> string option"

definition spec_store :: "string \<Rightarrow> string \<Rightarrow> contents \<Rightarrow> string \<Rightarrow> contents \<Rightarrow> bool" where
  "spec_store content ns m ref m' \<longleftrightarrow> m' = m((ns, ref) \<mapsto> content)"

definition spec_search :: "string \<Rightarrow> contents \<Rightarrow> candidate list \<Rightarrow> contents \<Rightarrow> bool" where
  "spec_search ns m cs m' \<longleftrightarrow> m' = m \<and> (\<forall>c\<in>set cs. \<exists>ref. cd_backend_refs c = [ref] \<and> m (ns, ref) = Some (cd_content c))"

definition spec_delete :: "string \<Rightarrow> string \<Rightarrow> contents \<Rightarrow> unit \<Rightarrow> contents \<Rightarrow> bool" where
  "spec_delete ref ns m u m' \<longleftrightarrow> m' = m((ns, ref) := None)"

locale adapter_contract =
  fixes adapter :: "'w memory_adapter"
    and contents :: "'w \<Rightarrow> contents"
    and good :: "'w \<Rightarrow> bool"
  assumes store: "atomic contents good (spec_store content ns) (ma_store adapter i content ns)"
    and search: "atomic contents good (spec_search ns) (ma_search adapter query ns limit)"
    and delete: "atomic contents good (spec_delete ref ns) (ma_delete adapter ref ns)"
begin

text \<open>What was deleted is not found any more.\<close>

lemma deleted_not_found:
  assumes "good w" "ma_delete adapter ref ns w = (Inr u, w1)" "ma_search adapter query ns limit w1 = (Inr cs, w2)"
  shows "\<forall>c\<in>set cs. cd_backend_refs c \<noteq> [ref]"
proof -
  have "good w1" "contents w1 (ns, ref) = None" using atomicD(1) [OF delete assms(1,2)] by (auto simp: spec_delete_def)
  then show ?thesis using atomicD(1) [OF search _ assms(3)] by (fastforce simp: spec_search_def)
qed

end

definition mem_contents :: "('x, 'm) memory_world_scheme \<Rightarrow> contents" where
  "mem_contents w k = map_option snd (map_of (w_content_mem w) k)"

definition mem_content_good :: "('x, 'm) memory_world_scheme \<Rightarrow> bool" where
  "mem_content_good w \<longleftrightarrow> distinct (map fst (w_content_mem w))"

definition pg_contents :: "('x, 'm) memory_world_scheme \<Rightarrow> contents" where
  "pg_contents w k = map_option cr_content (map_of (w_content_rows w) k)"

definition pg_content_good :: "('x, 'm) memory_world_scheme \<Rightarrow> bool" where
  "pg_content_good w \<longleftrightarrow> distinct (map fst (w_content_rows w))"

lemma set_map_filter: "set (List.map_filter f xs) = {y. \<exists>x\<in>set xs. f x = Some y}"
  by (induction xs) (auto simp: List.map_filter_simps split: option.splits)

interpretation mem_adapter: adapter_contract mem_adapter mem_contents mem_content_good
proof
  fix i content ns
  show "atomic mem_contents mem_content_good (spec_store content ns) (ma_store mem_adapter i content ns)"
    by (rule atomicI)
       (auto simp: mem_adapter_def mem_store_def bindE_def getsE_def modifyE_def raiseE_def retE_def uuid4_hex_def stateE_def
          mem_contents_def mem_content_good_def spec_store_def map_of_update distinct_update fun_eq_iff split: if_splits)
next
  fix query ns limit
  show "atomic mem_contents mem_content_good (spec_search ns) (ma_search mem_adapter query ns limit)"
    unfolding mem_adapter_def memory_adapter.simps mem_search_def
    by (rule atomic_getsE)
       (auto simp: Let_def spec_search_def mem_contents_def mem_content_good_def set_map_filter dest!: in_set_takeD split: if_splits)
next
  fix ref ns
  show "atomic mem_contents mem_content_good (spec_delete ref ns) (ma_delete mem_adapter ref ns)"
    by (auto simp: mem_adapter_def mem_delete_def mem_contents_def mem_content_good_def spec_delete_def map_of_filter_key
        distinct_filter_key fun_eq_iff intro!: atomic_modifyE)
qed

text \<open>A call that leaves the view alone may come first.\<close>

lemma atomic_bind_keeps:
  assumes "keeps view m" "keeps good m" "\<And>x. atomic view good spec (f x)"
  shows "atomic view good spec (bindE m f)"
proof (rule atomicI)
  fix w x w' assume w: "good w" and run: "bindE m f w = (Inr x, w')"
  then obtain y w1 where r: "m w = (Inr y, w1)" "f y w1 = (Inr x, w')" by (auto simp: bindE_Inr)
  have "view w1 = view w" "good w1" using keepsD [OF assms(1) r(1)] keepsD [OF assms(2) r(1)] w by simp_all
  then show "good w' \<and> spec (view w) x (view w')" using atomicD(1) [OF assms(3) _ r(2)] by simp
next
  fix w e w' assume w: "good w" and run: "bindE m f w = (Inl e, w')"
  show "good w' \<and> (view w' = view w \<or> (\<exists>x. spec (view w) x (view w')))"
  proof (cases "m w")
    case (Pair r w1)
    have same: "view w1 = view w" "good w1" using keepsD [OF assms(1) Pair] keepsD [OF assms(2) Pair] w by simp_all
    show ?thesis
    proof (cases r)
      case (Inl x)
      then show ?thesis using Pair run same by (simp add: bindE_def)
    next
      case (Inr y)
      then have "f y w1 = (Inl e, w')" using Pair run by (simp add: bindE_def)
      from atomicD(2) [OF assms(3) same(2) this] show ?thesis using same(1) by simp
    qed
  qed
qed

lemma pg_content_frame [simp]:
  "pg_contents (w\<lparr>w_db_at := n\<rparr>) = pg_contents w" "pg_content_good (w\<lparr>w_db_at := n\<rparr>) = pg_content_good w"
  "pg_contents (w\<lparr>w_uuid_at := n\<rparr>) = pg_contents w" "pg_content_good (w\<lparr>w_uuid_at := n\<rparr>) = pg_content_good w"
  "pg_contents (w\<lparr>w_clock_at := n\<rparr>) = pg_contents w" "pg_content_good (w\<lparr>w_clock_at := n\<rparr>) = pg_content_good w"
  by (simp_all add: pg_content_good_def pg_contents_def fun_eq_iff)

lemma pg_insert_content:
  assumes "pg_content_good w" "map_of (w_content_rows w) (ns, ref) = None"
  shows "pg_content_good (w\<lparr>w_content_rows := w_content_rows w @ [((ns, ref), row)], w_embed_rows := es\<rparr>)"
    "pg_contents (w\<lparr>w_content_rows := w_content_rows w @ [((ns, ref), row)], w_embed_rows := es\<rparr>) = (pg_contents w)((ns, ref) \<mapsto> cr_content row)"
proof -
  show "pg_content_good (w\<lparr>w_content_rows := w_content_rows w @ [((ns, ref), row)], w_embed_rows := es\<rparr>)"
    using assms by (simp add: pg_content_good_def map_of_eq_None_iff)
  show "pg_contents (w\<lparr>w_content_rows := w_content_rows w @ [((ns, ref), row)], w_embed_rows := es\<rparr>) = (pg_contents w)((ns, ref) \<mapsto> cr_content row)"
  proof
    fix k
    show "pg_contents (w\<lparr>w_content_rows := w_content_rows w @ [((ns, ref), row)], w_embed_rows := es\<rparr>) k
        = ((pg_contents w)((ns, ref) \<mapsto> cr_content row)) k"
      using assms(2) by (cases "k = (ns, ref)") (simp_all add: pg_contents_def map_add_def split: option.split)
  qed
qed

lemma pg_store_atomic: "atomic pg_contents pg_content_good (spec_store content ns) (pg_store emb i content ns)"
  unfolding pg_store_def
proof (rule atomic_bind_keeps, simp_all add: keeps_rules, rule atomic_bind_keeps, simp_all add: keeps_rules,
    rule atomic_bind_keeps, simp_all add: keeps_rules)
  fix ref vec t
  let ?row = "\<lparr>cr_memory_id = i, cr_content = content, cr_created_at = t\<rparr>"
  let ?es = "\<lambda>w. case vec of None \<Rightarrow> w_embed_rows w | Some v \<Rightarrow> w_embed_rows w @ [((ns, ref), vector_literal v)]"
  let ?stmt = "\<lambda>w. if \<exists>y. map_of (w_content_rows w) (ns, ref) = Some y then None
      else Some ((), w\<lparr>w_content_rows := w_content_rows w @ [((ns, ref), ?row)], w_embed_rows := ?es w\<rparr>)"
  have "atomic pg_contents pg_content_good (\<lambda>m u m'. m' = m((ns, ref) \<mapsto> content)) (db_stmt MemoryContentUnavailable ?stmt)"
  proof (rule atomic_db_stmt)
    fix w x w' assume w: "pg_content_good w" and st: "?stmt w = Some (x, w')"
    then have "map_of (w_content_rows w) (ns, ref) = None"
        and w': "w' = w\<lparr>w_content_rows := w_content_rows w @ [((ns, ref), ?row)], w_embed_rows := ?es w\<rparr>"
      by (auto split: if_splits simp del: map_of_eq_Some_iff)
    from pg_insert_content [OF w this(1)] show "pg_content_good w' \<and> pg_contents w' = (pg_contents w)((ns, ref) \<mapsto> content)"
      unfolding w' by simp
  qed simp_all
  then show "atomic pg_contents pg_content_good (spec_store content ns) (bindE (db_stmt MemoryContentUnavailable ?stmt) (\<lambda>_. retE ref))"
    by (rule atomic_bind_pure) (auto simp: wp_retE spec_store_def)
qed

text \<open>Both searches return contents of the namespace.\<close>

lemma pg_search_sound:
  assumes "pg_content_good w"
  shows "search_text tx query ns limit w = (Inr rows, w') \<Longrightarrow> \<forall>(ref, content, s)\<in>set rows. pg_contents w (ns, ref) = Some content"
    "search_embedding tx vec ns limit w = (Inr rows, w') \<Longrightarrow> \<forall>(ref, content, s)\<in>set rows. pg_contents w (ns, ref) = Some content"
  using assms
  by (auto simp: search_text_def search_embedding_def db_query_Inr set_map_filter pg_contents_def pg_content_good_def
      dest!: in_set_takeD split: if_splits) blast+

lemma keeps_pg_search: "keeps pg_contents (search_text tx query ns limit)" "keeps pg_contents (search_embedding tx vec ns limit)"
  "keeps pg_content_good (search_text tx query ns limit)" "keeps pg_content_good (search_embedding tx vec ns limit)"
  unfolding search_text_def search_embedding_def
  by (rule keeps_db_query; simp add: pg_contents_def pg_content_good_def fun_eq_iff)+

lemma pg_memory_search_atomic:
  "atomic pg_contents pg_content_good (spec_search ns) (pg_memory_search tx emb query ns limit :: (('x, 'm) memory_world_scheme, exn, candidate list) eff)"
proof (rule atomicI)
  let ?emb = "\<lambda>vec. case vec of
         Some v \<Rightarrow> if list_ex (\<lambda>x. fl_val x \<noteq> 0) v then search_embedding tx (vector_literal v) ns limit else retE []
       | None \<Rightarrow> retE []" and ?text = "\<lambda>found. if found = [] then search_text tx query ns limit else retE found"
  have keep: "keeps (pg_contents :: ('x, 'm) memory_world_scheme \<Rightarrow> contents) (?emb vec)
      \<and> keeps (pg_contents :: ('x, 'm) memory_world_scheme \<Rightarrow> contents) (?text found)" for vec found
    by (auto simp: keeps_rules keeps_pg_search split: option.splits)
  have keep': "keeps (pg_content_good :: ('x, 'm) memory_world_scheme \<Rightarrow> bool) (?emb vec)" "keeps (pg_content_good :: ('x, 'm) memory_world_scheme \<Rightarrow> bool) (?text found)" for vec found
    by (auto simp: keeps_rules keeps_pg_search split: option.splits)
  have all: "keeps pg_contents (pg_memory_search tx emb query ns limit :: (('x, 'm) memory_world_scheme, exn, candidate list) eff)"
      "keeps pg_content_good (pg_memory_search tx emb query ns limit :: (('x, 'm) memory_world_scheme, exn, candidate list) eff)"
    unfolding pg_memory_search_def using keep keep' by (intro keeps_bindE keeps_liftE keeps_retE; simp)+
  fix w w' :: "('x, 'm) memory_world_scheme" assume w: "pg_content_good w"
  show "pg_content_good w' \<and> (pg_contents w' = pg_contents w \<or> (\<exists>x. spec_search ns (pg_contents w) x (pg_contents w')))"
    if "pg_memory_search tx emb query ns limit w = (Inl e, w')" for e
    using keepsD [OF all(1) that] keepsD [OF all(2) that] w by simp
  show "pg_content_good w' \<and> spec_search ns (pg_contents w) x (pg_contents w')" if run: "pg_memory_search tx emb query ns limit w = (Inr x, w')" for x
  proof -
    obtain vec found w1 rows where r: "?emb vec w = (Inr found, w1)" "?text found w1 = (Inr rows, w')"
        "x = map (\<lambda>(ref, content, s). \<lparr>cd_content = content, cd_backend_refs = [ref], cd_score = Some s\<rparr>) rows"
      using run unfolding pg_memory_search_def bindE_Inr by (auto simp: liftE_def retE_def)
    have found: "\<forall>(ref, content, s)\<in>set found. pg_contents w (ns, ref) = Some content"
      using r(1) pg_search_sound(2) [OF w] by (auto simp: retE_def split: option.splits if_splits)
    have w1: "pg_contents w1 = pg_contents w" "pg_content_good w1"
      using keepsD [OF keep [THEN conjunct1] r(1)] keepsD [OF keep'(1) r(1)] w by simp_all
    have "\<forall>(ref, content, s)\<in>set rows. pg_contents w (ns, ref) = Some content"
      using r(2) found pg_search_sound(1) [OF w1(2)] w1(1) by (auto simp: retE_def split: if_splits)
    then have "spec_search ns (pg_contents w) x (pg_contents w)" by (auto simp: spec_search_def r(3))
    then show ?thesis using keepsD [OF all(1) run] keepsD [OF all(2) run] w by simp
  qed
qed

lemma pg_adapter_contract: "adapter_contract (pg_adapter tx emb) pg_contents pg_content_good"
proof
  fix ref ns
  show "atomic pg_contents pg_content_good (spec_delete ref ns) (ma_delete (pg_adapter tx emb) ref ns)"
    unfolding pg_adapter_def memory_adapter.simps pg_memory_delete_def
    by (rule atomic_db_stmt)
       (auto simp: pg_contents_def pg_content_good_def spec_delete_def map_of_filter_key distinct_filter_key fun_eq_iff)
qed (simp_all add: pg_adapter_def pg_store_atomic pg_memory_search_atomic)

text \<open>A deployment without an embedder, whatever the text search finds.\<close>

interpretation pg_adapter: adapter_contract "pg_adapter tx None" pg_contents pg_content_good for tx
  by (rule pg_adapter_contract)

end
