(* ===== verification/Core_Permits.thy ===== *)
theory Core_Permits
  imports Core_Decider
begin

text \<open>
  What the token holder's checks say per resource (\<open>core/permits.py\<close>), and what the services that ask
  share: the answers as a dict, and the digest of a list of references that goes into summary events.
\<close>

type_synonym 'w resource_permits = "kind \<Rightarrow> string list \<Rightarrow> ('w, exn, (string \<times> bool) list) eff"

text \<open>\<open>answers.get(r, False)\<close> of a dict written in the order of the list.\<close>

definition dict_permits :: "(string \<times> bool) list \<Rightarrow> string \<Rightarrow> bool" where
  "dict_permits answers r = (case map_of (rev answers) r of Some b \<Rightarrow> b | None \<Rightarrow> False)"

definition ref_digest :: "string list \<Rightarrow> string" where
  "ref_digest refs = sha256_hex (joined [newline] (sort refs))"

end
