(* ===== verification/Memory_Service.thy ===== *)
theory Memory_Service
  imports Memory_Stores Core_Permits
begin

text \<open>
  The memory service (\<open>memory/service.py\<close>): \<open>remember\<close>, \<open>recall\<close> and \<open>forget\<close>, with the provenance of a
  memory checked again on every read.

  \<open>permits\<close> is the callable built from \<open>TokenService.verify_many\<close>: it may raise and it may leave
  resources out. Calls are run one after the other, as the coroutine awaits them.
\<close>

record 'w memory_service =
  mv_tuples :: "'w tuple_store"
  mv_ledger :: "'w ledger"
  mv_adapter :: "'w memory_adapter"
  mv_decider :: "'w decider"
  mv_audit :: "'w audit_sink"
  mv_namespace :: string

definition DEFAULT_NAMESPACE :: string where
  "DEFAULT_NAMESPACE = ''hoc''"

definition MAX_LIMIT :: int where
  "MAX_LIMIT = 50"

definition content_hash :: "string \<Rightarrow> string" where
  "content_hash content = sha256_hex content"

definition refused :: "'w resource_permits option \<Rightarrow> kind \<Rightarrow> string list \<Rightarrow> ('w, exn, string list) eff" where
  "refused permits op rs = (case permits of
     None \<Rightarrow> retE []
   | Some f \<Rightarrow> if rs = [] then retE []
       else bindE (f op rs) (\<lambda>answers. retE (filter (\<lambda>r. \<not> dict_permits answers r) rs)))"

text \<open>\<open>kind.value.split('_')[1]\<close> of the two kinds used here.\<close>

definition memory_action :: "event_kind \<Rightarrow> string" where
  "memory_action k = ''memory:'' @ split_on (CHR ''_'') (event_kind_value k) ! 1"

definition memory_event ::
    "event_kind \<Rightarrow> principal_chain \<Rightarrow> string \<Rightarrow> string \<Rightarrow> string option \<Rightarrow> nat \<Rightarrow> string option
     \<Rightarrow> (('x, 'm) world_scheme, exn, audit_event) eff" where
  "memory_event k c i out h sources reason = bindE now (\<lambda>t. bindE uuid4_hex (\<lambda>eid. retE
     \<lparr>ev_kind = k, ev_timestamp = t, ev_subject = ch_subject c, ev_actor = ch_actor c, ev_delegation_depth = chain_depth c,
      ev_action = memory_action k, ev_resource = i, ev_outcome = out,
      ev_reason = (case reason of Some r \<Rightarrow> if r = [] then ''sources='' @ show_nat sources else r
        | None \<Rightarrow> ''sources='' @ show_nat sources),
      ev_engine_latency_ms = float_zero, ev_token_fingerprint = None, ev_args_hash = h, ev_decision_id = None,
      ev_event_id = eid\<rparr>))"

definition memory_journal ::
    "('x, 'm) world_scheme memory_service \<Rightarrow> event_kind \<Rightarrow> principal_chain \<Rightarrow> string \<Rightarrow> string \<Rightarrow> string option
     \<Rightarrow> nat \<Rightarrow> string option \<Rightarrow> (('x, 'm) world_scheme, exn, unit) eff" where
  "memory_journal sv k c i out h sources reason = bindE (memory_event k c i out h sources reason) (mv_audit sv)"

definition deny_read ::
    "('x, 'm) world_scheme memory_service \<Rightarrow> principal_chain \<Rightarrow> string \<Rightarrow> string \<Rightarrow> (('x, 'm) world_scheme, exn, unit) eff" where
  "deny_read sv c i reason = memory_journal sv EvMemoryRead c i ''DENY'' None 0 (Some reason)"

definition memory_denied :: "string \<Rightarrow> ('w, exn, 'a) eff" where
  "memory_denied reason = raiseE (Hoc MemoryDenied reason)"

section \<open>Writing\<close>

text \<open>\<open>except HocError: log\<close>\<close>

definition swallow_hoc :: "('w, exn, unit) eff \<Rightarrow> ('w, exn, unit) eff" where
  "swallow_hoc m = catchE m (\<lambda>e. if catches HocError e then retE () else raiseE e)"

definition drop_content :: "'w memory_service \<Rightarrow> string option \<Rightarrow> ('w, exn, unit) eff" where
  "drop_content sv ref = (case ref of None \<Rightarrow> retE ()
     | Some r \<Rightarrow> catchE (ma_delete (mv_adapter sv) r (mv_namespace sv)) (\<lambda>_. retE ()))"

definition rollback ::
    "'w memory_service \<Rightarrow> string \<Rightarrow> tuple list \<Rightarrow> string option \<Rightarrow> ('w, exn, unit) eff" where
  "rollback sv i provenance ref =
     bindE (drop_content sv ref) (\<lambda>_.
     bindE (swallow_hoc (ts_delete_tuples (mv_tuples sv) provenance)) (\<lambda>_.
     swallow_hoc (lg_delete (mv_ledger sv) i)))"

definition provenance_tuples :: "principal_chain \<Rightarrow> string list \<Rightarrow> string \<Rightarrow> tuple list" where
  "provenance_tuples c sources i = map (\<lambda>d. (d, ''derived_from'', i)) sources @ [(ch_actor c, ''writer'', i)]"

text \<open>The part of \<open>remember\<close> under \<open>try\<close>: the content, then the ledger row.\<close>

definition store_memory ::
    "'w memory_service \<Rightarrow> principal_chain \<Rightarrow> string \<Rightarrow> string \<Rightarrow> string list \<Rightarrow> datetime \<Rightarrow> ('w, exn, memory_record) eff" where
  "store_memory sv c i content sources t =
     bindE (attemptE (ma_store (mv_adapter sv) i content (mv_namespace sv))) (\<lambda>stored. case stored of
       Inl e \<Rightarrow> bindE (rollback sv i (provenance_tuples c sources i) None) (\<lambda>_. raiseE e)
     | Inr ref \<Rightarrow>
       let r = \<lparr>mm_memory_id = i, mm_written_for = ch_subject c, mm_written_by = ch_actor c, mm_derived_from = sources,
                mm_content_hash = content_hash content, mm_backend = ma_name (mv_adapter sv), mm_backend_ref = ref,
                mm_created_at = t\<rparr> in
       bindE (attemptE (lg_put (mv_ledger sv) r)) (\<lambda>put. case put of
         Inl e \<Rightarrow> bindE (rollback sv i (provenance_tuples c sources i) (Some ref)) (\<lambda>_. raiseE e)
       | Inr _ \<Rightarrow> retE r))"

text \<open>After the decision: the tuples, the content and the ledger row, the event.\<close>

definition write_memory ::
    "('x, 'm) world_scheme memory_service \<Rightarrow> principal_chain \<Rightarrow> string \<Rightarrow> string \<Rightarrow> string list
     \<Rightarrow> (('x, 'm) world_scheme, exn, memory) eff" where
  "write_memory sv c i content sources = bindE now (\<lambda>t.
     bindE (catchE (ts_write_tuples (mv_tuples sv) (provenance_tuples c sources i))
       (\<lambda>e. if catches HocError e then memory_denied (failure_reason [] e) else raiseE e)) (\<lambda>_.
     bindE (store_memory sv c i content sources t) (\<lambda>r.
     bindE (memory_journal sv EvMemoryWritten c i ''written'' (Some (mm_content_hash r)) (length sources) None) (\<lambda>_.
     retE \<lparr>my_memory_id = i, my_content = content, my_derived_from = sources, my_written_for = ch_subject c,
           my_written_by = ch_actor c, my_created_at = Some t\<rparr>))))"

definition remember_as ::
    "('x, 'm) world_scheme memory_service \<Rightarrow> principal_chain \<Rightarrow> string \<Rightarrow> string \<Rightarrow> string list
     \<Rightarrow> ('x, 'm) world_scheme resource_permits option \<Rightarrow> (('x, 'm) world_scheme, exn, memory) eff" where
  "remember_as sv c i content sources permits =
     (let targets = (if sources = [] then [i] else sources) in
     bindE (refused permits REMEMBER targets) (\<lambda>bad.
     if bad \<noteq> [] then
       bindE (memory_journal sv EvMemoryWritten c i ''DENY'' (Some (content_hash content)) (length sources) (Some ''token_check_failed'')) (\<lambda>_.
       memory_denied ''token_check_failed'')
     else
       bindE (decide_all (mv_decider sv) c action_remember sources (Some targets) (Some i)
         (Some [(''content_sha256'', JStr (content_hash content))]) None) (\<lambda>dn.
       if d_outcome dn \<noteq> ALLOW then memory_denied (d_reason dn) else write_memory sv c i content sources)))"

definition remember ::
    "('x, 'm) world_scheme memory_service \<Rightarrow> principal_chain \<Rightarrow> string \<Rightarrow> string list
     \<Rightarrow> ('x, 'm) world_scheme resource_permits option \<Rightarrow> (('x, 'm) world_scheme, exn, memory) eff" where
  "remember sv c content derived_from permits =
     (let sources = dedupe derived_from in
     bindE (mapE (\<lambda>s. liftE (validate_ref s ''document'')) sources) (\<lambda>_.
     bindE uuid4_hex (\<lambda>u. remember_as sv c (''memory:'' @ u) content sources permits)))"

section \<open>Reading\<close>

fun gather_sources :: "'w tuple_store \<Rightarrow> memory_record list \<Rightarrow> string set \<Rightarrow> ('w, exn, string set) eff" where
  "gather_sources ts [] S = retE S"
| "gather_sources ts (r # rs) S = bindE (ts_read_tuples ts (mm_memory_id r) ''derived_from'') (\<lambda>found.
     gather_sources ts rs (S \<union> set (mm_derived_from r) \<union> fst ` set found))"

definition memory_sources :: "'w memory_service \<Rightarrow> memory_record list \<Rightarrow> ('w, exn, string list) eff" where
  "memory_sources sv rows = bindE (gather_sources (mv_tuples sv) rows {}) (\<lambda>S. retE (sorted_list_of_set S))"

definition admit_unguarded ::
    "('x, 'm) world_scheme memory_service \<Rightarrow> principal_chain \<Rightarrow> candidate \<Rightarrow> ('x, 'm) world_scheme resource_permits option
     \<Rightarrow> (('x, 'm) world_scheme, exn, memory option) eff" where
  "admit_unguarded sv c cand permits =
     bindE (mapE (lg_get_by_backend_ref (mv_ledger sv) (ma_name (mv_adapter sv))) (cd_backend_refs cand)) (\<lambda>records.
     if records = [] \<or> None \<in> set records then
       bindE (deny_read sv c ''memory:unknown'' ''no_provenance'') (\<lambda>_. retE None)
     else let rows = map the records; primary = hd rows in
     bindE (memory_sources sv rows) (\<lambda>sources.
     bindE (refused permits READ (map mm_memory_id rows @ sources)) (\<lambda>bad.
     if bad \<noteq> [] then bindE (deny_read sv c (mm_memory_id primary) ''token_check_failed'') (\<lambda>_. retE None)
     else if sources = [] \<and> set (map mm_written_for rows) \<noteq> {ch_subject c} then
       bindE (memory_journal sv EvMemoryRead c (mm_memory_id primary) ''DENY'' None 0 (Some ''not_written_for'')) (\<lambda>_. retE None)
     else
       bindE (decide_all (mv_decider sv) c action_read_memory sources (Some (map mm_memory_id rows)) (Some (mm_memory_id primary)) None None) (\<lambda>dn.
       bindE (memory_journal sv EvMemoryRead c (mm_memory_id primary) (outcome_value (d_outcome dn)) (Some (mm_content_hash primary))
         (length sources) (Some (d_reason dn))) (\<lambda>_.
       if d_outcome dn \<noteq> ALLOW then retE None
       else retE (Some \<lparr>my_memory_id = mm_memory_id primary, my_content = cd_content cand, my_derived_from = sources,
              my_written_for = mm_written_for primary, my_written_by = mm_written_by primary,
              my_created_at = Some (mm_created_at primary)\<rparr>))))))"

definition admit ::
    "('x, 'm) world_scheme memory_service \<Rightarrow> principal_chain \<Rightarrow> candidate \<Rightarrow> ('x, 'm) world_scheme resource_permits option
     \<Rightarrow> (('x, 'm) world_scheme, exn, memory option) eff" where
  "admit sv c cand permits = catchE (admit_unguarded sv c cand permits) (\<lambda>e.
     if catches HocError e then
       bindE (deny_read sv c (case cd_backend_refs cand of [] \<Rightarrow> ''memory:unknown'' | ref # _ \<Rightarrow> ref) (failure_reason [] e)) (\<lambda>_. retE None)
     else raiseE e)"

fun recall_loop ::
    "('x, 'm) world_scheme memory_service \<Rightarrow> principal_chain \<Rightarrow> ('x, 'm) world_scheme resource_permits option \<Rightarrow> int
     \<Rightarrow> candidate list \<Rightarrow> memory list \<Rightarrow> (('x, 'm) world_scheme, exn, memory list) eff" where
  "recall_loop sv c permits limit [] kept = retE kept"
| "recall_loop sv c permits limit (cand # cands) kept = bindE (admit sv c cand permits) (\<lambda>m.
     let kept' = kept @ (case m of None \<Rightarrow> [] | Some x \<Rightarrow> [x]) in
     if int (length kept') \<ge> limit then retE kept' else recall_loop sv c permits limit cands kept')"

definition recall ::
    "('x, 'm) world_scheme memory_service \<Rightarrow> principal_chain \<Rightarrow> string \<Rightarrow> int \<Rightarrow> ('x, 'm) world_scheme resource_permits option
     \<Rightarrow> (('x, 'm) world_scheme, exn, memory list) eff" where
  "recall sv c query limit0 permits =
     (let limit = max 1 (min limit0 MAX_LIMIT) in
     bindE (attemptE (ma_search (mv_adapter sv) query (mv_namespace sv) limit)) (\<lambda>found. case found of
       Inl _ \<Rightarrow> bindE (deny_read sv c ''memory:*'' ''backend_unavailable'') (\<lambda>_. retE [])
     | Inr cands \<Rightarrow> recall_loop sv c permits limit cands []))"

section \<open>Deleting\<close>

definition forget ::
    "('x, 'm) world_scheme memory_service \<Rightarrow> principal_chain \<Rightarrow> string \<Rightarrow> ('x, 'm) world_scheme resource_permits option
     \<Rightarrow> (('x, 'm) world_scheme, exn, unit) eff" where
  "forget sv c i permits =
     bindE (liftE (validate_ref i ''memory'')) (\<lambda>_.
     bindE (refused permits REMEMBER [i]) (\<lambda>bad.
     if bad \<noteq> [] then bindE (deny_read sv c i ''token_check_failed'') (\<lambda>_. memory_denied ''token_check_failed'')
     else bindE (lg_get (mv_ledger sv) i) (\<lambda>found. case found of
       None \<Rightarrow> bindE (memory_journal sv EvMemoryRead c i ''DENY'' None 0 (Some ''not_written_for'')) (\<lambda>_. raiseE (hoc MemoryDenied))
     | Some r \<Rightarrow>
       if mm_written_for r \<noteq> ch_subject c then
         bindE (memory_journal sv EvMemoryRead c i ''DENY'' None 0 (Some ''not_written_for'')) (\<lambda>_. raiseE (hoc MemoryDenied))
       else bindE (decide_all (mv_decider sv) c action_remember [] (Some [i]) (Some i) None None) (\<lambda>dn.
       if d_outcome dn \<noteq> ALLOW then memory_denied (d_reason dn)
       else bindE (ma_delete (mv_adapter sv) (mm_backend_ref r) (mv_namespace sv)) (\<lambda>_.
       bindE (lg_delete (mv_ledger sv) i) (\<lambda>_.
       bindE (ts_read_tuples (mv_tuples sv) i ''derived_from'') (\<lambda>t1.
       bindE (ts_read_tuples (mv_tuples sv) i ''writer'') (\<lambda>t2.
       ts_delete_tuples (mv_tuples sv) (t1 @ t2)))))))))"

section \<open>Lemmas\<close>

text \<open>
  Frames. \<open>untimed f\<close>: the view \<open>f\<close> of the world does not show how far its clocks and generators were read.
  \<open>frame f sv permits\<close>: the collaborators of the service other than its two stores leave \<open>f\<close> alone.
\<close>

definition untimed :: "(('x, 'm) world_scheme \<Rightarrow> 'v) \<Rightarrow> bool" where
  "untimed f \<longleftrightarrow> (\<forall>w n. f (w\<lparr>w_clock_at := n\<rparr>) = f w \<and> f (w\<lparr>w_uuid_at := n\<rparr>) = f w \<and> f (w\<lparr>w_perf_at := n\<rparr>) = f w)"

definition frame ::
    "(('x, 'm) world_scheme \<Rightarrow> 'v) \<Rightarrow> ('x, 'm) world_scheme memory_service \<Rightarrow> ('x, 'm) world_scheme resource_permits option \<Rightarrow> bool" where
  "frame f sv permits \<longleftrightarrow> (\<forall>e. keeps f (mv_audit sv e) \<and> keeps f (dc_audit (mv_decider sv) e))
     \<and> (\<forall>u items. keeps f (eng_batch_check (dc_engine (mv_decider sv)) u items))
     \<and> (\<forall>m. dc_metrics (mv_decider sv) = Some m \<longrightarrow> (\<forall>dn t l. keeps f (ms_record m dn t l)))
     \<and> (\<forall>i rel. keeps f (ts_read_tuples (mv_tuples sv) i rel)) \<and> (\<forall>ts. keeps f (ts_delete_tuples (mv_tuples sv) ts))
     \<and> (\<forall>p. permits = Some p \<longrightarrow> (\<forall>k rs. keeps f (p k rs)))"

lemma keeps_memory_journal:
  assumes "untimed f" "\<And>e. keeps f (mv_audit sv e)"
  shows "keeps f (memory_journal sv k c i out h n reason)"
  using assms by (simp add: memory_journal_def memory_event_def untimed_def keeps_rules)

lemma keeps_deny_read: "untimed f \<Longrightarrow> (\<And>e. keeps f (mv_audit sv e)) \<Longrightarrow> keeps f (deny_read sv c i reason)"
  unfolding deny_read_def by (rule keeps_memory_journal)

lemma keeps_refused: "frame f sv permits \<Longrightarrow> keeps f (refused permits op rs)"
  by (auto simp: refused_def frame_def intro!: keeps_rules split: option.splits)

lemma keeps_decide_all:
  assumes "untimed f" "frame f sv permits"
  shows "keeps f (decide_all (mv_decider sv) c a rs ts named args ctx)"
proof -
  have metrics: "keeps f (observe (mv_decider sv) dn t)" for dn t
    using assms by (cases "dc_metrics (mv_decider sv)") (simp_all add: observe_def untimed_def frame_def keeps_rules)
  have calls: "keeps f (eng_batch_check (dc_engine (mv_decider sv)) u items)" "keeps f (dc_audit (mv_decider sv) e)" for u items e
    using assms(2) by (simp_all add: frame_def)
  show ?thesis
    unfolding decide_all_def evaluate_all_def Let_def mk_decision_def journal_decision_def event_from_decision_def batch_def
    by (intro keeps_rules metrics calls) (use assms(1) in \<open>simp_all add: untimed_def\<close>)
qed

lemma keeps_gather_sources: "frame f sv permits \<Longrightarrow> keeps f (gather_sources (mv_tuples sv) rs S)"
  by (induction rs arbitrary: S) (simp_all add: frame_def keeps_rules)

lemma keeps_admit:
  assumes "untimed f" "frame f sv permits" "\<And>b ref. keeps f (lg_get_by_backend_ref (mv_ledger sv) b ref)"
  shows "keeps f (admit sv c cand permits)"
proof -
  have audit: "keeps f (mv_audit sv e)" for e using assms(2) by (simp add: frame_def)
  show ?thesis
    unfolding admit_def admit_unguarded_def memory_sources_def Let_def
    by (intro keeps_rules keeps_deny_read keeps_memory_journal keeps_refused [OF assms(2)] keeps_decide_all [OF assms(1,2)]
        keeps_gather_sources [OF assms(2)] assms(1,3) audit)
qed

lemma gather_sources_covers:
  "gather_sources ts rs S w = (Inr T, w') \<Longrightarrow> finite S \<Longrightarrow> finite T \<and> S \<subseteq> T \<and> (\<forall>r\<in>set rs. set (mm_derived_from r) \<subseteq> T
    \<and> (\<exists>w1 found w2. ts_read_tuples ts (mm_memory_id r) ''derived_from'' w1 = (Inr found, w2) \<and> fst ` set found \<subseteq> T))"
proof (induction rs arbitrary: S w)
  case (Cons r rs)
  then obtain found w1 where run: "ts_read_tuples ts (mm_memory_id r) ''derived_from'' w = (Inr found, w1)"
      "gather_sources ts rs (S \<union> set (mm_derived_from r) \<union> fst ` set found) w1 = (Inr T, w')"
    by (auto simp: bindE_Inr)
  have "finite (S \<union> set (mm_derived_from r) \<union> fst ` set found)" using Cons.prems(2) by simp
  from Cons.IH [OF run(2) this] run(1) show ?case by auto
qed (simp add: retE_def)

lemma refused_none:
  "refused permits op rs w = (Inr [], w') \<Longrightarrow>
    (case permits of None \<Rightarrow> True | Some f \<Rightarrow> rs = [] \<or> (\<exists>answers. f op rs w = (Inr answers, w') \<and> list_all (dict_permits answers) rs))"
  by (auto simp: refused_def bindE_Inr retE_def filter_empty_conv list_all_iff split: option.splits if_splits)

text \<open>
  What a memory that is handed out rests on: its content is that of a search hit all of whose references
  have ledger rows (\<open>known ref r\<close>); the sources it names contain every source of the ledger and every source of the
  engine's tuples; the token permits the memories and the sources; without sources it was written for
  the subject; the scope covers reading the memories and the engine related the subject to every source.
\<close>

definition vouched ::
    "(string \<Rightarrow> memory_record \<Rightarrow> bool) \<Rightarrow> ('x, 'm) world_scheme memory_service \<Rightarrow> principal_chain \<Rightarrow> ('x, 'm) world_scheme resource_permits option
     \<Rightarrow> candidate \<Rightarrow> memory \<Rightarrow> bool" where
  "vouched known sv c permits cand m \<longleftrightarrow> (\<exists>rows. rows \<noteq> [] \<and> my_memory_id m = mm_memory_id (hd rows) \<and> my_content m = cd_content cand
     \<and> list_all2 known (cd_backend_refs cand) rows
     \<and> (\<forall>r\<in>set rows. set (mm_derived_from r) \<subseteq> set (my_derived_from m) \<and> (\<exists>w1 found w2.
          ts_read_tuples (mv_tuples sv) (mm_memory_id r) ''derived_from'' w1 = (Inr found, w2) \<and> fst ` set found \<subseteq> set (my_derived_from m)))
     \<and> (case permits of None \<Rightarrow> True | Some f \<Rightarrow> \<exists>w1 answers w2. f READ (map mm_memory_id rows @ my_derived_from m) w1 = (Inr answers, w2)
          \<and> list_all (dict_permits answers) (map mm_memory_id rows @ my_derived_from m))
     \<and> (my_derived_from m = [] \<longrightarrow> (\<forall>r\<in>set rows. mm_written_for r = ch_subject c))
     \<and> (\<forall>r\<in>set rows. scope_covers (ch_scope c) (Capability READ (mm_memory_id r)))
     \<and> (my_derived_from m \<noteq> [] \<longrightarrow> batch_answered (dc_engine (mv_decider sv)) (ch_subject c) ''viewer'' (my_derived_from m)
          (Inr (replicate (length (my_derived_from m)) True))))"

lemma vouched_mono: "vouched P sv c permits cand m \<Longrightarrow> (\<And>ref r. P ref r \<Longrightarrow> Q ref r) \<Longrightarrow> vouched Q sv c permits cand m"
  unfolding vouched_def by (elim exE, rule exI) (auto intro: list_all2_mono)

text \<open>The ledger of the service answered with this row in a world that shows what \<open>w\<close> shows through \<open>f\<close>.\<close>

definition ledger_named ::
    "('w \<Rightarrow> 'v) \<Rightarrow> 'w memory_service \<Rightarrow> 'w \<Rightarrow> string \<Rightarrow> memory_record \<Rightarrow> bool" where
  "ledger_named f sv w ref r \<longleftrightarrow>
     (\<exists>w1 w2. f w1 = f w \<and> lg_get_by_backend_ref (mv_ledger sv) (ma_name (mv_adapter sv)) ref w1 = (Inr (Some r), w2))"

lemma mapE_each:
  "mapE g xs w = (Inr ys, w') \<Longrightarrow> (\<And>x. keeps f (g x)) \<Longrightarrow> list_all2 (\<lambda>x y. \<exists>w1 w2. f w1 = f w \<and> g x w1 = (Inr y, w2)) xs ys"
proof (induction xs arbitrary: w ys)
  case (Cons x xs)
  then obtain y w1 zs where run: "g x w = (Inr y, w1)" "mapE g xs w1 = (Inr zs, w')" and ys: "ys = y # zs"
    by (auto simp: bindE_Inr retE_def)
  have "f w1 = f w" using keepsD [OF Cons.prems(2) run(1)] .
  then have "list_all2 (\<lambda>x y. \<exists>w1 w2. f w1 = f w \<and> g x w1 = (Inr y, w2)) xs zs"
    using Cons.IH [OF run(2) Cons.prems(2)] by simp
  then show ?case using run(1) ys by auto
qed (simp add: retE_def)

lemma admit_vouched:
  assumes "admit_unguarded sv c cand permits w = (Inr (Some m), w')"
    and ledger: "\<And>b ref. keeps f (lg_get_by_backend_ref (mv_ledger sv) b ref)"
  shows "vouched (ledger_named f sv w) sv c permits cand m"
proof -
  let ?name = "ma_name (mv_adapter sv)"
  obtain records w1 where get: "mapE (lg_get_by_backend_ref (mv_ledger sv) ?name) (cd_backend_refs cand) w = (Inr records, w1)"
      and known: "records \<noteq> []" "None \<notin> set records"
      and rest: "(let rows = map the records; primary = hd rows in
     bindE (memory_sources sv rows) (\<lambda>sources.
     bindE (refused permits READ (map mm_memory_id rows @ sources)) (\<lambda>bad.
     if bad \<noteq> [] then bindE (deny_read sv c (mm_memory_id primary) ''token_check_failed'') (\<lambda>_. retE None)
     else if sources = [] \<and> set (map mm_written_for rows) \<noteq> {ch_subject c} then
       bindE (memory_journal sv EvMemoryRead c (mm_memory_id primary) ''DENY'' None 0 (Some ''not_written_for'')) (\<lambda>_. retE None)
     else
       bindE (decide_all (mv_decider sv) c action_read_memory sources (Some (map mm_memory_id rows)) (Some (mm_memory_id primary)) None None) (\<lambda>dn.
       bindE (memory_journal sv EvMemoryRead c (mm_memory_id primary) (outcome_value (d_outcome dn)) (Some (mm_content_hash primary))
         (length sources) (Some (d_reason dn))) (\<lambda>_.
       if d_outcome dn \<noteq> ALLOW then retE None
       else retE (Some \<lparr>my_memory_id = mm_memory_id primary, my_content = cd_content cand, my_derived_from = sources,
              my_written_for = mm_written_for primary, my_written_by = mm_written_by primary,
              my_created_at = Some (mm_created_at primary)\<rparr>)))))) w1 = (Inr (Some m), w')"
    using assms(1) unfolding admit_unguarded_def
    by (subst (asm) bindE_Inr, elim exE conjE) (auto simp: bindE_Inr [of "deny_read _ _ _ _"] retE_def split: if_splits)
  define rows where "rows = map the records"
  have recs: "records = map Some rows" unfolding rows_def using known(2) by (induction records) auto
  have rows: "rows \<noteq> []" using known(1) by (simp add: rows_def)
  obtain sources w2 bad w3 where src: "memory_sources sv rows w1 = (Inr sources, w2)"
      and ref: "refused permits READ (map mm_memory_id rows @ sources) w2 = (Inr bad, w3)"
      and rest2: "(if bad \<noteq> [] then bindE (deny_read sv c (mm_memory_id (hd rows)) ''token_check_failed'') (\<lambda>_. retE None)
     else if sources = [] \<and> set (map mm_written_for rows) \<noteq> {ch_subject c} then
       bindE (memory_journal sv EvMemoryRead c (mm_memory_id (hd rows)) ''DENY'' None 0 (Some ''not_written_for'')) (\<lambda>_. retE None)
     else
       bindE (decide_all (mv_decider sv) c action_read_memory sources (Some (map mm_memory_id rows)) (Some (mm_memory_id (hd rows))) None None) (\<lambda>dn.
       bindE (memory_journal sv EvMemoryRead c (mm_memory_id (hd rows)) (outcome_value (d_outcome dn)) (Some (mm_content_hash (hd rows)))
         (length sources) (Some (d_reason dn))) (\<lambda>_.
       if d_outcome dn \<noteq> ALLOW then retE None
       else retE (Some \<lparr>my_memory_id = mm_memory_id (hd rows), my_content = cd_content cand, my_derived_from = sources,
              my_written_for = mm_written_for (hd rows), my_written_by = mm_written_by (hd rows),
              my_created_at = Some (mm_created_at (hd rows))\<rparr>)))) w3 = (Inr (Some m), w')"
    using rest unfolding Let_def rows_def [symmetric] bindE_Inr [of "memory_sources sv rows"] bindE_Inr [of "refused _ _ _"]
    by (elim exE conjE)
  have bad: "bad = []" and own: "sources = [] \<Longrightarrow> set (map mm_written_for rows) = {ch_subject c}"
    using rest2 by (auto simp: bindE_Inr retE_def split: if_splits)
  obtain dn w4 where dec: "decide_all (mv_decider sv) c action_read_memory sources (Some (map mm_memory_id rows)) (Some (mm_memory_id (hd rows))) None None w3 = (Inr dn, w4)"
      and allow: "d_outcome dn = ALLOW" and m: "m = \<lparr>my_memory_id = mm_memory_id (hd rows), my_content = cd_content cand, my_derived_from = sources,
              my_written_for = mm_written_for (hd rows), my_written_by = mm_written_by (hd rows),
              my_created_at = Some (mm_created_at (hd rows))\<rparr>"
    using rest2 bad by (auto simp: bindE_Inr retE_def split: if_splits)
  note grounds = decide_all_grounds [OF dec allow decide_all_valid [OF dec]]
  obtain T where T: "gather_sources (mv_tuples sv) rows {} w1 = (Inr T, w2)" "sources = sorted_list_of_set T"
    using src by (auto simp: memory_sources_def bindE_Inr retE_def)
  note cov = gather_sources_covers [OF T(1), simplified]
  have set: "set sources = T" using T(2) cov by simp
  have perm: "case permits of None \<Rightarrow> True | Some f \<Rightarrow> \<exists>w1 answers w2. f READ (map mm_memory_id rows @ sources) w1 = (Inr answers, w2)
          \<and> list_all (dict_permits answers) (map mm_memory_id rows @ sources)"
    using refused_none [OF ref [unfolded bad]] rows by (auto split: option.splits)
  have each: "list_all2 (ledger_named f sv w) (cd_backend_refs cand) rows"
    using mapE_each [where f = f, OF get ledger] unfolding recs list_all2_map2 ledger_named_def .
  show ?thesis unfolding vouched_def m memory.simps
    using rows each cov set perm own grounds by (intro exI [of _ rows]) (auto simp: action_read_memory_def)
qed

lemma admit_Some:
  "admit sv c cand permits w = (Inr (Some m), w') \<Longrightarrow> (\<And>b ref. keeps f (lg_get_by_backend_ref (mv_ledger sv) b ref)) \<Longrightarrow>
    vouched (ledger_named f sv w) sv c permits cand m"
  using admit_vouched by (fastforce simp: admit_def catchE_def bindE_Inr retE_def raiseE_def split: prod.splits sum.splits if_splits)

lemma recall_loop_vouched:
  assumes "recall_loop sv c permits limit cands kept w = (Inr ms, w')" "1 \<le> limit" "int (length kept) < limit" "f w = f w0"
    "list_all (\<lambda>m. \<exists>cand. P cand \<and> vouched (ledger_named f sv w0) sv c permits cand m) kept" "\<forall>cand\<in>set cands. P cand"
    and frame: "untimed f" "frame f sv permits" "\<And>b ref. keeps f (lg_get_by_backend_ref (mv_ledger sv) b ref)"
  shows "int (length ms) \<le> limit \<and> list_all (\<lambda>m. \<exists>cand. P cand \<and> vouched (ledger_named f sv w0) sv c permits cand m) ms"
  using assms(1-6)
proof (induction cands arbitrary: kept w)
  case (Cons cand cands)
  obtain x w1 where a: "admit sv c cand permits w = (Inr x, w1)"
      and rest: "(let kept' = kept @ (case x of None \<Rightarrow> [] | Some y \<Rightarrow> [y]) in
        if int (length kept') \<ge> limit then retE kept' else recall_loop sv c permits limit cands kept') w1 = (Inr ms, w')"
    using Cons.prems(1) by (auto simp: bindE_Inr)
  have w1: "f w1 = f w0" using keepsD [OF keeps_admit [OF frame] a] Cons.prems(4) by simp
  have named: "ledger_named f sv w = ledger_named f sv w0" using Cons.prems(4) by (simp add: ledger_named_def fun_eq_iff)
  let ?k = "kept @ (case x of None \<Rightarrow> [] | Some y \<Rightarrow> [y])"
  have k: "list_all (\<lambda>m. \<exists>cand. P cand \<and> vouched (ledger_named f sv w0) sv c permits cand m) ?k" "int (length ?k) \<le> limit"
    using Cons.prems(2-6) a admit_Some [of sv c cand permits w _ w1, OF _ frame(3)] named by (auto split: option.splits)
  show ?case
  proof (cases "int (length ?k) \<ge> limit")
    case True
    then show ?thesis using rest k by (simp add: Let_def retE_def)
  next
    case False
    then have "recall_loop sv c permits limit cands ?k w1 = (Inr ms, w')" using rest by (simp add: Let_def)
    from Cons.IH [OF this Cons.prems(2) _ w1 k(1)] False Cons.prems(6) show ?thesis by simp
  qed
qed (simp add: retE_def)

lemma untimed_rows: "untimed w_ledger_rows" "untimed w_content_rows"
  by (simp_all add: untimed_def)

lemma keeps_pg_by_ref: "keeps w_ledger_rows (pg_ledger_by_ref pc b ref)"
  unfolding pg_ledger_by_ref_def pg_ledger_record_def by (intro keeps_rules) simp

text \<open>A row the Postgres ledger answered with is a row it holds.\<close>

lemma pg_ledger_named:
  fixes sv :: "('x, 'm) memory_world_scheme memory_service"
  assumes "pg_ledger_good pc w" "mv_ledger sv = pg_ledger pc" "ledger_named w_ledger_rows sv w ref r"
  shows "pg_records pc w (mm_memory_id r) = Some r \<and> has_ref (ma_name (mv_adapter sv)) ref r"
proof -
  let ?b = "ma_name (mv_adapter sv)"
  obtain w1 w2 :: "('x, 'm) memory_world_scheme" where w1: "w_ledger_rows w1 = w_ledger_rows w" "pg_ledger_by_ref pc ?b ref w1 = (Inr (Some r), w2)"
    using assms(3) unfolding ledger_named_def assms(2) pg_ledger_def ledger.simps by (elim exE conjE)
  obtain i row where f: "find (row_has_ref ?b ref) (w_ledger_rows w) = Some (i, row)" "ledger_from_row pc (i, row) = Inr r"
    using w1 unfolding pg_ledger_by_ref_def pg_ledger_record_def bindE_Inr db_query_Inr
    by (auto simp: bindE_Inr liftE_def retE_def split: option.splits)
  have "(i, row) \<in> set (w_ledger_rows w)" "row_has_ref ?b ref (i, row)"
    using f(1) by (auto simp: find_Some_iff set_conv_nth)
  then show ?thesis using pg_records_row [OF assms(1)] f(2) ledger_from_row_fields [OF f(2)] by fastforce
qed

lemma find_key: "find (\<lambda>kr. fst kr = i) rows = Some kr \<Longrightarrow> map_of rows i = Some (snd kr) \<and> fst kr = i"
  by (induction rows) (auto split: if_splits)

lemma pg_got: "pg_ledger_get pc i w = (Inr (Some r), w') \<Longrightarrow> pg_records pc w i = Some r"
  by (auto simp: pg_ledger_get_def pg_ledger_record_def bindE_Inr db_query_Inr pg_records_def liftE_def retE_def dest!: find_key split: option.splits)

lemma pg_deleted: "pg_ledger_delete i w = (Inr u, w') \<Longrightarrow> pg_records pc w' i = None"
  by (auto simp: pg_ledger_delete_def db_stmt_Inr pg_records_def map_of_filter_key)

lemma pg_content_deleted: "pg_memory_delete ref ns w = (Inr u, w') \<Longrightarrow> pg_contents w' (ns, ref) = None"
  by (auto simp: pg_memory_delete_def db_stmt_Inr pg_contents_def map_of_filter_key)

lemma pg_put: "conv_laws pc \<Longrightarrow> pg_ledger_put r w = (Inr u, w') \<Longrightarrow> pg_records pc w' (mm_memory_id r) = Some r"
  using ledger_row_round_trip [of pc r] by (auto simp: pg_ledger_put_def db_stmt_Inr pg_records_def map_of_update split: if_splits)

lemma pg_views_rows:
  "w_ledger_rows w = w_ledger_rows w' \<Longrightarrow> pg_records pc w = pg_records pc w'"
  "w_content_rows w = w_content_rows w' \<Longrightarrow> pg_contents w = pg_contents w'"
  by (simp_all add: pg_records_def pg_contents_def fun_eq_iff)

lemma denied_never_returns: "memory_denied r w \<noteq> (Inr x, w')"
  by (simp add: memory_denied_def raiseE_def)

lemma attemptE_Inr: "attemptE m w = (Inr r, w') \<longleftrightarrow> m w = (r, w')"
  by (auto simp: attemptE_def split: prod.splits)

lemma remember_as_run:
  assumes "remember_as sv c i content sources permits w = (Inr m, w')"
  shows "\<exists>w1 dn w2. decide_all (mv_decider sv) c action_remember sources (Some (if sources = [] then [i] else sources)) (Some i)
         (Some [(''content_sha256'', JStr (content_hash content))]) None w1 = (Inr dn, w2) \<and> d_outcome dn = ALLOW
    \<and> write_memory sv c i content sources w2 = (Inr m, w')"
  using assms unfolding remember_as_def Let_def bindE_Inr [of "refused _ _ _"]
  by (auto simp: bindE_Inr memory_denied_def raiseE_def simp del: if_split split: if_splits)

lemma store_memory_run:
  assumes "store_memory sv c i content sources t w = (Inr r, w')"
  shows "mm_memory_id r = i" "mm_written_for r = ch_subject c" "mm_written_by r = ch_actor c" "mm_derived_from r = sources"
    "mm_content_hash r = content_hash content"
    "\<exists>w1. ma_store (mv_adapter sv) i content (mv_namespace sv) w = (Inr (mm_backend_ref r), w1) \<and> lg_put (mv_ledger sv) r w1 = (Inr (), w')"
  using assms by (auto simp: store_memory_def bindE_def attemptE_def raiseE_def retE_def Let_def split: prod.splits sum.splits)

lemma write_memory_run:
  assumes "write_memory sv c i content sources w = (Inr m, w')"
  obtains r where "mm_memory_id r = i" "mm_written_for r = ch_subject c" "mm_written_by r = ch_actor c" "mm_derived_from r = sources"
    "mm_content_hash r = content_hash content" "my_memory_id m = i"
    "\<exists>w1 w2. ts_write_tuples (mv_tuples sv) (provenance_tuples c sources i) w1 = (Inr (), w2)"
    "\<exists>w1 w2 w3. ma_store (mv_adapter sv) i content (mv_namespace sv) w1 = (Inr (mm_backend_ref r), w2) \<and> lg_put (mv_ledger sv) r w2 = (Inr (), w3)
       \<and> memory_journal sv EvMemoryWritten c i ''written'' (Some (mm_content_hash r)) (length sources) None w3 = (Inr (), w')"
proof -
  obtain t w1 w2 r w3 where tw: "catchE (ts_write_tuples (mv_tuples sv) (provenance_tuples c sources i))
       (\<lambda>e. if catches HocError e then memory_denied (failure_reason [] e) else raiseE e) w1 = (Inr (), w2)"
      and st: "store_memory sv c i content sources t w2 = (Inr r, w3)"
      and j: "memory_journal sv EvMemoryWritten c i ''written'' (Some (mm_content_hash r)) (length sources) None w3 = (Inr (), w')"
      and m: "my_memory_id m = i"
    using assms by (auto simp: write_memory_def bindE_Inr retE_def)
  have "ts_write_tuples (mv_tuples sv) (provenance_tuples c sources i) w1 = (Inr (), w2)"
    using tw by (auto simp: catchE_def memory_denied_def raiseE_def split: prod.splits sum.splits if_splits)
  then show ?thesis using that store_memory_run [OF st] j m by blast
qed

lemma keeps_pg_memory_search:
  "keeps w_ledger_rows (pg_memory_search tx emb query ns limit :: (('x, 'm) memory_world_scheme, exn, candidate list) eff)"
  unfolding pg_memory_search_def search_text_def search_embedding_def by (intro keeps_rules) simp_all

lemma pg_stored:
  "pg_store emb i content ns w = (Inr ref, w') \<Longrightarrow> pg_contents w' (ns, ref) = Some content"
  by (auto simp: pg_store_def bindE_Inr retE_def db_stmt_Inr pg_contents_def map_add_def split: if_splits)

lemma keeps_pg_ledger_put: "keeps w_content_rows (pg_ledger_put r :: (('x, 'm) memory_world_scheme, exn, unit) eff)"
  unfolding pg_ledger_put_def by (rule keeps_db_stmt) (auto split: if_splits)

lemma keeps_pg_ledger_delete: "keeps w_content_rows (pg_ledger_delete i :: (('x, 'm) memory_world_scheme, exn, unit) eff)"
  unfolding pg_ledger_delete_def by (rule keeps_db_stmt) auto

section \<open>Properties\<close>

text \<open>
  C22: \<open>recall\<close> hands out only what the caller may read now. Every memory it returns is the stored
  content of a search hit in the service's namespace for which every ground of \<open>vouched\<close> was
  established, with the rows the ledger holds at the time of the call, and there are at most as many as
  the limit, which is clamped to 1..50.
\<close>

theorem recall_only_vouched:
  fixes sv :: "('x, 'm) memory_world_scheme memory_service"
  assumes "mv_adapter sv = pg_adapter tx emb" "mv_ledger sv = pg_ledger pc" "pg_content_good w" "pg_ledger_good pc w"
    "frame w_ledger_rows sv permits" "recall sv c query limit permits w = (Inr ms, w')"
  shows "int (length ms) \<le> max 1 (min limit 50) \<and> list_all (\<lambda>m. \<exists>cand ref. cd_backend_refs cand = [ref]
    \<and> pg_contents w (mv_namespace sv, ref) = Some (my_content m)
    \<and> vouched (\<lambda>ref r. pg_records pc w (mm_memory_id r) = Some r \<and> has_ref ''postgres'' ref r) sv c permits cand m) ms"
proof -
  let ?l = "max 1 (min limit MAX_LIMIT)" and ?ns = "mv_namespace sv" and ?V = "vouched (ledger_named w_ledger_rows sv w) sv c permits"
  obtain found w1 where search: "ma_search (pg_adapter tx emb) query ?ns ?l w = (found, w1)"
      and rest: "(case found of Inl _ \<Rightarrow> bindE (deny_read sv c ''memory:*'' ''backend_unavailable'') (\<lambda>_. retE [])
        | Inr cands \<Rightarrow> recall_loop sv c permits ?l cands []) w1 = (Inr ms, w')"
    using assms(6) unfolding recall_def Let_def assms(1) [symmetric] bindE_Inr attemptE_Inr by (elim exE conjE)
  have named: "?V cand m \<Longrightarrow> my_content m = cd_content cand
      \<and> vouched (\<lambda>ref r. pg_records pc w (mm_memory_id r) = Some r \<and> has_ref ''postgres'' ref r) sv c permits cand m" for cand m
    using pg_ledger_named [OF assms(4,2)] assms(1) by (auto elim!: vouched_mono simp: pg_adapter_def) (auto simp: vouched_def)
  show ?thesis
  proof (cases found)
    case (Inl e)
    then have "ms = []" using rest by (auto simp: bindE_Inr retE_def)
    then show ?thesis by simp
  next
    case (Inr cands)
    let ?P = "\<lambda>cand. \<exists>ref. cd_backend_refs cand = [ref] \<and> pg_contents w (?ns, ref) = Some (cd_content cand)"
    have "spec_search ?ns (pg_contents w) cands (pg_contents w1)"
      using atomicD(1) [OF pg_memory_search_atomic assms(3)] search Inr by (simp add: pg_adapter_def)
    then have P: "\<forall>cand\<in>set cands. ?P cand" by (simp add: spec_search_def)
    have run: "recall_loop sv c permits ?l cands [] w1 = (Inr ms, w')" using rest Inr by simp
    have w1: "w_ledger_rows w1 = w_ledger_rows w"
      using keepsD [OF keeps_pg_memory_search search [unfolded pg_adapter_def memory_adapter.simps]] .
    have by_ref: "keeps w_ledger_rows (lg_get_by_backend_ref (mv_ledger sv) b ref)" for b ref
      by (simp add: assms(2) pg_ledger_def keeps_pg_by_ref)
    from recall_loop_vouched [where f = w_ledger_rows, OF run _ _ w1 _ P untimed_rows(1) assms(5) by_ref]
    have l: "int (length ms) \<le> ?l" and v: "list_all (\<lambda>m. \<exists>cand. ?P cand \<and> ?V cand m) ms" by simp_all
    let ?Q = "\<lambda>m. \<exists>cand ref. cd_backend_refs cand = [ref] \<and> pg_contents w (?ns, ref) = Some (my_content m)
      \<and> vouched (\<lambda>ref r. pg_records pc w (mm_memory_id r) = Some r \<and> has_ref ''postgres'' ref r) sv c permits cand m"
    have "list_all ?Q ms" using v
    proof (rule list.pred_mono_strong)
      fix m assume "\<exists>cand. ?P cand \<and> ?V cand m"
      then obtain cand ref where c: "cd_backend_refs cand = [ref]" "pg_contents w (?ns, ref) = Some (cd_content cand)" "?V cand m"
        by (elim exE conjE)
      then show "?Q m" using named [OF c(3)] by (intro exI [of _ cand] exI [of _ ref]) simp
    qed
    then show ?thesis using l by (simp add: MAX_LIMIT_def)
  qed
qed

text \<open>
  \<open>remember\<close> writes only what the caller may read and records its provenance. When it returns, every
  source is a document reference, the scope covers remembering each source (or the memory, without
  sources), the engine related the subject to every source, the provenance tuples were accepted, and
  the ledger holds the row that names exactly these sources, the subject, the agent and the hash, and
  points at a content row that holds the content.
\<close>

theorem remember_records_provenance:
  fixes sv :: "('x, 'm) memory_world_scheme memory_service"
  assumes "conv_laws pc" "mv_ledger sv = pg_ledger pc" "mv_adapter sv = pg_adapter tx emb"
    and "\<And>e. keeps w_ledger_rows (mv_audit sv e)" "\<And>e. keeps w_content_rows (mv_audit sv e)"
    and run: "remember sv c content derived_from permits w = (Inr m, w')"
  shows "\<exists>r. pg_records pc w' (my_memory_id m) = Some r \<and> mm_derived_from r = dedupe derived_from
    \<and> mm_written_for r = ch_subject c \<and> mm_written_by r = ch_actor c \<and> mm_content_hash r = sha256_hex content
    \<and> pg_contents w' (mv_namespace sv, mm_backend_ref r) = Some content
    \<and> list_all (\<lambda>s. valid_ref s ''document'') (mm_derived_from r)
    \<and> list_all (\<lambda>t. scope_covers (ch_scope c) (Capability REMEMBER t)) (if mm_derived_from r = [] then [my_memory_id m] else mm_derived_from r)
    \<and> (if mm_derived_from r = [] then True else batch_answered (dc_engine (mv_decider sv)) (ch_subject c) ''viewer'' (mm_derived_from r)
          (Inr (replicate (length (mm_derived_from r)) True)))
    \<and> (\<exists>w1 w2. ts_write_tuples (mv_tuples sv) (provenance_tuples c (mm_derived_from r) (my_memory_id m)) w1 = (Inr (), w2))"
proof -
  let ?s = "dedupe derived_from"
  have docs: "list_all (\<lambda>s. valid_ref s ''document'') xs" if "mapE (\<lambda>s. liftE (validate_ref s ''document'')) xs wa = (Inr ys, wb)"
    for xs ys and wa wb :: "('x, 'm) memory_world_scheme"
    using that by (induction xs arbitrary: wa ys) (auto simp: bindE_Inr liftE_def retE_def validate_ref_def split: if_splits)
  obtain ys w1 i w2 where v: "mapE (\<lambda>s. liftE (validate_ref s ''document'')) ?s w = (Inr ys, w1)"
      and body: "remember_as sv c i content ?s permits w2 = (Inr m, w')"
    using run unfolding remember_def Let_def bindE_Inr by (elim exE conjE)
  let ?ts = "if ?s = [] then [i] else ?s"
  obtain w3 dn w4 where dec: "decide_all (mv_decider sv) c action_remember ?s (Some ?ts) (Some i)
         (Some [(''content_sha256'', JStr (content_hash content))]) None w3 = (Inr dn, w4)" and allow: "d_outcome dn = ALLOW"
      and wr: "write_memory sv c i content ?s w4 = (Inr m, w')"
    using remember_as_run [OF body] by blast
  note grounds = decide_all_grounds [OF dec allow decide_all_valid [OF dec]]
  obtain r where r: "mm_memory_id r = i" "mm_written_for r = ch_subject c" "mm_written_by r = ch_actor c" "mm_derived_from r = ?s"
      "mm_content_hash r = content_hash content" "my_memory_id m = i"
      and tuples: "\<exists>w1 w2. ts_write_tuples (mv_tuples sv) (provenance_tuples c ?s i) w1 = (Inr (), w2)"
      and put: "\<exists>w1 w2 w3. ma_store (mv_adapter sv) i content (mv_namespace sv) w1 = (Inr (mm_backend_ref r), w2) \<and> lg_put (mv_ledger sv) r w2 = (Inr (), w3)
          \<and> memory_journal sv EvMemoryWritten c i ''written'' (Some (mm_content_hash r)) (length ?s) None w3 = (Inr (), w')"
    by (rule write_memory_run [OF wr])
  obtain w5 w6 w7 where st: "pg_store emb i content (mv_namespace sv) w5 = (Inr (mm_backend_ref r), w6)" and p: "pg_ledger_put r w6 = (Inr (), w7)"
      and j: "memory_journal sv EvMemoryWritten c i ''written'' (Some (mm_content_hash r)) (length ?s) None w7 = (Inr (), w')"
    using put unfolding assms(2,3) pg_ledger_def pg_adapter_def ledger.simps memory_adapter.simps by (elim exE conjE)
  have rows: "w_ledger_rows w' = w_ledger_rows w7" "w_content_rows w' = w_content_rows w6"
    using keepsD [OF keeps_memory_journal [OF untimed_rows(1) assms(4)] j] keepsD [OF keeps_memory_journal [OF untimed_rows(2) assms(5)] j]
      keepsD [OF keeps_pg_ledger_put p] by simp_all
  have "pg_records pc w' i = Some r" "pg_contents w' (mv_namespace sv, mm_backend_ref r) = Some content"
    using pg_put [OF assms(1) p] r(1) pg_views_rows(1) [OF rows(1), of pc] pg_views_rows(2) [OF rows(2)] pg_stored [OF st] by simp_all
  then show ?thesis using r docs [OF v] grounds tuples
    by (intro exI [of _ r]) (auto simp: list_all_iff action_remember_def content_hash_def)
qed

text \<open>
  C23: a write that fails half way leaves no provenance row. For a tuple store that raises only errors of the program, if storing the content or writing the ledger
  row raises, even when the row was written and only the answer was lost, the error reaches the caller
  and the ledger holds no row of the new memory, unless the last statement, the deletion of the row,
  failed as well.
\<close>

theorem failed_write_leaves_no_row:
  fixes sv :: "('x, 'm) memory_world_scheme memory_service"
  assumes "mv_ledger sv = pg_ledger pc"
    and hoc: "\<And>ts w1 e w2. ts_delete_tuples (mv_tuples sv) ts w1 = (Inl e, w2) \<Longrightarrow> catches HocError e"
    and run: "store_memory sv c i content sources t w = (Inl e, w')"
  shows "pg_records pc w' i = None \<or> w_db w' (w_db_at w' - 1) \<noteq> DbOk"
proof -
  have "\<exists>ref w1 x. rollback sv i (provenance_tuples c sources i) ref w1 = (x, w')"
    using run by (auto simp: store_memory_def bindE_def attemptE_def raiseE_def retE_def Let_def split: prod.splits sum.splits)
  then obtain ref w1 x where rb: "rollback sv i (provenance_tuples c sources i) ref w1 = (x, w')" by blast
  have "\<exists>w2. drop_content sv ref w1 = (Inr (), w2)"
    by (cases ref) (auto simp: drop_content_def retE_def catchE_def split: prod.splits sum.splits)
  then obtain w2 where d: "drop_content sv ref w1 = (Inr (), w2)" by (rule exE)
  have "\<exists>w3. swallow_hoc (ts_delete_tuples (mv_tuples sv) (provenance_tuples c sources i)) w2 = (Inr (), w3)"
    using hoc by (auto simp: swallow_hoc_def catchE_def retE_def split: prod.splits sum.splits)
  then obtain w3 where tw: "swallow_hoc (ts_delete_tuples (mv_tuples sv) (provenance_tuples c sources i)) w2 = (Inr (), w3)" by (rule exE)
  have fin: "swallow_hoc (pg_ledger_delete i) w3 = (x, w')"
    using rb d tw by (simp add: rollback_def bindE_def assms(1) pg_ledger_def)
  show ?thesis
  proof (cases "pg_ledger_delete i w3")
    case (Pair a wb)
    show ?thesis
    proof (cases a)
      case (Inl e)
      then have "catches HocError e \<and> w_db wb (w_db_at wb - 1) \<noteq> DbOk"
        using Pair by (auto simp: pg_ledger_delete_def db_stmt_def Let_def hoc_def split: db_fate.splits)
      then show ?thesis using fin Pair Inl by (auto simp: swallow_hoc_def catchE_def retE_def)
    next
      case (Inr u)
      then have "w' = wb" using fin Pair by (simp add: swallow_hoc_def catchE_def)
      then show ?thesis using pg_deleted [of i w3 u wb pc] Pair Inr by simp
    qed
  qed
qed

text \<open>
  C24: \<open>forget\<close> is for the subject the memory was written for, and it is complete. When it returns, the
  ledger's row named the caller's subject, the scope covers remembering the memory, and afterwards
  neither the ledger row nor the stored content is there.
\<close>

theorem forget_is_complete:
  fixes sv :: "('x, 'm) memory_world_scheme memory_service"
  assumes "mv_ledger sv = pg_ledger pc" "mv_adapter sv = pg_adapter tx emb"
    and frames: "frame w_ledger_rows sv permits" "frame w_content_rows sv permits"
    and "pg_ledger_good pc w" and run: "forget sv c i permits w = (Inr (), w')"
  shows "\<exists>r. pg_records pc w i = Some r \<and> mm_written_for r = ch_subject c \<and> scope_covers (ch_scope c) (Capability REMEMBER i)
    \<and> pg_records pc w' i = None \<and> pg_contents w' (mv_namespace sv, mm_backend_ref r) = None"
proof -
  obtain u w0 bad w1 found w2 where v: "liftE (validate_ref i ''memory'') w = (Inr u, w0)" "refused permits REMEMBER [i] w0 = (Inr bad, w1)"
      and get: "pg_ledger_get pc i w1 = (Inr found, w2)"
      and rest: "(case found of
       None \<Rightarrow> bindE (memory_journal sv EvMemoryRead c i ''DENY'' None 0 (Some ''not_written_for'')) (\<lambda>_. raiseE (hoc MemoryDenied))
     | Some r \<Rightarrow>
       if mm_written_for r \<noteq> ch_subject c then
         bindE (memory_journal sv EvMemoryRead c i ''DENY'' None 0 (Some ''not_written_for'')) (\<lambda>_. raiseE (hoc MemoryDenied))
       else bindE (decide_all (mv_decider sv) c action_remember [] (Some [i]) (Some i) None None) (\<lambda>dn.
       if d_outcome dn \<noteq> ALLOW then memory_denied (d_reason dn)
       else bindE (pg_memory_delete (mm_backend_ref r) (mv_namespace sv)) (\<lambda>_.
       bindE (pg_ledger_delete i) (\<lambda>_.
       bindE (ts_read_tuples (mv_tuples sv) i ''derived_from'') (\<lambda>t1.
       bindE (ts_read_tuples (mv_tuples sv) i ''writer'') (\<lambda>t2.
       ts_delete_tuples (mv_tuples sv) (t1 @ t2))))))) w2 = (Inr (), w')"
    using run unfolding forget_def assms(1,2) pg_ledger_def pg_adapter_def ledger.simps memory_adapter.simps
    by (auto simp: bindE_Inr [of "liftE _"] bindE_Inr [of "refused _ _ _"] bindE_Inr [of "deny_read _ _ _ _"] bindE_Inr [of "pg_ledger_get _ _"]
        denied_never_returns split: if_splits)
  obtain r where r: "found = Some r" "mm_written_for r = ch_subject c"
    using rest by (cases found) (auto simp: bindE_Inr raiseE_def split: if_splits)
  obtain dn w3 w4 w5 t1 w6 t2 w7 where dec: "decide_all (mv_decider sv) c action_remember [] (Some [i]) (Some i) None None w2 = (Inr dn, w3)"
      "d_outcome dn = ALLOW"
      and dels: "pg_memory_delete (mm_backend_ref r) (mv_namespace sv) w3 = (Inr (), w4)" "pg_ledger_delete i w4 = (Inr (), w5)"
      and tups: "ts_read_tuples (mv_tuples sv) i ''derived_from'' w5 = (Inr t1, w6)" "ts_read_tuples (mv_tuples sv) i ''writer'' w6 = (Inr t2, w7)"
        "ts_delete_tuples (mv_tuples sv) (t1 @ t2) w7 = (Inr (), w')"
    using rest r by (auto simp: bindE_Inr memory_denied_def raiseE_def split: if_splits)
  have scope: "scope_covers (ch_scope c) (Capability REMEMBER i)"
    using decide_all_grounds [OF dec decide_all_valid [OF dec(1)]] by (simp add: action_remember_def)
  have tk: "keeps w_ledger_rows (ts_read_tuples (mv_tuples sv) i rel)" "keeps w_ledger_rows (ts_delete_tuples (mv_tuples sv) ts)"
      "keeps w_content_rows (ts_read_tuples (mv_tuples sv) i rel)" "keeps w_content_rows (ts_delete_tuples (mv_tuples sv) ts)" for i rel ts
    using frames by (simp_all add: frame_def)
  have same: "w_ledger_rows w' = w_ledger_rows w5" "w_content_rows w' = w_content_rows w4"
    using keepsD [OF tk(1) tups(1)] keepsD [OF tk(1) tups(2)] keepsD [OF tk(2) tups(3)] keepsD [OF keeps_pg_ledger_delete dels(2)]
      keepsD [OF tk(3) tups(1)] keepsD [OF tk(3) tups(2)] keepsD [OF tk(4) tups(3)] by simp_all
  have "w_ledger_rows w1 = w_ledger_rows w"
    using keepsD [OF keeps_refused [OF frames(1)] v(2)] v(1) by (auto simp: liftE_def)
  then have "pg_records pc w i = Some r"
    using pg_got [OF get [unfolded r(1)]] pg_views_rows(1) by metis
  moreover have "pg_records pc w' i = None" "pg_contents w' (mv_namespace sv, mm_backend_ref r) = None"
    using pg_deleted [OF dels(2), of pc] pg_content_deleted [OF dels(1)] pg_views_rows(1) [OF same(1), of pc] pg_views_rows(2) [OF same(2)] by simp_all
  ultimately show ?thesis using r(2) scope by (intro exI [of _ r] conjI)
qed

section \<open>Witnesses\<close>

definition memory_world0 :: "unit memory_world" where
  "memory_world0 = mand_world.extend mand_world0 (memory_world.fields [] [] [] False [] [])"

definition sample_record :: memory_record where
  "sample_record = \<lparr>mm_memory_id = ''memory:1'', mm_written_for = ''user:alice'', mm_written_by = ''agent:a'', mm_derived_from = [],
     mm_content_hash = [], mm_backend = ''postgres'', mm_backend_ref = ''r'', mm_created_at = 0\<rparr>"

definition sample_memory_world :: "unit memory_world" where
  "sample_memory_world = memory_world0\<lparr>w_ledger_rows := [(''memory:1'', ledger_values sample_record)],
     w_content_rows := [((''hoc'', ''r''), \<lparr>cr_memory_id = ''memory:1'', cr_content = ''note'', cr_created_at = 0\<rparr>)]\<rparr>"

definition sample_search :: pg_search where
  "sample_search = \<lparr>tx_rank = (\<lambda>q t. if q = t then Some 1 else None), tx_distance = (\<lambda>_ _. 0)\<rparr>"

definition sample_tuples :: "'w tuple_store" where
  "sample_tuples = \<lparr>ts_write_tuples = (\<lambda>_. retE ()), ts_delete_tuples = (\<lambda>_. retE ()), ts_read_tuples = (\<lambda>_ _. retE [])\<rparr>"

definition sample_memory :: "unit memory_world memory_service" where
  "sample_memory = \<lparr>mv_tuples = sample_tuples, mv_ledger = pg_ledger std_conv, mv_adapter = pg_adapter sample_search None,
     mv_decider = \<lparr>dc_engine = sample_engine, dc_audit = (\<lambda>e. retE ()), dc_policy = None, dc_metrics = None\<rparr>,
     mv_audit = (\<lambda>e. retE ()), mv_namespace = DEFAULT_NAMESPACE\<rparr>"

definition memory_chain :: principal_chain where
  "memory_chain = \<lparr>ch_subject = ''user:alice'', ch_actor = ''agent:a'', ch_delegation = [],
     ch_scope = set [Capability READ ''memory:*'', Capability REMEMBER ''memory:*'', Capability REMEMBER ''document:*''], ch_root_scope = None\<rparr>"

lemma memory_world0_simps [simp]:
  "w_db memory_world0 n = DbOk" "w_ledger_rows memory_world0 = []" "w_content_rows memory_world0 = []" "w_db_at memory_world0 = 0"
  "w_uuid memory_world0 n = show_nat n" "w_uuid_at memory_world0 = 0"
  by (simp_all add: memory_world0_def mand_world.extend_def memory_world.fields_def mand_world0_def token_world.extend_def mand_world.fields_def
      token_world0_def appr_world.extend_def token_world.fields_def appr_world0_def)

lemma sample_memory_simps [simp]:
  "mv_tuples sample_memory = sample_tuples" "mv_ledger sample_memory = pg_ledger std_conv" "mv_adapter sample_memory = pg_adapter sample_search None"
  "mv_audit sample_memory e = retE ()" "mv_namespace sample_memory = ''hoc''"
  by (simp_all add: sample_memory_def DEFAULT_NAMESPACE_def)

lemma sample_frame: "frame f sample_memory None"
  by (simp add: frame_def sample_memory_def sample_tuples_def sample_engine_def keeps_rules) (simp add: keeps_def)

lemma sample_decide_all:
  fixes w :: "unit memory_world"
  assumes "list_all valid_pattern (rs @ ts)" "list_all (\<lambda>t. scope_covers (ch_scope memory_chain) (Capability (act_kind a) t)) ts"
    and "list_all (\<lambda>r. r \<noteq> ''document:secret'') rs"
  shows "\<exists>dn w'. decide_all (mv_decider sample_memory) memory_chain a rs (Some ts) (Some i) args None w = (Inr dn, w') \<and> d_outcome dn = ALLOW
    \<and> w_db w' = w_db w \<and> w_ledger_rows w' = w_ledger_rows w \<and> w_content_rows w' = w_content_rows w"
proof -
  let ?d = "mv_decider sample_memory"
  let ?run = "decide_all ?d memory_chain a rs (Some ts) (Some i) args None"
  have d: "dc_engine ?d = sample_engine" "dc_policy ?d = None" "dc_metrics ?d = None" "dc_audit ?d e = retE ()" for e
    by (simp_all add: sample_memory_def)
  have subj: "valid_ref (ch_subject memory_chain) ''user''" by code_simp
  have valid: "list_all valid_pattern (rs @ (case Some ts of Some ts \<Rightarrow> ts | None \<Rightarrow> rs))" using assms(1) by simp
  have none: "first_refusal None c a args ctx xs = None" for c a args ctx xs
    by (induction xs) (simp_all add: policy_verdict_def)
  have no_sink: "\<not> sink_raised ?d x" for x by (simp add: sink_raised_def d retE_def)
  have "wp ?run (\<lambda>dn _. d_outcome dn = ALLOW) (\<lambda>x _. sink_raised ?d x) w"
    by (rule wp_decide_all [OF valid subj])
       (use assms(2,3) in \<open>auto simp: batch_answered_def d sample_engine_def spec_all_def none Let_def list_all_iff split: if_splits\<close>)
  then obtain dn w' where run: "?run w = (Inr dn, w')" "d_outcome dn = ALLOW"
    by (cases "?run w") (auto simp: wp_def no_sink split: sum.splits)
  have k: "keeps f ?run" if "untimed f" for f :: "unit memory_world \<Rightarrow> 'v"
    by (rule keeps_decide_all [OF that sample_frame])
  have db: "untimed (w_db :: unit memory_world \<Rightarrow> _)" by (simp add: untimed_def)
  have "w_db w' = w_db w" by (rule keepsD [OF k [OF db] run(1)])
  moreover have "w_ledger_rows w' = w_ledger_rows w" by (rule keepsD [OF k [OF untimed_rows(1)] run(1)])
  moreover have "w_content_rows w' = w_content_rows w" by (rule keepsD [OF k [OF untimed_rows(2)] run(1)])
  ultimately show ?thesis using run by (intro exI [of _ dn] exI [of _ w'] conjI)
qed

lemma sample_world_simps [simp]:
  "w_db sample_memory_world n = DbOk" "w_ledger_rows sample_memory_world = [(''memory:1'', ledger_values sample_record)]"
  "w_content_rows sample_memory_world = [((''hoc'', ''r''), \<lparr>cr_memory_id = ''memory:1'', cr_content = ''note'', cr_created_at = 0\<rparr>)]"
  by (simp_all add: sample_memory_world_def)

lemma sample_row: "ledger_from_row std_conv (''memory:1'', ledger_values sample_record) = Inr sample_record"
  using ledger_row_round_trip [OF std_conv_laws, of sample_record] by (simp add: sample_record_def)

lemma sample_good: "pg_ledger_good std_conv sample_memory_world" "pg_content_good sample_memory_world"
  using sample_row by (simp_all add: pg_ledger_good_def pg_content_good_def)

lemma sample_records: "pg_records std_conv sample_memory_world ''memory:1'' = Some sample_record"
  using sample_row by (simp add: pg_records_def)

lemma sample_get:
  "pg_ledger_get std_conv ''memory:1'' sample_memory_world = (Inr (Some sample_record), sample_memory_world\<lparr>w_db_at := Suc (w_db_at sample_memory_world)\<rparr>)"
  using sample_row by (simp add: pg_ledger_get_def pg_ledger_record_def bindE_def db_query_def db_stmt_def retE_def liftE_def)

lemma sample_targets:
  "list_all valid_pattern [''memory:1'']" "scope_covers (ch_scope memory_chain) (Capability REMEMBER ''memory:1'')"
  "scope_covers (ch_scope memory_chain) (Capability READ ''memory:1'')" "validate_ref ''memory:1'' ''memory'' = Inr ''memory:1''"
  by code_simp+

lemma sample_forget: "\<exists>w'. forget sample_memory memory_chain ''memory:1'' None sample_memory_world = (Inr (), w')"
proof -
  let ?w = "sample_memory_world\<lparr>w_db_at := Suc (w_db_at sample_memory_world)\<rparr>"
  obtain dn w1 where dec: "decide_all (mv_decider sample_memory) memory_chain action_remember [] (Some [''memory:1'']) (Some ''memory:1'') None None ?w
      = (Inr dn, w1)" "d_outcome dn = ALLOW" and db: "w_db w1 = w_db ?w"
    using sample_decide_all [of "[]" "[''memory:1'']" action_remember "''memory:1''" None ?w] sample_targets
    by (auto simp: action_remember_def)
  have own: "mm_written_for sample_record = ch_subject memory_chain" by (simp add: sample_record_def memory_chain_def)
  show ?thesis
    by (simp add: forget_def sample_targets refused_def bindE_def liftE_def retE_def pg_ledger_def sample_get own dec)
       (simp add: pg_adapter_def pg_memory_delete_def pg_ledger_delete_def db_stmt_def db sample_tuples_def retE_def)
qed

theorem forget_is_complete_witness:
  "\<exists>w'. forget sample_memory memory_chain ''memory:1'' None sample_memory_world = (Inr (), w')
    \<and> pg_records std_conv w' ''memory:1'' = None \<and> pg_contents w' (''hoc'', ''r'') = None"
proof -
  obtain w' where run: "forget sample_memory memory_chain ''memory:1'' None sample_memory_world = (Inr (), w')"
    using sample_forget by (rule exE)
  have "mm_backend_ref sample_record = ''r''" by (simp add: sample_record_def)
  then show ?thesis
    using forget_is_complete [OF _ _ sample_frame sample_frame sample_good(1) run] run sample_records
    by (intro exI [of _ w']) auto
qed

definition lossy_world :: "unit memory_world" where
  "lossy_world = memory_world0\<lparr>w_db := (\<lambda>n. if n = 1 then DbAnswerLost else DbOk)\<rparr>"

lemma lossy_run:
  "\<exists>w'. store_memory sample_memory memory_chain ''memory:1'' ''note'' [] 0 lossy_world = (Inl (hoc LedgerUnavailable), w')
    \<and> w_db w' = w_db lossy_world \<and> w_db_at w' = 4"
  by (simp add: store_memory_def bindE_def attemptE_def pg_adapter_def pg_store_def uuid4_hex_def now_def stateE_def liftE_def embed_def retE_def
      db_stmt_def Let_def lossy_world_def pg_ledger_def pg_ledger_put_def rollback_def drop_content_def catchE_def raiseE_def pg_memory_delete_def
      swallow_hoc_def sample_tuples_def pg_ledger_delete_def)

theorem failed_write_leaves_no_row_witness:
  "\<exists>w'. store_memory sample_memory memory_chain ''memory:1'' ''note'' [] 0 lossy_world = (Inl (hoc LedgerUnavailable), w')
    \<and> pg_records std_conv w' ''memory:1'' = None"
proof -
  obtain w' where run: "store_memory sample_memory memory_chain ''memory:1'' ''note'' [] 0 lossy_world = (Inl (hoc LedgerUnavailable), w')"
      and w': "w_db w' = w_db lossy_world" "w_db_at w' = 4"
    using lossy_run by (elim exE conjE)
  have "w_db w' (w_db_at w' - 1) = DbOk" by (simp add: w' lossy_world_def)
  then have "pg_records std_conv w' ''memory:1'' = None"
    using failed_write_leaves_no_row [of sample_memory std_conv, OF _ _ run] by (auto simp: sample_tuples_def retE_def)
  then show ?thesis using run by (intro exI [of _ w'] conjI)
qed

lemma sample_search_run:
  "pg_memory_search sample_search None ''note'' ''hoc'' 5 sample_memory_world =
    (Inr [\<lparr>cd_content = ''note'', cd_backend_refs = [''r''], cd_score = Some 1\<rparr>], sample_memory_world\<lparr>w_db_at := Suc (w_db_at sample_memory_world)\<rparr>)"
  by (simp add: pg_memory_search_def search_text_def embed_def bindE_def liftE_def retE_def db_query_def db_stmt_def sample_search_def
      List.map_filter_simps)

lemma sample_journal: "\<exists>w'. memory_journal sample_memory k c i out h n reason w = (Inr (), w')"
  by (simp add: memory_journal_def memory_event_def bindE_def now_def uuid4_hex_def stateE_def retE_def)

lemma sample_by_ref:
  fixes w :: "unit memory_world"
  assumes "w_db w = w_db sample_memory_world" "w_ledger_rows w = w_ledger_rows sample_memory_world"
  shows "pg_ledger_by_ref std_conv ''postgres'' ''r'' w = (Inr (Some sample_record), w\<lparr>w_db_at := Suc (w_db_at w)\<rparr>)"
proof -
  have "row_has_ref ''postgres'' ''r'' (''memory:1'', ledger_values sample_record)" by (simp add: row_has_ref_def ledger_values_def sample_record_def)
  then show ?thesis using sample_row assms
    by (simp add: pg_ledger_by_ref_def pg_ledger_record_def bindE_def db_query_def db_stmt_def retE_def liftE_def)
qed

lemma sample_admit:
  fixes w :: "unit memory_world"
  assumes "w_db w = w_db sample_memory_world" "w_ledger_rows w = w_ledger_rows sample_memory_world" "cd_backend_refs cand = [''r'']"
  shows "\<exists>m w'. admit sample_memory memory_chain cand None w = (Inr (Some m), w') \<and> my_content m = cd_content cand"
proof -
  let ?w = "w\<lparr>w_db_at := Suc (w_db_at w)\<rparr>"
  obtain dn w1 where dec: "decide_all (mv_decider sample_memory) memory_chain action_read_memory [] (Some [''memory:1'']) (Some ''memory:1'') None None ?w
      = (Inr dn, w1)" "d_outcome dn = ALLOW"
    using sample_decide_all [of "[]" "[''memory:1'']" action_read_memory "''memory:1''" None ?w] sample_targets
    by (auto simp: action_read_memory_def)
  obtain w2 where j: "memory_journal sample_memory EvMemoryRead memory_chain ''memory:1'' ''ALLOW'' (Some (mm_content_hash sample_record)) 0
      (Some (d_reason dn)) w1 = (Inr (), w2)" using sample_journal by blast
  have own: "mm_written_for sample_record = ch_subject memory_chain" "mm_memory_id sample_record = ''memory:1''" "mm_derived_from sample_record = []"
    by (simp_all add: sample_record_def memory_chain_def)
  show ?thesis
    by (simp add: admit_def admit_unguarded_def catchE_def bindE_def assms(3) pg_ledger_def pg_adapter_def sample_by_ref [OF assms(1,2)] retE_def
        memory_sources_def sample_tuples_def refused_def own dec j)
qed

theorem recall_only_vouched_witness:
  "\<exists>m cand w'. recall sample_memory memory_chain ''note'' 5 None sample_memory_world = (Inr [m], w') \<and> my_content m = ''note''
    \<and> vouched (\<lambda>ref r. pg_records std_conv sample_memory_world (mm_memory_id r) = Some r \<and> has_ref ''postgres'' ref r)
        sample_memory memory_chain None cand m"
proof -
  let ?c = "\<lparr>cd_content = ''note'', cd_backend_refs = [''r''], cd_score = Some 1\<rparr>"
    and ?w = "sample_memory_world\<lparr>w_db_at := Suc (w_db_at sample_memory_world)\<rparr>"
  obtain m w' where a: "admit sample_memory memory_chain ?c None ?w = (Inr (Some m), w')" "my_content m = ''note''"
    using sample_admit [of ?w ?c] by auto
  have run: "recall sample_memory memory_chain ''note'' 5 None sample_memory_world = (Inr [m], w')"
    using a(1) by (simp add: recall_def MAX_LIMIT_def bindE_def attemptE_def pg_adapter_def sample_search_run retE_def Let_def)
  from recall_only_vouched [OF _ _ sample_good(2,1) sample_frame run] show ?thesis
    using run a(2) by auto
qed

lemma sample_document: "validate_ref ''document:a'' ''document'' = Inr ''document:a''" "list_all valid_pattern [''document:a'', ''document:a'']"
  "scope_covers (ch_scope memory_chain) (Capability REMEMBER ''document:a'')"
  by code_simp+

lemma sample_remember: "\<exists>m w'. remember sample_memory memory_chain ''note'' [''document:a'', ''document:a''] None memory_world0 = (Inr m, w')"
proof -
  let ?w = "memory_world0\<lparr>w_uuid_at := Suc 0\<rparr>" and ?i = "''memory:'' @ show_nat 0"
    and ?args = "Some [(''content_sha256'', JStr (content_hash ''note''))]"
  obtain dn w1 where dec: "decide_all (mv_decider sample_memory) memory_chain action_remember [''document:a''] (Some [''document:a'']) (Some ?i) ?args None ?w
      = (Inr dn, w1)" "d_outcome dn = ALLOW" and db: "w_db w1 = w_db ?w" "w_ledger_rows w1 = []" "w_content_rows w1 = []"
    using sample_decide_all [of "[''document:a'']" "[''document:a'']" action_remember ?i ?args ?w] sample_document
    by (auto simp: action_remember_def)
  have w: "\<exists>m w'. write_memory sample_memory memory_chain ?i ''note'' [''document:a''] w1 = (Inr m, w')"
    by (simp add: write_memory_def now_def stateE_def bindE_def catchE_def sample_tuples_def retE_def store_memory_def attemptE_def pg_adapter_def
        pg_store_def uuid4_hex_def liftE_def embed_def db_stmt_def db pg_ledger_def pg_ledger_put_def memory_journal_def memory_event_def Let_def)
  show ?thesis using w dec
    by (simp add: remember_def bindE_def liftE_def sample_document retE_def uuid4_hex_def stateE_def remember_as_def refused_def Let_def)
qed

theorem remember_records_provenance_witness:
  "\<exists>m w' r. remember sample_memory memory_chain ''note'' [''document:a'', ''document:a''] None memory_world0 = (Inr m, w')
    \<and> pg_records std_conv w' (my_memory_id m) = Some r \<and> mm_derived_from r = [''document:a''] \<and> mm_written_for r = ''user:alice''
    \<and> pg_contents w' (''hoc'', mm_backend_ref r) = Some ''note''"
proof -
  obtain m w' where run: "remember sample_memory memory_chain ''note'' [''document:a'', ''document:a''] None memory_world0 = (Inr m, w')"
    using sample_remember by (elim exE)
  have subj: "ch_subject memory_chain = ''user:alice''" by (simp add: memory_chain_def)
  from remember_records_provenance [OF std_conv_laws _ _ _ _ run] obtain r where
    "pg_records std_conv w' (my_memory_id m) = Some r" "mm_derived_from r = dedupe [''document:a'', ''document:a'']"
    "mm_written_for r = ch_subject memory_chain" "pg_contents w' (''hoc'', mm_backend_ref r) = Some ''note''"
    by (auto simp: keeps_rules)
  then show ?thesis using run subj by (intro exI [of _ m] exI [of _ w'] exI [of _ r]) simp
qed

end
