(* ===== verification/Identity_Oidc.thy ===== *)
theory Identity_Oidc
  imports Identity_Callers Memory_Service
begin

text \<open>
  The OIDC provider (\<open>identity/oidc.py\<close>): discovery, the cached key set with its throttled forced
  refresh, verification of a user's token and the RFC 8693 exchange.

  The HTTP client (httpx) and the JWT library (joserfc) are third-party code: \<open>oidc_libs\<close> holds the
  calls the provider makes of them, as arguments. An exception of theirs is \<open>Other\<close> with the name of
  the class an \<open>except\<close> clause lists. The provider's fields are the state \<open>w_oidc\<close>.

  The lemmas show what a verified identity rests on, and that forged tokens cost no fetch between two
  forced refreshes.
\<close>

section \<open>Configuration and state\<close>

record oidc_config =
  oc_issuer :: string
  oc_audience :: string
  oc_client_id :: string
  oc_client_secret :: string
  oc_subject_claim :: string
  oc_groups_claim :: string
  oc_internal_base_url :: "string option"
  oc_algorithms :: "string list"
  oc_jwks_ttl :: timedelta
  oc_jwks_min_refresh :: timedelta

record metadata =
  mt_jwks_uri :: string
  mt_token_endpoint :: string

record 'k oidc_state =
  os_metadata :: "metadata option"
  os_keys :: "'k option"
  os_keys_fetched_at :: "datetime option"
  os_last_forced_at :: "datetime option"

record ('x, 'k) oidc_world = "'x memory_world" +
  w_oidc :: "'k oidc_state"

record claims_registry =
  cr_now :: int
  cr_iss :: string
  cr_aud :: string

record ('w, 'k) oidc_libs =
  ol_get_json :: "string \<Rightarrow> ('w, exn, json) eff"
  ol_post_form :: "string \<Rightarrow> (string \<times> string) list \<Rightarrow> ('w, exn, int \<times> json) eff"
  ol_rebase :: "string \<Rightarrow> string \<Rightarrow> exn + string"
  ol_import_key_set :: "json \<Rightarrow> exn + 'k"
  ol_decode :: "string \<Rightarrow> 'k \<Rightarrow> string list \<Rightarrow> exn + claims"
  ol_validate :: "claims_registry \<Rightarrow> claims \<Rightarrow> exn + unit"

datatype flavour = GenericProvider | KeycloakFlavour

record ('w, 'k) oidc_provider =
  op_config :: oidc_config
  op_libs :: "('w, 'k) oidc_libs"
  op_flavour :: flavour

text \<open>\<open>except (A, B) as exc: raise IdentityError(...)\<close>\<close>

definition to_identity_error :: "string list \<Rightarrow> exn \<Rightarrow> exn" where
  "to_identity_error names e = (case e of
     Other n \<Rightarrow> if n \<in> set names then hoc IdentityError else e
   | Hoc c r \<Rightarrow> e)"

definition identity_errors :: "string list \<Rightarrow> ('w, exn, 'a) eff \<Rightarrow> ('w, exn, 'a) eff" where
  "identity_errors names m = catchE m (\<lambda>e. raiseE (to_identity_error names e))"

section \<open>Discovery\<close>

definition rstrip_slash :: "string \<Rightarrow> string" where
  "rstrip_slash s = rev (dropWhile (\<lambda>c. c = CHR ''/'') (rev s))"

definition internal_url :: "('w, 'k) oidc_provider \<Rightarrow> string \<Rightarrow> exn + string" where
  "internal_url p url = (case oc_internal_base_url (op_config p) of
     None \<Rightarrow> Inr url
   | Some internal \<Rightarrow>
      (let public = rstrip_slash (oc_issuer (op_config p)) in
       if startswith url public then Inr (rstrip_slash internal @ drop (length public) url)
       else ol_rebase (op_libs p) internal url))"

text \<open>\<open>data[key]\<close> on a parsed document.\<close>

definition json_item :: "json \<Rightarrow> string \<Rightarrow> exn + json" where
  "json_item data key = (case data of
     JObj d \<Rightarrow> (case map_of d key of None \<Rightarrow> Inl (Other ''KeyError'') | Some v \<Rightarrow> Inr v)
   | _ \<Rightarrow> Inl (Other ''TypeError''))"

definition endpoint :: "pyconv \<Rightarrow> ('w, 'k) oidc_provider \<Rightarrow> json \<Rightarrow> string \<Rightarrow> exn + string" where
  "endpoint pc p data key = (case json_item data key of Inl e \<Rightarrow> Inl e | Inr v \<Rightarrow> internal_url p (conv_str pc v))"

definition read_metadata :: "pyconv \<Rightarrow> ('w, 'k) oidc_provider \<Rightarrow> json \<Rightarrow> exn + metadata" where
  "read_metadata pc p data =
     (case endpoint pc p data ''jwks_uri'' of Inl e \<Rightarrow> Inl e | Inr jwks \<Rightarrow>
      case endpoint pc p data ''token_endpoint'' of Inl e \<Rightarrow> Inl e | Inr token \<Rightarrow>
      Inr \<lparr>mt_jwks_uri = jwks, mt_token_endpoint = token\<rparr>)"

definition discovery_url :: "oidc_config \<Rightarrow> string" where
  "discovery_url c = rstrip_slash (case oc_internal_base_url c of
       None \<Rightarrow> oc_issuer c | Some u \<Rightarrow> str_or u (oc_issuer c)) @ ''/.well-known/openid-configuration''"

text \<open>\<open>str(data.get("issuer", ""))\<close> on the object the metadata was read from.\<close>

definition reported_issuer :: "pyconv \<Rightarrow> json \<Rightarrow> string" where
  "reported_issuer pc data = (case data of
     JObj d \<Rightarrow> (case map_of d ''issuer'' of None \<Rightarrow> [] | Some v \<Rightarrow> conv_str pc v)
   | _ \<Rightarrow> [])"

definition discover ::
    "pyconv \<Rightarrow> (('x, 'k, 'm) oidc_world_scheme, 'k) oidc_provider \<Rightarrow> (('x, 'k, 'm) oidc_world_scheme, exn, metadata) eff" where
  "discover pc p = bindE (getsE (\<lambda>w. os_metadata (w_oidc w))) (\<lambda>known. case known of
     Some md \<Rightarrow> retE md
   | None \<Rightarrow>
      bindE (identity_errors [''HTTPError'', ''KeyError'', ''ValueError'', ''TypeError'']
        (bindE (ol_get_json (op_libs p) (discovery_url (op_config p))) (\<lambda>data.
         bindE (liftE (read_metadata pc p data)) (\<lambda>md. retE (data, md))))) (\<lambda>(data, md).
      if oc_internal_base_url (op_config p) = None \<and> reported_issuer pc data \<noteq> oc_issuer (op_config p)
      then raiseE (hoc IdentityError)
      else bindE (modifyE (\<lambda>w. w\<lparr>w_oidc := (w_oidc w)\<lparr>os_metadata := Some md\<rparr>\<rparr>)) (\<lambda>_. retE md)))"

section \<open>The key set\<close>

definition fetch_keys ::
    "pyconv \<Rightarrow> (('x, 'k, 'm) oidc_world_scheme, 'k) oidc_provider \<Rightarrow> (('x, 'k, 'm) oidc_world_scheme, exn, 'k) eff" where
  "fetch_keys pc p = bindE (discover pc p) (\<lambda>md.
     bindE (identity_errors [''HTTPError'', ''ValueError'', ''TypeError'', ''JoseError'']
       (bindE (ol_get_json (op_libs p) (mt_jwks_uri md)) (\<lambda>data. liftE (ol_import_key_set (op_libs p) data)))) (\<lambda>keys.
     bindE (modifyE (\<lambda>w. w\<lparr>w_oidc := (w_oidc w)\<lparr>os_keys := Some keys\<rparr>\<rparr>)) (\<lambda>_.
     bindE now (\<lambda>t.
     bindE (modifyE (\<lambda>w. w\<lparr>w_oidc := (w_oidc w)\<lparr>os_keys_fetched_at := Some t\<rparr>\<rparr>)) (\<lambda>_. retE keys)))))"

definition key_set ::
    "pyconv \<Rightarrow> (('x, 'k, 'm) oidc_world_scheme, 'k) oidc_provider \<Rightarrow> bool \<Rightarrow> (('x, 'k, 'm) oidc_world_scheme, exn, 'k) eff" where
  "key_set pc p force = bindE (getsE w_oidc) (\<lambda>s. case (os_keys s, os_keys_fetched_at s) of
     (Some keys, Some fetched) \<Rightarrow> bindE now (\<lambda>t.
        if t - fetched < oc_jwks_ttl (op_config p) \<and> \<not> force then retE keys else fetch_keys pc p)
   | _ \<Rightarrow> fetch_keys pc p)"

definition may_force_refresh ::
    "(('x, 'k, 'm) oidc_world_scheme, 'k) oidc_provider \<Rightarrow> (('x, 'k, 'm) oidc_world_scheme, exn, bool) eff" where
  "may_force_refresh p = bindE (getsE w_oidc) (\<lambda>s. case os_last_forced_at s of
     None \<Rightarrow> retE True
   | Some forced \<Rightarrow> bindE now (\<lambda>t. retE (t - forced \<ge> oc_jwks_min_refresh (op_config p))))"

section \<open>Verification\<close>

definition decode_token :: "('w, 'k) oidc_provider \<Rightarrow> string \<Rightarrow> 'k \<Rightarrow> exn + claims" where
  "decode_token p token keys = (case ol_decode (op_libs p) token keys (oc_algorithms (op_config p)) of
     Inl e \<Rightarrow> Inl (to_identity_error [''JoseError'', ''ValueError'', ''KeyError'', ''TypeError''] e)
   | Inr cs \<Rightarrow> Inr cs)"

definition validate_claims ::
    "(('x, 'm) world_scheme, 'k) oidc_provider \<Rightarrow> claims \<Rightarrow> (('x, 'm) world_scheme, exn, unit) eff" where
  "validate_claims p cs = bindE now (\<lambda>t.
     identity_errors [''JoseError''] (liftE (ol_validate (op_libs p)
       \<lparr>cr_now = whole_seconds t, cr_iss = oc_issuer (op_config p), cr_aud = oc_audience (op_config p)\<rparr> cs)))"

definition subject_of :: "oidc_config \<Rightarrow> claims \<Rightarrow> exn + string" where
  "subject_of c cs = (case py_or (dict_get cs (oc_subject_claim c)) (dict_get cs ''sub'') of
     JStr raw \<Rightarrow> if raw = [] then Inl (hoc IdentityError)
       else (case validate_ref (''user:'' @ raw) ''user'' of
          Inl e \<Rightarrow> Inl (if catches InvariantViolation e then hoc IdentityError else e)
        | Inr r \<Rightarrow> Inr r)
   | _ \<Rightarrow> Inl (hoc IdentityError))"

definition group_name :: "flavour \<Rightarrow> string \<Rightarrow> string" where
  "group_name f raw = (case f of GenericProvider \<Rightarrow> raw
     | KeycloakFlavour \<Rightarrow> dropWhile (\<lambda>c. c = CHR ''/'') raw)"

definition group_of :: "flavour \<Rightarrow> json \<Rightarrow> string option" where
  "group_of f item = (case item of
     JStr raw \<Rightarrow> (case validate_ref (''group:'' @ group_name f raw) ''group'' of Inl e \<Rightarrow> None | Inr r \<Rightarrow> Some r)
   | _ \<Rightarrow> None)"

definition groups_of :: "('w, 'k) oidc_provider \<Rightarrow> claims \<Rightarrow> string list" where
  "groups_of p cs = (case map_of cs (oc_groups_claim (op_config p)) of
     Some (JArr items) \<Rightarrow> List.map_filter (group_of (op_flavour p)) items
   | _ \<Rightarrow> [])"

text \<open>\<open>datetime.fromtimestamp(int(claims["exp"]), tz=UTC)\<close> for the years a datetime has.\<close>

definition from_timestamp :: "int \<Rightarrow> exn + datetime" where
  "from_timestamp n = (if -62135596800 \<le> n \<and> n \<le> 253402300799 then Inr (seconds n) else Inl (Other ''ValueError''))"

definition expiry_of :: "pyconv \<Rightarrow> claims \<Rightarrow> exn + datetime" where
  "expiry_of pc cs = (case map_of cs ''exp'' of
     None \<Rightarrow> Inl (Other ''KeyError'')
   | Some v \<Rightarrow> (case conv_int pc v of None \<Rightarrow> Inl (Other ''ValueError'') | Some n \<Rightarrow> from_timestamp n))"

definition identity_from :: "pyconv \<Rightarrow> ('w, 'k) oidc_provider \<Rightarrow> claims \<Rightarrow> exn + verified_identity" where
  "identity_from pc p cs =
     (case subject_of (op_config p) cs of Inl e \<Rightarrow> Inl e | Inr subj \<Rightarrow>
      case expiry_of pc cs of Inl e \<Rightarrow> Inl e | Inr ex \<Rightarrow>
      case map_of cs ''iss'' of None \<Rightarrow> Inl (Other ''KeyError'') | Some iss \<Rightarrow>
      Inr \<lparr>vi_subject = subj, vi_issuer = conv_str pc iss, vi_groups = groups_of p cs, vi_expires_at = ex, vi_claims = cs\<rparr>)"

definition refreshed_decode ::
    "pyconv \<Rightarrow> (('x, 'k, 'm) oidc_world_scheme, 'k) oidc_provider \<Rightarrow> string \<Rightarrow> exn
     \<Rightarrow> (('x, 'k, 'm) oidc_world_scheme, exn, claims) eff" where
  "refreshed_decode pc p token e =
     bindE (may_force_refresh p) (\<lambda>may.
     if \<not> may then raiseE e
     else bindE now (\<lambda>t.
       bindE (modifyE (\<lambda>w. w\<lparr>w_oidc := (w_oidc w)\<lparr>os_last_forced_at := Some t\<rparr>\<rparr>)) (\<lambda>_.
       bindE (key_set pc p True) (\<lambda>keys. liftE (decode_token p token keys)))))"

definition verify_user_token ::
    "pyconv \<Rightarrow> (('x, 'k, 'm) oidc_world_scheme, 'k) oidc_provider \<Rightarrow> string
     \<Rightarrow> (('x, 'k, 'm) oidc_world_scheme, exn, verified_identity) eff" where
  "verify_user_token pc p token =
     bindE (key_set pc p False) (\<lambda>keys.
     bindE (catchE (liftE (decode_token p token keys))
       (\<lambda>e. if catches IdentityError e then refreshed_decode pc p token e else raiseE e)) (\<lambda>cs.
     bindE (validate_claims p cs) (\<lambda>_.
     liftE (identity_from pc p cs))))"

section \<open>Exchange\<close>

definition TOKEN_EXCHANGE_GRANT :: string where
  "TOKEN_EXCHANGE_GRANT = ''urn:ietf:params:oauth:grant-type:token-exchange''"

definition ACCESS_TOKEN_TYPE :: string where
  "ACCESS_TOKEN_TYPE = ''urn:ietf:params:oauth:token-type:access_token''"

record exchanged_token =
  xt_access_token :: string
  xt_token_type :: string
  xt_expires_in :: "int option"
  xt_issued_token_type :: "string option"
  xt_scope :: "string option"

definition exchanged_fingerprint :: "exchanged_token \<Rightarrow> string" where
  "exchanged_fingerprint x = fingerprint (xt_access_token x)"

definition opt_param :: "string \<Rightarrow> string option \<Rightarrow> (string \<times> string) list" where
  "opt_param k v = (case v of None \<Rightarrow> [] | Some s \<Rightarrow> [(k, s)])"

definition exchange_form ::
    "oidc_config \<Rightarrow> string \<Rightarrow> string option \<Rightarrow> string option \<Rightarrow> string option \<Rightarrow> (string \<times> string) list" where
  "exchange_form c subject_token actor_token audience sc =
     [(''grant_type'', TOKEN_EXCHANGE_GRANT), (''client_id'', oc_client_id c), (''client_secret'', oc_client_secret c),
      (''subject_token'', subject_token), (''subject_token_type'', ACCESS_TOKEN_TYPE),
      (''requested_token_type'', ACCESS_TOKEN_TYPE)]
     @ opt_param ''actor_token'' actor_token
     @ opt_param ''actor_token_type'' (map_option (\<lambda>_. ACCESS_TOKEN_TYPE) actor_token)
     @ opt_param ''audience'' audience @ opt_param ''scope'' sc"

text \<open>\<open>str(value) if value is not None else None\<close>\<close>

definition json_opt_str :: "pyconv \<Rightarrow> json \<Rightarrow> string option" where
  "json_opt_str pc v = (if v = JNull then None else Some (conv_str pc v))"

definition read_exchange :: "pyconv \<Rightarrow> (string \<times> json) list \<Rightarrow> exn + exchanged_token" where
  "read_exchange pc d = (case dict_get d ''access_token'' of
     JStr t \<Rightarrow> if t = [] then Inl (hoc IdentityError) else
       (let expires = dict_get d ''expires_in'';
            made = (\<lambda>n. \<lparr>xt_access_token = t,
              xt_token_type = conv_str pc (case map_of d ''token_type'' of None \<Rightarrow> JStr ''Bearer'' | Some v \<Rightarrow> v),
              xt_expires_in = n, xt_issued_token_type = json_opt_str pc (dict_get d ''issued_token_type''),
              xt_scope = json_opt_str pc (dict_get d ''scope'')\<rparr>) in
        if expires = JNull then Inr (made None)
        else (case conv_int pc expires of None \<Rightarrow> Inl (Other ''ValueError'') | Some n \<Rightarrow> Inr (made (Some n))))
   | _ \<Rightarrow> Inl (hoc IdentityError))"

definition exchange ::
    "pyconv \<Rightarrow> (('x, 'k, 'm) oidc_world_scheme, 'k) oidc_provider \<Rightarrow> string \<Rightarrow> string option \<Rightarrow> string option \<Rightarrow> string option
     \<Rightarrow> (('x, 'k, 'm) oidc_world_scheme, exn, exchanged_token) eff" where
  "exchange pc p subject_token actor_token audience sc =
     bindE (discover pc p) (\<lambda>md.
     bindE (identity_errors [''HTTPError'', ''ValueError'']
       (bindE (ol_post_form (op_libs p) (mt_token_endpoint md)
           (exchange_form (op_config p) subject_token actor_token audience sc)) (\<lambda>(status, response).
        case response of
          JObj d \<Rightarrow> if status \<noteq> 200 then raiseE (hoc IdentityError) else retE d
        | _ \<Rightarrow> raiseE (hoc IdentityError)))) (\<lambda>d.
     liftE (read_exchange pc d)))"

section \<open>What an identity rests on\<close>

lemma subject_of_Inr:
  "subject_of c cs = Inr s \<longleftrightarrow> (\<exists>raw. py_or (dict_get cs (oc_subject_claim c)) (dict_get cs ''sub'') = JStr raw
     \<and> raw \<noteq> [] \<and> s = ''user:'' @ raw \<and> valid_ref s ''user'')"
  by (auto simp: subject_of_def validate_ref_def split: json.splits)

lemma groups_of_valid: "g \<in> set (groups_of p cs) \<Longrightarrow> valid_ref g ''group''"
  by (auto simp: groups_of_def List.map_filter_def group_of_def validate_ref_def split: option.splits json.splits if_splits)

lemma identity_errors_Inr [simp]: "identity_errors names m w = (Inr x, w') \<longleftrightarrow> m w = (Inr x, w')"
  by (auto simp: identity_errors_def catchE_def raiseE_def split: prod.splits sum.splits)

lemma identity_from_Inr:
  assumes "identity_from pc p cs = Inr i"
  shows "valid_ref (vi_subject i) ''user'' \<and> vi_claims i = cs \<and> list_all (\<lambda>g. valid_ref g ''group'') (vi_groups i)
    \<and> (\<exists>iss n v. map_of cs ''iss'' = Some iss \<and> vi_issuer i = conv_str pc iss
         \<and> map_of cs ''exp'' = Some v \<and> conv_int pc v = Some n \<and> vi_expires_at i = seconds n)"
  using assms
  by (auto simp: identity_from_def subject_of_Inr expiry_of_def from_timestamp_def list_all_iff
      dest: groups_of_valid split: sum.splits option.splits if_splits)

text \<open>Decoding goes through the library with the configured algorithms.\<close>

lemma decode_token_Inr:
  "decode_token p token keys = Inr cs \<longleftrightarrow> ol_decode (op_libs p) token keys (oc_algorithms (op_config p)) = Inr cs"
  by (auto simp: decode_token_def split: sum.splits)

lemma refreshed_decode_Inr:
  "refreshed_decode pc p token e w = (Inr cs, w') \<Longrightarrow> \<exists>keys. decode_token p token keys = Inr cs"
  by (auto simp: refreshed_decode_def bindE_Inr raiseE_def liftE_def split: if_splits)

lemma verify_user_token_Inr:
  assumes "verify_user_token pc p token w = (Inr i, w')"
  shows "\<exists>keys cs t. decode_token p token keys = Inr cs
    \<and> ol_validate (op_libs p) \<lparr>cr_now = whole_seconds t, cr_iss = oc_issuer (op_config p),
        cr_aud = oc_audience (op_config p)\<rparr> cs = Inr ()
    \<and> identity_from pc p cs = Inr i"
proof -
  from assms obtain keys w1 cs w2 w3
    where dec: "catchE (liftE (decode_token p token keys))
        (\<lambda>e. if catches IdentityError e then refreshed_decode pc p token e else raiseE e) w1 = (Inr cs, w2)"
      and val: "validate_claims p cs w2 = (Inr (), w3)" and i: "identity_from pc p cs = Inr i"
    by (auto simp: verify_user_token_def bindE_Inr liftE_def)
  have "\<exists>keys. decode_token p token keys = Inr cs"
    using dec by (auto simp: catchE_def liftE_def raiseE_def dest: refreshed_decode_Inr split: sum.splits if_splits)
  then show ?thesis
    using val i by (auto simp: validate_claims_def bindE_Inr liftE_def)
qed

lemma fetch_keys_caches: "fetch_keys pc p w = (Inr keys, w') \<Longrightarrow> os_keys (w_oidc w') = Some keys"
  by (auto simp: fetch_keys_def bindE_Inr modifyE_def retE_def now_def stateE_def)

lemma key_set_caches: "key_set pc p force w = (Inr keys, w') \<Longrightarrow> os_keys (w_oidc w') = Some keys"
  by (auto simp: key_set_def bindE_Inr getsE_def now_def stateE_def retE_def
      dest: fetch_keys_caches split: option.splits if_splits)

lemma refreshed_decode_caches:
  "refreshed_decode pc p token e w = (Inr cs, w') \<Longrightarrow>
    \<exists>keys. os_keys (w_oidc w') = Some keys \<and> decode_token p token keys = Inr cs"
  by (auto simp: refreshed_decode_def bindE_Inr raiseE_def liftE_def dest: key_set_caches split: if_splits)

text \<open>The last thing a verification reads is the clock, for the validation of the claims.\<close>

lemma verify_user_token_run:
  assumes "verify_user_token pc p token w = (Inr i, w')"
  defines "t \<equiv> w_clock w' (w_clock_at w' - 1)"
  shows "\<exists>keys cs. os_keys (w_oidc w') = Some keys \<and> decode_token p token keys = Inr cs
    \<and> ol_validate (op_libs p) \<lparr>cr_now = whole_seconds t, cr_iss = oc_issuer (op_config p),
        cr_aud = oc_audience (op_config p)\<rparr> cs = Inr ()
    \<and> identity_from pc p cs = Inr i"
proof -
  from assms(1) obtain keys w1 cs w2
    where keys: "key_set pc p False w = (Inr keys, w1)"
      and dec: "catchE (liftE (decode_token p token keys))
        (\<lambda>e. if catches IdentityError e then refreshed_decode pc p token e else raiseE e) w1 = (Inr cs, w2)"
      and val: "validate_claims p cs w2 = (Inr (), w')" and i: "identity_from pc p cs = Inr i"
    by (auto simp: verify_user_token_def bindE_Inr liftE_def)
  have "\<exists>keys. os_keys (w_oidc w2) = Some keys \<and> decode_token p token keys = Inr cs"
    using dec key_set_caches [OF keys]
    by (auto simp: catchE_def liftE_def raiseE_def dest: refreshed_decode_caches split: sum.splits if_splits)
  moreover have "w' = w2\<lparr>w_clock_at := Suc (w_clock_at w2)\<rparr>"
    "ol_validate (op_libs p) \<lparr>cr_now = whole_seconds (w_clock w2 (w_clock_at w2)), cr_iss = oc_issuer (op_config p),
        cr_aud = oc_audience (op_config p)\<rparr> cs = Inr ()"
    using val by (auto simp: validate_claims_def bindE_Inr liftE_def now_def stateE_def)
  ultimately show ?thesis using i by (auto simp: t_def)
qed

text \<open>
  What joserfc documents of a claims registry: a validated token carries the required issuer, names the
  required audience, and its \<open>exp\<close> is a number not before \<open>now\<close>.
\<close>

definition names_audience :: "string \<Rightarrow> json \<Rightarrow> bool" where
  "names_audience a v = (case v of JStr s \<Rightarrow> s = a | JArr xs \<Rightarrow> JStr a \<in> set xs | _ \<Rightarrow> False)"

definition registry_laws :: "pyconv \<Rightarrow> ('w, 'k) oidc_libs \<Rightarrow> bool" where
  "registry_laws pc libs \<longleftrightarrow> (\<forall>reg cs. ol_validate libs reg cs = Inr () \<longrightarrow>
     map_of cs ''iss'' = Some (JStr (cr_iss reg)) \<and> names_audience (cr_aud reg) (dict_get cs ''aud'')
     \<and> (\<exists>v n. map_of cs ''exp'' = Some v \<and> conv_int pc v = Some n \<and> cr_now reg \<le> n))"

text \<open>
  C27: \<open>verify_user_token\<close> returns an identity only for a token the cached key set decodes under the
  configured algorithms, issued by the configured issuer for the configured audience and not expired
  at the last reading of the clock; its subject is a well-formed user and its groups are well-formed.
\<close>

theorem verified_identity_grounds:
  assumes "conv_laws pc" "registry_laws pc (op_libs p)" "verify_user_token pc p token w = (Inr i, w')"
  shows "\<exists>keys. os_keys (w_oidc w') = Some keys
    \<and> ol_decode (op_libs p) token keys (oc_algorithms (op_config p)) = Inr (vi_claims i)
    \<and> vi_issuer i = oc_issuer (op_config p) \<and> names_audience (oc_audience (op_config p)) (dict_get (vi_claims i) ''aud'')
    \<and> seconds (whole_seconds (w_clock w' (w_clock_at w' - 1))) \<le> vi_expires_at i
    \<and> valid_ref (vi_subject i) ''user'' \<and> list_all (\<lambda>g. valid_ref g ''group'') (vi_groups i)"
proof -
  let ?t = "w_clock w' (w_clock_at w' - 1)"
  from verify_user_token_run [OF assms(3)] obtain keys cs where
    k: "os_keys (w_oidc w') = Some keys" and d: "decode_token p token keys = Inr cs"
    and v: "ol_validate (op_libs p) \<lparr>cr_now = whole_seconds ?t, cr_iss = oc_issuer (op_config p),
        cr_aud = oc_audience (op_config p)\<rparr> cs = Inr ()"
    and i: "identity_from pc p cs = Inr i" by blast
  have law: "map_of cs ''iss'' = Some (JStr (oc_issuer (op_config p)))"
    "names_audience (oc_audience (op_config p)) (dict_get cs ''aud'')"
    "\<exists>v n. map_of cs ''exp'' = Some v \<and> conv_int pc v = Some n \<and> whole_seconds ?t \<le> n"
    using assms(2) v unfolding registry_laws_def by force+
  show ?thesis
    using k d law identity_from_Inr [OF i] assms(1)
    by (auto simp: decode_token_Inr conv_laws_def seconds_def)
qed

section \<open>Forged tokens\<close>

text \<open>
  Between two forced refreshes, while the cached keys are fresh, tokens the keys do not decode
  cost no request to the identity provider: every one is refused with an \<open>IdentityError\<close> and nothing
  but the clock is read, two readings each.
\<close>

theorem forged_tokens_cost_no_fetch:
  assumes "os_keys (w_oidc w) = Some keys" "os_keys_fetched_at (w_oidc w) = Some fetched"
    and "os_last_forced_at (w_oidc w) = Some forced"
    and time: "\<forall>n \<ge> w_clock_at w. w_clock w n - fetched < oc_jwks_ttl (op_config p)
      \<and> w_clock w n - forced < oc_jwks_min_refresh (op_config p)"
    and "\<forall>token \<in> set tokens. decode_token p token keys = Inl (hoc IdentityError)"
  shows "mapE (\<lambda>token. attemptE (verify_user_token pc p token)) tokens w
    = (Inr (map (\<lambda>_. Inl (hoc IdentityError)) tokens), w\<lparr>w_clock_at := w_clock_at w + 2 * length tokens\<rparr>)"
  using assms
proof (induction tokens arbitrary: w)
  case Nil
  show ?case by (simp add: retE_def)
next
  case (Cons token tokens)
  let ?w = "w\<lparr>w_clock_at := w_clock_at w + 2\<rparr>"
  have "verify_user_token pc p token w = (Inl (hoc IdentityError), ?w)"
    using Cons.prems
    by (simp add: verify_user_token_def key_set_def bindE_def getsE_def now_def stateE_def retE_def catchE_def liftE_def
        hoc_def refreshed_decode_def may_force_refresh_def raiseE_def numeral_2_eq_2 not_le)
  moreover note Cons.IH [of ?w]
  ultimately show ?case
    using Cons.prems by (simp add: bindE_def attemptE_def retE_def)
qed

section \<open>The contract of an identity provider\<close>

text \<open>
  What the routes rely on of the \<open>IdentityProvider\<close> protocol: the subject of an identity it verified
  is a well-formed user reference.
\<close>

locale identity_provider =
  fixes verify_identity :: "string \<Rightarrow> ('w, exn, verified_identity) eff"
  assumes subject_valid: "verify_identity token w = (Inr i, w') \<Longrightarrow> valid_ref (vi_subject i) ''user''"
begin

text \<open>A caller that was verified is a well-formed agent or user.\<close>

lemma caller_valid:
  assumes "verify_identity token w = (Inr i, w')" "caller_from_identity pc i d = Inr c"
  shows "valid_ref (cl_ref c) (case cl_kind c of AgentCaller \<Rightarrow> ''agent'' | UserCaller \<Rightarrow> ''user'')"
proof (cases "cl_kind c")
  case AgentCaller
  then show ?thesis using caller_agentD [OF assms(2)] by auto
next
  case UserCaller
  then show ?thesis using caller_userD [OF assms(2)] subject_valid [OF assms(1)] by simp
qed

lemma human_valid:
  "verify_identity token w = (Inr i, w') \<Longrightarrow> require_human pc i d = Inr s \<Longrightarrow> valid_ref s ''user'' \<and> s = vi_subject i"
  using subject_valid [of token w i w'] unfolding require_human_exact by simp

end

interpretation oidc: identity_provider "verify_user_token pc p"
  for pc and p :: "(('x, 'k, 'm) oidc_world_scheme, 'k) oidc_provider"
proof
  show "valid_ref (vi_subject i) ''user''"
    if "verify_user_token pc p token w = (Inr i, w')" for token w i w'
    using verify_user_token_Inr [OF that] identity_from_Inr by blast
qed

section \<open>Witnesses\<close>

definition alice_claims :: claims where
  "alice_claims = [(''iss'', JStr ''https://idp''), (''aud'', JStr ''hoc''), (''exp'', JInt 100), (''sub'', JStr ''alice''),
     (''groups'', JArr [JStr ''/rh''])]"

definition bot_claims :: claims where
  "bot_claims = [(''iss'', JStr ''https://idp''), (''aud'', JStr ''hoc''), (''exp'', JInt 100), (''sub'', JStr ''svc''),
     (''clientId'', JStr ''a'')]"

text \<open>A registry that checks what is documented.\<close>

definition sample_validate :: "claims_registry \<Rightarrow> claims \<Rightarrow> exn + unit" where
  "sample_validate reg cs =
     (if map_of cs ''iss'' = Some (JStr (cr_iss reg)) \<and> names_audience (cr_aud reg) (dict_get cs ''aud'')
        \<and> (case map_of cs ''exp'' of Some (JInt n) \<Rightarrow> cr_now reg \<le> n | _ \<Rightarrow> False)
      then Inr () else Inl (Other ''JoseError''))"

definition sample_libs :: "('w, nat) oidc_libs" where
  "sample_libs = \<lparr>ol_get_json = (\<lambda>url. raiseE (Other ''HTTPError'')), ol_post_form = (\<lambda>url form. raiseE (Other ''HTTPError'')),
     ol_rebase = (\<lambda>base url. Inr url), ol_import_key_set = (\<lambda>v. Inl (Other ''JoseError'')),
     ol_decode = (\<lambda>token keys algs. if token = ''alice'' then Inr alice_claims
        else if token = ''bot'' then Inr bot_claims else Inl (Other ''JoseError'')),
     ol_validate = sample_validate\<rparr>"

definition sample_oidc :: "('w, nat) oidc_provider" where
  "sample_oidc = \<lparr>op_config = \<lparr>oc_issuer = ''https://idp'', oc_audience = ''hoc'', oc_client_id = ''hoc'', oc_client_secret = ''s'',
     oc_subject_claim = ''sub'', oc_groups_claim = ''groups'', oc_internal_base_url = None, oc_algorithms = [''RS256''],
     oc_jwks_ttl = seconds 3600, oc_jwks_min_refresh = seconds 30\<rparr>, op_libs = sample_libs, op_flavour = KeycloakFlavour\<rparr>"

definition oidc_world0 :: "(unit, nat) oidc_world" where
  "oidc_world0 = memory_world.extend (memory_world0\<lparr>w_clock := (\<lambda>n. 0)\<rparr>) (oidc_world.fields
     \<lparr>os_metadata = None, os_keys = Some 0, os_keys_fetched_at = Some 0, os_last_forced_at = Some 0\<rparr>)"

lemma oidc_world0_simps [simp]:
  "w_oidc oidc_world0 = \<lparr>os_metadata = None, os_keys = Some 0, os_keys_fetched_at = Some 0, os_last_forced_at = Some 0\<rparr>"
  "w_clock oidc_world0 n = 0"
  by (simp_all add: oidc_world0_def memory_world.extend_def oidc_world.fields_def)

lemma sample_oidc_laws: "registry_laws std_conv (op_libs sample_oidc)"
  by (auto simp: registry_laws_def sample_oidc_def sample_libs_def sample_validate_def std_conv_def
      split: if_splits option.splits json.splits)

definition alice_identity :: verified_identity where
  "alice_identity = \<lparr>vi_subject = ''user:alice'', vi_issuer = ''https://idp'', vi_groups = [''group:rh''],
     vi_expires_at = seconds 100, vi_claims = alice_claims\<rparr>"

definition bot_identity :: verified_identity where
  "bot_identity = \<lparr>vi_subject = ''user:svc'', vi_issuer = ''https://idp'', vi_groups = [],
     vi_expires_at = seconds 100, vi_claims = bot_claims\<rparr>"

lemma sample_refs: "valid_ref ''user:alice'' ''user''" "valid_ref ''user:svc'' ''user''" "valid_ref ''group:rh'' ''group''"
  by code_simp+

lemma sample_identities:
  "identity_from std_conv (sample_oidc :: ('w, nat) oidc_provider) alice_claims = Inr alice_identity"
  "identity_from std_conv (sample_oidc :: ('w, nat) oidc_provider) bot_claims = Inr bot_identity"
  using sample_refs
  by (simp_all add: identity_from_def subject_of_def sample_oidc_def alice_claims_def bot_claims_def dict_get_def py_or_def json_falsy_def
      validate_ref_def expiry_of_def from_timestamp_def std_conv_def groups_of_def group_of_def group_name_def
      List.map_filter_def alice_identity_def bot_identity_def)

lemma sample_oidc_verify:
  fixes w :: "('x, nat, 'm) oidc_world_scheme"
  assumes "os_keys (w_oidc w) = Some 0" "os_keys_fetched_at (w_oidc w) = Some 0" "\<forall>n. w_clock w n = 0"
  shows "verify_user_token std_conv sample_oidc ''alice'' w
      = (Inr alice_identity, w\<lparr>w_clock_at := w_clock_at w + 2\<rparr>)"
    and "verify_user_token std_conv sample_oidc ''bot'' w
      = (Inr bot_identity, w\<lparr>w_clock_at := w_clock_at w + 2\<rparr>)"
  using assms sample_identities
  by (simp_all add: verify_user_token_def key_set_def bindE_def getsE_def now_def stateE_def retE_def catchE_def liftE_def
      sample_oidc_def [THEN arg_cong [of _ _ op_config]] sample_oidc_def [THEN arg_cong [of _ _ op_libs]] seconds_def
      decode_token_def sample_libs_def validate_claims_def identity_errors_def sample_validate_def
      alice_claims_def [THEN arg_cong [of _ _ "\<lambda>c. map_of c k" for k]] bot_claims_def [THEN arg_cong [of _ _ "\<lambda>c. map_of c k" for k]]
      names_audience_def dict_get_def whole_seconds_def numeral_2_eq_2)

theorem verified_identity_grounds_witness:
  "\<exists>i w'. verify_user_token std_conv sample_oidc ''alice'' oidc_world0 = (Inr i, w')
    \<and> vi_issuer i = ''https://idp'' \<and> valid_ref (vi_subject i) ''user''"
proof -
  have run: "verify_user_token std_conv sample_oidc ''alice'' oidc_world0
      = (Inr alice_identity, oidc_world0\<lparr>w_clock_at := w_clock_at oidc_world0 + 2\<rparr>)"
    by (rule sample_oidc_verify(1)) simp_all
  from verified_identity_grounds [OF std_conv_laws sample_oidc_laws run] run show ?thesis
    by (auto simp: sample_oidc_def [THEN arg_cong [of _ _ op_config]])
qed

theorem forged_tokens_cost_no_fetch_witness:
  "mapE (\<lambda>token. attemptE (verify_user_token std_conv sample_oidc token)) [''x'', ''y''] oidc_world0
    = (Inr [Inl (hoc IdentityError), Inl (hoc IdentityError)] :: exn + (exn + verified_identity) list,
       oidc_world0\<lparr>w_clock_at := w_clock_at oidc_world0 + 4\<rparr>)"
  using forged_tokens_cost_no_fetch [where tokens = "[''x'', ''y'']" and p = sample_oidc and w = oidc_world0
      and keys = 0 and fetched = 0 and forced = 0 and pc = std_conv]
  by (simp add: sample_oidc_def [THEN arg_cong [of _ _ op_config]] sample_oidc_def [THEN arg_cong [of _ _ op_libs]]
      seconds_def decode_token_def sample_libs_def to_identity_error_def)

end
