(* ===== verification/Cfg_Settings.thy ===== *)
theory Cfg_Settings
  imports Identity_Oidc Actions_Gate
begin

text \<open>
  The configuration of the service (\<open>settings.py\<close>) and the extensions it names (\<open>plugins.py\<close>).

  The environment is an insertion-ordered dict. \<open>from_env\<close> reads every setting in the order of the source, so
  that the first one that cannot be read is the one that is raised. \<open>int(text)\<close>, \<open>float(text)\<close>, \<open>str.isdigit\<close> and
  \<open>timedelta(minutes=x)\<close> are the ones of Python on characters up to 255; a float is the exact rational its text denotes.

  The lemmas show that no secret of the core reaches a plugin, that a missing required setting stops the
  service, that the verification keys are read back as they are printed, and that a plugin never takes the name of
  a built-in.
\<close>

declare split_on.simps [simp del]

section \<open>Reading numbers\<close>

definition bindR :: "'e + 'a \<Rightarrow> ('a \<Rightarrow> 'e + 'b) \<Rightarrow> 'e + 'b" where
  "bindR r f = (case r of Inl e \<Rightarrow> Inl e | Inr x \<Rightarrow> f x)"

lemma bindR_simps [simp]: "bindR (Inl e) f = Inl e" "bindR (Inr x) f = f x"
  by (simp_all add: bindR_def)

lemma bindR_Inr: "bindR r f = Inr y \<longleftrightarrow> (\<exists>x. r = Inr x \<and> f x = Inr y)"
  by (cases r) auto

definition num_blank :: "char \<Rightarrow> bool" where
  "num_blank c = (c \<in> set [CHR '' '', CHR 0x09, CHR 0x0A, CHR 0x0B, CHR 0x0C, CHR 0x0D, CHR 0x85, CHR 0xA0])"

definition num_strip :: "string \<Rightarrow> string" where
  "num_strip s = rev (dropWhile num_blank (rev (dropWhile num_blank s)))"

definition is_decimal :: "char \<Rightarrow> bool" where
  "is_decimal c = (48 \<le> (of_char c :: nat) \<and> (of_char c :: nat) \<le> 57)"

definition decimal_value :: "char \<Rightarrow> int" where
  "decimal_value c = int (of_char c) - 48"

text \<open>\<open>s.isdigit()\<close> also holds of the superscripts, which \<open>int\<close> does not read.\<close>

definition isdigit_text :: "string \<Rightarrow> bool" where
  "isdigit_text s = (s \<noteq> [] \<and> list_all (\<lambda>c. is_decimal c \<or> c \<in> set [CHR 0xB2, CHR 0xB3, CHR 0xB9]) s)"

text \<open>Digits with single underscores between them: the digits alone.\<close>

fun us_digits :: "bool \<Rightarrow> string \<Rightarrow> string option" where
  "us_digits after_digit [] = (if after_digit then Some [] else None)"
| "us_digits after_digit (c # cs) =
     (if is_decimal c then map_option ((#) c) (us_digits True cs)
      else if c = CHR ''_'' \<and> after_digit then us_digits False cs else None)"

definition digits_value :: "string \<Rightarrow> int" where
  "digits_value ds = foldl (\<lambda>n c. 10 * n + decimal_value c) 0 ds"

definition split_sign :: "string \<Rightarrow> int \<times> string" where
  "split_sign s = (case s of [] \<Rightarrow> (1, []) | c # cs \<Rightarrow>
     if c = CHR ''-'' then (-1, cs) else if c = CHR ''+'' then (1, cs) else (1, s))"

text \<open>\<open>int(text)\<close>, with the interpreter's limit of 4300 digits.\<close>

definition MAX_STR_DIGITS :: nat where
  "MAX_STR_DIGITS = 4300"

definition read_int :: "string \<Rightarrow> exn + int" where
  "read_int s = (case split_sign (num_strip s) of (sg, body) \<Rightarrow>
     (case us_digits False body of None \<Rightarrow> Inl (Other ''ValueError'')
      | Some ds \<Rightarrow> if MAX_STR_DIGITS < length ds then Inl (Other ''ValueError'') else Inr (sg * digits_value ds)))"

text \<open>A run of digits that may be empty.\<close>

definition opt_digits :: "string \<Rightarrow> string option" where
  "opt_digits s = (if s = [] then Some [] else us_digits False s)"

datatype float_text = Finite rat | Infinite | NotANumber

definition ten_to :: "int \<Rightarrow> rat" where
  "ten_to e = (if 0 \<le> e then 10 ^ nat e else 1 / 10 ^ nat (- e))"

definition read_mantissa :: "string \<Rightarrow> rat option" where
  "read_mantissa s = (case partition_char (CHR ''.'') s of (a, dot, b) \<Rightarrow>
     (case (opt_digits a, opt_digits b) of
        (Some as, Some bs) \<Rightarrow> if as = [] \<and> bs = [] then None
          else Some (of_int (digits_value (as @ bs)) * ten_to (- int (length bs)))
      | _ \<Rightarrow> None))"

definition read_float :: "string \<Rightarrow> exn + float_text" where
  "read_float s = (case split_sign (num_strip s) of (sg, body) \<Rightarrow>
     (let low = map lower_char body in
      if low = ''inf'' \<or> low = ''infinity'' then Inr Infinite
      else if low = ''nan'' then Inr NotANumber
      else case partition_char (CHR ''e'') low of (m, has_exp, rest) \<Rightarrow>
        (case split_sign rest of (es, eds) \<Rightarrow>
         (case (read_mantissa m, if has_exp then us_digits False eds else Some ''0'') of
            (Some x, Some ds) \<Rightarrow> Inr (Finite (of_int sg * x * ten_to (es * digits_value ds)))
          | _ \<Rightarrow> Inl (Other ''ValueError'')))))"

text \<open>\<open>timedelta(minutes=x)\<close>: microseconds, a half going to the even one, within 999999999 days.\<close>

definition round_half_even :: "rat \<Rightarrow> int" where
  "round_half_even x = (let f = \<lfloor>x\<rfloor>; d = x - of_int f in
     if d < 1 / 2 then f else if 1 / 2 < d then f + 1 else if even f then f else f + 1)"

definition DAY :: timedelta where
  "DAY = seconds 86400"

definition timedelta_minutes :: "float_text \<Rightarrow> exn + timedelta" where
  "timedelta_minutes t = (case t of
     Infinite \<Rightarrow> Inl (Other ''OverflowError'')
   | NotANumber \<Rightarrow> Inl (Other ''ValueError'')
   | Finite x \<Rightarrow> (let us = round_half_even (x * 60000000) in
       if - 999999999 * DAY \<le> us \<and> us < 1000000000 * DAY then Inr us else Inl (Other ''OverflowError'')))"

section \<open>Settings\<close>

definition REQUIRE_DB :: "string set" where
  "REQUIRE_DB = {''HOC_POSTGRES_DSN''}"

definition REQUIRE_ENGINE :: "string set" where
  "REQUIRE_ENGINE = REQUIRE_DB \<union> {''HOC_OPENFGA_URL'', ''HOC_OPENFGA_STORE_ID''}"

definition REQUIRE_SERVICE :: "string set" where
  "REQUIRE_SERVICE = REQUIRE_ENGINE \<union> {''HOC_OIDC_ISSUER'', ''HOC_OIDC_CLIENT_ID'', ''HOC_OIDC_CLIENT_SECRET''}"

type_synonym environ = "(string \<times> string) list"

record settings =
  st_postgres_dsn :: string
  st_openfga_url :: string
  st_openfga_store_id :: string
  st_openfga_model_id :: "string option"
  st_oidc_issuer :: string
  st_oidc_audience :: string
  st_oidc_client_id :: string
  st_oidc_client_secret :: string
  st_oidc_subject_claim :: string
  st_oidc_internal_url :: "string option"
  st_identity_provider :: string
  st_oidc_groups_claim :: string
  st_oidc_agent_claim :: string
  st_oidc_agent_id_claim :: string
  st_root_key_hex :: "string option"
  st_root_key_id :: int
  st_root_public_keys :: "(int \<times> string) list"
  st_rate_limit_per_minute :: int
  st_token_ttl :: timedelta
  st_approval_ttl :: timedelta
  st_approval_tools :: "string list"
  st_memory_backend :: string
  st_memory_namespace :: string
  st_mem0_config :: "string option"
  st_memory_embedder :: "string option"
  st_zep_api_key :: "string option"
  st_zep_base_url :: "string option"
  st_connectors_required :: bool
  st_connector_max_staleness :: timedelta
  st_otel_enabled :: bool
  st_otel_endpoint :: "string option"
  st_allow_ephemeral_root_key :: bool
  st_service_name :: string
  st_approval_channels :: "string list"
  st_allow_self_approval :: bool
  st_mandate_max_days :: int
  st_db_auto_migrate :: bool
  st_db_pool_size :: int
  st_log_level :: string
  st_log_format :: string
  st_env :: environ

text \<open>\<open>e.get(key, default)\<close>, \<open>e.get(key) or None\<close>\<close>

definition get_or :: "environ \<Rightarrow> string \<Rightarrow> string \<Rightarrow> string" where
  "get_or e key dflt = (case map_of e key of Some v \<Rightarrow> v | None \<Rightarrow> dflt)"

definition get_some :: "environ \<Rightarrow> string \<Rightarrow> string option" where
  "get_some e key = (case map_of e key of None \<Rightarrow> None | Some v \<Rightarrow> if v = [] then None else Some v)"

definition need :: "environ \<Rightarrow> string set \<Rightarrow> string \<Rightarrow> exn + string" where
  "need e require key = (let value = get_or e key [] in
     if value = [] \<and> key \<in> require then Inl (hoc ConfigurationError) else Inr value)"

definition minutes_of :: "environ \<Rightarrow> string \<Rightarrow> int \<Rightarrow> exn + timedelta" where
  "minutes_of e key dflt = bindR (case map_of e key of None \<Rightarrow> Inr (Finite (of_int dflt)) | Some v \<Rightarrow> read_float v) timedelta_minutes"

definition flag :: "environ \<Rightarrow> string \<Rightarrow> string \<Rightarrow> bool" where
  "flag e key dflt = (map lower_char (get_or e key dflt) \<in> set [''1'', ''true'', ''yes''])"

fun public_keys_loop :: "string list \<Rightarrow> (int \<times> string) list \<Rightarrow> exn + (int \<times> string) list" where
  "public_keys_loop [] keys = Inr keys"
| "public_keys_loop (raw_part # parts) keys =
     (let part = strip raw_part in
      if part = [] then public_keys_loop parts keys
      else case partition_char (CHR ''='') part of (key_id, sep, hex_key) \<Rightarrow>
        if \<not> sep \<or> \<not> isdigit_text (strip key_id) \<or> strip hex_key = [] then Inl (hoc ConfigurationError)
        else bindR (read_int key_id) (\<lambda>i. public_keys_loop parts (keys @ [(i, strip hex_key)])))"

definition public_keys :: "string \<Rightarrow> exn + (int \<times> string) list" where
  "public_keys raw = public_keys_loop (split_on (CHR '','') raw) []"

definition PLUGIN_ENV_PREFIXES :: "string list" where
  "PLUGIN_ENV_PREFIXES = [''HOC_'', ''OTEL_'']"

definition CORE_SECRETS :: "string list" where
  "CORE_SECRETS = [''HOC_ROOT_KEY_HEX'', ''HOC_OIDC_CLIENT_SECRET'', ''HOC_POSTGRES_DSN'', ''HOC_ZEP_API_KEY'']"

definition plugin_env :: "environ \<Rightarrow> environ" where
  "plugin_env env = filter (\<lambda>(k, v). list_ex (startswith k) PLUGIN_ENV_PREFIXES \<and> k \<notin> set CORE_SECRETS) env"

definition otel_endpoint :: "environ \<Rightarrow> string option" where
  "otel_endpoint e = (case get_some e ''OTEL_EXPORTER_OTLP_ENDPOINT'' of Some v \<Rightarrow> Some v | None \<Rightarrow> get_some e ''HOC_OTEL_ENDPOINT'')"

definition from_env :: "environ \<Rightarrow> string set \<Rightarrow> exn + settings" where
  "from_env e require =
     bindR (need e require ''HOC_POSTGRES_DSN'') (\<lambda>postgres_dsn.
     bindR (need e require ''HOC_OPENFGA_URL'') (\<lambda>openfga_url.
     bindR (need e require ''HOC_OPENFGA_STORE_ID'') (\<lambda>openfga_store_id.
     bindR (need e require ''HOC_OIDC_ISSUER'') (\<lambda>oidc_issuer.
     bindR (need e require ''HOC_OIDC_CLIENT_ID'') (\<lambda>oidc_client_id.
     bindR (need e require ''HOC_OIDC_CLIENT_SECRET'') (\<lambda>oidc_client_secret.
     bindR (read_int (get_or e ''HOC_ROOT_KEY_ID'' ''1'')) (\<lambda>root_key_id.
     bindR (public_keys (get_or e ''HOC_ROOT_PUBLIC_KEYS'' [])) (\<lambda>root_public_keys.
     bindR (read_int (get_or e ''HOC_RATE_LIMIT_PER_MINUTE'' ''600'')) (\<lambda>rate_limit_per_minute.
     bindR (minutes_of e ''HOC_TOKEN_TTL_MINUTES'' 60) (\<lambda>token_ttl.
     bindR (minutes_of e ''HOC_APPROVAL_TTL_MINUTES'' 60) (\<lambda>approval_ttl.
     bindR (minutes_of e ''HOC_CONNECTOR_MAX_STALENESS_MINUTES'' 60) (\<lambda>connector_max_staleness.
     bindR (read_int (get_or e ''HOC_MANDATE_MAX_DAYS'' ''90'')) (\<lambda>mandate_max_days.
     bindR (read_int (get_or e ''HOC_DB_POOL_SIZE'' ''8'')) (\<lambda>db_pool_size.
     Inr \<lparr>st_postgres_dsn = postgres_dsn, st_openfga_url = openfga_url, st_openfga_store_id = openfga_store_id,
       st_openfga_model_id = get_some e ''HOC_OPENFGA_MODEL_ID'', st_oidc_issuer = oidc_issuer,
       st_oidc_audience = get_or e ''HOC_OIDC_AUDIENCE'' ''headofcontext'', st_oidc_client_id = oidc_client_id,
       st_oidc_client_secret = oidc_client_secret,
       st_oidc_subject_claim = get_or e ''HOC_OIDC_SUBJECT_CLAIM'' ''preferred_username'',
       st_oidc_internal_url = get_some e ''HOC_OIDC_INTERNAL_URL'',
       st_identity_provider = get_or e ''HOC_IDENTITY_PROVIDER'' ''keycloak'',
       st_oidc_groups_claim = get_or e ''HOC_OIDC_GROUPS_CLAIM'' ''groups'',
       st_oidc_agent_claim = get_or e ''HOC_OIDC_AGENT_CLAIM'' ''clientId'',
       st_oidc_agent_id_claim = get_or e ''HOC_OIDC_AGENT_ID_CLAIM'' ''clientId'',
       st_root_key_hex = get_some e ''HOC_ROOT_KEY_HEX'', st_root_key_id = root_key_id, st_root_public_keys = root_public_keys,
       st_rate_limit_per_minute = rate_limit_per_minute, st_token_ttl = token_ttl, st_approval_ttl = approval_ttl,
       st_approval_tools = filter (\<lambda>p. strip p \<noteq> []) (split_on (CHR '','') (get_or e ''HOC_APPROVAL_TOOLS'' [])),
       st_memory_backend = get_or e ''HOC_MEMORY_BACKEND'' ''inmemory'',
       st_memory_namespace = get_or e ''HOC_MEMORY_NAMESPACE'' ''hoc'',
       st_mem0_config = get_some e ''HOC_MEM0_CONFIG'', st_memory_embedder = get_some e ''HOC_MEMORY_EMBEDDER'',
       st_zep_api_key = get_some e ''HOC_ZEP_API_KEY'', st_zep_base_url = get_some e ''HOC_ZEP_BASE_URL'',
       st_connectors_required = flag e ''HOC_CONNECTORS_REQUIRED'' ''true'',
       st_connector_max_staleness = connector_max_staleness, st_otel_enabled = flag e ''HOC_OTEL_ENABLED'' ''false'',
       st_otel_endpoint = otel_endpoint e,
       st_allow_ephemeral_root_key = flag e ''HOC_ALLOW_EPHEMERAL_ROOT_KEY'' ''false'',
       st_service_name = get_or e ''HOC_SERVICE_NAME'' ''headofcontext'',
       st_approval_channels = filter (\<lambda>p. p \<noteq> []) (map strip (split_on (CHR '','') (get_or e ''HOC_APPROVAL_CHANNELS'' []))),
       st_allow_self_approval = flag e ''HOC_ALLOW_SELF_APPROVAL'' ''false'', st_mandate_max_days = mandate_max_days,
       st_db_auto_migrate = flag e ''HOC_DB_AUTO_MIGRATE'' ''true'', st_db_pool_size = db_pool_size,
       st_log_level = get_or e ''HOC_LOG_LEVEL'' ''INFO'', st_log_format = get_or e ''HOC_LOG_FORMAT'' ''text'',
       st_env = plugin_env e\<rparr>))))))))))))))"

text \<open>The fields \<open>OidcConfig\<close> takes from the settings; the others keep the defaults of its class.\<close>

definition settings_oidc_config :: "settings \<Rightarrow> oidc_config" where
  "settings_oidc_config s =
     \<lparr>oc_issuer = st_oidc_issuer s, oc_audience = st_oidc_audience s, oc_client_id = st_oidc_client_id s,
      oc_client_secret = st_oidc_client_secret s, oc_subject_claim = st_oidc_subject_claim s,
      oc_groups_claim = st_oidc_groups_claim s, oc_internal_base_url = st_oidc_internal_url s,
      oc_algorithms = [''RS256'', ''ES256'', ''PS256''], oc_jwks_ttl = seconds 3600, oc_jwks_min_refresh = seconds 30\<rparr>"

section \<open>Plugins\<close>

definition GROUPS :: "(string \<times> string) list" where
  "GROUPS = [(''approval_channels'', ''headofcontext.approval_channels''), (''source_connectors'', ''headofcontext.source_connectors''),
     (''identity_providers'', ''headofcontext.identity_providers''), (''memory_adapters'', ''headofcontext.memory_adapters'')]"

text \<open>An entry point has a name and loads its object or raises.\<close>

type_synonym 'f entry_point = "string \<times> (exn + 'f)"

fun discover_plugins :: "'f entry_point list \<Rightarrow> (string \<times> 'f) list \<Rightarrow> exn + (string \<times> 'f) list" where
  "discover_plugins [] found = Inr found"
| "discover_plugins ((name, obj) # eps) found = (case obj of
     Inl e \<Rightarrow> Inl (hoc PluginError) | Inr f \<Rightarrow> discover_plugins eps (AList.update name f found))"

definition resolve_factory ::
    "(string \<Rightarrow> 'f entry_point list) \<Rightarrow> string \<Rightarrow> (string \<times> 'f) list \<Rightarrow> (string \<times> 'f) list option \<Rightarrow> string \<Rightarrow> exn + 'f option" where
  "resolve_factory installed name builtins plugins group_key = (case map_of builtins name of
     Some f \<Rightarrow> Inr (Some f)
   | None \<Rightarrow> bindR (case plugins of None \<Rightarrow>
         (case map_of GROUPS group_key of None \<Rightarrow> Inl (Other ''KeyError'') | Some grp \<Rightarrow> discover_plugins (installed grp) [])
       | Some ps \<Rightarrow> Inr ps)
       (\<lambda>found. Inr (map_of found name)))"


section \<open>What a plugin sees of the environment\<close>

lemma from_env_fields:
  assumes "from_env e require = Inr s"
  shows "st_env s = plugin_env e \<and> public_keys (get_or e ''HOC_ROOT_PUBLIC_KEYS'' []) = Inr (st_root_public_keys s) \<and>
    st_root_key_hex s = get_some e ''HOC_ROOT_KEY_HEX'' \<and>
    st_allow_ephemeral_root_key s = flag e ''HOC_ALLOW_EPHEMERAL_ROOT_KEY'' ''false'' \<and>
    st_allow_self_approval s = flag e ''HOC_ALLOW_SELF_APPROVAL'' ''false'' \<and>
    st_connectors_required s = flag e ''HOC_CONNECTORS_REQUIRED'' ''true''"
  by (insert assms [unfolded from_env_def bindR_Inr], elim exE conjE, drule sum.inject(2) [THEN iffD1], hypsubst, intro conjI)
    (simp_all only: settings.select_convs)

lemmas from_env_Inr = from_env_fields [THEN conjunct1] from_env_fields [THEN conjunct2, THEN conjunct1]

text \<open>
  C34. The environment that plugins are fed holds no secret of the core: what \<open>Settings.env\<close> holds are variables of the environment
  under the program's two prefixes, and neither the signing key, the client secret, the database address nor the Zep key is among
  them. This is the environment of channels and memory adapters; an identity plugin is called with the settings themselves.
\<close>

theorem plugins_see_no_secret:
  assumes "from_env e require = Inr s" "(k, v) \<in> set (st_env s)"
  shows "(k, v) \<in> set e \<and> (startswith k ''HOC_'' \<or> startswith k ''OTEL_'') \<and>
    k \<notin> {''HOC_ROOT_KEY_HEX'', ''HOC_OIDC_CLIENT_SECRET'', ''HOC_POSTGRES_DSN'', ''HOC_ZEP_API_KEY''}"
  using assms(2) unfolding from_env_Inr(1) [OF assms(1)]
  by (auto simp: plugin_env_def PLUGIN_ENV_PREFIXES_def CORE_SECRETS_def)

text \<open>
  What plugins see does not depend on the secrets: setting or changing one, or any variable outside the two
  prefixes, leaves it as it was.
\<close>

theorem plugin_env_independent:
  assumes "k \<in> set CORE_SECRETS \<or> \<not> list_ex (startswith k) PLUGIN_ENV_PREFIXES"
  shows "plugin_env (AList.update k v e) = plugin_env e"
  using assms by (induction e) (auto simp: plugin_env_def)

section \<open>Settings that stop the service\<close>

text \<open>
  A required setting that is missing or empty stops the service with a configuration error, whatever else the
  environment holds.
\<close>

theorem missing_setting_refused:
  assumes "k \<in> REQUIRE_SERVICE" "k \<in> require" "get_or e k [] = []"
  shows "from_env e require = Inl (hoc ConfigurationError)"
  using assms
  by (auto simp: REQUIRE_SERVICE_def REQUIRE_ENGINE_def REQUIRE_DB_def from_env_def need_def Let_def)

lemma read_defaults:
  "read_int ''1'' = Inr 1" "read_int ''600'' = Inr 600" "read_int ''90'' = Inr 90" "read_int ''8'' = Inr 8"
  "public_keys [] = Inr []"
  by code_simp+

lemma one_hour: "timedelta_minutes (Finite 60) = Inr (seconds 3600)"
  by (simp add: timedelta_minutes_def round_half_even_def DAY_def seconds_def Let_def)

lemma flag_defaults: "map_of e k = None \<Longrightarrow> flag e k ''true'' \<and> \<not> flag e k ''false''"
  by (simp add: flag_def get_or_def lower_char_def Let_def)

text \<open>
  Left to its defaults the service is strict: with the required settings alone it starts with four-eyes approval, a
  persistent signing key, fresh connectors, and one hour for tokens and approvals.
\<close>

theorem defaults_are_strict:
  assumes required: "\<And>k. k \<in> REQUIRE_SERVICE \<Longrightarrow> get_or e k [] \<noteq> []"
    and nothing_else: "\<And>k. k \<notin> REQUIRE_SERVICE \<Longrightarrow> map_of e k = None"
  shows "\<exists>s. from_env e REQUIRE_SERVICE = Inr s \<and> \<not> st_allow_self_approval s \<and> \<not> st_allow_ephemeral_root_key s \<and>
    st_connectors_required s \<and> st_db_auto_migrate s \<and> st_token_ttl s = seconds 3600 \<and> st_approval_ttl s = seconds 3600 \<and>
    st_identity_provider s = ''keycloak'' \<and> st_root_key_hex s = None \<and> st_mandate_max_days s = 90"
proof -
  have need: "need e REQUIRE_SERVICE k = Inr (get_or e k [])" if "k \<in> REQUIRE_SERVICE" for k
    using required [OF that] by (simp add: need_def)
  have req: "''HOC_POSTGRES_DSN'' \<in> REQUIRE_SERVICE" "''HOC_OPENFGA_URL'' \<in> REQUIRE_SERVICE"
    "''HOC_OPENFGA_STORE_ID'' \<in> REQUIRE_SERVICE" "''HOC_OIDC_ISSUER'' \<in> REQUIRE_SERVICE"
    "''HOC_OIDC_CLIENT_ID'' \<in> REQUIRE_SERVICE" "''HOC_OIDC_CLIENT_SECRET'' \<in> REQUIRE_SERVICE"
    by (simp_all add: REQUIRE_SERVICE_def REQUIRE_ENGINE_def REQUIRE_DB_def)
  have none: "map_of e k = None" if "k \<notin> REQUIRE_SERVICE" for k using nothing_else that .
  have absent: "''HOC_ROOT_KEY_ID'' \<notin> REQUIRE_SERVICE" "''HOC_ROOT_PUBLIC_KEYS'' \<notin> REQUIRE_SERVICE"
    "''HOC_RATE_LIMIT_PER_MINUTE'' \<notin> REQUIRE_SERVICE" "''HOC_TOKEN_TTL_MINUTES'' \<notin> REQUIRE_SERVICE"
    "''HOC_APPROVAL_TTL_MINUTES'' \<notin> REQUIRE_SERVICE" "''HOC_CONNECTOR_MAX_STALENESS_MINUTES'' \<notin> REQUIRE_SERVICE"
    "''HOC_MANDATE_MAX_DAYS'' \<notin> REQUIRE_SERVICE" "''HOC_DB_POOL_SIZE'' \<notin> REQUIRE_SERVICE"
    "''HOC_ALLOW_SELF_APPROVAL'' \<notin> REQUIRE_SERVICE" "''HOC_ALLOW_EPHEMERAL_ROOT_KEY'' \<notin> REQUIRE_SERVICE"
    "''HOC_CONNECTORS_REQUIRED'' \<notin> REQUIRE_SERVICE" "''HOC_DB_AUTO_MIGRATE'' \<notin> REQUIRE_SERVICE"
    "''HOC_IDENTITY_PROVIDER'' \<notin> REQUIRE_SERVICE" "''HOC_ROOT_KEY_HEX'' \<notin> REQUIRE_SERVICE"
    by (simp_all add: REQUIRE_SERVICE_def REQUIRE_ENGINE_def REQUIRE_DB_def)
  have dflt: "get_or e k d = d" "get_some e k = None" "flag e k ''true''" "\<not> flag e k ''false''"
      "minutes_of e k 60 = Inr (seconds 3600)" if "k \<notin> REQUIRE_SERVICE" for k d
    using none [OF that] flag_defaults [of e k] one_hour by (simp_all add: get_or_def get_some_def minutes_of_def)
  show ?thesis
    unfolding from_env_def need [OF req(1)] need [OF req(2)] need [OF req(3)] need [OF req(4)] need [OF req(5)] need [OF req(6)]
      bindR_simps dflt(1) [OF absent(1)] dflt(1) [OF absent(2)] dflt(1) [OF absent(3)] dflt(5) [OF absent(4)] dflt(5) [OF absent(5)]
      dflt(5) [OF absent(6)] dflt(1) [OF absent(7)] dflt(1) [OF absent(8)] read_defaults
    by (intro exI conjI, rule refl, unfold settings.select_convs)
      (fact refl dflt(1) [OF absent(13)] dflt(2) [OF absent(14)] dflt(3) [OF absent(11)] dflt(3) [OF absent(12)]
        dflt(4) [OF absent(9)] dflt(4) [OF absent(10)])+
qed

section \<open>The list of verification keys\<close>

text \<open>The text an operator writes for a list of keys.\<close>

fun show_public_keys :: "(int \<times> string) list \<Rightarrow> string" where
  "show_public_keys [] = []"
| "show_public_keys [(i, h)] = show_int i @ ''='' @ h"
| "show_public_keys ((i, h) # ks) = show_int i @ ''='' @ h @ '','' @ show_public_keys ks"


definition is_hex :: "char \<Rightarrow> bool" where
  "is_hex c = (is_decimal c \<or> c \<in> set ''abcdefABCDEF'')"

definition key_entry_ok :: "int \<times> string \<Rightarrow> bool" where
  "key_entry_ok k = (0 \<le> fst k \<and> length (show_int (fst k)) \<le> MAX_STR_DIGITS \<and> snd k \<noteq> [] \<and> list_all is_hex (snd k))"

lemma digits_value_snoc: "digits_value (ds @ [d]) = 10 * digits_value ds + decimal_value d"
  by (simp add: digits_value_def)

lemma digit_char_decimal: "d < 10 \<Longrightarrow> is_decimal (digit_char d) \<and> decimal_value (digit_char d) = int d"
  by (simp add: is_decimal_def decimal_value_def digit_char_def)

lemma nat_text_digits: "digits_value (show_nat n) = int n \<and> list_all is_decimal (show_nat n) \<and> show_nat n \<noteq> []"
proof (induction n rule: show_nat.induct)
  case (1 n)
  show ?case
  proof (cases "n < 10")
    case True
    then show ?thesis using digit_char_decimal [of n] by (simp add: show_nat.simps [of n] digits_value_def)
  next
    case False
    have "int n = 10 * int (n div 10) + int (n mod 10)"
      by (metis of_nat_add of_nat_mult of_nat_numeral mult_div_mod_eq)
    then show ?thesis using 1 [OF False] False digit_char_decimal [of "n mod 10"]
      by (simp add: show_nat.simps [of n] digits_value_snoc del: of_nat_mod)
  qed
qed

lemma us_digits_all: "list_all is_decimal ds \<Longrightarrow> ds \<noteq> [] \<or> b \<Longrightarrow> us_digits b ds = Some ds"
  by (induction ds arbitrary: b) auto

lemma hex_plain: "is_hex c \<Longrightarrow> c \<notin> set [CHR '' '', CHR 0x09, CHR 0x0A, CHR 0x0B, CHR 0x0C, CHR 0x0D, CHR 0x1C, CHR 0x1D,
    CHR 0x1E, CHR 0x1F, CHR 0x85, CHR 0xA0, CHR '','', CHR ''='', CHR ''+'', CHR ''-'']"
  by (auto simp: is_hex_def is_decimal_def)

lemma hex_sep: "is_hex c \<Longrightarrow> c \<noteq> CHR '','' \<and> c \<noteq> CHR ''=''"
  using hex_plain [of c] by simp

lemma decimal_plain: "is_decimal c \<Longrightarrow> c \<notin> set [CHR '' '', CHR 0x09, CHR 0x0A, CHR 0x0B, CHR 0x0C, CHR 0x0D, CHR 0x1C, CHR 0x1D,
    CHR 0x1E, CHR 0x1F, CHR 0x85, CHR 0xA0, CHR '','', CHR ''='', CHR ''+'', CHR ''-'']"
  using hex_plain [of c] by (simp add: is_hex_def)

lemma dropWhile_hd: "s \<noteq> [] \<Longrightarrow> \<not> P (hd s) \<Longrightarrow> dropWhile P s = s"
  by (cases s) simp_all

lemma strip_plain: "s \<noteq> [] \<Longrightarrow> is_hex (hd s) \<Longrightarrow> is_hex (List.last s) \<Longrightarrow> strip s = s"
  unfolding strip_def Let_def
  by (subst (2) dropWhile_hd; (subst dropWhile_hd)?) (auto dest: hex_plain simp: hd_rev)

lemma partition_char_at: "c \<notin> set a \<Longrightarrow> partition_char c (a @ c # b) = (a, True, b)"
  by (induction a) auto

lemma partition_char_none: "c \<notin> set a \<Longrightarrow> partition_char c a = (a, False, [])"
  by (induction a) auto

lemma split_on_at: "c \<notin> set a \<Longrightarrow> split_on c (a @ c # b) = a # split_on c b"
  by (subst split_on.simps) (simp add: partition_char_at)

lemma split_on_none: "c \<notin> set a \<Longrightarrow> split_on c a = [a]"
  by (subst split_on.simps) (simp add: partition_char_none)

definition key_entry :: "int \<times> string \<Rightarrow> string" where
  "key_entry k = show_int (fst k) @ ''='' @ snd k"

lemma show_int_digits:
  assumes "0 \<le> i"
  shows "list_all is_decimal (show_int i)" "show_int i \<noteq> []" "digits_value (show_int i) = i"
  using nat_text_digits [of "nat i"] assms by (simp_all add: show_int_def)

lemma read_show_int:
  assumes i: "0 \<le> i" and size: "length (show_int i) \<le> MAX_STR_DIGITS"
  shows "read_int (show_int i) = Inr i"
proof -
  note ds = show_int_digits [OF i]
  have hd: "is_decimal (hd (show_int i))" and lst: "is_decimal (List.last (show_int i))"
    using ds(1,2) by (simp_all add: list_all_iff)
  have "num_strip (show_int i) = show_int i" unfolding num_strip_def
    by (subst (2) dropWhile_hd; (subst dropWhile_hd)?)
      (use ds hd lst in \<open>auto dest: decimal_plain simp: hd_rev num_blank_def\<close>)
  moreover have "split_sign (show_int i) = (1, show_int i)"
    using ds(2) hd by (cases "show_int i") (auto simp: split_sign_def dest: decimal_plain)
  ultimately show ?thesis using ds size us_digits_all [of "show_int i" False] by (simp add: read_int_def)
qed

lemma key_entry_plain:
  assumes "key_entry_ok k"
  shows "CHR '','' \<notin> set (key_entry k)" "strip (key_entry k) = key_entry k" "key_entry k \<noteq> []"
    "partition_char (CHR ''='') (key_entry k) = (show_int (fst k), True, snd k)"
    "isdigit_text (strip (show_int (fst k)))" "strip (snd k) = snd k"
proof -
  note ds = show_int_digits [of "fst k"]
  have k: "0 \<le> fst k" "snd k \<noteq> []" "list_all is_hex (snd k)" using assms by (simp_all add: key_entry_ok_def)
  have dec: "is_hex c" if "c \<in> set (show_int (fst k))" for c using that ds(1) k(1) by (auto simp: list_all_iff is_hex_def)
  have hx: "is_hex c" if "c \<in> set (snd k)" for c using that k(3) by (auto simp: list_all_iff)
  show "CHR '','' \<notin> set (key_entry k)" by (auto simp: key_entry_def dest: dec hx hex_sep)
  show "key_entry k \<noteq> []" by (simp add: key_entry_def)
  show "strip (key_entry k) = key_entry k"
    by (rule strip_plain) (use k ds(2) dec hx in \<open>auto simp: key_entry_def\<close>)
  show "partition_char (CHR ''='') (key_entry k) = (show_int (fst k), True, snd k)"
    unfolding key_entry_def append.simps by (rule partition_char_at) (auto dest: dec hex_sep)
  show "strip (snd k) = snd k" using k hx by (intro strip_plain) auto
  have "strip (show_int (fst k)) = show_int (fst k)" using ds(2) k(1) dec by (intro strip_plain) auto
  then show "isdigit_text (strip (show_int (fst k)))" using ds(1,2) k(1) by (auto simp: isdigit_text_def list_all_iff)
qed

lemma public_keys_loop_entries:
  "list_all key_entry_ok ks \<Longrightarrow> public_keys_loop (map key_entry ks) acc = Inr (acc @ ks)"
proof (induction ks arbitrary: acc)
  case (Cons k ks)
  then have k: "key_entry_ok k" by simp
  have "read_int (show_int (fst k)) = Inr (fst k)" using k by (intro read_show_int) (simp_all add: key_entry_ok_def)
  then show ?case using Cons key_entry_plain [OF k] k by (simp add: Let_def key_entry_ok_def)
qed simp

lemma split_public_keys: "list_all key_entry_ok ks \<Longrightarrow> ks \<noteq> [] \<Longrightarrow> split_on (CHR '','') (show_public_keys ks) = map key_entry ks"
proof (induction ks rule: show_public_keys.induct)
  case (2 i h)
  then show ?case using key_entry_plain(1) [of "(i, h)"] by (simp add: split_on_none key_entry_def)
next
  case (3 i h k ks)
  then have "CHR '','' \<notin> set (key_entry (i, h))" by (intro key_entry_plain(1)) simp
  from split_on_at [OF this] 3 show ?case by (simp add: key_entry_def)
qed simp

text \<open>
  The list of verification keys is read as it is written: any list of non-negative key ids with hexadecimal keys,
  printed as \<open>id=hex,id=hex\<close>, comes back unchanged and in order.
\<close>

theorem public_keys_round_trip:
  assumes "list_all key_entry_ok ks"
  shows "public_keys (show_public_keys ks) = Inr ks"
proof (cases "ks = []")
  case True
  then show ?thesis by (simp add: read_defaults)
next
  case False
  then show ?thesis using assms public_keys_loop_entries [OF assms] by (simp add: public_keys_def split_public_keys)
qed

text \<open>A superscript passes \<open>isdigit\<close> and not \<open>int\<close>: the entry raises, as a \<open>ValueError\<close> instead of the configuration error.\<close>

lemma superscript_key_id: "public_keys [CHR 0xB2, CHR ''='', CHR ''a''] = Inl (Other ''ValueError'')"
  by code_simp

section \<open>Plugins do not take the place of built-ins\<close>

text \<open>
  The factory for a built-in name is the built-in, whatever is installed or passed, and no entry point is loaded to find it.
\<close>

theorem builtin_not_shadowed:
  assumes "map_of builtins name = Some f"
  shows "resolve_factory installed name builtins plugins group_key = Inr (Some f)"
  using assms by (simp add: resolve_factory_def)

text \<open>
  A plugin that does not load is never taken for one that is not there: discovery returns only when every entry point of
  the group has loaded, and then it knows exactly their names, the last of a name winning.
\<close>

theorem discovery_is_loud:
  assumes "discover_plugins eps [] = Inr found"
  shows "(\<forall>ep\<in>set eps. \<exists>f. snd ep = Inr f) \<and>
    map_of found n = map_of (rev (map (\<lambda>ep. (fst ep, projr (snd ep))) eps)) n"
proof -
  have "discover_plugins eps acc = Inr found \<Longrightarrow> (\<forall>ep\<in>set eps. \<exists>f. snd ep = Inr f) \<and>
    map_of found = map_of acc ++ map_of (rev (map (\<lambda>ep. (fst ep, projr (snd ep))) eps))" for acc
  proof (induction eps acc rule: discover_plugins.induct)
    case (2 name obj eps acc)
    then obtain f where f: "obj = Inr f" by (cases obj) auto
    then have run: "discover_plugins eps (AList.update name f acc) = Inr found" using 2(2) by simp
    from 2(1) [OF f run] have "(\<forall>ep\<in>set eps. \<exists>f. snd ep = Inr f) \<and> map_of found = (map_of acc)(name \<mapsto> f) ++
        map_of (rev (map (\<lambda>ep. (fst ep, projr (snd ep))) eps))" unfolding map_of_update .
    then show ?case using f by simp
  qed simp
  from this [of "[]"] assms show ?thesis by simp
qed

text \<open>An entry point that raises is a plugin error.\<close>

lemma discovery_error: "discover_plugins (ep # eps) acc = Inl e \<Longrightarrow> snd ep = Inl e' \<Longrightarrow> e = hoc PluginError"
  by (cases ep) auto

section \<open>Witnesses\<close>

definition sample_env :: environ where
  "sample_env = [(''PATH'', ''/bin''), (''HOC_POSTGRES_DSN'', ''pg''), (''HOC_OPENFGA_URL'', ''fga''), (''HOC_OPENFGA_STORE_ID'', ''s1''),
     (''HOC_OIDC_ISSUER'', ''idp''), (''HOC_OIDC_CLIENT_ID'', ''hoc''), (''HOC_OIDC_CLIENT_SECRET'', ''pw'')]"

definition sample_settings :: settings where
  "sample_settings = \<lparr>st_postgres_dsn = ''pg'', st_openfga_url = ''fga'', st_openfga_store_id = ''s1'', st_openfga_model_id = None,
     st_oidc_issuer = ''idp'', st_oidc_audience = ''headofcontext'', st_oidc_client_id = ''hoc'', st_oidc_client_secret = ''pw'',
     st_oidc_subject_claim = ''preferred_username'', st_oidc_internal_url = None, st_identity_provider = ''keycloak'',
     st_oidc_groups_claim = ''groups'', st_oidc_agent_claim = ''clientId'', st_oidc_agent_id_claim = ''clientId'',
     st_root_key_hex = None, st_root_key_id = 1, st_root_public_keys = [], st_rate_limit_per_minute = 600,
     st_token_ttl = seconds 3600, st_approval_ttl = seconds 3600, st_approval_tools = [], st_memory_backend = ''inmemory'',
     st_memory_namespace = ''hoc'', st_mem0_config = None, st_memory_embedder = None, st_zep_api_key = None, st_zep_base_url = None,
     st_connectors_required = True, st_connector_max_staleness = seconds 3600, st_otel_enabled = False, st_otel_endpoint = None,
     st_allow_ephemeral_root_key = False, st_service_name = ''headofcontext'', st_approval_channels = [],
     st_allow_self_approval = False, st_mandate_max_days = 90, st_db_auto_migrate = True, st_db_pool_size = 8,
     st_log_level = ''INFO'', st_log_format = ''text'',
     st_env = [(''HOC_OPENFGA_URL'', ''fga''), (''HOC_OPENFGA_STORE_ID'', ''s1''), (''HOC_OIDC_ISSUER'', ''idp''),
       (''HOC_OIDC_CLIENT_ID'', ''hoc'')]\<rparr>"

lemma sample_env_lists: "split_on (CHR '','') [] = [[]]" "strip [] = []"
  by code_simp+

lemma sample_env_run: "from_env sample_env REQUIRE_SERVICE = Inr sample_settings"
  by (simp add: from_env_def sample_env_def need_def get_or_def get_some_def minutes_of_def read_defaults one_hour flag_def
      lower_char_def Let_def otel_endpoint_def sample_env_lists plugin_env_def PLUGIN_ENV_PREFIXES_def CORE_SECRETS_def startswith_def
      sample_settings_def)

lemma plugins_see_no_secret_witness:
  "(''HOC_OPENFGA_URL'', ''fga'') \<in> set (st_env sample_settings) \<and> ''HOC_OPENFGA_URL'' \<noteq> ''HOC_POSTGRES_DSN''"
proof
  show "(''HOC_OPENFGA_URL'', ''fga'') \<in> set (st_env sample_settings)" by (simp add: sample_settings_def)
  from plugins_see_no_secret [OF sample_env_run this] show "''HOC_OPENFGA_URL'' \<noteq> ''HOC_POSTGRES_DSN''" by blast
qed

lemma plugin_env_independent_witness:
  "plugin_env (AList.update ''HOC_POSTGRES_DSN'' ''other'' sample_env) = plugin_env sample_env"
  by (rule plugin_env_independent) (simp add: CORE_SECRETS_def)

lemma missing_setting_refused_witness: "from_env [(''HOC_OIDC_ISSUER'', ''idp'')] REQUIRE_SERVICE = Inl (hoc ConfigurationError)"
  by (rule missing_setting_refused [where k = "''HOC_POSTGRES_DSN''"])
    (simp_all add: REQUIRE_SERVICE_def REQUIRE_ENGINE_def REQUIRE_DB_def get_or_def)

lemma defaults_are_strict_witness: "\<exists>s. from_env (tl sample_env) REQUIRE_SERVICE = Inr s \<and> \<not> st_allow_self_approval s"
proof -
  have "get_or (tl sample_env) k [] \<noteq> []" if "k \<in> REQUIRE_SERVICE" for k
    using that by (auto simp: REQUIRE_SERVICE_def REQUIRE_ENGINE_def REQUIRE_DB_def sample_env_def get_or_def)
  moreover have "map_of (tl sample_env) k = None" if "k \<notin> REQUIRE_SERVICE" for k
    using that by (auto simp: REQUIRE_SERVICE_def REQUIRE_ENGINE_def REQUIRE_DB_def sample_env_def)
  ultimately show ?thesis using defaults_are_strict [of "tl sample_env"] by blast
qed

lemma public_keys_round_trip_witness: "public_keys ''2=ab,13=0F'' = Inr [(2, ''ab''), (13, ''0F'')]"
proof -
  have ok: "list_all key_entry_ok [(2, ''ab''), (13, ''0F'')]" "show_public_keys [(2, ''ab''), (13, ''0F'')] = ''2=ab,13=0F''"
    by code_simp+
  from public_keys_round_trip [OF ok(1)] show ?thesis by (simp only: ok(2))
qed

lemma builtin_not_shadowed_witness:
  "resolve_factory (\<lambda>_. []) ''keycloak'' [(''keycloak'', 1 :: nat)] (Some [(''keycloak'', 2)]) ''identity_providers'' = Inr (Some 1)"
  by (rule builtin_not_shadowed) simp

lemma discovery_is_loud_witness: "\<exists>found. discover_plugins [(''a'', Inr (1 :: nat)), (''a'', Inr 2)] [] = Inr found \<and> map_of found ''a'' = Some 2"
  using discovery_is_loud [of "[(''a'', Inr 1), (''a'', Inr (2::nat))]" "[(''a'', 2)]" "''a''"] by simp

end
