(* ===== verification/Memory_Backends.thy ===== *)
theory Memory_Backends
  imports Memory_Service Cfg_Settings
begin

text \<open>
  The adapters for the memory tools of others (\<open>memory/mem0.py\<close>, \<open>memory/zep.py\<close>).

  The clients are arguments: \<open>mem0_client\<close> and \<open>zep_client\<close> are the calls the adapters make, with the value each answers. What
  mem0 answers is JSON. Of Zep's objects the adapter reads attributes with \<open>getattr(x, name, None)\<close>: a record has
  the value of each, \<open>JNull\<close> when it is not there. A score is the exact rational of its literal, and none when it is not finite.

  The lemmas show what a search reports, and that a memory recalled through any adapter is a search hit all of whose
  references the ledger knows. The last section shows that one reference without a source is enough for a Zep fact
  to be denied only as long as no other reference has one.
\<close>

text \<open>\<open>xs[:n]\<close>\<close>

definition upto_index :: "int \<Rightarrow> 'a list \<Rightarrow> 'a list" where
  "upto_index n xs = (if 0 \<le> n then take (nat n) xs else take (length xs - nat (- n)) xs)"

text \<open>\<open>float(score) if isinstance(score, int | float) else None\<close>; a \<open>bool\<close> is an \<open>int\<close>.\<close>

definition score_of :: "json \<Rightarrow> rat option" where
  "score_of v = (case v of JInt n \<Rightarrow> Some (of_int n) | JBool b \<Rightarrow> Some (if b then 1 else 0)
     | JFloat s \<Rightarrow> (case read_float s of Inr (Finite x) \<Rightarrow> Some x | _ \<Rightarrow> None) | _ \<Rightarrow> None)"

section \<open>Mem0\<close>

record 'w mem0_client =
  m0_add :: "json \<Rightarrow> string \<Rightarrow> json \<Rightarrow> bool \<Rightarrow> ('w, exn, json) eff"
  m0_search :: "string \<Rightarrow> string \<Rightarrow> int \<Rightarrow> ('w, exn, json) eff"
  m0_delete :: "string \<Rightarrow> ('w, exn, json) eff"

definition dict_rows :: "json list \<Rightarrow> (string \<times> json) list list" where
  "dict_rows vs = List.map_filter (\<lambda>v. case v of JObj kvs \<Rightarrow> Some kvs | _ \<Rightarrow> None) vs"

definition mem0_results :: "json \<Rightarrow> exn + (string \<times> json) list list" where
  "mem0_results response = (case response of
     JObj kvs \<Rightarrow> bindR (json_iter (case map_of kvs ''results'' of Some v \<Rightarrow> v | None \<Rightarrow> JArr [])) (\<lambda>vs. Inr (dict_rows vs))
   | JArr vs \<Rightarrow> Inr (dict_rows vs)
   | _ \<Rightarrow> Inr [])"

definition mem0_store :: "pyconv \<Rightarrow> 'w mem0_client \<Rightarrow> string \<Rightarrow> string \<Rightarrow> string \<Rightarrow> ('w, exn, string) eff" where
  "mem0_store pc cl memory_id content namespace =
     bindE (m0_add cl (JArr [JObj [(''role'', JStr ''user''), (''content'', JStr content)]]) namespace
       (JObj [(''hoc_memory_id'', JStr memory_id)]) False) (\<lambda>response.
     bindE (liftE (mem0_results response)) (\<lambda>results. case results of
       [] \<Rightarrow> raiseE (Other ''RuntimeError'')
     | row # _ \<Rightarrow> (case map_of row ''id'' of None \<Rightarrow> raiseE (Other ''RuntimeError'') | Some v \<Rightarrow> retE (conv_str pc v))))"

definition mem0_candidate :: "(string \<times> json) list \<Rightarrow> candidate option" where
  "mem0_candidate row = (case (map_of row ''id'', map_of row ''memory'') of
     (Some (JStr ref), Some (JStr content)) \<Rightarrow>
       Some \<lparr>cd_content = content, cd_backend_refs = [ref], cd_score = score_of (dict_get row ''score'')\<rparr>
   | _ \<Rightarrow> None)"

definition mem0_search :: "'w mem0_client \<Rightarrow> string \<Rightarrow> string \<Rightarrow> int \<Rightarrow> ('w, exn, candidate list) eff" where
  "mem0_search cl query namespace limit =
     bindE (m0_search cl query namespace limit) (\<lambda>response.
     bindE (liftE (mem0_results response)) (\<lambda>rows. retE (upto_index limit (List.map_filter mem0_candidate rows))))"

definition mem0_delete :: "'w mem0_client \<Rightarrow> string \<Rightarrow> string \<Rightarrow> ('w, exn, unit) eff" where
  "mem0_delete cl ref namespace = bindE (m0_delete cl ref) (\<lambda>_. retE ())"

definition mem0_adapter :: "pyconv \<Rightarrow> 'w mem0_client \<Rightarrow> 'w memory_adapter" where
  "mem0_adapter pc cl = \<lparr>ma_name = ''mem0'', ma_store = mem0_store pc cl, ma_search = mem0_search cl, ma_delete = mem0_delete cl\<rparr>"

section \<open>Zep\<close>

record zep_episode =
  zn_uuid_attr :: json
  zn_uuid :: json

record zep_edge =
  ze_fact :: json
  ze_episodes :: json
  ze_score :: json

record 'w zep_client =
  zc_add :: "string \<Rightarrow> string \<Rightarrow> ('w, exn, zep_episode) eff"
  zc_search :: "string \<Rightarrow> string \<Rightarrow> int \<Rightarrow> ('w, exn, zep_edge list) eff"
  zc_delete_episode :: "string \<Rightarrow> ('w, exn, unit) eff"

definition zep_store :: "'w zep_client \<Rightarrow> string \<Rightarrow> string \<Rightarrow> string \<Rightarrow> ('w, exn, string) eff" where
  "zep_store cl memory_id content namespace =
     bindE (zc_add cl namespace content) (\<lambda>episode.
     case (if json_falsy (zn_uuid_attr episode) then zn_uuid episode else zn_uuid_attr episode) of
       JStr ref \<Rightarrow> if ref = [] then raiseE (Other ''RuntimeError'') else retE ref
     | _ \<Rightarrow> raiseE (Other ''RuntimeError''))"

definition zep_candidate :: "pyconv \<Rightarrow> zep_edge \<Rightarrow> exn + candidate option" where
  "zep_candidate pc edge =
     bindR (if json_falsy (ze_episodes edge) then Inr [] else json_iter (ze_episodes edge)) (\<lambda>eps.
     case ze_fact edge of
       JStr text_of \<Rightarrow> Inr (if eps = [] then None
         else Some \<lparr>cd_content = text_of, cd_backend_refs = map (conv_str pc) eps, cd_score = score_of (ze_score edge)\<rparr>)
     | _ \<Rightarrow> Inr None)"

fun zep_candidates :: "pyconv \<Rightarrow> zep_edge list \<Rightarrow> exn + candidate list" where
  "zep_candidates pc [] = Inr []"
| "zep_candidates pc (e # es) = bindR (zep_candidate pc e) (\<lambda>c. bindR (zep_candidates pc es) (\<lambda>cs.
     Inr (case c of None \<Rightarrow> cs | Some x \<Rightarrow> x # cs)))"

definition zep_search :: "pyconv \<Rightarrow> 'w zep_client \<Rightarrow> string \<Rightarrow> string \<Rightarrow> int \<Rightarrow> ('w, exn, candidate list) eff" where
  "zep_search pc cl query namespace limit =
     bindE (zc_search cl namespace query limit) (\<lambda>edges.
     bindE (liftE (zep_candidates pc edges)) (\<lambda>cs. retE (upto_index limit cs)))"

definition zep_delete :: "'w zep_client \<Rightarrow> string \<Rightarrow> string \<Rightarrow> ('w, exn, unit) eff" where
  "zep_delete cl ref namespace = zc_delete_episode cl ref"

definition zep_adapter :: "pyconv \<Rightarrow> 'w zep_client \<Rightarrow> 'w memory_adapter" where
  "zep_adapter pc cl = \<lparr>ma_name = ''zep'', ma_store = zep_store cl, ma_search = zep_search pc cl, ma_delete = zep_delete cl\<rparr>"

section \<open>What a search reports\<close>

lemma set_upto_index: "set (upto_index n xs) \<subseteq> set xs"
  by (auto simp: upto_index_def dest: in_set_takeD)

lemma length_upto_index: "0 \<le> n \<Longrightarrow> int (length (upto_index n xs)) \<le> n"
  by (simp add: upto_index_def)

text \<open>A candidate that is an edge of the answer with every episode behind it.\<close>

definition reports_edge :: "pyconv \<Rightarrow> zep_edge list \<Rightarrow> candidate \<Rightarrow> bool" where
  "reports_edge pc edges c \<longleftrightarrow> (\<exists>edge\<in>set edges. \<exists>eps. json_iter (ze_episodes edge) = Inr eps \<and> eps \<noteq> [] \<and>
     ze_fact edge = JStr (cd_content c) \<and> cd_backend_refs c = map (conv_str pc) eps)"

lemma zep_candidates_edges: "zep_candidates pc edges = Inr cs \<Longrightarrow> c \<in> set cs \<Longrightarrow> reports_edge pc edges c"
proof (induction edges arbitrary: cs)
  case (Cons e es)
  then obtain x xs where r: "zep_candidate pc e = Inr x" "zep_candidates pc es = Inr xs"
    and cs: "cs = (case x of None \<Rightarrow> xs | Some y \<Rightarrow> y # xs)" by (auto simp: bindR_Inr)
  show ?case
  proof (cases "c \<in> set xs")
    case True
    then show ?thesis using Cons.IH [OF r(2)] by (auto simp: reports_edge_def)
  next
    case False
    then have "x = Some c" using Cons.prems(2) cs by (auto split: option.splits)
    then have "\<exists>eps. json_iter (ze_episodes e) = Inr eps \<and> eps \<noteq> [] \<and> ze_fact e = JStr (cd_content c) \<and>
        cd_backend_refs c = map (conv_str pc) eps"
      using r(1) by (cases "ze_fact e") (auto simp: zep_candidate_def bindR_Inr split: if_splits)
    then show ?thesis by (auto simp: reports_edge_def)
  qed
qed simp

lemma zep_search_run:
  assumes "zep_search pc cl query ns limit w = (Inr cs, w')"
  shows "\<exists>edges. zc_search cl ns query limit w = (Inr edges, w') \<and> (\<forall>c\<in>set cs. reports_edge pc edges c)"
proof -
  obtain edges xs where "zc_search cl ns query limit w = (Inr edges, w')" "zep_candidates pc edges = Inr xs" "cs = upto_index limit xs"
    using assms by (auto simp: zep_search_def bindE_Inr liftE_def retE_def)
  then show ?thesis using zep_candidates_edges set_upto_index [of limit xs] by blast
qed

lemma mem0_candidate_Some:
  assumes "mem0_candidate row = Some c"
  shows "\<exists>ref. map_of row ''id'' = Some (JStr ref) \<and> map_of row ''memory'' = Some (JStr (cd_content c)) \<and> cd_backend_refs c = [ref]"
proof (cases "map_of row ''id''")
  case (Some i)
  with assms show ?thesis
  proof (cases "map_of row ''memory''")
    case (Some t)
    with \<open>map_of row ''id'' = Some i\<close> assms show ?thesis by (cases i; cases t) (simp_all add: mem0_candidate_def, metis candidate.select_convs(1,2))
  qed (simp add: mem0_candidate_def split: json.splits)
qed (use assms in \<open>simp add: mem0_candidate_def\<close>)

text \<open>
  A search of mem0 reports rows of its answer and nothing else: each candidate is a row with a text and an id of
  its own, reported as its one reference, and there are at most as many as asked for.
\<close>

theorem mem0_search_reports_rows:
  assumes "mem0_search cl query ns limit w = (Inr cs, w')" "0 \<le> limit"
  shows "\<exists>response rows. m0_search cl query ns limit w = (Inr response, w') \<and> mem0_results response = Inr rows \<and>
    int (length cs) \<le> limit \<and> (\<forall>c\<in>set cs. \<exists>row\<in>set rows. \<exists>ref. map_of row ''id'' = Some (JStr ref) \<and>
      map_of row ''memory'' = Some (JStr (cd_content c)) \<and> cd_backend_refs c = [ref])"
proof -
  obtain response rows where r: "m0_search cl query ns limit w = (Inr response, w')" "mem0_results response = Inr rows"
    and cs: "cs = upto_index limit (List.map_filter mem0_candidate rows)"
    using assms(1) by (auto simp: mem0_search_def bindE_Inr liftE_def retE_def)
  have "\<exists>row\<in>set rows. \<exists>ref. map_of row ''id'' = Some (JStr ref) \<and>
      map_of row ''memory'' = Some (JStr (cd_content c)) \<and> cd_backend_refs c = [ref]" if "c \<in> set cs" for c
  proof -
    have "c \<in> set (List.map_filter mem0_candidate rows)" by (rule set_upto_index [THEN subsetD, of _ limit]) (use that cs in simp)
    then obtain row where row: "row \<in> set rows" "mem0_candidate row = Some c" by (auto simp: List.map_filter_def)
    from mem0_candidate_Some [OF row(2)] row(1) show ?thesis by (rule bexI)
  qed
  moreover have "int (length cs) \<le> limit" using length_upto_index [OF assms(2)] cs by simp
  ultimately show ?thesis using r by (intro exI conjI ballI) assumption+
qed

section \<open>Recall through any adapter\<close>

lemma recall_vouched_any:
  fixes sv :: "('x, 'm) memory_world_scheme memory_service"
  assumes "mv_ledger sv = pg_ledger pc" "pg_ledger_good pc w" "frame w_ledger_rows sv permits"
    and search: "\<And>l. keeps w_ledger_rows (ma_search (mv_adapter sv) query (mv_namespace sv) l)"
    and run: "recall sv c query limit permits w = (Inr ms, w')"
  shows "ms = [] \<or> (\<exists>cands w1. ma_search (mv_adapter sv) query (mv_namespace sv) (max 1 (min limit 50)) w = (Inr cands, w1) \<and>
    list_all (\<lambda>m. \<exists>cand\<in>set cands. my_content m = cd_content cand \<and>
      vouched (\<lambda>ref r. pg_records pc w (mm_memory_id r) = Some r \<and> has_ref (ma_name (mv_adapter sv)) ref r) sv c permits cand m) ms)"
proof -
  let ?l = "max 1 (min limit MAX_LIMIT)" and ?ns = "mv_namespace sv" and ?V = "vouched (ledger_named w_ledger_rows sv w) sv c permits"
  obtain found w1 where hits: "ma_search (mv_adapter sv) query ?ns ?l w = (found, w1)"
      and rest: "(case found of Inl _ \<Rightarrow> bindE (deny_read sv c ''memory:*'' ''backend_unavailable'') (\<lambda>_. retE [])
        | Inr cands \<Rightarrow> recall_loop sv c permits ?l cands []) w1 = (Inr ms, w')"
    using run unfolding recall_def Let_def bindE_Inr attemptE_Inr by (elim exE conjE)
  have named: "?V cand m \<Longrightarrow> my_content m = cd_content cand \<and>
      vouched (\<lambda>ref r. pg_records pc w (mm_memory_id r) = Some r \<and> has_ref (ma_name (mv_adapter sv)) ref r) sv c permits cand m" for cand m
    using pg_ledger_named [OF assms(2,1)] by (auto elim!: vouched_mono) (auto simp: vouched_def)
  show ?thesis
  proof (cases found)
    case (Inl e)
    then show ?thesis using rest by (auto simp: bindE_Inr retE_def)
  next
    case (Inr cands)
    have w1: "w_ledger_rows w1 = w_ledger_rows w" using keepsD [OF search hits] .
    have by_ref: "keeps w_ledger_rows (lg_get_by_backend_ref (mv_ledger sv) b ref)" for b ref
      by (simp add: assms(1) pg_ledger_def keeps_pg_by_ref)
    have "list_all (\<lambda>m. \<exists>cand. cand \<in> set cands \<and> ?V cand m) ms"
      using recall_loop_vouched [where f = w_ledger_rows and P = "\<lambda>cand. cand \<in> set cands", OF _ _ _ w1 _ _ untimed_rows(1) assms(3) by_ref]
        rest Inr by auto
    then show ?thesis using hits Inr named by (auto simp: list_all_iff MAX_LIMIT_def) blast
  qed
qed

text \<open>
  C36. A fact Zep derived is recalled only when the ledger vouches for every episode behind it: it is the fact of an edge of
  the answer, and each of its episodes, not only the first, has a row of the ledger, whose provenance was checked.
\<close>

theorem zep_facts_fully_vouched:
  fixes sv :: "('x, 'm) memory_world_scheme memory_service"
  assumes "mv_adapter sv = zep_adapter pc cl" "mv_ledger sv = pg_ledger pc" "pg_ledger_good pc w" "frame w_ledger_rows sv permits"
    and client: "\<And>ns q l. keeps w_ledger_rows (zc_search cl ns q l)"
    and run: "recall sv c query limit permits w = (Inr ms, w')" and m: "m \<in> set ms"
  shows "\<exists>edges w1 cand. zc_search cl (mv_namespace sv) query (max 1 (min limit 50)) w = (Inr edges, w1) \<and>
    reports_edge pc edges cand \<and> my_content m = cd_content cand \<and>
    vouched (\<lambda>ref r. pg_records pc w (mm_memory_id r) = Some r \<and> has_ref ''zep'' ref r) sv c permits cand m"
proof -
  have search: "keeps w_ledger_rows (ma_search (mv_adapter sv) query (mv_namespace sv) l)" for l
    by (auto simp: assms(1) zep_adapter_def zep_search_def intro!: keeps_rules client)
  from recall_vouched_any [OF assms(2-4) search run] m obtain cands w1 cand where
    hits: "ma_search (mv_adapter sv) query (mv_namespace sv) (max 1 (min limit 50)) w = (Inr cands, w1)" and cand: "cand \<in> set cands"
    "my_content m = cd_content cand"
    "vouched (\<lambda>ref r. pg_records pc w (mm_memory_id r) = Some r \<and> has_ref (ma_name (mv_adapter sv)) ref r) sv c permits cand m"
    by (auto simp: list_all_iff)
  from zep_search_run [of pc cl query "mv_namespace sv" _ w cands w1] hits cand(1) obtain edges where
    "zc_search cl (mv_namespace sv) query (max 1 (min limit 50)) w = (Inr edges, w1)" "reports_edge pc edges cand"
    by (auto simp: assms(1) zep_adapter_def)
  then show ?thesis using cand(2,3) by (auto simp: assms(1) zep_adapter_def)
qed


section \<open>A fact that mixes a memory without sources\<close>

text \<open>
  Two episodes: one of a memory written for Alice from a document she may read, one of a memory without sources written
  for Bob. Zep derived one fact from both, or one from Bob's alone.
\<close>

definition alice_record :: memory_record where
  "alice_record = \<lparr>mm_memory_id = ''memory:1'', mm_written_for = ''user:alice'', mm_written_by = ''agent:a'',
     mm_derived_from = [''document:a''], mm_content_hash = [], mm_backend = ''zep'', mm_backend_ref = ''e1'', mm_created_at = 0\<rparr>"

definition bob_record :: memory_record where
  "bob_record = \<lparr>mm_memory_id = ''memory:2'', mm_written_for = ''user:bob'', mm_written_by = ''agent:a'',
     mm_derived_from = [], mm_content_hash = [], mm_backend = ''zep'', mm_backend_ref = ''e2'', mm_created_at = 0\<rparr>"

definition fact_client :: "string list \<Rightarrow> 'w zep_client" where
  "fact_client episodes = \<lparr>zc_add = (\<lambda>ns t. retE \<lparr>zn_uuid_attr = JStr ''e3'', zn_uuid = JNull\<rparr>),
     zc_search = (\<lambda>ns q l. retE [\<lparr>ze_fact = JStr ''salary'', ze_episodes = JArr (map JStr episodes), ze_score = JNull\<rparr>]),
     zc_delete_episode = (\<lambda>_. retE ())\<rparr>"

definition zep_memory :: "string list \<Rightarrow> unit memory_world memory_service" where
  "zep_memory episodes = sample_memory\<lparr>mv_adapter := zep_adapter std_conv (fact_client episodes)\<rparr>"

definition zep_world :: "unit memory_world" where
  "zep_world = memory_world0\<lparr>w_ledger_rows := [(''memory:1'', ledger_values alice_record), (''memory:2'', ledger_values bob_record)]\<rparr>"

lemma zep_rows: "ledger_from_row std_conv (''memory:1'', ledger_values alice_record) = Inr alice_record"
  "ledger_from_row std_conv (''memory:2'', ledger_values bob_record) = Inr bob_record"
  using ledger_row_round_trip [OF std_conv_laws, of alice_record] ledger_row_round_trip [OF std_conv_laws, of bob_record]
  by (simp_all add: alice_record_def bob_record_def)

lemma zep_good: "pg_ledger_good std_conv zep_world"
  using zep_rows by (simp add: pg_ledger_good_def zep_world_def)

lemma zep_frame: "frame f (zep_memory episodes) None"
  using sample_frame [of f] by (simp add: frame_def zep_memory_def)

lemma zep_world_simps [simp]: "w_db zep_world n = DbOk"
  "w_ledger_rows zep_world = [(''memory:1'', ledger_values alice_record), (''memory:2'', ledger_values bob_record)]"
  by (simp_all add: zep_world_def)

lemma zep_by_ref:
  fixes w :: "unit memory_world"
  assumes "w_db w = w_db zep_world" "w_ledger_rows w = w_ledger_rows zep_world"
  shows "pg_ledger_by_ref std_conv ''zep'' ''e1'' w = (Inr (Some alice_record), w\<lparr>w_db_at := Suc (w_db_at w)\<rparr>)"
    "pg_ledger_by_ref std_conv ''zep'' ''e2'' w = (Inr (Some bob_record), w\<lparr>w_db_at := Suc (w_db_at w)\<rparr>)"
proof -
  have "row_has_ref ''zep'' ''e1'' (''memory:1'', ledger_values alice_record)" "\<not> row_has_ref ''zep'' ''e2'' (''memory:1'', ledger_values alice_record)"
    "row_has_ref ''zep'' ''e2'' (''memory:2'', ledger_values bob_record)"
    by (simp_all add: row_has_ref_def ledger_values_def alice_record_def bob_record_def)
  then show "pg_ledger_by_ref std_conv ''zep'' ''e1'' w = (Inr (Some alice_record), w\<lparr>w_db_at := Suc (w_db_at w)\<rparr>)"
    "pg_ledger_by_ref std_conv ''zep'' ''e2'' w = (Inr (Some bob_record), w\<lparr>w_db_at := Suc (w_db_at w)\<rparr>)"
    using zep_rows assms by (simp_all add: pg_ledger_by_ref_def pg_ledger_record_def bindE_def db_query_def db_stmt_def retE_def liftE_def)
qed

lemma zep_targets: "list_all valid_pattern [''document:a'', ''memory:1'', ''memory:2'']"
  "list_all (\<lambda>t. scope_covers (ch_scope memory_chain) (Capability READ t)) [''memory:1'', ''memory:2'']"
  by code_simp+

lemma zep_search_fact: "ma_search (mv_adapter (zep_memory episodes)) q ns 5 w =
    (Inr (if episodes = [] then [] else [\<lparr>cd_content = ''salary'', cd_backend_refs = map (conv_str std_conv \<circ> JStr) episodes, cd_score = None\<rparr>]), w)"
  by (simp add: zep_memory_def zep_adapter_def zep_search_def fact_client_def bindE_def retE_def liftE_def zep_candidate_def json_falsy_def
      json_iter_def score_of_def upto_index_def)

lemma zep_journal: "\<exists>w'. memory_journal (zep_memory eps) k c i out h n reason w = (Inr (), w')"
  by (simp add: memory_journal_def memory_event_def zep_memory_def bindE_def now_def uuid4_hex_def stateE_def retE_def)

lemma zep_memory_simps [simp]:
  "mv_ledger (zep_memory eps) = pg_ledger std_conv" "ma_name (mv_adapter (zep_memory eps)) = ''zep''" "mv_tuples (zep_memory eps) = sample_tuples"
  "mv_decider (zep_memory eps) = mv_decider sample_memory" "mv_namespace (zep_memory eps) = ''hoc''"
  by (simp_all add: zep_memory_def zep_adapter_def)

lemma zep_records:
  "mm_memory_id alice_record = ''memory:1''" "mm_memory_id bob_record = ''memory:2''" "mm_derived_from alice_record = [''document:a'']"
  "mm_derived_from bob_record = []" "mm_written_for bob_record = ''user:bob''" "ch_subject memory_chain = ''user:alice''"
  by (simp_all add: alice_record_def bob_record_def memory_chain_def)

lemma mixed_admitted:
  assumes "cd_backend_refs cand = [''e1'', ''e2'']"
  shows "\<exists>m w'. admit (zep_memory eps) memory_chain cand None zep_world = (Inr (Some m), w') \<and> my_content m = cd_content cand"
proof -
  let ?w = "zep_world\<lparr>w_db_at := Suc (Suc (w_db_at zep_world))\<rparr>"
  obtain dn w1 where dec: "decide_all (mv_decider sample_memory) memory_chain action_read_memory [''document:a''] (Some [''memory:1'', ''memory:2''])
      (Some ''memory:1'') None None ?w = (Inr dn, w1)" "d_outcome dn = ALLOW"
    using sample_decide_all [of "[''document:a'']" "[''memory:1'', ''memory:2'']" action_read_memory "''memory:1''" None ?w] zep_targets
    by (auto simp: action_read_memory_def)
  obtain w2 where j: "memory_journal (zep_memory eps) EvMemoryRead memory_chain ''memory:1'' ''ALLOW'' (Some (mm_content_hash alice_record)) 1
      (Some (d_reason dn)) w1 = (Inr (), w2)" using zep_journal by blast
  show ?thesis
    by (simp add: admit_def admit_unguarded_def catchE_def bindE_def assms pg_ledger_def zep_by_ref retE_def
        memory_sources_def sample_tuples_def refused_def zep_records dec j [simplified])
qed

lemma lone_withheld:
  assumes "cd_backend_refs cand = [''e2'']"
  shows "\<exists>w'. admit (zep_memory eps) memory_chain cand None zep_world = (Inr None, w')"
proof -
  obtain w2 where j: "memory_journal (zep_memory eps) EvMemoryRead memory_chain ''memory:2'' ''DENY'' None 0 (Some ''not_written_for'')
      (zep_world\<lparr>w_db_at := Suc (w_db_at zep_world)\<rparr>) = (Inr (), w2)" using zep_journal by blast
  show ?thesis
    by (simp add: admit_def admit_unguarded_def catchE_def bindE_def assms pg_ledger_def zep_by_ref retE_def
        memory_sources_def sample_tuples_def refused_def zep_records j)
qed

text \<open>
  The fact that mixes both is handed to Alice, although the decision record of ADR 0007 says that a memory without any
  source is readable only by the subject it was written for; the fact of Bob's memory alone is withheld.
\<close>

theorem mixed_fact_recalled:
  "(\<exists>m w'. recall (zep_memory [''e1'', ''e2'']) memory_chain ''q'' 5 None zep_world = (Inr [m], w') \<and> my_content m = ''salary'' \<and>
     ch_subject memory_chain = ''user:alice'' \<and> mm_written_for bob_record = ''user:bob'' \<and> mm_derived_from bob_record = [] \<and>
     pg_records std_conv zep_world ''memory:2'' = Some bob_record) \<and>
   (\<exists>w'. recall (zep_memory [''e2'']) memory_chain ''q'' 5 None zep_world = (Inr [], w'))"
proof
  let ?c = "\<lambda>eps. \<lparr>cd_content = ''salary'', cd_backend_refs = eps, cd_score = None\<rparr>"
  have search: "ma_search (mv_adapter (zep_memory eps)) ''q'' ''hoc'' 5 zep_world = (Inr [?c eps], zep_world)" if "eps \<noteq> []" for eps
    using that by (simp add: zep_search_fact std_conv_def comp_def)
  obtain m w' where a: "admit (zep_memory [''e1'', ''e2'']) memory_chain (?c [''e1'', ''e2'']) None zep_world = (Inr (Some m), w')"
    "my_content m = ''salary''" using mixed_admitted [of "?c [''e1'', ''e2'']" "[''e1'', ''e2'']"] by auto
  have "recall (zep_memory [''e1'', ''e2'']) memory_chain ''q'' 5 None zep_world = (Inr [m], w')"
    using a(1) by (simp add: recall_def MAX_LIMIT_def bindE_def attemptE_def search retE_def Let_def)
  moreover have "pg_records std_conv zep_world ''memory:2'' = Some bob_record" using zep_rows by (simp add: pg_records_def)
  ultimately show "\<exists>m w'. recall (zep_memory [''e1'', ''e2'']) memory_chain ''q'' 5 None zep_world = (Inr [m], w') \<and> my_content m = ''salary'' \<and>
     ch_subject memory_chain = ''user:alice'' \<and> mm_written_for bob_record = ''user:bob'' \<and> mm_derived_from bob_record = [] \<and>
     pg_records std_conv zep_world ''memory:2'' = Some bob_record"
    using a(2) zep_records by (intro exI [of _ m] exI [of _ w']) simp
  obtain w2 where "admit (zep_memory [''e2'']) memory_chain (?c [''e2'']) None zep_world = (Inr None, w2)"
    using lone_withheld [of "?c [''e2'']" "[''e2'']"] by auto
  then show "\<exists>w'. recall (zep_memory [''e2'']) memory_chain ''q'' 5 None zep_world = (Inr [], w')"
    by (simp add: recall_def MAX_LIMIT_def bindE_def attemptE_def search retE_def Let_def)
qed

section \<open>Witnesses\<close>

lemma mem0_search_reports_rows_witness:
  "\<exists>cs rows. mem0_search \<lparr>m0_add = (\<lambda>_ _ _ _. retE JNull), m0_search = (\<lambda>_ _ _. retE (JArr [JObj [(''id'', JStr ''m1''), (''memory'', JStr ''note'')]])),
       m0_delete = (\<lambda>_. retE JNull)\<rparr> ''q'' ''hoc'' 5 (0 :: nat) = (Inr cs, 0) \<and> int (length cs) \<le> 5 \<and> length cs = 1"
proof -
  let ?cl = "\<lparr>m0_add = (\<lambda>_ _ _ _. retE JNull), m0_search = (\<lambda>_ _ _. retE (JArr [JObj [(''id'', JStr ''m1''), (''memory'', JStr ''note'')]])),
       m0_delete = (\<lambda>_. retE JNull)\<rparr>"
  have run: "mem0_search ?cl ''q'' ''hoc'' 5 (0 :: nat) = (Inr [\<lparr>cd_content = ''note'', cd_backend_refs = [''m1''], cd_score = None\<rparr>], 0)"
    by (simp add: mem0_search_def bindE_def retE_def liftE_def mem0_results_def dict_rows_def List.map_filter_def mem0_candidate_def
        dict_get_def score_of_def upto_index_def)
  from mem0_search_reports_rows [OF run] show ?thesis using run by auto
qed

lemma zep_facts_fully_vouched_witness:
  "\<exists>m w' cand. recall (zep_memory [''e1'', ''e2'']) memory_chain ''q'' 5 None zep_world = (Inr [m], w') \<and> my_content m = cd_content cand \<and>
     vouched (\<lambda>ref r. pg_records std_conv zep_world (mm_memory_id r) = Some r \<and> has_ref ''zep'' ref r)
       (zep_memory [''e1'', ''e2'']) memory_chain None cand m"
proof -
  obtain m w' where run: "recall (zep_memory [''e1'', ''e2'']) memory_chain ''q'' 5 None zep_world = (Inr [m], w')"
    using mixed_fact_recalled by (elim conjE exE)
  have "\<exists>edges w1 cand. zc_search (fact_client [''e1'', ''e2'']) (mv_namespace (zep_memory [''e1'', ''e2''])) ''q'' (max 1 (min 5 50)) zep_world = (Inr edges, w1) \<and>
      reports_edge std_conv edges cand \<and> my_content m = cd_content cand \<and>
      vouched (\<lambda>ref r. pg_records std_conv zep_world (mm_memory_id r) = Some r \<and> has_ref ''zep'' ref r)
        (zep_memory [''e1'', ''e2'']) memory_chain None cand m"
    by (rule zep_facts_fully_vouched [OF _ _ zep_good zep_frame _ run])
      (simp_all add: zep_memory_def fact_client_def keeps_retE sample_memory_def)
  then show ?thesis using run by blast
qed

end
