(* ===== verification/Read_Filter.thy ===== *)
theory Read_Filter
  imports Core_Permits
begin

text \<open>
  Read filtering (\<open>read/filter.py\<close>): keep the items whose document the subject may view.

  Items are of any type; \<open>id_of\<close> is the callable that finds the reference: it may raise, and \<open>None\<close>
  stands for a value that is not a string. \<open>default_id_of\<close> is its default on JSON values. The dict of
  outcomes is a map; the sets of references are never iterated, only sorted.
\<close>

type_synonym 'a id_of = "'a \<Rightarrow> exn + string option"

datatype strategy = Auto | Batch | ListObjects

record 'a filter_result =
  fr_kept :: "'a list"
  fr_dropped :: "string list"
  fr_strategy :: string
  fr_decisions :: "string \<Rightarrow> outcome option"

definition LIST_OBJECTS_THRESHOLD :: nat where
  "LIST_OBJECTS_THRESHOLD = 100"

definition kept_count :: "'a filter_result \<Rightarrow> nat" where
  "kept_count res = length (fr_kept res)"

definition dropped_count :: "'a filter_result \<Rightarrow> nat" where
  "dropped_count res = length (fr_dropped res)"

definition default_id_of :: "json id_of" where
  "default_id_of item = Inr (case item of
     JObj kvs \<Rightarrow> (case map_of kvs ''id'' of Some (JStr s) \<Rightarrow> Some s | _ \<Rightarrow> None)
   | _ \<Rightarrow> None)"

definition reference :: "'a id_of \<Rightarrow> 'a \<Rightarrow> string option" where
  "reference id_of item = (case id_of item of
     Inl e \<Rightarrow> None
   | Inr None \<Rightarrow> None
   | Inr (Some raw) \<Rightarrow> (case validate_ref raw ''document'' of Inl e \<Rightarrow> None | Inr r \<Rightarrow> Some r))"

definition document_refs :: "'a id_of \<Rightarrow> 'a list \<Rightarrow> string list" where
  "document_refs id_of items = List.map_filter (reference id_of) items"

definition choose_strategy :: "strategy \<Rightarrow> nat \<Rightarrow> string" where
  "choose_strategy s count = (case s of
     Auto \<Rightarrow> if count > LIST_OBJECTS_THRESHOLD then ''list_objects'' else ''batch''
   | Batch \<Rightarrow> ''batch''
   | ListObjects \<Rightarrow> ''list_objects'')"

text \<open>\<open>dict.fromkeys(refs, Outcome.DENY)\<close> and the update by decisions.\<close>

definition all_denied :: "string list \<Rightarrow> string \<Rightarrow> outcome option" where
  "all_denied refs r = (if r \<in> set refs then Some DENY else None)"

definition outcomes_of :: "decision list \<Rightarrow> string \<Rightarrow> outcome option" where
  "outcomes_of dns = map_of (rev (map (\<lambda>dn. (d_resource dn, d_outcome dn)) dns))"

definition via_list_objects ::
    "('x, 'm) world_scheme decider \<Rightarrow> principal_chain \<Rightarrow> action \<Rightarrow> string list \<Rightarrow> ('x, 'm) world_scheme authz_engine
     \<Rightarrow> (('x, 'm) world_scheme, exn, string \<Rightarrow> outcome option) eff" where
  "via_list_objects d c a candidates engine =
     bindE (attemptE (eng_list_objects engine (ch_subject c) (act_relation a) ''document'')) (\<lambda>answer. case answer of
       Inl e \<Rightarrow> retE (all_denied candidates)
     | Inr visible \<Rightarrow>
         bindE (decide_each d c a (filter (\<lambda>r. r \<in> set visible) candidates) False None None) (\<lambda>dns.
         retE (all_denied candidates ++ outcomes_of dns)))"

definition summary_event ::
    "principal_chain \<Rightarrow> action \<Rightarrow> string option list \<Rightarrow> string list \<Rightarrow> nat \<Rightarrow> (('x, 'm) world_scheme, exn, audit_event) eff" where
  "summary_event c a kept_refs dropped token_refused = bindE now (\<lambda>t. bindE uuid4_hex (\<lambda>eid. retE
     \<lparr>ev_kind = EvReadFiltered, ev_timestamp = t, ev_subject = ch_subject c, ev_actor = ch_actor c,
      ev_delegation_depth = chain_depth c, ev_action = kind_value (act_kind a) @ '':'' @ act_relation a,
      ev_resource = ''document:*'', ev_outcome = (if kept_refs \<noteq> [] then ''ALLOW'' else ''DENY''),
      ev_reason = ''kept='' @ show_nat (length kept_refs) @ '' dropped='' @ show_nat (length dropped)
        @ '' token_refused='' @ show_nat token_refused
        @ '' kept_sha256='' @ take 16 (ref_digest (List.map_filter id kept_refs)),
      ev_engine_latency_ms = float_zero, ev_token_fingerprint = None, ev_args_hash = Some (ref_digest dropped),
      ev_decision_id = None, ev_event_id = eid\<rparr>))"

text \<open>The references the token refuses, sorted.\<close>

definition token_refusals ::
    "'w resource_permits option \<Rightarrow> string option list \<Rightarrow> ('w, exn, string list) eff" where
  "token_refusals permits refs = (case permits of
     None \<Rightarrow> retE []
   | Some ask \<Rightarrow>
       (let wanted = sorted_list_of_set (set (List.map_filter id refs)) in
        bindE (if wanted = [] then retE [] else ask READ wanted) (\<lambda>answers.
        retE (filter (\<lambda>r. \<not> dict_permits answers r) wanted))))"

definition engine_outcomes ::
    "('x, 'm) world_scheme decider \<Rightarrow> principal_chain \<Rightarrow> action \<Rightarrow> string list \<Rightarrow> ('x, 'm) world_scheme authz_engine \<Rightarrow> string \<Rightarrow> bool
     \<Rightarrow> (('x, 'm) world_scheme, exn, string \<Rightarrow> outcome option) eff" where
  "engine_outcomes d c a candidates engine chosen per_item_audit =
     (if candidates = [] then retE Map.empty
      else if chosen = ''list_objects'' then via_list_objects d c a candidates engine
      else bindE (decide_each d c a candidates per_item_audit None None) (\<lambda>dns. retE (outcomes_of dns)))"

definition keep_item :: "(string \<Rightarrow> outcome option) \<Rightarrow> string option \<Rightarrow> bool" where
  "keep_item outcomes ref = (case ref of None \<Rightarrow> False | Some r \<Rightarrow> outcomes r = Some ALLOW)"

definition default_decider :: "'w authz_engine \<Rightarrow> 'w audit_sink \<Rightarrow> 'w decider" where
  "default_decider engine audit = \<lparr>dc_engine = engine, dc_audit = audit, dc_policy = None, dc_metrics = None\<rparr>"

definition filter_items ::
    "principal_chain \<Rightarrow> 'a list \<Rightarrow> ('x, 'm) world_scheme authz_engine \<Rightarrow> ('x, 'm) world_scheme audit_sink \<Rightarrow> 'a id_of
     \<Rightarrow> string \<Rightarrow> strategy \<Rightarrow> bool \<Rightarrow> ('x, 'm) world_scheme decider option \<Rightarrow> ('x, 'm) world_scheme resource_permits option
     \<Rightarrow> (('x, 'm) world_scheme, exn, 'a filter_result) eff" where
  "filter_items c items engine audit id_of relation strategy per_item_audit dec permits =
     (if items = [] then retE \<lparr>fr_kept = [], fr_dropped = [], fr_strategy = ''none'', fr_decisions = Map.empty\<rparr>
      else
      let d = (case dec of Some d \<Rightarrow> d | None \<Rightarrow> default_decider engine audit);
          a = \<lparr>act_kind = READ, act_relation = relation\<rparr>;
          refs = map (reference id_of) items in
      bindE (token_refusals permits refs) (\<lambda>token_refused.
      let candidates = sorted_list_of_set (set (List.map_filter id refs) - set token_refused);
          chosen = choose_strategy strategy (length candidates) in
      bindE (engine_outcomes d c a candidates engine chosen per_item_audit) (\<lambda>answers.
      let outcomes = all_denied token_refused ++ answers;
          pairs = zip items refs;
          dropped = map (\<lambda>(item, ref). case ref of Some r \<Rightarrow> r | None \<Rightarrow> ''invalid'')
            (filter (\<lambda>(item, ref). \<not> keep_item outcomes ref) pairs) in
      bindE (summary_event c a (filter (\<lambda>ref. outcomes (case ref of Some r \<Rightarrow> r | None \<Rightarrow> []) = Some ALLOW) refs)
        dropped (length token_refused)) (\<lambda>ev.
      bindE (audit ev) (\<lambda>_.
      retE \<lparr>fr_kept = map fst (filter (\<lambda>(item, ref). keep_item outcomes ref) pairs), fr_dropped = dropped,
            fr_strategy = chosen, fr_decisions = outcomes\<rparr>)))))"

section \<open>Lemmas\<close>

lemma reference_valid: "reference id_of item = Some r \<Longrightarrow> valid_ref r ''document''"
  by (auto simp: reference_def validate_ref_def split: sum.splits option.splits if_splits)

lemma set_refs: "set (List.map_filter id refs) = {r. Some r \<in> set refs}"
  by (induction refs) (auto simp: List.map_filter_simps split: option.splits)

lemma set_sorted_refs:
  "set (sorted_list_of_set (set (List.map_filter id refs) - T)) = {r. Some r \<in> set refs} - T"
  "set (sorted_list_of_set (set (List.map_filter id refs))) = {r. Some r \<in> set refs}"
proof -
  have "set (sorted_list_of_set (set (List.map_filter id refs) - T)) = set (List.map_filter id refs) - T" for T by simp
  then show "set (sorted_list_of_set (set (List.map_filter id refs) - T)) = {r. Some r \<in> set refs} - T"
    "set (sorted_list_of_set (set (List.map_filter id refs))) = {r. Some r \<in> set refs}"
    by (simp_all only: set_refs) (metis Diff_empty set_refs)
qed

lemma candidates_valid:
  "list_all valid_pattern (sorted_list_of_set (set (List.map_filter id (map (reference id_of) items)) - T))"
proof -
  have "valid_pattern r" if "Some r \<in> set (map (reference id_of) items)" for r
    using that reference_valid valid_ref_pattern by (metis (no_types, lifting) imageE list.set_map)
  then show ?thesis unfolding list_all_iff set_sorted_refs by blast
qed

lemma outcomes_of_Some:
  assumes "list_all2 (\<lambda>r dn. d_resource dn = r \<and> P r (d_outcome dn, d_reason dn)) rs dns" "outcomes_of dns r = Some oc"
  shows "r \<in> set rs \<and> (\<exists>reason. P r (oc, reason))"
proof -
  obtain dn where "dn \<in> set dns" "d_resource dn = r" "d_outcome dn = oc"
    using map_of_SomeD [OF assms(2) [unfolded outcomes_of_def]] by auto
  then show ?thesis using assms(1) by (auto simp: list_all2_conv_all_nth in_set_conv_nth) metis
qed

lemma outcomes_of_total:
  "list_all2 (\<lambda>r dn. d_resource dn = r \<and> P r (d_outcome dn, d_reason dn)) rs dns \<Longrightarrow> r \<in> set rs \<Longrightarrow> \<exists>oc. outcomes_of dns r = Some oc"
proof -
  assume all: "list_all2 (\<lambda>r dn. d_resource dn = r \<and> P r (d_outcome dn, d_reason dn)) rs dns" and r: "r \<in> set rs"
  have "map d_resource dns = rs" using all by (induction rule: list_all2_induct) auto
  then have "r \<in> fst ` set (rev (map (\<lambda>dn. (d_resource dn, d_outcome dn)) dns))" using r by force
  then show ?thesis unfolding outcomes_of_def by (metis map_of_eq_None_iff not_None_eq)
qed

lemma via_list_objects_ALLOW:
  assumes "via_list_objects d c a rs engine w = (Inr m, w')" "list_all valid_pattern rs" "m r = Some ALLOW"
  shows "r \<in> set rs \<and> (\<exists>reason. each_ok d c a [] no_context r (ALLOW, reason))"
proof -
  obtain ans :: "exn + string list" and w1 where ans: "(case ans of Inl e \<Rightarrow> retE (all_denied rs)
     | Inr visible \<Rightarrow> bindE (decide_each d c a (filter (\<lambda>r. r \<in> set visible) rs) False None None) (\<lambda>dns.
         retE (all_denied rs ++ outcomes_of dns))) w1 = (Inr m, w')"
    using assms(1) unfolding via_list_objects_def bindE_Inr by (elim exE conjE)
  have no: "all_denied rs r \<noteq> Some ALLOW" by (simp add: all_denied_def)
  show ?thesis
  proof (cases ans)
    case (Inl e)
    then show ?thesis using ans assms(3) no by (simp add: retE_def)
  next
    case (Inr visible)
    let ?rs = "filter (\<lambda>r. r \<in> set visible) rs"
    obtain dns where run: "decide_each d c a ?rs False None None w1 = (Inr dns, w')" and m: "m = all_denied rs ++ outcomes_of dns"
      using ans Inr by (auto simp: bindE_Inr retE_def)
    have "list_all valid_pattern ?rs" using assms(2) by (auto simp: list_all_iff)
    note g = decide_each_grounds [OF run this]
    have "outcomes_of dns r = Some ALLOW" using assms(3) no m by (auto simp: map_add_Some_iff)
    from outcomes_of_Some [OF g this] show ?thesis by (auto simp: args_or_empty_def context_or_none_def)
  qed
qed

lemma engine_outcomes_ALLOW:
  assumes "engine_outcomes d c a rs engine chosen pia w = (Inr m, w')" "list_all valid_pattern rs" "m r = Some ALLOW"
  shows "r \<in> set rs \<and> (\<exists>reason. each_ok d c a [] no_context r (ALLOW, reason))"
proof (cases "rs = [] \<or> chosen = ''list_objects''")
  case True
  then have "via_list_objects d c a rs engine w = (Inr m, w')"
    using assms(1,3) by (auto simp: engine_outcomes_def retE_def split: if_splits)
  then show ?thesis using assms(2,3) by (rule via_list_objects_ALLOW)
next
  case False
  then obtain dns where run: "decide_each d c a rs pia None None w = (Inr dns, w')" and m: "m = outcomes_of dns"
    using assms(1) by (auto simp: engine_outcomes_def bindE_Inr retE_def)
  from outcomes_of_Some [OF decide_each_grounds [OF run assms(2)]] assms(3) show ?thesis
    by (auto simp: m args_or_empty_def context_or_none_def)
qed

text \<open>The token's answer in this call, at the world it started in.\<close>

definition token_permits :: "'w resource_permits option \<Rightarrow> 'w \<Rightarrow> string \<Rightarrow> bool" where
  "token_permits permits w r \<longleftrightarrow> (case permits of None \<Rightarrow> True | Some ask \<Rightarrow>
     \<exists>rs answers w1. r \<in> set rs \<and> ask READ rs w = (Inr answers, w1) \<and> dict_permits answers r)"

lemma token_refusals_run:
  assumes "token_refusals permits refs w = (Inr refused, w')" "Some r \<in> set refs" "r \<notin> set refused"
  shows "token_permits permits w r"
proof (cases permits)
  case (Some ask)
  let ?wanted = "sorted_list_of_set (set (List.map_filter id refs))"
  have r: "r \<in> set ?wanted" using assms(2) by (simp only: set_sorted_refs mem_Collect_eq)
  then have "?wanted \<noteq> []" by auto
  then obtain answers where "ask READ ?wanted w = (Inr answers, w')" "refused = filter (\<lambda>r. \<not> dict_permits answers r) ?wanted"
    using assms(1) Some by (auto simp: token_refusals_def Let_def bindE_Inr retE_def simp del: set_sorted_list_of_set)
  then show ?thesis using Some r assms(3) by (auto simp: token_permits_def simp del: set_sorted_list_of_set)
qed (simp add: token_permits_def)

lemma filter_zip: "map fst (filter (\<lambda>(x, y). P y) (zip xs (map f xs))) = filter (\<lambda>x. P (f x)) xs"
  by (induction xs) auto

lemma length_filter_zip: "length (filter (\<lambda>(x, y). P y) (zip xs (map f xs))) = length (filter (\<lambda>x. P (f x)) xs)"
  by (induction xs) auto

text \<open>Whatever one may read an item on: the scope, the engine's answer, the policy and the token.\<close>

definition readable ::
    "('x, 'm) world_scheme decider \<Rightarrow> principal_chain \<Rightarrow> string \<Rightarrow> ('x, 'm) world_scheme resource_permits option \<Rightarrow> ('x, 'm) world_scheme
     \<Rightarrow> string \<Rightarrow> bool" where
  "readable d c relation permits w r \<longleftrightarrow> valid_ref r ''document'' \<and> scope_covers (ch_scope c) (Capability READ r)
     \<and> each_answered (dc_engine d) (ch_subject c) relation r (Inr True)
     \<and> fst (spec_policy (dc_policy d) c \<lparr>act_kind = READ, act_relation = relation\<rparr> r [] no_context) = ALLOW
     \<and> token_permits permits w r"

text \<open>The token answers every question, by \<open>g\<close>; the engine lists what it would answer true for.\<close>

definition token_answers :: "'w resource_permits option \<Rightarrow> (string \<Rightarrow> bool) \<Rightarrow> bool" where
  "token_answers permits g \<longleftrightarrow> (case permits of None \<Rightarrow> (\<forall>r. g r)
     | Some ask \<Rightarrow> (\<forall>rs w. fst (ask READ rs w) = Inr (map (\<lambda>r. (r, g r)) rs)))"

definition lists_exactly :: "'w authz_engine \<Rightarrow> string \<Rightarrow> string \<Rightarrow> (string \<Rightarrow> bool) \<Rightarrow> bool" where
  "lists_exactly engine subj rel f \<longleftrightarrow> (\<forall>w. \<exists>objs w'. eng_list_objects engine subj rel ''document'' w = (Inr objs, w')
     \<and> (\<forall>r. valid_pattern r \<longrightarrow> (r \<in> set objs) = f r))"

lemma dict_permits_map: "r \<in> set rs \<Longrightarrow> dict_permits (map (\<lambda>r. (r, g r)) rs) r = g r"
proof -
  assume "r \<in> set rs"
  then have "map_of (rev (map (\<lambda>r. (r, g r)) rs)) r = Some (g r)"
    by (simp add: rev_map map_of_map_keys [symmetric] map_of_map_restrict)
  then show ?thesis by (simp add: dict_permits_def)
qed

lemma wp_token_refusals:
  assumes "token_answers permits g"
  shows "wp (token_refusals permits refs) (\<lambda>refused _. \<forall>r. Some r \<in> set refs \<longrightarrow> (r \<in> set refused) = (\<not> g r)) (\<lambda>_ _. False) w"
proof (cases permits)
  case (Some ask)
  let ?wanted = "sorted_list_of_set (set (List.map_filter id refs))"
  have ans: "fst (ask READ ?wanted w) = Inr (map (\<lambda>r. (r, g r)) ?wanted)" using assms Some by (simp add: token_answers_def)
  have mem: "r \<in> set ?wanted" if "Some r \<in> set refs" for r using that unfolding set_sorted_refs by simp
  have out: "r \<in> set (filter (\<lambda>r. \<not> dict_permits (map (\<lambda>r. (r, g r)) ?wanted) r) ?wanted) \<longleftrightarrow> \<not> g r" if "Some r \<in> set refs" for r
    using mem [OF that] dict_permits_map [OF mem [OF that]] by simp
  show ?thesis
  proof (cases "?wanted = []")
    case True
    then have "Some r \<notin> set refs" for r using mem [of r] by auto
    then show ?thesis using True Some by (simp add: token_refusals_def Let_def wp_rules)
  next
    case False
    then show ?thesis using ans Some out
      by (cases "ask READ ?wanted w") (simp add: token_refusals_def Let_def wp_def bindE_def retE_def del: set_sorted_list_of_set)
  qed
qed (use assms in \<open>simp add: token_refusals_def token_answers_def wp_rules\<close>)

lemma outcomes_of_exact:
  assumes fn: "\<And>items w. fst (eng_batch_check (dc_engine d) (ch_subject c) items w) = Inr (map (\<lambda>(rel, r). f rel r) items)"
    and "list_all2 (\<lambda>r dn. d_resource dn = r \<and> each_ok d c a args ctx r (d_outcome dn, d_reason dn)) rs dns" "r \<in> set rs"
  shows "outcomes_of dns r = Some (fst (spec_decide (dc_policy d) c a r args ctx (Inr (f (act_relation a) r))))"
proof -
  obtain oc where oc: "outcomes_of dns r = Some oc" using outcomes_of_total [OF assms(2,3)] by blast
  from outcomes_of_Some [OF assms(2) this] obtain reason where "each_ok d c a args ctx r (oc, reason)" by blast
  from each_ok_functional [OF fn this] show ?thesis using oc by (metis fst_conv)
qed

lemma wp_decide_each_exact:
  assumes "\<And>items w. fst (eng_batch_check (dc_engine d) (ch_subject c) items w) = Inr (map (\<lambda>(rel, r). f rel r) items)"
    and "list_all valid_pattern rs" "valid_ref (ch_subject c) ''user''"
  shows "wp (decide_each d c a rs audit_each None None) (\<lambda>dns _. \<forall>r. outcomes_of dns r = (if r \<in> set rs
      then Some (fst (spec_decide (dc_policy d) c a r [] no_context (Inr (f (act_relation a) r)))) else None)) (\<lambda>x _. sink_raised d x) w"
proof (rule wp_mono [OF wp_decide_each [OF assms(2,3)]])
  fix dns :: "decision list"
  assume "list_all2 (\<lambda>r dn. d_resource dn = r \<and> d_chain dn = c \<and> d_action dn = a \<and> each_ok d c a (args_or_empty None) (context_or_none None) r
      (d_outcome dn, d_reason dn) \<and> (audit_each \<longrightarrow> decision_journaled d dn None)) rs dns"
  then have all: "list_all2 (\<lambda>r dn. d_resource dn = r \<and> each_ok d c a [] no_context r (d_outcome dn, d_reason dn)) rs dns"
    by (rule list_all2_mono) (simp add: args_or_empty_def context_or_none_def)
  have "outcomes_of dns r = None" if "r \<notin> set rs" for r
    using outcomes_of_Some [OF all, of r] that by (metis not_None_eq)
  then show "\<forall>r. outcomes_of dns r = (if r \<in> set rs
      then Some (fst (spec_decide (dc_policy d) c a r [] no_context (Inr (f (act_relation a) r)))) else None)"
    using outcomes_of_exact [OF assms(1) all] by simp
qed

lemma wp_engine_outcomes:
  assumes fn: "\<And>items w. fst (eng_batch_check (dc_engine d) (ch_subject c) items w) = Inr (map (\<lambda>(rel, r). f rel r) items)"
    and "list_all valid_pattern rs" "valid_ref (ch_subject c) ''user''" "lists_exactly engine (ch_subject c) (act_relation a) (f (act_relation a))"
  shows "wp (engine_outcomes d c a rs engine chosen per_item_audit)
    (\<lambda>m _. \<forall>r. (m r = Some ALLOW) = (r \<in> set rs \<and> fst (spec_decide (dc_policy d) c a r [] no_context (Inr (f (act_relation a) r))) = ALLOW))
    (\<lambda>x _. sink_raised d x) w"
proof -
  obtain objs w1 where objs: "eng_list_objects engine (ch_subject c) (act_relation a) ''document'' w = (Inr objs, w1)"
      "\<And>r. valid_pattern r \<Longrightarrow> (r \<in> set objs) = f (act_relation a) r"
    using assms(4) unfolding lists_exactly_def by blast
  let ?rs = "filter (\<lambda>r. r \<in> set objs) rs" and ?spec = "\<lambda>r. fst (spec_decide (dc_policy d) c a r [] no_context (Inr (f (act_relation a) r)))"
  have unlisted: "?spec r \<noteq> ALLOW" if "r \<in> set rs" "r \<notin> set objs" for r
    using that objs(2) [of r] assms(2) by (auto simp: list_all_iff spec_decide_def)
  have valid: "list_all valid_pattern ?rs" using assms(2) by (auto simp: list_all_iff)
  have list: "wp (via_list_objects d c a rs engine) (\<lambda>m _. \<forall>r. (m r = Some ALLOW) = (r \<in> set rs \<and> ?spec r = ALLOW)) (\<lambda>x _. sink_raised d x) w"
    unfolding via_list_objects_def wp_bindE wp_attemptE wp_case_sum wp_retE
    using objs(1) unlisted
    by (simp add: wp_def [of "eng_list_objects _ _ _ _"])
      (rule wp_mono [OF wp_decide_each_exact [OF fn valid assms(3)]], auto simp: all_denied_def map_add_def)
  show ?thesis unfolding engine_outcomes_def wp_if wp_bindE wp_retE
    using list by (simp add: wp_mono [OF wp_decide_each_exact [OF fn assms(2,3)]])
qed

lemma wp_filter_items:
  assumes "\<And>items w. fst (eng_batch_check (dc_engine d) (ch_subject c) items w) = Inr (map (\<lambda>(rel, r). f rel r) items)"
    and "lists_exactly engine (ch_subject c) relation (f relation)" "token_answers permits g" "valid_ref (ch_subject c) ''user''"
  shows "wp (filter_items c items engine audit id_of relation strategy per_item_audit (Some d) permits)
    (\<lambda>res _. fr_kept res = filter (\<lambda>item. case reference id_of item of None \<Rightarrow> False
       | Some r \<Rightarrow> g r \<and> fst (spec_decide (dc_policy d) c \<lparr>act_kind = READ, act_relation = relation\<rparr> r [] no_context (Inr (f relation r))) = ALLOW) items)
    (\<lambda>x _. sink_raised d x \<or> (\<exists>ev w1 w2. audit ev w1 = (Inl x, w2))) w"
    (is "wp _ ?Q ?R w")
proof (cases "items = []")
  case False
  let ?a = "\<lparr>act_kind = READ, act_relation = relation\<rparr>" and ?refs = "map (reference id_of) items"
  have finish: "wp (audit ev) (\<lambda>_ _. True) (\<lambda>x _. sink_raised d x \<or> (\<exists>ev w1 w2. audit ev w1 = (Inl x, w2))) w1" for ev w1
    by (intro wpI) auto
  have keep: "keep_item (all_denied refused ++ m) (reference id_of item) \<longleftrightarrow> (case reference id_of item of None \<Rightarrow> False
       | Some r \<Rightarrow> g r \<and> fst (spec_decide (dc_policy d) c ?a r [] no_context (Inr (f relation r))) = ALLOW)"
    if "\<forall>r. Some r \<in> set ?refs \<longrightarrow> (r \<in> set refused) = (\<not> g r)" "item \<in> set items"
      "\<forall>r. (m r = Some ALLOW) = (r \<in> set (sorted_list_of_set (set (List.map_filter id ?refs) - set refused))
         \<and> fst (spec_decide (dc_policy d) c ?a r [] no_context (Inr (f relation r))) = ALLOW)" for refused m item
  proof (cases "reference id_of item")
    case (Some r)
    then have "Some r \<in> set ?refs" using that(2) by (metis image_eqI list.set_map)
    then have "(r \<in> set refused) = (\<not> g r)"
        "(m r = Some ALLOW) = (r \<notin> set refused \<and> fst (spec_decide (dc_policy d) c ?a r [] no_context (Inr (f relation r))) = ALLOW)"
      using that(1,3) unfolding set_sorted_refs by simp_all
    then show ?thesis using Some by (auto simp: keep_item_def all_denied_def map_add_def split: option.splits)
  qed (simp add: keep_item_def)
  show ?thesis
    unfolding filter_items_def Let_def wp_if wp_bindE option.case if_not_P [OF False]
  proof (rule wp_mono [OF wp_token_refusals [OF assms(3)]], rule wp_mono [OF wp_engine_outcomes [OF assms(1) candidates_valid assms(4)]])
    fix refused w1 m w2
    assume p: "\<forall>r. Some r \<in> set ?refs \<longrightarrow> (r \<in> set refused) = (\<not> g r)"
      "\<forall>r. (m r = Some ALLOW) = (r \<in> set (sorted_list_of_set (set (List.map_filter id ?refs) - set refused))
         \<and> fst (spec_decide (dc_policy d) c ?a r [] no_context (Inr (f (act_relation ?a) r))) = ALLOW)"
    note kept = filter_cong [OF refl keep [OF p(1) _ p(2) [unfolded action.simps]]]
    show "wp (summary_event c ?a (filter (\<lambda>ref. (all_denied refused ++ m) (case ref of Some r \<Rightarrow> r | None \<Rightarrow> []) = Some ALLOW) ?refs)
          (map (\<lambda>(item, ref). case ref of Some r \<Rightarrow> r | None \<Rightarrow> ''invalid'')
            (filter (\<lambda>(item, ref). \<not> keep_item (all_denied refused ++ m) ref) (zip items ?refs))) (length refused))
        (\<lambda>ev. wp (audit ev) (\<lambda>_. wp (retE \<lparr>fr_kept = map fst (filter (\<lambda>(item, ref). keep_item (all_denied refused ++ m) ref) (zip items ?refs)),
            fr_dropped = map (\<lambda>(item, ref). case ref of Some r \<Rightarrow> r | None \<Rightarrow> ''invalid'')
              (filter (\<lambda>(item, ref). \<not> keep_item (all_denied refused ++ m) ref) (zip items ?refs)),
            fr_strategy = choose_strategy strategy (length (sorted_list_of_set (set (List.map_filter id ?refs) - set refused))),
            fr_decisions = all_denied refused ++ m\<rparr>) ?Q ?R) ?R) ?R w2"
      by (simp add: summary_event_def wp_rules filter_zip kept finish)
  qed (use assms(2) in simp_all)
qed (simp add: filter_items_def wp_rules)

section \<open>Properties\<close>

text \<open>
  C12: the read filter keeps only what the subject may read, whatever the strategy, the items and the
  engine do. The kept items are, in order, exactly those with an allowed reference, every other item is
  reported as dropped, and every kept item carries a document reference that the scope covers, that the
  engine answered true for, that the policy allows and that the token permitted in this call.
\<close>

theorem filter_keeps_only_readable:
  assumes run: "filter_items c items engine audit id_of relation strategy per_item_audit dec permits w = (Inr res, w')"
  shows "fr_kept res = filter (\<lambda>item. keep_item (fr_decisions res) (reference id_of item)) items
    \<and> length (fr_kept res) + length (fr_dropped res) = length items
    \<and> (\<forall>item\<in>set (fr_kept res). \<exists>r. reference id_of item = Some r
        \<and> readable (case dec of Some d \<Rightarrow> d | None \<Rightarrow> default_decider engine audit) c relation permits w r)"
proof (cases "items = []")
  case False
  let ?d = "case dec of Some d \<Rightarrow> d | None \<Rightarrow> default_decider engine audit" and ?a = "\<lparr>act_kind = READ, act_relation = relation\<rparr>"
    and ?refs = "map (reference id_of) items"
  obtain refused w1 answers w2 where tok: "token_refusals permits ?refs w = (Inr refused, w1)"
      and eng: "engine_outcomes ?d c ?a (sorted_list_of_set (set (List.map_filter id ?refs) - set refused)) engine
        (choose_strategy strategy (length (sorted_list_of_set (set (List.map_filter id ?refs) - set refused)))) per_item_audit w1 = (Inr answers, w2)"
      and res: "fr_decisions res = all_denied refused ++ answers"
        "fr_kept res = map fst (filter (\<lambda>(item, ref). keep_item (fr_decisions res) ref) (zip items ?refs))"
        "length (fr_dropped res) = length (filter (\<lambda>(item, ref). \<not> keep_item (fr_decisions res) ref) (zip items ?refs))"
    using run False by (auto simp: filter_items_def Let_def bindE_Inr retE_def)
  have kept: "fr_kept res = filter (\<lambda>item. keep_item (fr_decisions res) (reference id_of item)) items" using res(2) filter_zip by simp
  have "readable ?d c relation permits w r" if "reference id_of item = Some r" "fr_decisions res r = Some ALLOW" "item \<in> set items" for item r
  proof -
    have "answers r = Some ALLOW" using that(2) res(1) by (auto simp: all_denied_def map_add_Some_iff split: if_splits)
    from engine_outcomes_ALLOW [OF eng candidates_valid this] obtain reason where
      r: "r \<notin> set refused" "Some r \<in> set ?refs" "each_ok ?d c ?a [] no_context r (ALLOW, reason)"
      unfolding set_sorted_refs by blast
    then show ?thesis using token_refusals_run [OF tok r(2,1)] each_ok_ALLOW [OF r(3)] reference_valid [OF that(1)]
      by (simp add: readable_def)
  qed
  then show ?thesis using kept res(3)
    by (auto simp: keep_item_def length_filter_zip sum_length_filter_compl split: option.splits)
qed (use run in \<open>auto simp: filter_items_def retE_def\<close>)


section \<open>Witnesses\<close>

definition filter_engine :: "'w authz_engine" where
  "filter_engine = \<lparr>eng_check = (\<lambda>u rel r w. (Inr (r = ''document:a''), w)),
     eng_batch_check = (\<lambda>u items w. (Inr (map (\<lambda>(rel, r). r = ''document:a'') items), w)),
     eng_list_objects = (\<lambda>u rel t w. (Inr [''document:a''], w))\<rparr>"

definition filter_decider :: "unit world decider" where
  "filter_decider = default_decider filter_engine (\<lambda>e w. (Inr (), w))"

text \<open>A token that permits everything but one document.\<close>

definition filter_permits :: "'w resource_permits" where
  "filter_permits k rs = retE (map (\<lambda>r. (r, r \<noteq> ''document:secret'')) rs)"

definition filter_sample :: "json list" where
  "filter_sample = [JObj [(''id'', JStr ''document:a'')], JObj [(''id'', JStr ''document:b'')], JObj [(''id'', JStr ''document:secret'')], JNull]"

lemma filter_sample_laws:
  "fst (eng_batch_check (dc_engine filter_decider) u items w) = Inr (map (\<lambda>(rel, r). r = ''document:a'') items)"
  "lists_exactly filter_engine u rel (\<lambda>r. r = ''document:a'')"
  "token_answers (Some filter_permits) (\<lambda>r. r \<noteq> ''document:secret'')"
  "\<not> sink_raised filter_decider x"
  by (simp_all add: filter_decider_def filter_engine_def default_decider_def lists_exactly_def token_answers_def filter_permits_def retE_def
      sink_raised_def)

lemma filter_sample_refs:
  "map (reference default_id_of) filter_sample = [Some ''document:a'', Some ''document:b'', Some ''document:secret'', None]"
  by code_simp

lemma filter_sample_kept:
  "filter (\<lambda>item. case reference default_id_of item of None \<Rightarrow> False
     | Some r \<Rightarrow> r \<noteq> ''document:secret'' \<and> fst (spec_decide (dc_policy filter_decider) sample_chain \<lparr>act_kind = READ, act_relation = ''viewer''\<rparr> r []
         no_context (Inr (r = ''document:a''))) = ALLOW) filter_sample = [JObj [(''id'', JStr ''document:a'')]]"
  using filter_sample_refs sample_covers(1)
  by (simp add: filter_sample_def spec_decide_def spec_policy_def filter_decider_def default_decider_def)

lemmas filter_sample_run = wp_filter_items [where f = "\<lambda>_ r. r = ''document:a''", OF filter_sample_laws(1-3) sample_valid(3)]


theorem filter_keeps_only_readable_witness:
  "\<exists>res w'. filter_items sample_chain filter_sample filter_engine (\<lambda>e w. (Inr (), w)) default_id_of ''viewer'' Auto True (Some filter_decider)
      (Some filter_permits) world0 = (Inr res, w')
    \<and> fr_kept res = [JObj [(''id'', JStr ''document:a'')]] \<and> length (fr_dropped res) = 3
    \<and> readable filter_decider sample_chain ''viewer'' (Some filter_permits) world0 ''document:a''"
proof -
  let ?run = "filter_items sample_chain filter_sample filter_engine (\<lambda>e w. (Inr (), w)) default_id_of ''viewer'' Auto True (Some filter_decider)
      (Some filter_permits)"
  have "wp ?run (\<lambda>res _. fr_kept res = [JObj [(''id'', JStr ''document:a'')]]) (\<lambda>_ _. False) world0"
    by (rule wp_mono [OF filter_sample_run]) (simp_all add: filter_sample_kept filter_sample_laws(4))
  then obtain res w' where run: "?run world0 = (Inr res, w')" and kept: "fr_kept res = [JObj [(''id'', JStr ''document:a'')]]"
    by (cases "?run world0") (auto simp: wp_def split: sum.splits)
  have len: "length filter_sample = 4" by (simp add: filter_sample_def)
  have ref: "reference default_id_of (JObj [(''id'', JStr ''document:a'')]) = Some ''document:a''" by code_simp
  from filter_keeps_only_readable [OF run] kept ref len run show ?thesis
    by (intro exI [of _ res] exI [of _ w']) simp
qed

end
