(* ===== verification/Integ_Session.thy ===== *)
theory Integ_Session
  imports Memory_Service Read_Filter "HOL-Library.Multiset"
begin

text \<open>
  What every integration uses: the agent session (\<open>integrations/session.py\<close>), the tool guard
  (\<open>integrations/guard.py\<close>) and the tool catalog (\<open>integrations/catalog.py\<close>).

  A session binds a token and its caller to the token service and the gate. \<open>ApprovalPending\<close> carries the
  request id, so the calls of a guard raise \<open>guard_exn\<close>. A guarded function is its arguments by name
  together with the call itself: binding positional arguments to names is \<open>inspect.signature\<close>, and
  \<open>_run_sync\<close> only chooses the thread the coroutine runs on.
\<close>

section \<open>The session\<close>

record ('w, 'b, 'pub, 'priv) agent_session =
  se_token :: string
  se_caller :: string
  se_tokens :: "('w, 'b, 'pub, 'priv) token_service"
  se_gate :: "'w action_gate"
  se_revocation_ids :: "string list"

definition mk_session ::
    "string \<Rightarrow> string \<Rightarrow> ('w, 'b, 'pub, 'priv) token_service \<Rightarrow> 'w action_gate \<Rightarrow> string list
     \<Rightarrow> exn + ('w, 'b, 'pub, 'priv) agent_session" where
  "mk_session token who svc g ids = (case validate_ref who ''agent'' of Inl e \<Rightarrow> Inl e
     | Inr _ \<Rightarrow> Inr \<lparr>se_token = token, se_caller = who, se_tokens = svc, se_gate = g, se_revocation_ids = ids\<rparr>)"

definition session_chain ::
    "(('x, 'm) world_scheme, 'b, 'pub, 'priv) agent_session \<Rightarrow> (('x, 'm) world_scheme, exn, principal_chain) eff" where
  "session_chain se = bindE (inspect (se_tokens se) (se_token se) (se_caller se)) (\<lambda>v. retE (vt_chain v))"

definition session_permits ::
    "(('x, 'm) world_scheme, 'b, 'pub, 'priv) agent_session \<Rightarrow> ('x, 'm) world_scheme resource_permits" where
  "session_permits se op rs = bindE (verify_many (se_tokens se) (se_token se) (se_caller se) op rs) (\<lambda>(v, answers). retE answers)"

definition tool_resource :: "string \<Rightarrow> exn + string" where
  "tool_resource tool = (let name = (if startswith tool ''tool:'' then tool else ''tool:'' @ tool) in
     (case validate_ref name ''tool'' of
        Inl e \<Rightarrow> if catches InvariantViolation e then Inl (Hoc ActionDenied ''invalid_tool'') else Inl e
      | Inr r \<Rightarrow> Inr r))"

text \<open>The event of a refusal without a proven chain.\<close>

definition unproven_event ::
    "event_kind \<Rightarrow> string \<Rightarrow> string \<Rightarrow> string \<Rightarrow> string \<Rightarrow> (('x, 'm) world_scheme, exn, audit_event) eff" where
  "unproven_event k who r reason token = bindE now (\<lambda>t. bindE uuid4_hex (\<lambda>eid. retE
     \<lparr>ev_kind = k, ev_timestamp = t, ev_subject = ''-'', ev_actor = who, ev_delegation_depth = 0,
      ev_action = ''act:can_invoke'', ev_resource = r, ev_outcome = ''DENY'', ev_reason = reason,
      ev_engine_latency_ms = float_zero, ev_token_fingerprint = Some (fingerprint token), ev_args_hash = None,
      ev_decision_id = None, ev_event_id = eid\<rparr>))"

definition session_verify ::
    "(('x, 'm) world_scheme, 'b, 'pub, 'priv) agent_session \<Rightarrow> string \<Rightarrow> (('x, 'm) world_scheme, exn, principal_chain) eff" where
  "session_verify se r = bindE (catchE (verify (se_tokens se) (se_token se) (se_caller se) ACT r) (\<lambda>e.
     if catches TokenInvalid e then
       bindE (unproven_event EvDecision (se_caller se) r (failure_reason [] e) (se_token se)) (\<lambda>ev.
       bindE (ga_audit (se_gate se) ev) (\<lambda>_. raiseE (Hoc ActionDenied (failure_reason [] e))))
     else raiseE e)) (\<lambda>v. retE (vt_chain v))"

definition session_authorize ::
    "(('x, 'm) world_scheme, 'b, 'pub, 'priv) agent_session \<Rightarrow> string \<Rightarrow> tool_args option
     \<Rightarrow> (('x, 'm) world_scheme, exn, gate_result) eff" where
  "session_authorize se tool args = bindE (liftE (tool_resource tool)) (\<lambda>r.
     bindE (session_verify se r) (\<lambda>c. gate (se_gate se) c r args))"

definition session_redeem ::
    "(('x, 'm) world_scheme, 'b, 'pub, 'priv) agent_session \<Rightarrow> string \<Rightarrow> string \<Rightarrow> tool_args option
     \<Rightarrow> (('x, 'm) world_scheme, exn, decision) eff" where
  "session_redeem se i tool args = bindE (liftE (tool_resource tool)) (\<lambda>r.
     bindE (session_verify se r) (\<lambda>c. redeem (se_gate se) c i args (Some r)))"

definition session_delegate ::
    "(('x, 'm) world_scheme, 'b, 'pub, 'priv) agent_session \<Rightarrow> string \<Rightarrow> scope
     \<Rightarrow> (('x, 'm) world_scheme, exn, (('x, 'm) world_scheme, 'b, 'pub, 'priv) agent_session) eff" where
  "session_delegate se b s = bindE (service_attenuate (se_tokens se) (se_token se) b s) (\<lambda>i.
     liftE (mk_session (it_token i) b (se_tokens se) (se_gate se) (it_revocation_ids i)))"

section \<open>The guard\<close>

datatype on_deny = OnRaise | OnMessage

datatype guard_exn = Raised exn | Pending string string

record ('w, 'b, 'pub, 'priv) tool_guard =
  tg_session :: "('w, 'b, 'pub, 'priv) agent_session"
  tg_on_deny :: on_deny
  tg_tool_map :: "(string \<times> string) list"
  tg_default_resource :: "(string \<Rightarrow> string) option"

definition resource_for :: "('w, 'b, 'pub, 'priv) tool_guard \<Rightarrow> string \<Rightarrow> string" where
  "resource_for g name = (case map_of (tg_tool_map g) name of
     Some r \<Rightarrow> r
   | None \<Rightarrow> (case tg_default_resource g of Some f \<Rightarrow> f name | None \<Rightarrow> name))"

text \<open>An exception of the core as the guard raises it.\<close>

definition raised :: "('w, exn, 'a) eff \<Rightarrow> ('w, guard_exn, 'a) eff" where
  "raised m = (\<lambda>w. case m w of (Inl e, w') \<Rightarrow> (Inl (Raised e), w') | (Inr x, w') \<Rightarrow> (Inr x, w'))"

definition guard_authorize ::
    "(('x, 'm) world_scheme, 'b, 'pub, 'priv) tool_guard \<Rightarrow> string \<Rightarrow> tool_args
     \<Rightarrow> (('x, 'm) world_scheme, guard_exn, gate_result) eff" where
  "guard_authorize g name args =
     bindE (raised (session_authorize (tg_session g) (resource_for g name) (Some args))) (\<lambda>res.
     if gate_allowed res then retE res
     else if gate_pending res then
       (case gr_approval res of Some rq \<Rightarrow> raiseE (Pending (rq_request_id rq) name)
        | None \<Rightarrow> raiseE (Raised (Hoc ActionDenied (d_reason (gr_decision res)))))
     else raiseE (Raised (Hoc ActionDenied (d_reason (gr_decision res)))))"

definition caught_refusal :: "guard_exn \<Rightarrow> bool" where
  "caught_refusal e = (case e of Raised x \<Rightarrow> catches ActionDenied x | Pending i tool \<Rightarrow> True)"

definition squote :: string where
  "squote = [CHR 0x27]"

definition refusal_message :: "string \<Rightarrow> guard_exn \<Rightarrow> string" where
  "refusal_message name e = (case e of
     Pending i tool \<Rightarrow> ''HeadOfContext: tool '' @ squote @ name @ squote @ '' requires approval (request '' @ i
       @ ''). Do not retry until it is approved.''
   | Raised x \<Rightarrow> ''HeadOfContext denied tool '' @ squote @ name @ squote @ '': '' @ failure_reason [] x @ ''. Do not retry.'')"

datatype 'r guarded = Output 'r | Message string

definition refuse :: "('w, 'b, 'pub, 'priv) tool_guard \<Rightarrow> string \<Rightarrow> guard_exn \<Rightarrow> ('w, guard_exn, 'r guarded) eff" where
  "refuse g name e = (case tg_on_deny g of OnRaise \<Rightarrow> raiseE e | OnMessage \<Rightarrow> retE (Message (refusal_message name e)))"

text \<open>\<open>wrap\<close> and \<open>wrap_async\<close>: the guarded function called with arguments \<open>args\<close>; \<open>fn\<close> is the call of the original.\<close>

definition guarded_call ::
    "(('x, 'm) world_scheme, 'b, 'pub, 'priv) tool_guard \<Rightarrow> string \<Rightarrow> tool_args \<Rightarrow> (('x, 'm) world_scheme, guard_exn, 'r) eff
     \<Rightarrow> (('x, 'm) world_scheme, guard_exn, 'r guarded) eff" where
  "guarded_call g name args fn = bindE (attemptE (guard_authorize g name args)) (\<lambda>res. case res of
     Inl e \<Rightarrow> if caught_refusal e then refuse g name e else raiseE e
   | Inr _ \<Rightarrow> bindE fn (\<lambda>x. retE (Output x)))"

section \<open>The catalog\<close>

record tool_catalog =
  tc_visible :: "string list"
  tc_hidden :: "string list"
  tc_token_refused :: nat
  tc_outcomes :: "string \<Rightarrow> outcome option"

definition catalog_resource :: "string \<Rightarrow> string option" where
  "catalog_resource name = (case tool_resource name of Inr r \<Rightarrow> Some r | Inl e \<Rightarrow> None)"

definition listed_event ::
    "principal_chain \<Rightarrow> string list \<Rightarrow> string list \<Rightarrow> nat \<Rightarrow> (('x, 'm) world_scheme, exn, audit_event) eff" where
  "listed_event c visible hidden token_refused =
     (let named = (\<lambda>n. case catalog_resource n of Some r \<Rightarrow> r | None \<Rightarrow> n) in
     bindE now (\<lambda>t. bindE uuid4_hex (\<lambda>eid. retE
     \<lparr>ev_kind = EvToolsListed, ev_timestamp = t, ev_subject = ch_subject c, ev_actor = ch_actor c,
      ev_delegation_depth = chain_depth c, ev_action = ''act:can_invoke'', ev_resource = ''tool:*'',
      ev_outcome = (if visible \<noteq> [] then ''ALLOW'' else ''DENY''),
      ev_reason = ''visible='' @ show_nat (length visible) @ '' hidden='' @ show_nat (length hidden)
        @ '' token_refused='' @ show_nat token_refused @ '' visible_sha256='' @ take 16 (ref_digest (map named visible)),
      ev_engine_latency_ms = float_zero, ev_token_fingerprint = None, ev_args_hash = Some (ref_digest (map named hidden)),
      ev_decision_id = None, ev_event_id = eid\<rparr>)))"

text \<open>\<open>by_resource.get(resource, Outcome.DENY) if resource else Outcome.DENY\<close>\<close>

definition tool_outcome :: "(string \<Rightarrow> outcome option) \<Rightarrow> string \<Rightarrow> outcome" where
  "tool_outcome by_resource name = (case catalog_resource name of None \<Rightarrow> DENY
     | Some r \<Rightarrow> (case by_resource r of Some oc \<Rightarrow> oc | None \<Rightarrow> DENY))"

text \<open>The \<open>try\<close> block: the chain and the answers of the token.\<close>

definition proven ::
    "(('x, 'm) world_scheme, 'b, 'pub, 'priv) agent_session \<Rightarrow> string list
     \<Rightarrow> (('x, 'm) world_scheme, exn, principal_chain \<times> (string \<times> bool) list) eff" where
  "proven se wanted = bindE (session_chain se) (\<lambda>c.
     bindE (if wanted = [] then retE [] else session_permits se ACT wanted) (\<lambda>answers. retE (c, answers)))"

text \<open>The part after it: the decider on what the token permits, the split, the event.\<close>

definition catalog_from ::
    "('x, 'm) world_scheme action_gate \<Rightarrow> principal_chain \<Rightarrow> string list \<Rightarrow> string list \<Rightarrow> (string \<times> bool) list
     \<Rightarrow> (('x, 'm) world_scheme, exn, tool_catalog) eff" where
  "catalog_from g c tools wanted answers =
     (let bad = filter (\<lambda>r. \<not> dict_permits answers r) wanted in
     bindE (decide_each (ga_decider g) c action_invoke (filter (\<lambda>r. r \<notin> set bad) wanted) False None None) (\<lambda>dns.
     let by_resource = all_denied bad ++ outcomes_of dns;
         visible = filter (\<lambda>n. tool_outcome by_resource n \<noteq> DENY) tools;
         hidden = filter (\<lambda>n. tool_outcome by_resource n = DENY) tools in
     bindE (listed_event c visible hidden (length bad)) (\<lambda>ev.
     bindE (ga_audit g ev) (\<lambda>_.
     retE \<lparr>tc_visible = visible, tc_hidden = hidden, tc_token_refused = length bad,
           tc_outcomes = (\<lambda>n. if n \<in> set tools then Some (tool_outcome by_resource n) else None)\<rparr>))))"

definition visible_tools ::
    "(('x, 'm) world_scheme, 'b, 'pub, 'priv) agent_session \<Rightarrow> string list \<Rightarrow> ('x, 'm) world_scheme action_gate option
     \<Rightarrow> (('x, 'm) world_scheme, exn, tool_catalog) eff" where
  "visible_tools se tools gate0 =
     (if tools = [] then retE \<lparr>tc_visible = [], tc_hidden = [], tc_token_refused = 0, tc_outcomes = Map.empty\<rparr>
      else
      let g = (case gate0 of Some g \<Rightarrow> g | None \<Rightarrow> se_gate se);
          wanted = sorted_list_of_set (set (List.map_filter catalog_resource tools)) in
      bindE (attemptE (proven se wanted)) (\<lambda>res. case res of
        Inl e \<Rightarrow>
          if catches TokenInvalid e then
            bindE (unproven_event EvToolsListed (se_caller se) ''tool:*'' (failure_reason [] e) (se_token se)) (\<lambda>ev.
            bindE (ga_audit g ev) (\<lambda>_.
            retE \<lparr>tc_visible = [], tc_hidden = tools, tc_token_refused = 0, tc_outcomes = all_denied tools\<rparr>))
          else raiseE e
      | Inr (c, answers) \<Rightarrow> catalog_from g c tools wanted answers))"

section \<open>Lemmas\<close>

text \<open>\<open>tool_resource\<close> raises nothing but \<open>ActionDenied\<close>, so \<open>catalog_resource\<close> swallows every exception of it.\<close>

lemma tool_resource_raises: "tool_resource tool = Inl e \<Longrightarrow> e = Hoc ActionDenied ''invalid_tool''"
  by (auto simp: tool_resource_def Let_def validate_ref_def hoc_def split: sum.splits if_splits)

lemma tool_resource_valid: "tool_resource tool = Inr r \<Longrightarrow> valid_ref r ''tool''"
  by (auto simp: tool_resource_def Let_def validate_ref_def split: sum.splits if_splits)

lemma session_verify_run:
  "session_verify se r w = (Inr c, w') \<Longrightarrow> \<exists>v. verify (se_tokens se) (se_token se) (se_caller se) ACT r w = (Inr v, w') \<and> c = vt_chain v"
  unfolding session_verify_def bindE_Inr
  by (auto simp: catchE_def retE_def raiseE_def bindE_def split: prod.splits sum.splits if_splits)

lemma gate_allowed_run:
  "gate g c tool args w = (Inr res, w') \<Longrightarrow> gate_allowed res \<Longrightarrow>
    decide (ga_decider g) c action_invoke tool (Some (args_or_empty args)) None w = (Inr (gr_decision res), w')"
  unfolding gate_def Let_def bindE_Inr [of "liftE _"] bindE_Inr [of "decide _ _ _ _ _ _"]
  by (auto simp: liftE_def gate_allowed_def bindE_Inr retE_def split: if_splits sum.splits)

text \<open>
  What an allowed tool call rests on, from the world the session was asked in: the token verified for its
  caller, the operation and the tool, and for the chain it proved the scope covers the tool, the policy
  allows the arguments and the engine related the subject to the tool.
\<close>

definition invoke_grounds ::
    "(('x, 'm) world_scheme, 'b, 'pub, 'priv) agent_session \<Rightarrow> string \<Rightarrow> tool_args \<Rightarrow> ('x, 'm) world_scheme \<Rightarrow> bool" where
  "invoke_grounds se r args w \<longleftrightarrow> (\<exists>v w1 w2. verify (se_tokens se) (se_token se) (se_caller se) ACT r w = (Inr v, w1)
     \<and> scope_covers (ch_scope (vt_chain v)) (Capability ACT r)
     \<and> fst (spec_policy (dc_policy (ga_decider (se_gate se))) (vt_chain v) action_invoke r args no_context) = ALLOW
     \<and> eng_check (dc_engine (ga_decider (se_gate se))) (ch_subject (vt_chain v)) ''can_invoke'' r
         (w1\<lparr>w_perf_at := w_perf_at w1 + 2\<rparr>) = (Inr True, w2))"

lemma session_authorize_grounds:
  assumes "session_authorize se tool args w = (Inr res, w')" "gate_allowed res"
  shows "\<exists>r. tool_resource tool = Inr r \<and> invoke_grounds se r (args_or_empty args) w"
proof -
  obtain r c w1 where r: "tool_resource tool = Inr r" and ver: "session_verify se r w = (Inr c, w1)"
      and gate: "gate (se_gate se) c r args w1 = (Inr res, w')"
    using assms(1) unfolding session_authorize_def bindE_Inr by (auto simp: liftE_def)
  obtain v where v: "verify (se_tokens se) (se_token se) (se_caller se) ACT r w = (Inr v, w1)" "c = vt_chain v"
    using session_verify_run [OF ver] by blast
  have "d_outcome (gr_decision res) = ALLOW" using assms(2) by (simp add: gate_allowed_def)
  from decide_ALLOW_grounds [OF gate_allowed_run [OF gate assms(2)] this]
  have "scope_covers (ch_scope c) (Capability ACT r)"
    "fst (spec_policy (dc_policy (ga_decider (se_gate se))) c action_invoke r (args_or_empty args) no_context) = ALLOW"
    "\<exists>w2. eng_check (dc_engine (ga_decider (se_gate se))) (ch_subject c) ''can_invoke'' r (w1\<lparr>w_perf_at := w_perf_at w1 + 2\<rparr>) = (Inr True, w2)"
    by (auto simp: spec_policy_eq action_invoke_def args_or_empty_def context_or_none_def)
  then show ?thesis using r v unfolding invoke_grounds_def by blast
qed

lemma guard_authorize_run:
  "guard_authorize g name args w = (Inr res, w') \<Longrightarrow>
    gate_allowed res \<and> session_authorize (tg_session g) (resource_for g name) (Some args) w = (Inr res, w')"
  unfolding guard_authorize_def bindE_Inr
  by (auto simp: raised_def retE_def raiseE_def split: prod.splits sum.splits if_splits option.splits)

lemma each_ok_not_DENY:
  "each_ok d c a args ctx r (oc, reason) \<Longrightarrow> oc \<noteq> DENY \<Longrightarrow> scope_covers (ch_scope c) (Capability (act_kind a) r)
    \<and> each_answered (dc_engine d) (ch_subject c) (act_relation a) r (Inr True) \<and> fst (spec_policy (dc_policy d) c a r args ctx) = oc"
  by (auto simp: each_ok_def spec_decide_def split: if_splits sum.splits bool.splits) (metis fst_conv)

lemma catalog_resource_Some: "catalog_resource n = Some r \<longleftrightarrow> tool_resource n = Inr r"
  by (auto simp: catalog_resource_def split: sum.splits)

lemma catalog_wanted:
  fixes tools :: "string list"
  defines "wanted \<equiv> sorted_list_of_set (set (List.map_filter catalog_resource tools))"
  shows "list_all valid_pattern (filter P wanted)"
proof -
  have "set wanted = set (List.map_filter catalog_resource tools)" unfolding wanted_def by simp
  then show ?thesis
    by (auto simp: list_all_iff set_map_filter catalog_resource_Some intro: valid_ref_pattern tool_resource_valid)
qed

lemma proven_run:
  "proven se wanted w = (Inr (c, answers), w') \<Longrightarrow> \<exists>w1. session_chain se w = (Inr c, w1)
    \<and> (wanted \<noteq> [] \<longrightarrow> session_permits se ACT wanted w1 = (Inr answers, w'))"
  by (auto simp: proven_def bindE_Inr retE_def split: if_splits)

lemma shown_outcome:
  assumes "tool_outcome (all_denied bad ++ outcomes_of dns) n \<noteq> DENY"
  obtains r oc where "tool_resource n = Inr r" "outcomes_of dns r = Some oc" "oc \<noteq> DENY"
  using assms by (auto simp: tool_outcome_def all_denied_def map_add_def catalog_resource_Some split: option.splits if_splits)

lemma catalog_from_grounds:
  assumes run: "catalog_from g c tools wanted answers w = (Inr cat, w')" and valid: "\<And>P. list_all valid_pattern (filter P wanted)"
  shows "mset tools = mset (tc_visible cat) + mset (tc_hidden cat)"
    "n \<in> set (tc_visible cat) \<Longrightarrow> \<exists>r. tool_resource n = Inr r \<and> r \<in> set wanted \<and> dict_permits answers r
      \<and> scope_covers (ch_scope c) (Capability ACT r) \<and> each_answered (dc_engine (ga_decider g)) (ch_subject c) ''can_invoke'' r (Inr True)
      \<and> fst (spec_policy (dc_policy (ga_decider g)) c action_invoke r [] no_context) \<noteq> DENY"
proof -
  let ?bad = "filter (\<lambda>r. \<not> dict_permits answers r) wanted"
  let ?cands = "filter (\<lambda>r. r \<notin> set ?bad) wanted"
  obtain dns w2 where dec: "decide_each (ga_decider g) c action_invoke ?cands False None None w = (Inr dns, w2)"
      and cat: "tc_visible cat = filter (\<lambda>n. tool_outcome (all_denied ?bad ++ outcomes_of dns) n \<noteq> DENY) tools"
        "tc_hidden cat = filter (\<lambda>n. tool_outcome (all_denied ?bad ++ outcomes_of dns) n = DENY) tools"
    using run unfolding catalog_from_def Let_def bindE_Inr retE_def by (elim exE conjE) auto
  show "mset tools = mset (tc_visible cat) + mset (tc_hidden cat)"
    unfolding cat using multiset_partition [of "mset tools" "\<lambda>n. tool_outcome (all_denied ?bad ++ outcomes_of dns) n \<noteq> DENY"] by simp
  assume "n \<in> set (tc_visible cat)"
  then have "tool_outcome (all_denied ?bad ++ outcomes_of dns) n \<noteq> DENY" unfolding cat by simp
  then obtain r oc where r: "tool_resource n = Inr r" "outcomes_of dns r = Some oc" "oc \<noteq> DENY" by (rule shown_outcome)
  from outcomes_of_Some [OF decide_each_grounds [OF dec valid] r(2)] obtain reason where "r \<in> set ?cands"
    and ok: "each_ok (ga_decider g) c action_invoke [] no_context r (oc, reason)" by (auto simp: args_or_empty_def context_or_none_def)
  then show "\<exists>r. tool_resource n = Inr r \<and> r \<in> set wanted \<and> dict_permits answers r
      \<and> scope_covers (ch_scope c) (Capability ACT r) \<and> each_answered (dc_engine (ga_decider g)) (ch_subject c) ''can_invoke'' r (Inr True)
      \<and> fst (spec_policy (dc_policy (ga_decider g)) c action_invoke r [] no_context) \<noteq> DENY"
    using r(1,3) each_ok_not_DENY [OF ok r(3)] by (intro exI [of _ r]) (auto simp: action_invoke_def)
qed

section \<open>Properties\<close>

text \<open>
  C26: a guarded tool runs only when it was allowed. When a wrapped function gives an output, the original
  was called after the session had allowed this tool with exactly these arguments, on the grounds of
  \<open>invoke_grounds\<close>; when it gives a message or raises a refusal, no view of the world that the session leaves
  alone has changed, so the original has not run.
\<close>

theorem guarded_runs_only_allowed:
  assumes "guarded_call g name args fn w = (res, w')"
    and "keeps f (guard_authorize g name args)"
  shows "case res of
      Inr (Output x) \<Rightarrow> \<exists>r gr w1. tool_resource (resource_for g name) = Inr r \<and> invoke_grounds (tg_session g) r args w
        \<and> guard_authorize g name args w = (Inr gr, w1) \<and> fn w1 = (Inr x, w')
    | Inr (Message m) \<Rightarrow> f w' = f w
    | Inl e \<Rightarrow> f w' = f w \<or> (\<exists>r gr w1. tool_resource (resource_for g name) = Inr r \<and> invoke_grounds (tg_session g) r args w
        \<and> guard_authorize g name args w = (Inr gr, w1) \<and> fn w1 = (Inl e, w'))"
proof -
  obtain a w1 where a: "guard_authorize g name args w = (a, w1)" by fastforce
  have same: "f w1 = f w" by (rule keepsD [OF assms(2) a])
  show ?thesis
  proof (cases a)
    case (Inl e)
    then show ?thesis using assms(1) a same
      by (auto simp: guarded_call_def bindE_def attemptE_def refuse_def raiseE_def retE_def split: if_splits on_deny.splits)
  next
    case (Inr gr)
    have "\<exists>r. tool_resource (resource_for g name) = Inr r \<and> invoke_grounds (tg_session g) r args w"
      using guard_authorize_run [OF a [unfolded Inr]] session_authorize_grounds by (fastforce simp: args_or_empty_def)
    moreover have "bindE fn (\<lambda>x. retE (Output x)) w1 = (res, w')"
      using assms(1) a Inr by (simp add: guarded_call_def bindE_def attemptE_def)
    ultimately show ?thesis using a Inr
      by (cases "fn w1") (auto simp: bindE_def retE_def split: sum.splits)
  qed
qed

text \<open>
  A tool that is shown is one the gate would consider. The catalog splits the names it was given in
  order; when a name is visible, the token proved a chain in this call and permitted its resource, the
  scope covers it, the engine related the subject to it and the policy does not deny it.
\<close>

theorem visible_tools_grounds:
  assumes run: "visible_tools se tools gate0 w = (Inr cat, w')"
  shows "mset tools = mset (tc_visible cat) + mset (tc_hidden cat)
    \<and> list_all (\<lambda>n. \<exists>r c answers rs w1 w2. tool_resource n = Inr r \<and> session_chain se w = (Inr c, w1)
        \<and> session_permits se ACT rs w1 = (Inr answers, w2) \<and> dict_permits answers r
        \<and> scope_covers (ch_scope c) (Capability ACT r)
        \<and> each_answered (dc_engine (ga_decider (case gate0 of Some g \<Rightarrow> g | None \<Rightarrow> se_gate se))) (ch_subject c) ''can_invoke'' r (Inr True)
        \<and> fst (spec_policy (dc_policy (ga_decider (case gate0 of Some g \<Rightarrow> g | None \<Rightarrow> se_gate se))) c action_invoke r [] no_context) \<noteq> DENY)
      (tc_visible cat)"
proof (cases "tools = []")
  case False
  let ?g = "case gate0 of Some g \<Rightarrow> g | None \<Rightarrow> se_gate se" and ?wanted = "sorted_list_of_set (set (List.map_filter catalog_resource tools))"
  obtain res w1 where prov: "proven se ?wanted w = (res, w1)" by fastforce
  show ?thesis
  proof (cases res)
    case (Inl e)
    then have "tc_visible cat = [] \<and> tc_hidden cat = tools" using run False prov
      by (auto simp: visible_tools_def Let_def bindE_def attemptE_def retE_def raiseE_def split: if_splits prod.splits sum.splits)
    then show ?thesis by simp
  next
    case (Inr ca)
    obtain c answers where ca: "ca = (c, answers)" by fastforce
    have rest: "catalog_from ?g c tools ?wanted answers w1 = (Inr cat, w')"
      using run False prov Inr ca by (simp add: visible_tools_def Let_def bindE_def attemptE_def)
    obtain wc where wc: "session_chain se w = (Inr c, wc)" "?wanted \<noteq> [] \<Longrightarrow> session_permits se ACT ?wanted wc = (Inr answers, w1)"
      using proven_run [of se ?wanted w c answers w1] prov Inr ca by auto
    note grounds = catalog_from_grounds [OF rest catalog_wanted]
    show ?thesis
    proof (rule conjI [OF grounds(1)], unfold list_all_iff, rule ballI)
      fix n assume "n \<in> set (tc_visible cat)"
      from grounds(2) [OF this] obtain r where r: "tool_resource n = Inr r" "r \<in> set ?wanted" "dict_permits answers r"
        "scope_covers (ch_scope c) (Capability ACT r)" "each_answered (dc_engine (ga_decider ?g)) (ch_subject c) ''can_invoke'' r (Inr True)"
        "fst (spec_policy (dc_policy (ga_decider ?g)) c action_invoke r [] no_context) \<noteq> DENY" by blast
      have "?wanted \<noteq> []" using r(2) by auto
      then show "\<exists>r c answers rs w1 w2. tool_resource n = Inr r \<and> session_chain se w = (Inr c, w1)
        \<and> session_permits se ACT rs w1 = (Inr answers, w2) \<and> dict_permits answers r \<and> scope_covers (ch_scope c) (Capability ACT r)
        \<and> each_answered (dc_engine (ga_decider ?g)) (ch_subject c) ''can_invoke'' r (Inr True)
        \<and> fst (spec_policy (dc_policy (ga_decider ?g)) c action_invoke r [] no_context) \<noteq> DENY"
        using r wc by (intro exI [of _ r] exI [of _ c] exI [of _ answers] exI [of _ ?wanted] exI [of _ wc] exI [of _ w1] conjI) simp_all
    qed
  qed
qed (use run in \<open>auto simp: visible_tools_def retE_def\<close>)


section \<open>Witnesses\<close>

definition root_biscuit :: sample_token where
  "root_biscuit = (1, 7, authority_builder ''user:alice'' ''agent:a'' (ch_scope sample_chain) 0 10 None, [])"

definition root_loaded :: "sample_token loaded" where
  "root_loaded = \<lparr>ld_biscuit = root_biscuit, ld_chain = sample_chain, ld_expires_at = 10, ld_mandate_id = None\<rparr>"

definition mail_gate :: "unit token_world action_gate" where
  "mail_gate = \<lparr>ga_decider = default_decider sample_engine (\<lambda>e w. (Inr (), w)), ga_approvals = pg_appr_store, ga_audit = (\<lambda>e w. (Inr (), w)),
     ga_ttl = DEFAULT_APPROVAL_TTL, ga_allow_self = False, ga_channels = [], ga_metrics = None\<rparr>"

definition mail_session :: "(unit token_world, sample_token, int, int) agent_session" where
  "mail_session = \<lparr>se_token = bl_to_base64 sample_lib root_biscuit, se_caller = ''agent:a'', se_tokens = sample_service, se_gate = mail_gate,
     se_revocation_ids = []\<rparr>"

definition mail_guard :: "(unit token_world, sample_token, int, int) tool_guard" where
  "mail_guard = \<lparr>tg_session = mail_session, tg_on_deny = OnMessage, tg_tool_map = [], tg_default_resource = None\<rparr>"

lemma root_load: "load sample_lib sample_keyring (bl_to_base64 sample_lib root_biscuit) = Inr root_loaded"
  unfolding root_loaded_def
proof (rule load_sealed [OF sample_lib_laws sample_lib_runs _ sample_keys(1)])
  show "sample_sealed root_biscuit 1 7" "length (sample_blocks root_biscuit) \<le> Suc MAX_DELEGATION_DEPTH"
    by (simp_all add: sample_sealed_def root_biscuit_def)
  have auth: "hd (sample_blocks root_biscuit) = authority_builder ''user:alice'' ''agent:a'' (ch_scope sample_chain) 0 10 None"
    by (simp add: root_biscuit_def)
  show "read_authority sample_lib root_biscuit = Inr (''user:alice'', ''agent:a'', ch_scope sample_chain, 10)"
      "read_mandate sample_lib root_biscuit = Inr None"
    using load_authority [OF sample_lib_laws sample_lib_runs auth] sample_chain_wf(2) by (simp_all add: wf_scope_def)
  show "root_chain ''user:alice'' ''agent:a'' (ch_scope sample_chain) = Inr sample_chain" by (rule sample_roots)
  show "rebuild_chain sample_chain (map (bl_block_source sample_lib root_biscuit) [1..<length (sample_blocks root_biscuit)]) = Inr sample_chain"
    by (simp add: root_biscuit_def)
qed

lemma mail_simps [simp]:
  "se_tokens mail_session = sample_service" "se_caller mail_session = ''agent:a''" "se_gate mail_session = mail_gate"
  "se_token mail_session = bl_to_base64 sample_lib root_biscuit" "tg_session mail_guard = mail_session" "resource_for mail_guard n = n"
  "ga_audit mail_gate ev w = (Inr (), w)" "ga_decider mail_gate = default_decider sample_engine (\<lambda>e w. (Inr (), w))"
  by (simp_all add: mail_session_def mail_gate_def mail_guard_def resource_for_def)

lemma mail_valid:
  "tool_resource ''mail'' = Inr ''tool:mail''" "validate_ref ''agent:a'' ''agent'' = Inr ''agent:a''" "valid_ref ''tool:mail'' ''tool''"
  "validate_resource_pattern ''tool:mail'' = Inr ''tool:mail''" "scope_covers (ch_scope sample_chain) (Capability ACT ''tool:mail'')"
  by code_simp+

lemma root_present:
  fixes w :: "unit token_world"
  assumes "w_db w (w_db_at w) = DbOk" "w_revoked_rows w = []"
  shows "present sample_service (bl_to_base64 sample_lib root_biscuit) ''agent:a'' w = (Inr root_loaded, w\<lparr>w_db_at := Suc (w_db_at w)\<rparr>)"
proof -
  have "bl_revocation_ids sample_lib root_biscuit \<noteq> []" by (simp add: sample_lib_def sample_blocks_def root_biscuit_def)
  then show ?thesis using assms
    by (simp add: present_def bindE_def liftE_def root_load service_is_revoked_def catchE_def pg_revocations_def pg_is_revoked_def
      db_query_def db_stmt_def Let_def loaded_revocation_ids_def with_mandate_def root_loaded_def retE_def
      sample_chain_def [THEN arg_cong [of _ _ ch_actor]])
qed

lemma root_authorized:
  assumes "t < 10"
  shows "bl_authorize sample_lib root_biscuit \<lparr>az_caller = ''agent:a'', az_operation = ''act'', az_resource = ''tool:mail'', az_time = t\<rparr> = Inr ()"
proof -
  have m: "sample_blocks root_biscuit = minted ''user:alice'' ''agent:a'' (ch_scope sample_chain) 0 10 None []"
    by (simp add: root_biscuit_def minted_def)
  show ?thesis
    using permits_minted [OF sample_minted(2), of "[]" sample_other "''user:alice''" "''agent:a''" 0 10 None "''agent:a''" ACT "''tool:mail''" t]
      m mail_valid(5) assms
    by (simp add: sample_lib_def)
qed

lemma root_verify:
  "\<exists>v w'. verify sample_service (bl_to_base64 sample_lib root_biscuit) ''agent:a'' ACT ''tool:mail'' token_world0 = (Inr v, w') \<and> vt_chain v = sample_chain"
  using root_authorized [of 0]
  by (simp add: verify_def bindE_def liftE_def mail_valid root_present now_def stateE_def retE_def verified_def root_loaded_def)

lemma mail_authorize:
  "\<exists>res w'. session_authorize mail_session ''mail'' (Some args) token_world0 = (Inr res, w') \<and> gate_allowed res"
proof -
  obtain v w1 where v: "verify sample_service (bl_to_base64 sample_lib root_biscuit) ''agent:a'' ACT ''tool:mail'' token_world0 = (Inr v, w1)"
      "vt_chain v = sample_chain"
    using root_verify by blast
  have "\<exists>dn w'. decide (ga_decider mail_gate) sample_chain action_invoke ''tool:mail'' (Some args) None w1 = (Inr dn, w') \<and> d_outcome dn = ALLOW"
  proof (rule decide_allows)
    show "valid_pattern ''tool:mail''" "valid_ref (ch_subject sample_chain) ''user''" by code_simp+
    show "scope_covers (ch_scope sample_chain) (Capability (act_kind action_invoke) ''tool:mail'')" by code_simp
  qed (simp_all add: default_decider_def sample_engine_def policy_verdict_def sink_raised_def)
  then obtain dn w2 where dec: "decide (ga_decider mail_gate) sample_chain action_invoke ''tool:mail'' (Some args) None w1 = (Inr dn, w2)"
    "d_outcome dn = ALLOW" by blast
  have "validate_ref ''tool:mail'' ''tool'' = Inr ''tool:mail''" using mail_valid(3) by (simp add: validate_ref_def)
  then show ?thesis using v dec
    by (simp add: session_authorize_def bindE_def liftE_def mail_valid session_verify_def catchE_def retE_def gate_def args_or_empty_def
        gate_allowed_def del: mail_simps(8))
qed

theorem guarded_runs_only_allowed_witness:
  "\<exists>w'. guarded_call mail_guard ''mail'' [(''to'', JStr ''bob'')] (retE ''sent'') token_world0 = (Inr (Output ''sent''), w')
    \<and> invoke_grounds mail_session ''tool:mail'' [(''to'', JStr ''bob'')] token_world0"
proof -
  obtain res w' where res: "session_authorize mail_session ''mail'' (Some [(''to'', JStr ''bob'')]) token_world0 = (Inr res, w')" "gate_allowed res"
    using mail_authorize by blast
  then have run: "guarded_call mail_guard ''mail'' [(''to'', JStr ''bob'')] (retE ''sent'') token_world0 = (Inr (Output ''sent''), w')"
    by (simp add: guarded_call_def guard_authorize_def raised_def bindE_def attemptE_def retE_def)
  have keep: "keeps (\<lambda>_. ()) m" for m :: "(unit token_world, guard_exn, gate_result) eff" by (simp add: keeps_def)
  from guarded_runs_only_allowed [OF run keep] run mail_valid(1) show ?thesis by auto
qed

lemma mail_proven:
  "\<exists>w1. proven mail_session [''tool:mail''] token_world0 = (Inr (sample_chain, [(''tool:mail'', True)]), w1)"
  using root_authorized [of 1]
  by (simp add: proven_def session_chain_def inspect_def session_permits_def verify_many_def bindE_def liftE_def mail_valid root_present now_def
      stateE_def retE_def verified_def root_loaded_def authorized_def)

lemma mail_catalog: "\<exists>cat w'. visible_tools mail_session [''mail''] None token_world0 = (Inr cat, w')"
proof -
  obtain w1 where prov: "proven mail_session [''tool:mail''] token_world0 = (Inr (sample_chain, [(''tool:mail'', True)]), w1)"
    using mail_proven by blast
  have ok: "list_all valid_pattern [''tool:mail'']" "valid_ref (ch_subject sample_chain) ''user''" by code_simp+
  have "\<not> sink_raised (ga_decider mail_gate) x" for x by (simp add: default_decider_def sink_raised_def)
  then obtain dns w2 where dec: "decide_each (ga_decider mail_gate) sample_chain action_invoke [''tool:mail''] False None None w1 = (Inr dns, w2)"
    using wp_decide_each [OF ok, of "ga_decider mail_gate" action_invoke False None None w1]
    by (cases "decide_each (ga_decider mail_gate) sample_chain action_invoke [''tool:mail''] False None None w1") (auto simp: wp_def split: sum.splits)
  show ?thesis using dec prov
    by (simp add: visible_tools_def List.map_filter_simps catalog_resource_def mail_valid bindE_def attemptE_def catalog_from_def dict_permits_def
        listed_event_def now_def uuid4_hex_def stateE_def retE_def Let_def del: mail_simps(8))
qed

theorem visible_tools_grounds_witness:
  "\<exists>cat w'. visible_tools mail_session [''mail''] None token_world0 = (Inr cat, w') \<and> mset [''mail''] = mset (tc_visible cat) + mset (tc_hidden cat)"
  using mail_catalog visible_tools_grounds by blast

end
