(* ===== verification/Integ_Frameworks.thy ===== *)
theory Integ_Frameworks
  imports Integ_Session
begin

text \<open>
  The tools of the agent frameworks (\<open>integrations/langgraph.py\<close>, \<open>integrations/crewai.py\<close>, \<open>integrations/pydanticai.py\<close>) and
  how the guard names positional arguments (\<open>_bind\<close> in \<open>integrations/guard.py\<close>).

  The frameworks are parameters: a tool is a record of what the wrappers read of it and of the calls they make, and a value that is
  not a tool of the framework is \<open>NotATool\<close> with the name of its type. A signature is what \<open>bind_partial\<close> answers.

  The lemmas show that every wrapper runs its tool only after the session allowed the call, that the wrappers agree wherever
  the guard decides, and where they differ: what CrewAI's wrapper hashes when it is given positional arguments, and which
  exceptions it takes for a refusal.
\<close>

section \<open>Arguments by name\<close>

type_synonym signature = "json list \<Rightarrow> tool_args \<Rightarrow> exn + tool_args"

text \<open>\<open>{"args": list(args), **kwargs}\<close>\<close>

definition unbound_args :: "json list \<Rightarrow> tool_args \<Rightarrow> tool_args" where
  "unbound_args args kwargs = fold (\<lambda>(k, v). AList.update k v) kwargs [(''args'', JArr args)]"

definition bind_args :: "signature \<Rightarrow> json list \<Rightarrow> tool_args \<Rightarrow> exn + tool_args" where
  "bind_args sig args kwargs = (case sig args kwargs of
     Inr bound \<Rightarrow> Inr bound
   | Inl e \<Rightarrow> if e = Other ''TypeError'' \<or> e = Other ''ValueError'' then Inr (unbound_args args kwargs) else Inl e)"

text \<open>\<open>wrap\<close> and \<open>wrap_async\<close> on the arguments as the caller gave them.\<close>

definition guarded_fn ::
    "(('x, 'm) world_scheme, 'b, 'pub, 'priv) tool_guard \<Rightarrow> string \<Rightarrow> signature
     \<Rightarrow> (json list \<Rightarrow> tool_args \<Rightarrow> (('x, 'm) world_scheme, guard_exn, 'r) eff) \<Rightarrow> json list \<Rightarrow> tool_args
     \<Rightarrow> (('x, 'm) world_scheme, guard_exn, 'r guarded) eff" where
  "guarded_fn g name sig fn args kwargs = (case bind_args sig args kwargs of
     Inl e \<Rightarrow> raiseE (Raised e)
   | Inr call_args \<Rightarrow> guarded_call g name call_args (fn args kwargs))"

section \<open>LangChain\<close>

record ('w, 'r) lc_tool =
  lc_name :: string
  lc_description :: string
  lc_args_schema :: json
  lc_return_direct :: bool
  lc_invoke :: "tool_args \<Rightarrow> ('w, guard_exn, 'r) eff"
  lc_ainvoke :: "tool_args \<Rightarrow> ('w, guard_exn, 'r) eff"

datatype 't candidate_tool = ATool 't | NotATool string

definition wrap_langchain_tool ::
    "('x, 'm) world_scheme itself \<Rightarrow> (('x, 'm) world_scheme, 'b, 'pub, 'priv) tool_guard \<Rightarrow> (('x, 'm) world_scheme, 'r) lc_tool
     \<Rightarrow> (('x, 'm) world_scheme, 'r guarded) lc_tool" where
  "wrap_langchain_tool ty g t = \<lparr>lc_name = lc_name t, lc_description = lc_description t, lc_args_schema = lc_args_schema t,
     lc_return_direct = lc_return_direct t,
     lc_invoke = (\<lambda>kwargs. guarded_call g (lc_name t) kwargs (lc_invoke t kwargs)),
     lc_ainvoke = (\<lambda>kwargs. guarded_call g (lc_name t) kwargs (lc_ainvoke t kwargs))\<rparr>"

text \<open>\<open>guard_tools\<close>: the list is wrapped in order, the first value that is no tool raises \<open>TypeError\<close>.\<close>

fun wrap_tools :: "('t \<Rightarrow> 'u) \<Rightarrow> 't candidate_tool list \<Rightarrow> exn + 'u list" where
  "wrap_tools f [] = Inr []"
| "wrap_tools f (NotATool n # ts) = Inl (Other ''TypeError'')"
| "wrap_tools f (ATool t # ts) = (case wrap_tools f ts of Inl e \<Rightarrow> Inl e | Inr us \<Rightarrow> Inr (f t # us))"

definition framework_guard ::
    "('w, 'b, 'pub, 'priv) agent_session \<Rightarrow> on_deny \<Rightarrow> (string \<times> string) list \<Rightarrow> ('w, 'b, 'pub, 'priv) tool_guard" where
  "framework_guard se od tool_map = \<lparr>tg_session = se, tg_on_deny = od, tg_tool_map = tool_map, tg_default_resource = None\<rparr>"

definition guard_langchain_tools ::
    "(('x, 'm) world_scheme, 'r) lc_tool candidate_tool list \<Rightarrow> (('x, 'm) world_scheme, 'b, 'pub, 'priv) agent_session \<Rightarrow> on_deny
     \<Rightarrow> (string \<times> string) list \<Rightarrow> exn + (('x, 'm) world_scheme, 'r guarded) lc_tool list" where
  "guard_langchain_tools tools se od tool_map =
     wrap_tools (wrap_langchain_tool TYPE(('x, 'm) world_scheme) (framework_guard se od tool_map)) tools"

section \<open>CrewAI\<close>

record ('w, 'r) crew_tool =
  cw_name :: string
  cw_description :: string
  cw_args_schema :: json
  cw_run :: "json list \<Rightarrow> tool_args \<Rightarrow> ('w, guard_exn, 'r) eff"

definition crew_args :: "json list \<Rightarrow> tool_args \<Rightarrow> tool_args" where
  "crew_args args kwargs = (if args = [] then kwargs else AList.update ''args'' (JArr args) kwargs)"

text \<open>\<open>refuse\<close> given any exception: the message reads its \<open>reason\<close>, which only the program's own exceptions have.\<close>

definition refuse_any :: "('w, 'b, 'pub, 'priv) tool_guard \<Rightarrow> string \<Rightarrow> guard_exn \<Rightarrow> ('w, guard_exn, 'r guarded) eff" where
  "refuse_any g name e = (case tg_on_deny g of
     OnRaise \<Rightarrow> raiseE e
   | OnMessage \<Rightarrow> (case e of Raised (Other m) \<Rightarrow> raiseE (Raised (Other ''AttributeError'')) | _ \<Rightarrow> retE (Message (refusal_message name e))))"

definition crew_call ::
    "(('x, 'm) world_scheme, 'b, 'pub, 'priv) tool_guard \<Rightarrow> (('x, 'm) world_scheme, 'r) crew_tool \<Rightarrow> json list \<Rightarrow> tool_args
     \<Rightarrow> (('x, 'm) world_scheme, guard_exn, 'r guarded) eff" where
  "crew_call g t args kwargs = bindE (attemptE (guard_authorize g (cw_name t) (crew_args args kwargs))) (\<lambda>res. case res of
     Inl e \<Rightarrow> refuse_any g (cw_name t) e
   | Inr _ \<Rightarrow> bindE (cw_run t args kwargs) (\<lambda>x. retE (Output x)))"

definition guard_crew_tool ::
    "(('x, 'm) world_scheme, 'b, 'pub, 'priv) tool_guard \<Rightarrow> (('x, 'm) world_scheme, 'r) crew_tool
     \<Rightarrow> (('x, 'm) world_scheme, 'r guarded) crew_tool" where
  "guard_crew_tool g t = \<lparr>cw_name = cw_name t, cw_description = cw_description t, cw_args_schema = cw_args_schema t, cw_run = crew_call g t\<rparr>"

definition guard_crew_tools ::
    "(('x, 'm) world_scheme, 'r) crew_tool candidate_tool list \<Rightarrow> (('x, 'm) world_scheme, 'b, 'pub, 'priv) agent_session \<Rightarrow> on_deny
     \<Rightarrow> (string \<times> string) list \<Rightarrow> exn + (('x, 'm) world_scheme, 'r guarded) crew_tool list" where
  "guard_crew_tools tools se od tool_map = wrap_tools (guard_crew_tool (framework_guard se od tool_map)) tools"

section \<open>PydanticAI\<close>

record ('w, 'b, 'pub, 'priv, 'r) hoc_toolset =
  pt_wrapped :: "string \<Rightarrow> tool_args \<Rightarrow> ('w, guard_exn, 'r) eff"
  pt_guard :: "('w, 'b, 'pub, 'priv) tool_guard"
  pt_on_deny :: on_deny

definition guard_toolset ::
    "(string \<Rightarrow> tool_args \<Rightarrow> ('w, guard_exn, 'r) eff) \<Rightarrow> ('w, 'b, 'pub, 'priv) agent_session \<Rightarrow> on_deny \<Rightarrow> (string \<times> string) list
     \<Rightarrow> ('w, 'b, 'pub, 'priv, 'r) hoc_toolset" where
  "guard_toolset wrapped se od tool_map = \<lparr>pt_wrapped = wrapped, pt_guard = framework_guard se od tool_map, pt_on_deny = od\<rparr>"

definition toolset_session :: "('w, 'b, 'pub, 'priv, 'r) hoc_toolset \<Rightarrow> ('w, 'b, 'pub, 'priv) agent_session" where
  "toolset_session ts = tg_session (pt_guard ts)"

definition toolset_call ::
    "(('x, 'm) world_scheme, 'b, 'pub, 'priv, 'r) hoc_toolset \<Rightarrow> string \<Rightarrow> tool_args
     \<Rightarrow> (('x, 'm) world_scheme, guard_exn, 'r guarded) eff" where
  "toolset_call ts name tool_args = bindE (attemptE (guard_authorize (pt_guard ts) name tool_args)) (\<lambda>res. case res of
     Inl e \<Rightarrow> if caught_refusal e then (case pt_on_deny ts of OnRaise \<Rightarrow> raiseE e | OnMessage \<Rightarrow> retE (Message (refusal_message name e)))
       else raiseE e
   | Inr _ \<Rightarrow> bindE (pt_wrapped ts name tool_args) (\<lambda>x. retE (Output x)))"

section \<open>Properties\<close>

lemma toolset_guarded: "toolset_call (guard_toolset wrapped se od tm) name args = guarded_call (framework_guard se od tm) name args (wrapped name args)"
  unfolding toolset_call_def guarded_call_def guard_toolset_def refuse_def framework_guard_def hoc_toolset.simps tool_guard.simps ..

lemma wrap_tools_all: "wrap_tools f (map ATool xs) = Inr (map f xs)"
  by (induction xs) simp_all

text \<open>
  The wrappers agree. On the same call with its arguments by name, the LangChain tool, sync or async, the
  PydanticAI toolset, a wrapped function and the CrewAI tool do the same to the world and give the same output, message or exception;
  CrewAI's only if what the guard raised, if anything, is a refusal.
\<close>

theorem wrappers_agree:
  fixes se :: "(('x, 'm) world_scheme, 'b, 'pub, 'priv) agent_session" and run :: "tool_args \<Rightarrow> (('x, 'm) world_scheme, guard_exn, 'r) eff"
  assumes g: "g = framework_guard se od tm" and caught: "\<And>e w'. guard_authorize g name kwargs w = (Inl e, w') \<Longrightarrow> caught_refusal e"
  shows "lc_invoke (wrap_langchain_tool ty g \<lparr>lc_name = name, lc_description = d, lc_args_schema = sch, lc_return_direct = rd,
      lc_invoke = run, lc_ainvoke = run\<rparr>) kwargs w = guarded_call g name kwargs (run kwargs) w
    \<and> lc_ainvoke (wrap_langchain_tool ty g \<lparr>lc_name = name, lc_description = d, lc_args_schema = sch, lc_return_direct = rd,
      lc_invoke = run, lc_ainvoke = run\<rparr>) kwargs w = guarded_call g name kwargs (run kwargs) w
    \<and> toolset_call (guard_toolset (\<lambda>n. run) se od tm) name kwargs w = guarded_call g name kwargs (run kwargs) w
    \<and> guarded_fn g name (\<lambda>a k. Inr k) (\<lambda>a. run) [] kwargs w = guarded_call g name kwargs (run kwargs) w
    \<and> crew_call g \<lparr>cw_name = name, cw_description = d, cw_args_schema = sch, cw_run = (\<lambda>a. run)\<rparr> [] kwargs w = guarded_call g name kwargs (run kwargs) w"
proof -
  have "crew_call g \<lparr>cw_name = name, cw_description = d, cw_args_schema = sch, cw_run = (\<lambda>a. run)\<rparr> [] kwargs w = guarded_call g name kwargs (run kwargs) w"
  proof (cases "guard_authorize g name kwargs w")
    case (Pair r w1)
    then show ?thesis using caught
      by (cases r) (auto simp: crew_call_def guarded_call_def bindE_def attemptE_def crew_args_def refuse_any_def refuse_def caught_refusal_def
          split: guard_exn.splits exn.splits on_deny.splits)
  qed
  then show ?thesis by (simp add: wrap_langchain_tool_def toolset_guarded g guarded_fn_def bind_args_def)
qed

text \<open>
  A CrewAI tool runs only after the session allowed the call. When the wrapped tool gives an output, the guard had allowed the tool
  with the arguments by name and the positional ones under \<open>args\<close>; any other end, whatever was raised, leaves every view of the world the guard
  leaves alone as it was, unless the tool itself was run and raised.
\<close>

theorem crew_runs_only_allowed:
  assumes "crew_call g t args kwargs w = (res, w')" and "keeps f (guard_authorize g (cw_name t) (crew_args args kwargs))"
  shows "(\<exists>r gr w1. tool_resource (resource_for g (cw_name t)) = Inr r \<and> invoke_grounds (tg_session g) r (crew_args args kwargs) w
      \<and> guard_authorize g (cw_name t) (crew_args args kwargs) w = (Inr gr, w1) \<and> bindE (cw_run t args kwargs) (\<lambda>x. retE (Output x)) w1 = (res, w'))
    \<or> (f w' = f w \<and> (\<forall>x. res \<noteq> Inr (Output x)))"
proof -
  obtain a w1 where a: "guard_authorize g (cw_name t) (crew_args args kwargs) w = (a, w1)" by fastforce
  show ?thesis
  proof (cases a)
    case (Inl e)
    have "f w1 = f w" by (rule keepsD [OF assms(2) a])
    then show ?thesis using assms(1) a Inl
      by (auto simp: crew_call_def bindE_def attemptE_def refuse_any_def raiseE_def retE_def split: on_deny.splits guard_exn.splits exn.splits)
  next
    case (Inr gr)
    have "\<exists>r. tool_resource (resource_for g (cw_name t)) = Inr r \<and> invoke_grounds (tg_session g) r (crew_args args kwargs) w"
      using guard_authorize_run [OF a [unfolded Inr]] session_authorize_grounds by (fastforce simp: args_or_empty_def)
    then show ?thesis using a Inr assms(1) by (auto simp: crew_call_def bindE_def attemptE_def)
  qed
qed

text \<open>
  What is authorized is not always what runs: with a positional argument, the value of a keyword argument named \<open>args\<close> reaches the tool and
  is seen by no policy, no approval and no hash.
\<close>

theorem crew_args_hide_keyword:
  assumes "args \<noteq> []" "''args'' \<notin> fst ` set kwargs"
  shows "crew_args args (kwargs @ [(''args'', v)]) = crew_args args (kwargs @ [(''args'', v')])"
  using assms by (induction kwargs) (auto simp: crew_args_def split: prod.splits)

text \<open>An outage is reported to the model as a final denial, and an exception that is not the program's own as an \<open>AttributeError\<close>.\<close>

theorem crew_swallows_outage:
  assumes "guard_authorize g (cw_name t) (crew_args args kwargs) w = (Inl (Raised e), w')" "tg_on_deny g = OnMessage"
  shows "crew_call g t args kwargs w = (case e of
      Hoc c reason \<Rightarrow> (Inr (Message (''HeadOfContext denied tool '' @ squote @ cw_name t @ squote @ '': '' @ reason @ ''. Do not retry.'')), w')
    | Other m \<Rightarrow> (Inl (Raised (Other ''AttributeError'')), w'))"
  using assms by (auto simp: crew_call_def bindE_def attemptE_def refuse_any_def retE_def raiseE_def refusal_message_def split: exn.splits)

section \<open>Witnesses\<close>

lemma mail_guard_framework: "framework_guard mail_session OnMessage [] = mail_guard"
  by (simp add: framework_guard_def mail_guard_def)

lemma mail_guard_allows: "\<exists>res w'. guard_authorize mail_guard ''mail'' args token_world0 = (Inr res, w')"
  using mail_authorize [of args] by (auto simp: guard_authorize_def raised_def bindE_def retE_def)

theorem wrappers_agree_witness:
  "toolset_call (guard_toolset (\<lambda>n a. retE ''sent'') mail_session OnMessage []) ''mail'' [(''to'', JStr ''bob'')] token_world0
    = crew_call mail_guard \<lparr>cw_name = ''mail'', cw_description = '''', cw_args_schema = JNull, cw_run = (\<lambda>a k. retE ''sent'')\<rparr>
        [] [(''to'', JStr ''bob'')] token_world0"
proof -
  have caught: "\<And>e w'. guard_authorize mail_guard ''mail'' [(''to'', JStr ''bob'')] token_world0 = (Inl e, w') \<Longrightarrow> caught_refusal e"
    using mail_guard_allows [of "[(''to'', JStr ''bob'')]"] by auto
  from wrappers_agree [where run = "\<lambda>a. retE ''sent''", OF mail_guard_framework [symmetric] caught] show ?thesis by simp
qed

theorem crew_runs_only_allowed_witness:
  "\<exists>w'. crew_call mail_guard \<lparr>cw_name = ''mail'', cw_description = '''', cw_args_schema = JNull, cw_run = (\<lambda>a k. retE ''sent'')\<rparr>
      [JStr ''hello''] [(''to'', JStr ''bob'')] token_world0 = (Inr (Output ''sent''), w')
    \<and> invoke_grounds mail_session ''tool:mail'' [(''to'', JStr ''bob''), (''args'', JArr [JStr ''hello''])] token_world0"
proof -
  let ?t = "\<lparr>cw_name = ''mail'', cw_description = '''', cw_args_schema = JNull, cw_run = (\<lambda>a k. retE ''sent'')\<rparr>"
  let ?args = "[(''to'', JStr ''bob''), (''args'', JArr [JStr ''hello''])]"
  have args: "crew_args [JStr ''hello''] [(''to'', JStr ''bob'')] = ?args" by (simp add: crew_args_def)
  obtain res w' where "guard_authorize mail_guard ''mail'' ?args token_world0 = (Inr res, w')" using mail_guard_allows by blast
  then have run: "crew_call mail_guard ?t [JStr ''hello''] [(''to'', JStr ''bob'')] token_world0 = (Inr (Output ''sent''), w')"
    by (simp add: crew_call_def bindE_def attemptE_def args retE_def)
  have keep: "keeps (\<lambda>_. ()) m" for m :: "(unit token_world, guard_exn, gate_result) eff" by (simp add: keeps_def)
  from crew_runs_only_allowed [OF run keep] run mail_valid(1) show ?thesis by (auto simp: args)
qed

end
