(* ===== verification/Integ_Mcp.thy ===== *)
theory Integ_Mcp
  imports Integ_Session
begin

text \<open>
  The MCP proxy (\<open>integrations/mcp.py\<close>): it re-exposes the tools of upstream MCP servers, lists the ones the
  subject may invoke and authorizes every call before it forwards it.

  The MCP library is a parameter: a client is a record of its two calls, a tool its name, description and
  input schema, and the result of an upstream call is of any type. The serving loop is the library's.
\<close>

record mcp_tool =
  tl_name :: string
  tl_description :: "string option"
  tl_input_schema :: json

record ('w, 'r) mcp_client =
  mc_call_tool :: "string \<Rightarrow> tool_args \<Rightarrow> ('w, exn, 'r) eff"
  mc_list_tools :: "string option \<Rightarrow> ('w, exn, mcp_tool list \<times> string option) eff"

datatype 'r tool_result = ErrorText string | Upstream 'r

definition REDEEM_TOOL :: string where
  "REDEEM_TOOL = ''hoc_redeem''"

definition UPSTREAM_SEPARATOR :: string where
  "UPSTREAM_SEPARATOR = ''__''"

definition redeem_description :: string where
  "redeem_description = ''Run a tool call that HeadOfContext put on hold for human approval. Pass the request id from the approval message, the tool name and exactly the same arguments as the original call. Fails until a human has approved the request.''"

definition redeem_schema :: json where
  "redeem_schema = JObj [(''type'', JStr ''object''),
     (''properties'', JObj [(''request_id'', JObj [(''type'', JStr ''string'')]), (''tool'', JObj [(''type'', JStr ''string'')]),
        (''args'', JObj [(''type'', JStr ''object'')])]),
     (''required'', JArr [JStr ''request_id'', JStr ''tool'']), (''additionalProperties'', JBool False)]"

text \<open>\<open>s.partition(sep)\<close>: what is before the first occurrence, whether there is one, what is after it.\<close>

fun partition_str :: "string \<Rightarrow> string \<Rightarrow> string \<times> bool \<times> string" where
  "partition_str sep [] = (if sep = [] then ([], True, []) else ([], False, []))"
| "partition_str sep (c # cs) =
     (if startswith (c # cs) sep then ([], True, drop (length sep) (c # cs))
      else (case partition_str sep cs of (a, found, b) \<Rightarrow> (c # a, found, b)))"

text \<open>\<open>^[a-z0-9][a-z0-9_-]*$\<close>; \<open>$\<close> also matches before a final newline.\<close>

definition upstream_name :: "string \<Rightarrow> bool" where
  "upstream_name s = list_ex (\<lambda>v. case v of [] \<Rightarrow> False | c # cs \<Rightarrow> c \<in> set (lower_alpha @ digits) \<and> list_all type_char cs) (dollar_views s)"

datatype 'c upstreams = Single 'c | Named "(string \<times> 'c) list"

record ('w, 'r, 'b, 'pub, 'priv) mcp_proxy =
  px_guard :: "('w, 'b, 'pub, 'priv) tool_guard"
  px_upstreams :: "('w, 'r) mcp_client upstreams"

definition default_resource :: "string \<Rightarrow> string" where
  "default_resource exposed = (case partition_str UPSTREAM_SEPARATOR exposed of (server, found, tool) \<Rightarrow> server @ ''/'' @ tool)"

definition name_ok :: "string \<Rightarrow> bool" where
  "name_ok server = (upstream_name server \<and> \<not> fst (snd (partition_str UPSTREAM_SEPARATOR server)))"

definition mk_proxy ::
    "('w, 'b, 'pub, 'priv) agent_session \<Rightarrow> ('w, 'r) mcp_client upstreams \<Rightarrow> (string \<times> string) list
     \<Rightarrow> exn + ('w, 'r, 'b, 'pub, 'priv) mcp_proxy" where
  "mk_proxy se ups tool_map =
     (let guard = (\<lambda>f. \<lparr>tg_session = se, tg_on_deny = OnRaise, tg_tool_map = tool_map, tg_default_resource = f\<rparr>) in
     (case ups of
        Single c \<Rightarrow> Inr \<lparr>px_guard = guard None, px_upstreams = ups\<rparr>
      | Named cs \<Rightarrow> if \<not> list_all (name_ok \<circ> fst) cs then Inl (hoc ConfigurationError)
          else Inr \<lparr>px_guard = guard (Some default_resource), px_upstreams = ups\<rparr>))"

definition route :: "('w, 'r, 'b, 'pub, 'priv) mcp_proxy \<Rightarrow> string \<Rightarrow> (('w, 'r) mcp_client \<times> string) option" where
  "route p name = (case px_upstreams p of
     Single c \<Rightarrow> Some (c, name)
   | Named cs \<Rightarrow> (case partition_str UPSTREAM_SEPARATOR name of (server, found, tool) \<Rightarrow>
       if \<not> found \<or> tool = [] then None
       else (case map_of cs server of None \<Rightarrow> None | Some c \<Rightarrow> Some (c, tool))))"

definition prefixed :: "string \<Rightarrow> mcp_tool \<Rightarrow> mcp_tool" where
  "prefixed server tool = tool\<lparr>tl_name := server @ UPSTREAM_SEPARATOR @ tl_name tool\<rparr>"

text \<open>
  The paging loop: an empty cursor ends it. The fuel bounds the pages; \<open>None\<close> is a run that needs more.
\<close>

primrec all_tools :: "nat \<Rightarrow> ('w, 'r) mcp_client \<Rightarrow> string option \<Rightarrow> ('w, exn, mcp_tool list option) eff" where
  "all_tools 0 cl cursor = retE None"
| "all_tools (Suc n) cl cursor =
     bindE (mc_list_tools cl (if cursor = Some [] then None else cursor)) (\<lambda>(tools, next_cursor).
       if next_cursor = None \<or> next_cursor = Some [] then retE (Some tools)
       else bindE (all_tools n cl next_cursor) (\<lambda>rest. retE (map_option (\<lambda>ts. tools @ ts) rest)))"

text \<open>The candidates: the redeem tool is the proxy's own, an upstream tool of its name is hidden.\<close>

definition exposed_tools :: "string option \<Rightarrow> mcp_tool list \<Rightarrow> mcp_tool list" where
  "exposed_tools server tools = filter (\<lambda>t. tl_name t \<noteq> REDEEM_TOOL)
     (map (\<lambda>t. case server of None \<Rightarrow> t | Some s \<Rightarrow> prefixed s t) tools)"

definition upstream_entries :: "'c upstreams \<Rightarrow> (string option \<times> 'c) list" where
  "upstream_entries ups = (case ups of Single c \<Rightarrow> [(None, c)] | Named cs \<Rightarrow> map (\<lambda>(s, c). (Some s, c)) cs)"

primrec candidate_tools ::
    "nat \<Rightarrow> (string option \<times> ('w, 'r) mcp_client) list \<Rightarrow> ('w, exn, mcp_tool list option) eff" where
  "candidate_tools fuel [] = retE (Some [])"
| "candidate_tools fuel (e # es) = bindE (all_tools fuel (snd e) None) (\<lambda>tools. case tools of
     None \<Rightarrow> retE None
   | Some ts \<Rightarrow> bindE (candidate_tools fuel es) (\<lambda>rest. retE (map_option (\<lambda>us. exposed_tools (fst e) ts @ us) rest)))"

definition redeem_tool :: mcp_tool where
  "redeem_tool = \<lparr>tl_name = REDEEM_TOOL, tl_description = Some redeem_description, tl_input_schema = redeem_schema\<rparr>"

definition list_tools ::
    "nat \<Rightarrow> (('x, 'm) world_scheme, 'r, 'b, 'pub, 'priv) mcp_proxy \<Rightarrow> (('x, 'm) world_scheme, exn, mcp_tool list option) eff" where
  "list_tools fuel p = bindE (candidate_tools fuel (upstream_entries (px_upstreams p))) (\<lambda>found. case found of
     None \<Rightarrow> retE None
   | Some candidates \<Rightarrow>
       let g = px_guard p in
       bindE (visible_tools (tg_session g) (map (\<lambda>t. resource_for g (tl_name t)) candidates) None) (\<lambda>cat.
       retE (Some (filter (\<lambda>t. tc_outcomes cat (resource_for g (tl_name t)) \<noteq> Some DENY) candidates @ [redeem_tool]))))"

definition forward ::
    "('w, 'r, 'b, 'pub, 'priv) mcp_proxy \<Rightarrow> string \<Rightarrow> tool_args \<Rightarrow> ('w, exn, 'r tool_result) eff" where
  "forward p name args = (case route p name of
     None \<Rightarrow> retE (ErrorText (''HeadOfContext: unknown tool '' @ squote @ name @ squote @ ''.''))
   | Some (cl, tool) \<Rightarrow> bindE (mc_call_tool cl tool args) (\<lambda>r. retE (Upstream r)))"

definition redeem_args :: "tool_args \<Rightarrow> json" where
  "redeem_args args = (case map_of args ''args'' of None \<Rightarrow> JObj [] | Some v \<Rightarrow> if json_falsy v then JObj [] else v)"

definition redeem_refused :: "string \<Rightarrow> string \<Rightarrow> 'r tool_result" where
  "redeem_refused i reason = ErrorText (''HeadOfContext refused to run request '' @ squote @ i @ squote @ '': '' @ reason @ ''.'')"

definition proxy_redeem ::
    "(('x, 'm) world_scheme, 'r, 'b, 'pub, 'priv) mcp_proxy \<Rightarrow> tool_args \<Rightarrow> (('x, 'm) world_scheme, exn, 'r tool_result) eff" where
  "proxy_redeem p args = (case (map_of args ''request_id'', map_of args ''tool'') of
     (Some (JStr i), Some (JStr tool)) \<Rightarrow>
       if tool = REDEEM_TOOL then retE (ErrorText (''HeadOfContext: '' @ squote @ REDEEM_TOOL @ squote @ '' needs a request_id and a tool name.''))
       else (case redeem_args args of
         JObj tool_args \<Rightarrow>
           bindE (attemptE (session_redeem (tg_session (px_guard p)) i (resource_for (px_guard p) tool) (Some tool_args))) (\<lambda>res. case res of
             Inl e \<Rightarrow> if catches HocError e then retE (redeem_refused i (failure_reason [] e)) else raiseE e
           | Inr dn \<Rightarrow> if d_outcome dn \<noteq> ALLOW then retE (redeem_refused i (d_reason dn)) else forward p tool tool_args)
       | _ \<Rightarrow> retE (ErrorText (''HeadOfContext: '' @ squote @ REDEEM_TOOL @ squote @ '' args must be an object.'')))
   | _ \<Rightarrow> retE (ErrorText (''HeadOfContext: '' @ squote @ REDEEM_TOOL @ squote @ '' needs a request_id and a tool name.'')))"

text \<open>Only refusals of the guard become error results; any other exception reaches the library.\<close>

definition proxy_call ::
    "(('x, 'm) world_scheme, 'r, 'b, 'pub, 'priv) mcp_proxy \<Rightarrow> string \<Rightarrow> tool_args option
     \<Rightarrow> (('x, 'm) world_scheme, guard_exn, 'r tool_result) eff" where
  "proxy_call p name arguments =
     (let args = args_or_empty arguments in
      if name = REDEEM_TOOL then raised (proxy_redeem p args)
      else bindE (attemptE (guard_authorize (px_guard p) name args)) (\<lambda>res. case res of
        Inl e \<Rightarrow> if caught_refusal e then retE (ErrorText (refusal_message name e)) else raiseE e
      | Inr _ \<Rightarrow> raised (forward p name args)))"

section \<open>Lemmas\<close>

lemma all_tools_mono:
  "all_tools n cl cursor w = (Inr (Some ts), w') \<Longrightarrow> n \<le> m \<Longrightarrow> all_tools m cl cursor w = (Inr (Some ts), w')"
proof (induction n arbitrary: m cursor w ts)
  case (Suc n)
  obtain k where m: "m = Suc k" "n \<le> k" using Suc.prems(2) by (cases m) auto
  obtain tools nc w1 where page: "mc_list_tools cl (if cursor = Some [] then None else cursor) w = (Inr (tools, nc), w1)"
    using Suc.prems(1) by (auto simp: bindE_Inr)
  show ?case
  proof (cases "nc = None \<or> nc = Some []")
    case True
    then show ?thesis using Suc.prems(1) page m(1) by (simp add: bindE_def)
  next
    case False
    then obtain us where us: "all_tools n cl nc w1 = (Inr (Some us), w')" "ts = tools @ us"
      using Suc.prems(1) page by (auto simp: bindE_def retE_def split: prod.splits sum.splits)
    then show ?thesis using Suc.IH [OF us(1) m(2)] page m(1) False by (auto simp: bindE_def retE_def)
  qed
qed (simp add: retE_def)

lemma separator_at: "startswith (c # cs) ''__'' \<longleftrightarrow> c = CHR ''_'' \<and> cs \<noteq> [] \<and> hd cs = CHR ''_''"
  by (cases cs) (auto simp: startswith_def)

lemma partition_prefixed:
  assumes "\<not> fst (snd (partition_str ''__'' server))" "server \<noteq> []" "last server \<noteq> CHR ''_''"
  shows "partition_str ''__'' (server @ ''__'' @ tool) = (server, True, tool)"
  using assms
proof (induction server)
  case (Cons c cs)
  then have "\<not> startswith (c # cs) ''__''" by (auto split: if_splits)
  then have no: "\<not> startswith ((c # cs) @ ''__'' @ tool) ''__''" using Cons.prems(3) unfolding append_Cons separator_at
    by (cases cs) auto
  show ?case
  proof (cases "cs = []")
    case True
    then show ?thesis using no by (simp add: startswith_def)
  next
    case False
    then have "partition_str ''__'' (cs @ ''__'' @ tool) = (cs, True, tool)"
      using Cons by (auto split: if_splits prod.splits)
    then show ?thesis using no by simp
  qed
qed simp

lemma raised_run: "raised m w = (r, w') \<longleftrightarrow> (\<exists>x. m w = (x, w') \<and> r = (case x of Inl e \<Rightarrow> Inl (Raised e) | Inr y \<Rightarrow> Inr y))"
  by (auto simp: raised_def split: prod.splits sum.splits)

lemma forward_run:
  assumes "forward p name args w = (res, w')"
  shows "(w' = w \<and> (\<exists>t. res = Inr (ErrorText t))) \<or> (\<exists>cl up x. route p name = Some (cl, up) \<and> mc_call_tool cl up args w = (x, w'))"
  using assms by (auto simp: forward_def retE_def bindE_def split: option.splits prod.splits sum.splits)

lemma proxy_redeem_run:
  fixes p :: "(('x, 'm) world_scheme, 'r, 'b, 'pub, 'priv) mcp_proxy"
  assumes run: "proxy_redeem p args w = (res, w')"
    and keep: "\<And>i t a. keeps f (session_redeem (tg_session (px_guard p)) i t a)"
  shows "f w' = f w \<and> (case res of Inr (Upstream r) \<Rightarrow> False | _ \<Rightarrow> True)
    \<or> (\<exists>i tool targs dn cl up w1 x. map_of args ''request_id'' = Some (JStr i) \<and> map_of args ''tool'' = Some (JStr tool)
        \<and> redeem_args args = JObj targs
        \<and> session_redeem (tg_session (px_guard p)) i (resource_for (px_guard p) tool) (Some targs) w = (Inr dn, w1) \<and> d_outcome dn = ALLOW
        \<and> route p tool = Some (cl, up) \<and> mc_call_tool cl up targs w1 = (x, w'))"
proof (cases "\<exists>i tool targs. map_of args ''request_id'' = Some (JStr i) \<and> map_of args ''tool'' = Some (JStr tool)
    \<and> tool \<noteq> REDEEM_TOOL \<and> redeem_args args = JObj targs")
  case True
  then obtain i tool targs where t: "map_of args ''request_id'' = Some (JStr i)" "map_of args ''tool'' = Some (JStr tool)"
    "tool \<noteq> REDEEM_TOOL" "redeem_args args = JObj targs" by blast
  obtain d w1 where d: "session_redeem (tg_session (px_guard p)) i (resource_for (px_guard p) tool) (Some targs) w = (d, w1)" by fastforce
  have same: "f w1 = f w" by (rule keepsD [OF keep d])
  have rest: "(case d of Inl e \<Rightarrow> if catches HocError e then retE (redeem_refused i (failure_reason [] e)) else raiseE e
      | Inr dn \<Rightarrow> if d_outcome dn \<noteq> ALLOW then retE (redeem_refused i (d_reason dn)) else forward p tool targs) w1 = (res, w')"
    using run t d by (simp add: proxy_redeem_def bindE_def attemptE_def)
  show ?thesis
  proof (cases "\<exists>dn. d = Inr dn \<and> d_outcome dn = ALLOW")
    case True
    then obtain dn where dn: "d = Inr dn" "d_outcome dn = ALLOW" by blast
    then have "forward p tool targs w1 = (res, w')" using rest by simp
    from forward_run [OF this] t d dn same show ?thesis by auto
  next
    case False
    then show ?thesis using rest same by (auto simp: retE_def raiseE_def redeem_refused_def split: sum.splits if_splits)
  qed
next
  case False
  then have "\<exists>t. proxy_redeem p args = retE (ErrorText t)"
    by (auto simp: proxy_redeem_def split: option.splits json.splits)
  then show ?thesis using run by (auto simp: retE_def)
qed

section \<open>Properties\<close>

text \<open>
  C25: the proxy forwards only what was authorized in the same call. Whatever an MCP client sends, either no
  view of the world that the session leaves alone changes and the answer is an error, or a call of an
  upstream was made: for a tool, after the session allowed exactly this tool with exactly these
  arguments on the grounds of \<open>invoke_grounds\<close>; for the redeem tool, after an ALLOW for the named request,
  tool and arguments.
\<close>

theorem proxy_forwards_only_allowed:
  fixes p :: "(('x, 'm) world_scheme, 'r, 'b, 'pub, 'priv) mcp_proxy"
  assumes run: "proxy_call p name arguments w = (res, w')"
    and keep: "\<And>n a. keeps f (guard_authorize (px_guard p) n a)" "\<And>i t a. keeps f (session_redeem (tg_session (px_guard p)) i t a)"
  shows "f w' = f w \<and> (case res of Inr (Upstream r) \<Rightarrow> False | _ \<Rightarrow> True)
    \<or> (\<exists>r gr cl up w1 x. tool_resource (resource_for (px_guard p) name) = Inr r
        \<and> invoke_grounds (tg_session (px_guard p)) r (args_or_empty arguments) w
        \<and> guard_authorize (px_guard p) name (args_or_empty arguments) w = (Inr gr, w1)
        \<and> route p name = Some (cl, up) \<and> mc_call_tool cl up (args_or_empty arguments) w1 = (x, w'))
    \<or> (\<exists>i tool targs dn cl up w1 x. name = REDEEM_TOOL \<and> map_of (args_or_empty arguments) ''request_id'' = Some (JStr i)
        \<and> map_of (args_or_empty arguments) ''tool'' = Some (JStr tool) \<and> redeem_args (args_or_empty arguments) = JObj targs
        \<and> session_redeem (tg_session (px_guard p)) i (resource_for (px_guard p) tool) (Some targs) w = (Inr dn, w1) \<and> d_outcome dn = ALLOW
        \<and> route p tool = Some (cl, up) \<and> mc_call_tool cl up targs w1 = (x, w'))"
proof (cases "name = REDEEM_TOOL")
  case True
  then obtain x where x: "proxy_redeem p (args_or_empty arguments) w = (x, w')" "res = (case x of Inl e \<Rightarrow> Inl (Raised e) | Inr y \<Rightarrow> Inr y)"
    using run by (auto simp: proxy_call_def Let_def raised_run)
  show ?thesis using proxy_redeem_run [OF x(1) keep(2)] x(2) True by (auto split: sum.splits tool_result.splits)
next
  case False
  obtain a w1 where a: "guard_authorize (px_guard p) name (args_or_empty arguments) w = (a, w1)" by fastforce
  have same: "f w1 = f w" by (rule keepsD [OF keep(1) a])
  show ?thesis
  proof (cases a)
    case (Inl e)
    then show ?thesis using run False a same by (auto simp: proxy_call_def Let_def bindE_def attemptE_def retE_def raiseE_def split: if_splits)
  next
    case (Inr gr)
    obtain r where r: "tool_resource (resource_for (px_guard p) name) = Inr r" "invoke_grounds (tg_session (px_guard p)) r (args_or_empty arguments) w"
      using guard_authorize_run [OF a [unfolded Inr]] session_authorize_grounds by (fastforce simp: args_or_empty_def)
    obtain x where x: "forward p name (args_or_empty arguments) w1 = (x, w')" "res = (case x of Inl e \<Rightarrow> Inl (Raised e) | Inr y \<Rightarrow> Inr y)"
      using run False a Inr by (auto simp: proxy_call_def Let_def bindE_def attemptE_def raised_run)
    show ?thesis using forward_run [OF x(1)] x(2) same r a Inr by auto
  qed
qed

text \<open>
  An exposed name leads back to its tool. For every set of upstreams the constructor accepts and every
  server whose name does not end in an underscore, the name under which the proxy exposes a tool of that
  server is routed to that server's client under the tool's own name, and is gated as the resource
  \<open>server/tool\<close>, whatever the tool is called.
\<close>

theorem exposed_name_routes_back:
  assumes "mk_proxy se (Named cs) tool_map = Inr p" "map_of cs server = Some client" "last server \<noteq> CHR ''_''" "tl_name tool \<noteq> []"
  shows "route p (tl_name (prefixed server tool)) = Some (client, tl_name tool)
    \<and> default_resource (tl_name (prefixed server tool)) = server @ ''/'' @ tl_name tool"
proof -
  have p: "px_upstreams p = Named cs" and ok: "list_all (name_ok \<circ> fst) cs"
    using assms(1) by (auto simp: mk_proxy_def Let_def split: if_splits)
  have "name_ok server" using ok map_of_SomeD [OF assms(2)] by (auto simp: list_all_iff)
  then have no: "\<not> fst (snd (partition_str ''__'' server))" "server \<noteq> []"
    by (auto simp: name_ok_def UPSTREAM_SEPARATOR_def upstream_name_def dollar_views_def)
  from partition_prefixed [OF no assms(3), of "tl_name tool"] show ?thesis
    using p assms(2,4) by (simp add: route_def prefixed_def default_resource_def UPSTREAM_SEPARATOR_def)
qed

text \<open>
  The condition on the last character is needed: the constructor accepts the servers \<open>a\<close> and \<open>a_\<close>, and the tool
  \<open>x\<close> of the second is exposed under a name that is routed to the tool \<open>_x\<close> of the first.
\<close>

lemma trailing_underscore_misroutes:
  "\<exists>p. mk_proxy se (Named [(''a'', ca), (''a_'', cb)]) [] = Inr p
    \<and> route p (tl_name (prefixed ''a_'' \<lparr>tl_name = ''x'', tl_description = None, tl_input_schema = JNull\<rparr>)) = Some (ca, ''_x'')"
proof -
  have ok: "name_ok ''a''" "name_ok ''a_''" by code_simp+
  have part: "partition_str UPSTREAM_SEPARATOR (''a_'' @ UPSTREAM_SEPARATOR @ ''x'') = (''a'', True, ''_x'')" by code_simp
  show ?thesis using ok part by (simp add: mk_proxy_def route_def prefixed_def)
qed

section \<open>Witnesses\<close>

definition echo_client :: "('w, string) mcp_client" where
  "echo_client = \<lparr>mc_call_tool = (\<lambda>tool args. retE tool), mc_list_tools = (\<lambda>c. retE ([], None))\<rparr>"

definition sample_proxy :: "(unit token_world, string, sample_token, int, int) mcp_proxy" where
  "sample_proxy = \<lparr>px_guard = mail_guard\<lparr>tg_on_deny := OnRaise\<rparr>, px_upstreams = Single echo_client\<rparr>"

theorem proxy_forwards_only_allowed_witness:
  "\<exists>w'. proxy_call sample_proxy ''mail'' (Some [(''to'', JStr ''bob'')]) token_world0 = (Inr (Upstream ''mail''), w')
    \<and> invoke_grounds mail_session ''tool:mail'' [(''to'', JStr ''bob'')] token_world0"
proof -
  have g: "tg_session (px_guard sample_proxy) = mail_session" "resource_for (px_guard sample_proxy) n = n" for n
    by (simp_all add: sample_proxy_def mail_guard_def resource_for_def)
  obtain res w' where res: "session_authorize mail_session ''mail'' (Some [(''to'', JStr ''bob'')]) token_world0 = (Inr res, w')" "gate_allowed res"
    using mail_authorize by blast
  have name: "''mail'' \<noteq> REDEEM_TOOL" by (simp add: REDEEM_TOOL_def)
  have auth: "guard_authorize (px_guard sample_proxy) ''mail'' [(''to'', JStr ''bob'')] token_world0 = (Inr res, w')"
    using res by (simp add: guard_authorize_def raised_def bindE_def g retE_def)
  have run: "proxy_call sample_proxy ''mail'' (Some [(''to'', JStr ''bob'')]) token_world0 = (Inr (Upstream ''mail''), w')"
    using auth name by (simp add: proxy_call_def Let_def args_or_empty_def bindE_def attemptE_def raised_def forward_def route_def sample_proxy_def
        echo_client_def retE_def)
  have keep: "keeps (\<lambda>_. ()) m" for m :: "(unit token_world, 'e, 'c) eff" by (simp add: keeps_def)
  from proxy_forwards_only_allowed [OF run keep keep] run mail_valid(1) name show ?thesis by (auto simp: g args_or_empty_def)
qed

theorem exposed_name_routes_back_witness:
  "\<exists>p. mk_proxy mail_session (Named [(''b'', echo_client)]) [] = Inr p
    \<and> route p (tl_name (prefixed ''b'' \<lparr>tl_name = ''a__x'', tl_description = None, tl_input_schema = JNull\<rparr>)) = Some (echo_client, ''a__x'')"
proof -
  have "name_ok ''b''" by code_simp
  then obtain p where p: "mk_proxy mail_session (Named [(''b'', echo_client :: (unit token_world, string) mcp_client)]) [] = Inr p"
    by (simp add: mk_proxy_def)
  from exposed_name_routes_back [OF p, of "''b''" echo_client "\<lparr>tl_name = ''a__x'', tl_description = None, tl_input_schema = JNull\<rparr>"] p
  show ?thesis by auto
qed

end
