(* ===== verification/Api_Routes.thy ===== *)
theory Api_Routes
  imports Identity_Oidc Integ_Session
begin

text \<open>
  The routes of the HTTP API (\<open>api/deps.py\<close>, \<open>api/routes\<close>): who the caller is, and what each route
  asks of the services under that name.

  A route is the function FastAPI calls, after the request body was parsed: the response models print
  what it returns and are left out, and so is the registration of the routes. \<open>services\<close> holds the
  fields of \<open>Services\<close> the routes use; the identity provider is its \<open>verify_user_token\<close>.

  The lemmas show what a token the issue route returns rests on, and that the routes for humans and
  the routes for agents refuse each other's callers.
\<close>

section \<open>The caller of a request\<close>

record ('w, 'b, 'pub, 'priv) services =
  sv_identity :: "string \<Rightarrow> ('w, exn, verified_identity) eff"
  sv_detection :: agent_detection
  sv_engine :: "'w authz_engine"
  sv_audit :: "'w audit_sink"
  sv_tokens :: "('w, 'b, 'pub, 'priv) token_service"
  sv_mandates :: "('w, 'b, 'pub, 'priv) mandate_service"
  sv_gate :: "'w action_gate"
  sv_memory :: "'w memory_service"

definition bearer_of :: "string option \<Rightarrow> exn + string" where
  "bearer_of authorization = (case authorization of
     None \<Rightarrow> Inl (Hoc IdentityError ''missing_bearer'')
   | Some a \<Rightarrow> if \<not> startswith (map lower_char a) ''bearer '' then Inl (Hoc IdentityError ''missing_bearer'')
       else (case partition_char (CHR '' '') a of (scheme, sep, rest) \<Rightarrow> Inr (strip rest)))"

definition identity_of ::
    "pyconv \<Rightarrow> ('w, 'b, 'pub, 'priv) services \<Rightarrow> string option \<Rightarrow> ('w, exn, caller) eff" where
  "identity_of pc s authorization =
     bindE (liftE (bearer_of authorization)) (\<lambda>token.
     bindE (sv_identity s token) (\<lambda>i.
     liftE (caller_from_identity pc i (sv_detection s))))"

definition require_agent ::
    "pyconv \<Rightarrow> ('w, 'b, 'pub, 'priv) services \<Rightarrow> string option \<Rightarrow> ('w, exn, caller) eff" where
  "require_agent pc s authorization = bindE (identity_of pc s authorization) (\<lambda>c.
     if cl_kind c \<noteq> AgentCaller then raiseE (Hoc CallerMismatch ''caller_not_agent'') else retE c)"

definition require_user ::
    "pyconv \<Rightarrow> ('w, 'b, 'pub, 'priv) services \<Rightarrow> string option \<Rightarrow> ('w, exn, caller) eff" where
  "require_user pc s authorization = bindE (identity_of pc s authorization) (\<lambda>c.
     if cl_kind c \<noteq> UserCaller then raiseE (Hoc CallerMismatch ''caller_not_user'') else retE c)"

definition route_session ::
    "('w, 'b, 'pub, 'priv) services \<Rightarrow> caller \<Rightarrow> string \<Rightarrow> exn + ('w, 'b, 'pub, 'priv) agent_session" where
  "route_session s c token = mk_session token (cl_ref c) (sv_tokens s) (sv_gate s) []"

definition chain_of ::
    "(('x, 'm) world_scheme, 'b, 'pub, 'priv) services \<Rightarrow> caller \<Rightarrow> string
     \<Rightarrow> (('x, 'm) world_scheme, exn, principal_chain) eff" where
  "chain_of s c token = bindE (inspect (sv_tokens s) token (cl_ref c)) (\<lambda>v. retE (vt_chain v))"

definition permits_of ::
    "(('x, 'm) world_scheme, 'b, 'pub, 'priv) services \<Rightarrow> caller \<Rightarrow> string \<Rightarrow> ('x, 'm) world_scheme resource_permits" where
  "permits_of s c token op rs =
     bindE (verify_many (sv_tokens s) token (cl_ref c) op rs) (\<lambda>(v, permits). retE permits)"

section \<open>Scopes on the wire\<close>

text \<open>\<open>CapabilityModel\<close> and \<open>ScopeModel\<close>: a capability is its kind and its resource.\<close>

type_synonym wire_scope = "(kind \<times> string) list"

definition capability_model_ok :: "kind \<times> string \<Rightarrow> bool" where
  "capability_model_ok = (\<lambda>(k, r). 3 \<le> length r \<and> length r \<le> 512 \<and> (case mk_capability READ r of Inr c \<Rightarrow> True | Inl e \<Rightarrow> False))"

definition scope_model_ok :: "wire_scope \<Rightarrow> bool" where
  "scope_model_ok cs = (length cs \<le> 256 \<and> list_all capability_model_ok cs)"

definition scope_to_core :: "wire_scope \<Rightarrow> exn + scope" where
  "scope_to_core cs = (case sequence_sum (map (\<lambda>(k, r). mk_capability k r) cs) of
     Inl e \<Rightarrow> Inl e | Inr caps \<Rightarrow> Inr (scope_of caps))"

definition scope_from_core :: "scope \<Rightarrow> wire_scope" where
  "scope_from_core s = map (\<lambda>c. (cap_kind c, cap_resource c)) (sorted_scope s)"

section \<open>Tokens\<close>

record issue_request =
  ir_user_token :: "string option"
  ir_mandate_id :: "string option"
  ir_scope :: wire_scope
  ir_ttl_minutes :: "int option"

text \<open>The bounds of \<open>IssueRequest\<close> and its validator: exactly one of the two sources.\<close>

definition length_within :: "nat \<Rightarrow> nat \<Rightarrow> string option \<Rightarrow> bool" where
  "length_within lo hi v = (case v of None \<Rightarrow> True | Some s \<Rightarrow> lo \<le> length s \<and> length s \<le> hi)"

definition issue_request_ok :: "issue_request \<Rightarrow> bool" where
  "issue_request_ok r = (length_within 16 65536 (ir_user_token r) \<and> length_within 8 64 (ir_mandate_id r)
     \<and> scope_model_ok (ir_scope r)
     \<and> (case ir_ttl_minutes r of None \<Rightarrow> True | Some n \<Rightarrow> 1 \<le> n \<and> n \<le> 24 * 60)
     \<and> ((ir_user_token r = None) \<noteq> (ir_mandate_id r = None)))"

definition minutes :: "int \<Rightarrow> timedelta" where
  "minutes n = seconds (60 * n)"

text \<open>\<open>timedelta(minutes=m) if m else None\<close>\<close>

definition opt_minutes :: "int option \<Rightarrow> timedelta option" where
  "opt_minutes m = (case m of None \<Rightarrow> None | Some n \<Rightarrow> if n = 0 then None else Some (minutes n))"

definition deny_issue ::
    "(('x, 'm) world_scheme, 'b, 'pub, 'priv) services \<Rightarrow> string \<Rightarrow> string \<Rightarrow> string
     \<Rightarrow> (('x, 'm) world_scheme, exn, unit) eff" where
  "deny_issue s subj actor reason = bindE now (\<lambda>t. bindE uuid4_hex (\<lambda>eid. sv_audit s
     \<lparr>ev_kind = EvTokenIssued, ev_timestamp = t, ev_subject = subj, ev_actor = actor, ev_delegation_depth = 0,
      ev_action = ''token:issue'', ev_resource = actor, ev_outcome = ''DENY'', ev_reason = reason,
      ev_engine_latency_ms = float_zero, ev_token_fingerprint = None, ev_args_hash = None, ev_decision_id = None,
      ev_event_id = eid\<rparr>))"

text \<open>The subject of the user token: an agent's token is refused after the refusal was recorded.\<close>

definition present_human ::
    "pyconv \<Rightarrow> (('x, 'm) world_scheme, 'b, 'pub, 'priv) services \<Rightarrow> caller \<Rightarrow> string
     \<Rightarrow> (('x, 'm) world_scheme, exn, string) eff" where
  "present_human pc s c user_token = bindE (sv_identity s user_token) (\<lambda>i.
     case require_human pc i (sv_detection s) of
       Inr subj \<Rightarrow> retE subj
     | Inl e \<Rightarrow> if catches TokenInvalid e
         then bindE (deny_issue s (vi_subject i) (cl_ref c) (failure_reason [] e)) (\<lambda>_. raiseE e)
         else raiseE e)"

definition issue_for_human ::
    "pyconv \<Rightarrow> (('x, 'm) world_scheme, 'b, 'pub, 'priv) services \<Rightarrow> issue_request \<Rightarrow> caller \<Rightarrow> string
     \<Rightarrow> (('x, 'm) world_scheme, exn, issued_token) eff" where
  "issue_for_human pc s body c user_token =
     bindE (present_human pc s c user_token) (\<lambda>subj.
     bindE (eng_check (sv_engine s) subj BINDING_RELATION (cl_ref c)) (\<lambda>bound.
     if \<not> bound then
       bindE (deny_issue s subj (cl_ref c) ''not_related'') (\<lambda>_. raiseE (Hoc TokenInvalid ''not_related''))
     else
       bindE (liftE (scope_to_core (ir_scope body))) (\<lambda>sc.
       bindE (liftE (root_chain subj (cl_ref c) sc)) (\<lambda>chain.
       issue (sv_tokens s) chain (opt_minutes (ir_ttl_minutes body)) None))))"

definition route_issue ::
    "pyconv \<Rightarrow> (('x, 'm) world_scheme, 'b, 'pub, 'priv) services \<Rightarrow> string option \<Rightarrow> issue_request
     \<Rightarrow> (('x, 'm) world_scheme, exn, issued_token) eff" where
  "route_issue pc s authorization body =
     bindE (require_agent pc s authorization) (\<lambda>c.
     case ir_mandate_id body of
       Some m \<Rightarrow> bindE (liftE (scope_to_core (ir_scope body))) (\<lambda>sc.
         mandate_issue (sv_mandates s) m (cl_ref c) sc (opt_minutes (ir_ttl_minutes body)))
     | None \<Rightarrow> (case ir_user_token body of
         None \<Rightarrow> raiseE (hoc TokenInvalid)
       | Some t \<Rightarrow> issue_for_human pc s body c t))"

definition route_attenuate ::
    "pyconv \<Rightarrow> (('x, 'm) world_scheme, 'b, 'pub, 'priv) services \<Rightarrow> string option \<Rightarrow> string \<Rightarrow> string \<Rightarrow> wire_scope
     \<Rightarrow> (('x, 'm) world_scheme, exn, issued_token) eff" where
  "route_attenuate pc s authorization token to sc =
     bindE (require_agent pc s authorization) (\<lambda>c.
     bindE (liftE (validate_ref to ''agent'')) (\<lambda>_.
     bindE (inspect (sv_tokens s) token (cl_ref c)) (\<lambda>_.
     bindE (liftE (scope_to_core sc)) (\<lambda>core.
     service_attenuate (sv_tokens s) token to core))))"

definition route_inspect ::
    "pyconv \<Rightarrow> (('x, 'm) world_scheme, 'b, 'pub, 'priv) services \<Rightarrow> string option \<Rightarrow> string
     \<Rightarrow> (('x, 'm) world_scheme, exn, verified_token) eff" where
  "route_inspect pc s authorization token =
     bindE (require_agent pc s authorization) (\<lambda>c. inspect (sv_tokens s) token (cl_ref c))"

definition route_revoke ::
    "pyconv \<Rightarrow> (('x, 'm) world_scheme, 'b, 'pub, 'priv) services \<Rightarrow> string option \<Rightarrow> string \<Rightarrow> string
     \<Rightarrow> (('x, 'm) world_scheme, exn, verified_token) eff" where
  "route_revoke pc s authorization token reason =
     bindE (require_agent pc s authorization) (\<lambda>c.
     bindE (inspect (sv_tokens s) token (cl_ref c)) (\<lambda>v.
     bindE (revoke_token (sv_tokens s) token (cl_ref c) reason) (\<lambda>_. retE v)))"

section \<open>Actions, approvals and mandates\<close>

definition route_gate ::
    "pyconv \<Rightarrow> (('x, 'm) world_scheme, 'b, 'pub, 'priv) services \<Rightarrow> string option \<Rightarrow> string \<Rightarrow> string \<Rightarrow> tool_args
     \<Rightarrow> (('x, 'm) world_scheme, exn, gate_result) eff" where
  "route_gate pc s authorization token tool args =
     bindE (require_agent pc s authorization) (\<lambda>c.
     bindE (liftE (route_session s c token)) (\<lambda>se. session_authorize se tool (Some args)))"

definition route_redeem ::
    "pyconv \<Rightarrow> (('x, 'm) world_scheme, 'b, 'pub, 'priv) services \<Rightarrow> string option \<Rightarrow> string \<Rightarrow> string \<Rightarrow> string
     \<Rightarrow> tool_args \<Rightarrow> (('x, 'm) world_scheme, exn, decision) eff" where
  "route_redeem pc s authorization token request_id tool args =
     bindE (require_agent pc s authorization) (\<lambda>c.
     bindE (liftE (route_session s c token)) (\<lambda>se. session_redeem se request_id tool (Some args)))"

definition route_approvals ::
    "pyconv \<Rightarrow> (('x, 'm) world_scheme, 'b, 'pub, 'priv) services \<Rightarrow> string option
     \<Rightarrow> (('x, 'm) world_scheme, exn, approval_request list) eff" where
  "route_approvals pc s authorization =
     bindE (require_user pc s authorization) (\<lambda>c. pending_for (sv_gate s) (cl_ref c))"

definition route_resolve ::
    "pyconv \<Rightarrow> (('x, 'm) world_scheme, 'b, 'pub, 'priv) services \<Rightarrow> string option \<Rightarrow> string \<Rightarrow> bool \<Rightarrow> string
     \<Rightarrow> (('x, 'm) world_scheme, exn, approval_request) eff" where
  "route_resolve pc s authorization request_id approved reason =
     bindE (require_user pc s authorization) (\<lambda>c. resolve (sv_gate s) request_id (cl_ref c) approved reason)"

definition route_mandate_create ::
    "pyconv \<Rightarrow> (('x, 'm) world_scheme, 'b, 'pub, 'priv) services \<Rightarrow> string option \<Rightarrow> string \<Rightarrow> wire_scope \<Rightarrow> int
     \<Rightarrow> int option \<Rightarrow> (('x, 'm) world_scheme, exn, mandate) eff" where
  "route_mandate_create pc s authorization agent sc hours max_ttl_minutes =
     bindE (require_user pc s authorization) (\<lambda>c.
     bindE now (\<lambda>t.
     bindE (liftE (scope_to_core sc)) (\<lambda>core.
     mandate_create (sv_mandates s) (cl_ref c) agent core (t + minutes (60 * hours)) (cl_ref c)
       (opt_minutes max_ttl_minutes))))"

definition route_mandates ::
    "pyconv \<Rightarrow> (('x, 'm) world_scheme, 'b, 'pub, 'priv) services \<Rightarrow> string option
     \<Rightarrow> (('x, 'm) world_scheme, exn, mandate list) eff" where
  "route_mandates pc s authorization =
     bindE (require_user pc s authorization) (\<lambda>c. mandate_list (sv_mandates s) (cl_ref c))"

definition route_mandate_revoke ::
    "pyconv \<Rightarrow> (('x, 'm) world_scheme, 'b, 'pub, 'priv) services \<Rightarrow> string option \<Rightarrow> string \<Rightarrow> string option
     \<Rightarrow> (('x, 'm) world_scheme, exn, mandate) eff" where
  "route_mandate_revoke pc s authorization i reason =
     bindE (require_user pc s authorization) (\<lambda>c.
     mandate_revoke (sv_mandates s) i (cl_ref c)
       (case reason of None \<Rightarrow> ''revoked by subject'' | Some r \<Rightarrow> r))"

section \<open>Memory and the read filter\<close>

definition route_remember ::
    "pyconv \<Rightarrow> (('x, 'm) world_scheme, 'b, 'pub, 'priv) services \<Rightarrow> string option \<Rightarrow> string \<Rightarrow> string \<Rightarrow> string list
     \<Rightarrow> (('x, 'm) world_scheme, exn, memory) eff" where
  "route_remember pc s authorization token content derived_from =
     bindE (require_agent pc s authorization) (\<lambda>c.
     bindE (chain_of s c token) (\<lambda>chain.
     remember (sv_memory s) chain content derived_from (Some (permits_of s c token))))"

definition route_recall ::
    "pyconv \<Rightarrow> (('x, 'm) world_scheme, 'b, 'pub, 'priv) services \<Rightarrow> string option \<Rightarrow> string \<Rightarrow> string \<Rightarrow> int
     \<Rightarrow> (('x, 'm) world_scheme, exn, memory list) eff" where
  "route_recall pc s authorization token query limit =
     bindE (require_agent pc s authorization) (\<lambda>c.
     bindE (chain_of s c token) (\<lambda>chain.
     recall (sv_memory s) chain query limit (Some (permits_of s c token))))"

definition route_forget ::
    "pyconv \<Rightarrow> (('x, 'm) world_scheme, 'b, 'pub, 'priv) services \<Rightarrow> string option \<Rightarrow> string \<Rightarrow> string
     \<Rightarrow> (('x, 'm) world_scheme, exn, principal_chain) eff" where
  "route_forget pc s authorization token memory_id =
     bindE (require_agent pc s authorization) (\<lambda>c.
     bindE (chain_of s c token) (\<lambda>chain.
     bindE (forget (sv_memory s) chain memory_id (Some (permits_of s c token))) (\<lambda>_. retE chain)))"

definition route_filter ::
    "pyconv \<Rightarrow> (('x, 'm) world_scheme, 'b, 'pub, 'priv) services \<Rightarrow> string option \<Rightarrow> string \<Rightarrow> json list \<Rightarrow> string
     \<Rightarrow> strategy \<Rightarrow> (('x, 'm) world_scheme, exn, json filter_result) eff" where
  "route_filter pc s authorization token items relation strategy =
     bindE (require_agent pc s authorization) (\<lambda>c.
     bindE (chain_of s c token) (\<lambda>chain.
     filter_items chain items (sv_engine s) (sv_audit s) default_id_of relation strategy False None
       (Some (permits_of s c token))))"

section \<open>Properties\<close>

lemma identity_of_Inr:
  "identity_of pc s a w = (Inr c, w') \<longleftrightarrow> (\<exists>token i. bearer_of a = Inr token \<and> sv_identity s token w = (Inr i, w')
     \<and> caller_from_identity pc i (sv_detection s) = Inr c)"
  by (auto simp: identity_of_def bindE_Inr liftE_def)

lemma require_agent_Inr:
  "require_agent pc s a w = (Inr c, w') \<longleftrightarrow> identity_of pc s a w = (Inr c, w') \<and> cl_kind c = AgentCaller"
  by (auto simp: require_agent_def bindE_Inr retE_def raiseE_def)

lemma require_user_Inr:
  "require_user pc s a w = (Inr c, w') \<longleftrightarrow> identity_of pc s a w = (Inr c, w') \<and> cl_kind c = UserCaller"
  by (auto simp: require_user_def bindE_Inr retE_def raiseE_def)

lemma present_human_Inr:
  "present_human pc s c t w = (Inr subj, w') \<longleftrightarrow>
    (\<exists>i. sv_identity s t w = (Inr i, w') \<and> require_human pc i (sv_detection s) = Inr subj)"
proof -
  have "(case r of Inr subj \<Rightarrow> retE subj
      | Inl e \<Rightarrow> if catches TokenInvalid e
          then bindE (deny_issue s (vi_subject i) (cl_ref c) (failure_reason [] e)) (\<lambda>_. raiseE e)
          else raiseE e) w1 = (Inr subj, w') \<longleftrightarrow> r = Inr subj \<and> w1 = w'" for r and i :: verified_identity and w1
    by (cases r) (auto simp: bindE_Inr retE_def raiseE_def)
  then show ?thesis unfolding present_human_def bindE_Inr by simp
qed

lemma issue_for_human_Inr:
  assumes "issue_for_human pc s body c t w = (Inr tok, w')"
  obtains i subj w1 w2 sc chain where "sv_identity s t w = (Inr i, w1)" "require_human pc i (sv_detection s) = Inr subj"
    "eng_check (sv_engine s) subj BINDING_RELATION (cl_ref c) w1 = (Inr True, w2)" "scope_to_core (ir_scope body) = Inr sc"
    "root_chain subj (cl_ref c) sc = Inr chain"
    "issue (sv_tokens s) chain (opt_minutes (ir_ttl_minutes body)) None w2 = (Inr tok, w')"
  using assms unfolding issue_for_human_def bindE_Inr present_human_Inr
  by (elim exE conjE) (auto simp: bindE_Inr liftE_def raiseE_def split: if_splits)

lemma scope_to_core_wf:
  assumes "scope_to_core cs = Inr s"
  shows "finite s \<and> (\<forall>c\<in>s. wf_capability c)"
proof -
  have "list_all wf_capability caps" if "sequence_sum (map (\<lambda>(k, r). mk_capability k r) cs) = Inr caps" for caps
    using that
    by (induction cs arbitrary: caps)
       (auto simp: mk_capability_def validate_resource_pattern_def wf_capability_def split: sum.splits if_splits)
  then show ?thesis
    using assms by (auto simp: scope_to_core_def scope_of_def list_all_iff split: sum.splits)
qed

text \<open>A scope printed for a response is read back as the same scope.\<close>

theorem scope_wire_round_trip:
  assumes "finite s" "\<forall>c\<in>s. wf_capability c"
  shows "scope_to_core (scope_from_core s) = Inr s"
proof -
  have "sequence_sum (map (\<lambda>(k, r). mk_capability k r) (map (\<lambda>c. (cap_kind c, cap_resource c)) cs)) = Inr cs"
    if "\<forall>c\<in>set cs. wf_capability c" for cs
    using that by (induction cs) (simp_all add: mk_capability_def validate_resource_pattern_def wf_capability_def)
  from this [of "sorted_scope s"] show ?thesis
    using assms by (simp add: scope_to_core_def scope_from_core_def scope_of_def sorted_scope_set)
qed

text \<open>
  C28: A token the issue route returns for a present human is a root token for that human: an agent
  authenticated with its own bearer, the user token verified to an identity no rule takes for an
  agent's, the engine answered that the human is bound to the agent, and the token loads as a chain
  without delegation from that human to that agent with the requested scope.
\<close>

theorem issue_route_grounds:
  fixes p :: "(('x, 'k, 'm) oidc_world_scheme, 'k) oidc_provider"
    and s :: "(('x, 'k, 'm) oidc_world_scheme, 'b, 'pub, 'priv) services"
  assumes provider: "sv_identity s = verify_user_token pc p"
    and laws: "biscuit_laws (tk_lib (sv_tokens s)) blocks other" "biscuit_runs (tk_lib (sv_tokens s)) blocks sealed"
    and key: "private_key (tk_keyring (sv_tokens s)) (tk_key_id (sv_tokens s)) = Inr priv"
      "public_key (tk_keyring (sv_tokens s)) (Some (tk_key_id (sv_tokens s))) = Inr (bl_public_of (tk_lib (sv_tokens s)) priv)"
    and body: "ir_mandate_id body = None"
    and run: "route_issue pc s authorization body w = (Inr tok, w')"
  shows "\<exists>c t i w1 w2 w3 l sc. identity_of pc s authorization w = (Inr c, w1) \<and> cl_kind c = AgentCaller
    \<and> valid_ref (cl_ref c) ''agent''
    \<and> ir_user_token body = Some t \<and> verify_user_token pc p t w1 = (Inr i, w2) \<and> valid_ref (vi_subject i) ''user''
    \<and> \<not> marked pc (sv_detection s) (vi_claims i)
    \<and> \<not> (ad_keycloak_fallback (sv_detection s) \<and> (\<exists>name. service_account pc (vi_claims i) name))
    \<and> eng_check (sv_engine s) (vi_subject i) BINDING_RELATION (cl_ref c) w2 = (Inr True, w3)
    \<and> load (tk_lib (sv_tokens s)) (tk_keyring (sv_tokens s)) (it_token tok) = Inr l
    \<and> scope_to_core (ir_scope body) = Inr sc
    \<and> ld_chain l = \<lparr>ch_subject = vi_subject i, ch_actor = cl_ref c, ch_delegation = [], ch_scope = sc, ch_root_scope = None\<rparr>"
proof -
  obtain c w1 where c: "require_agent pc s authorization w = (Inr c, w1)"
    and rest: "(case ir_user_token body of None \<Rightarrow> raiseE (hoc TokenInvalid) | Some t \<Rightarrow> issue_for_human pc s body c t) w1 = (Inr tok, w')"
    using run body by (auto simp: route_issue_def bindE_Inr)
  then obtain t where t: "ir_user_token body = Some t" "issue_for_human pc s body c t w1 = (Inr tok, w')"
    by (auto simp: raiseE_def split: option.splits)
  from t(2) obtain i subj w2 w3 sc chain where i: "sv_identity s t w1 = (Inr i, w2)"
    "require_human pc i (sv_detection s) = Inr subj" and eng: "eng_check (sv_engine s) subj BINDING_RELATION (cl_ref c) w2 = (Inr True, w3)"
    and sc: "scope_to_core (ir_scope body) = Inr sc" "root_chain subj (cl_ref c) sc = Inr chain"
    and iss: "issue (sv_tokens s) chain (opt_minutes (ir_ttl_minutes body)) None w3 = (Inr tok, w')"
    by (rule issue_for_human_Inr)
  have agent: "identity_of pc s authorization w = (Inr c, w1)" "cl_kind c = AgentCaller" using c by (simp_all add: require_agent_Inr)
  then have "valid_ref (cl_ref c) ''agent''"
    using oidc.caller_valid [of pc p _ w] by (auto simp: identity_of_Inr provider) (metis caller_kind.simps(3))
  moreover have "valid_ref (vi_subject i) ''user''" using oidc.subject_valid [of pc p t w1 i w2] i(1) provider by simp
  moreover have "chain = \<lparr>ch_subject = subj, ch_actor = cl_ref c, ch_delegation = [], ch_scope = sc, ch_root_scope = None\<rparr>"
    using sc(2) by (auto simp: root_chain_def mk_chain_def Let_def split: option.splits)
  moreover obtain l where "load (tk_lib (sv_tokens s)) (tk_keyring (sv_tokens s)) (it_token tok) = Inr l" "ld_chain l = chain"
    using issued_token_loads [OF laws key sc(2) _ _ iss] scope_to_core_wf [OF sc(1)] by blast
  moreover have "subj = vi_subject i" "\<not> marked pc (sv_detection s) (vi_claims i)"
    "\<not> (ad_keycloak_fallback (sv_detection s) \<and> (\<exists>name. service_account pc (vi_claims i) name))"
    using i(2) by (simp_all add: require_human_exact)
  ultimately show ?thesis using agent t(1) i(1) eng sc(1) unfolding provider by blast
qed

text \<open>
  Approvals and mandates belong to humans: for a caller taken for an agent every route over them
  raises \<open>caller_not_user\<close> and leaves the world as the identity check left it.
\<close>

theorem agents_cannot_approve:
  assumes "identity_of pc s a w = (Inr c, w1)" "cl_kind c = AgentCaller"
  shows "route_resolve pc s a i approved reason w = (Inl (Hoc CallerMismatch ''caller_not_user''), w1)"
    and "route_approvals pc s a w = (Inl (Hoc CallerMismatch ''caller_not_user''), w1)"
    and "route_mandate_create pc s a agent sc hours mx w = (Inl (Hoc CallerMismatch ''caller_not_user''), w1)"
    and "route_mandates pc s a w = (Inl (Hoc CallerMismatch ''caller_not_user''), w1)"
    and "route_mandate_revoke pc s a i why w = (Inl (Hoc CallerMismatch ''caller_not_user''), w1)"
proof -
  have "require_user pc s a w = (Inl (Hoc CallerMismatch ''caller_not_user''), w1)"
    using assms by (simp add: require_user_def bindE_def raiseE_def)
  then show "route_resolve pc s a i approved reason w = (Inl (Hoc CallerMismatch ''caller_not_user''), w1)"
    and "route_approvals pc s a w = (Inl (Hoc CallerMismatch ''caller_not_user''), w1)"
    and "route_mandate_create pc s a agent sc hours mx w = (Inl (Hoc CallerMismatch ''caller_not_user''), w1)"
    and "route_mandates pc s a w = (Inl (Hoc CallerMismatch ''caller_not_user''), w1)"
    and "route_mandate_revoke pc s a i why w = (Inl (Hoc CallerMismatch ''caller_not_user''), w1)"
    by (simp_all add: route_resolve_def route_approvals_def route_mandate_create_def route_mandates_def
        route_mandate_revoke_def bindE_def)
qed

text \<open>Only the holder of a token attenuates or revokes it over HTTP.\<close>

lemma inspect_holder:
  assumes "inspect svc token who w = (Inr v, w')"
  shows "\<exists>l. load (tk_lib svc) (tk_keyring svc) token = Inr l \<and> ch_actor (ld_chain l) = who"
  using assms
  by (auto simp: inspect_def present_def bindE_Inr liftE_def raiseE_def retE_def split: if_splits)

theorem attenuate_route_needs_holder:
  assumes "route_attenuate pc s a token b sc w = (Inr tok, w')"
  shows "\<exists>c w1 l. identity_of pc s a w = (Inr c, w1) \<and> cl_kind c = AgentCaller
    \<and> load (tk_lib (sv_tokens s)) (tk_keyring (sv_tokens s)) token = Inr l \<and> ch_actor (ld_chain l) = cl_ref c"
proof -
  obtain c w1 v w2 w3 where "require_agent pc s a w = (Inr c, w1)" "inspect (sv_tokens s) token (cl_ref c) w2 = (Inr v, w3)"
    using assms unfolding route_attenuate_def bindE_Inr by (elim exE conjE) blast
  then show ?thesis using inspect_holder by (auto simp: require_agent_Inr)
qed

section \<open>Witnesses\<close>

definition sample_services :: "((unit, nat) oidc_world, sample_token, int, int) services" where
  "sample_services = \<lparr>sv_identity = verify_user_token std_conv sample_oidc, sv_detection = DEFAULT_DETECTION,
     sv_engine = sample_engine, sv_audit = mem_record, sv_tokens = sample_service,
     sv_mandates = \<lparr>ms_store = pg_mand_store std_conv, ms_tokens = sample_service, ms_engine = Some sample_engine,
       ms_audit = mem_record, ms_max_days = DEFAULT_MAX_DAYS, ms_default_max_token_ttl = DEFAULT_MAX_TOKEN_TTL\<rparr>,
     sv_gate = \<lparr>ga_decider = default_decider sample_engine mem_record, ga_approvals = pg_appr_store, ga_audit = mem_record,
       ga_ttl = DEFAULT_APPROVAL_TTL, ga_allow_self = False, ga_channels = [], ga_metrics = None\<rparr>,
     sv_memory = \<lparr>mv_tuples = sample_tuples, mv_ledger = pg_ledger std_conv, mv_adapter = pg_adapter sample_search None,
       mv_decider = default_decider sample_engine mem_record, mv_audit = mem_record, mv_namespace = DEFAULT_NAMESPACE\<rparr>\<rparr>"

definition sample_issue :: issue_request where
  "sample_issue = \<lparr>ir_user_token = Some ''alice'', ir_mandate_id = None,
     ir_scope = [(READ, ''document:*''), (ACT, ''tool:mail'')], ir_ttl_minutes = Some 5\<rparr>"

lemma sample_services_simps [simp]:
  "sv_identity sample_services = verify_user_token std_conv sample_oidc" "sv_detection sample_services = DEFAULT_DETECTION"
  "sv_engine sample_services = sample_engine" "sv_audit sample_services = mem_record" "sv_tokens sample_services = sample_service"
  by (simp_all add: sample_services_def)

lemma sample_callers:
  "bearer_of (Some ''Bearer bot'') = Inr ''bot''"
  "caller_from_identity std_conv bot_identity DEFAULT_DETECTION = Inr \<lparr>cl_kind = AgentCaller, cl_ref = ''agent:a''\<rparr>"
  "require_human std_conv alice_identity DEFAULT_DETECTION = Inr ''user:alice''"
  "scope_to_core (ir_scope sample_issue) = Inr (ch_scope sample_chain)"
  by code_simp+

lemma sample_route_issue:
  "\<exists>tok w'. route_issue std_conv sample_services (Some ''Bearer bot'') sample_issue oidc_world0 = (Inr tok, w')"
proof -
  let ?c = "\<lparr>cl_kind = AgentCaller, cl_ref = ''agent:a''\<rparr>"
  let ?w1 = "oidc_world0\<lparr>w_clock_at := w_clock_at oidc_world0 + 2\<rparr>"
  let ?w2 = "?w1\<lparr>w_clock_at := w_clock_at ?w1 + 2\<rparr>"
  have bot: "require_agent std_conv sample_services (Some ''Bearer bot'') oidc_world0 = (Inr ?c, ?w1)"
    using sample_oidc_verify(2) [of oidc_world0]
    by (simp add: require_agent_Inr identity_of_Inr sample_callers)
  have alice: "present_human std_conv sample_services ?c ''alice'' ?w1 = (Inr ''user:alice'', ?w2)"
    using sample_oidc_verify(1) [of ?w1] by (simp add: present_human_Inr sample_callers)
  obtain tok w' where iss: "issue sample_service sample_chain (opt_minutes (Some 5)) None ?w2 = (Inr tok, w')"
    by (simp add: issue_def chain_depth_def sample_chain_def [THEN arg_cong [of _ _ ch_delegation]] bindE_def now_def stateE_def
        Let_def liftE_def sample_keys token_event_def uuid4_hex_def retE_def mem_record_def modifyE_def)
  have "issue_for_human std_conv sample_services sample_issue ?c ''alice'' ?w1 = (Inr tok, w')"
    using alice iss sample_roots(1) sample_callers(4)
    by (simp add: issue_for_human_def bindE_def sample_engine_def liftE_def
        sample_issue_def [THEN arg_cong [of _ _ ir_ttl_minutes]])
  then have "route_issue std_conv sample_services (Some ''Bearer bot'') sample_issue oidc_world0 = (Inr tok, w')"
    using bot by (simp add: route_issue_def bindE_def sample_issue_def)
  then show ?thesis by (intro exI)
qed

theorem issue_route_grounds_witness:
  "\<exists>tok w' l. route_issue std_conv sample_services (Some ''Bearer bot'') sample_issue oidc_world0 = (Inr tok, w')
    \<and> load sample_lib sample_keyring (it_token tok) = Inr l"
proof -
  obtain tok w' where run: "route_issue std_conv sample_services (Some ''Bearer bot'') sample_issue oidc_world0 = (Inr tok, w')"
    using sample_route_issue by (elim exE)
  have "bl_public_of (tk_lib sample_service) 7 = 7" by (simp add: sample_lib_def)
  then obtain l where "load sample_lib sample_keyring (it_token tok) = Inr l"
    using issue_route_grounds [where p = sample_oidc and s = sample_services and pc = std_conv and blocks = sample_blocks
        and other = sample_other and sealed = sample_sealed and priv = 7, OF _ _ _ _ _ _ run]
    by (simp add: sample_lib_laws sample_lib_runs sample_keys sample_issue_def [THEN arg_cong [of _ _ ir_mandate_id]]) blast
  then show ?thesis using run by (intro exI conjI)
qed

end
