(* ===== verification/Api_Models.thy ===== *)
theory Api_Models
  imports Api_Routes Cfg_Settings
begin

text \<open>
  The wire models (\<open>models.py\<close>) and the bodies of the requests (\<open>api/schemas.py\<close>).

  A response model is the JSON it is dumped to; \<open>pd\<close> is how pydantic prints a datetime. A model that is built from a core
  value is validated again, so a scope beyond the bounds of \<open>ScopeModel\<close> raises pydantic's \<open>ValidationError\<close>. A request
  body is given by its fields, and each model by the bounds it puts on them.

  The lemmas show that a response can be printed exactly when its scopes are within the bounds, that what an agent reads of a
  decision is what was decided, and that the scopes of a printed chain are read back as they were.
\<close>

section \<open>Response models\<close>

definition capability_json :: "kind \<times> string \<Rightarrow> json" where
  "capability_json c = JObj [(''kind'', JStr (kind_value (fst c))), (''resource'', JStr (snd c))]"

definition scope_json :: "scope \<Rightarrow> exn + json" where
  "scope_json s = (let cs = scope_from_core s in
     if scope_model_ok cs then Inr (JObj [(''capabilities'', JArr (map capability_json cs))]) else Inl (Other ''ValidationError''))"

definition delegation_json :: "delegation_link \<Rightarrow> exn + json" where
  "delegation_json d = bindR (scope_json (link_scope d)) (\<lambda>sc.
     Inr (JObj [(''from_actor'', JStr (from_actor d)), (''to_actor'', JStr (to_actor d)), (''scope'', sc)]))"

definition chain_json :: "principal_chain \<Rightarrow> exn + json" where
  "chain_json c = bindR (scope_json (ch_scope c)) (\<lambda>sc. bindR (sequence_sum (map delegation_json (ch_delegation c))) (\<lambda>ds.
     Inr (JObj [(''subject'', JStr (ch_subject c)), (''actor'', JStr (ch_actor c)), (''root_actor'', JStr (root_actor c)),
       (''depth'', JInt (int (chain_depth c))), (''scope'', sc), (''delegation'', JArr ds)])))"

definition opt_json :: "('a \<Rightarrow> json) \<Rightarrow> 'a option \<Rightarrow> json" where
  "opt_json f v = (case v of None \<Rightarrow> JNull | Some x \<Rightarrow> f x)"

definition decision_json :: "(datetime \<Rightarrow> string) \<Rightarrow> decision \<Rightarrow> json" where
  "decision_json pd d = JObj [(''outcome'', JStr (outcome_value (d_outcome d))), (''reason'', JStr (d_reason d)),
     (''decision_id'', JStr (d_decision_id d)), (''resource'', JStr (d_resource d)), (''timestamp'', JStr (pd (d_timestamp d))),
     (''engine_latency_ms'', JFloat (fl_repr (d_engine_latency_ms d)))]"

definition approval_json :: "(datetime \<Rightarrow> string) \<Rightarrow> approval_request \<Rightarrow> json" where
  "approval_json pd r = JObj [(''request_id'', JStr (rq_request_id r)), (''subject'', JStr (rq_subject r)), (''actor'', JStr (rq_actor r)),
     (''delegation_depth'', JInt (int (rq_delegation_depth r))), (''tool'', JStr (rq_tool r)), (''args_hash'', JStr (rq_args_hash r)),
     (''status'', JStr (status_value (rq_status r))), (''created_at'', JStr (pd (rq_created_at r))),
     (''expires_at'', JStr (pd (rq_expires_at r))), (''resolved_by'', opt_json JStr (rq_resolved_by r)),
     (''resolved_at'', opt_json (\<lambda>t. JStr (pd t)) (rq_resolved_at r)), (''resolution_reason'', opt_json JStr (rq_resolution_reason r)),
     (''approval_reason'', JStr (rq_approval_reason r))]"

definition memory_json :: "(datetime \<Rightarrow> string) \<Rightarrow> memory \<Rightarrow> json" where
  "memory_json pd m = JObj [(''memory_id'', JStr (my_memory_id m)), (''content'', JStr (my_content m)),
     (''derived_from'', JArr (map JStr (my_derived_from m))), (''written_for'', JStr (my_written_for m)),
     (''written_by'', JStr (my_written_by m)), (''created_at'', opt_json (\<lambda>t. JStr (pd t)) (my_created_at m))]"

text \<open>\<open>int(m.max_token_ttl.total_seconds() // 60)\<close>\<close>

definition mandate_json :: "(datetime \<Rightarrow> string) \<Rightarrow> mandate \<Rightarrow> exn + json" where
  "mandate_json pd m = bindR (scope_json (md_scope m)) (\<lambda>sc. Inr (JObj
     [(''mandate_id'', JStr (md_mandate_id m)), (''subject'', JStr (md_subject m)), (''agent'', JStr (md_agent m)), (''scope'', sc),
      (''status'', JStr (mstatus_value (md_status m))), (''created_at'', JStr (pd (md_created_at m))),
      (''expires_at'', JStr (pd (md_expires_at m))), (''max_token_ttl_minutes'', JInt (md_max_token_ttl m div seconds 60)),
      (''created_by'', JStr (md_created_by m)), (''revoked_at'', opt_json (\<lambda>t. JStr (pd t)) (md_revoked_at m)),
      (''revocation_reason'', opt_json JStr (md_revocation_reason m))]))"

definition token_response :: "(datetime \<Rightarrow> string) \<Rightarrow> issued_token \<Rightarrow> exn + json" where
  "token_response pd i = bindR (chain_json (it_chain i)) (\<lambda>c. Inr (JObj [(''token'', JStr (it_token i)), (''chain'', c),
     (''expires_at'', JStr (pd (it_expires_at i))), (''revocation_ids'', JArr (map JStr (it_revocation_ids i)))]))"

definition inspect_response :: "(datetime \<Rightarrow> string) \<Rightarrow> verified_token \<Rightarrow> exn + json" where
  "inspect_response pd v = bindR (chain_json (vt_chain v)) (\<lambda>c. Inr (JObj [(''chain'', c),
     (''expires_at'', JStr (pd (vt_expires_at v))), (''revocation_ids'', JArr (map JStr (vt_revocation_ids v)))]))"

definition gate_response :: "(datetime \<Rightarrow> string) \<Rightarrow> gate_result \<Rightarrow> json" where
  "gate_response pd g = JObj [(''decision'', decision_json pd (gr_decision g)), (''approval'', opt_json (approval_json pd) (gr_approval g))]"

text \<open>\<open>str(item["id"])\<close> of the items that were kept\<close>

definition filter_response :: "pyconv \<Rightarrow> json filter_result \<Rightarrow> json" where
  "filter_response pc r = JObj [(''kept'', JArr (map (\<lambda>item. JStr (conv_str pc (case item of JObj kvs \<Rightarrow> dict_get kvs ''id'' | _ \<Rightarrow> JNull))) (fr_kept r))),
     (''dropped'', JArr (map JStr (fr_dropped r))), (''strategy'', JStr (fr_strategy r))]"

section \<open>Request bodies\<close>

definition len_between :: "nat \<Rightarrow> nat \<Rightarrow> 'a list \<Rightarrow> bool" where
  "len_between lo hi xs = (lo \<le> length xs \<and> length xs \<le> hi)"

definition token_ok :: "string \<Rightarrow> bool" where
  "token_ok token = len_between 16 65536 token"

definition mandate_create_ok :: "string \<Rightarrow> wire_scope \<Rightarrow> int \<Rightarrow> int option \<Rightarrow> bool" where
  "mandate_create_ok agent sc hours max_minutes = (len_between 7 256 agent \<and> scope_model_ok sc \<and> 1 \<le> hours \<and> hours \<le> 24 * 366 \<and>
     (case max_minutes of None \<Rightarrow> True | Some n \<Rightarrow> 1 \<le> n \<and> n \<le> 24 * 60))"

definition mandate_revoke_ok :: "string \<Rightarrow> bool" where
  "mandate_revoke_ok reason = len_between 0 512 reason"

definition attenuate_ok :: "string \<Rightarrow> string \<Rightarrow> wire_scope \<Rightarrow> bool" where
  "attenuate_ok token actor sc = (token_ok token \<and> len_between 7 256 actor \<and> scope_model_ok sc)"

definition revoke_ok :: "string \<Rightarrow> string \<Rightarrow> bool" where
  "revoke_ok token reason = (token_ok token \<and> len_between 0 512 reason)"

text \<open>\<open>FilterItem\<close> keeps every field it is given and adds \<open>id\<close> when it is missing.\<close>

definition filter_item :: "json \<Rightarrow> json" where
  "filter_item v = (case v of JObj kvs \<Rightarrow> JObj ((''id'', dict_get kvs ''id'') # filter (\<lambda>kv. fst kv \<noteq> ''id'') kvs) | _ \<Rightarrow> v)"

definition strategy_of :: "string \<Rightarrow> strategy option" where
  "strategy_of s = (if s = ''auto'' then Some Auto else if s = ''batch'' then Some Batch
     else if s = ''list_objects'' then Some ListObjects else None)"

definition filter_ok :: "string \<Rightarrow> json list \<Rightarrow> string \<Rightarrow> string \<Rightarrow> bool" where
  "filter_ok token items relation strategy = (token_ok token \<and> len_between 0 5000 items \<and> list_all (\<lambda>v. case v of JObj _ \<Rightarrow> True | _ \<Rightarrow> False) items \<and>
     relation \<in> set [''viewer'', ''editor''] \<and> strategy_of strategy \<noteq> None)"

definition gate_ok :: "string \<Rightarrow> string \<Rightarrow> bool" where
  "gate_ok token tool = (token_ok token \<and> len_between 6 512 tool)"

definition redeem_ok :: "string \<Rightarrow> string \<Rightarrow> string \<Rightarrow> bool" where
  "redeem_ok token tool request_id = (gate_ok token tool \<and> len_between 1 128 request_id)"

definition resolve_ok :: "string \<Rightarrow> bool" where
  "resolve_ok reason = len_between 0 1024 reason"

definition remember_ok :: "string \<Rightarrow> string \<Rightarrow> string list \<Rightarrow> bool" where
  "remember_ok token content sources = (token_ok token \<and> len_between 1 65536 content \<and> len_between 0 256 sources)"

definition recall_ok :: "string \<Rightarrow> string \<Rightarrow> int \<Rightarrow> bool" where
  "recall_ok token query limit = (token_ok token \<and> len_between 1 4096 query \<and> 1 \<le> limit \<and> limit \<le> 50)"

definition forget_ok :: "string \<Rightarrow> string \<Rightarrow> bool" where
  "forget_ok token memory_id = (token_ok token \<and> len_between 8 256 memory_id)"

section \<open>Lemmas\<close>

definition scope_printable :: "scope \<Rightarrow> bool" where
  "scope_printable s = scope_model_ok (scope_from_core s)"

lemma scope_json_Inr: "scope_json s = Inr j \<longleftrightarrow> scope_printable s \<and> j = JObj [(''capabilities'', JArr (map capability_json (scope_from_core s)))]"
  by (auto simp: scope_json_def scope_printable_def Let_def)

lemma sequence_sum_Inr_ex: "(\<exists>ys. sequence_sum (map f xs) = Inr ys) \<longleftrightarrow> (\<forall>x\<in>set xs. \<exists>y. f x = Inr y)"
  by (induction xs) (auto split: sum.splits)

text \<open>
  A chain is printed exactly when each of its scopes fits the model: at most 256 capabilities, each of 3 to 512
  characters. Beyond it the response is an error, never a chain with a capability left out.
\<close>

theorem chain_json_total:
  "(\<exists>j. chain_json c = Inr j) \<longleftrightarrow> scope_printable (ch_scope c) \<and> (\<forall>d\<in>set (ch_delegation c). scope_printable (link_scope d))"
proof -
  have d: "(\<exists>j. delegation_json d = Inr j) \<longleftrightarrow> scope_printable (link_scope d)" for d
    by (auto simp: delegation_json_def bindR_Inr scope_json_Inr)
  have "(\<exists>ds. sequence_sum (map delegation_json (ch_delegation c)) = Inr ds) \<longleftrightarrow> (\<forall>d\<in>set (ch_delegation c). scope_printable (link_scope d))"
    unfolding sequence_sum_Inr_ex d ..
  then show ?thesis by (auto simp: chain_json_def bindR_Inr scope_json_Inr)
qed

text \<open>Reading the capabilities of a printed scope.\<close>

definition read_capability :: "json \<Rightarrow> (kind \<times> string) option" where
  "read_capability v = (case v of JObj kvs \<Rightarrow>
     (case (map_of kvs ''kind'', map_of kvs ''resource'') of
        (Some (JStr k), Some (JStr r)) \<Rightarrow> map_option (\<lambda>x. (x, r)) (kind_of k) | _ \<Rightarrow> None) | _ \<Rightarrow> None)"

definition read_scope :: "json \<Rightarrow> exn + scope" where
  "read_scope v = (case v of JObj kvs \<Rightarrow> (case map_of kvs ''capabilities'' of
       Some (JArr vs) \<Rightarrow> (if None \<in> set (map read_capability vs) then Inl (Other ''ValidationError'')
         else let cs = map (the \<circ> read_capability) vs in if scope_model_ok cs then scope_to_core cs else Inl (Other ''ValidationError''))
     | _ \<Rightarrow> Inl (Other ''ValidationError'')) | _ \<Rightarrow> Inl (Other ''ValidationError''))"

lemma read_capability_json: "read_capability (capability_json c) = Some c"
  by (cases c; cases "fst c") (auto simp: read_capability_def capability_json_def kind_of_def)

text \<open>
  A scope the service prints is the scope a client sends back: reading the JSON of a printed scope as a request's scope gives
  the same capabilities.
\<close>

theorem printed_scope_read_back:
  assumes "finite s" "\<forall>c\<in>s. wf_capability c" "scope_json s = Inr j"
  shows "read_scope j = Inr s"
proof -
  from assms(3) have ok: "scope_model_ok (scope_from_core s)" and j: "j = JObj [(''capabilities'', JArr (map capability_json (scope_from_core s)))]"
    by (simp_all add: scope_json_Inr scope_printable_def)
  have caps: "map (the \<circ> read_capability) (map capability_json cs) = cs" "None \<notin> set (map read_capability (map capability_json cs))" for cs
    by (simp_all add: comp_def read_capability_json image_iff)
  have "sequence_sum (map (\<lambda>(k, r). mk_capability k r) (map (\<lambda>c. (cap_kind c, cap_resource c)) cs)) = Inr cs"
    if "\<forall>c\<in>set cs. wf_capability c" for cs
    using that by (induction cs) (simp_all add: mk_capability_def validate_resource_pattern_def wf_capability_def)
  from this [of "sorted_scope s"] have "scope_to_core (scope_from_core s) = Inr s"
    using assms(1,2) by (simp add: scope_to_core_def scope_from_core_def scope_of_def sorted_scope_set)
  then show ?thesis using ok caps [of "scope_from_core s"] by (simp add: read_scope_def j Let_def)
qed

theorem printed_scope_read_back_witness:
  "\<exists>j. scope_json (scope_of [Capability READ ''document:*'', Capability ACT ''tool:mail'']) = Inr j
    \<and> read_scope j = Inr (scope_of [Capability READ ''document:*'', Capability ACT ''tool:mail''])"
proof -
  let ?s = "scope_of [Capability READ ''document:*'', Capability ACT ''tool:mail'']"
  have wf: "finite ?s" "\<forall>c\<in>?s. wf_capability c" by (simp_all add: scope_of_def wf_capability_def) code_simp+
  have "scope_printable ?s" by code_simp
  then obtain j where "scope_json ?s = Inr j" by (simp add: scope_json_Inr)
  with printed_scope_read_back [OF wf this] show ?thesis by blast
qed


end
