(* ===== verification/Db_Migrations.thy ===== *)
theory Db_Migrations
  imports Rt_World
begin

text \<open>
  The schema and its migrations (\<open>db/schema.py\<close>, \<open>db/migrations.py\<close>).

  The scripts of \<open>db/schema.py\<close> are lists of statements over a catalog: tables with their columns,
  indexes, functions, triggers and extensions. \<open>IF NOT EXISTS\<close>, \<open>OR REPLACE\<close> and \<open>IF EXISTS\<close> are the ones
  of PostgreSQL: an object that is there is left as it is, whatever its columns. A migration is one
  transaction: its statements and the row of the ledger, all or nothing. \<open>migrate\<close> may fail at every
  statement, with or without the statement applied. It is written as a program of requests: \<open>run\<close> is one process that sends them to
  the server, \<open>mig_step\<close> interleaves any number of processes that run the same program. The advisory lock is a field of the server: a
  request for a lock that another session holds waits, and a session that ends gives its lock back.
\<close>

section \<open>Statements\<close>

datatype trig_event = OnUpdate | OnDelete | OnTruncate

text \<open>\<open>CreateTable\<close> names the columns and the tables its foreign keys refer to; \<open>CreateFunction\<close> the message
  its body raises.\<close>

datatype sql =
    CreateTable string "string list" "string list"
  | CreateIndex string string "string list"
  | CreateFunction string string
  | DropTrigger string string
  | CreateTrigger string string "trig_event list" string
  | CreateExtension string

text \<open>A script is a list of statements; the \<open>DO\<close> block runs its statements where an extension is available.\<close>

datatype script_item = Stmt sql | WhenAvailable string "sql list"

record catalog =
  cat_tables :: "string \<rightharpoonup> string list"
  cat_indexes :: "string \<rightharpoonup> string \<times> string list"
  cat_functions :: "string \<rightharpoonup> string"
  cat_triggers :: "string \<times> string \<rightharpoonup> trig_event list \<times> string"
  cat_extensions :: "string set"
  cat_available :: "string set"

text \<open>\<open>None\<close> is the error the database raises.\<close>

fun exec_sql :: "sql \<Rightarrow> catalog \<Rightarrow> catalog option" where
  "exec_sql (CreateTable n cols refs) c =
     (if cat_tables c n \<noteq> None then Some c
      else if list_all (\<lambda>r. cat_tables c r \<noteq> None) refs then Some (c\<lparr>cat_tables := (cat_tables c)(n \<mapsto> cols)\<rparr>)
      else None)"
| "exec_sql (CreateIndex n t cols) c =
     (case cat_tables c t of None \<Rightarrow> None
      | Some tcols \<Rightarrow> if cat_indexes c n \<noteq> None then Some c
          else if list_all (\<lambda>x. x \<in> set tcols) cols then Some (c\<lparr>cat_indexes := (cat_indexes c)(n \<mapsto> (t, cols))\<rparr>)
          else None)"
| "exec_sql (CreateFunction n body) c = Some (c\<lparr>cat_functions := (cat_functions c)(n \<mapsto> body)\<rparr>)"
| "exec_sql (DropTrigger n t) c = Some (c\<lparr>cat_triggers := (cat_triggers c)((t, n) := None)\<rparr>)"
| "exec_sql (CreateTrigger n t evs f) c =
     (if cat_tables c t \<noteq> None \<and> cat_functions c f \<noteq> None \<and> cat_triggers c (t, n) = None
      then Some (c\<lparr>cat_triggers := (cat_triggers c)((t, n) \<mapsto> (evs, f))\<rparr>) else None)"
| "exec_sql (CreateExtension x) c =
     (if x \<in> cat_extensions c then Some c
      else if x \<in> cat_available c then Some (c\<lparr>cat_extensions := insert x (cat_extensions c)\<rparr>) else None)"

fun exec_list :: "sql list \<Rightarrow> catalog \<Rightarrow> catalog option" where
  "exec_list [] c = Some c"
| "exec_list (s # ss) c = Option.bind (exec_sql s c) (exec_list ss)"

fun exec_item :: "script_item \<Rightarrow> catalog \<Rightarrow> catalog option" where
  "exec_item (Stmt s) c = exec_sql s c"
| "exec_item (WhenAvailable x ss) c = (if x \<in> cat_available c then exec_list ss c else Some c)"

fun exec_script :: "script_item list \<Rightarrow> catalog \<Rightarrow> catalog option" where
  "exec_script [] c = Some c"
| "exec_script (i # is) c = Option.bind (exec_item i c) (exec_script is)"

section \<open>The scripts\<close>

definition AUDIT_COLUMNS :: "string list" where
  "AUDIT_COLUMNS = [''seq'', ''event_id'', ''kind'', ''ts'', ''subject'', ''actor'', ''delegation_depth'', ''action'',
     ''resource'', ''outcome'', ''reason'', ''engine_latency_ms'', ''token_fingerprint'', ''args_hash'', ''decision_id'',
     ''payload'', ''prev_hash'', ''hash'']"

definition AUDIT_SCHEMA :: "script_item list" where
  "AUDIT_SCHEMA = map Stmt
     [CreateTable ''audit_events'' AUDIT_COLUMNS [],
      CreateIndex ''audit_events_subject_ts'' ''audit_events'' [''subject'', ''ts''],
      CreateIndex ''audit_events_decision'' ''audit_events'' [''decision_id''],
      CreateFunction ''audit_events_append_only'' ''audit_events is append-only'',
      DropTrigger ''audit_events_no_update'' ''audit_events'',
      CreateTrigger ''audit_events_no_update'' ''audit_events'' [OnUpdate, OnDelete] ''audit_events_append_only'']"

definition REVOCATIONS_SCHEMA :: "script_item list" where
  "REVOCATIONS_SCHEMA = map Stmt
     [CreateTable ''token_revocations'' [''revocation_id'', ''reason'', ''revoked_at''] []]"

definition APPROVALS_SCHEMA :: "script_item list" where
  "APPROVALS_SCHEMA = map Stmt
     [CreateTable ''approval_requests'' [''request_id'', ''subject'', ''actor'', ''delegation_depth'', ''tool'', ''args_hash'',
        ''decision_id'', ''created_at'', ''expires_at'', ''status'', ''resolved_by'', ''resolved_at'', ''resolution_reason'',
        ''consumed_at'', ''approval_reason''] [],
      CreateIndex ''approval_requests_pending'' ''approval_requests'' [''status'', ''subject'']]"

definition MANDATES_SCHEMA :: "script_item list" where
  "MANDATES_SCHEMA = map Stmt
     [CreateTable ''mandates'' [''mandate_id'', ''subject'', ''agent'', ''scope_json'', ''created_at'', ''expires_at'',
        ''max_token_ttl_seconds'', ''created_by'', ''status'', ''revoked_at'', ''revocation_reason''] [],
      CreateIndex ''mandates_subject_idx'' ''mandates'' [''subject'', ''created_at'']]"

definition LEDGER_SCHEMA :: "script_item list" where
  "LEDGER_SCHEMA = map Stmt
     [CreateTable ''memory_provenance'' [''memory_id'', ''written_for'', ''written_by'', ''derived_from'', ''content_hash'',
        ''backend'', ''backend_ref'', ''created_at''] [],
      CreateIndex ''memory_provenance_written_for'' ''memory_provenance'' [''written_for'']]"

definition CONNECTOR_STATE_SCHEMA :: "script_item list" where
  "CONNECTOR_STATE_SCHEMA = map Stmt
     [CreateTable ''connector_state_v2'' [''namespace'', ''connector'', ''synced_at'', ''tuples''] []]"

definition MEMORY_CONTENT_SCHEMA :: "script_item list" where
  "MEMORY_CONTENT_SCHEMA =
     [Stmt (CreateTable ''memory_content'' [''namespace'', ''backend_ref'', ''memory_id'', ''content'', ''tsv'', ''created_at''] []),
      Stmt (CreateIndex ''memory_content_tsv'' ''memory_content'' [''tsv'']),
      WhenAvailable ''vector''
        [CreateExtension ''vector'',
         CreateTable ''memory_embedding'' [''namespace'', ''backend_ref'', ''embedding''] [''memory_content'']]]"

definition AUDIT_TRUNCATE_GUARD_SCHEMA :: "script_item list" where
  "AUDIT_TRUNCATE_GUARD_SCHEMA = map Stmt
     [DropTrigger ''audit_events_no_truncate'' ''audit_events'',
      CreateTrigger ''audit_events_no_truncate'' ''audit_events'' [OnTruncate] ''audit_events_append_only'']"

lemmas schema_defs = AUDIT_COLUMNS_def AUDIT_SCHEMA_def REVOCATIONS_SCHEMA_def APPROVALS_SCHEMA_def MANDATES_SCHEMA_def
  LEDGER_SCHEMA_def CONNECTOR_STATE_SCHEMA_def MEMORY_CONTENT_SCHEMA_def AUDIT_TRUNCATE_GUARD_SCHEMA_def

section \<open>Migrations\<close>

record migration =
  mg_version :: int
  mg_name :: string
  mg_sql :: "script_item list"

definition MIGRATIONS :: "migration list" where
  "MIGRATIONS =
     [\<lparr>mg_version = 1, mg_name = ''baseline'',
        mg_sql = AUDIT_SCHEMA @ REVOCATIONS_SCHEMA @ APPROVALS_SCHEMA @ MANDATES_SCHEMA @ LEDGER_SCHEMA @ CONNECTOR_STATE_SCHEMA\<rparr>,
      \<lparr>mg_version = 2, mg_name = ''memory_content'', mg_sql = MEMORY_CONTENT_SCHEMA\<rparr>,
      \<lparr>mg_version = 3, mg_name = ''audit_truncate_guard'', mg_sql = AUDIT_TRUNCATE_GUARD_SCHEMA\<rparr>]"

definition LATEST :: int where
  "LATEST = mg_version (List.last MIGRATIONS)"

definition pending :: "int \<Rightarrow> migration list" where
  "pending current = filter (\<lambda>m. current < mg_version m) MIGRATIONS"

text \<open>The ledger: no table, or the rows (version, name, applied at) in the order they were inserted.\<close>

type_synonym ledger_rows = "(int \<times> string \<times> datetime) list"

text \<open>\<open>SELECT COALESCE(MAX(version), 0)\<close>.\<close>

fun max_version :: "ledger_rows \<Rightarrow> int" where
  "max_version [] = 0"
| "max_version [r] = fst r"
| "max_version (r # rs) = max (fst r) (max_version rs)"

definition schema_version :: "ledger_rows option \<Rightarrow> int" where
  "schema_version l = (case l of None \<Rightarrow> 0 | Some rows \<Rightarrow> max_version rows)"

text \<open>The transaction of one migration: the script and the row, whose version is the primary key.\<close>

definition migration_tx :: "migration \<Rightarrow> datetime \<Rightarrow> catalog \<times> ledger_rows option \<Rightarrow> (catalog \<times> ledger_rows option) option" where
  "migration_tx m applied_at s = (case exec_script (mg_sql m) (fst s) of None \<Rightarrow> None
     | Some c \<Rightarrow> (case snd s of None \<Rightarrow> None
         | Some rows \<Rightarrow> if mg_version m \<in> fst ` set rows then None
             else Some (c, Some (rows @ [(mg_version m, mg_name m, applied_at)]))))"

section \<open>The server\<close>

text \<open>
  What a process asks of the server, and what the server does. Its state is the schema and the holder of the advisory lock
  \<open>hashtext('schema_migrations')\<close>, which belongs to a session: taking it again while holding it is granted, releasing a lock held by
  somebody else does nothing. \<open>None\<close> is a statement the server refuses; \<open>waits\<close> one that it does not answer yet.
\<close>

datatype request =
    Connect
  | TakeLock
  | CreateLedger
  | LedgerExists
  | ReadVersion
  | Apply migration
  | ReleaseLock
  | SelectOne

type_synonym server = "(catalog \<times> ledger_rows option) \<times> nat option"

definition waits :: "nat \<Rightarrow> request \<Rightarrow> nat option \<Rightarrow> bool" where
  "waits p q h = (q = TakeLock \<and> h \<noteq> None \<and> h \<noteq> Some p)"

fun serve_request :: "nat \<Rightarrow> datetime \<Rightarrow> request \<Rightarrow> server \<Rightarrow> (int \<times> server) option" where
  "serve_request p t Connect s = Some (0, s)"
| "serve_request p t TakeLock (db, h) = Some (0, db, Some p)"
| "serve_request p t CreateLedger (db, h) = Some (0, (fst db, Some (case snd db of None \<Rightarrow> [] | Some rows \<Rightarrow> rows)), h)"
| "serve_request p t LedgerExists (db, h) = Some (if snd db = None then 0 else 1, db, h)"
| "serve_request p t ReadVersion (db, h) = (case snd db of None \<Rightarrow> None | Some rows \<Rightarrow> Some (max_version rows, db, h))"
| "serve_request p t (Apply m) (db, h) = (case migration_tx m t db of None \<Rightarrow> None | Some db' \<Rightarrow> Some (0, db', h))"
| "serve_request p t ReleaseLock (db, h) = Some (0, db, if h = Some p then None else h)"
| "serve_request p t SelectOne s = Some (1, s)"

section \<open>The programs\<close>

text \<open>
  What a process does with a connection is a program: it is done with an outcome, or it sends a request and goes on with what comes
  back, an exception or a number. \<open>run\<close> executes a program alone, against the fates of the world's statements; further below any number
  of processes execute the same programs at once.
\<close>

datatype 'a prog = Done "exn + 'a" | Ask request "exn + int \<Rightarrow> 'a prog"

primrec bindP :: "'a prog \<Rightarrow> ('a \<Rightarrow> 'b prog) \<Rightarrow> 'b prog" where
  "bindP (Done r) f = (case r of Inl e \<Rightarrow> Done (Inl e) | Inr x \<Rightarrow> f x)"
| "bindP (Ask q k) f = Ask q (\<lambda>a. bindP (k a) f)"

primrec attemptP :: "'a prog \<Rightarrow> (exn + 'a) prog" where
  "attemptP (Done r) = Done (Inr r)"
| "attemptP (Ask q k) = Ask q (\<lambda>a. attemptP (k a))"

primrec mapP :: "('a \<Rightarrow> 'b prog) \<Rightarrow> 'a list \<Rightarrow> 'b list prog" where
  "mapP f [] = Done (Inr [])"
| "mapP f (x # xs) = bindP (f x) (\<lambda>y. bindP (mapP f xs) (\<lambda>ys. Done (Inr (y # ys))))"

definition send :: "request \<Rightarrow> int prog" where
  "send q = Ask q Done"

definition current_on :: "int prog" where
  "current_on = bindP (send LedgerExists) (\<lambda>exists. if exists \<noteq> 0 then send ReadVersion else Done (Inr 0))"

definition apply_migration :: "migration \<Rightarrow> int prog" where
  "apply_migration m = bindP (send (Apply m)) (\<lambda>_. Done (Inr (mg_version m)))"

definition migrate_locked :: "int list prog" where
  "migrate_locked = bindP (send CreateLedger) (\<lambda>_. bindP current_on (\<lambda>v.
     if LATEST < v then bindP current_on (\<lambda>_. Done (Inl (hoc SchemaOutOfDate)))
     else bindP current_on (\<lambda>v'. mapP apply_migration (pending v'))))"

text \<open>\<open>try: ... finally: conn.execute(_UNLOCK)\<close>: an unlock that fails raises in place of the body's own outcome.\<close>

definition migrate_program :: "int list prog" where
  "migrate_program = bindP (send Connect) (\<lambda>_. bindP (send TakeLock) (\<lambda>_.
     bindP (attemptP migrate_locked) (\<lambda>r. bindP (send ReleaseLock) (\<lambda>_. Done r))))"

section \<open>One process\<close>

text \<open>The process is session 0, and \<open>w_lock\<close> the holder of the advisory lock.\<close>

record 'x schema_world = "'x world" +
  w_catalog :: catalog
  w_migrations :: "ledger_rows option"
  w_lock :: "nat option"

text \<open>One statement on the connection; psycopg's own exception is not translated here.\<close>

definition psql ::
    "(('x, 'm) world_scheme \<Rightarrow> ('a \<times> ('x, 'm) world_scheme) option) \<Rightarrow> (('x, 'm) world_scheme, exn, 'a) eff" where
  "psql stmt = catchE (db_stmt HocError stmt) (\<lambda>_. raiseE (Other ''psycopg.Error''))"

definition schema_view :: "('x, 'm) schema_world_scheme \<Rightarrow> catalog \<times> ledger_rows option" where
  "schema_view w = (w_catalog w, w_migrations w)"

definition with_server :: "('x, 'm) schema_world_scheme \<Rightarrow> server \<Rightarrow> ('x, 'm) schema_world_scheme" where
  "with_server w s = w\<lparr>w_catalog := fst (fst s), w_migrations := snd (fst s), w_lock := snd s\<rparr>"

text \<open>The row of a migration carries \<open>datetime.now(UTC)\<close>: its statement reads the clock.\<close>

definition clock_read :: "request \<Rightarrow> ('x, 'm) schema_world_scheme \<Rightarrow> ('x, 'm) schema_world_scheme" where
  "clock_read q w = (case q of Apply m \<Rightarrow> w\<lparr>w_clock_at := Suc (w_clock_at w)\<rparr> | _ \<Rightarrow> w)"

definition ask :: "request \<Rightarrow> (('x, 'm) schema_world_scheme, exn, int) eff" where
  "ask q = psql (\<lambda>w. case serve_request 0 (w_clock w (w_clock_at w)) q (schema_view w, w_lock w) of None \<Rightarrow> None
     | Some (x, s) \<Rightarrow> Some (x, with_server (clock_read q w) s))"

primrec run :: "'a prog \<Rightarrow> (('x, 'm) schema_world_scheme, exn, 'a) eff" where
  "run (Done r) = liftE r"
| "run (Ask q k) = bindE (attemptE (ask q)) (\<lambda>a. run (k a))"

definition migrate :: "(('x, 'm) schema_world_scheme, exn, int list) eff" where
  "migrate = run migrate_program"

definition current_version :: "(('x, 'm) schema_world_scheme, exn, int) eff" where
  "current_version = run (bindP (send Connect) (\<lambda>_. current_on))"

definition assert_current :: "(('x, 'm) schema_world_scheme, exn, unit) eff" where
  "assert_current = bindE current_version (\<lambda>v.
     if v < LATEST then raiseE (hoc SchemaOutOfDate)
     else if LATEST < v then raiseE (hoc SchemaOutOfDate) else retE ())"

definition ping :: "(('x, 'm) schema_world_scheme, exn, int) eff" where
  "ping = run (bindP (send Connect) (\<lambda>_. bindP (send SelectOne) (\<lambda>_. current_on)))"

text \<open>Running a program takes it apart.\<close>

lemma run_bindP: "run (bindP p f) = bindE (run p) (\<lambda>x. run (f x))"
proof (induction p)
  case (Done r)
  then show ?case by (rule ext) (auto simp: bindE_def liftE_def split: sum.splits)
next
  case (Ask q k)
  then show ?case by (simp add: bindE_assoc)
qed

lemma run_attemptP: "run (attemptP p) = attemptE (run p)"
proof (induction p)
  case (Done r)
  then show ?case by (rule ext) (simp add: attemptE_def liftE_def)
next
  case (Ask q k)
  then show ?case by (intro ext) (simp add: bindE_def attemptE_def split: prod.splits sum.splits)
qed

lemma run_mapP: "run (mapP f xs) = mapE (\<lambda>x. run (f x)) xs"
  by (induction xs) (simp_all add: run_bindP liftE_def retE_def)

lemma run_send: "run (send q) = ask q"
  by (rule ext) (simp add: send_def bindE_def attemptE_def liftE_def split: prod.splits)

lemmas run_simps = run_bindP run_attemptP run_mapP run_send


section \<open>What a script leaves in the catalog\<close>

text \<open>\<open>put_sql\<close> is the object a statement asks for, put there whatever was there before. On a catalog that has no foreign
  object under one of the program's names (\<open>our_objects\<close>) a statement either fails or does just that.\<close>

fun put_sql :: "sql \<Rightarrow> catalog \<Rightarrow> catalog" where
  "put_sql (CreateTable n cols refs) c = c\<lparr>cat_tables := (cat_tables c)(n \<mapsto> cols)\<rparr>"
| "put_sql (CreateIndex n t cols) c = c\<lparr>cat_indexes := (cat_indexes c)(n \<mapsto> (t, cols))\<rparr>"
| "put_sql (CreateFunction n body) c = c\<lparr>cat_functions := (cat_functions c)(n \<mapsto> body)\<rparr>"
| "put_sql (DropTrigger n t) c = c\<lparr>cat_triggers := (cat_triggers c)((t, n) := None)\<rparr>"
| "put_sql (CreateTrigger n t evs f) c = c\<lparr>cat_triggers := (cat_triggers c)((t, n) \<mapsto> (evs, f))\<rparr>"
| "put_sql (CreateExtension x) c = c\<lparr>cat_extensions := insert x (cat_extensions c)\<rparr>"

fun agrees :: "sql \<Rightarrow> catalog \<Rightarrow> bool" where
  "agrees (CreateTable n cols refs) c = (cat_tables c n = None \<or> cat_tables c n = Some cols)"
| "agrees (CreateIndex n t cols) c = (cat_indexes c n = None \<or> cat_indexes c n = Some (t, cols))"
| "agrees _ c = True"

fun needs :: "sql \<Rightarrow> catalog \<Rightarrow> bool" where
  "needs (CreateTable n cols refs) c = list_all (\<lambda>r. cat_tables c r \<noteq> None) refs"
| "needs (CreateIndex n t cols) c = (case cat_tables c t of None \<Rightarrow> False | Some tcols \<Rightarrow> list_all (\<lambda>x. x \<in> set tcols) cols)"
| "needs (CreateTrigger n t evs f) c = (cat_tables c t \<noteq> None \<and> cat_functions c f \<noteq> None \<and> cat_triggers c (t, n) = None)"
| "needs (CreateExtension x) c = (x \<in> cat_available c)"
| "needs _ c = True"

lemma exec_put: "agrees s c \<Longrightarrow> needs s c \<Longrightarrow> exec_sql s c = Some (put_sql s c)"
proof (cases s)
  case (CreateExtension x)
  then show "agrees s c \<Longrightarrow> needs s c \<Longrightarrow> ?thesis" by (cases c) (auto simp: insert_absorb)
qed (cases c; auto simp: fun_upd_idem split: option.splits)+

fun item_sql :: "script_item \<Rightarrow> sql list" where
  "item_sql (Stmt s) = [s]"
| "item_sql (WhenAvailable x ss) = ss"

definition script_sql :: "script_item list \<Rightarrow> sql list" where
  "script_sql is = concat (map item_sql is)"

definition our_objects :: "catalog \<Rightarrow> bool" where
  "our_objects c = list_all (\<lambda>m. list_all (\<lambda>s. agrees s c) (script_sql (mg_sql m))) MIGRATIONS"

fun has_sql :: "catalog \<Rightarrow> sql \<Rightarrow> bool" where
  "has_sql c (CreateTable n cols refs) = (cat_tables c n = Some cols)"
| "has_sql c (CreateIndex n t cols) = (cat_indexes c n = Some (t, cols))"
| "has_sql c (CreateFunction n body) = (cat_functions c n = Some body)"
| "has_sql c (DropTrigger n t) = True"
| "has_sql c (CreateTrigger n t evs f) = (cat_triggers c (t, n) = Some (evs, f))"
| "has_sql c (CreateExtension x) = (x \<in> cat_extensions c)"

fun has_item :: "catalog \<Rightarrow> script_item \<Rightarrow> bool" where
  "has_item c (Stmt s) = has_sql c s"
| "has_item c (WhenAvailable x ss) = (x \<in> cat_available c \<longrightarrow> list_all (has_sql c) ss)"

definition provides :: "nat \<Rightarrow> catalog \<Rightarrow> bool" where
  "provides k c = list_all (\<lambda>m. list_all (has_item c) (mg_sql m)) (take k MIGRATIONS)"

lemma baseline_provides:
  assumes "our_objects c"
  shows "\<exists>c'. exec_script (mg_sql (MIGRATIONS ! 0)) c = Some c' \<and> our_objects c' \<and> provides 1 c'"
  using assms
  by (simp add: our_objects_def provides_def script_sql_def MIGRATIONS_def schema_defs exec_put del: exec_sql.simps)

lemma memory_content_provides:
  assumes "our_objects c" "provides 1 c"
  shows "\<exists>c'. exec_script (mg_sql (MIGRATIONS ! 1)) c = Some c' \<and> our_objects c' \<and> provides 2 c'"
  using assms
  by (simp add: our_objects_def provides_def script_sql_def MIGRATIONS_def schema_defs exec_put del: exec_sql.simps)

lemma truncate_guard_provides:
  assumes "our_objects c" "provides 2 c"
  shows "\<exists>c'. exec_script (mg_sql (MIGRATIONS ! 2)) c = Some c' \<and> our_objects c' \<and> provides 3 c'"
  using assms
  by (simp add: our_objects_def provides_def script_sql_def MIGRATIONS_def schema_defs exec_put numeral_2_eq_2 numeral_3_eq_3
      del: exec_sql.simps)


section \<open>The ledger says what the catalog holds\<close>

definition ledger_keys :: "ledger_rows \<Rightarrow> (int \<times> string) list" where
  "ledger_keys rows = map (\<lambda>r. (fst r, fst (snd r))) rows"

text \<open>\<open>schema_at k\<close>: the ledger lists the first \<open>k\<close> migrations in order and the catalog has every object they create.\<close>

definition schema_at :: "nat \<Rightarrow> catalog \<times> ledger_rows option \<Rightarrow> bool" where
  "schema_at k s = (our_objects (fst s) \<and> provides k (fst s) \<and>
     map_option ledger_keys (snd s) = Some (map (\<lambda>m. (mg_version m, mg_name m)) (take k MIGRATIONS)))"

definition schema_inv :: "catalog \<times> ledger_rows option \<Rightarrow> bool" where
  "schema_inv s = ((snd s = None \<and> our_objects (fst s)) \<or> (\<exists>k\<le>length MIGRATIONS. schema_at k s))"

lemma schema_inv_cases [consumes 1, case_names none at]:
  assumes "schema_inv s"
  obtains "snd s = None" "our_objects (fst s)" | k where "k \<le> length MIGRATIONS" "schema_at k s"
  using assms unfolding schema_inv_def
proof (elim disjE conjE exE)
qed (rule that; assumption)+

lemma schema_invI: "schema_at k s \<Longrightarrow> k \<le> length MIGRATIONS \<Longrightarrow> schema_inv s"
  unfolding schema_inv_def by blast

lemma length_MIGRATIONS [simp]: "length MIGRATIONS = 3"
  by (simp add: MIGRATIONS_def)

lemma LATEST_eq: "LATEST = 3"
  by (simp add: LATEST_def MIGRATIONS_def)

lemma provides_0: "provides 0 c"
  by (simp add: provides_def)

lemma less_3_cases: "k < (3::nat) \<Longrightarrow> k = 0 \<or> k = 1 \<or> k = 2"
  by linarith

lemma next_provides:
  assumes "our_objects c" "provides k c" "k < length MIGRATIONS"
  shows "\<exists>c'. exec_script (mg_sql (MIGRATIONS ! k)) c = Some c' \<and> our_objects c' \<and> provides (Suc k) c'"
  using less_3_cases [of k] baseline_provides [of c] memory_content_provides [of c] truncate_guard_provides [of c] assms
  by (auto simp: numeral_2_eq_2 numeral_3_eq_3)

lemma pending_drop: "k \<le> length MIGRATIONS \<Longrightarrow> pending (int k) = drop k MIGRATIONS"
  using le_less_trans [of k 3 4] by (cases "k = 3"; cases "k = 2"; cases "k = 1"; cases "k = 0")
    (auto simp: pending_def MIGRATIONS_def)

lemma keys_of_version:
  "ledger_keys rows = map (\<lambda>m. (mg_version m, mg_name m)) (take k MIGRATIONS) \<Longrightarrow> k \<le> length MIGRATIONS \<Longrightarrow>
    map fst rows = map mg_version (take k MIGRATIONS)"
  unfolding ledger_keys_def by (drule arg_cong [where f = "map fst"]) (simp add: comp_def)

lemma max_version_take: "map fst rows = map mg_version (take k MIGRATIONS) \<Longrightarrow> k \<le> length MIGRATIONS \<Longrightarrow>
    max_version rows = int k"
  using le_less_trans [of k 3 4] by (cases "k = 3"; cases "k = 2"; cases "k = 1"; cases "k = 0")
    (auto simp: MIGRATIONS_def)

lemma schema_at_version: "schema_at k s \<Longrightarrow> k \<le> length MIGRATIONS \<Longrightarrow> schema_version (snd s) = int k"
  by (auto simp: schema_at_def schema_version_def split: option.splits intro!: max_version_take keys_of_version)

text \<open>The transaction of the next migration always goes through, and brings the schema one further.\<close>

lemma next_migration:
  assumes at_k: "schema_at k s" and k: "k < length MIGRATIONS"
  shows "\<exists>s'. migration_tx (MIGRATIONS ! k) t s = Some s' \<and> schema_at (Suc k) s'"
proof -
  from at_k obtain rows where s: "our_objects (fst s)" "provides k (fst s)" "snd s = Some rows"
    and keys: "ledger_keys rows = map (\<lambda>m. (mg_version m, mg_name m)) (take k MIGRATIONS)"
    by (auto simp: schema_at_def)
  have versions: "map fst rows = map mg_version (take k MIGRATIONS)" using keys_of_version [OF keys] k by simp
  have "mg_version (MIGRATIONS ! k) \<notin> set (map mg_version (take k MIGRATIONS))"
    using less_3_cases [of k] k by (auto simp: MIGRATIONS_def)
  then have new: "mg_version (MIGRATIONS ! k) \<notin> fst ` set rows" by (metis versions set_map)
  from next_provides [OF s(1,2) k] obtain c' where c': "exec_script (mg_sql (MIGRATIONS ! k)) (fst s) = Some c'"
    "our_objects c'" "provides (Suc k) c'" by (elim exE conjE)
  have "ledger_keys (rows @ [(mg_version (MIGRATIONS ! k), mg_name (MIGRATIONS ! k), t)])
      = map (\<lambda>m. (mg_version m, mg_name m)) (take (Suc k) MIGRATIONS)"
    using k by (simp add: take_Suc_conv_app_nth ledger_keys_def keys [unfolded ledger_keys_def])
  then show ?thesis using s c' new by (simp add: migration_tx_def schema_at_def)
qed

section \<open>Runs of \<open>migrate\<close>\<close>

definition db_up :: "('x, 'm) world_scheme \<Rightarrow> bool" where
  "db_up w \<longleftrightarrow> (\<forall>n. w_db w n = DbOk)"

lemma db_up_frame [simp]:
  "db_up (w\<lparr>w_db_at := n\<rparr>) = db_up w" "schema_view (v\<lparr>w_db_at := n\<rparr>) = schema_view v"
  by (simp_all add: db_up_def schema_view_def)

lemma with_server_frame [simp]:
  "schema_view (with_server (clock_read q w) s) = fst s" "db_up (with_server (clock_read q w) s) = db_up w"
  by (cases q; simp add: schema_view_def with_server_def clock_read_def db_up_def)+

text \<open>A request that the server does not refuse: the answer, or an exception with the request carried out or not.\<close>

lemma wp_ask:
  assumes "serve_request 0 (w_clock w (w_clock_at w)) q (schema_view w, w_lock w) = Some (x, s)"
    and "\<And>w2. schema_view w2 = fst s \<Longrightarrow> db_up w2 = db_up w \<Longrightarrow> Q x w2"
    and "\<And>w2. \<not> db_up w \<Longrightarrow> schema_view w2 = schema_view w \<or> schema_view w2 = fst s \<Longrightarrow> db_up w2 = db_up w \<Longrightarrow>
      R (Other ''psycopg.Error'') w2"
  shows "wp (ask q) Q R w"
proof -
  have lost: "w_db w (w_db_at w) \<noteq> DbOk \<Longrightarrow> \<not> db_up w" by (auto simp: db_up_def)
  let ?w = "w\<lparr>w_db_at := Suc (w_db_at w)\<rparr>"
  have frame: "w_clock ?w (w_clock_at ?w) = w_clock w (w_clock_at w)" "schema_view ?w = schema_view w" "w_lock ?w = w_lock w" by simp_all
  have "db_up ?w = db_up w" by simp
  with assms lost show ?thesis unfolding ask_def
    by (auto simp: wp_def psql_def catchE_def raiseE_def db_stmt_def Let_def frame split: db_fate.splits option.splits)
qed

text \<open>\<open>stays s up\<close>: the schema is \<open>s\<close> still, and the database is as it was.\<close>

abbreviation stays :: "catalog \<times> ledger_rows option \<Rightarrow> bool \<Rightarrow> ('x, 'm) schema_world_scheme \<Rightarrow> bool" where
  "stays s up w \<equiv> schema_view w = s \<and> db_up w = up"

lemma wp_quiet:
  assumes "q \<in> {Connect, TakeLock, ReleaseLock, SelectOne}" "stays s up w"
    and "\<And>v w'. stays s up w' \<Longrightarrow> Q v w'" "\<And>e w'. \<not> up \<Longrightarrow> stays s up w' \<Longrightarrow> R e w'"
  shows "wp (ask q) Q R w"
  using assms(1,2) by (elim insertE emptyE; intro wp_ask) (auto simp: schema_view_def intro: assms(3,4))

lemma wp_current_on:
  assumes "stays s up w"
  shows "wp (run current_on) (\<lambda>v w'. v = schema_version (snd s) \<and> stays s up w') (\<lambda>e w'. \<not> up \<and> stays s up w') w"
  unfolding current_on_def run_simps wp_rules
proof (rule wp_ask [OF serve_request.simps(4)])
  fix w2 :: "('a, 'b) schema_world_scheme"
  assume "schema_view w2 = fst (schema_view w, w_lock w)" "db_up w2 = db_up w"
  then have w2: "stays s up w2" using assms by simp
  show "wp (run (if (if snd (schema_view w) = None then 0 else 1 :: int) \<noteq> 0 then send ReadVersion else Done (Inr 0)))
      (\<lambda>v w'. v = schema_version (snd s) \<and> stays s up w') (\<lambda>e w'. \<not> up \<and> stays s up w') w2"
  proof (cases "snd s")
    case None
    then show ?thesis using assms w2 by (auto simp: wp_rules schema_version_def)
  next
    case (Some rows)
    then have "serve_request 0 (w_clock w2 (w_clock_at w2)) ReadVersion (schema_view w2, w_lock w2) = Some (max_version rows, schema_view w2, w_lock w2)"
      using w2 by simp
    then have "wp (ask ReadVersion) (\<lambda>v w'. v = schema_version (snd s) \<and> stays s up w') (\<lambda>e w'. \<not> up \<and> stays s up w') w2"
      by (rule wp_ask) (use w2 Some in \<open>auto simp: schema_version_def\<close>)
    then show ?thesis using assms Some by (auto simp: run_simps)
  qed
qed (use assms in auto)


definition advanced :: "catalog \<times> ledger_rows option \<Rightarrow> catalog \<times> ledger_rows option \<Rightarrow> bool" where
  "advanced s s' \<longleftrightarrow> s' = s \<or> (\<exists>k\<le>length MIGRATIONS. schema_version (snd s) \<le> int k \<and> schema_at k s')"

lemma advanced_version: "advanced s s' \<Longrightarrow> schema_version (snd s) \<le> schema_version (snd s')"
  by (auto simp: advanced_def schema_at_version)

lemma advanced_inv: "advanced s s' \<Longrightarrow> schema_inv s \<Longrightarrow> schema_inv s'"
  by (auto simp: advanced_def intro: schema_invI)

lemma wp_apply_migration:
  assumes k: "schema_at k (schema_view w)" "k < length MIGRATIONS"
  shows "wp (run (apply_migration (MIGRATIONS ! k)))
    (\<lambda>v w'. v = mg_version (MIGRATIONS ! k) \<and> schema_at (Suc k) (schema_view w') \<and> db_up w' = db_up w)
    (\<lambda>e w'. \<not> db_up w \<and> (\<exists>j. k \<le> j \<and> j \<le> length MIGRATIONS \<and> schema_at j (schema_view w'))) w"
proof -
  from next_migration [OF k, of "w_clock w (w_clock_at w)"] obtain s where tx:
    "migration_tx (MIGRATIONS ! k) (w_clock w (w_clock_at w)) (schema_view w) = Some s" "schema_at (Suc k) s" by (elim exE conjE)
  have between: "\<exists>j. k \<le> j \<and> j \<le> length MIGRATIONS \<and> schema_at j v" if "v = schema_view w \<or> v = s" for v
    using that k tx by (elim disjE) (intro exI [of _ k], simp, intro exI [of _ "Suc k"], simp)
  have "serve_request 0 (w_clock w (w_clock_at w)) (Apply (MIGRATIONS ! k)) (schema_view w, w_lock w) = Some (0, s, w_lock w)"
    using tx(1) by simp
  then have "wp (ask (Apply (MIGRATIONS ! k)))
    (\<lambda>_ w'. schema_at (Suc k) (schema_view w') \<and> db_up w' = db_up w)
    (\<lambda>e w'. \<not> db_up w \<and> (\<exists>j. k \<le> j \<and> j \<le> length MIGRATIONS \<and> schema_at j (schema_view w'))) w"
    by (rule wp_ask) (use tx(2) between in auto)
  then show ?thesis unfolding apply_migration_def run_simps wp_rules by (elim wp_mono) (simp_all add: wp_rules)
qed

lemma wp_apply_pending:
  fixes w :: "('x, 'm) schema_world_scheme"
  assumes "k \<le> length MIGRATIONS" "schema_at k (schema_view w)"
  shows "wp (mapE (\<lambda>m. run (apply_migration m)) (drop k MIGRATIONS))
    (\<lambda>vs w'. vs = map mg_version (drop k MIGRATIONS) \<and> schema_at (length MIGRATIONS) (schema_view w') \<and> db_up w' = db_up w)
    (\<lambda>e w'. \<not> db_up w \<and> (\<exists>j. k \<le> j \<and> j \<le> length MIGRATIONS \<and> schema_at j (schema_view w'))) w"
  using assms
proof (induction k arbitrary: w rule: inc_induct)
  case base
  then show ?case by (simp add: wp_rules)
next
  case (step k)
  have drop: "drop k MIGRATIONS = MIGRATIONS ! k # drop (Suc k) MIGRATIONS" using step.hyps by (simp add: Cons_nth_drop_Suc)
  have "wp (mapE (\<lambda>m. run (apply_migration m)) (drop (Suc k) MIGRATIONS))
      (\<lambda>vs w'. v # vs = map mg_version (drop k MIGRATIONS) \<and> schema_at (length MIGRATIONS) (schema_view w') \<and> db_up w' = db_up w)
      (\<lambda>e w'. \<not> db_up w \<and> (\<exists>j. k \<le> j \<and> j \<le> length MIGRATIONS \<and> schema_at j (schema_view w'))) v1"
    if "v = mg_version (MIGRATIONS ! k) \<and> schema_at (Suc k) (schema_view v1) \<and> db_up v1 = db_up w" for v and v1 :: "('x, 'm) schema_world_scheme"
    by (rule wp_mono [OF step.IH]) (use that drop in \<open>auto dest: Suc_leD\<close>)
  then show ?case unfolding drop mapE.simps wp_rules using wp_apply_migration [OF step.prems step.hyps(2)]
    by (elim wp_mono) (simp_all add: drop wp_rules)
qed

lemma schema_inv_ledger:
  assumes "schema_inv db"
  shows "\<exists>k\<le>length MIGRATIONS. schema_version (snd db) = int k \<and> schema_at k (fst db, Some (case snd db of None \<Rightarrow> [] | Some rows \<Rightarrow> rows))"
  using assms
proof (cases rule: schema_inv_cases)
  case none
  then show ?thesis
    by (intro exI [of _ 0]) (simp add: schema_at_def provides_0 ledger_keys_def schema_version_def)
next
  case (at k)
  then have "(fst db, Some (case snd db of None \<Rightarrow> [] | Some rows \<Rightarrow> rows)) = db" by (cases db) (auto simp: schema_at_def)
  then show ?thesis using at schema_at_version [OF at(2,1)] by (intro exI [of _ k]) simp
qed

lemma wp_create_ledger:
  fixes w :: "('x, 'm) schema_world_scheme"
  assumes "schema_inv (schema_view w)"
  shows "wp (ask CreateLedger)
    (\<lambda>_ w'. (\<exists>k\<le>length MIGRATIONS. schema_version (w_migrations w) = int k \<and> schema_at k (schema_view w')) \<and> db_up w' = db_up w)
    (\<lambda>e w'. \<not> db_up w \<and> advanced (schema_view w) (schema_view w')) w"
proof -
  from schema_inv_ledger [OF assms] obtain k where k: "k \<le> length MIGRATIONS" "schema_version (w_migrations w) = int k"
    "schema_at k (fst (schema_view w), Some (case snd (schema_view w) of None \<Rightarrow> [] | Some rows \<Rightarrow> rows))"
    by (auto simp: schema_view_def)
  then show ?thesis by (intro wp_ask [OF serve_request.simps(3)]) (auto simp: advanced_def schema_view_def)
qed

lemma run_migrate_locked:
  "run migrate_locked = bindE (ask CreateLedger) (\<lambda>_. bindE (run current_on) (\<lambda>v.
     if LATEST < v then bindE (run current_on) (\<lambda>_. raiseE (hoc SchemaOutOfDate))
     else bindE (run current_on) (\<lambda>v'. mapE (\<lambda>m. run (apply_migration m)) (pending v'))))"
  by (simp add: migrate_locked_def run_simps if_distrib [of run] liftE_def raiseE_def cong: if_cong)

lemma run_migrate:
  "migrate = bindE (ask Connect) (\<lambda>_. bindE (ask TakeLock) (\<lambda>_.
     bindE (attemptE (run migrate_locked)) (\<lambda>r. bindE (ask ReleaseLock) (\<lambda>_. liftE r))))"
  by (simp add: migrate_def migrate_program_def run_simps)

text \<open>A read that answers \<open>x\<close> and leaves the schema alone, and what follows it.\<close>

lemma wp_read_then:
  assumes "wp m (\<lambda>v w'. v = x \<and> stays s up w') (\<lambda>e w'. \<not> up \<and> stays s up w') w"
    and "\<And>w'. stays s up w' \<Longrightarrow> wp (f x) Q R w'"
    and "\<And>e w'. \<not> up \<Longrightarrow> stays s up w' \<Longrightarrow> R e w'"
  shows "wp (bindE m f) Q R w"
  unfolding wp_bindE using assms(1) by (elim wp_mono) (auto intro: assms(2,3))

text \<open>From a schema at \<open>k\<close>, the rest of the run brings it to the last version; when it fails, somewhere in between.\<close>

lemma wp_migrate_pending:
  fixes w :: "('x, 'm) schema_world_scheme"
  assumes k: "k \<le> length MIGRATIONS" "schema_at k (schema_view w)"
  shows "wp (bindE (run current_on) (\<lambda>v. if LATEST < v then bindE (run current_on) (\<lambda>_. raiseE (hoc SchemaOutOfDate))
      else bindE (run current_on) (\<lambda>v'. mapE (\<lambda>m. run (apply_migration m)) (pending v'))))
    (\<lambda>vs w'. vs = map mg_version (drop k MIGRATIONS) \<and> schema_at (length MIGRATIONS) (schema_view w') \<and> db_up w' = db_up w)
    (\<lambda>e w'. \<not> db_up w \<and> (\<exists>j. k \<le> j \<and> j \<le> length MIGRATIONS \<and> schema_at j (schema_view w'))) w"
proof -
  let ?s = "schema_view w" and ?up = "db_up w"
  let ?R = "\<lambda>(e::exn) w'. \<not> ?up \<and> (\<exists>j. k \<le> j \<and> j \<le> length MIGRATIONS \<and> schema_at j (schema_view w'))"
  have v: "schema_version (snd ?s) = int k" "\<not> LATEST < int k"
    using k schema_at_version [OF k(2,1)] by (simp_all add: LATEST_eq)
  have stopped: "?R e w'" if "\<not> ?up" "stays ?s ?up w'" for e and w' :: "('x, 'm) schema_world_scheme"
    using that k by (intro conjI exI [of _ k]) auto
  have rest: "wp (mapE (\<lambda>m. run (apply_migration m)) (pending (schema_version (snd ?s))))
      (\<lambda>vs w'. vs = map mg_version (drop k MIGRATIONS) \<and> schema_at (length MIGRATIONS) (schema_view w') \<and> db_up w' = db_up w) ?R w2"
    if "stays ?s ?up w2" for w2 :: "('x, 'm) schema_world_scheme"
    using wp_apply_pending [of k w2] that k v by (simp add: pending_drop)
  show ?thesis
  proof (rule wp_read_then [OF wp_current_on])
    show "stays ?s ?up w" by simp
  next
    fix w1 :: "('x, 'm) schema_world_scheme" assume w1: "stays ?s ?up w1"
    show "wp (if LATEST < schema_version (snd ?s) then bindE (run current_on) (\<lambda>_. raiseE (hoc SchemaOutOfDate))
        else bindE (run current_on) (\<lambda>v'. mapE (\<lambda>m. run (apply_migration m)) (pending v')))
      (\<lambda>vs w'. vs = map mg_version (drop k MIGRATIONS) \<and> schema_at (length MIGRATIONS) (schema_view w') \<and> db_up w' = db_up w) ?R w1"
      unfolding v(1) if_not_P [OF v(2)]
      by (rule wp_read_then [OF wp_current_on [OF w1]]) (fact rest stopped)+
  qed (fact stopped)
qed

lemma wp_migrate_locked:
  fixes w :: "('x, 'm) schema_world_scheme"
  assumes inv: "schema_inv (schema_view w)"
  shows "wp (run migrate_locked)
    (\<lambda>vs w'. vs = map mg_version (pending (schema_version (w_migrations w))) \<and> schema_at (length MIGRATIONS) (schema_view w') \<and>
      db_up w' = db_up w)
    (\<lambda>e w'. \<not> db_up w \<and> advanced (schema_view w) (schema_view w')) w"
  unfolding run_migrate_locked wp_bindE [of "ask CreateLedger"]
proof (rule wp_mono [OF wp_create_ledger [OF inv]])
  fix x and w1 :: "('x, 'm) schema_world_scheme"
  assume "(\<exists>k\<le>length MIGRATIONS. schema_version (w_migrations w) = int k \<and> schema_at k (schema_view w1)) \<and> db_up w1 = db_up w"
  then obtain k where k: "k \<le> length MIGRATIONS" "schema_version (w_migrations w) = int k" "schema_at k (schema_view w1)"
    and up: "db_up w1 = db_up w" by (elim exE conjE)
  show "wp (bindE (run current_on) (\<lambda>v. if LATEST < v then bindE (run current_on) (\<lambda>_. raiseE (hoc SchemaOutOfDate))
        else bindE (run current_on) (\<lambda>v'. mapE (\<lambda>m. run (apply_migration m)) (pending v'))))
      (\<lambda>vs w'. vs = map mg_version (pending (schema_version (w_migrations w))) \<and> schema_at (length MIGRATIONS) (schema_view w') \<and>
        db_up w' = db_up w)
      (\<lambda>e w'. \<not> db_up w \<and> advanced (schema_view w) (schema_view w')) w1"
    by (rule wp_mono [OF wp_migrate_pending [OF k(1,3)]])
      (use k up pending_drop [OF k(1)] in \<open>auto simp: advanced_def schema_view_def\<close>)
qed simp

theorem wp_migrate:
  fixes w :: "('x, 'm) schema_world_scheme"
  assumes inv: "schema_inv (schema_view w)"
  shows "wp migrate
    (\<lambda>vs w'. vs = map mg_version (pending (schema_version (w_migrations w))) \<and> schema_at (length MIGRATIONS) (schema_view w'))
    (\<lambda>e w'. \<not> db_up w \<and> advanced (schema_view w) (schema_view w')) w"
proof -
  let ?s = "schema_view w" and ?up = "db_up w"
  let ?Q = "\<lambda>vs w'. vs = map mg_version (pending (schema_version (snd ?s))) \<and> schema_at (length MIGRATIONS) (schema_view w')"
  let ?R = "\<lambda>(e :: exn) w'. \<not> ?up \<and> advanced ?s (schema_view w')"
  have last: "advanced ?s s'" if "schema_at (length MIGRATIONS) s'" for s'
    using inv
  proof (cases rule: schema_inv_cases)
    case none
    then show ?thesis using that by (auto simp: advanced_def schema_version_def)
  next
    case (at k)
    then show ?thesis using that schema_at_version [OF at(2,1)] by (auto simp: advanced_def)
  qed
  have stopped: "?R e w'" if "\<not> ?up" "stays ?s ?up w'" for e and w' :: "('x, 'm) schema_world_scheme"
    using that by (auto simp: advanced_def)
  have returned: "wp (bindE (ask ReleaseLock) (\<lambda>_. liftE r)) ?Q ?R v"
    if "case r of Inl e \<Rightarrow> ?R e v | Inr vs \<Rightarrow> ?Q vs v \<and> db_up v = ?up" for r and v :: "('x, 'm) schema_world_scheme"
    unfolding wp_bindE by (rule wp_quiet [where s = "schema_view v" and up = "db_up v"]) (use that last in \<open>auto simp: wp_rules split: sum.splits\<close>)
  have locked: "wp (bindE (attemptE (run migrate_locked)) (\<lambda>r. bindE (ask ReleaseLock) (\<lambda>_. liftE r))) ?Q ?R v"
    if v: "stays ?s ?up v" for v :: "('x, 'm) schema_world_scheme"
  proof -
    have mig: "w_migrations v = snd ?s" "schema_view v = ?s" "db_up v = ?up" using v by (auto simp: schema_view_def)
    have "wp (run migrate_locked) (\<lambda>vs w'. ?Q vs w' \<and> db_up w' = ?up) ?R v"
      by (rule wp_mono [OF wp_migrate_locked [of v, unfolded mig, OF inv]]) (simp_all only: simp_thms)
    then show ?thesis unfolding wp_bindE wp_attemptE
      by (elim wp_mono; intro returned [unfolded wp_bindE]) auto
  qed
  have lock: "wp (bindE (ask TakeLock) (\<lambda>_. bindE (attemptE (run migrate_locked)) (\<lambda>r. bindE (ask ReleaseLock) (\<lambda>_. liftE r)))) ?Q ?R v"
    if "stays ?s ?up v" for v :: "('x, 'm) schema_world_scheme"
    unfolding wp_bindE [of "ask TakeLock"] by (rule wp_quiet [OF _ that]) (use locked stopped in auto)
  have "wp migrate ?Q ?R w"
    unfolding run_migrate wp_bindE [of "ask Connect"]
    by (rule wp_quiet [OF _ conjI [OF refl refl]]) (use lock stopped in auto)
  then show ?thesis by (simp add: schema_view_def)
qed


lemma wp_current_version:
  assumes "stays s up w"
  shows "wp current_version (\<lambda>v w'. v = schema_version (snd s) \<and> stays s up w') (\<lambda>e w'. \<not> up \<and> stays s up w') w"
  unfolding current_version_def run_simps wp_bindE
  by (rule wp_quiet [OF _ assms]) (auto intro: wp_current_on)

text \<open>
  The service only runs on the schema it was written for: \<open>assert_current\<close> returns exactly when the ledger's highest
  version is the last migration, older and newer databases raise \<open>SchemaOutOfDate\<close>, and it changes nothing.
\<close>

theorem assert_current_exact:
  assumes "db_up w"
  shows "fst (assert_current w) = (if schema_version (w_migrations w) = LATEST then Inr () else Inl (hoc SchemaOutOfDate))
    \<and> schema_view (snd (assert_current w)) = schema_view w"
proof -
  have "wp assert_current (\<lambda>_ w'. schema_version (w_migrations w) = LATEST \<and> schema_view w' = schema_view w)
      (\<lambda>e w'. schema_version (w_migrations w) \<noteq> LATEST \<and> e = hoc SchemaOutOfDate \<and> schema_view w' = schema_view w) w"
    unfolding assert_current_def
    by (rule wp_read_then [OF wp_current_version [where s = "schema_view w" and up = True]]) (use assms in \<open>auto simp: wp_rules schema_view_def\<close>)
  then show ?thesis by (cases "assert_current w") (auto simp: wp_def split: sum.splits)
qed

lemma assert_current_Inr:
  assumes "assert_current w = (Inr x, w')"
  shows "schema_version (w_migrations w) = LATEST" "schema_view w' = schema_view w"
  using assms wp_current_version [of w "schema_view w" "db_up w"]
  by (auto simp: assert_current_def bindE_Inr raiseE_def retE_def wp_def schema_view_def split: if_splits)

text \<open>
  Whatever fails while the schema is migrated, and whether or not the failing statement was applied: the ledger
  lists the first migrations in order, the catalog holds what they create, and the version never goes down.
\<close>

theorem migrate_keeps_schema:
  assumes "schema_inv (schema_view w)" "migrate w = (r, w')"
  shows "schema_inv (schema_view w') \<and> schema_version (w_migrations w) \<le> schema_version (w_migrations w')"
proof (cases r)
  case (Inl e)
  with wp_migrate [OF assms(1)] assms(2) have adv: "advanced (schema_view w) (schema_view w')" by (simp add: wp_def)
  from advanced_inv [OF this assms(1)] advanced_version [OF this] show ?thesis by (simp add: schema_view_def)
next
  case (Inr vs)
  with wp_migrate [OF assms(1)] assms(2) have at: "schema_at (length MIGRATIONS) (schema_view w')" by (simp add: wp_def)
  have "schema_version (w_migrations w) \<le> 3" using assms(1)
  proof (cases rule: schema_inv_cases)
    case none
    then show ?thesis by (simp add: schema_view_def schema_version_def)
  next
    case (at k)
    then show ?thesis using schema_at_version [OF at(2,1)] by (simp add: schema_view_def)
  qed
  then show ?thesis using schema_invI [OF at] schema_at_version [OF at] by (simp add: schema_view_def)
qed

text \<open>
  On a database whose ledger is true and that answers, \<open>migrate\<close> returns: no statement of a migration can be refused. It
  reports the versions that were pending and leaves the schema of the last one; run again it has nothing to do.
\<close>

theorem migrate_completes:
  fixes w :: "('x, 'm) schema_world_scheme"
  assumes "schema_inv (schema_view w)" "db_up w"
  shows "\<exists>w'. migrate w = (Inr (map mg_version (pending (schema_version (w_migrations w)))), w') \<and>
    schema_at (length MIGRATIONS) (schema_view w') \<and> pending (schema_version (w_migrations w')) = []"
proof -
  obtain r w' where run: "migrate w = (r, w')" by (cases "migrate w")
  with wp_migrate [OF assms(1)] assms(2) have r: "r = Inr (map mg_version (pending (schema_version (w_migrations w))))"
    and at: "schema_at (length MIGRATIONS) (schema_view w')"
    by (auto simp: wp_def split: sum.splits)
  have "pending (schema_version (w_migrations w')) = []"
    using schema_at_version [OF at] pending_drop [of "length MIGRATIONS"] by (simp add: schema_view_def)
  then show ?thesis using run r at by (intro exI [of _ w']) simp
qed

section \<open>Processes that migrate at the same time\<close>

text \<open>
  The processes that run \<open>migrate_program\<close>, each with what is left of it. A step starts one, answers the request of one, possibly with
  the answer lost on the way, fails the request of one without carrying it out, or ends the connection of one, whose program may be
  done or not: the server then drops its lock.
\<close>

record mig_state =
  mg_db :: "catalog \<times> ledger_rows option"
  mg_holder :: "nat option"
  mg_proc :: "nat \<Rightarrow> int list prog option"

inductive mig_step :: "mig_state \<Rightarrow> mig_state \<Rightarrow> bool" where
  starts: "mg_proc s p = None \<Longrightarrow> mig_step s \<lparr>mg_db = mg_db s, mg_holder = mg_holder s, mg_proc = (mg_proc s)(p \<mapsto> migrate_program)\<rparr>"
| answers: "mg_proc s p = Some (Ask q k) \<Longrightarrow> \<not> waits p q (mg_holder s) \<Longrightarrow>
    serve_request p t q (mg_db s, mg_holder s) = Some (x, db, h) \<Longrightarrow> r = Inr x \<or> r = Inl (Other ''psycopg.Error'') \<Longrightarrow>
    mig_step s \<lparr>mg_db = db, mg_holder = h, mg_proc = (mg_proc s)(p \<mapsto> k r)\<rparr>"
| fails: "mg_proc s p = Some (Ask q k) \<Longrightarrow> r = Inl (Other ''psycopg.Error'') \<Longrightarrow>
    mig_step s \<lparr>mg_db = mg_db s, mg_holder = mg_holder s, mg_proc = (mg_proc s)(p \<mapsto> k r)\<rparr>"
| leaves: "mg_proc s p = Some c \<Longrightarrow>
    mig_step s \<lparr>mg_db = mg_db s, mg_holder = if mg_holder s = Some p then None else mg_holder s, mg_proc = (mg_proc s)(p := None)\<rparr>"

inductive mig_steps :: "mig_state \<Rightarrow> mig_state \<Rightarrow> bool" where
  none: "mig_steps s s"
| more: "mig_steps s s' \<Longrightarrow> mig_step s' s'' \<Longrightarrow> mig_steps s s''"

definition boot :: "catalog \<times> ledger_rows option \<Rightarrow> mig_state" where
  "boot db = \<lparr>mg_db = db, mg_holder = None, mg_proc = (\<lambda>_. None)\<rparr>"

subsection \<open>Programs among others\<close>

text \<open>
  \<open>wpP p c Q held db\<close>: whatever the others do, process \<open>p\<close> runs \<open>c\<close> to \<open>Q\<close>. \<open>held\<close> says whether it holds the lock. While it does, the
  schema is the one it knows; while it does not, the schema may be any that the invariant allows, and it may only connect and take the
  lock. No request of it is refused, and each keeps the invariant.
\<close>

primrec wpP :: "nat \<Rightarrow> 'a prog \<Rightarrow> (exn + 'a \<Rightarrow> bool \<Rightarrow> catalog \<times> ledger_rows option \<Rightarrow> bool) \<Rightarrow> bool \<Rightarrow> catalog \<times> ledger_rows option \<Rightarrow> bool" where
  "wpP p (Done r) Q held db = Q r held db"
| "wpP p (Ask q k) Q held db = ((held \<or> q \<in> {Connect, TakeLock}) \<and> (\<forall>db0. (if held then db0 = db else schema_inv db0) \<longrightarrow>
     wpP p (k (Inl (Other ''psycopg.Error''))) Q held db0 \<and>
     (\<forall>t h. (h = Some p) = held \<longrightarrow> \<not> waits p q h \<longrightarrow> (case serve_request p t q (db0, h) of None \<Rightarrow> False
       | Some (x, db', h') \<Rightarrow> schema_inv db' \<and> wpP p (k (Inr x)) Q (h' = Some p) db' \<and>
           wpP p (k (Inl (Other ''psycopg.Error''))) Q (h' = Some p) db'))))"

lemma wpP_mono:
  assumes "\<And>r held db. Q r held db \<Longrightarrow> Q' r held db"
  shows "wpP p c Q held db \<Longrightarrow> wpP p c Q' held db"
proof (induction c arbitrary: held db)
  case (Ask q k)
  have next_one: "wpP p (k a) Q h d \<Longrightarrow> wpP p (k a) Q' h d" for a h d by (rule Ask.IH [OF rangeI])
  show ?case unfolding wpP.simps
  proof (intro conjI allI impI)
    show "held \<or> q \<in> {Connect, TakeLock}" using Ask.prems by simp
    fix db0 assume db0: "if held then db0 = db else schema_inv db0"
    then show "wpP p (k (Inl (Other ''psycopg.Error''))) Q' held db0"
      using Ask.prems unfolding wpP.simps by (blast intro: next_one)
    fix t h assume "(h = Some p) = held" "\<not> waits p q h"
    then have "case serve_request p t q (db0, h) of None \<Rightarrow> False
       | Some (x, db', h') \<Rightarrow> schema_inv db' \<and> wpP p (k (Inr x)) Q (h' = Some p) db' \<and>
           wpP p (k (Inl (Other ''psycopg.Error''))) Q (h' = Some p) db'"
      using Ask.prems db0 unfolding wpP.simps by blast
    then show "case serve_request p t q (db0, h) of None \<Rightarrow> False
       | Some (x, db', h') \<Rightarrow> schema_inv db' \<and> wpP p (k (Inr x)) Q' (h' = Some p) db' \<and>
           wpP p (k (Inl (Other ''psycopg.Error''))) Q' (h' = Some p) db'"
      by (auto split: option.splits intro: next_one)
  qed
qed (use assms in simp)

lemma wpP_bindP:
  "wpP p (bindP c f) Q held db = wpP p c (\<lambda>r held db. case r of Inl e \<Rightarrow> Q (Inl e) held db | Inr x \<Rightarrow> wpP p (f x) Q held db) held db"
proof (induction c arbitrary: held db)
  case (Done r)
  then show ?case by (cases r) simp_all
next
  case (Ask q k)
  then show ?case by (simp cong: option.case_cong)
qed

lemma wpP_attemptP: "wpP p (attemptP c) Q held db = wpP p c (\<lambda>r. Q (Inr r)) held db"
proof (induction c arbitrary: held db)
  case (Ask q k)
  then show ?case by (simp cong: option.case_cong)
qed simp

text \<open>A request under the lock.\<close>

lemma wpP_send:
  assumes "\<And>t. \<exists>x db' h'. serve_request p t q (db, Some p) = Some (x, db', h') \<and> schema_inv db' \<and> Q (Inr x) (h' = Some p) db'
      \<and> Q (Inl (Other ''psycopg.Error'')) (h' = Some p) db'"
    and "Q (Inl (Other ''psycopg.Error'')) True db"
  shows "wpP p (send q) Q True db"
  using assms(2) by (auto simp: send_def) (use assms(1) in \<open>fastforce split: option.splits\<close>)

text \<open>The requests before it.\<close>

lemma wpP_connect:
  assumes "\<And>db0 r. schema_inv db0 \<Longrightarrow> r = Inr 0 \<or> r = Inl (Other ''psycopg.Error'') \<Longrightarrow> Q r False db0"
  shows "wpP p (send Connect) Q False db"
  using assms by (auto simp: send_def)

lemma wpP_take_lock:
  assumes "\<And>db0. schema_inv db0 \<Longrightarrow> Q (Inr 0) True db0" "\<And>db0 held. schema_inv db0 \<Longrightarrow> Q (Inl (Other ''psycopg.Error'')) held db0"
  shows "wpP p (send TakeLock) Q False db"
  using assms by (auto simp: send_def)

lemma apply_migration_bind: "bindP (apply_migration m) f = bindP (send (Apply m)) (\<lambda>_. f (mg_version m))"
  by (auto simp: apply_migration_def send_def fun_eq_iff split: sum.splits)

definition returned_current :: "exn + 'a \<Rightarrow> bool \<Rightarrow> catalog \<times> ledger_rows option \<Rightarrow> bool" where
  "returned_current r held db = (case r of Inl _ \<Rightarrow> True | Inr _ \<Rightarrow> schema_at (length MIGRATIONS) db)"

text \<open>What the body keeps up to its end: the lock, a true ledger, and the last schema if it returns.\<close>

definition body_post :: "exn + 'a \<Rightarrow> bool \<Rightarrow> catalog \<times> ledger_rows option \<Rightarrow> bool" where
  "body_post r held db = (held \<and> schema_inv db \<and> returned_current r held db)"

lemma body_post_simps [simp]:
  "body_post (Inl e) held db = (held \<and> schema_inv db)"
  "body_post (Inr x) held db = (held \<and> schema_inv db \<and> schema_at (length MIGRATIONS) db)"
  by (simp_all add: body_post_def returned_current_def)

lemma wpP_current_on:
  assumes k: "schema_at k db" "k \<le> length MIGRATIONS" and next_one: "wpP p (f (int k)) body_post True db"
  shows "wpP p (bindP current_on f) body_post True db"
proof -
  obtain rows where rows: "snd db = Some rows" using k(1) by (auto simp: schema_at_def)
  then have v: "max_version rows = int k" using schema_at_version [OF k] by (simp add: schema_version_def)
  have inv: "schema_inv db" using k by (rule schema_invI)
  show ?thesis unfolding current_on_def wpP_bindP
    by (rule wpP_send) (use rows v inv next_one in \<open>auto intro!: wpP_send simp: wpP_bindP\<close>)
qed

lemma wpP_apply_pending:
  assumes "k \<le> length MIGRATIONS" "schema_at k db"
  shows "wpP p (mapP apply_migration (drop k MIGRATIONS)) body_post True db"
  using assms
proof (induction k arbitrary: db rule: inc_induct)
  case base
  then show ?case using schema_invI [OF base] by simp
next
  case (step k)
  have drop: "drop k MIGRATIONS = MIGRATIONS ! k # drop (Suc k) MIGRATIONS" using step.hyps by (simp add: Cons_nth_drop_Suc)
  have inv: "schema_inv db" using step by (auto intro: schema_invI)
  have rest: "wpP p (mapP apply_migration (drop (Suc k) MIGRATIONS))
      (\<lambda>r held db. case r of Inl e \<Rightarrow> body_post (Inl e) held db | Inr ys \<Rightarrow> wpP p (Done (Inr (v # ys))) body_post held db) True db'"
    if "schema_at (Suc k) db'" for v db'
    by (rule wpP_mono [OF _ step.IH [OF that]]) (auto split: sum.splits)
  show ?case unfolding drop mapP.simps apply_migration_bind wpP_bindP
  proof (rule wpP_send, goal_cases)
    case (1 t)
    from next_migration [OF step.prems step.hyps(2), of t] obtain db' where
      tx: "migration_tx (MIGRATIONS ! k) t db = Some db'" "schema_at (Suc k) db'" by (elim exE conjE)
    have "schema_inv db'" using tx(2) step.hyps by (auto intro: schema_invI)
    then show ?case using tx(1) rest [OF tx(2)] by (intro exI conjI) auto
  qed (use inv in simp)
qed

lemma wpP_migrate_locked:
  assumes "schema_inv db"
  shows "wpP p migrate_locked body_post True db"
  unfolding migrate_locked_def wpP_bindP [of _ "send CreateLedger"]
proof (rule wpP_send, goal_cases)
  case (1 t)
  let ?db = "(fst db, Some (case snd db of None \<Rightarrow> [] | Some rows \<Rightarrow> rows))"
  from schema_inv_ledger [OF assms] obtain k where k: "k \<le> length MIGRATIONS" "schema_at k ?db" by (elim exE conjE)
  then have "wpP p (mapP apply_migration (pending (int k))) body_post True ?db"
    by (simp only: pending_drop) (rule wpP_apply_pending)
  then have "wpP p (bindP current_on (\<lambda>v. if LATEST < v then bindP current_on (\<lambda>_. Done (Inl (hoc SchemaOutOfDate)))
     else bindP current_on (\<lambda>v'. mapP apply_migration (pending v')))) body_post True ?db"
    using k by (intro wpP_current_on [OF k(2,1)]) (simp add: LATEST_eq wpP_current_on)
  then show ?case using schema_invI [OF k(2,1)] by simp
qed (use assms in simp)

lemma wpP_migrate_program: "wpP p migrate_program returned_current False db"
proof -
  have released: "wpP p (bindP (send ReleaseLock) (\<lambda>_. Done r)) returned_current held db"
    if "body_post r held db" for r and held and db
    using that by (auto simp: send_def body_post_def returned_current_def waits_def split: sum.splits)
  have body: "wpP p (bindP (attemptP migrate_locked) (\<lambda>r. bindP (send ReleaseLock) (\<lambda>_. Done r))) returned_current True db"
    if "schema_inv db" for db
    unfolding wpP_bindP [of _ "attemptP migrate_locked"] wpP_attemptP
    by (rule wpP_mono [OF _ wpP_migrate_locked [OF that]]) (simp add: released)
  show ?thesis unfolding migrate_program_def wpP_bindP [of _ "send _"]
    by (rule wpP_connect) (auto intro!: wpP_take_lock body simp: returned_current_def)
qed

subsection \<open>The invariant of all processes\<close>

definition mig_inv :: "mig_state \<Rightarrow> bool" where
  "mig_inv s \<longleftrightarrow> schema_inv (mg_db s) \<and> (\<forall>p. case mg_proc s p of None \<Rightarrow> mg_holder s \<noteq> Some p
     | Some c \<Rightarrow> wpP p c returned_current (mg_holder s = Some p) (mg_db s))"

lemma mig_invD:
  assumes "mig_inv s"
  shows "schema_inv (mg_db s)" "mg_proc s p = None \<Longrightarrow> mg_holder s \<noteq> Some p"
    "mg_proc s p = Some c \<Longrightarrow> wpP p c returned_current (mg_holder s = Some p) (mg_db s)"
proof -
  from assms have one: "case mg_proc s p of None \<Rightarrow> mg_holder s \<noteq> Some p
     | Some c \<Rightarrow> wpP p c returned_current (mg_holder s = Some p) (mg_db s)" unfolding mig_inv_def by (elim conjE) (rule spec)
  show "mg_proc s p = None \<Longrightarrow> mg_holder s \<noteq> Some p" using one by simp
  show "mg_proc s p = Some c \<Longrightarrow> wpP p c returned_current (mg_holder s = Some p) (mg_db s)" using one by simp
qed (use assms in \<open>simp add: mig_inv_def\<close>)

lemma mig_invI:
  assumes "schema_inv db" "\<And>p. case f p of None \<Rightarrow> h \<noteq> Some p | Some c \<Rightarrow> wpP p c returned_current (h = Some p) db"
  shows "mig_inv \<lparr>mg_db = db, mg_holder = h, mg_proc = f\<rparr>"
  unfolding mig_inv_def mig_state.simps using assms by blast

lemma wpP_step:
  assumes asks: "wpP p (Ask q k) Q (h = Some p) db" and inv: "schema_inv db"
  shows "h = Some p \<or> q \<in> {Connect, TakeLock}" "wpP p (k (Inl (Other ''psycopg.Error''))) Q (h = Some p) db"
    "\<not> waits p q h \<Longrightarrow> serve_request p t q (db, h) = Some (x, db', h') \<Longrightarrow> r = Inr x \<or> r = Inl (Other ''psycopg.Error'') \<Longrightarrow>
      schema_inv db' \<and> wpP p (k r) Q (h' = Some p) db'"
proof -
  show "h = Some p \<or> q \<in> {Connect, TakeLock}" using asks by simp
  from asks inv have now_db: "wpP p (k (Inl (Other ''psycopg.Error''))) Q (h = Some p) db \<and>
     (\<forall>t h2. (h2 = Some p) = (h = Some p) \<longrightarrow> \<not> waits p q h2 \<longrightarrow> (case serve_request p t q (db, h2) of None \<Rightarrow> False
       | Some (x, db', h') \<Rightarrow> schema_inv db' \<and> wpP p (k (Inr x)) Q (h' = Some p) db' \<and>
           wpP p (k (Inl (Other ''psycopg.Error''))) Q (h' = Some p) db'))"
    unfolding wpP.simps by presburger
  then show "wpP p (k (Inl (Other ''psycopg.Error''))) Q (h = Some p) db" by (rule conjunct1)
  assume go: "\<not> waits p q h" "serve_request p t q (db, h) = Some (x, db', h')" "r = Inr x \<or> r = Inl (Other ''psycopg.Error'')"
  from now_db go(1) have "case serve_request p t q (db, h) of None \<Rightarrow> False
       | Some (x, db', h') \<Rightarrow> schema_inv db' \<and> wpP p (k (Inr x)) Q (h' = Some p) db' \<and>
           wpP p (k (Inl (Other ''psycopg.Error''))) Q (h' = Some p) db'" by blast
  then show "schema_inv db' \<and> wpP p (k r) Q (h' = Some p) db'" using go(2,3) by auto
qed

lemma serve_others:
  assumes "serve_request p t q (db, h) = Some (x, db', h')" "\<not> waits p q h" "p \<noteq> r"
  shows "(h' = Some r) = (h = Some r)"
  using assms by (cases q) (auto simp: waits_def split: option.splits if_splits)

lemma serve_current:
  assumes "serve_request p t q (db, h) = Some (x, db', h')" "schema_at (length MIGRATIONS) db" "schema_inv db'"
  shows "schema_at (length MIGRATIONS) db'"
proof (cases "db' = db")
  case False
  obtain rows where rows: "snd db = Some rows" "length rows = length MIGRATIONS"
    using assms(2) by (auto simp: schema_at_def ledger_keys_def dest: arg_cong [where f = length])
  then have "db = (fst db, Some rows)" by (cases db) simp
  with False assms(1) rows obtain m where "migration_tx m t db = Some db'"
    by (cases q) (auto split: option.splits)
  then have longer: "\<exists>rows'. snd db' = Some rows' \<and> length rows' = Suc (length MIGRATIONS)"
    using rows by (auto simp: migration_tx_def split: option.splits if_splits)
  from assms(3) show ?thesis
  proof (cases rule: schema_inv_cases)
    case (at k)
    then show ?thesis using longer
      by (auto simp: schema_at_def ledger_keys_def dest: arg_cong [where f = length])
  qed (use longer in auto)
qed (use assms in simp)

text \<open>A process without the lock is not disturbed by the others.\<close>

lemma wpP_unheld:
  assumes "wpP r c returned_current False db" "schema_at (length MIGRATIONS) db \<Longrightarrow> schema_at (length MIGRATIONS) db'"
  shows "wpP r c returned_current False db'"
  using assms by (cases c) (auto simp: returned_current_def split: sum.splits)

lemma mig_step_inv:
  assumes step: "mig_step s s'" and inv: "mig_inv s"
  shows "mig_inv s'"
proof -
  note db = mig_invD(1) [OF inv] and none = mig_invD(2) [OF inv] and some = mig_invD(3) [OF inv]
  show ?thesis using step
  proof (cases rule: mig_step.cases)
    case (starts p)
    have "case ((mg_proc s)(p \<mapsto> migrate_program)) p2 of None \<Rightarrow> mg_holder s \<noteq> Some p2
        | Some c \<Rightarrow> wpP p2 c returned_current (mg_holder s = Some p2) (mg_db s)" for p2
      using none [OF starts(2)] none [of p2] some [of p2] wpP_migrate_program [of p] by (auto split: option.splits)
    then show ?thesis unfolding starts(1) by (rule mig_invI [OF db])
  next
    case (answers p q k t x db' h' r)
    note asks = some [OF answers(2)]
    have here: "schema_inv db'" "wpP p (k r) returned_current (h' = Some p) db'" "mg_holder s = Some p \<or> q \<in> {Connect, TakeLock}"
      using wpP_step(3) [OF asks db answers(3,4,5)] wpP_step(1) [OF asks db] by simp_all
    have same: "db' = mg_db s" if "mg_holder s \<noteq> Some p" using that here(3) answers(4) by auto
    have "case mg_proc s p2 of None \<Rightarrow> h' \<noteq> Some p2 | Some c \<Rightarrow> wpP p2 c returned_current (h' = Some p2) db'" if "p \<noteq> p2" for p2
    proof (cases "mg_holder s = Some p")
      case True
      then have "mg_holder s \<noteq> Some p2" "h' \<noteq> Some p2" using that serve_others [OF answers(4,3) that] by auto
      then show ?thesis using some [of p2] wpP_unheld [of p2 _ "mg_db s" db'] serve_current [OF answers(4) _ here(1)]
        by (auto split: option.splits)
    next
      case False
      then show ?thesis using none [of p2] some [of p2] serve_others [OF answers(4,3) that] same by (auto split: option.splits)
    qed
    then show ?thesis using here(1,2) unfolding answers(1) by (intro mig_invI) auto
  next
    case (fails p q k r)
    have "wpP p (k r) returned_current (mg_holder s = Some p) (mg_db s)"
      using wpP_step(2) [OF some [OF fails(2)] db] fails(3) by simp
    then have "case ((mg_proc s)(p \<mapsto> k r)) p2 of None \<Rightarrow> mg_holder s \<noteq> Some p2
        | Some c \<Rightarrow> wpP p2 c returned_current (mg_holder s = Some p2) (mg_db s)" for p2
      using none [of p2] some [of p2] by (auto split: option.splits)
    then show ?thesis unfolding fails(1) by (rule mig_invI [OF db])
  next
    case (leaves p c)
    let ?h = "if mg_holder s = Some p then None else mg_holder s"
    have "case ((mg_proc s)(p := None)) p2 of None \<Rightarrow> ?h \<noteq> Some p2 | Some c \<Rightarrow> wpP p2 c returned_current (?h = Some p2) (mg_db s)" for p2
      using none [of p2] some [of p2] by (cases "p = p2") (auto split: option.splits)
    then show ?thesis unfolding leaves(1) by (rule mig_invI [OF db])
  qed
qed

lemma mig_steps_inv:
  assumes "mig_steps (boot db) s" "schema_inv db"
  shows "mig_inv s"
  using assms
proof (induction "boot db" s rule: mig_steps.induct)
  case none
  then show ?case by (simp add: mig_inv_def boot_def)
next
  case (more s' s'')
  then show ?case using mig_step_inv by blast
qed

text \<open>
  C31. However many processes run \<open>migrate\<close> at once, interleaved statement by statement, start over, lose answers and lose their
  connections, on a database without a ledger or with a ledger true to it: the ledger stays true to the catalog; a process about to send
  anything but its connection or the request of the lock holds the lock, so one process at a time is between the lock and the unlock; no process is about to run a migration that the
  server would refuse; and one that has returned has left the last schema.
\<close>

theorem concurrent_migrations_safe:
  assumes "mig_steps (boot db) s" "schema_inv db"
  shows "schema_inv (mg_db s)
    \<and> (\<forall>p q k. mg_proc s p = Some (Ask q k) \<longrightarrow> q \<notin> {Connect, TakeLock} \<longrightarrow> mg_holder s = Some p)
    \<and> (\<forall>p m k t. mg_proc s p = Some (Ask (Apply m) k) \<longrightarrow> migration_tx m t (mg_db s) \<noteq> None)
    \<and> (\<forall>p vs. mg_proc s p = Some (Done (Inr vs)) \<longrightarrow> schema_at (length MIGRATIONS) (mg_db s))"
proof (intro conjI allI impI)
  note db = mig_invD(1) [OF mig_steps_inv [OF assms]] and some = mig_invD(3) [OF mig_steps_inv [OF assms]]
  show "schema_inv (mg_db s)" by (rule db)
  show "mg_holder s = Some p" if "mg_proc s p = Some (Ask q k)" "q \<notin> {Connect, TakeLock}" for p q k
    using wpP_step(1) [OF some [OF that(1)] db] that(2) by blast
  show "schema_at (length MIGRATIONS) (mg_db s)" if "mg_proc s p = Some (Done (Inr vs))" for p vs
    using some [OF that] by (simp add: returned_current_def)
  fix p m k t assume asks: "mg_proc s p = Some (Ask (Apply m) k)"
  then have held: "mg_holder s = Some p" using wpP_step(1) [OF some [OF asks] db] by simp
  then have "serve_request p t (Apply m) (mg_db s, Some p) \<noteq> None"
    using some [OF asks] by (auto simp: waits_def split: option.splits)
  then show "migration_tx m t (mg_db s) \<noteq> None" by (auto split: option.splits)
qed

section \<open>A run alone is one of the interleavings\<close>

lemma mig_steps_trans: "mig_steps s2 s3 \<Longrightarrow> mig_steps s1 s2 \<Longrightarrow> mig_steps s1 s3"
  by (induction rule: mig_steps.induct) (auto intro: mig_steps.intros)

lemma ask_cases:
  assumes "ask q w = (a, w1)"
  obtains "a = Inl (Other ''psycopg.Error'')" "schema_view w1 = schema_view w" "w_lock w1 = w_lock w"
  | x where "serve_request 0 (w_clock w (w_clock_at w)) q (schema_view w, w_lock w) = Some (x, schema_view w1, w_lock w1)"
      "a = Inr x \<or> a = Inl (Other ''psycopg.Error'')"
proof -
  have lock: "w_lock (with_server (clock_read q v) s) = snd s" for v :: "('a, 'b) schema_world_scheme" and s
    by (simp add: with_server_def)
  have frame: "schema_view (w\<lparr>w_db_at := n\<rparr>) = schema_view w" for n by simp
  show thesis
    using assms that unfolding ask_def psql_def catchE_def raiseE_def db_stmt_def Let_def
    by (auto simp: frame lock split: db_fate.splits option.splits)
qed

lemma serve_session:
  "serve_request p t q (db, h) = Some (x, db', h') \<Longrightarrow> h = None \<or> h = Some p \<Longrightarrow> h' = None \<or> h' = Some p"
  by (cases q) (auto split: option.splits if_splits)

lemma run_path:
  fixes w :: "('x, 'm) schema_world_scheme"
  assumes "run c w = (r, w')" "w_lock w = None \<or> w_lock w = Some 0"
    and "mg_db s = schema_view w" "mg_holder s = w_lock w" "mg_proc s 0 = Some c"
  shows "\<exists>s'. mig_steps s s' \<and> mg_db s' = schema_view w' \<and> mg_holder s' = w_lock w' \<and> mg_proc s' 0 = Some (Done r)"
  using assms
proof (induction c arbitrary: w s)
  case (Done x)
  then show ?case by (intro exI [of _ s]) (auto simp: liftE_def intro: mig_steps.none)
next
  case (Ask q k)
  obtain a w1 where one: "ask q w = (a, w1)" by (cases "ask q w")
  then have rest: "run (k a) w1 = (r, w')" using Ask.prems(1) by (simp add: bindE_def attemptE_def)
  let ?s1 = "\<lparr>mg_db = schema_view w1, mg_holder = w_lock w1, mg_proc = (mg_proc s)(0 \<mapsto> k a)\<rparr>"
  have "mig_step s ?s1 \<and> (w_lock w1 = None \<or> w_lock w1 = Some 0)" using one
  proof (cases rule: ask_cases)
    case 1
    then show ?thesis using mig_step.fails [OF Ask.prems(5), of a] Ask.prems(2,3,4) by simp
  next
    case (2 x)
    have "\<not> waits 0 q (mg_holder s)" using Ask.prems(2,4) by (auto simp: waits_def)
    then show ?thesis using mig_step.answers [OF Ask.prems(5), of _ x _ _ a] 2 serve_session [OF 2(1)] Ask.prems(2,3,4) by metis
  qed
  then have "mig_step s ?s1" and lock1: "w_lock w1 = None \<or> w_lock w1 = Some 0" by blast+
  then have first: "mig_steps s ?s1" by (intro mig_steps.more [OF mig_steps.none])
  obtain s' where s': "mig_steps ?s1 s'" "mg_db s' = schema_view w'" "mg_holder s' = w_lock w'" "mg_proc s' 0 = Some (Done r)"
    using Ask.IH [OF rangeI rest lock1, of ?s1] by auto
  show ?case by (rule exI [of _ s']) (use s' mig_steps_trans [OF s'(1) first] in blast)
qed

lemma migrate_path:
  assumes "migrate w = (r, w')" "w_lock w = None"
  shows "\<exists>s'. mig_steps (boot (schema_view w)) s' \<and> mg_db s' = schema_view w' \<and> mg_proc s' 0 = Some (Done r)"
proof -
  let ?s1 = "\<lparr>mg_db = schema_view w, mg_holder = None, mg_proc = [0 \<mapsto> migrate_program]\<rparr>"
  have "mig_step (boot (schema_view w)) ?s1" using mig_step.starts [of "boot (schema_view w)" 0] by (simp add: boot_def)
  then have first: "mig_steps (boot (schema_view w)) ?s1" by (rule mig_steps.more [OF mig_steps.none])
  obtain s' where s': "mig_steps ?s1 s'" "mg_db s' = schema_view w'" "mg_proc s' 0 = Some (Done r)"
    using run_path [OF assms(1) [unfolded migrate_def], of ?s1] assms(2) by auto
  show ?thesis by (rule exI [of _ s']) (use s' mig_steps_trans [OF s'(1) first] in blast)
qed


section \<open>The journal's table\<close>

text \<open>
  Statements on the rows of a table. A trigger \<open>FOR EACH ROW\<close> fires for the rows a statement touches, the one on \<open>TRUNCATE\<close> for the
  statement; every function of the catalog raises, so a statement that fires one leaves the table as it was (\<open>None\<close>).
\<close>

datatype 'r row_stmt = InsertRows "'r list" | UpdateRows "'r \<Rightarrow> bool" "'r \<Rightarrow> 'r" | DeleteRows "'r \<Rightarrow> bool" | TruncateTable

definition trigger_fires :: "catalog \<Rightarrow> string \<Rightarrow> trig_event \<Rightarrow> bool" where
  "trigger_fires c t op = (\<exists>n evs f. cat_triggers c (t, n) = Some (evs, f) \<and> op \<in> set evs \<and> cat_functions c f \<noteq> None)"

fun exec_rows :: "catalog \<Rightarrow> string \<Rightarrow> 'r row_stmt \<Rightarrow> 'r list \<Rightarrow> 'r list option" where
  "exec_rows c t (InsertRows new) rows = Some (rows @ new)"
| "exec_rows c t (UpdateRows P f) rows =
     (if list_ex P rows \<and> trigger_fires c t OnUpdate then None else Some (map (\<lambda>r. if P r then f r else r) rows))"
| "exec_rows c t (DeleteRows P) rows = (if list_ex P rows \<and> trigger_fires c t OnDelete then None else Some (filter (\<lambda>r. \<not> P r) rows))"
| "exec_rows c t TruncateTable rows = (if trigger_fires c t OnTruncate then None else Some [])"

fun table_after :: "catalog \<Rightarrow> string \<Rightarrow> 'r row_stmt list \<Rightarrow> 'r list \<Rightarrow> 'r list" where
  "table_after c t [] rows = rows"
| "table_after c t (s # ss) rows = table_after c t ss (case exec_rows c t s rows of None \<Rightarrow> rows | Some rows' \<Rightarrow> rows')"

lemma trigger_firesI:
  "cat_triggers c (t, n) = Some (evs, f) \<Longrightarrow> op \<in> set evs \<Longrightarrow> cat_functions c f \<noteq> None \<Longrightarrow> trigger_fires c t op"
  unfolding trigger_fires_def by blast

lemma current_triggers:
  assumes "schema_at (length MIGRATIONS) s"
  shows "trigger_fires (fst s) ''audit_events'' op"
proof -
  from assms have update: "cat_triggers (fst s) (''audit_events'', ''audit_events_no_update'') = Some ([OnUpdate, OnDelete], ''audit_events_append_only'')"
    and truncate: "cat_triggers (fst s) (''audit_events'', ''audit_events_no_truncate'') = Some ([OnTruncate], ''audit_events_append_only'')"
    and raises: "cat_functions (fst s) ''audit_events_append_only'' \<noteq> None"
    by (simp_all add: schema_at_def provides_def MIGRATIONS_def schema_defs)
  show ?thesis
    by (cases op) (auto intro: trigger_firesI [OF update _ raises] trigger_firesI [OF truncate _ raises])
qed

lemma exec_rows_guarded:
  assumes "\<And>op. trigger_fires c t op" "exec_rows c t s rows = Some rows'"
  shows "\<exists>new. rows' = rows @ new"
  using assms by (cases s) (auto split: if_splits simp: list_ex_iff map_idI filter_id_conv)

text \<open>
  C33. The journal's table is append-only on every database that the program made. Start from a database without the ledger, in which
  whatever has the name of an object of the scripts is that object, and any number of processes that migrate it at once, with whatever
  failures: as soon as the ledger says that the schema is the last one, no sequence of inserts, updates, deletes and truncations changes, removes or reorders a row that is there; an update or a delete that
  would touch a row, and every truncation, is refused.
\<close>

theorem audit_table_append_only:
  assumes "mig_steps (boot (c, None)) s" "our_objects c" "schema_version (snd (mg_db s)) = LATEST"
  shows "(\<exists>new. table_after (fst (mg_db s)) ''audit_events'' stmts rows = rows @ new)
    \<and> (\<forall>P f. list_ex P rows \<longrightarrow> exec_rows (fst (mg_db s)) ''audit_events'' (UpdateRows P f) rows = None
        \<and> exec_rows (fst (mg_db s)) ''audit_events'' (DeleteRows P) rows = None)
    \<and> exec_rows (fst (mg_db s)) ''audit_events'' TruncateTable rows = None"
proof -
  have "schema_inv (c, None)" using assms(2) by (simp add: schema_inv_def)
  with assms(1) have inv: "schema_inv (mg_db s)" by (rule mig_invD(1) [OF mig_steps_inv])
  from inv have "schema_at (length MIGRATIONS) (mg_db s)"
  proof (cases rule: schema_inv_cases)
    case none
    then show ?thesis using assms(3) by (simp add: schema_version_def LATEST_eq)
  next
    case (at k)
    then have "k = length MIGRATIONS" using assms(3) schema_at_version [OF at(2,1)] by (simp add: LATEST_eq)
    then show ?thesis using at(2) by simp
  qed
  note fires = current_triggers [OF this]
  have "\<exists>new. table_after (fst (mg_db s)) ''audit_events'' stmts rows = rows @ new"
  proof (induction stmts arbitrary: rows)
    case (Cons st stmts)
    obtain new where "(case exec_rows (fst (mg_db s)) ''audit_events'' st rows of None \<Rightarrow> rows | Some rows' \<Rightarrow> rows') = rows @ new"
      using exec_rows_guarded [OF fires] by (cases "exec_rows (fst (mg_db s)) ''audit_events'' st rows") force+
    then show ?case using Cons.IH [of "rows @ new"] by auto
  qed simp
  then show ?thesis using fires by simp
qed


section \<open>A new database\<close>

definition new_catalog :: catalog where
  "new_catalog = \<lparr>cat_tables = Map.empty, cat_indexes = Map.empty, cat_functions = Map.empty, cat_triggers = Map.empty,
     cat_extensions = {}, cat_available = {''vector''}\<rparr>"

text \<open>The world of a process that migrates it, with the fates of its statements.\<close>

definition new_database :: "(nat \<Rightarrow> db_fate) \<Rightarrow> unit schema_world" where
  "new_database fates = \<lparr>w_clock = (\<lambda>n. int n), w_clock_at = 0, w_uuid = (\<lambda>_. []), w_uuid_at = 0, w_perf = (\<lambda>_ _. float_zero),
     w_perf_at = 0, w_db = fates, w_db_at = 0, w_ext = (), w_catalog = new_catalog, w_migrations = None, w_lock = None\<rparr>"

lemma new_database_inv: "schema_inv (new_catalog, None)" "schema_inv (schema_view (new_database fates))"
  "db_up (new_database (\<lambda>_. DbOk))" "w_migrations (new_database fates) = None"
  "schema_view (new_database fates) = (new_catalog, None)" "w_lock (new_database fates) = None" "our_objects new_catalog"
  by (simp_all add: schema_inv_def schema_view_def new_database_def new_catalog_def our_objects_def MIGRATIONS_def schema_defs
      script_sql_def db_up_def)

lemma assert_current_exact_witness: "fst (assert_current (new_database (\<lambda>_. DbOk))) = Inl (hoc SchemaOutOfDate)"
  using assert_current_exact [of "new_database (\<lambda>_. DbOk)"] by (simp add: new_database_inv schema_version_def LATEST_eq)

text \<open>The ninth statement is applied and its answer lost.\<close>

lemma migrate_keeps_schema_witness:
  "schema_inv (schema_view (snd (migrate (new_database (\<lambda>n. if n < 8 then DbOk else DbAnswerLost)))))"
  using migrate_keeps_schema [of "new_database (\<lambda>n. if n < 8 then DbOk else DbAnswerLost)"
      "fst (migrate (new_database (\<lambda>n. if n < 8 then DbOk else DbAnswerLost)))"
      "snd (migrate (new_database (\<lambda>n. if n < 8 then DbOk else DbAnswerLost)))"]
  by (simp add: new_database_inv)

lemma migrate_completes_witness: "fst (migrate (new_database (\<lambda>_. DbOk))) = Inr [1, 2, 3]"
  using migrate_completes [of "new_database (\<lambda>_. DbOk)"]
  by (auto simp: new_database_inv schema_version_def pending_def MIGRATIONS_def)

text \<open>A process alone migrates the new database.\<close>

lemma new_database_migrated:
  "\<exists>s vs. mig_steps (boot (new_catalog, None)) s \<and> mg_proc s 0 = Some (Done (Inr vs)) \<and> schema_version (snd (mg_db s)) = LATEST"
proof -
  obtain vs w' where run: "migrate (new_database (\<lambda>_. DbOk)) = (Inr vs, w')" "schema_at (length MIGRATIONS) (schema_view w')"
    using migrate_completes [of "new_database (\<lambda>_. DbOk)"] by (auto simp: new_database_inv)
  from migrate_path [OF run(1)] schema_at_version [OF run(2)] show ?thesis
    by (simp add: new_database_inv LATEST_eq) metis
qed

lemma audit_table_append_only_witness:
  "\<exists>s :: mig_state. schema_version (snd (mg_db s)) = LATEST
    \<and> exec_rows (fst (mg_db s)) ''audit_events'' (DeleteRows (\<lambda>r. r = 2)) [1, 2 :: nat] = None
    \<and> exec_rows (fst (mg_db s)) ''audit_events'' TruncateTable [1, 2 :: nat] = None"
proof -
  obtain s where s: "mig_steps (boot (new_catalog, None)) s" "schema_version (snd (mg_db s)) = LATEST"
    using new_database_migrated by (elim exE conjE)
  note safe = audit_table_append_only [OF s(1) new_database_inv(7) s(2), of "[]" "[1, 2 :: nat]"]
  have "list_ex (\<lambda>r. r = 2) [1, 2 :: nat]" by simp
  then have "exec_rows (fst (mg_db s)) ''audit_events'' (DeleteRows (\<lambda>r. r = 2)) [1, 2 :: nat] = None"
    using conjunct1 [OF conjunct2 [OF safe], THEN spec, of "\<lambda>r. r = 2", THEN spec, of "\<lambda>r. r"] by (rule mp [THEN conjunct2, rotated])
  then show ?thesis using conjunct2 [OF conjunct2 [OF safe]] s(2) by (intro exI [of _ s] conjI)
qed

text \<open>Two processes start; the second connects and takes the lock.\<close>

lemma migrate_program_Ask:
  "\<exists>k1 k2. migrate_program = Ask Connect k1 \<and> k1 (Inr 0) = Ask TakeLock k2 \<and> (\<exists>k3. k2 (Inr 0) = Ask CreateLedger k3)"
  by (simp add: migrate_program_def migrate_locked_def send_def)

lemma concurrent_migrations_safe_witness:
  "\<exists>s k. mig_steps (boot (new_catalog, None)) s \<and> mg_proc s 0 = Some migrate_program \<and> mg_proc s 1 = Some (Ask CreateLedger k)
    \<and> mg_holder s = Some 1 \<and> schema_inv (mg_db s)"
proof -
  obtain k1 k2 k3 where prog: "migrate_program = Ask Connect k1" "k1 (Inr 0) = Ask TakeLock k2" "k2 (Inr 0) = Ask CreateLedger k3"
    using migrate_program_Ask by metis
  let ?db = "(new_catalog, None)" and ?p = migrate_program
  let ?s1 = "\<lparr>mg_db = ?db, mg_holder = None, mg_proc = [0 \<mapsto> ?p]\<rparr>" let ?s2 = "\<lparr>mg_db = ?db, mg_holder = None, mg_proc = [0 \<mapsto> ?p, 1 \<mapsto> ?p]\<rparr>"
  let ?s3 = "\<lparr>mg_db = ?db, mg_holder = None, mg_proc = [0 \<mapsto> ?p, 1 \<mapsto> k1 (Inr 0)]\<rparr>"
  let ?s4 = "\<lparr>mg_db = ?db, mg_holder = Some 1, mg_proc = [0 \<mapsto> ?p, 1 \<mapsto> k2 (Inr 0)]\<rparr>"
  have "mig_step (boot ?db) ?s1" using mig_step.starts [of "boot ?db" 0] by (simp add: boot_def)
  moreover have "mig_step ?s1 ?s2" using mig_step.starts [of ?s1 1] by simp
  moreover have "mig_step ?s2 ?s3" using mig_step.answers [of ?s2 1 Connect k1 0 0 ?db None "Inr 0"] prog(1) by (simp add: waits_def)
  moreover have "mig_step ?s3 ?s4" using mig_step.answers [of ?s3 1 TakeLock k2 0 0 ?db "Some 1" "Inr 0"] prog(2) by (simp add: waits_def)
  ultimately have steps: "mig_steps (boot ?db) ?s4" by (meson mig_steps.intros)
  have asks: "mg_proc ?s4 1 = Some (Ask CreateLedger k3)" using prog(3) by simp
  note safe = concurrent_migrations_safe [OF steps new_database_inv(1)]
  have "mg_holder ?s4 = Some 1" using conjunct1 [OF conjunct2 [OF safe]] asks by blast
  then show ?thesis using steps asks conjunct1 [OF safe] by (intro exI [of _ ?s4] exI [of _ k3]) simp
qed

end
