(* ===== verification/Svc_Readiness.thy ===== *)
theory Svc_Readiness
  imports Db_Migrations
begin

text \<open>
  The readiness probe (\<open>readiness.py\<close>) and the route that answers it (\<open>api/routes/system.py\<close>).

  A check asks the database, the engine and the connectors in turn and names a state for each; what they raise
  never leaves it. Probes that arrive while a check runs wait for its answer: the coalescer is a state machine over
  the tasks that were started. The lemmas show that a service is ready exactly when every dependency answered, that one check
  runs at a time, and that nobody is answered by a check that had ended before they asked.
\<close>

section \<open>One check\<close>

type_synonym checks = "(string \<times> string) list"

record 'w readiness_probe =
  rp_postgres :: "('w, exn, int) eff"
  rp_engine :: "('w, exn, unit) eff"
  rp_freshness :: "('w, exn, unit) eff"
  rp_latest :: int

definition READY_STATES :: "string list" where
  "READY_STATES = [''ok'', ''fresh'']"

definition postgres_checks :: "int \<Rightarrow> exn + int \<Rightarrow> checks" where
  "postgres_checks latest r = (case r of
     Inr version \<Rightarrow> [(''postgres'', ''ok''),
       (''schema'', if version = latest then ''ok'' else if version < latest then ''behind'' else ''ahead'')]
   | Inl e \<Rightarrow> [(''postgres'', ''error''), (''schema'', ''unknown'')])"

definition engine_checks :: "exn + unit \<Rightarrow> checks" where
  "engine_checks r = (case r of Inr _ \<Rightarrow> [(''openfga'', ''ok'')] | Inl e \<Rightarrow> [(''openfga'', ''error'')])"

definition freshness_checks :: "exn + unit \<Rightarrow> checks" where
  "freshness_checks r = (case r of Inr _ \<Rightarrow> [(''connectors'', ''fresh'')]
     | Inl e \<Rightarrow> [(''connectors'', if catches ConnectorStale e then ''stale'' else ''error'')])"

definition probe_check :: "'w readiness_probe \<Rightarrow> ('w, 'e, bool \<times> checks) eff" where
  "probe_check p =
     bindE (attemptE (rp_postgres p)) (\<lambda>pg. bindE (attemptE (rp_engine p)) (\<lambda>en. bindE (attemptE (rp_freshness p)) (\<lambda>fr.
     let checks = postgres_checks (rp_latest p) pg @ engine_checks en @ freshness_checks fr in
     retE (list_all (\<lambda>(_, v). v \<in> set READY_STATES) checks, checks))))"

text \<open>\<open>GET /v1/ready\<close>: the status code and the body.\<close>

definition route_ready :: "'w readiness_probe \<Rightarrow> ('w, 'e, int \<times> string \<times> checks) eff" where
  "route_ready p = bindE (probe_check p) (\<lambda>(ready_now, checks).
     retE (if ready_now then 200 else 503, if ready_now then ''ready'' else ''not_ready'', checks))"

text \<open>
  The probe never raises, and it says ready exactly when the database is reached and at the version of the code, the engine
  answers and no connector is stale: asked one after the other, each in the state the one before left.
\<close>

theorem readiness_exact:
  fixes p :: "'w readiness_probe"
  assumes pg: "rp_postgres p w = (pgr, w1)" and en: "rp_engine p w1 = (enr, w2)" and fr: "rp_freshness p w2 = (frr, w3)"
  shows "\<exists>checks. route_ready p w = (Inr (if pgr = Inr (rp_latest p) \<and> enr = Inr () \<and> frr = Inr ()
      then (200, ''ready'', checks) else (503, ''not_ready'', checks)), w3) \<and>
    map fst checks = [''postgres'', ''schema'', ''openfga'', ''connectors'']"
  using assms
  by (auto simp: route_ready_def probe_check_def bindE_def attemptE_def retE_def postgres_checks_def engine_checks_def
      freshness_checks_def READY_STATES_def Let_def split: sum.splits)

section \<open>Probes that arrive together\<close>

text \<open>\<open>_inflight\<close> is the number of the task last started; \<open>ps_results\<close> the tasks that are done, with their answers; \<open>ps_waiting\<close>
  which probe waits for which task.\<close>

record 'r probe_state =
  ps_inflight :: "nat option"
  ps_started :: nat
  ps_results :: "nat \<Rightarrow> 'r option"
  ps_waiting :: "(nat \<times> nat) list"

definition no_probe :: "'r probe_state" where
  "no_probe = \<lparr>ps_inflight = None, ps_started = 0, ps_results = (\<lambda>_. None), ps_waiting = []\<rparr>"

definition running :: "'r probe_state \<Rightarrow> nat \<Rightarrow> bool" where
  "running s t \<longleftrightarrow> t < ps_started s \<and> ps_results s t = None"

text \<open>\<open>run\<close>, up to its await.\<close>

definition probe_run :: "nat \<Rightarrow> 'r probe_state \<Rightarrow> 'r probe_state" where
  "probe_run c s = (case ps_inflight s of
     Some t \<Rightarrow> if ps_results s t = None then s\<lparr>ps_waiting := ps_waiting s @ [(c, t)]\<rparr>
       else s\<lparr>ps_inflight := Some (ps_started s), ps_started := Suc (ps_started s), ps_waiting := ps_waiting s @ [(c, ps_started s)]\<rparr>
   | None \<Rightarrow> s\<lparr>ps_inflight := Some (ps_started s), ps_started := Suc (ps_started s), ps_waiting := ps_waiting s @ [(c, ps_started s)]\<rparr>)"

datatype 'r probe_event = Arrive nat | Complete nat 'r

text \<open>A probe arrives, or the check that runs comes to its end. A probe that is given up does not stop the check
  (\<open>asyncio.shield\<close>).\<close>

inductive probe_step :: "'r probe_state \<Rightarrow> 'r probe_event \<Rightarrow> 'r probe_state \<Rightarrow> bool" where
  arrive: "probe_step s (Arrive c) (probe_run c s)"
| complete: "running s t \<Longrightarrow> probe_step s (Complete t r) (s\<lparr>ps_results := (ps_results s)(t \<mapsto> r)\<rparr>)"

inductive_cases probe_arriveE [elim]: "probe_step s (Arrive c) s'"
inductive_cases probe_completeE [elim]: "probe_step s (Complete t r) s'"

inductive probe_trace :: "'r probe_state \<Rightarrow> 'r probe_event list \<Rightarrow> 'r probe_state \<Rightarrow> bool" where
  nil: "probe_trace s [] s"
| snoc: "probe_trace s es s' \<Longrightarrow> probe_step s' e s'' \<Longrightarrow> probe_trace s (es @ [e]) s''"

definition probe_inv :: "'r probe_state \<Rightarrow> bool" where
  "probe_inv s \<longleftrightarrow> (\<forall>t. running s t \<longrightarrow> ps_inflight s = Some t) \<and> (\<forall>t. ps_inflight s = Some t \<longrightarrow> t < ps_started s) \<and>
     (\<forall>t. ps_results s t \<noteq> None \<longrightarrow> t < ps_started s)"

text \<open>A probe joins the check that runs, or starts one.\<close>

lemma probe_run_cases [case_names joins starts]:
  obtains t where "ps_inflight s = Some t" "ps_results s t = None" "probe_run c s = s\<lparr>ps_waiting := ps_waiting s @ [(c, t)]\<rparr>"
  | "\<And>t. ps_inflight s = Some t \<Longrightarrow> ps_results s t \<noteq> None"
    "probe_run c s = s\<lparr>ps_inflight := Some (ps_started s), ps_started := Suc (ps_started s), ps_waiting := ps_waiting s @ [(c, ps_started s)]\<rparr>"
proof (cases "ps_inflight s")
  case None
  then show thesis by (intro that(2)) (simp_all add: probe_run_def)
next
  case (Some t)
  then show thesis
  proof (cases "ps_results s t")
    case None
    then show thesis using Some by (intro that(1)) (simp_all add: probe_run_def)
  next
    case (Some r)
    then show thesis using \<open>ps_inflight s = Some t\<close> by (intro that(2)) (simp_all add: probe_run_def)
  qed
qed

lemma probe_invD:
  assumes "probe_inv s"
  shows "running s t \<Longrightarrow> ps_inflight s = Some t" "ps_inflight s = Some t \<Longrightarrow> t < ps_started s"
    "ps_results s t \<noteq> None \<Longrightarrow> t < ps_started s" "ps_results s (ps_started s) = None"
  using assms unfolding probe_inv_def by (blast, blast, blast, metis less_irrefl)

lemma probe_invI:
  assumes "\<And>t. running s t \<Longrightarrow> ps_inflight s = Some t" "\<And>t. ps_inflight s = Some t \<Longrightarrow> t < ps_started s"
    "\<And>t. ps_results s t \<noteq> None \<Longrightarrow> t < ps_started s"
  shows "probe_inv s"
  unfolding probe_inv_def using assms by blast

lemma ended:
  assumes "probe_inv s" "\<And>t. ps_inflight s = Some t \<Longrightarrow> ps_results s t \<noteq> None"
  shows "\<not> running s t"
  using probe_invD(1) [OF assms(1), of t] assms(2) [of t] unfolding running_def by blast

lemma probe_inv_run:
  assumes inv: "probe_inv s"
  shows "probe_inv (probe_run c s)"
proof (cases rule: probe_run_cases [where s = s and c = c])
  case (joins t)
  have "running (probe_run c s) t' = running s t'" for t' by (simp add: running_def joins(3))
  then show ?thesis using probe_invD [OF inv] by (intro probe_invI) (simp_all add: joins(3))
next
  case starts
  show ?thesis
  proof (rule probe_invI)
    fix t assume "running (probe_run c s) t"
    then have "t < Suc (ps_started s)" "ps_results s t = None" by (simp_all add: running_def starts(2))
    then show "ps_inflight (probe_run c s) = Some t"
      using ended [OF inv starts(1), of t] by (simp add: running_def starts(2) less_Suc_eq)
  next
    fix t assume "ps_results (probe_run c s) t \<noteq> None"
    then show "t < ps_started (probe_run c s)" using probe_invD(3) [OF inv, of t] by (simp add: starts(2))
  qed (simp add: starts(2))
qed

lemma probe_inv_step: "probe_step s e s' \<Longrightarrow> probe_inv s \<Longrightarrow> probe_inv s'"
proof (induction rule: probe_step.induct)
  case (arrive s c)
  then show ?case by (rule probe_inv_run)
next
  case (complete s t r)
  show ?case
  proof (rule probe_invI)
    fix t' assume "running (s\<lparr>ps_results := (ps_results s)(t \<mapsto> r)\<rparr>) t'"
    then have "running s t'" by (simp add: running_def split: if_splits)
    from probe_invD(1) [OF complete(2) this] show "ps_inflight (s\<lparr>ps_results := (ps_results s)(t \<mapsto> r)\<rparr>) = Some t'" by simp
  next
    fix t' assume "ps_inflight (s\<lparr>ps_results := (ps_results s)(t \<mapsto> r)\<rparr>) = Some t'"
    then show "t' < ps_started (s\<lparr>ps_results := (ps_results s)(t \<mapsto> r)\<rparr>)" using probe_invD(2) [OF complete(2), of t'] by simp
  next
    fix t' assume "ps_results (s\<lparr>ps_results := (ps_results s)(t \<mapsto> r)\<rparr>) t' \<noteq> None"
    then show "t' < ps_started (s\<lparr>ps_results := (ps_results s)(t \<mapsto> r)\<rparr>)"
      using probe_invD(3) [OF complete(2), of t'] complete(1) by (cases "t' = t") (simp_all add: running_def)
  qed
qed

lemma probe_trace_inv: "probe_trace s es s' \<Longrightarrow> probe_inv s \<Longrightarrow> probe_inv s'"
  by (induction rule: probe_trace.induct) (auto dest: probe_inv_step)

lemma no_probe_inv: "probe_inv no_probe"
  by (simp add: probe_inv_def no_probe_def running_def)

text \<open>
  C35. However probes and ends of checks interleave: a probe that arrives waits for a check that has not ended, so it is never
  answered from a cache, and that check is the only one running, so probes cannot pile up work.
\<close>

theorem probes_coalesce:
  assumes trace: "probe_trace no_probe es s" and arrive: "probe_step s (Arrive c) s'"
  shows "\<exists>t. ps_waiting s' = ps_waiting s @ [(c, t)] \<and> running s' t \<and> (\<forall>t'. running s' t' \<longrightarrow> t' = t) \<and>
    (running s t \<or> (t = ps_started s \<and> (\<forall>t'. \<not> running s t')))"
proof -
  have inv: "probe_inv s" using trace no_probe_inv by (rule probe_trace_inv)
  have inv': "probe_inv s'" using probe_inv_step [OF arrive inv] .
  have new: "ps_results s (ps_started s) = None" using inv by (auto simp: probe_inv_def)
  from arrive have s': "s' = probe_run c s" by auto
  have only: "running s' t' \<Longrightarrow> ps_inflight s' = Some t'" for t' using probe_invD(1) [OF inv'] .
  show ?thesis
  proof (cases rule: probe_run_cases [where s = s and c = c])
    case (joins t)
    have "running s t" using probe_invD(2) [OF inv joins(1)] joins(2) by (simp add: running_def)
    moreover have "t' = t" if "running s' t'" for t' using only [OF that] joins(1) by (simp add: s' joins(3))
    moreover have "running s' t = running s t" "ps_waiting s' = ps_waiting s @ [(c, t)]" by (simp_all add: s' running_def joins(3))
    ultimately show ?thesis by blast
  next
    case starts
    have "t' = ps_started s" if "running s' t'" for t' using only [OF that] by (simp add: s' starts(2))
    moreover have "\<not> running s t'" for t' by (rule ended [OF inv starts(1)])
    moreover have "running s' (ps_started s)" using new by (simp add: s' running_def starts(2))
    moreover have "ps_waiting s' = ps_waiting s @ [(c, ps_started s)]" by (simp add: s' starts(2))
    ultimately show ?thesis by blast
  qed
qed

section \<open>Witnesses\<close>

lemma readiness_exact_witness:
  "\<exists>checks. route_ready \<lparr>rp_postgres = retE 2, rp_engine = retE (), rp_freshness = raiseE (hoc ConnectorStale), rp_latest = 3\<rparr> (0 :: nat)
     = (Inr (503, ''not_ready'', checks), 0)"
  using readiness_exact [of "\<lparr>rp_postgres = retE 2, rp_engine = retE (), rp_freshness = raiseE (hoc ConnectorStale), rp_latest = 3\<rparr>"
      "0 :: nat" "Inr 2" 0 "Inr ()" 0 "Inl (hoc ConnectorStale)" 0]
  by (auto simp: retE_def raiseE_def)

text \<open>Two probes share the first check; a third one comes after its end and starts another.\<close>

lemma probes_coalesce_witness:
  "\<exists>s s' t. probe_trace (no_probe :: bool probe_state) [Arrive 0, Arrive 1, Complete 0 True] s \<and> probe_step s (Arrive 2) s' \<and>
    ps_waiting s' = [(0, 0), (1, 0), (2, t)] \<and> running s' t"
proof -
  let ?s1 = "probe_run 0 (no_probe :: bool probe_state)" let ?s2 = "probe_run 1 ?s1" let ?s3 = "?s2\<lparr>ps_results := (ps_results ?s2)(0 \<mapsto> True)\<rparr>"
  have "probe_trace no_probe ([] @ [Arrive 0]) ?s1" by (rule probe_trace.snoc [OF probe_trace.nil probe_step.arrive])
  then have "probe_trace no_probe (([] @ [Arrive 0]) @ [Arrive 1]) ?s2" by (rule probe_trace.snoc [OF _ probe_step.arrive])
  moreover have "running ?s2 0" by (simp add: running_def probe_run_def no_probe_def)
  ultimately have trace: "probe_trace no_probe ((([] @ [Arrive 0]) @ [Arrive 1]) @ [Complete 0 True]) ?s3"
    by (rule probe_trace.snoc [OF _ probe_step.complete])
  have waits: "ps_waiting ?s3 = [(0, 0), (1, 0)]" by (simp add: probe_run_def no_probe_def)
  from probes_coalesce [OF trace probe_step.arrive, of 2] obtain t where
    "ps_waiting (probe_run 2 ?s3) = [(0, 0), (1, 0), (2, t)]" "running (probe_run 2 ?s3) t" unfolding waits by auto
  then show ?thesis using trace probe_step.arrive [of ?s3 2] by auto
qed

end
