(* ===== verification/Api_Http.thy ===== *)
theory Api_Http
  imports Api_Models Api_RateLimit Svc_Readiness
begin

text \<open>
  The HTTP application (\<open>api/app.py\<close>, \<open>api/requestid.py\<close>) around the routes: which status an error gets, what each
  endpoint answers, and the two middlewares a request passes first.

  An endpoint identifies its caller, refuses a body outside the bounds of its model with 422, runs the route and prints what it
  returned. FastAPI and Starlette are the record \<open>framework\<close>: how a datetime and a message are printed, and the bodies of
  their own 422 and 500 answers. A call is a value of \<open>api_call\<close>, the parsed body of one endpoint.

  The lemmas show that a caller who is not proven gets the error of the check and nothing else has happened, that an
  allowed tool call in an answer rests on the grounds of the session, and that no answer carries a request id with a control
  character in it.
\<close>

section \<open>Errors\<close>

definition STATUS :: "(err_class \<times> int) list" where
  "STATUS = [(IdentityError, 401), (TokenInvalid, 403), (InvariantViolation, 403), (ActionDenied, 403), (MemoryDenied, 403),
     (MandateDenied, 403), (ApprovalError, 403), (Unavailable, 503), (ConnectorStale, 503)]"

definition status_for :: "err_class \<Rightarrow> int" where
  "status_for c = (case find (\<lambda>(k, code). is_a c k) STATUS of Some (k, code) \<Rightarrow> code | None \<Rightarrow> 403)"

record framework =
  fk_conv :: pyconv
  fk_date :: "datetime \<Rightarrow> string"
  fk_detail :: "exn \<Rightarrow> string"
  fk_connector :: "exn \<Rightarrow> string"
  fk_invalid :: json
  fk_internal :: json

type_synonym http_answer = "int \<times> json"

text \<open>The handler of \<open>HocError\<close>; every other exception is the framework's 500.\<close>

definition error_answer :: "framework \<Rightarrow> exn \<Rightarrow> http_answer" where
  "error_answer fk e = (case e of
     Hoc c reason \<Rightarrow> (status_for c, JObj [(''reason'', JStr reason), (''detail'', JStr (fk_detail fk e))])
   | Other m \<Rightarrow> (500, fk_internal fk))"

definition http_answered :: "framework \<Rightarrow> ('w, exn, http_answer) eff \<Rightarrow> 'w \<Rightarrow> http_answer \<times> 'w" where
  "http_answered fk m w = (case m w of (Inr a, w') \<Rightarrow> (a, w') | (Inl e, w') \<Rightarrow> (error_answer fk e, w'))"

section \<open>Endpoints\<close>

definition api_endpoint ::
    "framework \<Rightarrow> bool \<Rightarrow> ('w, exn, caller) eff \<Rightarrow> ('w, exn, 'a) eff \<Rightarrow> ('a \<Rightarrow> exn + json) \<Rightarrow> ('w, exn, http_answer) eff" where
  "api_endpoint fk ok who route pr =
     (if ok then bindE route (\<lambda>x. bindE (liftE (pr x)) (\<lambda>j. retE (200, j)))
      else bindE who (\<lambda>_. retE (422, fk_invalid fk)))"

datatype api_call =
    PostIssue issue_request
  | PostAttenuate string string wire_scope
  | PostInspect string
  | PostRevoke string string
  | PostFilter string "json list" string string
  | PostGate string string tool_args
  | PostRedeem string string string tool_args
  | GetApprovals
  | PostResolve string bool string
  | PostMandate string wire_scope int "int option"
  | GetMandates
  | DeleteMandate string "string option"
  | PostRemember string string "string list"
  | PostRecall string string int
  | PostForget string string
  | GetHealth
  | GetReady
  | GetRoot

text \<open>The dependency of the endpoint: \<open>Agent\<close>, \<open>User\<close>, or none.\<close>

definition needs_caller :: "api_call \<Rightarrow> caller_kind option" where
  "needs_caller call = (case call of
     GetApprovals \<Rightarrow> Some UserCaller | PostResolve _ _ _ \<Rightarrow> Some UserCaller | PostMandate _ _ _ _ \<Rightarrow> Some UserCaller
   | GetMandates \<Rightarrow> Some UserCaller | DeleteMandate _ _ \<Rightarrow> Some UserCaller
   | GetHealth \<Rightarrow> None | GetReady \<Rightarrow> None | GetRoot \<Rightarrow> None | _ \<Rightarrow> Some AgentCaller)"

definition mandates_json :: "(datetime \<Rightarrow> string) \<Rightarrow> mandate list \<Rightarrow> exn + json" where
  "mandates_json pd ms = bindR (sequence_sum (map (mandate_json pd) ms)) (\<lambda>js. Inr (JObj [(''mandates'', JArr js)]))"

definition approvals_json :: "(datetime \<Rightarrow> string) \<Rightarrow> approval_request list \<Rightarrow> json" where
  "approvals_json pd rs = JObj [(''requests'', JArr (map (approval_json pd) rs))]"

definition recall_json :: "(datetime \<Rightarrow> string) \<Rightarrow> memory list \<Rightarrow> json" where
  "recall_json pd ms = JObj [(''memories'', JArr (map (memory_json pd) ms))]"

definition forget_json :: "string \<Rightarrow> principal_chain \<Rightarrow> json" where
  "forget_json memory_id c = JObj [(''memory_id'', JStr memory_id), (''content'', JStr ''''), (''derived_from'', JArr []),
     (''written_for'', JStr (ch_subject c)), (''written_by'', JStr (ch_actor c)), (''created_at'', JNull)]"

definition checks_json :: "int \<times> string \<times> checks \<Rightarrow> json" where
  "checks_json r = JObj [(''status'', JStr (fst (snd r))), (''checks'', JObj (map (\<lambda>(k, v). (k, JStr v)) (snd (snd r))))]"

definition health :: "framework \<Rightarrow> string \<Rightarrow> ('w, exn, unit) eff \<Rightarrow> ('w, exn, http_answer) eff" where
  "health fk service check = bindE (catchE (bindE check (\<lambda>_. retE ''fresh''))
       (\<lambda>e. if catches ConnectorStale e then retE (''stale:'' @ fk_connector fk e) else raiseE e)) (\<lambda>connectors.
     retE (200, JObj [(''status'', JStr ''ok''), (''service'', JStr service), (''connectors'', JStr connectors)]))"

definition ready :: "'w readiness_probe \<Rightarrow> ('w, exn, http_answer) eff" where
  "ready p = bindE (route_ready p) (\<lambda>r. retE (fst r, checks_json r))"

text \<open>The bounds of the request models.\<close>

definition body_ok :: "api_call \<Rightarrow> bool" where
  "body_ok call = (case call of
     PostIssue body \<Rightarrow> issue_request_ok body
   | PostAttenuate token to sc \<Rightarrow> attenuate_ok token to sc
   | PostInspect token \<Rightarrow> token_ok token
   | PostRevoke token reason \<Rightarrow> revoke_ok token reason
   | PostFilter token items relation strategy \<Rightarrow> filter_ok token items relation strategy
   | PostGate token tool args \<Rightarrow> gate_ok token tool
   | PostRedeem token tool i args \<Rightarrow> redeem_ok token tool i
   | PostResolve i approved reason \<Rightarrow> resolve_ok reason
   | PostMandate agent sc hours mx \<Rightarrow> mandate_create_ok agent sc hours mx
   | DeleteMandate i reason \<Rightarrow> (case reason of None \<Rightarrow> True | Some r \<Rightarrow> mandate_revoke_ok r)
   | PostRemember token content sources \<Rightarrow> remember_ok token content sources
   | PostRecall token query limit \<Rightarrow> recall_ok token query limit
   | PostForget token i \<Rightarrow> forget_ok token i
   | _ \<Rightarrow> True)"

definition handle ::
    "framework \<Rightarrow> (('x, 'm) world_scheme, 'b, 'pub, 'priv) services \<Rightarrow> string \<Rightarrow> ('x, 'm) world_scheme readiness_probe
     \<Rightarrow> string option \<Rightarrow> api_call \<Rightarrow> (('x, 'm) world_scheme, exn, http_answer) eff" where
  "handle fk s service p a call =
     (let pc = fk_conv fk; pd = fk_date fk; ok = body_ok call; agent = require_agent pc s a; human = require_user pc s a in
      case call of
        PostIssue body \<Rightarrow> api_endpoint fk ok agent (route_issue pc s a body) (token_response pd)
      | PostAttenuate token to sc \<Rightarrow> api_endpoint fk ok agent (route_attenuate pc s a token to sc) (token_response pd)
      | PostInspect token \<Rightarrow> api_endpoint fk ok agent (route_inspect pc s a token) (inspect_response pd)
      | PostRevoke token reason \<Rightarrow> api_endpoint fk ok agent (route_revoke pc s a token reason) (inspect_response pd)
      | PostFilter token items relation strategy \<Rightarrow> api_endpoint fk ok agent
          (route_filter pc s a token (map filter_item items) relation (the (strategy_of strategy))) (\<lambda>r. Inr (filter_response pc r))
      | PostGate token tool args \<Rightarrow> api_endpoint fk ok agent (route_gate pc s a token tool args) (\<lambda>g. Inr (gate_response pd g))
      | PostRedeem token tool i args \<Rightarrow> api_endpoint fk ok agent (route_redeem pc s a token i tool args) (\<lambda>d. Inr (decision_json pd d))
      | GetApprovals \<Rightarrow> api_endpoint fk ok human (route_approvals pc s a) (\<lambda>rs. Inr (approvals_json pd rs))
      | PostResolve i approved reason \<Rightarrow> api_endpoint fk ok human (route_resolve pc s a i approved reason) (\<lambda>r. Inr (approval_json pd r))
      | PostMandate agent_ref sc hours mx \<Rightarrow> api_endpoint fk ok human (route_mandate_create pc s a agent_ref sc hours mx) (mandate_json pd)
      | GetMandates \<Rightarrow> api_endpoint fk ok human (route_mandates pc s a) (mandates_json pd)
      | DeleteMandate i reason \<Rightarrow> api_endpoint fk ok human (route_mandate_revoke pc s a i reason) (mandate_json pd)
      | PostRemember token content sources \<Rightarrow> api_endpoint fk ok agent (route_remember pc s a token content sources)
          (\<lambda>m. Inr (memory_json pd m))
      | PostRecall token query limit \<Rightarrow> api_endpoint fk ok agent (route_recall pc s a token query limit) (\<lambda>ms. Inr (recall_json pd ms))
      | PostForget token i \<Rightarrow> api_endpoint fk ok agent (route_forget pc s a token i) (\<lambda>c. Inr (forget_json i c))
      | GetHealth \<Rightarrow> health fk service (rp_freshness p)
      | GetReady \<Rightarrow> ready p
      | GetRoot \<Rightarrow> retE (307, JNull))"

definition http ::
    "framework \<Rightarrow> (('x, 'm) world_scheme, 'b, 'pub, 'priv) services \<Rightarrow> string \<Rightarrow> ('x, 'm) world_scheme readiness_probe
     \<Rightarrow> string option \<Rightarrow> api_call \<Rightarrow> ('x, 'm) world_scheme \<Rightarrow> http_answer \<times> ('x, 'm) world_scheme" where
  "http fk s service p a call = http_answered fk (handle fk s service p a call)"

section \<open>The middlewares\<close>

definition ID_HEADER :: string where
  "ID_HEADER = ''x-request-id''"

definition MAX_ID_LENGTH :: nat where
  "MAX_ID_LENGTH = 128"

text \<open>\<open>isascii\<close> and \<open>isprintable\<close> together, on the characters a latin-1 header decodes to.\<close>

definition printable_ascii :: "char \<Rightarrow> bool" where
  "printable_ascii c = (let n = of_char c :: nat in 32 \<le> n \<and> n \<le> 126)"

definition id_acceptable :: "string \<Rightarrow> bool" where
  "id_acceptable c = (0 < length c \<and> length c \<le> MAX_ID_LENGTH \<and> list_all printable_ascii c)"

fun incoming_loop :: "(string \<times> string) list \<Rightarrow> string option" where
  "incoming_loop [] = None"
| "incoming_loop ((name, v) # hs) =
     (if name = ID_HEADER then (let candidate = strip v in if id_acceptable candidate then Some candidate else incoming_loop hs)
      else incoming_loop hs)"

definition incoming :: "asgi_scope \<Rightarrow> string option" where
  "incoming sc = incoming_loop (sc_headers sc)"

record http_message =
  hm_status :: int
  hm_headers :: "(string \<times> string) list"
  hm_body :: string

definition request_id :: "asgi_scope \<Rightarrow> string \<Rightarrow> string" where
  "request_id sc uuid = (case incoming sc of Some i \<Rightarrow> i | None \<Rightarrow> uuid)"

text \<open>The application behind both middlewares: \<open>app\<close> is what FastAPI sends for the scope, and it runs with the request id it is
  given bound to the logging context. A scope that is not HTTP (a lifespan event) goes straight to it and nothing is added.\<close>

definition with_request_id ::
    "(asgi_scope \<Rightarrow> string option \<Rightarrow> 's \<Rightarrow> http_message \<times> 's) \<Rightarrow> asgi_scope \<Rightarrow> string \<Rightarrow> 's \<Rightarrow> http_message \<times> 's" where
  "with_request_id app sc uuid s = (if sc_type sc \<noteq> ''http'' then app sc None s
     else let i = request_id sc uuid in
       (case app sc (Some i) s of (m, s') \<Rightarrow> (m\<lparr>hm_headers := hm_headers m @ [(ID_HEADER, i)]\<rparr>, s')))"

definition EXEMPT_PATHS :: "string set" where
  "EXEMPT_PATHS = {''/v1/health''}"

definition limited ::
    "(asgi_scope \<Rightarrow> string option \<Rightarrow> 's \<Rightarrow> http_message \<times> 's) \<Rightarrow> rat \<Rightarrow> rat \<Rightarrow> asgi_scope \<Rightarrow> string option \<Rightarrow> rate_limiter \<times> 's
     \<Rightarrow> http_message \<times> (rate_limiter \<times> 's)" where
  "limited app t t' sc i st = (case st of (rl, s) \<Rightarrow>
     (case rate_limit EXEMPT_PATHS sc t t' rl of
        (CallApp, rl') \<Rightarrow> (case app sc i s of (m, s') \<Rightarrow> (m, (rl', s')))
      | (Respond code hs body, rl') \<Rightarrow> (\<lparr>hm_status = code, hm_headers = hs, hm_body = body\<rparr>, (rl', s))))"

text \<open>\<open>create_app\<close>: the limiter only when the settings ask for one, the request id outermost.\<close>

definition serve_app ::
    "int \<Rightarrow> (asgi_scope \<Rightarrow> string option \<Rightarrow> 's \<Rightarrow> http_message \<times> 's) \<Rightarrow> rat \<Rightarrow> rat \<Rightarrow> asgi_scope \<Rightarrow> string \<Rightarrow> rate_limiter \<times> 's
     \<Rightarrow> http_message \<times> (rate_limiter \<times> 's)" where
  "serve_app per_minute app t t' sc uuid st =
     with_request_id (\<lambda>sc i st. if 0 < per_minute then limited app t t' sc i st
        else (case st of (rl, s) \<Rightarrow> (case app sc i s of (m, s') \<Rightarrow> (m, (rl, s'))))) sc uuid st"

section \<open>Properties\<close>

text \<open>
  A denial is 403, an unproven identity 401, and 503 says exactly that something the decision needs did not answer.
\<close>

lemma status_for_exact:
  "status_for c = (if is_a c Unavailable \<or> c = ConnectorStale then 503 else if c = IdentityError then 401 else 403)"
  by (cases c) (simp_all add: status_for_def STATUS_def is_a_def)

text \<open>The check of the caller an endpoint depends on.\<close>

definition caller_check ::
    "framework \<Rightarrow> (('x, 'm) world_scheme, 'b, 'pub, 'priv) services \<Rightarrow> string option \<Rightarrow> caller_kind
     \<Rightarrow> (('x, 'm) world_scheme, exn, caller) eff" where
  "caller_check fk s a k = (case k of UserCaller \<Rightarrow> require_user (fk_conv fk) s a | _ \<Rightarrow> require_agent (fk_conv fk) s a)"

lemma api_endpoint_refused:
  assumes "who w = (Inl e, w')" "route w = (Inl e, w')"
  shows "http_answered fk (api_endpoint fk ok who route pr) w = (error_answer fk e, w')"
  using assms by (simp add: http_answered_def api_endpoint_def bindE_def)

lemmas routes_of_agents = route_issue_def route_attenuate_def route_inspect_def route_revoke_def route_filter_def route_gate_def
  route_redeem_def route_remember_def route_recall_def route_forget_def

lemmas routes_of_humans = route_approvals_def route_resolve_def route_mandate_create_def route_mandates_def route_mandate_revoke_def

text \<open>
  C37. Nothing happens for a caller who is not proven. When the check an endpoint depends on refuses (no bearer, a
  token the provider does not vouch for, a human at an agent's endpoint or an agent at a human's), the answer is that error,
  whatever the body, and the world is as the check left it: no token, approval, mandate, memory or event was touched.
\<close>

theorem unproven_caller_refused:
  fixes s :: "(('x, 'm) world_scheme, 'b, 'pub, 'priv) services"
  assumes "needs_caller call = Some k" "caller_check fk s a k w = (Inl e, w')"
  shows "http fk s service p a call w = (error_answer fk e, w')"
  using assms
  by (cases call)
     (auto simp: http_def handle_def needs_caller_def Let_def caller_check_def routes_of_agents routes_of_humans bindE_def
       intro!: api_endpoint_refused)

text \<open>
  An answer that allows a tool call rests on the session's grounds: the endpoint answers 200 with the outcome ALLOW only to an
  agent whose own bearer was verified, and only when the token it presented verified for that agent and this tool, the scope of its chain
  covers the tool, the policy allows these arguments and the engine related the subject to the tool.
\<close>

lemma http_answered_200: "http_answered fk m w = ((200, j), w') \<Longrightarrow> m w = (Inr (200, j), w')"
  by (auto simp: http_answered_def error_answer_def status_for_exact split: prod.splits sum.splits exn.splits if_splits)

lemma gate_response_outcome:
  "gate_response pd g = JObj ((''decision'', JObj ((''outcome'', JStr ''ALLOW'') # rest)) # others) \<Longrightarrow> gate_allowed g"
  by (cases "d_outcome (gr_decision g)") (auto simp: gate_response_def decision_json_def gate_allowed_def)

theorem http_gate_allow_grounds:
  fixes s :: "(('x, 'm) world_scheme, 'b, 'pub, 'priv) services"
  assumes run: "http fk s service p a (PostGate token tool args) w
      = ((200, JObj ((''decision'', JObj ((''outcome'', JStr ''ALLOW'') # rest)) # others)), w')"
  shows "\<exists>c w1 se r. identity_of (fk_conv fk) s a w = (Inr c, w1) \<and> cl_kind c = AgentCaller \<and> route_session s c token = Inr se
    \<and> tool_resource tool = Inr r \<and> invoke_grounds se r args w1"
proof -
  have "handle fk s service p a (PostGate token tool args) w
      = (Inr (200, JObj ((''decision'', JObj ((''outcome'', JStr ''ALLOW'') # rest)) # others)), w')"
    by (rule http_answered_200) (use run in \<open>simp add: http_def\<close>)
  then obtain g w2 where route: "route_gate (fk_conv fk) s a token tool args w = (Inr g, w2)" and "gate_allowed g"
    by (auto simp: handle_def Let_def api_endpoint_def bindE_Inr retE_def liftE_def raiseE_def split: if_splits dest: gate_response_outcome)
  from route obtain c w1 se where c: "require_agent (fk_conv fk) s a w = (Inr c, w1)" "route_session s c token = Inr se"
    "session_authorize se tool (Some args) w1 = (Inr g, w2)"
    by (auto simp: route_gate_def bindE_Inr liftE_def)
  from session_authorize_grounds [OF this(3) \<open>gate_allowed g\<close>] obtain r where "tool_resource tool = Inr r" "invoke_grounds se r args w1"
    by (auto simp: args_or_empty_def)
  with c show ?thesis by (auto simp: require_agent_Inr)
qed

text \<open>
  No answer carries a request id that could forge a header or a log line. Every answer to an HTTP request ends with exactly one
  header the middleware added, also a 429; its value is the incoming id only when that is 1 to 128 printable ASCII characters, and the
  application runs with the same id.
\<close>

lemma incoming_loop_Some: "incoming_loop hs = Some i \<Longrightarrow> id_acceptable i \<and> (\<exists>v. (ID_HEADER, v) \<in> set hs \<and> i = strip v)"
  by (induction hs rule: incoming_loop.induct) (auto simp: Let_def split: if_splits)

lemma serve_http:
  assumes "sc_type sc = ''http''" "serve_app n app t t' sc uuid st = (m, st')"
  shows "\<exists>m0. m = m0\<lparr>hm_headers := hm_headers m0 @ [(ID_HEADER, request_id sc uuid)]\<rparr>"
  using assms by (auto simp: serve_app_def with_request_id_def Let_def split: prod.splits)

theorem request_id_clean:
  assumes "sc_type sc = ''http''" "id_acceptable uuid" "serve_app n app t t' sc uuid st = (m, st')"
  shows "\<exists>i. last (hm_headers m) = (ID_HEADER, i) \<and> 0 < length i \<and> length i \<le> 128
    \<and> (\<forall>c\<in>set i. c \<noteq> CHR 0x0D \<and> c \<noteq> CHR 0x0A \<and> c \<noteq> CHR 0x00 \<and> of_char c < (128 :: nat))
    \<and> (i = uuid \<or> (\<exists>v. (ID_HEADER, v) \<in> set (sc_headers sc) \<and> i = strip v))"
proof -
  let ?i = "request_id sc uuid"
  have ok: "id_acceptable ?i" and src: "?i = uuid \<or> (\<exists>v. (ID_HEADER, v) \<in> set (sc_headers sc) \<and> ?i = strip v)"
    using assms(2) incoming_loop_Some [of "sc_headers sc"]
    by (auto simp: request_id_def incoming_def split: option.splits)
  have "c \<noteq> CHR 0x0D \<and> c \<noteq> CHR 0x0A \<and> c \<noteq> CHR 0x00 \<and> of_char c < (128 :: nat)" if "printable_ascii c" for c
    using that unfolding printable_ascii_def Let_def by (intro conjI notI) simp_all
  with ok have "\<forall>c\<in>set ?i. c \<noteq> CHR 0x0D \<and> c \<noteq> CHR 0x0A \<and> c \<noteq> CHR 0x00 \<and> of_char c < (128 :: nat)"
    unfolding id_acceptable_def list_all_iff by blast
  moreover obtain m0 where "m = m0\<lparr>hm_headers := hm_headers m0 @ [(ID_HEADER, ?i)]\<rparr>" using serve_http [OF assms(1,3)] by blast
  then have "last (hm_headers m) = (ID_HEADER, ?i)" by simp
  moreover have "0 < length ?i" "length ?i \<le> 128" using ok by (simp_all add: id_acceptable_def MAX_ID_LENGTH_def)
  ultimately show ?thesis using src by blast
qed

text \<open>A health check is never rate limited, and a refused request never reaches the application.\<close>

lemma health_never_limited:
  "sc_path sc = Some ''/v1/health'' \<Longrightarrow> limited app t t' sc i (rl, s) = (case app sc i s of (m, s') \<Rightarrow> (m, (rl, s')))"
  by (simp add: limited_def rate_limit_def EXEMPT_PATHS_def)

lemma limited_stops:
  assumes "rate_limit EXEMPT_PATHS sc t t' rl = (Respond code hs body, rl')"
  shows "limited app t t' sc i (rl, s) = (\<lparr>hm_status = code, hm_headers = hs, hm_body = body\<rparr>, (rl', s))"
  using assms by (simp add: limited_def)


section \<open>Witnesses\<close>

definition sample_framework :: framework where
  "sample_framework = \<lparr>fk_conv = std_conv, fk_date = (\<lambda>_. ''2026-01-01T00:00:00Z''), fk_detail = (\<lambda>_. ''refused''), fk_connector = (\<lambda>_. ''files''),
     fk_invalid = JObj [(''detail'', JArr [])], fk_internal = JStr ''Internal Server Error''\<rparr>"

definition bot_services ::
    "(unit token_world, sample_token, int, int) services \<Rightarrow> (unit token_world, sample_token, int, int) services" where
  "bot_services s = s\<lparr>sv_identity := (\<lambda>t. retE bot_identity), sv_detection := DEFAULT_DETECTION, sv_tokens := sample_service, sv_gate := mail_gate\<rparr>"

theorem unproven_caller_refused_witness:
  "\<forall>s p w. http sample_framework (bot_services s) ''hoc'' p None (PostGate ''t'' ''tool:mail'' []) w
      = ((401, JObj [(''reason'', JStr ''missing_bearer''), (''detail'', JStr ''refused'')]), w)"
proof (intro allI)
  fix s p and w :: "unit token_world"
  have "caller_check sample_framework (bot_services s) None AgentCaller w = (Inl (Hoc IdentityError ''missing_bearer''), w)"
    by (simp add: caller_check_def require_agent_def identity_of_def bearer_of_def bindE_def liftE_def)
  from unproven_caller_refused [OF _ this]
  show "http sample_framework (bot_services s) ''hoc'' p None (PostGate ''t'' ''tool:mail'' []) w
      = ((401, JObj [(''reason'', JStr ''missing_bearer''), (''detail'', JStr ''refused'')]), w)"
    by (simp add: needs_caller_def error_answer_def status_for_exact sample_framework_def is_a_def)
qed

lemma bot_services_simps [simp]:
  "sv_identity (bot_services s) t = retE bot_identity" "sv_detection (bot_services s) = DEFAULT_DETECTION"
  "sv_tokens (bot_services s) = sample_service" "sv_gate (bot_services s) = mail_gate"
  by (simp_all add: bot_services_def)

lemma mail_token_ok: "gate_ok (bl_to_base64 sample_lib root_biscuit) ''tool:mail''"
proof -
  have "length (bl_to_base64 sample_lib root_biscuit) = 175" by code_simp
  then show ?thesis by (simp add: gate_ok_def token_ok_def len_between_def)
qed

lemma bot_caller:
  "require_agent std_conv (bot_services s) (Some ''Bearer bot'') w = (Inr \<lparr>cl_kind = AgentCaller, cl_ref = ''agent:a''\<rparr>, w)"
  by (simp add: require_agent_def identity_of_def bindE_def liftE_def sample_callers retE_def)

lemma bot_session:
  "route_session (bot_services s) \<lparr>cl_kind = AgentCaller, cl_ref = ''agent:a''\<rparr> (bl_to_base64 sample_lib root_biscuit) = Inr mail_session"
  by (simp add: route_session_def mk_session_def mail_valid mail_session_def)

lemma bot_gate:
  "\<exists>g w'. route_gate std_conv (bot_services s) (Some ''Bearer bot'') (bl_to_base64 sample_lib root_biscuit) ''tool:mail'' args token_world0 = (Inr g, w')
    \<and> gate_allowed g"
proof -
  have "tool_resource ''tool:mail'' = tool_resource ''mail''" by code_simp
  then have "session_authorize mail_session ''tool:mail'' (Some args) = session_authorize mail_session ''mail'' (Some args)"
    by (simp add: session_authorize_def)
  with mail_authorize [of args] show ?thesis by (simp add: route_gate_def bindE_def liftE_def bot_caller bot_session)
qed

theorem http_gate_allow_grounds_witness:
  "\<forall>s p. \<exists>j w' r. http sample_framework (bot_services s) ''hoc'' p (Some ''Bearer bot'')
      (PostGate (bl_to_base64 sample_lib root_biscuit) ''tool:mail'' [(''to'', JStr ''bob'')]) token_world0 = ((200, j), w')
    \<and> invoke_grounds mail_session r [(''to'', JStr ''bob'')] token_world0"
proof (intro allI)
  fix s p
  let ?token = "bl_to_base64 sample_lib root_biscuit" and ?args = "[(''to'', JStr ''bob'')]"
  obtain g w' where run: "route_gate std_conv (bot_services s) (Some ''Bearer bot'') ?token ''tool:mail'' ?args token_world0 = (Inr g, w')"
      and allowed: "gate_allowed g" using bot_gate by blast
  have fk: "fk_conv sample_framework = std_conv" by (simp add: sample_framework_def)
  obtain rest others where j: "gate_response (fk_date sample_framework) g = JObj ((''decision'', JObj ((''outcome'', JStr ''ALLOW'') # rest)) # others)"
    using allowed by (simp add: gate_response_def decision_json_def gate_allowed_def)
  have http: "http sample_framework (bot_services s) ''hoc'' p (Some ''Bearer bot'') (PostGate ?token ''tool:mail'' ?args) token_world0
      = ((200, JObj ((''decision'', JObj ((''outcome'', JStr ''ALLOW'') # rest)) # others)), w')"
    using run mail_token_ok j
    by (simp add: http_def http_answered_def handle_def Let_def api_endpoint_def bindE_def retE_def liftE_def fk body_ok_def)
  obtain c w1 se r where g: "identity_of std_conv (bot_services s) (Some ''Bearer bot'') token_world0 = (Inr c, w1)"
      "route_session (bot_services s) c ?token = Inr se" "invoke_grounds se r ?args w1"
    using http_gate_allow_grounds [OF http] fk by auto
  have "c = \<lparr>cl_kind = AgentCaller, cl_ref = ''agent:a''\<rparr>" "w1 = token_world0"
    using g(1) by (simp_all add: identity_of_def bindE_def liftE_def sample_callers retE_def)
  moreover from this g(2) have "se = mail_session"
    by (simp add: route_session_def mk_session_def mail_valid mail_session_def)
  ultimately show "\<exists>j w' r. http sample_framework (bot_services s) ''hoc'' p (Some ''Bearer bot'')
      (PostGate ?token ''tool:mail'' ?args) token_world0 = ((200, j), w') \<and> invoke_grounds mail_session r ?args token_world0"
    using http g(3) by (intro exI conjI) simp_all
qed

theorem request_id_clean_witness:
  "\<exists>m st' i. serve_app 0 (\<lambda>sc i s. (\<lparr>hm_status = 200, hm_headers = [], hm_body = ''''\<rparr>, s)) 0 0
      \<lparr>sc_type = ''http'', sc_path = None, sc_headers = [(''x-request-id'', ''a'' @ [CHR 0x0A] @ ''b: c'')], sc_client = None\<rparr> ''0123'' (mk_limiter 0, ()) = (m, st')
    \<and> last (hm_headers m) = (ID_HEADER, i) \<and> (\<forall>c\<in>set i. c \<noteq> CHR 0x0A)"
proof -
  have ok: "id_acceptable ''0123''" by code_simp
  show ?thesis
    using request_id_clean [OF _ ok, where sc = "\<lparr>sc_type = ''http'', sc_path = None, sc_headers = [(''x-request-id'', ''a'' @ [CHR 0x0A] @ ''b: c'')], sc_client = None\<rparr>"
      and app = "\<lambda>sc i s. (\<lparr>hm_status = 200, hm_headers = [], hm_body = ''''\<rparr>, s)" and n = 0 and t = 0 and t' = 0 and st = "(mk_limiter 0, ())"]
    by (metis asgi_scope.select_convs(1) surj_pair)
qed


end
