(* ===== verification/Integ_HocServer.thy ===== *)
theory Integ_HocServer
  imports Integ_Mcp Api_Http
begin

text \<open>
  HeadOfContext as an MCP server (\<open>build_hoc_server\<close> in \<open>integrations/mcp.py\<close>): the tools an agent that speaks only MCP is offered.

  A binding is one session and the core services; each tool is a function of its arguments that answers the JSON its model is
  dumped to. What a tool raises of the program's own errors becomes a \<open>ToolError\<close> with the reason, everything else reaches
  the MCP library, which also serves the registered tools by name.

  The lemmas show that the tools and the endpoints of the HTTP API are the same operations: the same answer, the same events,
  the same refusals.
\<close>

record ('w, 'b, 'pub, 'priv) hoc_binding =
  hb_session :: "('w, 'b, 'pub, 'priv) agent_session"
  hb_engine :: "'w authz_engine"
  hb_audit :: "'w audit_sink"
  hb_memory :: "'w memory_service option"

datatype hoc_call =
    HocWhoami
  | HocFilter "string list" string
  | HocGate string "tool_args option"
  | HocRedeem string string "tool_args option"
  | HocRecall string int
  | HocRemember string "string list"

definition hoc_whoami ::
    "(('x, 'm) world_scheme, 'b, 'pub, 'priv) hoc_binding \<Rightarrow> (('x, 'm) world_scheme, exn, json) eff" where
  "hoc_whoami b = bindE (session_chain (hb_session b)) (\<lambda>c. liftE (chain_json c))"

definition hoc_filter ::
    "(('x, 'm) world_scheme, 'b, 'pub, 'priv) hoc_binding \<Rightarrow> string list \<Rightarrow> string \<Rightarrow> (('x, 'm) world_scheme, exn, json) eff" where
  "hoc_filter b items relation = bindE (session_chain (hb_session b)) (\<lambda>c.
     bindE (filter_items c items (hb_engine b) (hb_audit b) (\<lambda>item. Inr (Some item)) relation Auto False None (Some (session_permits (hb_session b)))) (\<lambda>r.
     retE (JObj [(''kept'', JArr (map JStr (fr_kept r))), (''dropped'', JArr (map JStr (fr_dropped r))), (''strategy'', JStr (fr_strategy r))])))"

definition hoc_gate ::
    "(datetime \<Rightarrow> string) \<Rightarrow> (('x, 'm) world_scheme, 'b, 'pub, 'priv) hoc_binding \<Rightarrow> string \<Rightarrow> tool_args option
     \<Rightarrow> (('x, 'm) world_scheme, exn, json) eff" where
  "hoc_gate pd b tool args = bindE (session_authorize (hb_session b) tool (Some (args_or_empty args))) (\<lambda>g.
     retE (JObj [(''decision'', decision_json pd (gr_decision g)), (''approval'', opt_json (approval_json pd) (gr_approval g))]))"

definition hoc_redeem ::
    "(datetime \<Rightarrow> string) \<Rightarrow> (('x, 'm) world_scheme, 'b, 'pub, 'priv) hoc_binding \<Rightarrow> string \<Rightarrow> string \<Rightarrow> tool_args option
     \<Rightarrow> (('x, 'm) world_scheme, exn, json) eff" where
  "hoc_redeem pd b i tool args = bindE (session_redeem (hb_session b) i tool (Some (args_or_empty args))) (\<lambda>d. retE (decision_json pd d))"

definition bound_memory :: "('w, 'b, 'pub, 'priv) hoc_binding \<Rightarrow> exn + 'w memory_service" where
  "bound_memory b = (case hb_memory b of None \<Rightarrow> Inl (Other ''ToolError'') | Some m \<Rightarrow> Inr m)"

definition hoc_recall ::
    "(datetime \<Rightarrow> string) \<Rightarrow> (('x, 'm) world_scheme, 'b, 'pub, 'priv) hoc_binding \<Rightarrow> string \<Rightarrow> int \<Rightarrow> (('x, 'm) world_scheme, exn, json) eff" where
  "hoc_recall pd b query limit = bindE (liftE (bound_memory b)) (\<lambda>memory. bindE (session_chain (hb_session b)) (\<lambda>c.
     bindE (recall memory c query limit (Some (session_permits (hb_session b)))) (\<lambda>found.
     retE (JObj [(''memories'', JArr (map (memory_json pd) found))]))))"

definition hoc_remember ::
    "(datetime \<Rightarrow> string) \<Rightarrow> (('x, 'm) world_scheme, 'b, 'pub, 'priv) hoc_binding \<Rightarrow> string \<Rightarrow> string list
     \<Rightarrow> (('x, 'm) world_scheme, exn, json) eff" where
  "hoc_remember pd b content sources = bindE (liftE (bound_memory b)) (\<lambda>memory. bindE (session_chain (hb_session b)) (\<lambda>c.
     bindE (remember memory c content sources (Some (session_permits (hb_session b)))) (\<lambda>m. retE (memory_json pd m))))"

definition hoc_run ::
    "(datetime \<Rightarrow> string) \<Rightarrow> (('x, 'm) world_scheme, 'b, 'pub, 'priv) hoc_binding \<Rightarrow> hoc_call \<Rightarrow> (('x, 'm) world_scheme, exn, json) eff" where
  "hoc_run pd b call = (case call of
     HocWhoami \<Rightarrow> hoc_whoami b
   | HocFilter items relation \<Rightarrow> hoc_filter b items relation
   | HocGate tool args \<Rightarrow> hoc_gate pd b tool args
   | HocRedeem i tool args \<Rightarrow> hoc_redeem pd b i tool args
   | HocRecall query limit \<Rightarrow> hoc_recall pd b query limit
   | HocRemember content sources \<Rightarrow> hoc_remember pd b content sources)"

section \<open>The server\<close>

definition hoc_tool :: "hoc_call \<Rightarrow> string" where
  "hoc_tool call = (case call of HocWhoami \<Rightarrow> ''hoc_whoami'' | HocFilter _ _ \<Rightarrow> ''hoc_filter'' | HocGate _ _ \<Rightarrow> ''hoc_gate''
     | HocRedeem _ _ _ \<Rightarrow> ''hoc_redeem'' | HocRecall _ _ \<Rightarrow> ''hoc_recall'' | HocRemember _ _ \<Rightarrow> ''hoc_remember'')"

text \<open>The tools \<open>build_hoc_server\<close> registers.\<close>

definition hoc_tools :: "('w, 'b, 'pub, 'priv) hoc_binding \<Rightarrow> string list" where
  "hoc_tools b = [''hoc_whoami'', ''hoc_filter'', ''hoc_gate'', ''hoc_redeem'']
     @ (if hb_memory b \<noteq> None then [''hoc_recall'', ''hoc_remember''] else [])"

datatype tool_failure = ToolError string | Escaped exn

definition as_tool_error :: "(exn \<Rightarrow> string) \<Rightarrow> ('w, exn, 'a) eff \<Rightarrow> ('w, tool_failure, 'a) eff" where
  "as_tool_error det m = (\<lambda>w. case m w of
     (Inr x, w') \<Rightarrow> (Inr x, w')
   | (Inl e, w') \<Rightarrow> (case e of Hoc c reason \<Rightarrow> (Inl (ToolError (''HeadOfContext: '' @ reason @ '': '' @ det e)), w')
       | Other m \<Rightarrow> (Inl (Escaped e), w')))"

text \<open>A call of a registered tool; \<open>None\<close> is a name the library does not find.\<close>

definition hoc_serve ::
    "framework \<Rightarrow> (('x, 'm) world_scheme, 'b, 'pub, 'priv) hoc_binding \<Rightarrow> hoc_call
     \<Rightarrow> (('x, 'm) world_scheme, tool_failure, json) eff option" where
  "hoc_serve fk b call = (if hoc_tool call \<in> set (hoc_tools b) then Some (as_tool_error (fk_detail fk) (hoc_run (fk_date fk) b call)) else None)"

section \<open>Properties\<close>

lemma session_of:
  assumes "route_session s c token = Inr se"
  shows "chain_of s c token = session_chain se" "permits_of s c token = session_permits se"
  using assms
  by (auto simp: route_session_def mk_session_def chain_of_def permits_of_def session_chain_def session_permits_def fun_eq_iff split: sum.splits)

text \<open>The filter looks at an item only through its reference.\<close>

lemma filter_items_map:
  "filter_items c (map f items) engine audit idof relation strategy per_item dec permits =
     bindE (filter_items c items engine audit (\<lambda>x. idof (f x)) relation strategy per_item dec permits) (\<lambda>r.
     retE \<lparr>fr_kept = map f (fr_kept r), fr_dropped = fr_dropped r, fr_strategy = fr_strategy r, fr_decisions = fr_decisions r\<rparr>)"
  (is "?l = ?r")
proof (cases "items = []")
  case False
  have refs: "map (reference idof) (map f items) = map (reference (\<lambda>x. idof (f x))) items"
    by (simp add: reference_def)
  have kept: "map fst (filter (\<lambda>(item, ref). P ref) (zip (map f items) rs)) = map f (map fst (filter (\<lambda>(item, ref). P ref) (zip items rs)))" for P and rs :: "string option list"
    by (induction items rs rule: list_induct2') auto
  have dropped: "map (\<lambda>(item, ref). g ref) (filter (\<lambda>(item, ref). P ref) (zip (map f items) rs))
      = map (\<lambda>(item, ref). g ref) (filter (\<lambda>(item, ref). P ref) (zip items rs))" for P and rs :: "string option list" and g :: "string option \<Rightarrow> string"
    by (induction items rs rule: list_induct2') auto
  show ?thesis using False unfolding filter_items_def Let_def refs kept dropped
    by (simp add: bindE_assoc)
qed (simp add: filter_items_def)

text \<open>The endpoint that does what a tool does.\<close>

definition http_of :: "string \<Rightarrow> hoc_call \<Rightarrow> api_call option" where
  "http_of token tool = (case tool of
     HocWhoami \<Rightarrow> None
   | HocFilter items relation \<Rightarrow> Some (PostFilter token (map (\<lambda>i. JObj [(''id'', JStr i)]) items) relation ''auto'')
   | HocGate t args \<Rightarrow> Some (PostGate token t (args_or_empty args))
   | HocRedeem i t args \<Rightarrow> Some (PostRedeem token t i (args_or_empty args))
   | HocRecall query limit \<Rightarrow> Some (PostRecall token query limit)
   | HocRemember content sources \<Rightarrow> Some (PostRemember token content sources))"

lemma after_caller:
  assumes "require_agent pc s a w = (Inr c, w1)"
  shows "bindE (require_agent pc s a) f w = f c w1"
  using assms by (simp add: bindE_def)

definition as_200 :: "('w, exn, json) eff \<Rightarrow> ('w, exn, http_answer) eff" where
  "as_200 m = bindE m (\<lambda>j. retE (200, j))"

text \<open>
  C38. An agent that speaks MCP gets what it would get over HTTP, for requests within the bounds of the HTTP bodies. For a caller whose
  bearer was accepted and a token bound to it, the endpoints that filter, gate, redeem, recall and remember answer the JSON the tools of
  the server answer, leave the same world, journal included, and fail with the same exception; the server shows its reason to the model
  and the API maps it to a status. The tools have no such bounds: outside them HTTP answers 422 and changes nothing more, where the tool
  runs.
\<close>

theorem mcp_agrees_with_http:
  fixes s :: "(('x, 'm) world_scheme, 'b, 'pub, 'priv) services"
  assumes laws: "conv_laws (fk_conv fk)"
    and caller: "require_agent (fk_conv fk) s a w = (Inr c, w1)" and se: "route_session s c token = Inr se"
    and b: "b = \<lparr>hb_session = se, hb_engine = sv_engine s, hb_audit = sv_audit s, hb_memory = Some (sv_memory s)\<rparr>"
    and call: "http_of token tool = Some call"
  shows "handle fk s service p a call w =
      (if body_ok call then (case hoc_run (fk_date fk) b tool w1 of (Inr j, w') \<Rightarrow> (Inr (200, j), w') | (Inl e, w') \<Rightarrow> (Inl e, w'))
       else (Inr (422, fk_invalid fk), w1))
    \<and> hoc_serve fk b tool = Some (as_tool_error (fk_detail fk) (hoc_run (fk_date fk) b tool))"
proof -
  note routes = after_caller [OF caller] session_of [OF se] se
  have step: "bindE (liftE (Inr x)) f = f x" for x and f :: "'z \<Rightarrow> ('v, exn, 'y) eff" by (simp add: bindE_def liftE_def)
  note run = handle_def Let_def api_endpoint_def bindE_assoc after_caller [OF caller] session_of [OF se] se step as_200_def hoc_run_def b
  have runs: "handle fk s service p a call w = as_200 (hoc_run (fk_date fk) b tool) w1" if ok: "body_ok call"
  proof (cases tool)
    case (HocFilter items relation)
    then have c: "call = PostFilter token (map (\<lambda>i. JObj [(''id'', JStr i)]) items) relation ''auto''" using call by (simp add: http_of_def)
    have items: "filter_item (JObj [(''id'', JStr i)]) = JObj [(''id'', JStr i)]" for i by (simp add: filter_item_def dict_get_def)
    show ?thesis using ok laws
      by (simp add: c run route_filter_def items filter_items_map default_id_of_def strategy_of_def HocFilter hoc_filter_def
          filter_response_def dict_get_def conv_laws_def comp_def)
  next
    case (HocGate t args)
    then have c: "call = PostGate token t (args_or_empty args)" using call by (simp add: http_of_def)
    show ?thesis using ok by (simp add: c run route_gate_def HocGate hoc_gate_def gate_response_def)
  next
    case (HocRedeem i t args)
    then have c: "call = PostRedeem token t i (args_or_empty args)" using call by (simp add: http_of_def)
    show ?thesis using ok by (simp add: c run route_redeem_def HocRedeem hoc_redeem_def)
  next
    case (HocRecall query limit)
    then have c: "call = PostRecall token query limit" using call by (simp add: http_of_def)
    show ?thesis using ok by (simp add: c run route_recall_def HocRecall hoc_recall_def bound_memory_def recall_json_def)
  next
    case (HocRemember content sources)
    then have c: "call = PostRemember token content sources" using call by (simp add: http_of_def)
    show ?thesis using ok by (simp add: c run route_remember_def HocRemember hoc_remember_def bound_memory_def)
  qed (use call in \<open>simp add: http_of_def\<close>)
  moreover have "handle fk s service p a call w = (Inr (422, fk_invalid fk), w1)" if "\<not> body_ok call"
    using that call by (cases tool) (auto simp: http_of_def handle_def Let_def api_endpoint_def after_caller [OF caller] retE_def)
  ultimately show ?thesis
    by (auto simp: as_200_def bindE_def retE_def hoc_serve_def hoc_tools_def hoc_tool_def b split: prod.splits sum.splits hoc_call.splits)
qed

theorem mcp_agrees_with_http_witness:
  "\<forall>s p. hoc_run (fk_date sample_framework) \<lparr>hb_session = mail_session, hb_engine = sv_engine (bot_services s), hb_audit = sv_audit (bot_services s),
        hb_memory = Some (sv_memory (bot_services s))\<rparr> (HocGate ''tool:mail'' None) token_world0
      = (case handle sample_framework (bot_services s) ''hoc'' p (Some ''Bearer bot'')
          (PostGate (bl_to_base64 sample_lib root_biscuit) ''tool:mail'' []) token_world0 of
          (Inr (code, j), w') \<Rightarrow> (Inr j, w') | (Inl e, w') \<Rightarrow> (Inl e, w'))"
proof (intro allI)
  fix s p
  let ?b = "\<lparr>hb_session = mail_session, hb_engine = sv_engine (bot_services s), hb_audit = sv_audit (bot_services s),
        hb_memory = Some (sv_memory (bot_services s))\<rparr>"
  have fk: "fk_conv sample_framework = std_conv" by (simp add: sample_framework_def)
  have call: "http_of (bl_to_base64 sample_lib root_biscuit) (HocGate ''tool:mail'' None) = Some (PostGate (bl_to_base64 sample_lib root_biscuit) ''tool:mail'' [])"
    "body_ok (PostGate (bl_to_base64 sample_lib root_biscuit) ''tool:mail'' [])"
    using mail_token_ok by (simp_all add: http_of_def args_or_empty_def body_ok_def)
  show "hoc_run (fk_date sample_framework) ?b (HocGate ''tool:mail'' None) token_world0
      = (case handle sample_framework (bot_services s) ''hoc'' p (Some ''Bearer bot'')
          (PostGate (bl_to_base64 sample_lib root_biscuit) ''tool:mail'' []) token_world0 of
          (Inr (code, j), w') \<Rightarrow> (Inr j, w') | (Inl e, w') \<Rightarrow> (Inl e, w'))"
    using mcp_agrees_with_http [OF _ _ bot_session refl call(1), where fk = sample_framework and service = "''hoc''" and p = p
        and a = "Some ''Bearer bot''" and w = token_world0 and ?w1.0 = token_world0]
    by (simp add: fk std_conv_laws bot_caller call(2) split: prod.splits sum.splits)
qed

end
