(* ===== verification/Svc_Wiring.thy ===== *)
theory Svc_Wiring
  imports Api_Http Memory_Backends Engine_OpenFga
begin

text \<open>
  How the services are put together from the settings (\<open>services.py\<close>).

  \<open>build_services\<close> first brings the schema up to date, or checks that it is, and then builds every service over PostgreSQL in the order
  of the code; whatever raises stops the start. The libraries are one record: the biscuit library and its keys, the OpenFGA
  client, OIDC's libraries, HTTP, the constructors of the memory clients, what is installed as plugins, telemetry. The
  connection that migrates is a world of its own, with its own clock and failures; \<open>on_schema\<close> runs it.

  The lemmas show that a service starts only on the schema of its code, that its key ring signs and verifies with the configured
  key whatever verification keys are listed, and what therefore holds of the tokens a running service issues.
\<close>

section \<open>The world of a service\<close>

record ('x, 'k) service_world = "('x, 'k) oidc_world" +
  w_schema :: "unit schema_world"

definition on_schema :: "(unit schema_world, exn, 'a) eff \<Rightarrow> (('x, 'k, 'm) service_world_scheme, exn, 'a) eff" where
  "on_schema m = (\<lambda>w. case m (w_schema w) of (r, s) \<Rightarrow> (r, w\<lparr>w_schema := s\<rparr>))"

text \<open>The fields of the first and the last record of the hierarchy do not touch each other.\<close>

lemma service_world_frame [simp]:
  fixes w :: "('x, 'k, 'm) service_world_scheme"
  shows "w_schema (w\<lparr>w_clock_at := n\<rparr>) = w_schema w" "w_schema (w\<lparr>w_uuid_at := n\<rparr>) = w_schema w" "w_schema (w\<lparr>w_perf_at := n\<rparr>) = w_schema w"
    "w_schema (w\<lparr>w_db_at := n\<rparr>) = w_schema w" "w_schema (w\<lparr>w_db := fates\<rparr>) = w_schema w"
    "w_clock (w\<lparr>w_schema := sc\<rparr>) = w_clock w" "w_clock_at (w\<lparr>w_schema := sc\<rparr>) = w_clock_at w" "w_uuid (w\<lparr>w_schema := sc\<rparr>) = w_uuid w"
    "w_uuid_at (w\<lparr>w_schema := sc\<rparr>) = w_uuid_at w" "w_db (w\<lparr>w_schema := sc\<rparr>) = w_db w" "w_db_at (w\<lparr>w_schema := sc\<rparr>) = w_db_at w"
  by (cases w, simp)+

section \<open>Keys\<close>

definition hex_digit_value :: "char \<Rightarrow> nat option" where
  "hex_digit_value c = (let n = of_char c :: nat in
     if 48 \<le> n \<and> n \<le> 57 then Some (n - 48) else if 65 \<le> n \<and> n \<le> 70 then Some (n - 55)
     else if 97 \<le> n \<and> n \<le> 102 then Some (n - 87) else None)"

definition ascii_blank :: "char \<Rightarrow> bool" where
  "ascii_blank c = (c \<in> set [CHR '' '', CHR 0x09, CHR 0x0A, CHR 0x0B, CHR 0x0C, CHR 0x0D])"

text \<open>\<open>bytes.fromhex\<close>: blanks are skipped between bytes, anything else raises.\<close>

fun from_hex :: "string \<Rightarrow> exn + nat list" where
  "from_hex [] = Inr []"
| "from_hex [c] = (if ascii_blank c then Inr [] else Inl (Other ''ValueError''))"
| "from_hex (c # d # cs) = (if ascii_blank c then from_hex (d # cs)
     else (case (hex_digit_value c, hex_digit_value d) of
       (Some h, Some l) \<Rightarrow> bindR (from_hex cs) (\<lambda>bs. Inr ((16 * h + l) # bs))
     | _ \<Rightarrow> Inl (Other ''ValueError'')))"

record ('pub, 'priv) key_lib =
  kl_private_of_bytes :: "nat list \<Rightarrow> exn + 'priv"
  kl_public_of_bytes :: "nat list \<Rightarrow> exn + 'pub"
  kl_generated :: 'priv
  kl_private_bytes :: "'priv \<Rightarrow> nat list"
  kl_public_bytes :: "'pub \<Rightarrow> nat list"

definition empty_ring :: "('pub, 'priv) keyring" where
  "empty_ring = \<lparr>kr_public = [], kr_private = []\<rparr>"

definition from_private_key_bytes ::
    "('b, 'pub, 'priv) biscuit_lib \<Rightarrow> ('pub, 'priv) key_lib \<Rightarrow> int \<Rightarrow> nat list \<Rightarrow> exn + ('pub, 'priv) keyring" where
  "from_private_key_bytes lib kl key_id raw = bindR (kl_private_of_bytes kl raw) (\<lambda>p. Inr (add_private_key lib key_id p empty_ring))"

definition generate_ring :: "('b, 'pub, 'priv) biscuit_lib \<Rightarrow> ('pub, 'priv) key_lib \<Rightarrow> int \<Rightarrow> ('pub, 'priv) keyring" where
  "generate_ring lib kl key_id = add_private_key lib key_id (kl_generated kl) empty_ring"

definition public_key_bytes :: "('pub, 'priv) key_lib \<Rightarrow> ('pub, 'priv) keyring \<Rightarrow> int \<Rightarrow> exn + nat list" where
  "public_key_bytes kl ring key_id = bindR (public_key ring (Some key_id)) (\<lambda>p. Inr (kl_public_bytes kl p))"

fun verify_only_keys ::
    "('pub, 'priv) key_lib \<Rightarrow> int \<Rightarrow> (int \<times> string) list \<Rightarrow> ('pub, 'priv) keyring \<Rightarrow> exn + ('pub, 'priv) keyring" where
  "verify_only_keys kl signer [] ring = Inr ring"
| "verify_only_keys kl signer ((key_id, hex_key) # ks) ring =
     (if key_id = signer then verify_only_keys kl signer ks ring
      else bindR (from_hex hex_key) (\<lambda>raw. bindR (kl_public_of_bytes kl raw) (\<lambda>p.
        verify_only_keys kl signer ks (add_public_key key_id p ring))))"

definition build_keyring ::
    "('b, 'pub, 'priv) biscuit_lib \<Rightarrow> ('pub, 'priv) key_lib \<Rightarrow> settings \<Rightarrow> exn + ('pub, 'priv) keyring" where
  "build_keyring lib kl st = bindR
     (case st_root_key_hex st of
        Some (c # cs) \<Rightarrow> bindR (from_hex (c # cs)) (\<lambda>raw. from_private_key_bytes lib kl (st_root_key_id st) raw)
      | _ \<Rightarrow> if \<not> st_allow_ephemeral_root_key st then Inl (hoc ConfigurationError)
          else Inr (generate_ring lib kl (st_root_key_id st)))
     (verify_only_keys kl (st_root_key_id st) (st_root_public_keys st))"

section \<open>Identity and memory\<close>

type_synonym 'w verify_call = "string \<Rightarrow> ('w, exn, verified_identity) eff"

definition build_identity ::
    "pyconv \<Rightarrow> (('x, 'k, 'm) oidc_world_scheme, 'k) oidc_libs
     \<Rightarrow> (string \<Rightarrow> (settings \<Rightarrow> exn + ('x, 'k, 'm) oidc_world_scheme verify_call) entry_point list) \<Rightarrow> settings
     \<Rightarrow> exn + ('x, 'k, 'm) oidc_world_scheme verify_call" where
  "build_identity pc libs installed st =
     (let provider = (\<lambda>fl s. Inr (verify_user_token pc \<lparr>op_config = settings_oidc_config st, op_libs = libs, op_flavour = fl\<rparr>)) in
     bindR (resolve_factory installed (st_identity_provider st)
         [(''keycloak'', provider KeycloakFlavour), (''oidc'', provider GenericProvider)] None ''identity_providers'') (\<lambda>factory.
     case factory of None \<Rightarrow> Inl (hoc ConfigurationError) | Some f \<Rightarrow> f st))"

text \<open>The constructors of the memory clients and what importing \<open>module\<close> and reading \<open>attr\<close> gives: a callable, something else, or an
  exception.\<close>

record 'w memory_libs =
  ml_search :: pg_search
  ml_import :: "string \<Rightarrow> string \<Rightarrow> exn + embedder option"
  ml_mem0 :: "(string \<times> json) list option \<Rightarrow> exn + 'w mem0_client"
  ml_zep :: "string \<Rightarrow> string option \<Rightarrow> exn + 'w zep_client"

definition memory_embedder :: "'w memory_libs \<Rightarrow> settings \<Rightarrow> exn + embedder option" where
  "memory_embedder ml st = (case st_memory_embedder st of
     Some (c # cs) \<Rightarrow> (case partition_char (CHR '':'') (c # cs) of (module_name, sep, attr) \<Rightarrow>
       if \<not> sep then Inl (hoc ConfigurationError)
       else (case ml_import ml module_name attr of
           Inl e \<Rightarrow> if e \<in> {Other ''ImportError'', Other ''AttributeError''} then Inl (hoc ConfigurationError) else Inl e
         | Inr None \<Rightarrow> Inl (hoc ConfigurationError)
         | Inr (Some f) \<Rightarrow> Inr (Some f)))
   | _ \<Rightarrow> Inr None)"

definition configured_mem0 :: "pyconv \<Rightarrow> 'w memory_libs \<Rightarrow> settings \<Rightarrow> exn + 'w memory_adapter" where
  "configured_mem0 pc ml st = bindR
     (case st_mem0_config st of
        Some (c # cs) \<Rightarrow> (case loads (c # cs) of
            None \<Rightarrow> Inl (Other ''ValueError'')
          | Some (JObj kvs) \<Rightarrow> Inr (Some kvs)
          | Some JNull \<Rightarrow> Inr None
          | Some v \<Rightarrow> Inl (hoc ConfigurationError))
      | _ \<Rightarrow> Inr None)
     (\<lambda>config. bindR (ml_mem0 ml config) (\<lambda>cl. Inr (mem0_adapter pc cl)))"

definition configured_zep :: "pyconv \<Rightarrow> 'w memory_libs \<Rightarrow> settings \<Rightarrow> exn + 'w memory_adapter" where
  "configured_zep pc ml st = (case st_zep_api_key st of
     Some (c # cs) \<Rightarrow> bindR (ml_zep ml (c # cs) (case st_zep_base_url st of Some (u # us) \<Rightarrow> Some (u # us) | _ \<Rightarrow> None))
       (\<lambda>cl. Inr (zep_adapter pc cl))
   | _ \<Rightarrow> Inl (hoc ConfigurationError))"

definition build_memory_adapter ::
    "pyconv \<Rightarrow> ('x, 'm) memory_world_scheme memory_libs
     \<Rightarrow> (string \<Rightarrow> (environ \<Rightarrow> exn + ('x, 'm) memory_world_scheme memory_adapter) entry_point list) \<Rightarrow> settings
     \<Rightarrow> exn + ('x, 'm) memory_world_scheme memory_adapter" where
  "build_memory_adapter pc ml installed st =
     bindR (resolve_factory installed (st_memory_backend st)
         [(''inmemory'', \<lambda>_. Inr mem_adapter),
          (''postgres'', \<lambda>_. bindR (memory_embedder ml st) (\<lambda>emb. Inr (pg_adapter (ml_search ml) emb))),
          (''mem0'', \<lambda>_. configured_mem0 pc ml st), (''zep'', \<lambda>_. configured_zep pc ml st)] None ''memory_adapters'') (\<lambda>factory.
     case factory of None \<Rightarrow> Inl (hoc ConfigurationError) | Some f \<Rightarrow> f (st_env st))"

text \<open>
  An identity plugin is called with the settings themselves, the signing key and the database address included: the filter on the
  environment does not apply to it.
\<close>

lemma identity_plugin_gets_settings:
  assumes "st_identity_provider st \<notin> {''keycloak'', ''oidc''}"
    and "installed ''headofcontext.identity_providers'' = [(st_identity_provider st, Inr f)]"
  shows "build_identity pc libs installed st = f st"
  using assms by (simp add: build_identity_def resolve_factory_def GROUPS_def bindR_def)

section \<open>Building the services\<close>

record ('w, 'k, 'b, 'pub, 'priv) service_libs =
  lb_conv :: pyconv
  lb_biscuit :: "('b, 'pub, 'priv) biscuit_lib"
  lb_keys :: "('pub, 'priv) key_lib"
  lb_connect :: "string \<Rightarrow> string \<Rightarrow> string option \<Rightarrow> 'w fga_client"
  lb_ping :: "('w, exn, unit) eff"
  lb_pages :: nat
  lb_oidc :: "('w, 'k) oidc_libs"
  lb_http :: "'w http_post"
  lb_memory :: "'w memory_libs"
  lb_exporter :: "'w audit_sink"
  lb_metrics :: "'w metrics_sink"
  lb_identity_plugins :: "string \<Rightarrow> (settings \<Rightarrow> exn + 'w verify_call) entry_point list"
  lb_memory_plugins :: "string \<Rightarrow> (environ \<Rightarrow> exn + 'w memory_adapter) entry_point list"
  lb_channel_plugins :: "'w channel_factory entry_point list"

record ('w, 'b, 'pub, 'priv) deployment =
  dp_settings :: settings
  dp_services :: "('w, 'b, 'pub, 'priv) services"
  dp_keyring :: "('pub, 'priv) keyring"
  dp_decider :: "'w decider"
  dp_fresh :: "('w, exn, unit) eff"
  dp_readiness :: "'w readiness_probe"
  dp_telemetry :: bool

definition prepare_schema :: "settings \<Rightarrow> (('x, 'k, 'm) service_world_scheme, exn, unit) eff" where
  "prepare_schema st = (if st_db_auto_migrate st then bindE (on_schema migrate) (\<lambda>_. retE ()) else on_schema assert_current)"

definition service_audit :: "('x, 'k, 'm) service_world_scheme audit_sink \<Rightarrow> settings \<Rightarrow> ('x, 'k, 'm) service_world_scheme audit_sink" where
  "service_audit exporter st = (if st_otel_enabled st then composite_record [pg_record, exporter] else pg_record)"

definition service_freshness :: "settings \<Rightarrow> (('x, 'k, 'm) service_world_scheme, exn, unit) eff" where
  "service_freshness st = (if st_connectors_required st
     then pg_conn_assert_fresh (st_openfga_store_id st) (st_connector_max_staleness st) else retE ())"

text \<open>\<open>OpenFgaEngine.connect\<close>: one retry.\<close>

definition service_engine :: "('w, 'k, 'b, 'pub, 'priv) service_libs \<Rightarrow> settings \<Rightarrow> ('w, exn, unit) eff \<Rightarrow> 'w fga" where
  "service_engine lb st check = \<lparr>fga_client = lb_connect lb (st_openfga_url st) (st_openfga_store_id st) (st_openfga_model_id st),
     fga_fresh = check, fga_retries = 1\<rparr>"

definition service_policy :: "settings \<Rightarrow> exn + policy option" where
  "service_policy st = (if st_approval_tools st = [] then Inr None
     else bindR (mk_require_approval (st_approval_tools st) None ''approval_required'') (\<lambda>ra. Inr (Some (require_approval_evaluate ra))))"

text \<open>\<open>build_channels(settings.env)\<close>: the plugins are discovered only when channels are named.\<close>

definition service_channels :: "('w, 'k, 'b, 'pub, 'priv) service_libs \<Rightarrow> settings \<Rightarrow> exn + 'w channel list" where
  "service_channels lb st =
     (let raw = (case map_of (st_env st) ''HOC_APPROVAL_CHANNELS'' of Some t \<Rightarrow> t | None \<Rightarrow> []) in
      if filter (\<lambda>n. n \<noteq> []) (map strip (split_on (CHR '','') raw)) = [] then Inr []
      else bindR (discover_plugins (lb_channel_plugins lb) []) (\<lambda>plugins. build_channels (lb_http lb) (st_env st) plugins))"

definition assemble ::
    "(('x, 'k, 'm) service_world_scheme, 'k, 'b, 'pub, 'priv) service_libs \<Rightarrow> settings \<Rightarrow> ('pub, 'priv) keyring
     \<Rightarrow> ('x, 'k, 'm) service_world_scheme verify_call \<Rightarrow> policy option \<Rightarrow> ('x, 'k, 'm) service_world_scheme channel list
     \<Rightarrow> ('x, 'k, 'm) service_world_scheme memory_adapter \<Rightarrow> (('x, 'k, 'm) service_world_scheme, 'b, 'pub, 'priv) deployment" where
  "assemble lb st ring verify_call pol channels adapter =
     (let pc = lb_conv lb; audit = service_audit (lb_exporter lb) st; check = service_freshness st;
          f = service_engine lb st check; engine = fga_engine f; metrics = lb_metrics lb;
          tokens = \<lparr>tk_lib = lb_biscuit lb, tk_keyring = ring, tk_revocations = pg_revocations, tk_audit = audit,
            tk_key_id = st_root_key_id st, tk_ttl = st_token_ttl st\<rparr>;
          dec = \<lparr>dc_engine = engine, dc_audit = audit, dc_policy = pol, dc_metrics = Some metrics\<rparr> in
      \<lparr>dp_settings = st,
       dp_services =
         \<lparr>sv_identity = verify_call,
          sv_detection = detection_from_settings (st_oidc_agent_claim st) (st_oidc_agent_id_claim st) (st_identity_provider st = ''keycloak''),
          sv_engine = engine, sv_audit = audit, sv_tokens = tokens,
          sv_mandates = \<lparr>ms_store = pg_mand_store pc, ms_tokens = tokens, ms_engine = Some engine, ms_audit = audit,
            ms_max_days = st_mandate_max_days st, ms_default_max_token_ttl = st_token_ttl st\<rparr>,
          sv_gate = \<lparr>ga_decider = dec, ga_approvals = pg_appr_store, ga_audit = audit, ga_ttl = st_approval_ttl st,
            ga_allow_self = st_allow_self_approval st, ga_channels = channels, ga_metrics = Some metrics\<rparr>,
          sv_memory = \<lparr>mv_tuples = fga_tuple_store (lb_pages lb) f, mv_ledger = pg_ledger pc, mv_adapter = adapter, mv_decider = dec,
            mv_audit = audit, mv_namespace = st_memory_namespace st\<rparr>\<rparr>,
       dp_keyring = ring, dp_decider = dec, dp_fresh = check,
       dp_readiness = \<lparr>rp_postgres = on_schema ping, rp_engine = lb_ping lb, rp_freshness = check, rp_latest = LATEST\<rparr>,
       dp_telemetry = st_otel_enabled st\<rparr>)"

definition build_services ::
    "(('x, 'k, 'm) service_world_scheme, 'k, 'b, 'pub, 'priv) service_libs \<Rightarrow> settings
     \<Rightarrow> (('x, 'k, 'm) service_world_scheme, exn, (('x, 'k, 'm) service_world_scheme, 'b, 'pub, 'priv) deployment) eff" where
  "build_services lb st =
     bindE (prepare_schema st) (\<lambda>_.
     bindE (liftE (build_keyring (lb_biscuit lb) (lb_keys lb) st)) (\<lambda>ring.
     bindE (liftE (build_identity (lb_conv lb) (lb_oidc lb) (lb_identity_plugins lb) st)) (\<lambda>verify_call.
     bindE (liftE (service_policy st)) (\<lambda>pol.
     bindE (liftE (service_channels lb st)) (\<lambda>channels.
     bindE (liftE (build_memory_adapter (lb_conv lb) (lb_memory lb) (lb_memory_plugins lb) st)) (\<lambda>adapter.
     retE (assemble lb st ring verify_call pol channels adapter)))))))"

text \<open>\<open>Services.aclose\<close> over what shuts telemetry down and closes the engine's client, the identity provider's and the pools: the first that
  raises leaves the rest open.\<close>

record 'w service_closers =
  cl_telemetry :: "('w, exn, unit) eff"
  cl_engine :: "('w, exn, unit) eff"
  cl_identity :: "('w, exn, unit) eff"
  cl_pools :: "('w, exn, unit) eff"

definition aclose :: "'w service_closers \<Rightarrow> ('w, 'b, 'pub, 'priv) deployment \<Rightarrow> ('w, exn, unit) eff" where
  "aclose cl dp = bindE (if dp_telemetry dp then cl_telemetry cl else retE ()) (\<lambda>_.
     bindE (cl_engine cl) (\<lambda>_. bindE (cl_identity cl) (\<lambda>_. cl_pools cl)))"

section \<open>The key ring\<close>

text \<open>\<open>bytes.hex\<close>, and what is relied on of the keys of the biscuit library: a public key is read from its own bytes.\<close>

definition nibble_char :: "nat \<Rightarrow> char" where
  "nibble_char n = (if n < 10 then char_of (48 + n) else char_of (87 + n))"

definition to_hex :: "nat list \<Rightarrow> string" where
  "to_hex bs = concat (map (\<lambda>b. [nibble_char (b div 16), nibble_char (b mod 16)]) bs)"

definition key_laws :: "('pub, 'priv) key_lib \<Rightarrow> bool" where
  "key_laws kl \<longleftrightarrow> (\<forall>p. kl_public_of_bytes kl (kl_public_bytes kl p) = Inr p \<and> (\<forall>b\<in>set (kl_public_bytes kl p). b < 256))"

lemma ascii_blank_small: "ascii_blank c \<Longrightarrow> of_char c \<le> (32 :: nat)"
  by (auto simp: ascii_blank_def)

lemma nibble:
  assumes "n < 16"
  shows "hex_digit_value (nibble_char n) = Some n \<and> \<not> ascii_blank (nibble_char n)"
proof -
  have code: "of_char (nibble_char n) = (if n < 10 then 48 + n else 87 + n)"
    using assms by (simp add: nibble_char_def)
  then show ?thesis using assms ascii_blank_small [of "nibble_char n"] by (auto simp: hex_digit_value_def Let_def split: if_splits)
qed

lemma from_to_hex: "\<forall>b\<in>set bs. b < 256 \<Longrightarrow> from_hex (to_hex bs) = Inr bs"
proof (induction bs)
  case (Cons b bs)
  then have "b div 16 < 16" "b mod 16 < 16" by auto
  with Cons nibble [of "b div 16"] nibble [of "b mod 16"] show ?case by (simp add: to_hex_def bindR_def)
qed (simp add: to_hex_def)

lemma verify_only_keys_signer:
  "verify_only_keys kl signer ks ring = Inr ring' \<Longrightarrow>
    kr_private ring' = kr_private ring \<and> map_of (kr_public ring') signer = map_of (kr_public ring) signer"
  by (induction kl signer ks ring rule: verify_only_keys.induct)
     (auto simp: bindR_Inr add_public_key_def update_conv split: if_splits)

text \<open>Of several entries for one id the last one counts.\<close>

lemma verify_only_keys_other:
  "verify_only_keys kl signer ks ring = Inr ring' \<Longrightarrow> map_of (rev ks) i = None \<Longrightarrow> map_of (kr_public ring') i = map_of (kr_public ring) i"
  by (induction kl signer ks ring rule: verify_only_keys.induct)
     (auto simp: bindR_Inr add_public_key_def update_conv map_add_def split: if_splits option.splits)

lemma verify_only_keys_listed:
  "verify_only_keys kl signer ks ring = Inr ring' \<Longrightarrow> map_of (rev ks) i = Some h \<Longrightarrow> i \<noteq> signer \<Longrightarrow>
    \<exists>raw p. from_hex h = Inr raw \<and> kl_public_of_bytes kl raw = Inr p \<and> map_of (kr_public ring') i = Some p"
proof (induction kl signer ks ring rule: verify_only_keys.induct)
  case (2 kl signer key_id hex_key ks ring)
  show ?case
  proof (cases "map_of (rev ks) i")
    case None
    with 2(4) have "i = key_id" "h = hex_key" by (auto simp: map_add_def split: if_splits)
    with 2(3,5) obtain raw p where "from_hex h = Inr raw" "kl_public_of_bytes kl raw = Inr p"
      and rest: "verify_only_keys kl signer ks (add_public_key i p ring) = Inr ring'" by (auto simp: bindR_Inr)
    moreover have "map_of (kr_public ring') i = Some p"
      using verify_only_keys_other [OF rest None] by (simp add: add_public_key_def update_conv)
    ultimately show ?thesis by blast
  next
    case (Some h')
    then show ?thesis using 2 by (auto simp: bindR_Inr map_add_def split: if_splits)
  qed
qed simp

lemma built_keyring:
  assumes "build_keyring lib kl st = Inr ring"
  shows "\<exists>priv. (\<forall>i. private_key ring i = (if i = st_root_key_id st then Inr priv else Inl (hoc TokenInvalid)))
    \<and> public_key ring (Some (st_root_key_id st)) = Inr (bl_public_of lib priv)"
proof -
  obtain priv where "verify_only_keys kl (st_root_key_id st) (st_root_public_keys st) (add_private_key lib (st_root_key_id st) priv empty_ring) = Inr ring"
    using assms by (auto simp: build_keyring_def bindR_Inr from_private_key_bytes_def generate_ring_def split: option.splits list.splits if_splits)
  from verify_only_keys_signer [OF this] show ?thesis
    by (intro exI [of _ priv]) (auto simp: add_private_key_def empty_ring_def private_key_def public_key_def update_conv)
qed


section \<open>A service that starts\<close>

lemma build_services_run:
  assumes "build_services lb st w = (Inr dp, w')"
  obtains ring verify_call pol channels adapter where "prepare_schema st w = (Inr (), w')"
    "build_keyring (lb_biscuit lb) (lb_keys lb) st = Inr ring"
    "build_identity (lb_conv lb) (lb_oidc lb) (lb_identity_plugins lb) st = Inr verify_call" "service_policy st = Inr pol"
    "service_channels lb st = Inr channels" "dp = assemble lb st ring verify_call pol channels adapter"
  using assms unfolding build_services_def bindE_Inr by (elim exE conjE) (auto simp: liftE_def retE_def)

lemma assembled [simp]:
  "dp_keyring (assemble lb st ring v pol chs ad) = ring"
  "sv_tokens (dp_services (assemble lb st ring v pol chs ad)) = \<lparr>tk_lib = lb_biscuit lb, tk_keyring = ring, tk_revocations = pg_revocations,
     tk_audit = service_audit (lb_exporter lb) st, tk_key_id = st_root_key_id st, tk_ttl = st_token_ttl st\<rparr>"
  "sv_audit (dp_services (assemble lb st ring v pol chs ad)) = service_audit (lb_exporter lb) st"
  "ga_allow_self (sv_gate (dp_services (assemble lb st ring v pol chs ad))) = st_allow_self_approval st"
  "sv_engine (dp_services (assemble lb st ring v pol chs ad)) = fga_engine (service_engine lb st (service_freshness st))"
  by (simp_all add: assemble_def Let_def)

text \<open>
  C39. A service starts only on the schema of its code and with a key to sign with. When \<open>build_services\<close> returns on a database that
  only these migrations have touched, every migration has been applied, by this start or before it; the key ring holds exactly one signing
  key, the configured one, and verifies under its id with that key's public half, whatever verification keys are listed; a root key was
  given or ephemeral keys are allowed; the first sink of every event is the journal; and the engine asks the connectors' freshness
  before it answers unless the settings say that no connector is required.
\<close>

theorem service_start_grounds:
  fixes lb :: "(('x, 'k, 'm) service_world_scheme, 'k, 'b, 'pub, 'priv) service_libs"
  assumes "build_services lb st w = (Inr dp, w')" "schema_inv (schema_view (w_schema w))"
  shows "schema_at (length MIGRATIONS) (schema_view (w_schema w'))
    \<and> (\<exists>priv. (\<forall>i. private_key (dp_keyring dp) i = (if i = st_root_key_id st then Inr priv else Inl (hoc TokenInvalid)))
        \<and> public_key (dp_keyring dp) (Some (st_root_key_id st)) = Inr (bl_public_of (lb_biscuit lb) priv))
    \<and> ((\<exists>c cs. st_root_key_hex st = Some (c # cs)) \<or> st_allow_ephemeral_root_key st)
    \<and> (\<forall>e w r w2. sv_audit (dp_services dp) e w = (Inr r, w2) \<longrightarrow> (\<exists>w1. pg_record e w = (Inr (), w1)))
    \<and> (st_connectors_required st \<longrightarrow> sv_engine (dp_services dp)
        = fga_engine (service_engine lb st (pg_conn_assert_fresh (st_openfga_store_id st) (st_connector_max_staleness st))))"
proof -
  obtain ring v pol chs ad where prep: "prepare_schema st w = (Inr (), w')" and ring: "build_keyring (lb_biscuit lb) (lb_keys lb) st = Inr ring"
    and dp: "dp = assemble lb st ring v pol chs ad"
    using build_services_run [OF assms(1)] by metis
  have schema: "schema_at (length MIGRATIONS) (schema_view (w_schema w'))"
  proof (cases "st_db_auto_migrate st")
    case True
    then obtain vs s' where run: "migrate (w_schema w) = (Inr vs, s')" "w' = w\<lparr>w_schema := s'\<rparr>"
      using prep by (auto simp: prepare_schema_def bindE_Inr on_schema_def retE_def split: prod.splits)
    then show ?thesis using wp_migrate [OF assms(2)] by (simp add: wp_def)
  next
    case False
    then obtain s' where run: "assert_current (w_schema w) = (Inr (), s')" "w' = w\<lparr>w_schema := s'\<rparr>"
      using prep by (auto simp: prepare_schema_def on_schema_def split: prod.splits)
    note now_latest = assert_current_Inr [OF run(1)]
    from assms(2) show ?thesis
    proof (cases rule: schema_inv_cases)
      case none
      then show ?thesis using now_latest(1) by (simp add: schema_view_def schema_version_def LATEST_eq)
    next
      case (at k)
      then have "k = length MIGRATIONS" using now_latest(1) schema_at_version [OF at(2,1)]
        by (simp add: schema_view_def LATEST_eq length_MIGRATIONS)
      then show ?thesis using at(2) run(2) now_latest(2) by simp
    qed
  qed
  moreover have "(\<exists>c cs. st_root_key_hex st = Some (c # cs)) \<or> st_allow_ephemeral_root_key st"
    using ring by (auto simp: build_keyring_def bindR_Inr split: option.splits list.splits if_splits)
  moreover have "\<exists>w1. pg_record e w = (Inr (), w1)" if "sv_audit (dp_services dp) e w = (Inr r, w2)" for e and w w2 :: "('x, 'k, 'm) service_world_scheme" and r
    using that unfolding dp by (auto simp: service_audit_def composite_record_def forE_def bindE_Inr split: if_splits)
  moreover have "st_connectors_required st \<longrightarrow> sv_engine (dp_services dp)
        = fga_engine (service_engine lb st (pg_conn_assert_fresh (st_openfga_store_id st) (st_connector_max_staleness st)))"
    unfolding dp by (simp add: service_freshness_def)
  ultimately show ?thesis using built_keyring [OF ring] unfolding dp by simp
qed

lemma private_key_ring: "private_key (kr\<lparr>kr_private := kr_private r\<rparr>) k = private_key r k"
  by (simp add: private_key_def)

lemma load_ring: "load lib (kr\<lparr>kr_private := x\<rparr>) t = load lib kr t"
proof -
  have "public_key (kr\<lparr>kr_private := x\<rparr>) k = public_key kr k" for k by (simp add: public_key_def split: option.splits)
  then show ?thesis unfolding load_def by presburger
qed

lemma issued_token_loads_in:
  assumes laws: "biscuit_laws (tk_lib svc) blocks other" "biscuit_runs (tk_lib svc) blocks sealed"
    and key: "private_key (tk_keyring svc) (tk_key_id svc) = Inr priv" "public_key kr (Some (tk_key_id svc)) = Inr (bl_public_of (tk_lib svc) priv)"
    and chain: "root_chain subj act s = Inr c" "finite s" "\<forall>c\<in>s. wf_capability c"
    and run: "issue svc c ttl m w = (Inr i, w')"
  shows "\<exists>l. load (tk_lib svc) kr (it_token i) = Inr l \<and> ld_chain l = c
    \<and> ld_expires_at l = it_expires_at i \<and> ld_mandate_id l = m \<and> loaded_revocation_ids (tk_lib svc) l = it_revocation_ids i"
proof -
  let ?svc = "svc\<lparr>tk_keyring := kr\<lparr>kr_private := kr_private (tk_keyring svc)\<rparr>\<rparr>"
  have "issue ?svc c ttl m w = (Inr i, w')" using run by (simp add: issue_def private_key_ring Let_def split: if_splits)
  moreover have "private_key (tk_keyring ?svc) (tk_key_id ?svc) = Inr priv"
    "public_key (tk_keyring ?svc) (Some (tk_key_id ?svc)) = Inr (bl_public_of (tk_lib ?svc) priv)"
    using key by (simp_all add: private_key_def public_key_def)
  ultimately have "\<exists>l. load (tk_lib ?svc) (tk_keyring ?svc) (it_token i) = Inr l \<and> ld_chain l = c
    \<and> ld_expires_at l = it_expires_at i \<and> ld_mandate_id l = m \<and> loaded_revocation_ids (tk_lib ?svc) l = it_revocation_ids i"
    using issued_token_loads [of ?svc blocks other sealed priv subj act s c ttl m w i w'] laws chain by simp
  then show ?thesis by (simp add: load_ring)
qed

text \<open>
  C40. Rotating the root key invalidates no token. Two services over the same libraries, one before and one after a rotation: when the
  verification keys of the second list the first one's key id with what \<open>hoc keys public\<close> prints for it, a root token the first
  issued loads in the second, with the same chain, expiry, mandate and revocation ids.
\<close>

theorem rotation_keeps_tokens:
  fixes lb :: "(('x, 'k, 'm) service_world_scheme, 'k, 'b, 'pub, 'priv) service_libs"
  assumes laws: "biscuit_laws (lb_biscuit lb) blocks other" "biscuit_runs (lb_biscuit lb) blocks sealed" "key_laws (lb_keys lb)"
    and built: "build_services lb st1 w1 = (Inr dp1, w1')" "build_services lb st2 w2 = (Inr dp2, w2')"
    and rotated: "st_root_key_id st1 \<noteq> st_root_key_id st2"
      "public_key_bytes (lb_keys lb) (dp_keyring dp1) (st_root_key_id st1) = Inr raw"
      "map_of (rev (st_root_public_keys st2)) (st_root_key_id st1) = Some (to_hex raw)"
    and issued: "root_chain subj act s = Inr c" "finite s" "\<forall>c\<in>s. wf_capability c"
      "issue (sv_tokens (dp_services dp1)) c ttl m w = (Inr i, w')"
  shows "\<exists>l. load (lb_biscuit lb) (dp_keyring dp2) (it_token i) = Inr l \<and> ld_chain l = c
    \<and> ld_expires_at l = it_expires_at i \<and> ld_mandate_id l = m \<and> loaded_revocation_ids (lb_biscuit lb) l = it_revocation_ids i"
proof -
  obtain ring1 v1 pol1 chs1 ad1 where ring1: "build_keyring (lb_biscuit lb) (lb_keys lb) st1 = Inr ring1"
    and dp1: "dp1 = assemble lb st1 ring1 v1 pol1 chs1 ad1" using build_services_run [OF built(1)] by metis
  obtain ring2 v2 pol2 chs2 ad2 where ring2: "build_keyring (lb_biscuit lb) (lb_keys lb) st2 = Inr ring2"
    and dp2: "dp2 = assemble lb st2 ring2 v2 pol2 chs2 ad2" using build_services_run [OF built(2)] by metis
  obtain priv where priv: "private_key ring1 (st_root_key_id st1) = Inr priv"
    "public_key ring1 (Some (st_root_key_id st1)) = Inr (bl_public_of (lb_biscuit lb) priv)"
    using built_keyring [OF ring1] by metis
  have raw: "raw = kl_public_bytes (lb_keys lb) (bl_public_of (lb_biscuit lb) priv)"
    using rotated(2) priv(2) by (simp add: dp1 public_key_bytes_def bindR_def)
  obtain r0 where "verify_only_keys (lb_keys lb) (st_root_key_id st2) (st_root_public_keys st2) r0 = Inr ring2"
    using ring2 by (auto simp: build_keyring_def bindR_Inr)
  from verify_only_keys_listed [OF this rotated(3,1)] have "map_of (kr_public ring2) (st_root_key_id st1) = Some (bl_public_of (lb_biscuit lb) priv)"
    using laws(3) from_to_hex [of raw] by (auto simp: raw key_laws_def)
  then have "public_key ring2 (Some (st_root_key_id st1)) = Inr (bl_public_of (lb_biscuit lb) priv)" by (simp add: public_key_def)
  with priv(1) show ?thesis
    using issued_token_loads_in [of "sv_tokens (dp_services dp1)" blocks other sealed priv ring2, OF _ _ _ _ issued] laws(1,2)
    by (simp add: dp1 dp2)
qed


section \<open>Witnesses\<close>

definition unary_keys :: "(int, int) key_lib" where
  "unary_keys = \<lparr>kl_private_of_bytes = (\<lambda>bs. Inr (int (length bs))),
     kl_public_of_bytes = (\<lambda>bs. Inr (case bs of 0 # r \<Rightarrow> - int (length r) | _ \<Rightarrow> int (length bs))),
     kl_generated = 7, kl_private_bytes = (\<lambda>p. replicate (nat p) 1),
     kl_public_bytes = (\<lambda>p. if p < 0 then 0 # replicate (nat (- p)) 1 else replicate (nat p) 1)\<rparr>"

type_synonym start_world = "(unit, unit, unit) service_world_scheme"

definition sample_libs_of ::
    "(start_world, unit, sample_token, int, int) service_libs \<Rightarrow> (start_world, unit, sample_token, int, int) service_libs" where
  "sample_libs_of lb = lb\<lparr>lb_biscuit := sample_lib, lb_keys := unary_keys\<rparr>"

definition old_settings :: settings where
  "old_settings = sample_settings\<lparr>st_root_key_hex := Some ''0102''\<rparr>"

definition new_settings :: settings where
  "new_settings = sample_settings\<lparr>st_root_key_hex := Some ''01'', st_root_key_id := 2, st_root_public_keys := [(1, ''0101'')]\<rparr>"

definition start_of :: "start_world \<Rightarrow> start_world" where
  "start_of w = w\<lparr>w_schema := new_database (\<lambda>_. DbOk), w_db := (\<lambda>_. DbOk), w_journal := []\<rparr>"

lemma start_of_fields:
  "w_schema (start_of w) = new_database (\<lambda>_. DbOk)" "w_db (start_of w) = (\<lambda>_. DbOk)" "w_journal (start_of w) = []"
  by (cases w, simp add: start_of_def)+

lemma unary_key_laws: "key_laws unary_keys"
proof -
  have "(case replicate n (1 :: nat) of 0 # r \<Rightarrow> a r | _ \<Rightarrow> b) = b" for n and a :: "nat list \<Rightarrow> int" and b by (cases n) auto
  then show ?thesis by (auto simp: key_laws_def unary_keys_def)
qed

lemma sample_hex: "from_hex ''0102'' = Inr [1, 2]" "from_hex ''01'' = Inr [1]" "from_hex ''0101'' = Inr [1, 1]" "to_hex [1, 1] = ''0101''"
  by code_simp+

definition old_ring :: "(int, int) keyring" where
  "old_ring = \<lparr>kr_public = [(1, 2)], kr_private = [(1, 2)]\<rparr>"

definition new_ring :: "(int, int) keyring" where
  "new_ring = \<lparr>kr_public = [(2, 1), (1, 2)], kr_private = [(2, 1)]\<rparr>"

lemma sample_rings: "build_keyring sample_lib unary_keys old_settings = Inr old_ring" "build_keyring sample_lib unary_keys new_settings = Inr new_ring"
  by (simp_all add: build_keyring_def old_settings_def new_settings_def sample_settings_def sample_hex bindR_def from_private_key_bytes_def
      add_private_key_def add_public_key_def empty_ring_def unary_keys_def sample_lib_def old_ring_def new_ring_def del: from_hex.simps)

lemma sample_start:
  assumes "st = old_settings \<and> ring = old_ring \<or> st = new_settings \<and> ring = new_ring"
  shows "\<exists>v pol chs ad s. build_services (sample_libs_of lb) st (start_of w)
    = (Inr (assemble (sample_libs_of lb) st ring v pol chs ad), (start_of w)\<lparr>w_schema := s\<rparr>)"
proof -
  obtain s where mig: "migrate (new_database (\<lambda>_. DbOk)) = (Inr [1, 2, 3], s)"
    using migrate_completes_witness by (cases "migrate (new_database (\<lambda>_. DbOk))") simp
  have st: "st_db_auto_migrate st" "st_identity_provider st = ''keycloak''" "st_approval_tools st = []" "st_memory_backend st = ''inmemory''"
    "map_of (st_env st) ''HOC_APPROVAL_CHANNELS'' = None"
    using assms by (auto simp: old_settings_def new_settings_def sample_settings_def)
  have ring: "build_keyring (lb_biscuit (sample_libs_of lb)) (lb_keys (sample_libs_of lb)) st = Inr ring"
    using assms sample_rings by (auto simp: sample_libs_of_def)
  have prep: "prepare_schema st (start_of w) = (Inr (), (start_of w)\<lparr>w_schema := s\<rparr>)"
    using mig st(1) by (simp add: prepare_schema_def bindE_def on_schema_def start_of_fields retE_def)
  obtain v where v: "build_identity (lb_conv (sample_libs_of lb)) (lb_oidc (sample_libs_of lb)) (lb_identity_plugins (sample_libs_of lb)) st = Inr v"
    using st(2) by (simp add: build_identity_def Let_def resolve_factory_def bindR_def)
  have pol: "service_policy st = Inr None" using st(3) by (simp add: service_policy_def)
  have chs: "service_channels (sample_libs_of lb) st = Inr []" 
    unfolding service_channels_def st(5) by (simp only: Let_def option.case sample_env_lists list.map filter.simps simp_thms if_True if_False)
  have ad: "build_memory_adapter (lb_conv (sample_libs_of lb)) (lb_memory (sample_libs_of lb)) (lb_memory_plugins (sample_libs_of lb)) st = Inr mem_adapter"
    unfolding build_memory_adapter_def resolve_factory_def st(4) by (simp add: bindR_def)
  have "build_services (sample_libs_of lb) st (start_of w)
      = (Inr (assemble (sample_libs_of lb) st ring v None [] mem_adapter), (start_of w)\<lparr>w_schema := s\<rparr>)"
    unfolding build_services_def bindE_def liftE_def retE_def prep ring v pol chs ad by simp
  then show ?thesis by (intro exI)
qed

theorem service_start_grounds_witness:
  "\<forall>lb w. \<exists>dp w'. build_services (sample_libs_of lb) old_settings (start_of w) = (Inr dp, w')
    \<and> schema_at (length MIGRATIONS) (schema_view (w_schema w'))"
proof (intro allI)
  fix lb w
  obtain v pol chs ad s where run: "build_services (sample_libs_of lb) old_settings (start_of w)
      = (Inr (assemble (sample_libs_of lb) old_settings old_ring v pol chs ad), (start_of w)\<lparr>w_schema := s\<rparr>)"
    using sample_start [of old_settings old_ring lb w] by auto
  have "schema_inv (schema_view (w_schema (start_of w)))" by (simp add: start_of_fields new_database_inv)
  from service_start_grounds [OF run this] show "\<exists>dp w'. build_services (sample_libs_of lb) old_settings (start_of w) = (Inr dp, w')
      \<and> schema_at (length MIGRATIONS) (schema_view (w_schema w'))" using run by (intro exI conjI) blast+
qed

theorem rotation_keeps_tokens_witness:
  "\<forall>lb w. \<exists>dp1 dp2 w1 w2 i w' l. build_services (sample_libs_of lb) old_settings (start_of w) = (Inr dp1, w1)
    \<and> build_services (sample_libs_of lb) new_settings (start_of w) = (Inr dp2, w2)
    \<and> issue (sv_tokens (dp_services dp1)) sample_chain None None (start_of w) = (Inr i, w')
    \<and> load sample_lib (dp_keyring dp2) (it_token i) = Inr l \<and> ld_chain l = sample_chain"
proof (intro allI)
  fix lb w
  let ?lb = "sample_libs_of lb"
  obtain v1 pol1 chs1 ad1 s1 where run1: "build_services ?lb old_settings (start_of w)
      = (Inr (assemble ?lb old_settings old_ring v1 pol1 chs1 ad1), (start_of w)\<lparr>w_schema := s1\<rparr>)"
    using sample_start [of old_settings old_ring lb w] by auto
  obtain v2 pol2 chs2 ad2 s2 where run2: "build_services ?lb new_settings (start_of w)
      = (Inr (assemble ?lb new_settings new_ring v2 pol2 chs2 ad2), (start_of w)\<lparr>w_schema := s2\<rparr>)"
    using sample_start [of new_settings new_ring lb w] by auto
  have lb: "lb_biscuit ?lb = sample_lib" "lb_keys ?lb = unary_keys" by (simp_all add: sample_libs_of_def)
  have st: "st_root_key_id old_settings = 1" "st_root_key_id new_settings = 2" "st_root_public_keys new_settings = [(1, ''0101'')]"
    "\<not> st_otel_enabled old_settings"
    by (simp_all add: old_settings_def new_settings_def sample_settings_def)
  obtain i w' where iss: "issue (sv_tokens (dp_services (assemble ?lb old_settings old_ring v1 pol1 chs1 ad1))) sample_chain None None (start_of w) = (Inr i, w')"
    by (simp add: issue_def chain_depth_def sample_chain_def [THEN arg_cong [of _ _ ch_delegation]] bindE_def now_def stateE_def Let_def liftE_def
        st old_ring_def private_key_def token_event_def uuid4_hex_def retE_def service_audit_def pg_record_def db_stmt_def start_of_fields lb)
  have chain: "root_chain ''user:alice'' ''agent:a'' (ch_scope sample_chain) = Inr sample_chain" "finite (ch_scope sample_chain)"
    "\<forall>c\<in>ch_scope sample_chain. wf_capability c"
    using sample_roots(1) sample_chain_wf(2) by (simp_all add: wf_scope_def)
  have laws: "biscuit_laws (lb_biscuit ?lb) sample_blocks sample_other" "biscuit_runs (lb_biscuit ?lb) sample_blocks sample_sealed" "key_laws (lb_keys ?lb)"
    by (simp_all add: lb sample_lib_laws sample_lib_runs unary_key_laws)
  have pub: "public_key_bytes (lb_keys ?lb) (dp_keyring (assemble ?lb old_settings old_ring v1 pol1 chs1 ad1)) (st_root_key_id old_settings) = Inr [1, 1]"
    by (simp add: lb st public_key_bytes_def public_key_def old_ring_def bindR_def unary_keys_def numeral_2_eq_2)
  have "st_root_key_id old_settings \<noteq> st_root_key_id new_settings"
    "map_of (rev (st_root_public_keys new_settings)) (st_root_key_id old_settings) = Some (to_hex [1, 1])"
    by (simp_all add: st sample_hex(4) [simplified])
  from rotation_keeps_tokens [OF laws run1 run2 this(1) pub this(2) chain iss] obtain l where
    "load sample_lib (dp_keyring (assemble ?lb new_settings new_ring v2 pol2 chs2 ad2)) (it_token i) = Inr l" "ld_chain l = sample_chain"
    by (auto simp: lb)
  then show "\<exists>dp1 dp2 w1 w2 i w' l. build_services ?lb old_settings (start_of w) = (Inr dp1, w1)
    \<and> build_services ?lb new_settings (start_of w) = (Inr dp2, w2)
    \<and> issue (sv_tokens (dp_services dp1)) sample_chain None None (start_of w) = (Inr i, w')
    \<and> load sample_lib (dp_keyring dp2) (it_token i) = Inr l \<and> ld_chain l = sample_chain"
    using run1 run2 iss by (intro exI conjI) assumption+
qed


end
