(* ===== verification/Spec2Isabelle.thy ===== *)
theory Spec2Isabelle
  imports Audit_Journal Engine_OpenFga Read_Connectors Read_Sources Api_RateLimit Memory_Backends Integ_Frameworks Integ_HocServer Svc_Wiring
begin

text \<open>
  Verification of HeadOfContext, the authorization layer between AI agents and what they read, do and
  remember for one user (\<open>src/src/headofcontext\<close>).

  \<^bold>\<open>The program.\<close> An agent acts for a subject under a signed token. The token proves a principal chain
  (\<open>core/chain.py\<close>): subject, actor, the delegations in between and a scope of capabilities
  (\<open>core/scope.py\<close>). Every question goes through the decider (\<open>core/decider.py\<close>): scope, then the OpenFGA
  engine (\<open>engines/openfga\<close>), then the policy, then the journal (\<open>audit\<close>). On top of it stand the read
  filter (\<open>read/filter.py\<close>), the action gate with human approvals (\<open>actions\<close>), tokens and standing
  mandates (\<open>tokens\<close>), memory with provenance (\<open>memory\<close>), connectors that bring the rights of foreign
  systems into the engine (\<open>read/connectors\<close>), and the integrations that wrap the tools of an agent
  (\<open>integrations\<close>).

  \<^bold>\<open>How the code is modelled.\<close> A call is a function from a world to an outcome and a world
  (\<open>eff\<close> in \<open>Hoc_Prelude\<close>): \<open>Inl\<close> is the exception raised, \<open>Inr\<close> the value returned, and an exception keeps the
  state reached so far. The world (\<open>Rt_World\<close>) has the streams the process reads (clock, uuid4, performance
  counter), the fate of each database statement (applied, lost, or applied with the answer lost) and the
  tables; each component extends the record with its own. Protocols of the source are records of calls, so
  that theorems quantify over every engine, sink, store or channel. Coroutines are run to their end one
  after the other, as \<open>await\<close> does within one request; where several requests meet, in the stores, the
  theorems quantify over all sequences of statements. Third-party code (the biscuit library, the OpenFGA
  client, text search of PostgreSQL, embedders, HTTP, plugins) is an argument, and what the code relies on
  is a named law with an instance.

  \<^bold>\<open>Theories.\<close>
  \<^item> \<open>Hoc_Prelude\<close>: the calls, weakest preconditions (\<open>wp\<close>, collection \<open>wp_rules\<close>), frames (\<open>keeps\<close>, collection
    \<open>keeps_rules\<close>), strings and containers of Python. \<open>Hoc_Errors\<close>: \<open>core/errors.py\<close>.
  \<^item> \<open>Core_Refs\<close>, \<open>Core_Scope\<close>, \<open>Core_Chain\<close>: references, capabilities and scopes, principal chains. Covering is
    inclusion of what is matched; delegation only narrows.
  \<^item> \<open>Py_Json\<close>, \<open>Py_Hash\<close>: \<open>json.dumps\<close> and \<open>loads\<close> with the round trip, SHA-256 and HMAC.
    \<open>Rt_World\<close>: the world and database statements; \<open>atomic\<close> says that a call either does what its abstract
    specification says or, having failed, may or may not have done it.
  \<^item> \<open>Core_Events\<close>, \<open>Core_Decider\<close>, \<open>Core_Permits\<close>: decisions, events, the decider with \<open>decide\<close>, \<open>decide_all\<close> and
    \<open>decide_each\<close>, the answers of a token. The decider fails closed and its three entry points agree.
  \<^item> \<open>Audit_Journal\<close>: the hash chain in PostgreSQL and in memory, its verification and export.
  \<^item> \<open>Engine_OpenFga\<close>, \<open>Read_Connectors\<close>: the engine over an OpenFGA client with retries, connector state stores,
    freshness and reconciliation; the locale of state stores has both stores as instances.
  \<^item> \<open>Read_Filter\<close>: the read filter with both strategies.
  \<^item> \<open>Actions_Policies\<close>, \<open>Actions_Approvals\<close>, \<open>Actions_Gate\<close>: policies, approval stores (a locale with the in-memory and
    the PostgreSQL store as instances, and a step relation on the abstract requests), the gate and redemption.
  \<^item> \<open>Tokens_Biscuit\<close>, \<open>Tokens_Instance\<close>, \<open>Tokens_Mandates\<close>: token service over a biscuit library given by its laws, an
    instance of these laws with the witnesses, mandates with both stores under one locale.
  \<^item> \<open>Memory_Stores\<close>, \<open>Memory_Service\<close>: ledgers and adapters under two locales, \<open>remember\<close>, \<open>recall\<close>, \<open>forget\<close>.
  \<^item> \<open>Integ_Session\<close>, \<open>Integ_Mcp\<close>: the agent session over tokens and gate, the tool guard, the catalog, and the MCP proxy
    that forwards only authorized calls.
  \<^item> \<open>Identity_Callers\<close>, \<open>Identity_Oidc\<close>: who a verified token stands for, agent or human, and the OIDC provider with its
    discovery, cached key set, throttled forced refresh and token exchange. \<open>identity_provider\<close> is the contract the routes rely
    on, interpreted on the provider. httpx and joserfc are arguments; what is relied on of the claims registry is \<open>registry_laws\<close>.
  \<^item> \<open>Api_RateLimit\<close>: the token buckets in front of the routes, with their eviction, and what a key can be admitted on over any run,
    evictions counted. Floats are exact rationals.
  \<^item> \<open>Api_Routes\<close>, \<open>Api_Models\<close>, \<open>Api_Http\<close>: the caller checks and the routes over tokens, actions, approvals, mandates, memory
    and reading; what they answer as JSON and the bounds of their bodies; error statuses, request ids and the order of the
    middlewares. An unproven caller changes nothing.
  \<^item> \<open>Integ_Frameworks\<close>, \<open>Integ_HocServer\<close>: the guard in the tools of LangChain, CrewAI and PydanticAI, and the program's own MCP
    tools, which agree with the HTTP endpoints on requests within the bounds of the HTTP bodies.
  \<^item> \<open>Db_Migrations\<close>: the schema scripts as statements on a catalog, the ledger, and the advisory lock as state of the
    server. \<open>migrate_program\<close> is the code as a program of requests: \<open>migrate\<close> runs it in one process, \<open>mig_step\<close> interleaves any number
    of processes that run the very same program. Statements on the rows of a table fire the triggers of the catalog. \<open>Svc_Readiness\<close>: the readiness probe and the probes that arrive together.
  \<^item> \<open>Cfg_Settings\<close>: every setting with its default and how its text is read, the environment plugins are fed, and their
    discovery.
  \<^item> \<open>Memory_Backends\<close>: the mem0 and Zep adapters over what their clients answer.
  \<^item> \<open>Read_Sources\<close>: the connectors for files, Nextcloud, PipesHub and Keycloak groups over what their sources answer, and
    PipesHub as an index. \<open>acl_source\<close> is the contract of a connector, interpreted on all four: the tuples of a snapshot pass
    the validation of \<open>reconcile\<close>. The loops over pages have a bound on the pages, and are shown to read every page of a
    finite listing when the bound exceeds its pages.
  \<^item> \<open>Svc_Wiring\<close>: how \<open>build_services\<close> puts the services together from the settings, and the key ring with its rotation.

  \<^bold>\<open>Lemma groups.\<close> Per store: every statement is \<open>atomic\<close> with respect to its abstract specification, which
  the locale's interpretation discharges for both implementations. Per service: run lemmas that turn a
  returned value into the calls that were made (\<open>..._run\<close>, \<open>..._grounds\<close>), from which safety properties
  follow, and \<open>wp\<close> lemmas where a result is promised. Witnesses run the theorems on concrete worlds.

  \<^bold>\<open>Bounds and fuel.\<close> Loops over lists are structural. The retries of the OpenFGA client are bounded by its
  constant, and paging takes fuel: \<open>read_pages\<close> is monotone in it. The JSON reader has fuel equal to the
  length of the text, which \<open>loads_dumps\<close> shows to be enough for every text \<open>dumps\<close> writes; \<open>export\<close> terminates for
  every positive batch size and covers its range (\<open>export_covers_range\<close>). Integers are Python's unbounded ones; SHA-256 works
  on 32-bit words, and \<open>int4\<close> is the range of a PostgreSQL column. Characters are code points below 256.

  \<^bold>\<open>Not modelled, and why.\<close>
  The command line; logging and telemetry, which shape lines and spans for libraries and
  on which nothing depends; parsing a request body into its fields, the classes of the agent frameworks and
  the loops that serve MCP and HTTP, which are the libraries'. Column types, defaults and constraints other than keys are left out of
  the catalog. Threads (\<open>core/blocking.py\<close>) only move a call off the event loop.
  Policies and predicates are functions of what they are given, which may raise; telemetry and the construction of clients do not
  fail; a failed insert into the journal uses up no number of its sequence, so that gaps of the sequence are not modelled.
\<close>

end
